(* ===== verification/Prelude.thy ===== *)
theory Prelude
  imports Main "HOL-Library.Word" "HOL-Library.Multiset"
begin

text \<open>
  Shared vocabulary of the development: the fixed-width C integers, the collections of
  simplification rules, the C memory idioms (\<open>memset\<close>, \<open>memcpy\<close> into an array), byte-order
  conversions, and the interface locales that several components implement.

  Conventions used by every theory:
  \<^item> \<open>uint8_t\<close>, \<open>uint16_t\<close>, \<open>uint32_t\<close>, \<open>uint64_t\<close> are words of that width, so \<open>+\<close>, \<open>-\<close>
    and \<open>*\<close> wrap as in C.  \<open>clock_time_t\<close> is a 32-bit tick counter.
  \<^item> A C array is a list; writing index \<open>i\<close> is \<open>xs[i := v]\<close>, copying into it is \<open>memcpy_at\<close>.
    Bounds are proved, never assumed by the list operations.
  \<^item> A flag that the code only sets to 0 and 1 and only tests for truth is a \<^typ>\<open>bool\<close>; so is
    an \<open>int\<close> result that is only 0 or 1.
  \<^item> A pointer argument is the object it points to and the updated object is returned.  A
    pointer that the program itself may find to be \<open>NULL\<close> (a failed search, a missing
    buffer) is an \<^typ>\<open>'a option\<close>.
  \<^item> Every program point that reads \<open>clock_time()\<close> has its own reading, so nothing is assumed
    about how much time passes inside a function.
\<close>

unbundle bit_operations_syntax

section \<open>Machine integers and named collections\<close>

type_synonym u8 = "8 word"
type_synonym u16 = "16 word"
type_synonym u32 = "32 word"
type_synonym u64 = "64 word"
type_synonym clock_time_t = u32

named_theorems mem_simps \<open>length and element facts of C arrays held in lists\<close>
named_theorems word_conv \<open>conversions between word comparisons and \<open>unat\<close>\<close>

lemmas word_unat_conv [word_conv] = word_less_nat_alt word_le_nat_alt word_unat_eq_iff

lemma unat_u8_lt [simp]: "unat (x :: u8) < 256"
  using unsigned_less [of x] by simp

lemma unat_u16_lt [simp]: "unat (x :: u16) < 65536"
  using unsigned_less [of x] by simp

lemma unat_u32_lt [simp]: "unat (x :: u32) < 4294967296"
  using unsigned_less [of x] by simp

lemma unat_ucast_u8_u16 [simp]: "unat (ucast (x :: u8) :: u16) = unat x"
  by (simp add: unsigned_ucast_eq take_bit_nat_eq_self less_trans [OF unat_u8_lt])

lemma unat_ucast_u8_u32 [simp]: "unat (ucast (x :: u8) :: u32) = unat x"
  by (simp add: unsigned_ucast_eq take_bit_nat_eq_self less_trans [OF unat_u8_lt])

lemma unat_ucast_u16_u32 [simp]: "unat (ucast (x :: u16) :: u32) = unat x"
  by (simp add: unsigned_ucast_eq take_bit_nat_eq_self less_trans [OF unat_u16_lt])

lemma unat_of_nat_lt: "n < 2 ^ LENGTH('a::len) \<Longrightarrow> unat (of_nat n :: 'a word) = n"
  by (simp add: unsigned_of_nat take_bit_nat_eq_self)

lemma unat_of_nat_u8 [simp]: "n < 256 \<Longrightarrow> unat (of_nat n :: u8) = n"
  by (rule unat_of_nat_lt) simp

lemma unat_of_nat_u16 [simp]: "n < 65536 \<Longrightarrow> unat (of_nat n :: u16) = n"
  by (rule unat_of_nat_lt) simp

lemma unat_u8_less_trans: "256 \<le> n \<Longrightarrow> unat (x :: u8) < n"
  by (rule less_le_trans [OF unat_u8_lt])

lemma unat_plus_small:
  "unat (a :: 'a::len word) + unat b < 2 ^ LENGTH('a) \<Longrightarrow> unat (a + b) = unat a + unat b"
  by (simp add: unat_add_lem)

lemma unat_Suc_small:
  "unat (a :: 'a::len word) + 1 < 2 ^ LENGTH('a) \<Longrightarrow> unat (a + 1) = Suc (unat a)"
  using unat_plus_small [of a 1] by (cases "LENGTH('a)") auto

text \<open>A byte that is compared after widening keeps its value.\<close>

lemma ucast_u8_u16_le_iff [simp]:
  "(ucast (a :: u8) :: u16) \<le> ucast b \<longleftrightarrow> a \<le> b"
  by (simp add: word_conv)

section \<open>C arrays: copying and clearing\<close>

text \<open>\<open>memcpy_at buf off src\<close> is \<open>buf\<close> after \<open>memcpy(&buf[off], src, length src)\<close>.\<close>

definition memcpy_at :: "'a list \<Rightarrow> nat \<Rightarrow> 'a list \<Rightarrow> 'a list" where
  "memcpy_at buf off src = take off buf @ src @ drop (off + length src) buf"

lemma length_memcpy_at [mem_simps, simp]:
  "off + length src \<le> length buf \<Longrightarrow> length (memcpy_at buf off src) = length buf"
  by (simp add: memcpy_at_def)

lemma nth_memcpy_at [mem_simps]:
  assumes "off + length src \<le> length buf" and "k < length buf"
  shows "memcpy_at buf off src ! k =
    (if off \<le> k \<and> k < off + length src then src ! (k - off) else buf ! k)"
  using assms by (auto simp: memcpy_at_def nth_append min_def)

lemma memcpy_at_Nil [simp]: "memcpy_at buf off [] = buf"
  by (simp add: memcpy_at_def)

lemma take_drop_memcpy_at [mem_simps]:
  "off + length src \<le> length buf \<Longrightarrow> take (length src) (drop off (memcpy_at buf off src)) = src"
  by (simp add: memcpy_at_def)

lemma take_memcpy_at_0 [mem_simps]:
  "length src \<le> length buf \<Longrightarrow> take (length src) (memcpy_at buf 0 src) = src"
  by (simp add: memcpy_at_def)

text \<open>A window of the array that does not meet the copied range is unchanged.\<close>

lemma window_memcpy_at:
  assumes "off + length src \<le> length buf" and "i + n \<le> length buf"
    and "i + n \<le> off \<or> off + length src \<le> i"
  shows "take n (drop i (memcpy_at buf off src)) = take n (drop i buf)"
  by (rule nth_equalityI) (use assms in \<open>auto simp: nth_memcpy_at\<close>)

lemma drop_Suc_nth: "n < length xs \<Longrightarrow> drop n xs = xs ! n # drop (Suc n) xs"
  by (rule Cons_nth_drop_Suc [symmetric])

section \<open>Searching an array by index\<close>

text \<open>
  \<open>first_index P n\<close> is the loop \<open>for(i = 0; i < n; i++) if(P(i)) return i;\<close> with the
  not-found exit as \<^const>\<open>None\<close>.
\<close>

definition first_index :: "(nat \<Rightarrow> bool) \<Rightarrow> nat \<Rightarrow> nat option" where
  "first_index P n = find P [0..<n]"

lemma first_index_None: "first_index P n = None \<longleftrightarrow> (\<forall>i<n. \<not> P i)"
  by (auto simp: first_index_def find_None_iff)

lemma first_index_Some:
  "first_index P n = Some i \<longleftrightarrow> i < n \<and> P i \<and> (\<forall>j<i. \<not> P j)"
  unfolding first_index_def find_Some_iff by (auto intro!: exI [of _ i])

lemma first_index_SomeD:
  "first_index P n = Some i \<Longrightarrow> i < n" "first_index P n = Some i \<Longrightarrow> P i"
  by (auto simp: first_index_Some)

lemma first_index_exI: "i < n \<Longrightarrow> P i \<Longrightarrow> \<exists>j. first_index P n = Some j"
  using first_index_None [of P n] by (cases "first_index P n") auto

lemma first_index_cong:
  "(\<And>i. i < n \<Longrightarrow> P i = Q i) \<Longrightarrow> first_index P n = first_index Q n"
  unfolding first_index_def by (rule find_cong) auto

section \<open>Counting the elements of an array that satisfy a test\<close>

definition count_if :: "('a \<Rightarrow> bool) \<Rightarrow> 'a list \<Rightarrow> nat" where
  "count_if P xs = length (filter P xs)"

lemma count_if_le [simp]: "count_if P xs \<le> length xs"
  by (simp add: count_if_def)

lemma count_if_Nil [simp]: "count_if P [] = 0"
  by (simp add: count_if_def)

lemma count_if_Cons [simp]: "count_if P (x # xs) = (if P x then Suc (count_if P xs) else count_if P xs)"
  by (simp add: count_if_def)

lemma count_if_replicate [simp]: "count_if P (replicate n x) = (if P x then n else 0)"
  by (simp add: count_if_def)

lemma count_if_append [simp]: "count_if P (xs @ ys) = count_if P xs + count_if P ys"
  by (simp add: count_if_def)

lemma count_if_take_drop: "count_if P (take n xs) + count_if P (drop n xs) = count_if P xs"
  by (metis append_take_drop_id count_if_append)

lemma count_if_set:
  assumes "i < length xs" and "\<not> P (xs ! i)" and "P v"
  shows "count_if P (xs[i := v]) = Suc (count_if P xs)"
  using assms by (induction xs arbitrary: i) (auto split: nat.splits)

lemma count_if_clear:
  assumes "i < length xs" and "P (xs ! i)" and "\<not> P v"
  shows "Suc (count_if P (xs[i := v])) = count_if P xs"
  using assms by (induction xs arbitrary: i) (auto split: nat.splits)

lemma count_if_same:
  assumes "i < length xs" and "P (xs ! i) = P v"
  shows "count_if P (xs[i := v]) = count_if P xs"
  using assms by (induction xs arbitrary: i) (auto split: nat.splits)

lemma count_if_0_iff: "count_if P xs = 0 \<longleftrightarrow> (\<forall>x\<in>set xs. \<not> P x)"
  by (simp add: count_if_def filter_empty_conv)

lemma count_if_full_iff: "count_if P xs = length xs \<longleftrightarrow> (\<forall>x\<in>set xs. P x)"
  using length_filter_less [of _ xs P] by (fastforce simp: count_if_def)

lemma count_if_pos: "0 < count_if P xs \<longleftrightarrow> (\<exists>i<length xs. P (xs ! i))"
  using count_if_0_iff [of P xs] by (metis in_set_conv_nth neq0_conv)

section \<open>Byte order\<close>

lemma be32_split_join:
  fixes v :: u32
  shows "push_bit 24 (ucast (ucast (drop_bit 24 v) :: u8)) OR
         push_bit 16 (ucast (ucast (drop_bit 16 v) :: u8)) OR
         push_bit 8 (ucast (ucast (drop_bit 8 v) :: u8)) OR
         (ucast (ucast v :: u8)) = v" (is "?l = v")
proof (rule bit_word_eqI)
  fix n assume "n < LENGTH(32)"
  then consider "n < 8" | "8 \<le> n" "n < 16" | "16 \<le> n" "n < 24" | "24 \<le> n" "n < 32" by force
  then show "bit ?l n = bit v n"
    by cases (auto simp: bit_simps)
qed

text \<open>The same value laid out least significant byte first, as the Cortex-M stores a struct field.\<close>

definition le32_bytes :: "u32 \<Rightarrow> u8 list" where
  "le32_bytes v = [ucast v, ucast (drop_bit 8 v), ucast (drop_bit 16 v), ucast (drop_bit 24 v)]"

definition le32_word :: "u8 list \<Rightarrow> u32" where
  "le32_word bs = push_bit 24 (ucast (bs ! 3)) OR push_bit 16 (ucast (bs ! 2)) OR
     push_bit 8 (ucast (bs ! 1)) OR ucast (bs ! 0)"

lemma length_le32_bytes [simp]: "length (le32_bytes v) = 4"
  by (simp add: le32_bytes_def)

lemma le32_word_bytes [simp]: "le32_word (le32_bytes v) = v"
  by (simp add: le32_word_def le32_bytes_def be32_split_join)

lemma u8_of_le32_word:
  fixes a b c d :: u8
  defines "v \<equiv> push_bit 24 (ucast d) OR push_bit 16 (ucast c) OR push_bit 8 (ucast b) OR ucast a :: u32"
  shows "ucast v = a" "ucast (drop_bit 8 v) = b" "ucast (drop_bit 16 v) = c" "ucast (drop_bit 24 v) = d"
  unfolding v_def by (rule bit_word_eqI; auto simp: bit_simps dest: bit_imp_le_length)+

lemma length_eq_4: "length bs = 4 \<longleftrightarrow> (\<exists>a b c d. bs = [a, b, c, d])"
  by (auto simp: length_Suc_conv eval_nat_numeral)

lemma le32_bytes_word:
  assumes "length bs = 4"
  shows "le32_bytes (le32_word bs) = bs"
proof -
  from assms obtain a b c d where bs: "bs = [a, b, c, d]"
    by (auto simp: length_eq_4)
  show ?thesis
    unfolding bs le32_word_def le32_bytes_def
    using u8_of_le32_word [where a = a and b = b and c = c and d = d]
    by (simp del: drop_bit_or)
qed

section \<open>Interface: wire formats\<close>

text \<open>
  A wire format: what a component promises about the bytes it writes.  \<open>wf\<close> is the set of
  values the encoder accepts, \<open>decode\<close> returns \<^const>\<open>None\<close> for a rejected packet.
\<close>

locale wire_format =
  fixes encode :: "'a \<Rightarrow> u8 list"
    and decode :: "u8 list \<Rightarrow> 'a option"
    and wf :: "'a \<Rightarrow> bool"
  assumes decode_encode: "wf x \<Longrightarrow> decode (encode x) = Some x"
begin

lemma encode_inj: "wf x \<Longrightarrow> wf y \<Longrightarrow> encode x = encode y \<Longrightarrow> x = y"
  by (metis decode_encode option.inject)

lemma inj_on_encode: "inj_on encode {x. wf x}"
  by (rule inj_onI) (auto intro: encode_inj)

end

text \<open>A format is canonical when the decoder accepts nothing but encodings.\<close>

locale canonical_format = wire_format +
  assumes encode_decode: "decode bs = Some x \<Longrightarrow> wf x \<and> encode x = bs"
begin

lemma decode_Some_iff: "decode bs = Some x \<longleftrightarrow> wf x \<and> encode x = bs"
  using decode_encode encode_decode by blast

lemma decode_inj: "decode bs = Some x \<Longrightarrow> decode bs' = Some x \<Longrightarrow> bs = bs'"
  using encode_decode by metis

lemma decode_None_iff: "decode bs = None \<longleftrightarrow> bs \<notin> encode ` {x. wf x}"
proof (cases "decode bs")
  case None
  then have "bs \<noteq> encode x" if "wf x" for x
    using decode_encode [OF that] by auto
  with None show ?thesis by auto
next
  case (Some x)
  then show ?thesis using encode_decode [OF Some] by auto
qed

end

section \<open>Interface: bounded queues\<close>

text \<open>Reading a queue a number of times, collecting what comes out.\<close>

fun get_all :: "('s \<Rightarrow> 'a option \<times> 's) \<Rightarrow> nat \<Rightarrow> 's \<Rightarrow> 'a list \<times> 's" where
  "get_all get 0 s = ([], s)"
| "get_all get (Suc n) s =
     (case get s of
        (None, s') \<Rightarrow> get_all get n s'
      | (Some x, s') \<Rightarrow> (case get_all get n s' of (xs, t) \<Rightarrow> (x # xs, t)))"

text \<open>
  A producer puts items, which a full queue drops, and a consumer takes the oldest one.  \<open>accepts\<close> is
  what the producer checks of its input and \<open>item\<close> the part of it that is queued.
\<close>

locale bounded_fifo =
  fixes invar :: "'s \<Rightarrow> bool"
    and contents :: "'s \<Rightarrow> 'a list"
    and capacity :: nat
    and accepts :: "'x \<Rightarrow> bool"
    and item :: "'x \<Rightarrow> 'a"
    and put :: "'x \<Rightarrow> 's \<Rightarrow> 's"
    and get :: "'s \<Rightarrow> 'a option \<times> 's"
  assumes put_invar: "invar s \<Longrightarrow> accepts x \<Longrightarrow> invar (put x s)"
    and put_contents: "invar s \<Longrightarrow> accepts x \<Longrightarrow>
      contents (put x s) = (if length (contents s) < capacity then contents s @ [item x] else contents s)"
    and get_spec: "invar s \<Longrightarrow> get s = (r, s') \<Longrightarrow>
      invar s' \<and> r = (case contents s of [] \<Rightarrow> None | x # xs \<Rightarrow> Some x) \<and> contents s' = tl (contents s)"
begin

lemma put_burst:
  assumes "invar s" and "\<forall>x\<in>set xs. accepts x"
  shows "invar (fold put xs s) \<and>
    contents (fold put xs s) = contents s @ map item (take (capacity - length (contents s)) xs)"
  using assms
proof (induction xs arbitrary: s)
  case (Cons x xs)
  then have "invar (put x s)" "\<forall>x\<in>set xs. accepts x" by (auto intro: put_invar)
  note ih = Cons.IH [OF this]
  show ?case
  proof (cases "length (contents s) < capacity")
    case True
    then have "take (capacity - length (contents s)) (x # xs) = x # take (capacity - Suc (length (contents s))) xs"
      by (metis Suc_diff_Suc take_Suc_Cons)
    with True ih Cons.prems put_contents [of s x] show ?thesis by simp
  next
    case False
    with ih Cons.prems put_contents [of s x] show ?thesis by simp
  qed
qed simp

lemma get_all_contents:
  assumes "invar s"
  shows "fst (get_all get n s) = take n (contents s) \<and> invar (snd (get_all get n s)) \<and>
    contents (snd (get_all get n s)) = drop n (contents s)"
  using assms
proof (induction n arbitrary: s)
  case (Suc n)
  obtain r s' where g: "get s = (r, s')" by fastforce
  note sp = get_spec [OF Suc.prems g]
  show ?case
    using sp g Suc.IH [of s'] by (cases "contents s") (auto split: prod.split)
qed simp

text \<open>What goes in comes out, in order, up to the capacity.\<close>

lemma burst_roundtrip:
  assumes "invar s" and "contents s = []" and "\<forall>x\<in>set xs. accepts x"
  shows "fst (get_all get (length xs) (fold put xs s)) = map item (take capacity xs)"
  using put_burst [OF assms(1,3)] get_all_contents [of "fold put xs s" "length xs"] assms(2)
  by (simp add: take_map min_def)

end

section \<open>Interface: tables of reusable slots\<close>

text \<open>
  Two components keep a fixed array of slots that are found by a key and allocated on first use:
  the sessions of the root and the reassembly contexts of the handshake.  \<open>acquire\<close> is the
  operation that returns the slot of a key, allocating one if there is none.
\<close>

locale slot_table =
  fixes used :: "'e \<Rightarrow> bool"
    and key :: "'e \<Rightarrow> 'k option"
    and lookup :: "'k \<Rightarrow> 'e list \<Rightarrow> nat option"
    and acquire :: "'k \<Rightarrow> 'e list \<Rightarrow> nat option \<times> 'e list"
  assumes lookup_first: "lookup k es = first_index (\<lambda>i. used (es ! i) \<and> key (es ! i) = Some k) (length es)"
    and acquire_hit: "lookup k es = Some i \<Longrightarrow> acquire k es = (Some i, es)"
    and acquire_miss: "lookup k es = None \<Longrightarrow> first_index (\<lambda>i. \<not> used (es ! i)) (length es) = Some j \<Longrightarrow>
      \<exists>e. acquire k es = (Some j, es[j := e]) \<and> used e \<and> key e = Some k"
    and acquire_full: "lookup k es = None \<Longrightarrow> first_index (\<lambda>i. \<not> used (es ! i)) (length es) = None \<Longrightarrow>
      acquire k es = (None, es)"
begin

text \<open>No two used slots have the same key.\<close>

definition keys_distinct :: "'e list \<Rightarrow> bool" where
  "keys_distinct es \<longleftrightarrow> (\<forall>i<length es. \<forall>j<length es.
     used (es ! i) \<longrightarrow> used (es ! j) \<longrightarrow> key (es ! i) = key (es ! j) \<longrightarrow> i = j)"

lemma lookup_Some: "lookup k es = Some i \<Longrightarrow> i < length es \<and> used (es ! i) \<and> key (es ! i) = Some k"
  by (simp add: lookup_first first_index_Some)

lemma lookup_None: "lookup k es = None \<longleftrightarrow> (\<forall>i<length es. used (es ! i) \<longrightarrow> key (es ! i) \<noteq> Some k)"
  by (auto simp: lookup_first first_index_None)

lemma lookup_unique:
  assumes "keys_distinct es" "i < length es" "used (es ! i)" "key (es ! i) = Some k"
  shows "lookup k es = Some i"
proof (cases "lookup k es")
  case None
  then show ?thesis using assms(2-4) by (auto simp: lookup_None)
next
  case (Some j)
  from lookup_Some [OF this] assms have "j = i" unfolding keys_distinct_def by metis
  with Some show ?thesis by simp
qed

lemma acquire_length:
  assumes "acquire k es = (r, es')"
  shows "length es' = length es"
proof (cases "lookup k es")
  case (Some j)
  with assms acquire_hit [OF Some] show ?thesis by simp
next
  case None
  with assms acquire_full [OF None] acquire_miss [OF None] show ?thesis
    by (cases "first_index (\<lambda>i. \<not> used (es ! i)) (length es)") fastforce+
qed

text \<open>Allocation keeps the keys distinct, and afterwards the key is found at the returned slot.\<close>

lemma acquire_lookup:
  assumes "keys_distinct es" and "acquire k es = (Some i, es')"
  shows "keys_distinct es' \<and> lookup k es' = Some i"
proof (cases "lookup k es")
  case (Some j)
  with assms acquire_hit [OF Some] show ?thesis by auto
next
  case None
  then obtain j where j: "first_index (\<lambda>i. \<not> used (es ! i)) (length es) = Some j"
    using acquire_full [OF None] assms(2) by (cases "first_index (\<lambda>i. \<not> used (es ! i)) (length es)") auto
  with acquire_miss [OF None j] assms(2) obtain e where
    e: "i = j" "es' = es[j := e]" "used e" "key e = Some k" by auto
  have jl: "j < length es" using j by (simp add: first_index_Some)
  have "keys_distinct es'"
    using assms(1) None e jl by (auto simp: keys_distinct_def lookup_None nth_list_update)
  moreover have "lookup k es' = Some j"
    using e jl by (intro lookup_unique calculation) auto
  ultimately show ?thesis using e by simp
qed

text \<open>The slots of other keys are left alone.\<close>

lemma acquire_other:
  assumes "keys_distinct es" and "acquire k es = (r, es')" and "lookup k' es = Some i" and "k' \<noteq> k"
  shows "lookup k' es' = Some i \<and> es' ! i = es ! i"
proof (cases "lookup k es")
  case (Some j)
  with assms acquire_hit [OF Some] show ?thesis by auto
next
  case None
  show ?thesis
  proof (cases "first_index (\<lambda>i. \<not> used (es ! i)) (length es)")
    case n: None
    with acquire_full [OF None n] assms show ?thesis by auto
  next
    case (Some j)
    with acquire_miss [OF None Some] assms(2) obtain e where e: "es' = es[j := e]" "used e" "key e = Some k" by auto
    have j: "j < length es" "\<not> used (es ! j)" using Some by (auto simp: first_index_Some)
    have i: "i < length es" "used (es ! i)" "key (es ! i) = Some k'" using lookup_Some [OF assms(3)] by auto
    have ij: "i \<noteq> j" using i(2) j(2) by auto
    have "keys_distinct es'"
      using assms(1) None e j by (auto simp: keys_distinct_def lookup_None nth_list_update)
    from lookup_unique [OF this, of i k'] i ij e(1) show ?thesis by simp
  qed
qed

text \<open>Allocation fails exactly when the key is unknown and every slot is taken.\<close>

lemma acquire_fails_iff:
  "fst (acquire k es) = None \<longleftrightarrow> lookup k es = None \<and> (\<forall>i<length es. used (es ! i))"
proof (cases "lookup k es")
  case (Some j)
  with acquire_hit [OF Some] show ?thesis by auto
next
  case None
  show ?thesis
  proof (cases "first_index (\<lambda>i. \<not> used (es ! i)) (length es)")
    case n: None
    with acquire_full [OF None n] None show ?thesis by (simp add: first_index_None)
  next
    case (Some j)
    then have "j < length es" "\<not> used (es ! j)" by (auto simp: first_index_Some)
    with acquire_miss [OF None Some] show ?thesis by auto
  qed
qed

end

end
