(* ===== verification/Protocol.thy ===== *)
theory Protocol
  imports Prelude
begin

text \<open>
  The packet format of \<open>src/src/common/protocol.h\<close>: message types, the ten-byte header, its
  writer, its validity test, and the measurement payload as it lies in memory.  The header
  is shown to be a wire format in the sense of \<open>wire_format\<close>.
\<close>

section \<open>Constants\<close>

definition PQC_PROTO_VERSION :: u8 where "PQC_PROTO_VERSION = 1"

definition PQC_MSG_PK :: u8 where "PQC_MSG_PK = 1"
definition PQC_MSG_CT :: u8 where "PQC_MSG_CT = 2"
definition PQC_MSG_ACK :: u8 where "PQC_MSG_ACK = 3"
definition PQC_MSG_TEMP :: u8 where "PQC_MSG_TEMP = 4"
definition PQC_MSG_METRICS :: u8 where "PQC_MSG_METRICS = 5"
definition PQC_MSG_GETPK :: u8 where "PQC_MSG_GETPK = 6"
definition PQC_MSG_NACK :: u8 where "PQC_MSG_NACK = 7"

definition PQC_FLAG_NONE :: u8 where "PQC_FLAG_NONE = 0x00"
definition PQC_FLAG_RETRY :: u8 where "PQC_FLAG_RETRY = 0x01"

abbreviation (input) PQC_HEADER_LEN :: nat where "PQC_HEADER_LEN \<equiv> 10"

abbreviation (input) PQC_HDR_VERSION :: nat where "PQC_HDR_VERSION \<equiv> 0"
abbreviation (input) PQC_HDR_MSG_TYPE :: nat where "PQC_HDR_MSG_TYPE \<equiv> 1"
abbreviation (input) PQC_HDR_NODE_ID_H :: nat where "PQC_HDR_NODE_ID_H \<equiv> 2"
abbreviation (input) PQC_HDR_NODE_ID_L :: nat where "PQC_HDR_NODE_ID_L \<equiv> 3"
abbreviation (input) PQC_HDR_MSG_ID :: nat where "PQC_HDR_MSG_ID \<equiv> 4"
abbreviation (input) PQC_HDR_FRAG_IDX :: nat where "PQC_HDR_FRAG_IDX \<equiv> 5"
abbreviation (input) PQC_HDR_TOTAL_FRAGS :: nat where "PQC_HDR_TOTAL_FRAGS \<equiv> 6"
abbreviation (input) PQC_HDR_PAYLOAD_LEN :: nat where "PQC_HDR_PAYLOAD_LEN \<equiv> 7"
abbreviation (input) PQC_HDR_FLAGS :: nat where "PQC_HDR_FLAGS \<equiv> 8"
abbreviation (input) PQC_HDR_RESERVED :: nat where "PQC_HDR_RESERVED \<equiv> 9"

lemmas msg_type_defs = PQC_MSG_PK_def PQC_MSG_CT_def PQC_MSG_ACK_def PQC_MSG_TEMP_def
  PQC_MSG_METRICS_def PQC_MSG_GETPK_def PQC_MSG_NACK_def

text \<open>\<open>SEND_INTERVAL\<close> is a quarter of the platform's \<open>CLOCK_SECOND\<close>, an argument here.\<close>

definition SEND_INTERVAL :: "u32 \<Rightarrow> u32" where "SEND_INTERVAL clock_second = clock_second div 4"

section \<open>The measurement payload\<close>

record pqc_temp_payload_t =
  tp_counter :: u32
  tp_rh_milli :: u32
  tp_temp_milli :: u32

text \<open>
  The two measurements are \<open>int32_t\<close>; they are carried as their 32-bit patterns.  The struct
  has three four-byte members and no padding, so its memory image has twelve bytes.
\<close>

definition temp_payload_bytes :: "pqc_temp_payload_t \<Rightarrow> u8 list" where
  "temp_payload_bytes p =
     le32_bytes (tp_counter p) @ le32_bytes (tp_rh_milli p) @ le32_bytes (tp_temp_milli p)"

definition temp_payload_of_bytes :: "u8 list \<Rightarrow> pqc_temp_payload_t" where
  "temp_payload_of_bytes bs =
     \<lparr>tp_counter = le32_word (take 4 bs),
      tp_rh_milli = le32_word (take 4 (drop 4 bs)),
      tp_temp_milli = le32_word (take 4 (drop 8 bs))\<rparr>"

abbreviation (input) TEMP_PAYLOAD_SIZE :: nat where "TEMP_PAYLOAD_SIZE \<equiv> 12"

section \<open>The header\<close>

definition pqc_node_id_from_linkaddr :: "u8 list \<Rightarrow> u16" where
  "pqc_node_id_from_linkaddr addr =
     (if 2 \<le> length addr
      then push_bit 8 (ucast (addr ! (length addr - 2))) OR ucast (addr ! (length addr - 1))
      else ucast (addr ! 0))"

definition pqc_header_valid :: "u8 list \<Rightarrow> u16 \<Rightarrow> bool" where
  "pqc_header_valid buf len \<longleftrightarrow>
     of_nat PQC_HEADER_LEN \<le> len \<and>
     buf ! PQC_HDR_VERSION = PQC_PROTO_VERSION \<and>
     (of_nat PQC_HEADER_LEN + ucast (buf ! PQC_HDR_PAYLOAD_LEN) :: u16) \<le> len"

definition pqc_header_get_node_id :: "u8 list \<Rightarrow> u16" where
  "pqc_header_get_node_id buf =
     push_bit 8 (ucast (buf ! PQC_HDR_NODE_ID_H)) OR ucast (buf ! PQC_HDR_NODE_ID_L)"

definition pqc_header_set_node_id :: "u8 list \<Rightarrow> u16 \<Rightarrow> u8 list" where
  "pqc_header_set_node_id buf node_id =
     buf[PQC_HDR_NODE_ID_H := ucast (drop_bit 8 node_id), PQC_HDR_NODE_ID_L := ucast node_id]"

definition pqc_header_write ::
  "u8 list \<Rightarrow> u8 \<Rightarrow> u16 \<Rightarrow> u8 \<Rightarrow> u8 \<Rightarrow> u8 \<Rightarrow> u8 \<Rightarrow> u8 \<Rightarrow> u8 list" where
  "pqc_header_write buf msg_type node_id msg_id frag_idx total_frags payload_len flags =
     (let buf = buf[PQC_HDR_VERSION := PQC_PROTO_VERSION];
          buf = buf[PQC_HDR_MSG_TYPE := msg_type];
          buf = pqc_header_set_node_id buf node_id;
          buf = buf[PQC_HDR_MSG_ID := msg_id];
          buf = buf[PQC_HDR_FRAG_IDX := frag_idx];
          buf = buf[PQC_HDR_TOTAL_FRAGS := total_frags];
          buf = buf[PQC_HDR_PAYLOAD_LEN := payload_len];
          buf = buf[PQC_HDR_FLAGS := flags];
          buf = buf[PQC_HDR_RESERVED := 0]
      in buf)"

section \<open>What the header carries\<close>

lemma node_id_split_join:
  "push_bit 8 (ucast (ucast (drop_bit 8 (n :: u16)) :: u8)) OR ucast (ucast n :: u8) = n"
  by (rule bit_word_eqI) (auto simp: bit_simps)

lemma temp_payload_bytes_length [simp]: "length (temp_payload_bytes p) = TEMP_PAYLOAD_SIZE"
  by (simp add: temp_payload_bytes_def)

lemma temp_payload_roundtrip [simp]: "temp_payload_of_bytes (temp_payload_bytes p) = p"
  by (simp add: temp_payload_of_bytes_def temp_payload_bytes_def)

lemma length_header_write [simp]:
  "length (pqc_header_write buf a b c d e f g) = length buf"
  by (simp add: pqc_header_write_def pqc_header_set_node_id_def Let_def)

lemma header_write_fields:
  assumes "PQC_HEADER_LEN \<le> length buf"
    and h_def: "h = pqc_header_write buf msg_type node_id msg_id frag_idx total_frags payload_len flags"
  shows "h ! PQC_HDR_VERSION = PQC_PROTO_VERSION" "h ! PQC_HDR_MSG_TYPE = msg_type"
    "pqc_header_get_node_id h = node_id" "h ! PQC_HDR_MSG_ID = msg_id"
    "h ! PQC_HDR_FRAG_IDX = frag_idx" "h ! PQC_HDR_TOTAL_FRAGS = total_frags"
    "h ! PQC_HDR_PAYLOAD_LEN = payload_len" "h ! PQC_HDR_FLAGS = flags"
    "h ! PQC_HDR_RESERVED = 0"
  using assms(1) less_le_trans [OF _ assms(1), of 0]
  by (simp_all add: h_def pqc_header_write_def pqc_header_set_node_id_def
      pqc_header_get_node_id_def Let_def node_id_split_join)

text \<open>The writer touches the ten header bytes and nothing behind them.\<close>

lemma header_write_frame:
  "PQC_HEADER_LEN \<le> k \<Longrightarrow>
     pqc_header_write buf msg_type node_id msg_id frag_idx total_frags payload_len flags ! k = buf ! k"
  by (simp add: pqc_header_write_def pqc_header_set_node_id_def Let_def)

lemma header_write_drop:
  "PQC_HEADER_LEN \<le> k \<Longrightarrow>
     drop k (pqc_header_write buf msg_type node_id msg_id frag_idx total_frags payload_len flags) =
     drop k buf"
  by (simp add: pqc_header_write_def pqc_header_set_node_id_def Let_def drop_update_cancel)

lemma header_valid_length:
  "pqc_header_valid buf len \<Longrightarrow> PQC_HEADER_LEN + unat (buf ! PQC_HDR_PAYLOAD_LEN) \<le> unat len"
proof -
  assume "pqc_header_valid buf len"
  then have "unat (10 + ucast (buf ! 7) :: u16) \<le> unat len"
    by (simp add: pqc_header_valid_def word_le_nat_alt)
  moreover have "unat (10 + ucast (buf ! 7) :: u16) = 10 + unat (buf ! 7)"
    by (subst unat_plus_small) (auto simp: unat_u8_less_trans)
  ultimately show ?thesis by simp
qed

lemma header_valid_append:
  assumes "PQC_HEADER_LEN + unat (buf ! PQC_HDR_PAYLOAD_LEN) \<le> unat len"
    and "buf ! PQC_HDR_VERSION = PQC_PROTO_VERSION"
  shows "pqc_header_valid buf len"
proof -
  have "unat (10 + ucast (buf ! 7) :: u16) = 10 + unat (buf ! 7)"
    by (subst unat_plus_small) (auto simp: unat_u8_less_trans)
  with assms show ?thesis
    by (simp add: pqc_header_valid_def word_le_nat_alt)
qed

end
