(* ===== verification/Fragmentation.thy ===== *)
theory Fragmentation
  imports Protocol
begin

text \<open>
  Fragmentation and reassembly of large messages, \<open>src/src/PQC/fragmentation.c\<close>: the
  reassembly context with its bitmap, \<open>fragment_rx_add\<close>, the completeness test and the
  fragmenting sender \<open>fragment_tx\<close>, which hands each packet to a callback.  The callback's
  contract is the locale \<open>packet_sender\<close>; the transmit queue implements it.
\<close>

section \<open>Reassembly context\<close>

abbreviation (input) FRAG_MAX_MESSAGE_LEN :: nat where "FRAG_MAX_MESSAGE_LEN \<equiv> 4608"
abbreviation (input) FRAG_MAX_PAYLOAD_LEN :: nat where "FRAG_MAX_PAYLOAD_LEN \<equiv> 64"
abbreviation (input) FRAG_MAX_FRAGS :: nat where "FRAG_MAX_FRAGS \<equiv> 72"
abbreviation (input) FRAG_HEADER_LEN :: nat where "FRAG_HEADER_LEN \<equiv> PQC_HEADER_LEN"

record fragment_rx_ctx_t =
  rx_active :: bool
  rx_msg_type :: u8
  rx_node_id :: u16
  rx_msg_id :: u8
  rx_total_frags :: u8
  rx_received_frags :: u8
  rx_received_len :: u16
  rx_bitmap :: "bool list"
  rx_buffer :: "u8 list"

definition fragment_rx_init :: fragment_rx_ctx_t where
  "fragment_rx_init =
     \<lparr>rx_active = False, rx_msg_type = 0, rx_node_id = 0, rx_msg_id = 0, rx_total_frags = 0,
      rx_received_frags = 0, rx_received_len = 0,
      rx_bitmap = replicate FRAG_MAX_FRAGS False, rx_buffer = replicate FRAG_MAX_MESSAGE_LEN 0\<rparr>"

definition fragment_rx_reset :: "fragment_rx_ctx_t \<Rightarrow> fragment_rx_ctx_t" where
  "fragment_rx_reset ctx = fragment_rx_init"

definition fragment_rx_add ::
  "fragment_rx_ctx_t \<Rightarrow> u8 \<Rightarrow> u16 \<Rightarrow> u8 \<Rightarrow> u8 \<Rightarrow> u8 \<Rightarrow> u8 list \<Rightarrow> u16 \<Rightarrow> bool \<times> fragment_rx_ctx_t" where
  "fragment_rx_add ctx msg_type node_id msg_id frag_idx total_frags data len =
     (if total_frags = 0 \<or> total_frags \<le> frag_idx \<or> FRAG_MAX_FRAGS < unat total_frags \<or>
         FRAG_MAX_PAYLOAD_LEN < unat len
      then (False, ctx)
      else
        let offset = ucast frag_idx * (of_nat FRAG_MAX_PAYLOAD_LEN :: u16) in
        if FRAG_MAX_MESSAGE_LEN < unat offset + unat len then (False, ctx)
        else if rx_active ctx \<and>
             (rx_msg_type ctx \<noteq> msg_type \<or> rx_node_id ctx \<noteq> node_id \<or>
              rx_msg_id ctx \<noteq> msg_id \<or> rx_total_frags ctx \<noteq> total_frags)
        then (False, ctx)
        else
          let ctx1 = (if \<not> rx_active ctx
                      then ctx\<lparr>rx_active := True, rx_msg_type := msg_type, rx_node_id := node_id,
                               rx_msg_id := msg_id, rx_total_frags := total_frags\<rparr>
                      else ctx);
              ctx2 = (if \<not> rx_bitmap ctx1 ! unat frag_idx
                      then ctx1\<lparr>rx_buffer := memcpy_at (rx_buffer ctx1) (unat offset) (take (unat len) data),
                                rx_bitmap := (rx_bitmap ctx1)[unat frag_idx := True],
                                rx_received_frags := rx_received_frags ctx1 + 1,
                                rx_received_len := rx_received_len ctx1 + len\<rparr>
                      else ctx1)
          in (True, ctx2))"

definition fragment_rx_complete :: "fragment_rx_ctx_t \<Rightarrow> bool" where
  "fragment_rx_complete ctx \<longleftrightarrow> rx_active ctx \<and> rx_received_frags ctx = rx_total_frags ctx"

definition fragment_rx_data :: "fragment_rx_ctx_t \<Rightarrow> u8 list option" where
  "fragment_rx_data ctx = (if fragment_rx_complete ctx then Some (rx_buffer ctx) else None)"

definition fragment_rx_len :: "fragment_rx_ctx_t \<Rightarrow> u16" where
  "fragment_rx_len ctx = (if fragment_rx_complete ctx then rx_received_len ctx else 0)"

section \<open>Fragmenting sender\<close>

definition fragment_tx_count :: "u16 \<Rightarrow> u8" where
  "fragment_tx_count len =
     (if len = 0 then 0
      else let total_frags = (unat len + FRAG_MAX_PAYLOAD_LEN - 1) div FRAG_MAX_PAYLOAD_LEN in
           if total_frags = 0 \<or> FRAG_MAX_FRAGS < total_frags then 0 else of_nat total_frags)"

text \<open>
  The body of the loop up to the callback: the local packet buffer with header and payload,
  and the number of bytes of it that are sent.
\<close>

definition fragment_packet ::
  "u8 list \<Rightarrow> u16 \<Rightarrow> u8 \<Rightarrow> u16 \<Rightarrow> u8 \<Rightarrow> u8 \<Rightarrow> u8 \<Rightarrow> u8 \<Rightarrow> u8 list \<times> u16" where
  "fragment_packet data len msg_type node_id msg_id frag_idx total_frags flags =
     (let offset = ucast frag_idx * (of_nat FRAG_MAX_PAYLOAD_LEN :: u16);
          remaining = len - offset;
          frag_len = (if FRAG_MAX_PAYLOAD_LEN < unat remaining then of_nat FRAG_MAX_PAYLOAD_LEN
                      else ucast remaining) :: u8;
          frag = pqc_header_write (replicate (FRAG_HEADER_LEN + FRAG_MAX_PAYLOAD_LEN) 0)
                   msg_type node_id msg_id frag_idx total_frags frag_len flags;
          frag = memcpy_at frag FRAG_HEADER_LEN (take (unat frag_len) (drop (unat offset) data))
      in (frag, of_nat FRAG_HEADER_LEN + ucast frag_len))"

type_synonym 'w send_fn = "u8 list \<Rightarrow> u16 \<Rightarrow> 'w \<Rightarrow> bool \<times> 'w"

fun fragment_tx_loop ::
  "'w send_fn \<Rightarrow> u8 list \<Rightarrow> u16 \<Rightarrow> u8 \<Rightarrow> u16 \<Rightarrow> u8 \<Rightarrow> u8 \<Rightarrow> u8 \<Rightarrow> u8 list \<Rightarrow> 'w \<Rightarrow> bool \<times> 'w" where
  "fragment_tx_loop send_fn data len msg_type node_id msg_id total_frags flags [] w = (True, w)"
| "fragment_tx_loop send_fn data len msg_type node_id msg_id total_frags flags (frag_idx # rest) w =
     (let (frag, n) = fragment_packet data len msg_type node_id msg_id frag_idx total_frags flags;
          (ok, w') = send_fn frag n w
      in if \<not> ok then (False, w')
         else fragment_tx_loop send_fn data len msg_type node_id msg_id total_frags flags rest w')"

definition fragment_tx ::
  "u8 list \<Rightarrow> u16 \<Rightarrow> u8 \<Rightarrow> u16 \<Rightarrow> u8 \<Rightarrow> u8 \<Rightarrow> 'w send_fn \<Rightarrow> 'w \<Rightarrow> bool \<times> 'w" where
  "fragment_tx data len msg_type node_id msg_id flags send_fn w =
     (if len = 0 then (False, w)
      else let total_frags = fragment_tx_count len in
           if total_frags = 0 then (False, w)
           else fragment_tx_loop send_fn data len msg_type node_id msg_id total_frags flags
                  (map of_nat [0..<unat total_frags]) w)"

section \<open>Counting fragments\<close>

lemma fragment_tx_count_eq:
  "0 < unat len \<Longrightarrow> unat len \<le> FRAG_MAX_MESSAGE_LEN \<Longrightarrow>
     unat (fragment_tx_count len) = (unat len + 63) div 64"
  by (auto simp: fragment_tx_count_def Let_def unat_gt_0)

lemma fragment_tx_count_zero_iff:
  "fragment_tx_count len = 0 \<longleftrightarrow> len = 0 \<or> FRAG_MAX_MESSAGE_LEN < unat len"
proof (cases "len = 0 \<or> FRAG_MAX_MESSAGE_LEN < unat len")
  case True
  then show ?thesis by (auto simp: fragment_tx_count_def Let_def)
next
  case False
  then have "unat (fragment_tx_count len) = (unat len + 63) div 64" and "0 < unat len"
    by (auto simp: fragment_tx_count_eq unat_gt_0)
  then have "0 < unat (fragment_tx_count len)" by linarith
  with False show ?thesis by (auto simp: unat_gt_0)
qed

lemma fragment_tx_count_le: "unat (fragment_tx_count len) \<le> FRAG_MAX_FRAGS"
  by (auto simp: fragment_tx_count_def Let_def)

section \<open>Well-formed contexts\<close>

definition rx_inv :: "fragment_rx_ctx_t \<Rightarrow> bool" where
  "rx_inv ctx \<longleftrightarrow>
     length (rx_bitmap ctx) = FRAG_MAX_FRAGS \<and> length (rx_buffer ctx) = FRAG_MAX_MESSAGE_LEN \<and>
     unat (rx_total_frags ctx) \<le> FRAG_MAX_FRAGS \<and>
     (\<forall>i<FRAG_MAX_FRAGS. unat (rx_total_frags ctx) \<le> i \<longrightarrow> \<not> rx_bitmap ctx ! i) \<and>
     unat (rx_received_frags ctx) = count_if id (rx_bitmap ctx) \<and>
     unat (rx_received_len ctx) \<le> FRAG_MAX_PAYLOAD_LEN * unat (rx_received_frags ctx) \<and>
     (rx_active ctx \<longleftrightarrow> rx_total_frags ctx \<noteq> 0)"

lemma rx_inv_init [simp]: "rx_inv fragment_rx_init"
  by (simp add: rx_inv_def fragment_rx_init_def)

lemma rx_inv_reset [simp]: "rx_inv (fragment_rx_reset ctx)"
  by (simp add: fragment_rx_reset_def)

lemma rx_inv_lengths:
  "rx_inv ctx \<Longrightarrow> length (rx_bitmap ctx) = 72" "rx_inv ctx \<Longrightarrow> length (rx_buffer ctx) = 4608"
  by (auto simp: rx_inv_def)

text \<open>The offset of a fragment that passed the guards does not wrap.\<close>

lemma frag_offset_unat:
  assumes "unat (frag_idx :: u8) < FRAG_MAX_FRAGS"
  shows "unat (ucast frag_idx * 64 :: u16) = unat frag_idx * 64"
  using assms by (simp add: unat_word_ariths)

lemma rx_inv_count_less:
  assumes "rx_inv ctx" and "i < 72" and "\<not> rx_bitmap ctx ! i"
  shows "unat (rx_received_frags ctx) < 72"
proof -
  have "count_if id (rx_bitmap ctx) \<noteq> length (rx_bitmap ctx)"
    using assms count_if_full_iff [of id "rx_bitmap ctx"] nth_mem [of i "rx_bitmap ctx"]
    by (auto simp: rx_inv_lengths)
  then have "count_if id (rx_bitmap ctx) < length (rx_bitmap ctx)"
    using count_if_le [of id "rx_bitmap ctx"] by linarith
  then show ?thesis using assms by (simp add: rx_inv_def)
qed

lemma fragment_rx_add_inv:
  assumes "rx_inv ctx" and "fragment_rx_add ctx mt nid mid idx tot data len = (ok, ctx')"
  shows "rx_inv ctx'"
proof (cases ok)
  case False
  with assms show ?thesis by (auto simp: fragment_rx_add_def Let_def split: if_splits)
next
  case True
  let ?c = "if \<not> rx_active ctx
            then ctx\<lparr>rx_active := True, rx_msg_type := mt, rx_node_id := nid, rx_msg_id := mid,
                     rx_total_frags := tot\<rparr> else ctx"
  from True assms(2) have g: "tot \<noteq> 0" "idx < tot" "unat tot \<le> 72" "unat len \<le> 64"
      "unat (ucast idx * 64 :: u16) + unat len \<le> 4608"
    and eq: "ctx' = (if \<not> rx_bitmap ?c ! unat idx
         then ?c\<lparr>rx_buffer := memcpy_at (rx_buffer ?c) (unat (ucast idx * 64 :: u16)) (take (unat len) data),
                 rx_bitmap := (rx_bitmap ?c)[unat idx := True],
                 rx_received_frags := rx_received_frags ?c + 1,
                 rx_received_len := rx_received_len ?c + len\<rparr> else ?c)"
    and act: "rx_total_frags ?c = tot" "rx_active ?c"
    by (auto simp: fragment_rx_add_def Let_def not_le split: if_splits)
  have c: "rx_inv ?c"
    using assms(1) g(1,3) by (auto simp: rx_inv_def unat_0_iff count_if_0_iff in_set_conv_nth)
  have idx: "unat idx < unat tot" using g(2) by (simp add: word_less_nat_alt)
  show ?thesis
  proof (cases "rx_bitmap ?c ! unat idx")
    case True
    with c eq show ?thesis by simp
  next
    case False
    have lt: "unat (rx_received_frags ?c) < 72"
      using rx_inv_count_less [OF c _ False] idx g(3) by linarith
    then have f: "unat (rx_received_frags ?c + 1) = Suc (unat (rx_received_frags ?c))"
      by (intro unat_Suc_small) simp
    have l: "unat (rx_received_len ?c + len) = unat (rx_received_len ?c) + unat len"
      using c g(4) lt by (intro unat_plus_small) (auto simp: rx_inv_def)
    show ?thesis
      using c eq False act f l g idx by (auto simp: rx_inv_def nth_list_update count_if_set split del: if_split)
  qed
qed

text \<open>Rejection leaves the context alone; acceptance is decided by the guards only.\<close>

lemma fragment_rx_add_rejects:
  "fragment_rx_add ctx mt nid mid idx tot data len = (False, ctx') \<Longrightarrow> ctx' = ctx"
  by (auto simp: fragment_rx_add_def Let_def split: if_splits)

text \<open>A context is complete exactly when every fragment of the message has been stored.\<close>

lemma fragment_rx_complete_iff:
  assumes "rx_inv ctx"
  shows "fragment_rx_complete ctx \<longleftrightarrow>
    rx_active ctx \<and> (\<forall>i<unat (rx_total_frags ctx). rx_bitmap ctx ! i)"
proof -
  let ?n = "unat (rx_total_frags ctx)" and ?bm = "rx_bitmap ctx"
  have len: "length ?bm = 72" "?n \<le> 72" using assms by (auto simp: rx_inv_def)
  have "count_if id (drop ?n ?bm) = 0"
    using assms by (auto simp: count_if_0_iff in_set_conv_nth rx_inv_def)
  then have "count_if id ?bm = count_if id (take ?n ?bm)"
    using count_if_take_drop [of id ?n ?bm] by simp
  then have "count_if id ?bm = ?n \<longleftrightarrow> (\<forall>i<?n. ?bm ! i)"
    using count_if_full_iff [of id "take ?n ?bm"] len by (simp add: all_set_conv_all_nth)
  moreover have "unat (rx_received_frags ctx) = count_if id ?bm"
    using assms by (simp add: rx_inv_def)
  ultimately show ?thesis
    by (simp only: fragment_rx_complete_def word_unat_eq_iff)
qed

section \<open>Reassembly: any order, any duplication\<close>

definition chunk :: "u8 list \<Rightarrow> nat \<Rightarrow> u8 list" where
  "chunk data i = take FRAG_MAX_PAYLOAD_LEN (drop (FRAG_MAX_PAYLOAD_LEN * i) data)"

definition frag_count :: "u8 list \<Rightarrow> nat" where
  "frag_count data = unat (fragment_tx_count (of_nat (length data)))"

text \<open>One arrival of fragment \<open>i\<close> of \<open>data\<close> at the receiver.\<close>

definition add_chunk ::
  "u8 \<Rightarrow> u16 \<Rightarrow> u8 \<Rightarrow> u8 list \<Rightarrow> nat \<Rightarrow> fragment_rx_ctx_t \<Rightarrow> bool \<times> fragment_rx_ctx_t" where
  "add_chunk mt nid mid data i ctx =
     fragment_rx_add ctx mt nid mid (of_nat i) (fragment_tx_count (of_nat (length data)))
       (chunk data i) (of_nat (length (chunk data i)))"

definition receive_chunks ::
  "u8 \<Rightarrow> u16 \<Rightarrow> u8 \<Rightarrow> u8 list \<Rightarrow> nat list \<Rightarrow> fragment_rx_ctx_t \<Rightarrow> fragment_rx_ctx_t" where
  "receive_chunks mt nid mid data is ctx = fold (\<lambda>i c. snd (add_chunk mt nid mid data i c)) is ctx"

lemma length_chunk: "length (chunk data i) = min 64 (length data - 64 * i)"
  by (simp add: chunk_def)

lemma nth_chunk: "j < length (chunk data i) \<Longrightarrow> chunk data i ! j = data ! (64 * i + j)"
  by (simp add: chunk_def nth_drop less_imp_le_nat less_diff_conv)

lemma sum_chunk_lengths: "(\<Sum>i<n. length (chunk data i)) = min (64 * n) (length data)"
  by (induction n) (auto simp: length_chunk min_def)

lemma frag_count_eq:
  "0 < length data \<Longrightarrow> length data \<le> 4608 \<Longrightarrow> frag_count data = (length data + 63) div 64"
  unfolding frag_count_def by (subst fragment_tx_count_eq) auto

lemma message_len_nonzero:
  assumes "0 < length data" "length data \<le> 4608"
  shows "(of_nat (length data) :: u16) \<noteq> 0" "fragment_tx_count (of_nat (length data)) \<noteq> 0"
proof -
  have u: "unat (of_nat (length data) :: u16) = length data" using assms by simp
  then show z: "(of_nat (length data) :: u16) \<noteq> 0"
    using assms(1) by (metis unat_0 less_irrefl)
  show "fragment_tx_count (of_nat (length data)) \<noteq> 0"
    unfolding fragment_tx_count_zero_iff u using assms(2) z by simp
qed

lemma frag_count_le: "frag_count data \<le> 72"
  unfolding frag_count_def by (rule fragment_tx_count_le)

text \<open>\<open>rx_holds mt nid mid data I ctx\<close>: the fragments in \<open>I\<close>, and no others, have been stored.\<close>

definition rx_holds :: "u8 \<Rightarrow> u16 \<Rightarrow> u8 \<Rightarrow> u8 list \<Rightarrow> nat set \<Rightarrow> fragment_rx_ctx_t \<Rightarrow> bool" where
  "rx_holds mt nid mid data I ctx \<longleftrightarrow> rx_inv ctx \<and>
     (rx_active ctx \<longleftrightarrow> I \<noteq> {}) \<and>
     (rx_active ctx \<longrightarrow> rx_msg_type ctx = mt \<and> rx_node_id ctx = nid \<and> rx_msg_id ctx = mid \<and>
        rx_total_frags ctx = fragment_tx_count (of_nat (length data))) \<and>
     (\<forall>i<72. rx_bitmap ctx ! i \<longleftrightarrow> i \<in> I) \<and>
     (\<forall>i\<in>I. \<forall>j<length (chunk data i). rx_buffer ctx ! (64 * i + j) = chunk data i ! j) \<and>
     unat (rx_received_len ctx) = (\<Sum>i\<in>I. length (chunk data i))"

lemma rx_holds_init [simp]: "rx_holds mt nid mid data {} fragment_rx_init"
  by (simp add: rx_holds_def) (simp add: fragment_rx_init_def)

lemma add_chunk_holds:
  assumes "0 < length data" "length data \<le> 4608" and I: "I \<subseteq> {..<frag_count data}"
    and "i < frag_count data" and h: "rx_holds mt nid mid data I ctx"
  shows "fst (add_chunk mt nid mid data i ctx) \<and>
    rx_holds mt nid mid data (insert i I) (snd (add_chunk mt nid mid data i ctx))"
proof -
  let ?n = "frag_count data" and ?cl = "length (chunk data i)"
  let ?t = "fragment_tx_count (of_nat (length data))"
  have n: "?n = (length data + 63) div 64" and n72: "?n \<le> 72"
    using assms(1,2) by (auto simp: frag_count_eq frag_count_le)
  have i: "i < 72" "64 * i < length data" using assms(4) n n72 by linarith+
  then have cl: "?cl \<le> 64" "64 * i + ?cl \<le> 4608"
    using assms(2) by (auto simp: length_chunk)
  have ui: "unat (of_nat i :: u8) = i" and ul: "unat (of_nat ?cl :: u16) = ?cl"
    using i(1) cl(1) by auto
  have off: "unat (ucast (of_nat i :: u8) * 64 :: u16) = 64 * i"
    using frag_offset_unat [of "of_nat i"] i(1) ui by simp
  have t: "?t \<noteq> 0" "\<not> ?t \<le> of_nat i" "unat ?t \<le> 72"
    using assms(4) fragment_tx_count_le ui
    by (auto simp: frag_count_def word_le_nat_alt not_le unat_gt_0 [symmetric] simp del: unat_of_nat)
  have fin: "finite I" using I finite_subset by blast
  have ok: "fst (add_chunk mt nid mid data i ctx)"
    using h t cl off ul by (auto simp: add_chunk_def fragment_rx_add_def Let_def rx_holds_def)
  have inv: "rx_inv (snd (add_chunk mt nid mid data i ctx))"
    using h fragment_rx_add_inv [of ctx] by (metis add_chunk_def prod.collapse rx_holds_def)
  show ?thesis
  proof (cases "i \<in> I")
    case True
    then have "snd (add_chunk mt nid mid data i ctx) = ctx"
      using h t cl off ul ui i(1) by (auto simp: add_chunk_def fragment_rx_add_def Let_def rx_holds_def)
    with True h ok show ?thesis by (simp add: insert_absorb)
  next
    case False
    let ?c = "snd (add_chunk mt nid mid data i ctx)"
    have bm: "\<not> rx_bitmap ctx ! i" using h i(1) False by (simp add: rx_holds_def)
    have c: "rx_active ?c" "rx_msg_type ?c = mt" "rx_node_id ?c = nid" "rx_msg_id ?c = mid"
        "rx_total_frags ?c = ?t" "rx_bitmap ?c = (rx_bitmap ctx)[i := True]"
        "rx_buffer ?c = memcpy_at (rx_buffer ctx) (64 * i) (chunk data i)"
        "rx_received_len ?c = rx_received_len ctx + of_nat ?cl"
      using h t cl off ul ui bm by (auto simp: add_chunk_def fragment_rx_add_def Let_def rx_holds_def)
    have lens: "length (rx_buffer ctx) = 4608" "length (rx_bitmap ctx) = 72"
      using h by (auto simp: rx_holds_def rx_inv_lengths)
    have "(\<Sum>i\<in>insert i I. length (chunk data i)) \<le> (\<Sum>i<?n. length (chunk data i))"
      using I assms(4) by (intro sum_mono2) auto
    then have s: "?cl + (\<Sum>i\<in>I. length (chunk data i)) \<le> length data"
      using fin False by (simp add: sum_chunk_lengths)
    have len: "unat (rx_received_len ?c) = (\<Sum>i\<in>insert i I. length (chunk data i))"
      using h s ul assms(2) fin False unfolding c(8)
      by (subst unat_plus_small) (auto simp: rx_holds_def)
    have buf: "rx_buffer ?c ! (64 * k + j) = chunk data k ! j"
      if k: "k \<in> insert i I" "j < length (chunk data k)" for k j
    proof -
      have kj: "64 * k + j < 4608" "j < 64"
        using k(2) assms(2) by (auto simp: length_chunk)
      have "64 * i \<le> 64 * k + j \<and> 64 * k + j < 64 * i + ?cl \<longleftrightarrow> k = i"
        using k(2) kj cl(1) by (auto simp: length_chunk)
      then show ?thesis
        using k h False cl kj lens unfolding c(7)
        by (subst nth_memcpy_at) (auto simp: rx_holds_def)
    qed
    show ?thesis
      using ok inv c len buf h i(1) lens by (auto simp: rx_holds_def nth_list_update)
  qed
qed

lemma receive_chunks_holds:
  assumes "0 < length data" "length data \<le> 4608" and "I \<subseteq> {..<frag_count data}"
    and "set is \<subseteq> {..<frag_count data}" and "rx_holds mt nid mid data I ctx"
  shows "rx_holds mt nid mid data (I \<union> set is) (receive_chunks mt nid mid data is ctx)"
  using assms(3-)
proof (induction "is" arbitrary: I ctx)
  case Nil
  then show ?case by (simp add: receive_chunks_def)
next
  case (Cons i "is")
  then have "rx_holds mt nid mid data (insert i I) (snd (add_chunk mt nid mid data i ctx))"
    using add_chunk_holds [OF assms(1,2) Cons.prems(1) _ Cons.prems(3)] by auto
  with Cons.IH [of "insert i I"] Cons.prems show ?case
    by (auto simp: receive_chunks_def)
qed

lemma rx_holds_complete_iff:
  assumes "0 < length data" "length data \<le> 4608" and "I \<subseteq> {..<frag_count data}"
    and h: "rx_holds mt nid mid data I ctx"
  shows "fragment_rx_complete ctx \<longleftrightarrow> I = {..<frag_count data}"
proof -
  have "frag_count data = (length data + 63) div 64" using assms(1,2) by (rule frag_count_eq)
  then have "0 < frag_count data" using assms(1) by linarith
  then have "I = {..<frag_count data} \<Longrightarrow> I \<noteq> {}" by auto
  moreover have "frag_count data \<le> 72" by (rule frag_count_le)
  ultimately show ?thesis
    using h assms(3) fragment_rx_complete_iff [of ctx]
    by (fastforce simp: rx_holds_def frag_count_def)
qed

lemma rx_holds_data:
  assumes "0 < length data" "length data \<le> 4608"
    and h: "rx_holds mt nid mid data {..<frag_count data} ctx"
  shows "unat (rx_received_len ctx) = length data" and "take (length data) (rx_buffer ctx) = data"
proof -
  have n: "length data \<le> 64 * frag_count data" using assms(1,2) by (simp add: frag_count_eq)
  then show "unat (rx_received_len ctx) = length data"
    using h by (simp add: rx_holds_def sum_chunk_lengths)
  have len: "length (rx_buffer ctx) = 4608" using h by (auto simp: rx_holds_def rx_inv_lengths)
  show "take (length data) (rx_buffer ctx) = data"
  proof (rule nth_equalityI)
    show "length (take (length data) (rx_buffer ctx)) = length data" using len assms(2) by simp
    fix k assume "k < length (take (length data) (rx_buffer ctx))"
    then have k: "k < length data" using len assms(2) by simp
    let ?i = "k div 64" and ?j = "k mod 64"
    have eq: "64 * ?i + ?j = k" by (rule mult_div_mod_eq)
    then have j: "?i < frag_count data" "?j < length (chunk data ?i)"
      using k n unfolding length_chunk by linarith+
    then have "rx_buffer ctx ! (64 * ?i + ?j) = chunk data ?i ! ?j"
      using h unfolding rx_holds_def by blast
    with eq j k show "take (length data) (rx_buffer ctx) ! k = data ! k"
      by (simp add: nth_chunk)
  qed
qed

section \<open>The packets of a message\<close>

text \<open>A packet the transmit layer can take: header valid for its length, at most 74 bytes.\<close>

definition packet_ok :: "u8 list \<Rightarrow> u16 \<Rightarrow> bool" where
  "packet_ok d n \<longleftrightarrow> pqc_header_valid d n \<and> unat n \<le> 74 \<and> unat n \<le> length d"

text \<open>The bytes on the wire of fragment \<open>i\<close>.\<close>

definition wire_fragment ::
  "u8 list \<Rightarrow> u8 \<Rightarrow> u16 \<Rightarrow> u8 \<Rightarrow> u8 \<Rightarrow> nat \<Rightarrow> u8 list" where
  "wire_fragment data mt nid mid flags i =
     pqc_header_write (replicate PQC_HEADER_LEN 0) mt nid mid (of_nat i)
       (fragment_tx_count (of_nat (length data))) (of_nat (length (chunk data i))) flags @ chunk data i"

lemma header_write_prefix:
  "pqc_header_write (replicate (10 + n) 0) a b c d e f g =
   pqc_header_write (replicate 10 0) a b c d e f g @ replicate n 0"
  by (simp add: pqc_header_write_def pqc_header_set_node_id_def Let_def replicate_add list_update_append)

lemma fragment_packet_wire:
  assumes "0 < length data" "length data \<le> 4608" and "i < frag_count data"
    and pkt: "fragment_packet data (of_nat (length data)) mt nid mid (of_nat i)
       (fragment_tx_count (of_nat (length data))) flags = (d, n)"
  shows "take (unat n) d = wire_fragment data mt nid mid flags i" and "packet_ok d n"
    and "unat n = 10 + length (chunk data i)"
proof -
  let ?c = "chunk data i"
  have nn: "frag_count data = (length data + 63) div 64" "frag_count data \<le> 72"
    using assms(1,2) by (auto simp: frag_count_eq frag_count_le)
  have i: "i < 72" "64 * i < length data" using assms(3) nn by linarith+
  have cl: "length ?c \<le> 64" by (simp add: length_chunk)
  have off: "unat (ucast (of_nat i :: u8) * 64 :: u16) = 64 * i"
    using frag_offset_unat [of "of_nat i"] i(1) by simp
  have rem: "unat (of_nat (length data) - ucast (of_nat i :: u8) * 64 :: u16) = length data - 64 * i"
    using off i(2) assms(2) by (subst unat_sub) (auto simp: word_le_nat_alt)
  let ?fl = "(if 64 < unat (of_nat (length data) - ucast (of_nat i :: u8) * 64 :: u16) then of_nat 64
       else ucast (of_nat (length data) - ucast (of_nat i :: u8) * 64 :: u16)) :: u8"
  have "unat ?fl = length ?c"
    using rem by (auto simp: length_chunk min_def unsigned_ucast_eq take_bit_nat_eq_self)
  then have fl: "?fl = of_nat (length ?c)" and ufl: "unat ?fl = length ?c"
    using cl by (auto simp: word_unat_eq_iff)
  let ?h = "pqc_header_write (replicate 10 0) mt nid mid (of_nat i)
      (fragment_tx_count (of_nat (length data))) (of_nat (length ?c)) flags"
  have "take (length ?c) (drop (64 * i) data) = ?c"
    by (cases "length data - 64 * i \<le> 64") (simp_all add: chunk_def min_def)
  then have d: "d = memcpy_at (?h @ replicate 64 0) 10 ?c" and n: "n = 10 + ucast ?fl"
    using pkt ufl fl off header_write_prefix [of 64]
    by (auto simp: fragment_packet_def Let_def split del: if_split)
  show un: "unat n = 10 + length ?c"
    unfolding n using ufl cl by (subst unat_plus_small) (auto split del: if_split)
  have lh: "length ?h = 10" by simp
  show td: "take (unat n) d = wire_fragment data mt nid mid flags i"
    unfolding un d wire_fragment_def memcpy_at_def using lh by simp
  have "d ! 0 = ?h ! 0" "d ! 7 = ?h ! 7" "length d = 74"
    unfolding d memcpy_at_def using lh cl by (auto simp: nth_append)
  then show "packet_ok d n"
    using un cl header_write_fields [OF _ refl, of "replicate 10 0"]
    by (auto simp: packet_ok_def intro!: header_valid_append)
qed

section \<open>Interface: the packet callback\<close>

text \<open>
  What \<open>fragment_tx\<close> relies on: a bounded sender whose accepted packets all become pending.
  \<open>pending\<close> is the multiset of packets waiting to be transmitted, \<open>free\<close> the room left.
\<close>

locale packet_sender =
  fixes send :: "'w send_fn"
    and invar :: "'w \<Rightarrow> bool"
    and pending :: "'w \<Rightarrow> u8 list multiset"
    and free :: "'w \<Rightarrow> nat"
  assumes send_accept: "invar w \<Longrightarrow> 0 < free w \<Longrightarrow> packet_ok d n \<Longrightarrow>
      \<exists>w'. send d n w = (True, w') \<and> invar w' \<and>
        pending w' = add_mset (take (unat n) d) (pending w) \<and> Suc (free w') = free w"
    and send_full: "invar w \<Longrightarrow> free w = 0 \<Longrightarrow> send d n w = (False, w)"
begin

lemma fragment_tx_loop_room:
  assumes "0 < length data" "length data \<le> 4608" and "invar w"
    and "\<forall>i\<in>set is. i < frag_count data" and "length is \<le> free w"
  shows "\<exists>w'. fragment_tx_loop send data (of_nat (length data)) mt nid mid
      (fragment_tx_count (of_nat (length data))) flags (map of_nat is) w = (True, w') \<and> invar w' \<and>
    pending w' = pending w + mset (map (wire_fragment data mt nid mid flags) is) \<and>
    free w' + length is = free w"
  using assms(3-)
proof (induction "is" arbitrary: w)
  case Nil
  then show ?case by simp
next
  case (Cons i "is")
  obtain d n where dn: "fragment_packet data (of_nat (length data)) mt nid mid (of_nat i)
      (fragment_tx_count (of_nat (length data))) flags = (d, n)" by fastforce
  have "i < frag_count data" using Cons.prems by simp
  note pk = fragment_packet_wire [OF assms(1,2) this dn]
  obtain w1 where w1: "send d n w = (True, w1)" "invar w1"
      "pending w1 = add_mset (wire_fragment data mt nid mid flags i) (pending w)" "Suc (free w1) = free w"
    using send_accept [OF Cons.prems(1) _ pk(2)] Cons.prems(3) pk(1) by fastforce
  with Cons.IH [OF w1(2)] Cons.prems dn show ?case by auto
qed

lemma fragment_tx_loop_full:
  assumes "0 < length data" "length data \<le> 4608" and "invar w"
    and "\<forall>i\<in>set is. i < frag_count data" and "free w < length is"
  shows "\<exists>w'. fragment_tx_loop send data (of_nat (length data)) mt nid mid
      (fragment_tx_count (of_nat (length data))) flags (map of_nat is) w = (False, w') \<and> invar w' \<and>
    pending w' = pending w + mset (map (wire_fragment data mt nid mid flags) (take (free w) is)) \<and>
    free w' = 0"
  using assms(3-)
proof (induction "is" arbitrary: w)
  case Nil
  then show ?case by simp
next
  case (Cons i "is")
  obtain d n where dn: "fragment_packet data (of_nat (length data)) mt nid mid (of_nat i)
      (fragment_tx_count (of_nat (length data))) flags = (d, n)" by fastforce
  show ?case
  proof (cases "free w")
    case 0
    with Cons.prems dn send_full [of w d n] show ?thesis by simp
  next
    case (Suc k)
    have "i < frag_count data" using Cons.prems by simp
    note pk = fragment_packet_wire [OF assms(1,2) this dn]
    obtain w1 where w1: "send d n w = (True, w1)" "invar w1"
        "pending w1 = add_mset (wire_fragment data mt nid mid flags i) (pending w)" "Suc (free w1) = free w"
      using send_accept [OF Cons.prems(1) _ pk(2)] Suc pk(1) by fastforce
    with Cons.IH [OF w1(2)] Cons.prems dn Suc show ?thesis by auto
  qed
qed

text \<open>With room for the whole message, every fragment is queued and nothing else is.\<close>

lemma fragment_tx_room:
  assumes "0 < length data" "length data \<le> 4608" and "invar w" and "frag_count data \<le> free w"
  shows "\<exists>w'. fragment_tx data (of_nat (length data)) mt nid mid flags send w = (True, w') \<and> invar w' \<and>
    pending w' = pending w + mset (map (wire_fragment data mt nid mid flags) [0..<frag_count data]) \<and>
    free w' + frag_count data = free w"
proof -
  show ?thesis
    using message_len_nonzero [OF assms(1,2)] fragment_tx_loop_room [OF assms(1-3), of "[0..<frag_count data]" mt nid mid flags] assms(4)
    by (simp add: fragment_tx_def frag_count_def Let_def)
qed

text \<open>Without it, the call fails and leaves the queue full with a prefix of the message.\<close>

lemma fragment_tx_no_room:
  assumes "0 < length data" "length data \<le> 4608" and "invar w" and "free w < frag_count data"
  shows "\<exists>w'. fragment_tx data (of_nat (length data)) mt nid mid flags send w = (False, w') \<and> invar w' \<and>
    pending w' = pending w + mset (map (wire_fragment data mt nid mid flags) [0..<free w]) \<and> free w' = 0"
proof -
  show ?thesis
    using message_len_nonzero [OF assms(1,2)] fragment_tx_loop_full [OF assms(1-3), of "[0..<frag_count data]" mt nid mid flags] assms(4)
    by (simp add: fragment_tx_def frag_count_def Let_def take_upt)
qed

end

section \<open>Properties\<close>

text \<open>
  C8.  Reassembly does not depend on order or duplication: when fragments of a message of at most
  4608 bytes arrive in any order, any number of times, the receiving context is complete exactly
  when every fragment has arrived, and then its buffer and length are the message.
\<close>

theorem reassembly_any_order:
  assumes "0 < length data" and "length data \<le> 4608" and "set arrivals \<subseteq> {..<frag_count data}"
    and "ctx = receive_chunks mt nid mid data arrivals fragment_rx_init"
  shows "(fragment_rx_complete ctx \<longleftrightarrow> set arrivals = {..<frag_count data}) \<and>
    (fragment_rx_complete ctx \<longrightarrow>
       unat (fragment_rx_len ctx) = length data \<and> map_option (take (length data)) (fragment_rx_data ctx) = Some data)"
proof -
  have h: "rx_holds mt nid mid data (set arrivals) ctx"
    using receive_chunks_holds [OF assms(1,2) _ assms(3), of "{}" mt nid mid fragment_rx_init] assms(4) by simp
  have c: "fragment_rx_complete ctx \<longleftrightarrow> set arrivals = {..<frag_count data}"
    by (rule rx_holds_complete_iff [OF assms(1,2,3) h])
  show ?thesis
  proof (intro conjI impI)
    assume k: "fragment_rx_complete ctx"
    then have "rx_holds mt nid mid data {..<frag_count data} ctx" using c h by simp
    note d = rx_holds_data [OF assms(1,2) this]
    show "unat (fragment_rx_len ctx) = length data" using k d(1) by (simp add: fragment_rx_len_def)
    show "map_option (take (length data)) (fragment_rx_data ctx) = Some data"
      using k d(2) by (simp add: fragment_rx_data_def)
  qed (rule c)
qed

theorem reassembly_any_order_witness:
  "fragment_rx_complete (receive_chunks 2 7 1 (replicate 130 5) [2, 0, 2, 1] fragment_rx_init) \<and>
   map_option (take 130) (fragment_rx_data
     (receive_chunks 2 7 1 (replicate 130 5) [2, 0, 2, 1] fragment_rx_init)) = Some (replicate 130 5)"
proof -
  have n: "frag_count (replicate 130 (5 :: u8)) = 3" by (simp add: frag_count_eq)
  have st: "set [2, 0, 2, 1] = {..<3 :: nat}" by auto
  show ?thesis
    using reassembly_any_order [OF _ _ _ refl, of "replicate 130 5" "[2, 0, 2, 1]" 2 7 1] n st
    by (simp only: length_replicate)
qed

end
