(* ===== verification/Metrics.thy ===== *)
theory Metrics
  imports Prelude
begin

text \<open>
  The counters of \<open>src/src/metrics/metrics_schema.h\<close> and the operations of
  \<open>src/src/metrics/metrics.c\<close>: snapshots, the seven report groups, and the 26-byte report
  codec, which is shown to be a canonical wire format.  The reading of \<open>clock_time()\<close> that
  an operation takes is its argument \<open>now\<close>.
\<close>

section \<open>Records\<close>

definition PQC_METRICS_SCHEMA_VERSION :: u8 where "PQC_METRICS_SCHEMA_VERSION = 1"

abbreviation (input) PQC_METRICS_REPORT_LEN :: nat where "PQC_METRICS_REPORT_LEN \<equiv> 26"

definition PQC_METRICS_GROUP_HS :: u8 where "PQC_METRICS_GROUP_HS = 1"
definition PQC_METRICS_GROUP_PK :: u8 where "PQC_METRICS_GROUP_PK = 2"
definition PQC_METRICS_GROUP_CT :: u8 where "PQC_METRICS_GROUP_CT = 3"
definition PQC_METRICS_GROUP_CRYPTO :: u8 where "PQC_METRICS_GROUP_CRYPTO = 4"
definition PQC_METRICS_GROUP_FRAG :: u8 where "PQC_METRICS_GROUP_FRAG = 5"
definition PQC_METRICS_GROUP_TEMP :: u8 where "PQC_METRICS_GROUP_TEMP = 6"
definition PQC_METRICS_GROUP_RES :: u8 where "PQC_METRICS_GROUP_RES = 7"
definition PQC_METRICS_GROUP_COUNT :: u8 where "PQC_METRICS_GROUP_COUNT = 7"

lemmas metrics_group_defs = PQC_METRICS_GROUP_HS_def PQC_METRICS_GROUP_PK_def
  PQC_METRICS_GROUP_CT_def PQC_METRICS_GROUP_CRYPTO_def PQC_METRICS_GROUP_FRAG_def
  PQC_METRICS_GROUP_TEMP_def PQC_METRICS_GROUP_RES_def PQC_METRICS_GROUP_COUNT_def

record pqc_metrics_handshake_t =
  mh_attempts :: u32
  mh_success :: u32
  mh_failure :: u32
  mh_getpk_tx :: u32
  mh_getpk_rx :: u32
  mh_pk_tx :: u32
  mh_pk_rx_complete :: u32
  mh_ct_tx :: u32
  mh_ct_rx_complete :: u32
  mh_ack_tx :: u32
  mh_ack_rx :: u32
  mh_handshake_started_at :: u32
  mh_pk_tx_started_at :: u32
  mh_pk_rx_completed_at :: u32
  mh_ct_tx_started_at :: u32
  mh_ct_rx_started_at :: u32
  mh_ct_rx_completed_at :: u32
  mh_ack_rx_at :: u32
  mh_pk_tx_ticks_last :: u32
  mh_pk_rx_ticks_last :: u32
  mh_ct_tx_ticks_last :: u32
  mh_ct_rx_ticks_last :: u32
  mh_ack_wait_ticks_last :: u32
  mh_keypair_ticks_last :: u32
  mh_encaps_ticks_last :: u32
  mh_decaps_ticks_last :: u32
  mh_handshake_ticks_last :: u32
  mh_handshake_ticks_max :: u32

record pqc_metrics_fragmentation_t =
  mf_fragments_tx :: u32
  mf_fragments_rx :: u32
  mf_fragments_duplicate :: u32
  mf_fragments_rejected :: u32
  mf_nack_tx :: u32
  mf_nack_rx :: u32
  mf_nack_rounds :: u32
  mf_nack_recovered_fragments :: u32

record pqc_metrics_temp_t =
  mt_temp_tx :: u32
  mt_temp_tx_fail :: u32
  mt_temp_rx :: u32
  mt_temp_rx_ok :: u32
  mt_temp_rx_fail :: u32
  mt_temp_counter_resync :: u32

record pqc_metrics_resource_t =
  mr_tx_queue_high_water :: u32
  mr_tx_queue_full :: u32
  mr_rx_slot_alloc :: u32
  mr_rx_slot_full :: u32
  mr_rx_slot_timeout :: u32
  mr_retries :: u32

record pqc_metrics_snapshot_t =
  ms_version :: u8
  ms_node_id :: u16
  ms_seq :: u32
  ms_uptime_ticks :: u32
  ms_handshake :: pqc_metrics_handshake_t
  ms_fragmentation :: pqc_metrics_fragmentation_t
  ms_temp :: pqc_metrics_temp_t
  ms_resource :: pqc_metrics_resource_t

record pqc_metrics_report_t =
  rp_version :: u8
  rp_group :: u8
  rp_seq :: u32
  rp_uptime_ticks :: u32
  rp_value0 :: u32
  rp_value1 :: u32
  rp_value2 :: u32
  rp_value3 :: u32

text \<open>The result of \<open>memset(metrics, 0, sizeof(*metrics))\<close> and of \<open>memset(report, 0, \<dots>)\<close>.\<close>

definition metrics_zero :: pqc_metrics_snapshot_t where
  "metrics_zero = \<lparr>ms_version = 0, ms_node_id = 0, ms_seq = 0, ms_uptime_ticks = 0,
     ms_handshake = \<lparr>mh_attempts = 0, mh_success = 0, mh_failure = 0, mh_getpk_tx = 0, mh_getpk_rx = 0,
       mh_pk_tx = 0, mh_pk_rx_complete = 0, mh_ct_tx = 0, mh_ct_rx_complete = 0, mh_ack_tx = 0,
       mh_ack_rx = 0, mh_handshake_started_at = 0, mh_pk_tx_started_at = 0, mh_pk_rx_completed_at = 0,
       mh_ct_tx_started_at = 0, mh_ct_rx_started_at = 0, mh_ct_rx_completed_at = 0, mh_ack_rx_at = 0,
       mh_pk_tx_ticks_last = 0, mh_pk_rx_ticks_last = 0, mh_ct_tx_ticks_last = 0,
       mh_ct_rx_ticks_last = 0, mh_ack_wait_ticks_last = 0, mh_keypair_ticks_last = 0,
       mh_encaps_ticks_last = 0, mh_decaps_ticks_last = 0, mh_handshake_ticks_last = 0,
       mh_handshake_ticks_max = 0\<rparr>,
     ms_fragmentation = \<lparr>mf_fragments_tx = 0, mf_fragments_rx = 0, mf_fragments_duplicate = 0,
       mf_fragments_rejected = 0, mf_nack_tx = 0, mf_nack_rx = 0, mf_nack_rounds = 0,
       mf_nack_recovered_fragments = 0\<rparr>,
     ms_temp = \<lparr>mt_temp_tx = 0, mt_temp_tx_fail = 0, mt_temp_rx = 0, mt_temp_rx_ok = 0,
       mt_temp_rx_fail = 0, mt_temp_counter_resync = 0\<rparr>,
     ms_resource = \<lparr>mr_tx_queue_high_water = 0, mr_tx_queue_full = 0, mr_rx_slot_alloc = 0,
       mr_rx_slot_full = 0, mr_rx_slot_timeout = 0, mr_retries = 0\<rparr>\<rparr>"

definition report_zero :: pqc_metrics_report_t where
  "report_zero = \<lparr>rp_version = 0, rp_group = 0, rp_seq = 0, rp_uptime_ticks = 0,
     rp_value0 = 0, rp_value1 = 0, rp_value2 = 0, rp_value3 = 0\<rparr>"

section \<open>Operations\<close>

definition write_u32 :: "u8 list \<Rightarrow> nat \<Rightarrow> u32 \<Rightarrow> u8 list" where
  "write_u32 buf off value =
     (let buf = buf[off := ucast (drop_bit 24 value)];
          buf = buf[off + 1 := ucast (drop_bit 16 value)];
          buf = buf[off + 2 := ucast (drop_bit 8 value)];
          buf = buf[off + 3 := ucast value]
      in buf)"

definition read_u32 :: "u8 list \<Rightarrow> nat \<Rightarrow> u32" where
  "read_u32 buf off =
     push_bit 24 (ucast (buf ! off)) OR push_bit 16 (ucast (buf ! (off + 1))) OR
     push_bit 8 (ucast (buf ! (off + 2))) OR ucast (buf ! (off + 3))"

definition pqc_metrics_init :: "u16 \<Rightarrow> pqc_metrics_snapshot_t" where
  "pqc_metrics_init node_id =
     metrics_zero\<lparr>ms_version := PQC_METRICS_SCHEMA_VERSION, ms_node_id := node_id\<rparr>"

definition pqc_metrics_set_node_id :: "u16 \<Rightarrow> pqc_metrics_snapshot_t \<Rightarrow> pqc_metrics_snapshot_t" where
  "pqc_metrics_set_node_id node_id metrics =
     metrics\<lparr>ms_version := PQC_METRICS_SCHEMA_VERSION, ms_node_id := node_id\<rparr>"

definition pqc_metrics_elapsed_since :: "clock_time_t \<Rightarrow> u32 \<Rightarrow> u32" where
  "pqc_metrics_elapsed_since now started_at = now - started_at"

abbreviation (input) upd_handshake ::
  "(pqc_metrics_handshake_t \<Rightarrow> pqc_metrics_handshake_t) \<Rightarrow> pqc_metrics_snapshot_t \<Rightarrow> pqc_metrics_snapshot_t"
  where "upd_handshake \<equiv> ms_handshake_update"

definition pqc_metrics_handshake_start ::
  "clock_time_t \<Rightarrow> pqc_metrics_snapshot_t \<Rightarrow> pqc_metrics_snapshot_t" where
  "pqc_metrics_handshake_start now = upd_handshake (\<lambda>h. h\<lparr>
     mh_attempts := mh_attempts h + 1, mh_handshake_started_at := now,
     mh_pk_tx_started_at := 0, mh_pk_rx_completed_at := 0, mh_ct_tx_started_at := 0,
     mh_ct_rx_started_at := 0, mh_ct_rx_completed_at := 0, mh_ack_rx_at := 0,
     mh_pk_tx_ticks_last := 0, mh_pk_rx_ticks_last := 0, mh_ct_tx_ticks_last := 0,
     mh_ct_rx_ticks_last := 0, mh_ack_wait_ticks_last := 0, mh_keypair_ticks_last := 0,
     mh_encaps_ticks_last := 0, mh_decaps_ticks_last := 0, mh_handshake_ticks_last := 0\<rparr>)"

text \<open>The tail that success and failure share in the code, duplicated there word for word.\<close>

definition metrics_note_duration :: "clock_time_t \<Rightarrow> pqc_metrics_handshake_t \<Rightarrow> pqc_metrics_handshake_t" where
  "metrics_note_duration now h =
     (if mh_handshake_started_at h = 0 then h
      else
        let elapsed = pqc_metrics_elapsed_since now (mh_handshake_started_at h);
            h = h\<lparr>mh_handshake_ticks_last := elapsed\<rparr>
        in if mh_handshake_ticks_max h < elapsed then h\<lparr>mh_handshake_ticks_max := elapsed\<rparr> else h)"

definition pqc_metrics_handshake_success ::
  "clock_time_t \<Rightarrow> pqc_metrics_snapshot_t \<Rightarrow> pqc_metrics_snapshot_t" where
  "pqc_metrics_handshake_success now =
     upd_handshake (\<lambda>h. metrics_note_duration now (h\<lparr>mh_success := mh_success h + 1\<rparr>))"

definition pqc_metrics_handshake_failure ::
  "clock_time_t \<Rightarrow> pqc_metrics_snapshot_t \<Rightarrow> pqc_metrics_snapshot_t" where
  "pqc_metrics_handshake_failure now =
     upd_handshake (\<lambda>h. metrics_note_duration now (h\<lparr>mh_failure := mh_failure h + 1\<rparr>))"

definition pqc_metrics_group_name :: "u8 \<Rightarrow> string" where
  "pqc_metrics_group_name grp =
     (if grp = PQC_METRICS_GROUP_HS then ''NODE_HS''
      else if grp = PQC_METRICS_GROUP_PK then ''NODE_PK''
      else if grp = PQC_METRICS_GROUP_CT then ''NODE_CT''
      else if grp = PQC_METRICS_GROUP_CRYPTO then ''NODE_CRYPTO''
      else if grp = PQC_METRICS_GROUP_FRAG then ''NODE_FRAG''
      else if grp = PQC_METRICS_GROUP_TEMP then ''NODE_TEMP''
      else if grp = PQC_METRICS_GROUP_RES then ''NODE_RES''
      else ''NODE_UNKNOWN'')"

text \<open>The \<open>switch\<close> of \<open>pqc_metrics_build_report\<close>: the four values of a group.\<close>

definition metrics_group_values ::
  "pqc_metrics_snapshot_t \<Rightarrow> u8 \<Rightarrow> (u32 \<times> u32 \<times> u32 \<times> u32) option" where
  "metrics_group_values m grp =
     (let h = ms_handshake m; f = ms_fragmentation m; t = ms_temp m; r = ms_resource m in
      if grp = PQC_METRICS_GROUP_HS
        then Some (mh_handshake_ticks_last h, mh_success h, mh_failure h, mh_attempts h)
      else if grp = PQC_METRICS_GROUP_PK
        then Some (mh_pk_tx_ticks_last h, mh_pk_rx_ticks_last h, mh_pk_tx h, mh_pk_rx_complete h)
      else if grp = PQC_METRICS_GROUP_CT
        then Some (mh_ct_tx_ticks_last h, mh_ct_rx_ticks_last h, mh_ct_tx h, mh_ct_rx_complete h)
      else if grp = PQC_METRICS_GROUP_CRYPTO
        then Some (mh_keypair_ticks_last h, mh_encaps_ticks_last h, mh_decaps_ticks_last h,
                   mh_ack_wait_ticks_last h)
      else if grp = PQC_METRICS_GROUP_FRAG
        then Some (mf_fragments_tx f, mf_fragments_rx f, mf_nack_tx f, mf_nack_rx f)
      else if grp = PQC_METRICS_GROUP_TEMP
        then Some (mt_temp_tx t, mt_temp_tx_fail t, mt_temp_rx_ok t, mt_temp_counter_resync t)
      else if grp = PQC_METRICS_GROUP_RES
        then Some (mr_retries r, mr_tx_queue_full r, mr_rx_slot_full r, mr_rx_slot_timeout r)
      else None)"

text \<open>The result is the updated snapshot and, when the code returns 1, the report.\<close>

definition pqc_metrics_build_report ::
  "clock_time_t \<Rightarrow> pqc_metrics_snapshot_t \<Rightarrow> u8 \<Rightarrow> pqc_metrics_snapshot_t \<times> pqc_metrics_report_t option" where
  "pqc_metrics_build_report now metrics grp =
     (if grp = 0 \<or> PQC_METRICS_GROUP_COUNT < grp then (metrics, None)
      else
        let metrics = metrics\<lparr>ms_version := PQC_METRICS_SCHEMA_VERSION, ms_seq := ms_seq metrics + 1,
                              ms_uptime_ticks := now\<rparr>;
            report = report_zero\<lparr>rp_version := ms_version metrics, rp_group := grp,
                       rp_seq := ms_seq metrics, rp_uptime_ticks := ms_uptime_ticks metrics\<rparr>
        in case metrics_group_values metrics grp of
             None \<Rightarrow> (metrics, None)
           | Some (v0, v1, v2, v3) \<Rightarrow>
               (metrics, Some (report\<lparr>rp_value0 := v0, rp_value1 := v1, rp_value2 := v2, rp_value3 := v3\<rparr>)))"

definition pqc_metrics_encode_report :: "pqc_metrics_report_t \<Rightarrow> u8 list \<Rightarrow> u8 \<Rightarrow> u8 \<times> u8 list" where
  "pqc_metrics_encode_report report buf len =
     (if unat len < PQC_METRICS_REPORT_LEN then (0, buf)
      else
        let buf = buf[0 := rp_version report];
            buf = buf[1 := rp_group report];
            buf = write_u32 buf 2 (rp_seq report);
            buf = write_u32 buf 6 (rp_uptime_ticks report);
            buf = write_u32 buf 10 (rp_value0 report);
            buf = write_u32 buf 14 (rp_value1 report);
            buf = write_u32 buf 18 (rp_value2 report);
            buf = write_u32 buf 22 (rp_value3 report)
        in (of_nat PQC_METRICS_REPORT_LEN, buf))"

definition pqc_metrics_decode_report :: "u8 list \<Rightarrow> u8 \<Rightarrow> pqc_metrics_report_t option" where
  "pqc_metrics_decode_report buf len =
     (if unat len \<noteq> PQC_METRICS_REPORT_LEN \<or> buf ! 0 \<noteq> PQC_METRICS_SCHEMA_VERSION \<or>
         buf ! 1 = 0 \<or> PQC_METRICS_GROUP_COUNT < buf ! 1
      then None
      else Some \<lparr>rp_version = buf ! 0, rp_group = buf ! 1, rp_seq = read_u32 buf 2,
             rp_uptime_ticks = read_u32 buf 6, rp_value0 = read_u32 buf 10, rp_value1 = read_u32 buf 14,
             rp_value2 = read_u32 buf 18, rp_value3 = read_u32 buf 22\<rparr>)"

section \<open>The report codec is a canonical wire format\<close>

definition report_wf :: "pqc_metrics_report_t \<Rightarrow> bool" where
  "report_wf r \<longleftrightarrow> rp_version r = PQC_METRICS_SCHEMA_VERSION \<and> rp_group r \<noteq> 0 \<and>
     rp_group r \<le> PQC_METRICS_GROUP_COUNT"

definition report_to_bytes :: "pqc_metrics_report_t \<Rightarrow> u8 list" where
  "report_to_bytes r = (let (len, p) = pqc_metrics_encode_report r (replicate 26 0) 26 in take (unat len) p)"

definition report_of_bytes :: "u8 list \<Rightarrow> pqc_metrics_report_t option" where
  "report_of_bytes bs =
     (if length bs < 256 then pqc_metrics_decode_report bs (of_nat (length bs)) else None)"

definition be32_bytes :: "u32 \<Rightarrow> u8 list" where
  "be32_bytes v = [ucast (drop_bit 24 v), ucast (drop_bit 16 v), ucast (drop_bit 8 v), ucast v]"

lemma write_u32_memcpy: "off + 4 \<le> length buf \<Longrightarrow> write_u32 buf off v = memcpy_at buf off (be32_bytes v)"
  by (rule nth_equalityI)
    (auto simp: write_u32_def be32_bytes_def Let_def nth_memcpy_at nth_list_update nth_Cons'
       less_Suc_eq numeral_eq_Suc)

lemma write_u32_length [simp]: "length (write_u32 buf off v) = length buf"
  by (simp add: write_u32_def Let_def)

lemma report_to_bytes_eq:
  "report_to_bytes r = [rp_version r, rp_group r] @ be32_bytes (rp_seq r) @ be32_bytes (rp_uptime_ticks r) @
     be32_bytes (rp_value0 r) @ be32_bytes (rp_value1 r) @ be32_bytes (rp_value2 r) @ be32_bytes (rp_value3 r)"
proof -
  have "replicate 26 (0 :: u8) = [0,0,0,0,0,0,0,0,0,0,0,0,0,0,0,0,0,0,0,0,0,0,0,0,0,0]"
    by (simp add: numeral_eq_Suc)
  then show ?thesis
    by (simp add: report_to_bytes_def pqc_metrics_encode_report_def Let_def write_u32_def be32_bytes_def)
qed

lemma read_u32_be32:
  "read_u32 (xs @ be32_bytes v @ ys) (length xs) = v"
  by (simp add: read_u32_def be32_bytes_def nth_append be32_split_join)

lemma be32_bytes_read:
  "be32_bytes (push_bit 24 (ucast a) OR push_bit 16 (ucast b) OR push_bit 8 (ucast c) OR ucast d) = [a, b, c, d]"
  using u8_of_le32_word [where d = a and c = b and b = c and a = d]
  by (simp add: be32_bytes_def del: drop_bit_or)

interpretation metrics_report: canonical_format report_to_bytes report_of_bytes report_wf
proof
  fix r assume "report_wf r"
  then show "report_of_bytes (report_to_bytes r) = Some r"
    by (simp add: report_of_bytes_def report_to_bytes_eq pqc_metrics_decode_report_def report_wf_def
        read_u32_def be32_bytes_def be32_split_join not_less)
next
  fix bs r assume d: "report_of_bytes bs = Some r"
  then have "length bs = 26"
    by (auto simp: report_of_bytes_def pqc_metrics_decode_report_def split: if_splits)
  then obtain a0 a1 b0 b1 b2 b3 c0 c1 c2 c3 d0 d1 d2 d3 e0 e1 e2 e3 f0 f1 f2 f3 g0 g1 g2 g3 where
    bs: "bs = [a0, a1] @ [b0, b1, b2, b3] @ [c0, c1, c2, c3] @ [d0, d1, d2, d3] @ [e0, e1, e2, e3] @
      [f0, f1, f2, f3] @ [g0, g1, g2, g3]"
    by (auto simp: length_Suc_conv numeral_eq_Suc)
  from d show "report_wf r \<and> report_to_bytes r = bs"
    by (auto simp: bs report_of_bytes_def pqc_metrics_decode_report_def report_wf_def report_to_bytes_eq
        read_u32_def be32_bytes_read split: if_splits)
qed

section \<open>What the operations record\<close>

lemma metrics_note_duration_max:
  "mh_handshake_started_at h \<noteq> 0 \<Longrightarrow>
   mh_handshake_ticks_last (metrics_note_duration now h) = now - mh_handshake_started_at h \<and>
   mh_handshake_ticks_max (metrics_note_duration now h) =
     max (mh_handshake_ticks_max h) (now - mh_handshake_started_at h)"
  by (auto simp: metrics_note_duration_def Let_def pqc_metrics_elapsed_since_def max_def)

lemma metrics_group_values_total:
  "grp \<noteq> 0 \<Longrightarrow> grp \<le> PQC_METRICS_GROUP_COUNT \<Longrightarrow> metrics_group_values m grp \<noteq> None"
proof -
  assume "grp \<noteq> 0" "grp \<le> PQC_METRICS_GROUP_COUNT"
  then have "unat grp \<in> {1, 2, 3, 4, 5, 6, 7}"
    by (auto simp: word_conv PQC_METRICS_GROUP_COUNT_def)
  then have "grp \<in> {1, 2, 3, 4, 5, 6, 7}" by (auto simp: word_conv)
  then show ?thesis by (auto simp: metrics_group_values_def metrics_group_defs Let_def)
qed

text \<open>A report is built for exactly the seven groups; it is always encodable.\<close>

lemma build_report_wf:
  assumes "pqc_metrics_build_report now m grp = (m', Some r)"
  shows "report_wf r" and "rp_group r = grp" and "rp_seq r = ms_seq m + 1" and "rp_uptime_ticks r = now"
    and "ms_seq m' = ms_seq m + 1"
  using assms by (auto simp: pqc_metrics_build_report_def Let_def report_wf_def split: if_splits option.splits)

lemma build_report_Some_iff:
  "snd (pqc_metrics_build_report now m grp) \<noteq> None \<longleftrightarrow> grp \<noteq> 0 \<and> grp \<le> PQC_METRICS_GROUP_COUNT"
proof -
  let ?m = "m\<lparr>ms_version := PQC_METRICS_SCHEMA_VERSION, ms_seq := ms_seq m + 1, ms_uptime_ticks := now\<rparr>"
  show ?thesis
    using metrics_group_values_total [of grp ?m]
    by (auto simp: pqc_metrics_build_report_def Let_def)
qed

section \<open>Properties\<close>

text \<open>
  C30.  The wire format of a metrics report is canonical: a byte string decodes to a report exactly when the
  report has the current schema version and a known group and encodes to that byte string.
\<close>

theorem metrics_codec_canonical: "report_of_bytes bs = Some r \<longleftrightarrow> report_wf r \<and> report_to_bytes r = bs"
  by (rule metrics_report.decode_Some_iff)

text \<open>
  Every group from 1 to 7 and no other yields a report; the report carries the group, the clock, the
  next sequence number (which wraps) and is one the decoder accepts.
\<close>

theorem build_report_spec:
  "case pqc_metrics_build_report now m grp of
     (m', None) \<Rightarrow> (grp = 0 \<or> PQC_METRICS_GROUP_COUNT < grp)
   | (m', Some r) \<Rightarrow> grp \<noteq> 0 \<and> grp \<le> PQC_METRICS_GROUP_COUNT \<and> rp_group r = grp \<and> rp_uptime_ticks r = now \<and>
       rp_seq r = ms_seq m + 1 \<and> ms_seq m' = ms_seq m + 1 \<and> report_of_bytes (report_to_bytes r) = Some r"
proof -
  obtain m' r where b: "pqc_metrics_build_report now m grp = (m', r)" by fastforce
  show ?thesis
  proof (cases r)
    case None
    then show ?thesis using b build_report_Some_iff [of now m grp] by (simp add: not_le)
  next
    case (Some report)
    then have s: "pqc_metrics_build_report now m grp = (m', Some report)" using b by simp
    from build_report_wf [OF s] metrics_report.decode_encode [of report] build_report_Some_iff [of now m grp]
    show ?thesis by (simp add: s)
  qed
qed

end
