(* ===== verification/Tiny_AES.thy ===== *)
theory Tiny_AES
  imports Prelude
begin

text \<open>
  The block cipher of \<open>src/extern/tiny_aes/aes.c\<close> in the configuration the firmware builds
  (\<open>AES256\<close>, with ECB, CBC and CTR): key expansion, the cipher and its inverse, and the three
  modes.  A \<open>state_t\<close> is the 16-byte buffer it is cast from, so \<open>(*state)[i][j]\<close> is element
  \<open>4 * i + j\<close>.  The lemmas show that decryption inverts encryption and that counter mode is the
  exclusive-or with a key stream produced by a 128-bit big-endian counter.
\<close>

section \<open>Tables\<close>

abbreviation (input) Nb :: nat where "Nb \<equiv> 4"
abbreviation (input) Nk :: nat where "Nk \<equiv> 8"
abbreviation (input) Nr :: nat where "Nr \<equiv> 14"
abbreviation (input) AES_BLOCKLEN :: nat where "AES_BLOCKLEN \<equiv> 16"
abbreviation (input) AES_KEYLEN :: nat where "AES_KEYLEN \<equiv> 32"
abbreviation (input) AES_keyExpSize :: nat where "AES_keyExpSize \<equiv> 240"

type_synonym aes_state = "u8 list"

definition sbox :: "u8 list" where
  "sbox = [
     0x63, 0x7c, 0x77, 0x7b, 0xf2, 0x6b, 0x6f, 0xc5, 0x30, 0x01, 0x67, 0x2b, 0xfe, 0xd7, 0xab, 0x76,
     0xca, 0x82, 0xc9, 0x7d, 0xfa, 0x59, 0x47, 0xf0, 0xad, 0xd4, 0xa2, 0xaf, 0x9c, 0xa4, 0x72, 0xc0,
     0xb7, 0xfd, 0x93, 0x26, 0x36, 0x3f, 0xf7, 0xcc, 0x34, 0xa5, 0xe5, 0xf1, 0x71, 0xd8, 0x31, 0x15,
     0x04, 0xc7, 0x23, 0xc3, 0x18, 0x96, 0x05, 0x9a, 0x07, 0x12, 0x80, 0xe2, 0xeb, 0x27, 0xb2, 0x75,
     0x09, 0x83, 0x2c, 0x1a, 0x1b, 0x6e, 0x5a, 0xa0, 0x52, 0x3b, 0xd6, 0xb3, 0x29, 0xe3, 0x2f, 0x84,
     0x53, 0xd1, 0x00, 0xed, 0x20, 0xfc, 0xb1, 0x5b, 0x6a, 0xcb, 0xbe, 0x39, 0x4a, 0x4c, 0x58, 0xcf,
     0xd0, 0xef, 0xaa, 0xfb, 0x43, 0x4d, 0x33, 0x85, 0x45, 0xf9, 0x02, 0x7f, 0x50, 0x3c, 0x9f, 0xa8,
     0x51, 0xa3, 0x40, 0x8f, 0x92, 0x9d, 0x38, 0xf5, 0xbc, 0xb6, 0xda, 0x21, 0x10, 0xff, 0xf3, 0xd2,
     0xcd, 0x0c, 0x13, 0xec, 0x5f, 0x97, 0x44, 0x17, 0xc4, 0xa7, 0x7e, 0x3d, 0x64, 0x5d, 0x19, 0x73,
     0x60, 0x81, 0x4f, 0xdc, 0x22, 0x2a, 0x90, 0x88, 0x46, 0xee, 0xb8, 0x14, 0xde, 0x5e, 0x0b, 0xdb,
     0xe0, 0x32, 0x3a, 0x0a, 0x49, 0x06, 0x24, 0x5c, 0xc2, 0xd3, 0xac, 0x62, 0x91, 0x95, 0xe4, 0x79,
     0xe7, 0xc8, 0x37, 0x6d, 0x8d, 0xd5, 0x4e, 0xa9, 0x6c, 0x56, 0xf4, 0xea, 0x65, 0x7a, 0xae, 0x08,
     0xba, 0x78, 0x25, 0x2e, 0x1c, 0xa6, 0xb4, 0xc6, 0xe8, 0xdd, 0x74, 0x1f, 0x4b, 0xbd, 0x8b, 0x8a,
     0x70, 0x3e, 0xb5, 0x66, 0x48, 0x03, 0xf6, 0x0e, 0x61, 0x35, 0x57, 0xb9, 0x86, 0xc1, 0x1d, 0x9e,
     0xe1, 0xf8, 0x98, 0x11, 0x69, 0xd9, 0x8e, 0x94, 0x9b, 0x1e, 0x87, 0xe9, 0xce, 0x55, 0x28, 0xdf,
     0x8c, 0xa1, 0x89, 0x0d, 0xbf, 0xe6, 0x42, 0x68, 0x41, 0x99, 0x2d, 0x0f, 0xb0, 0x54, 0xbb, 0x16]"

definition rsbox :: "u8 list" where
  "rsbox = [
     0x52, 0x09, 0x6a, 0xd5, 0x30, 0x36, 0xa5, 0x38, 0xbf, 0x40, 0xa3, 0x9e, 0x81, 0xf3, 0xd7, 0xfb,
     0x7c, 0xe3, 0x39, 0x82, 0x9b, 0x2f, 0xff, 0x87, 0x34, 0x8e, 0x43, 0x44, 0xc4, 0xde, 0xe9, 0xcb,
     0x54, 0x7b, 0x94, 0x32, 0xa6, 0xc2, 0x23, 0x3d, 0xee, 0x4c, 0x95, 0x0b, 0x42, 0xfa, 0xc3, 0x4e,
     0x08, 0x2e, 0xa1, 0x66, 0x28, 0xd9, 0x24, 0xb2, 0x76, 0x5b, 0xa2, 0x49, 0x6d, 0x8b, 0xd1, 0x25,
     0x72, 0xf8, 0xf6, 0x64, 0x86, 0x68, 0x98, 0x16, 0xd4, 0xa4, 0x5c, 0xcc, 0x5d, 0x65, 0xb6, 0x92,
     0x6c, 0x70, 0x48, 0x50, 0xfd, 0xed, 0xb9, 0xda, 0x5e, 0x15, 0x46, 0x57, 0xa7, 0x8d, 0x9d, 0x84,
     0x90, 0xd8, 0xab, 0x00, 0x8c, 0xbc, 0xd3, 0x0a, 0xf7, 0xe4, 0x58, 0x05, 0xb8, 0xb3, 0x45, 0x06,
     0xd0, 0x2c, 0x1e, 0x8f, 0xca, 0x3f, 0x0f, 0x02, 0xc1, 0xaf, 0xbd, 0x03, 0x01, 0x13, 0x8a, 0x6b,
     0x3a, 0x91, 0x11, 0x41, 0x4f, 0x67, 0xdc, 0xea, 0x97, 0xf2, 0xcf, 0xce, 0xf0, 0xb4, 0xe6, 0x73,
     0x96, 0xac, 0x74, 0x22, 0xe7, 0xad, 0x35, 0x85, 0xe2, 0xf9, 0x37, 0xe8, 0x1c, 0x75, 0xdf, 0x6e,
     0x47, 0xf1, 0x1a, 0x71, 0x1d, 0x29, 0xc5, 0x89, 0x6f, 0xb7, 0x62, 0x0e, 0xaa, 0x18, 0xbe, 0x1b,
     0xfc, 0x56, 0x3e, 0x4b, 0xc6, 0xd2, 0x79, 0x20, 0x9a, 0xdb, 0xc0, 0xfe, 0x78, 0xcd, 0x5a, 0xf4,
     0x1f, 0xdd, 0xa8, 0x33, 0x88, 0x07, 0xc7, 0x31, 0xb1, 0x12, 0x10, 0x59, 0x27, 0x80, 0xec, 0x5f,
     0x60, 0x51, 0x7f, 0xa9, 0x19, 0xb5, 0x4a, 0x0d, 0x2d, 0xe5, 0x7a, 0x9f, 0x93, 0xc9, 0x9c, 0xef,
     0xa0, 0xe0, 0x3b, 0x4d, 0xae, 0x2a, 0xf5, 0xb0, 0xc8, 0xeb, 0xbb, 0x3c, 0x83, 0x53, 0x99, 0x61,
     0x17, 0x2b, 0x04, 0x7e, 0xba, 0x77, 0xd6, 0x26, 0xe1, 0x69, 0x14, 0x63, 0x55, 0x21, 0x0c, 0x7d]"

definition Rcon :: "u8 list" where
  "Rcon = [0x8d, 0x01, 0x02, 0x04, 0x08, 0x10, 0x20, 0x40, 0x80, 0x1b, 0x36]"

definition getSBoxValue :: "u8 \<Rightarrow> u8" where "getSBoxValue num = sbox ! unat num"

definition getSBoxInvert :: "u8 \<Rightarrow> u8" where "getSBoxInvert num = rsbox ! unat num"

section \<open>Key expansion\<close>

text \<open>One pass of the second loop of \<open>KeyExpansion\<close>, for word \<open>i\<close>.\<close>

definition SubWord :: "u8 list \<Rightarrow> u8 list" where
  "SubWord tempa = map getSBoxValue tempa"

definition RotWord :: "u8 list \<Rightarrow> u8 list" where
  "RotWord tempa = [tempa ! 1, tempa ! 2, tempa ! 3, tempa ! 0]"

definition KeyExpansion_step :: "nat \<Rightarrow> u8 list \<Rightarrow> u8 list" where
  "KeyExpansion_step i RoundKey =
     (let k = (i - 1) * 4;
          tempa = [RoundKey ! (k + 0), RoundKey ! (k + 1), RoundKey ! (k + 2), RoundKey ! (k + 3)];
          tempa = (if i mod Nk = 0
                   then let tempa = SubWord (RotWord tempa)
                        in tempa[0 := tempa ! 0 XOR Rcon ! (i div Nk)]
                   else tempa);
          tempa = (if i mod Nk = 4 then SubWord tempa else tempa);
          j = i * 4; k = (i - Nk) * 4;
          RoundKey = RoundKey[j + 0 := RoundKey ! (k + 0) XOR tempa ! 0];
          RoundKey = RoundKey[j + 1 := RoundKey ! (k + 1) XOR tempa ! 1];
          RoundKey = RoundKey[j + 2 := RoundKey ! (k + 2) XOR tempa ! 2];
          RoundKey = RoundKey[j + 3 := RoundKey ! (k + 3) XOR tempa ! 3]
      in RoundKey)"

definition KeyExpansion :: "u8 list \<Rightarrow> u8 list \<Rightarrow> u8 list" where
  "KeyExpansion RoundKey Key =
     (let RoundKey = fold (\<lambda>i rk. rk[i * 4 + 0 := Key ! (i * 4 + 0), i * 4 + 1 := Key ! (i * 4 + 1),
                                     i * 4 + 2 := Key ! (i * 4 + 2), i * 4 + 3 := Key ! (i * 4 + 3)])
                      [0..<Nk] RoundKey
      in fold KeyExpansion_step [Nk..<Nb * (Nr + 1)] RoundKey)"

section \<open>Round functions\<close>

definition AddRoundKey :: "nat \<Rightarrow> u8 list \<Rightarrow> aes_state \<Rightarrow> aes_state" where
  "AddRoundKey round RoundKey state =
     fold (\<lambda>i. fold (\<lambda>j st. st[4 * i + j := st ! (4 * i + j) XOR RoundKey ! (round * Nb * 4 + i * Nb + j)])
       [0..<4]) [0..<4] state"

definition SubBytes :: "aes_state \<Rightarrow> aes_state" where
  "SubBytes state =
     fold (\<lambda>i. fold (\<lambda>j st. st[4 * j + i := getSBoxValue (st ! (4 * j + i))]) [0..<4]) [0..<4] state"

definition ShiftRows :: "aes_state \<Rightarrow> aes_state" where
  "ShiftRows s0 =
     (let temp = s0 ! 1; s1 = s0[1 := s0 ! 5]; s2 = s1[5 := s1 ! 9]; s3 = s2[9 := s2 ! 13];
          s4 = s3[13 := temp];
          temp = s4 ! 2; s5 = s4[2 := s4 ! 10]; s6 = s5[10 := temp];
          temp = s6 ! 6; s7 = s6[6 := s6 ! 14]; s8 = s7[14 := temp];
          temp = s8 ! 3; s9 = s8[3 := s8 ! 15]; s10 = s9[15 := s9 ! 11]; s11 = s10[11 := s10 ! 7]
      in s11[7 := temp])"

definition xtime :: "u8 \<Rightarrow> u8" where
  "xtime x = push_bit 1 x XOR ((drop_bit 7 x AND 1) * 0x1b)"

definition MixColumns_col :: "nat \<Rightarrow> aes_state \<Rightarrow> aes_state" where
  "MixColumns_col i s0 =
     (let t = s0 ! (4 * i);
          Tmp = s0 ! (4 * i) XOR s0 ! (4 * i + 1) XOR s0 ! (4 * i + 2) XOR s0 ! (4 * i + 3);
          Tm = xtime (s0 ! (4 * i) XOR s0 ! (4 * i + 1));
          s1 = s0[4 * i := s0 ! (4 * i) XOR (Tm XOR Tmp)];
          Tm = xtime (s1 ! (4 * i + 1) XOR s1 ! (4 * i + 2));
          s2 = s1[4 * i + 1 := s1 ! (4 * i + 1) XOR (Tm XOR Tmp)];
          Tm = xtime (s2 ! (4 * i + 2) XOR s2 ! (4 * i + 3));
          s3 = s2[4 * i + 2 := s2 ! (4 * i + 2) XOR (Tm XOR Tmp)];
          Tm = xtime (s3 ! (4 * i + 3) XOR t)
      in s3[4 * i + 3 := s3 ! (4 * i + 3) XOR (Tm XOR Tmp)])"

definition MixColumns :: "aes_state \<Rightarrow> aes_state" where
  "MixColumns state = fold MixColumns_col [0..<4] state"

definition Multiply :: "u8 \<Rightarrow> u8 \<Rightarrow> u8" where
  "Multiply x y =
     ((y AND 1) * x) XOR
     ((drop_bit 1 y AND 1) * xtime x) XOR
     ((drop_bit 2 y AND 1) * xtime (xtime x)) XOR
     ((drop_bit 3 y AND 1) * xtime (xtime (xtime x))) XOR
     ((drop_bit 4 y AND 1) * xtime (xtime (xtime (xtime x))))"

definition InvMixColumns_col :: "nat \<Rightarrow> aes_state \<Rightarrow> aes_state" where
  "InvMixColumns_col i s =
     (let a = s ! (4 * i); b = s ! (4 * i + 1); c = s ! (4 * i + 2); d = s ! (4 * i + 3);
          s = s[4 * i := Multiply a 0x0e XOR Multiply b 0x0b XOR Multiply c 0x0d XOR Multiply d 0x09];
          s = s[4 * i + 1 := Multiply a 0x09 XOR Multiply b 0x0e XOR Multiply c 0x0b XOR Multiply d 0x0d];
          s = s[4 * i + 2 := Multiply a 0x0d XOR Multiply b 0x09 XOR Multiply c 0x0e XOR Multiply d 0x0b]
      in s[4 * i + 3 := Multiply a 0x0b XOR Multiply b 0x0d XOR Multiply c 0x09 XOR Multiply d 0x0e])"

definition InvMixColumns :: "aes_state \<Rightarrow> aes_state" where
  "InvMixColumns state = fold InvMixColumns_col [0..<4] state"

definition InvSubBytes :: "aes_state \<Rightarrow> aes_state" where
  "InvSubBytes state =
     fold (\<lambda>i. fold (\<lambda>j st. st[4 * j + i := getSBoxInvert (st ! (4 * j + i))]) [0..<4]) [0..<4] state"

definition InvShiftRows :: "aes_state \<Rightarrow> aes_state" where
  "InvShiftRows s0 =
     (let temp = s0 ! 13; s1 = s0[13 := s0 ! 9]; s2 = s1[9 := s1 ! 5]; s3 = s2[5 := s2 ! 1];
          s4 = s3[1 := temp];
          temp = s4 ! 2; s5 = s4[2 := s4 ! 10]; s6 = s5[10 := temp];
          temp = s6 ! 6; s7 = s6[6 := s6 ! 14]; s8 = s7[14 := temp];
          temp = s8 ! 3; s9 = s8[3 := s8 ! 7]; s10 = s9[7 := s9 ! 11]; s11 = s10[11 := s10 ! 15]
      in s11[15 := temp])"

section \<open>Cipher and inverse cipher\<close>

text \<open>
  The \<open>for\<close> loops count \<open>round\<close> up to (down from) a fixed value; the recursions count the
  rounds that are left, so \<open>Cipher_rounds n\<close> is the loop entered with \<open>round = Nr - n\<close>.
\<close>

fun Cipher_rounds :: "nat \<Rightarrow> u8 list \<Rightarrow> aes_state \<Rightarrow> aes_state" where
  "Cipher_rounds 0 RoundKey state = ShiftRows (SubBytes state)"
| "Cipher_rounds (Suc n) RoundKey state =
     Cipher_rounds n RoundKey
       (AddRoundKey (Nr - Suc n) RoundKey (MixColumns (ShiftRows (SubBytes state))))"

definition Cipher :: "u8 list \<Rightarrow> aes_state \<Rightarrow> aes_state" where
  "Cipher RoundKey state =
     (let state = AddRoundKey 0 RoundKey state;
          state = Cipher_rounds (Nr - 1) RoundKey state
      in AddRoundKey Nr RoundKey state)"

text \<open>\<open>InvCipher_rounds round\<close> is the loop entered with that value of \<open>round\<close>.\<close>

fun InvCipher_rounds :: "nat \<Rightarrow> u8 list \<Rightarrow> aes_state \<Rightarrow> aes_state" where
  "InvCipher_rounds 0 RoundKey state = AddRoundKey 0 RoundKey (InvSubBytes (InvShiftRows state))"
| "InvCipher_rounds (Suc round) RoundKey state =
     InvCipher_rounds round RoundKey
       (InvMixColumns (AddRoundKey (Suc round) RoundKey (InvSubBytes (InvShiftRows state))))"

definition InvCipher :: "u8 list \<Rightarrow> aes_state \<Rightarrow> aes_state" where
  "InvCipher RoundKey state =
     InvCipher_rounds (Nr - 1) RoundKey (AddRoundKey Nr RoundKey state)"

section \<open>Contexts and modes\<close>

record AES_ctx =
  RoundKey :: "u8 list"
  Iv :: "u8 list"

definition AES_init_ctx :: "AES_ctx \<Rightarrow> u8 list \<Rightarrow> AES_ctx" where
  "AES_init_ctx ctx key = ctx\<lparr>RoundKey := KeyExpansion (RoundKey ctx) key\<rparr>"

definition AES_init_ctx_iv :: "AES_ctx \<Rightarrow> u8 list \<Rightarrow> u8 list \<Rightarrow> AES_ctx" where
  "AES_init_ctx_iv ctx key iv =
     ctx\<lparr>RoundKey := KeyExpansion (RoundKey ctx) key, Iv := memcpy_at (Iv ctx) 0 (take AES_BLOCKLEN iv)\<rparr>"

definition AES_ctx_set_iv :: "AES_ctx \<Rightarrow> u8 list \<Rightarrow> AES_ctx" where
  "AES_ctx_set_iv ctx iv = ctx\<lparr>Iv := memcpy_at (Iv ctx) 0 (take AES_BLOCKLEN iv)\<rparr>"

definition AES_ECB_encrypt :: "AES_ctx \<Rightarrow> u8 list \<Rightarrow> u8 list" where
  "AES_ECB_encrypt ctx buf = Cipher (RoundKey ctx) buf"

definition AES_ECB_decrypt :: "AES_ctx \<Rightarrow> u8 list \<Rightarrow> u8 list" where
  "AES_ECB_decrypt ctx buf = InvCipher (RoundKey ctx) buf"

definition XorWithIv :: "u8 list \<Rightarrow> u8 list \<Rightarrow> u8 list" where
  "XorWithIv buf iv = fold (\<lambda>i b. b[i := b ! i XOR iv ! i]) [0..<AES_BLOCKLEN] buf"

text \<open>
  The CBC loops.  \<open>buf\<close> is the part of the array from the moving pointer on and \<open>len\<close> what is
  left of \<open>length - i\<close>; the loop runs while \<open>len\<close> is positive and advances by a block, so a
  length that is not a multiple of the block size processes the last block in full.
\<close>

function CBC_encrypt_loop :: "u8 list \<Rightarrow> u8 list \<Rightarrow> u8 list \<Rightarrow> nat \<Rightarrow> u8 list \<times> u8 list" where
  "CBC_encrypt_loop rk iv buf len =
     (if len = 0 then (iv, buf)
      else
        let block = Cipher rk (XorWithIv (take AES_BLOCKLEN buf) iv);
            (iv', rest) = CBC_encrypt_loop rk block (drop AES_BLOCKLEN buf) (len - AES_BLOCKLEN)
        in (iv', block @ rest))"
  by auto

termination
  by (relation "measure (\<lambda>(rk, iv, buf, len). len)") auto

definition AES_CBC_encrypt_buffer :: "AES_ctx \<Rightarrow> u8 list \<Rightarrow> nat \<Rightarrow> AES_ctx \<times> u8 list" where
  "AES_CBC_encrypt_buffer ctx buf len =
     (let (iv, buf) = CBC_encrypt_loop (RoundKey ctx) (Iv ctx) buf len in (ctx\<lparr>Iv := iv\<rparr>, buf))"

function CBC_decrypt_loop :: "AES_ctx \<Rightarrow> u8 list \<Rightarrow> nat \<Rightarrow> AES_ctx \<times> u8 list" where
  "CBC_decrypt_loop ctx buf len =
     (if len = 0 then (ctx, buf)
      else
        let storeNextIv = take AES_BLOCKLEN buf;
            block = XorWithIv (InvCipher (RoundKey ctx) (take AES_BLOCKLEN buf)) (Iv ctx);
            ctx = ctx\<lparr>Iv := storeNextIv\<rparr>;
            (ctx', rest) = CBC_decrypt_loop ctx (drop AES_BLOCKLEN buf) (len - AES_BLOCKLEN)
        in (ctx', block @ rest))"
  by auto

termination
  by (relation "measure (\<lambda>(ctx, buf, len). len)") auto

definition AES_CBC_decrypt_buffer :: "AES_ctx \<Rightarrow> u8 list \<Rightarrow> nat \<Rightarrow> AES_ctx \<times> u8 list" where
  "AES_CBC_decrypt_buffer ctx buf len = CBC_decrypt_loop ctx buf len"

text \<open>\<open>ctr_increment bi iv\<close> is the inner loop of counter mode entered with index \<open>bi - 1\<close>.\<close>

fun ctr_increment :: "nat \<Rightarrow> u8 list \<Rightarrow> u8 list" where
  "ctr_increment 0 iv = iv"
| "ctr_increment (Suc bi) iv =
     (if iv ! bi = 255 then ctr_increment bi (iv[bi := 0]) else iv[bi := iv ! bi + 1])"

text \<open>\<open>CTR_loop n i\<close> is the outer loop with \<open>n\<close> iterations left, at index \<open>i\<close>.\<close>

fun CTR_loop :: "nat \<Rightarrow> nat \<Rightarrow> nat \<Rightarrow> u8 list \<Rightarrow> AES_ctx \<Rightarrow> u8 list \<Rightarrow> AES_ctx \<times> u8 list" where
  "CTR_loop 0 i bi buffer ctx buf = (ctx, buf)"
| "CTR_loop (Suc n) i bi buffer ctx buf =
     (if bi = AES_BLOCKLEN
      then let buffer = Cipher (RoundKey ctx) (Iv ctx);
               ctx = ctx\<lparr>Iv := ctr_increment AES_BLOCKLEN (Iv ctx)\<rparr>
           in CTR_loop n (Suc i) 1 buffer ctx (buf[i := buf ! i XOR buffer ! 0])
      else CTR_loop n (Suc i) (Suc bi) buffer ctx (buf[i := buf ! i XOR buffer ! bi]))"

definition AES_CTR_xcrypt_buffer :: "AES_ctx \<Rightarrow> u8 list \<Rightarrow> nat \<Rightarrow> AES_ctx \<times> u8 list" where
  "AES_CTR_xcrypt_buffer ctx buf len =
     CTR_loop len 0 AES_BLOCKLEN (replicate AES_BLOCKLEN 0) ctx buf"

section \<open>Decryption inverts encryption\<close>

lemma length_16:
  assumes "length s = 16"
  obtains a b c d e f g h i j k l m n p q where "s = [a, b, c, d, e, f, g, h, i, j, k, l, m, n, p, q]"
  using assms that by (auto simp: length_Suc_conv numeral_eq_Suc)

lemma upt_0_4: "[0..<4] = [0, 1, 2, 3 :: nat]"
  by (simp add: upt_rec)

lemma upt_0_16: "[0..<16] = [0, 1, 2, 3, 4, 5, 6, 7, 8, 9, 10, 11, 12, 13, 14, 15 :: nat]"
  by (simp add: upt_rec)

lemma AddRoundKey_map:
  "length s = 16 \<Longrightarrow> AddRoundKey r rk s = map (\<lambda>n. s ! n XOR rk ! (16 * r + n)) [0..<16]"
  by (erule length_16) (simp add: AddRoundKey_def upt_0_4 upt_0_16 ac_simps)

lemma SubBytes_map: "length s = 16 \<Longrightarrow> SubBytes s = map getSBoxValue s"
  by (erule length_16) (simp add: SubBytes_def upt_0_4)

lemma InvSubBytes_map: "length s = 16 \<Longrightarrow> InvSubBytes s = map getSBoxInvert s"
  by (erule length_16) (simp add: InvSubBytes_def upt_0_4)

lemma aes_state_lengths [simp]:
  "length s = 16 \<Longrightarrow> length (AddRoundKey r rk s) = 16"
  "length s = 16 \<Longrightarrow> length (SubBytes s) = 16"
  "length s = 16 \<Longrightarrow> length (InvSubBytes s) = 16"
  "length (ShiftRows s) = length s" "length (InvShiftRows s) = length s"
  "length (MixColumns s) = length s" "length (InvMixColumns s) = length s"
  by (simp_all add: AddRoundKey_map SubBytes_map InvSubBytes_map ShiftRows_def InvShiftRows_def
      MixColumns_def InvMixColumns_def MixColumns_col_def InvMixColumns_col_def Let_def upt_0_4)

lemma AddRoundKey_involution: "length s = 16 \<Longrightarrow> AddRoundKey r rk (AddRoundKey r rk s) = s"
  by (rule nth_equalityI) (simp_all add: AddRoundKey_map xor.assoc)

lemma ShiftRows_inverse: "length s = 16 \<Longrightarrow> InvShiftRows (ShiftRows s) = s"
  by (erule length_16) (simp add: ShiftRows_def InvShiftRows_def Let_def)

lemma u8_exhaust_list: "(x :: u8) \<in> set (map of_nat [0..<256])"
  by (auto intro!: image_eqI [of _ _ "unat x"])

lemma sbox_inverse: "getSBoxInvert (getSBoxValue x) = x"
proof -
  have "list_all (\<lambda>n. rsbox ! unat (sbox ! n) = (of_nat n :: u8)) [0..<256]"
    by code_simp
  then have "rsbox ! unat (sbox ! unat x) = of_nat (unat x)"
    by (simp add: list_all_iff)
  then show ?thesis by (simp add: getSBoxInvert_def getSBoxValue_def)
qed

lemma SubBytes_inverse: "length s = 16 \<Longrightarrow> InvSubBytes (SubBytes s) = s"
  by (simp add: SubBytes_map InvSubBytes_map o_def sbox_inverse)

text \<open>\<open>xtime\<close> is additive, so multiplication by a constant is.\<close>

lemma xtime_alt: "xtime x = push_bit 1 x XOR (if bit x 7 then 0x1b else 0)"
proof -
  have "drop_bit 7 x AND 1 = (if bit x 7 then 1 else 0)"
    by (rule bit_word_eqI) (auto simp: bit_simps intro!: gr0I)
  then show ?thesis by (simp add: xtime_def)
qed

lemma xtime_xor: "xtime (a XOR b) = xtime a XOR xtime b"
  by (auto simp: xtime_alt bit_xor_iff push_bit_xor xor.assoc xor.left_commute xor.commute)

lemma Multiply_consts:
  "Multiply x 0x0e = xtime x XOR xtime (xtime x) XOR xtime (xtime (xtime x))"
  "Multiply x 0x0b = x XOR xtime x XOR xtime (xtime (xtime x))"
  "Multiply x 0x0d = x XOR xtime (xtime x) XOR xtime (xtime (xtime x))"
  "Multiply x 0x09 = x XOR xtime (xtime (xtime x))"
  by (simp_all add: Multiply_def)

lemma xor_cancel [simp]: "(a :: 'a::len word) XOR (a XOR b) = b"
  by (simp add: xor.assoc [symmetric])

lemma mix_column_inverse:
  fixes a b c d :: u8
  defines "T \<equiv> a XOR b XOR c XOR d"
  defines "a' \<equiv> a XOR (xtime (a XOR b) XOR T)" and "b' \<equiv> b XOR (xtime (b XOR c) XOR T)"
    and "c' \<equiv> c XOR (xtime (c XOR d) XOR T)" and "d' \<equiv> d XOR (xtime (d XOR a) XOR T)"
  shows "Multiply a' 0x0e XOR Multiply b' 0x0b XOR Multiply c' 0x0d XOR Multiply d' 0x09 = a"
    and "Multiply a' 0x09 XOR Multiply b' 0x0e XOR Multiply c' 0x0b XOR Multiply d' 0x0d = b"
    and "Multiply a' 0x0d XOR Multiply b' 0x09 XOR Multiply c' 0x0e XOR Multiply d' 0x0b = c"
    and "Multiply a' 0x0b XOR Multiply b' 0x0d XOR Multiply c' 0x09 XOR Multiply d' 0x0e = d"
  unfolding assms Multiply_consts xtime_xor
  by (simp_all add: xor.assoc xor.left_commute xor.commute)

lemma MixColumns_inverse: "length s = 16 \<Longrightarrow> InvMixColumns (MixColumns s) = s"
  by (erule length_16)
    (simp add: MixColumns_def InvMixColumns_def MixColumns_col_def InvMixColumns_col_def Let_def upt_0_4
       mix_column_inverse)

lemma Cipher_rounds_length [simp]: "length s = 16 \<Longrightarrow> length (Cipher_rounds n rk s) = 16"
  by (induction n arbitrary: s) auto

lemma Cipher_length [simp]: "length s = 16 \<Longrightarrow> length (Cipher rk s) = 16"
  by (simp add: Cipher_def Let_def)

lemma InvCipher_rounds_step:
  assumes "length s = 16" and "n < 14"
  shows "InvCipher_rounds 13 rk (Cipher_rounds n rk s) =
    (if n = 13 then AddRoundKey 0 rk s
     else InvCipher_rounds (12 - n) rk (InvMixColumns (AddRoundKey (13 - n) rk s)))"
  using assms
proof (induction n arbitrary: s)
  case 0
  then show ?case
    using InvCipher_rounds.simps(2) [of 12] by (simp add: ShiftRows_inverse SubBytes_inverse)
next
  case (Suc n)
  let ?t = "AddRoundKey (13 - n) rk (MixColumns (ShiftRows (SubBytes s)))"
  have "InvCipher_rounds 13 rk (Cipher_rounds (Suc n) rk s) =
      InvCipher_rounds (12 - n) rk (InvMixColumns (AddRoundKey (13 - n) rk ?t))"
    using Suc by simp
  also have "\<dots> = InvCipher_rounds (12 - n) rk (ShiftRows (SubBytes s))"
    using Suc.prems by (simp add: AddRoundKey_involution MixColumns_inverse)
  finally show ?case
    using Suc.prems InvCipher_rounds.simps(2) [of "11 - n" rk "ShiftRows (SubBytes s)"]
      Suc_diff_le [of n 11]
    by (cases "n = 12") (auto simp: ShiftRows_inverse SubBytes_inverse)
qed

lemma InvCipher_Cipher: "length s = 16 \<Longrightarrow> InvCipher rk (Cipher rk s) = s"
  by (simp add: InvCipher_def Cipher_def Let_def AddRoundKey_involution InvCipher_rounds_step)

section \<open>Counter mode\<close>

text \<open>The 16-byte counter as a number, most significant byte first.\<close>

definition be_value :: "u8 list \<Rightarrow> nat" where
  "be_value bs = foldl (\<lambda>v b. 256 * v + unat b) 0 bs"

lemma be_value_snoc: "be_value (bs @ [b]) = 256 * be_value bs + unat b"
  by (simp add: be_value_def)

lemma ctr_increment_length [simp]: "length (ctr_increment n iv) = length iv"
  by (induction n arbitrary: iv) auto

lemma ctr_increment_snoc:
  "n \<le> length iv \<Longrightarrow> ctr_increment n (iv @ ys) = ctr_increment n iv @ ys"
  by (induction n arbitrary: iv) (auto simp: nth_append list_update_append)

lemma be_value_lt: "be_value bs < 256 ^ length bs"
proof (induction bs rule: rev_induct)
  case (snoc b bs)
  have "256 * v + unat b < 256 * w" if "v < w" for v w
    using that unat_u8_lt [of b] by linarith
  from this [OF snoc] show ?case by (simp add: be_value_snoc)
qed (simp add: be_value_def)

text \<open>The inner loop adds one modulo the size of the counter.\<close>

lemma ctr_increment_value:
  "be_value (ctr_increment (length iv) iv) = (be_value iv + 1) mod 256 ^ length iv"
proof (induction iv rule: rev_induct)
  case Nil
  then show ?case by (simp add: be_value_def)
next
  case (snoc b bs)
  show ?case
  proof (cases "b = 255")
    case True
    then have "ctr_increment (length (bs @ [b])) (bs @ [b]) = ctr_increment (length bs) bs @ [0]"
      by (simp add: ctr_increment_snoc)
    moreover have "256 * (Suc (be_value bs) mod 256 ^ length bs) =
        (256 * Suc (be_value bs)) mod (256 * 256 ^ length bs)"
      by (rule mult_mod_right)
    moreover have "unat (255 :: u8) = 255" by simp
    ultimately show ?thesis using True snoc by (simp add: be_value_snoc)
  next
    case False
    then have "unat b \<noteq> 255" by (simp add: word_unat_eq_iff)
    then have b: "unat b + 1 < 256" using unat_u8_lt [of b] by linarith
    then have "unat (b + 1) = Suc (unat b)" by (intro unat_Suc_small) simp
    moreover have "256 * be_value bs + Suc (unat b) < 256 * 256 ^ length bs"
    proof -
      have "256 * Suc (be_value bs) \<le> 256 * 256 ^ length bs"
        using be_value_lt [of bs] by (intro mult_le_mono2) simp
      with b show ?thesis by simp
    qed
    ultimately show ?thesis using False by (simp add: be_value_snoc)
  qed
qed

text \<open>The key stream: block \<open>k\<close> is the cipher of the counter advanced \<open>k\<close> times.\<close>

definition ctr_keystream :: "AES_ctx \<Rightarrow> nat \<Rightarrow> u8" where
  "ctr_keystream ctx i =
     Cipher (RoundKey ctx) ((ctr_increment 16 ^^ (i div 16)) (Iv ctx)) ! (i mod 16)"

lemma CTR_loop_spec:
  assumes "bi \<le> 16" and "i + n \<le> length buf"
    and "\<And>k. k < 16 - bi \<Longrightarrow> buffer ! (bi + k) = ks (i + k)"
    and "\<And>k. ks (i + (16 - bi) + k) = ctr_keystream ctx k"
  shows "snd (CTR_loop n i bi buffer ctx buf) =
     map (\<lambda>m. if i \<le> m \<and> m < i + n then buf ! m XOR ks m else buf ! m) [0..<length buf]"
  using assms
proof (induction n arbitrary: i bi buffer ctx buf)
  case 0
  show ?case by (rule nth_equalityI) auto
next
  case (Suc n)
  have upd: "map (\<lambda>m. if Suc i \<le> m \<and> m < Suc i + n then buf[i := v] ! m XOR ks m else buf[i := v] ! m)
      [0..<length (buf[i := v])] =
    map (\<lambda>m. if i \<le> m \<and> m < i + Suc n then buf ! m XOR ks m else buf ! m) [0..<length buf]"
    if "v = buf ! i XOR ks i" for v
    using that Suc.prems(2) by (auto simp: nth_list_update)
  show ?case
  proof (cases "bi = 16")
    case True
    let ?b = "Cipher (RoundKey ctx) (Iv ctx)" and ?c = "ctx\<lparr>Iv := ctr_increment 16 (Iv ctx)\<rparr>"
    have ks: "ks (i + k) = ctr_keystream ctx k" for k using Suc.prems(4) [of k] True by simp
    have shift: "ctr_keystream ctx (16 + k) = ctr_keystream ?c k" for k
    proof -
      have "(16 + k) div 16 = Suc (k div 16)" by simp
      then show ?thesis by (simp only: ctr_keystream_def) (simp add: funpow_swap1)
    qed
    have b: "?b ! k = ks (i + k)" if "k < 16" for k
      using that by (simp add: ks ctr_keystream_def)
    have "snd (CTR_loop n (Suc i) 1 ?b ?c (buf[i := buf ! i XOR ?b ! 0])) =
      map (\<lambda>m. if Suc i \<le> m \<and> m < Suc i + n then buf[i := buf ! i XOR ?b ! 0] ! m XOR ks m
         else buf[i := buf ! i XOR ?b ! 0] ! m) [0..<length (buf[i := buf ! i XOR ?b ! 0])]"
    proof (rule Suc.IH)
      show "?b ! (1 + k) = ks (Suc i + k)" if "k < 16 - 1" for k using b [of "Suc k"] that by simp
      show "ks (Suc i + (16 - 1) + k) = ctr_keystream ?c k" for k
        using ks [of "16 + k"] shift by (simp add: ac_simps)
    qed (use Suc.prems in auto)
    with True upd [of "buf ! i XOR ?b ! 0"] b [of 0] show ?thesis by (simp add: Let_def)
  next
    case False
    let ?v = "buf ! i XOR buffer ! bi"
    have "snd (CTR_loop n (Suc i) (Suc bi) buffer ctx (buf[i := ?v])) =
      map (\<lambda>m. if Suc i \<le> m \<and> m < Suc i + n then buf[i := ?v] ! m XOR ks m
         else buf[i := ?v] ! m) [0..<length (buf[i := ?v])]"
    proof (rule Suc.IH)
      show "buffer ! (Suc bi + k) = ks (Suc i + k)" if "k < 16 - Suc bi" for k
        using Suc.prems(3) [of "Suc k"] that by simp
      show "ks (Suc i + (16 - Suc bi) + k) = ctr_keystream ctx k" for k
      proof -
        have "Suc i + (16 - Suc bi) + k = i + (16 - bi) + k" using Suc.prems(1) False by simp
        then show ?thesis using Suc.prems(4) [of k] by metis
      qed
    qed (use Suc.prems False in auto)
    with False upd [of ?v] Suc.prems(1) Suc.prems(3) [of 0] show ?thesis by simp
  qed
qed

lemma CTR_xcrypt_eq:
  assumes "len \<le> length buf"
  shows "snd (AES_CTR_xcrypt_buffer ctx buf len) =
     map (\<lambda>m. if m < len then buf ! m XOR ctr_keystream ctx m else buf ! m) [0..<length buf]"
  using CTR_loop_spec [of 16 0 len buf "replicate 16 0" "ctr_keystream ctx" ctx] assms
  by (simp add: AES_CTR_xcrypt_buffer_def)

lemma CTR_xcrypt_length [simp]:
  "len \<le> length buf \<Longrightarrow> length (snd (AES_CTR_xcrypt_buffer ctx buf len)) = length buf"
  by (simp add: CTR_xcrypt_eq)

lemma CTR_xcrypt_involution:
  assumes "len \<le> length buf"
  shows "snd (AES_CTR_xcrypt_buffer ctx (snd (AES_CTR_xcrypt_buffer ctx buf len)) len) = buf"
  by (rule nth_equalityI) (use assms in \<open>auto simp: CTR_xcrypt_eq xor.assoc\<close>)

text \<open>The block that a number stands for as a counter, most significant byte first.\<close>

definition counter_block :: "nat \<Rightarrow> u8 list" where
  "counter_block v = map (\<lambda>i. of_nat (v div 256 ^ (15 - i))) [0..<16]"

lemma be_value_inj: "length as = length bs \<Longrightarrow> be_value as = be_value bs \<Longrightarrow> as = bs"
proof (induction as arbitrary: bs rule: rev_induct)
  case (snoc a as)
  then obtain b bs' where bs: "bs = bs' @ [b]" by (cases bs rule: rev_cases) auto
  have "256 * be_value as + unat a = 256 * be_value bs' + unat b" using snoc.prems by (simp add: bs be_value_snoc)
  moreover from this have "(256 * be_value as + unat a) mod 256 = (256 * be_value bs' + unat b) mod 256" by (simp only:)
  then have "unat a = unat b" using unat_u8_lt [of a] unat_u8_lt [of b] by (simp only: mod_mult_self4 mod_less)
  ultimately have "a = b" "be_value as = be_value bs'" by (simp_all add: word_unat_eq_iff)
  moreover have "length as = length bs'" using snoc.prems(1) by (simp add: bs)
  ultimately show ?case using snoc.IH [of bs'] by (simp add: bs)
qed simp

lemma be_value_digits:
  "be_value (map (\<lambda>i. of_nat (v div 256 ^ (n - 1 - i))) [0..<n]) = v mod 256 ^ n"
proof (induction n arbitrary: v)
  case (Suc n)
  have "map (\<lambda>i. of_nat (v div 256 ^ (n - i)) :: u8) [0..<n] = map (\<lambda>i. of_nat (v div 256 div 256 ^ (n - 1 - i))) [0..<n]"
    by (auto simp: div_mult2_eq [symmetric] power_Suc [symmetric] Suc_diff_Suc simp del: power_Suc)
  then have "be_value (map (\<lambda>i. of_nat (v div 256 ^ (n - i)) :: u8) [0..<n]) = v div 256 mod 256 ^ n"
    using Suc [of "v div 256"] by (simp only: diff_Suc_1)
  then show ?case
    by (simp add: be_value_snoc unat_of_nat mod_mult2_eq)
qed (simp add: be_value_def)

lemma counter_block_unique: "length iv = 16 \<Longrightarrow> be_value iv mod 2 ^ 128 = v mod 2 ^ 128 \<Longrightarrow> iv = counter_block v"
  using be_value_digits [of v 16] be_value_lt [of iv] be_value_inj [of iv "counter_block v"] by (simp add: counter_block_def)

lemma ctr_increment_iterate:
  assumes "length iv = 16"
  shows "length ((ctr_increment 16 ^^ k) iv) = 16" "be_value ((ctr_increment 16 ^^ k) iv) = (be_value iv + k) mod 2 ^ 128"
proof (induction k)
  case 0
  case 1 show ?case using assms by simp
  case 2 show ?case using assms be_value_lt [of iv] by simp
next
  case (Suc k)
  case 1 show ?case using Suc by simp
  case 2 show ?case
    using Suc ctr_increment_value [of "(ctr_increment 16 ^^ k) iv"] by (simp add: mod_Suc_eq)
qed

lemma ctr_blocks: "length iv = 16 \<Longrightarrow> (ctr_increment 16 ^^ k) iv = counter_block (be_value iv + k)"
  by (intro counter_block_unique) (simp_all add: ctr_increment_iterate)

text \<open>The counter that is left in the context has advanced by one for every block begun.\<close>

lemma CTR_loop_context:
  assumes "0 < bi" "bi \<le> 16"
  shows "fst (CTR_loop n i bi buffer ctx buf) = ctx\<lparr>Iv := (ctr_increment 16 ^^ ((n + bi - 1) div 16)) (Iv ctx)\<rparr>"
  using assms
proof (induction n arbitrary: i bi buffer ctx buf)
  case (Suc n)
  show ?case
  proof (cases "bi = 16")
    case True
    have "(Suc n + 16 - 1) div 16 = Suc ((n + 1 - 1) div 16)" by simp
    with True Suc.IH [of 1] show ?thesis by (simp add: Let_def funpow_swap1)
  next
    case False
    with Suc.prems Suc.IH [of "Suc bi"] show ?thesis by simp
  qed
qed simp

section \<open>Cipher block chaining\<close>

lemma XorWithIv_map:
  "length b = 16 \<Longrightarrow> XorWithIv b iv = map (\<lambda>n. b ! n XOR iv ! n) [0..<16]"
  by (erule length_16) (simp add: XorWithIv_def upt_0_16)

lemma XorWithIv_length [simp]: "length b = 16 \<Longrightarrow> length (XorWithIv b iv) = 16"
  by (simp add: XorWithIv_map)

lemma XorWithIv_involution: "length b = 16 \<Longrightarrow> XorWithIv (XorWithIv b iv) iv = b"
  by (rule nth_equalityI) (simp_all add: XorWithIv_map xor.assoc)

lemmas CBC_encrypt_loop_step = CBC_encrypt_loop.simps [of _ _ _ "16 + n" for n]
lemmas CBC_decrypt_loop_step = CBC_decrypt_loop.simps [of _ _ "16 + n" for n]

declare CBC_encrypt_loop.simps [simp del] CBC_decrypt_loop.simps [simp del]

lemma CBC_loop_roundtrip:
  assumes "length buf = 16 * n" and "length (Iv ctx) = 16"
    and "CBC_encrypt_loop (RoundKey ctx) (Iv ctx) buf (16 * n) = (iv, enc)"
  shows "length enc = 16 * n \<and> CBC_decrypt_loop ctx enc (16 * n) = (ctx\<lparr>Iv := iv\<rparr>, buf)"
  using assms
proof (induction n arbitrary: buf ctx iv enc)
  case 0
  then show ?case by (simp add: CBC_encrypt_loop.simps [of _ _ _ 0] CBC_decrypt_loop.simps [of _ _ 0])
next
  case (Suc n)
  let ?blk = "Cipher (RoundKey ctx) (XorWithIv (take 16 buf) (Iv ctx))"
  let ?ctx = "ctx\<lparr>Iv := ?blk\<rparr>"
  obtain iv' rest where r: "CBC_encrypt_loop (RoundKey ctx) ?blk (drop 16 buf) (16 * n) = (iv', rest)"
    by fastforce
  have l: "length (take 16 buf) = 16" "length ?blk = 16" using Suc.prems(1) by simp_all
  have e: "iv = iv'" "enc = ?blk @ rest"
    using Suc.prems(3) r by (simp_all add: CBC_encrypt_loop_step Let_def)
  have "length rest = 16 * n \<and> CBC_decrypt_loop ?ctx rest (16 * n) = (?ctx\<lparr>Iv := iv'\<rparr>, drop 16 buf)"
    using Suc.IH [of "drop 16 buf" ?ctx iv' rest] Suc.prems(1) l r by simp
  with l show ?case
    by (simp add: e CBC_decrypt_loop_step Let_def InvCipher_Cipher XorWithIv_involution)
qed

section \<open>Properties\<close>

text \<open>
  C31.  The inverse cipher undoes the cipher: for every expanded key, decrypting an encrypted block of
  16 bytes gives the block back, in ECB mode as the library calls it.
\<close>

theorem ecb_roundtrip:
  assumes "length block = 16"
  shows "AES_ECB_decrypt ctx (AES_ECB_encrypt ctx block) = block"
  using InvCipher_Cipher [OF assms] by (simp add: AES_ECB_decrypt_def AES_ECB_encrypt_def)

theorem ecb_roundtrip_witness:
  "let ctx = AES_init_ctx \<lparr>RoundKey = replicate 240 0, Iv = replicate 16 0\<rparr> (replicate 32 7)
   in AES_ECB_decrypt ctx (AES_ECB_encrypt ctx (replicate 16 5)) = replicate 16 5"
  unfolding Let_def by (rule ecb_roundtrip) simp

text \<open>
  C32.  Counter mode is the exclusive or with a key stream of successive counter blocks: the counter is the 128-bit big-endian number of the initial vector, byte \<open>m\<close> of the output is byte \<open>m\<close> of the input
  combined with byte \<open>m mod 16\<close> of the cipher of the counter plus \<open>m div 16\<close> (modulo \<open>2 ^ 128\<close>), bytes past
  the length are not touched, and the context keeps its key and the counter of the next block.
\<close>

theorem ctr_is_keystream:
  assumes "length (Iv ctx) = 16" and "len \<le> length buf" and "AES_CTR_xcrypt_buffer ctx buf len = (ctx', out)"
  shows "out =
      map (\<lambda>m. if m < len
               then buf ! m XOR Cipher (RoundKey ctx) (counter_block ((be_value (Iv ctx) + m div 16) mod 2 ^ 128)) ! (m mod 16)
               else buf ! m) [0..<length buf] \<and>
    RoundKey ctx' = RoundKey ctx \<and> length (Iv ctx') = 16 \<and>
    be_value (Iv ctx') = (be_value (Iv ctx) + (len + 15) div 16) mod 2 ^ 128"
proof -
  have blk: "(ctr_increment 16 ^^ k) (Iv ctx) = counter_block ((be_value (Iv ctx) + k) mod 2 ^ 128)" for k
    by (intro counter_block_unique) (simp_all add: ctr_increment_iterate assms(1))
  have "out = map (\<lambda>m. if m < len
      then buf ! m XOR Cipher (RoundKey ctx) (counter_block ((be_value (Iv ctx) + m div 16) mod 2 ^ 128)) ! (m mod 16)
      else buf ! m) [0..<length buf]"
    using CTR_xcrypt_eq [OF assms(2), of ctx] unfolding assms(3) snd_conv ctr_keystream_def blk .
  moreover have "ctx' = ctx\<lparr>Iv := (ctr_increment 16 ^^ ((len + 15) div 16)) (Iv ctx)\<rparr>"
    using CTR_loop_context [of 16 len 0 "replicate 16 0" ctx buf] assms(3) by (simp add: AES_CTR_xcrypt_buffer_def add.commute)
  ultimately show ?thesis
    by (intro conjI) (assumption | simp add: ctr_increment_iterate [OF assms(1)])+
qed

theorem ctr_is_keystream_witness:
  "let ctx = \<lparr>RoundKey = replicate 240 3, Iv = replicate 16 255\<rparr>
   in snd (AES_CTR_xcrypt_buffer ctx (replicate 20 1) 18) =
     map (\<lambda>m. if m < 18 then replicate 20 1 ! m XOR
                Cipher (replicate 240 3) (counter_block ((be_value (replicate 16 255) + m div 16) mod 2 ^ 128)) ! (m mod 16)
              else replicate 20 1 ! m) [0..<20] \<and>
     be_value (Iv (fst (AES_CTR_xcrypt_buffer ctx (replicate 20 1) 18))) = 1"
proof -
  define ctx where "ctx = \<lparr>RoundKey = replicate 240 3, Iv = replicate 16 (255 :: u8)\<rparr>"
  obtain c out where r: "AES_CTR_xcrypt_buffer ctx (replicate 20 1) 18 = (c, out)" by fastforce
  have iv: "length (Iv ctx) = 16" "Iv ctx = replicate 16 255" "RoundKey ctx = replicate 240 3" by (simp_all add: ctx_def)
  have "replicate 16 (255 :: u8) = [255, 255, 255, 255, 255, 255, 255, 255, 255, 255, 255, 255, 255, 255, 255, 255]" by code_simp
  then have "be_value (replicate 16 255) = 2 ^ 128 - 1" by (simp only: be_value_def) simp
  then have v: "(be_value (replicate 16 255) + (18 + 15) div 16) mod 2 ^ 128 = (1 :: nat)" by (simp only:) simp
  have len: "18 \<le> length (replicate 20 (1 :: u8))" by simp
  show ?thesis
    using ctr_is_keystream [OF iv(1) len r] unfolding Let_def ctx_def [symmetric] r iv(2,3) length_replicate v fst_conv snd_conv by blast
qed

text \<open>
  The counter block of counter mode is a 128-bit big-endian number that the code increments by one,
  wrapping at \<open>2 ^ 128\<close>.
\<close>

theorem ctr_counter_wraps:
  assumes "length iv = 16"
  shows "be_value (ctr_increment 16 iv) = (be_value iv + 1) mod 2 ^ 128"
  using ctr_increment_value [of iv] assms by simp

theorem ctr_counter_wraps_witness:
  "be_value (ctr_increment 16 (replicate 15 0 @ [255])) = 256 \<and> ctr_increment 16 (replicate 16 255) = replicate 16 0"
proof
  have "be_value (replicate 15 0 @ [255]) = 255" by code_simp
  then show "be_value (ctr_increment 16 (replicate 15 0 @ [255])) = 256"
    using ctr_counter_wraps [of "replicate 15 0 @ [255]"] by simp
  show "ctr_increment 16 (replicate 16 255) = replicate 16 (0 :: u8)"
    by code_simp
qed

text \<open>
  CBC decryption undoes CBC encryption: for a whole number of blocks, decrypting with the context
  that encryption started from gives the buffer back, and both directions leave the same chaining block.
\<close>

theorem cbc_roundtrip:
  assumes "length buf = 16 * n" and "length (Iv ctx) = 16" and "AES_CBC_encrypt_buffer ctx buf (16 * n) = (ctx', enc)"
  shows "AES_CBC_decrypt_buffer ctx enc (16 * n) = (ctx', buf)"
  using CBC_loop_roundtrip [OF assms(1,2)] assms(3)
  by (auto simp: AES_CBC_encrypt_buffer_def AES_CBC_decrypt_buffer_def split: prod.splits)

theorem cbc_roundtrip_witness:
  "let ctx = \<lparr>RoundKey = replicate 240 9, Iv = replicate 16 1\<rparr>; r = AES_CBC_encrypt_buffer ctx (replicate 48 7) 48
   in AES_CBC_decrypt_buffer ctx (snd r) 48 = (fst r, replicate 48 7)"
  using cbc_roundtrip [of "replicate 48 7" 3 "\<lparr>RoundKey = replicate 240 9, Iv = replicate 16 1\<rparr>"]
  unfolding Let_def by simp

end
