(* ===== verification/Fips202.thy ===== *)
theory Fips202
  imports Prelude
begin

text \<open>
  Keccak, SHAKE and SHA-3 as in \<open>lib/fips202/fips202.c\<close> of the HQC package (under
  \<open>src/extern/HQC-Round4/Additional_Implementation/hqc-128\<close>): the unrolled permutation, the
  one-shot and the incremental sponge, the extendable-output functions and the hashes, and
  the domain-separated hash of \<open>shake_ds.c\<close>.  A Keccak state is the array of 25 lanes; an
  incremental state has a 26th element, the number of bytes absorbed into, or not yet squeezed
  out of, the current block.

  The unrolled double round is shown to compute the five step mappings of FIPS 202 on the
  5 by 5 lane array, and the two sponge interfaces are shown to agree.
\<close>

section \<open>The permutation\<close>

abbreviation (input) NROUNDS :: nat where "NROUNDS \<equiv> 24"
abbreviation (input) SHAKE128_RATE :: nat where "SHAKE128_RATE \<equiv> 168"
abbreviation (input) SHAKE256_RATE :: nat where "SHAKE256_RATE \<equiv> 136"
abbreviation (input) SHA3_256_RATE :: nat where "SHA3_256_RATE \<equiv> 136"
abbreviation (input) SHA3_384_RATE :: nat where "SHA3_384_RATE \<equiv> 104"
abbreviation (input) SHA3_512_RATE :: nat where "SHA3_512_RATE \<equiv> 72"

definition ROL :: "u64 \<Rightarrow> nat \<Rightarrow> u64" where
  "ROL a offset = push_bit offset a XOR drop_bit (64 - offset) a"

definition load64 :: "u8 list \<Rightarrow> u64" where
  "load64 x = fold (\<lambda>i r. r OR push_bit (8 * i) (ucast (x ! i))) [0..<8] 0"

definition store64 :: "u64 \<Rightarrow> u8 list" where
  "store64 u = map (\<lambda>i. ucast (drop_bit (8 * i) u)) [0..<8]"

definition KeccakF_RoundConstants :: "u64 list" where
  "KeccakF_RoundConstants = [
     0x0000000000000001, 0x0000000000008082, 0x800000000000808a, 0x8000000080008000,
     0x000000000000808b, 0x0000000080000001, 0x8000000080008081, 0x8000000000008009,
     0x000000000000008a, 0x0000000000000088, 0x0000000080008009, 0x000000008000000a,
     0x000000008000808b, 0x800000000000008b, 0x8000000000008089, 0x8000000000008003,
     0x8000000000008002, 0x8000000000000080, 0x000000000000800a, 0x800000008000000a,
     0x8000000080008081, 0x8000000000008080, 0x0000000080000001, 0x8000000080008008]"

text \<open>
  The body of the round loop: the first half computes round \<open>round\<close> from the \<open>A\<close> variables
  into the \<open>E\<close> variables, the second half the next round back.  Here \<open>round\<close> is the index of
  the round constant that the half uses.
\<close>

definition thetaRhoPiChiIota_A_E :: "nat \<Rightarrow> u64 list \<Rightarrow> u64 list" where
  "thetaRhoPiChiIota_A_E round state =
     (let Aba = state ! 0; Abe = state ! 1; Abi = state ! 2; Abo = state ! 3; Abu = state ! 4;
          Aga = state ! 5; Age = state ! 6; Agi = state ! 7; Ago = state ! 8; Agu = state ! 9;
          Aka = state ! 10; Ake = state ! 11; Aki = state ! 12; Ako = state ! 13; Aku = state ! 14;
          Ama = state ! 15; Ame = state ! 16; Ami = state ! 17; Amo = state ! 18; Amu = state ! 19;
          Asa = state ! 20; Ase = state ! 21; Asi = state ! 22; Aso = state ! 23; Asu = state ! 24;
          BCa = Aba XOR Aga XOR Aka XOR Ama XOR Asa;
          BCe = Abe XOR Age XOR Ake XOR Ame XOR Ase;
          BCi = Abi XOR Agi XOR Aki XOR Ami XOR Asi;
          BCo = Abo XOR Ago XOR Ako XOR Amo XOR Aso;
          BCu = Abu XOR Agu XOR Aku XOR Amu XOR Asu;
          Da = BCu XOR ROL BCe 1;
          De = BCa XOR ROL BCi 1;
          Di = BCe XOR ROL BCo 1;
          Do = BCi XOR ROL BCu 1;
          Du = BCo XOR ROL BCa 1;
          Aba = Aba XOR Da;
          BCa = Aba;
          Age = Age XOR De;
          BCe = ROL Age 44;
          Aki = Aki XOR Di;
          BCi = ROL Aki 43;
          Amo = Amo XOR Do;
          BCo = ROL Amo 21;
          Asu = Asu XOR Du;
          BCu = ROL Asu 14;
          Eba = BCa XOR ((NOT BCe) AND BCi);
          Eba = Eba XOR KeccakF_RoundConstants ! round;
          Ebe = BCe XOR ((NOT BCi) AND BCo);
          Ebi = BCi XOR ((NOT BCo) AND BCu);
          Ebo = BCo XOR ((NOT BCu) AND BCa);
          Ebu = BCu XOR ((NOT BCa) AND BCe);
          Abo = Abo XOR Do;
          BCa = ROL Abo 28;
          Agu = Agu XOR Du;
          BCe = ROL Agu 20;
          Aka = Aka XOR Da;
          BCi = ROL Aka 3;
          Ame = Ame XOR De;
          BCo = ROL Ame 45;
          Asi = Asi XOR Di;
          BCu = ROL Asi 61;
          Ega = BCa XOR ((NOT BCe) AND BCi);
          Ege = BCe XOR ((NOT BCi) AND BCo);
          Egi = BCi XOR ((NOT BCo) AND BCu);
          Ego = BCo XOR ((NOT BCu) AND BCa);
          Egu = BCu XOR ((NOT BCa) AND BCe);
          Abe = Abe XOR De;
          BCa = ROL Abe 1;
          Agi = Agi XOR Di;
          BCe = ROL Agi 6;
          Ako = Ako XOR Do;
          BCi = ROL Ako 25;
          Amu = Amu XOR Du;
          BCo = ROL Amu 8;
          Asa = Asa XOR Da;
          BCu = ROL Asa 18;
          Eka = BCa XOR ((NOT BCe) AND BCi);
          Eke = BCe XOR ((NOT BCi) AND BCo);
          Eki = BCi XOR ((NOT BCo) AND BCu);
          Eko = BCo XOR ((NOT BCu) AND BCa);
          Eku = BCu XOR ((NOT BCa) AND BCe);
          Abu = Abu XOR Du;
          BCa = ROL Abu 27;
          Aga = Aga XOR Da;
          BCe = ROL Aga 36;
          Ake = Ake XOR De;
          BCi = ROL Ake 10;
          Ami = Ami XOR Di;
          BCo = ROL Ami 15;
          Aso = Aso XOR Do;
          BCu = ROL Aso 56;
          Ema = BCa XOR ((NOT BCe) AND BCi);
          Eme = BCe XOR ((NOT BCi) AND BCo);
          Emi = BCi XOR ((NOT BCo) AND BCu);
          Emo = BCo XOR ((NOT BCu) AND BCa);
          Emu = BCu XOR ((NOT BCa) AND BCe);
          Abi = Abi XOR Di;
          BCa = ROL Abi 62;
          Ago = Ago XOR Do;
          BCe = ROL Ago 55;
          Aku = Aku XOR Du;
          BCi = ROL Aku 39;
          Ama = Ama XOR Da;
          BCo = ROL Ama 41;
          Ase = Ase XOR De;
          BCu = ROL Ase 2;
          Esa = BCa XOR ((NOT BCe) AND BCi);
          Ese = BCe XOR ((NOT BCi) AND BCo);
          Esi = BCi XOR ((NOT BCo) AND BCu);
          Eso = BCo XOR ((NOT BCu) AND BCa);
          Esu = BCu XOR ((NOT BCa) AND BCe)
      in [Eba, Ebe, Ebi, Ebo, Ebu,
          Ega, Ege, Egi, Ego, Egu,
          Eka, Eke, Eki, Eko, Eku,
          Ema, Eme, Emi, Emo, Emu,
          Esa, Ese, Esi, Eso, Esu])"

definition thetaRhoPiChiIota_E_A :: "nat \<Rightarrow> u64 list \<Rightarrow> u64 list" where
  "thetaRhoPiChiIota_E_A round state =
     (let Eba = state ! 0; Ebe = state ! 1; Ebi = state ! 2; Ebo = state ! 3; Ebu = state ! 4;
          Ega = state ! 5; Ege = state ! 6; Egi = state ! 7; Ego = state ! 8; Egu = state ! 9;
          Eka = state ! 10; Eke = state ! 11; Eki = state ! 12; Eko = state ! 13; Eku = state ! 14;
          Ema = state ! 15; Eme = state ! 16; Emi = state ! 17; Emo = state ! 18; Emu = state ! 19;
          Esa = state ! 20; Ese = state ! 21; Esi = state ! 22; Eso = state ! 23; Esu = state ! 24;
          BCa = Eba XOR Ega XOR Eka XOR Ema XOR Esa;
          BCe = Ebe XOR Ege XOR Eke XOR Eme XOR Ese;
          BCi = Ebi XOR Egi XOR Eki XOR Emi XOR Esi;
          BCo = Ebo XOR Ego XOR Eko XOR Emo XOR Eso;
          BCu = Ebu XOR Egu XOR Eku XOR Emu XOR Esu;
          Da = BCu XOR ROL BCe 1;
          De = BCa XOR ROL BCi 1;
          Di = BCe XOR ROL BCo 1;
          Do = BCi XOR ROL BCu 1;
          Du = BCo XOR ROL BCa 1;
          Eba = Eba XOR Da;
          BCa = Eba;
          Ege = Ege XOR De;
          BCe = ROL Ege 44;
          Eki = Eki XOR Di;
          BCi = ROL Eki 43;
          Emo = Emo XOR Do;
          BCo = ROL Emo 21;
          Esu = Esu XOR Du;
          BCu = ROL Esu 14;
          Aba = BCa XOR ((NOT BCe) AND BCi);
          Aba = Aba XOR KeccakF_RoundConstants ! round;
          Abe = BCe XOR ((NOT BCi) AND BCo);
          Abi = BCi XOR ((NOT BCo) AND BCu);
          Abo = BCo XOR ((NOT BCu) AND BCa);
          Abu = BCu XOR ((NOT BCa) AND BCe);
          Ebo = Ebo XOR Do;
          BCa = ROL Ebo 28;
          Egu = Egu XOR Du;
          BCe = ROL Egu 20;
          Eka = Eka XOR Da;
          BCi = ROL Eka 3;
          Eme = Eme XOR De;
          BCo = ROL Eme 45;
          Esi = Esi XOR Di;
          BCu = ROL Esi 61;
          Aga = BCa XOR ((NOT BCe) AND BCi);
          Age = BCe XOR ((NOT BCi) AND BCo);
          Agi = BCi XOR ((NOT BCo) AND BCu);
          Ago = BCo XOR ((NOT BCu) AND BCa);
          Agu = BCu XOR ((NOT BCa) AND BCe);
          Ebe = Ebe XOR De;
          BCa = ROL Ebe 1;
          Egi = Egi XOR Di;
          BCe = ROL Egi 6;
          Eko = Eko XOR Do;
          BCi = ROL Eko 25;
          Emu = Emu XOR Du;
          BCo = ROL Emu 8;
          Esa = Esa XOR Da;
          BCu = ROL Esa 18;
          Aka = BCa XOR ((NOT BCe) AND BCi);
          Ake = BCe XOR ((NOT BCi) AND BCo);
          Aki = BCi XOR ((NOT BCo) AND BCu);
          Ako = BCo XOR ((NOT BCu) AND BCa);
          Aku = BCu XOR ((NOT BCa) AND BCe);
          Ebu = Ebu XOR Du;
          BCa = ROL Ebu 27;
          Ega = Ega XOR Da;
          BCe = ROL Ega 36;
          Eke = Eke XOR De;
          BCi = ROL Eke 10;
          Emi = Emi XOR Di;
          BCo = ROL Emi 15;
          Eso = Eso XOR Do;
          BCu = ROL Eso 56;
          Ama = BCa XOR ((NOT BCe) AND BCi);
          Ame = BCe XOR ((NOT BCi) AND BCo);
          Ami = BCi XOR ((NOT BCo) AND BCu);
          Amo = BCo XOR ((NOT BCu) AND BCa);
          Amu = BCu XOR ((NOT BCa) AND BCe);
          Ebi = Ebi XOR Di;
          BCa = ROL Ebi 62;
          Ego = Ego XOR Do;
          BCe = ROL Ego 55;
          Eku = Eku XOR Du;
          BCi = ROL Eku 39;
          Ema = Ema XOR Da;
          BCo = ROL Ema 41;
          Ese = Ese XOR De;
          BCu = ROL Ese 2;
          Asa = BCa XOR ((NOT BCe) AND BCi);
          Ase = BCe XOR ((NOT BCi) AND BCo);
          Asi = BCi XOR ((NOT BCo) AND BCu);
          Aso = BCo XOR ((NOT BCu) AND BCa);
          Asu = BCu XOR ((NOT BCa) AND BCe)
      in [Aba, Abe, Abi, Abo, Abu,
          Aga, Age, Agi, Ago, Agu,
          Aka, Ake, Aki, Ako, Aku,
          Ama, Ame, Ami, Amo, Amu,
          Asa, Ase, Asi, Aso, Asu])"

definition KeccakF1600_StatePermute :: "u64 list \<Rightarrow> u64 list" where
  "KeccakF1600_StatePermute state =
     fold (\<lambda>round A. thetaRhoPiChiIota_E_A (round + 1) (thetaRhoPiChiIota_A_E round A))
       [0, 2, 4, 6, 8, 10, 12, 14, 16, 18, 20, 22] (take 25 state) @ drop 25 state"

section \<open>The one-shot sponge\<close>

text \<open>\<open>for (i = 0; i < r / 8; ++i) s[i] ^= load64(m + 8 * i);\<close>\<close>

definition xor_block :: "nat \<Rightarrow> u8 list \<Rightarrow> u64 list \<Rightarrow> u64 list" where
  "xor_block r m s = fold (\<lambda>i s. s[i := s ! i XOR load64 (drop (8 * i) m)]) [0..<r div 8] s"

text \<open>
  The block loop, returning the state and what is left of the message.  Every caller passes a
  positive rate; with rate 0 the C loop would not end, which the guard \<open>r = 0\<close> excludes.
\<close>

function keccak_absorb_blocks :: "nat \<Rightarrow> u64 list \<Rightarrow> u8 list \<Rightarrow> u64 list \<times> u8 list" where
  "keccak_absorb_blocks r s m =
     (if r = 0 \<or> length m < r then (s, m)
      else keccak_absorb_blocks r (KeccakF1600_StatePermute (xor_block r m s)) (drop r m))"
  by auto

termination
  by (relation "measure (\<lambda>(r, s, m). length m)") auto

definition keccak_absorb :: "nat \<Rightarrow> u8 list \<Rightarrow> u8 \<Rightarrow> u64 list" where
  "keccak_absorb r m p =
     (let (s, m) = keccak_absorb_blocks r (replicate 25 0) m;
          t = memcpy_at (replicate r 0) 0 m;
          t = t[length m := p];
          t = t[r - 1 := t ! (r - 1) OR 128]
      in xor_block r t s)"

fun keccak_squeezeblocks :: "nat \<Rightarrow> u64 list \<Rightarrow> nat \<Rightarrow> u8 list \<times> u64 list" where
  "keccak_squeezeblocks 0 s r = ([], s)"
| "keccak_squeezeblocks (Suc nblocks) s r =
     (let s = KeccakF1600_StatePermute s;
          h = concat (map (\<lambda>i. store64 (s ! i)) [0..<r div 8]);
          (rest, s) = keccak_squeezeblocks nblocks s r
      in (h @ rest, s))"

section \<open>The incremental sponge\<close>

definition keccak_inc_init :: "u64 list" where
  "keccak_inc_init = replicate 26 0"

text \<open>\<open>s_inc[(off + i) >> 3] ^= (uint64_t)m[i] << (8 * ((off + i) & 7))\<close> for the bytes of \<open>m\<close>.\<close>

definition xor_byte :: "nat \<Rightarrow> u8 \<Rightarrow> u64 list \<Rightarrow> u64 list" where
  "xor_byte pos b s = s[pos div 8 := s ! (pos div 8) XOR push_bit (8 * (pos mod 8)) (ucast b)]"

fun xor_bytes :: "nat \<Rightarrow> u8 list \<Rightarrow> u64 list \<Rightarrow> u64 list" where
  "xor_bytes pos [] s = s"
| "xor_bytes pos (b # bs) s = xor_bytes (Suc pos) bs (xor_byte pos b s)"

text \<open>
  The absorbing loop.  The code relies on \<open>s_inc[25] < r\<close>, which every operation of the
  interface keeps; the guard \<open>off < r\<close> states that reliance.
\<close>

function keccak_inc_absorb :: "u64 list \<Rightarrow> nat \<Rightarrow> u8 list \<Rightarrow> u64 list" where
  "keccak_inc_absorb s_inc r m =
     (let off = unat (s_inc ! 25) in
      if r \<le> length m + off \<and> off < r
      then keccak_inc_absorb (KeccakF1600_StatePermute ((xor_bytes off (take (r - off) m) s_inc)[25 := 0]))
             r (drop (r - off) m)
      else (xor_bytes off m s_inc)[25 := s_inc ! 25 + of_nat (length m)])"
  by auto

termination
  by (relation "measure (\<lambda>(s, r, m). length m)") auto

definition keccak_inc_finalize :: "u64 list \<Rightarrow> nat \<Rightarrow> u8 \<Rightarrow> u64 list" where
  "keccak_inc_finalize s_inc r p =
     (let s_inc = xor_byte (unat (s_inc ! 25)) p s_inc;
          s_inc = xor_byte (r - 1) 128 s_inc
      in s_inc[25 := 0])"

text \<open>Byte \<open>pos\<close> of the state.\<close>

definition state_byte :: "u64 list \<Rightarrow> nat \<Rightarrow> u8" where
  "state_byte s pos = ucast (drop_bit (8 * (pos mod 8)) (s ! (pos div 8)))"

function keccak_squeeze_loop :: "nat \<Rightarrow> u64 list \<Rightarrow> nat \<Rightarrow> u8 list \<times> u64 list" where
  "keccak_squeeze_loop outlen s_inc r =
     (if outlen = 0 \<or> r = 0 then ([], s_inc)
      else
        let s_inc = KeccakF1600_StatePermute s_inc;
            i = min outlen r;
            h = map (state_byte s_inc) [0..<i];
            (rest, s_inc) = keccak_squeeze_loop (outlen - i) (s_inc[25 := of_nat (r - i)]) r
        in (h @ rest, s_inc))"
  by auto

termination
  by (relation "measure (\<lambda>(n, s, r). n)") auto

definition keccak_inc_squeeze :: "nat \<Rightarrow> u64 list \<Rightarrow> nat \<Rightarrow> u8 list \<times> u64 list" where
  "keccak_inc_squeeze outlen s_inc r =
     (let off = unat (s_inc ! 25);
          i = min outlen off;
          h = map (\<lambda>i. state_byte s_inc (r - off + i)) [0..<i];
          (rest, s_inc) = keccak_squeeze_loop (outlen - i) (s_inc[25 := s_inc ! 25 - of_nat i]) r
      in (h @ rest, s_inc))"

section \<open>SHAKE and SHA-3\<close>

definition shake128_inc_init :: "u64 list" where
  "shake128_inc_init = keccak_inc_init"

definition shake128_inc_absorb :: "u64 list \<Rightarrow> u8 list \<Rightarrow> u64 list" where
  "shake128_inc_absorb state input = keccak_inc_absorb state SHAKE128_RATE input"

definition shake128_inc_finalize :: "u64 list \<Rightarrow> u64 list" where
  "shake128_inc_finalize state = keccak_inc_finalize state SHAKE128_RATE 0x1F"

definition shake128_inc_squeeze :: "nat \<Rightarrow> u64 list \<Rightarrow> u8 list \<times> u64 list" where
  "shake128_inc_squeeze outlen state = keccak_inc_squeeze outlen state SHAKE128_RATE"

definition shake256_inc_init :: "u64 list" where
  "shake256_inc_init = keccak_inc_init"

definition shake256_inc_absorb :: "u64 list \<Rightarrow> u8 list \<Rightarrow> u64 list" where
  "shake256_inc_absorb state input = keccak_inc_absorb state SHAKE256_RATE input"

definition shake256_inc_finalize :: "u64 list \<Rightarrow> u64 list" where
  "shake256_inc_finalize state = keccak_inc_finalize state SHAKE256_RATE 0x1F"

definition shake256_inc_squeeze :: "nat \<Rightarrow> u64 list \<Rightarrow> u8 list \<times> u64 list" where
  "shake256_inc_squeeze outlen state = keccak_inc_squeeze outlen state SHAKE256_RATE"

definition shake128_absorb :: "u8 list \<Rightarrow> u64 list" where
  "shake128_absorb input = keccak_absorb SHAKE128_RATE input 0x1F"

definition shake128_squeezeblocks :: "nat \<Rightarrow> u64 list \<Rightarrow> u8 list \<times> u64 list" where
  "shake128_squeezeblocks nblocks state = keccak_squeezeblocks nblocks state SHAKE128_RATE"

definition shake256_absorb :: "u8 list \<Rightarrow> u64 list" where
  "shake256_absorb input = keccak_absorb SHAKE256_RATE input 0x1F"

definition shake256_squeezeblocks :: "nat \<Rightarrow> u64 list \<Rightarrow> u8 list \<times> u64 list" where
  "shake256_squeezeblocks nblocks state = keccak_squeezeblocks nblocks state SHAKE256_RATE"

definition shake128 :: "nat \<Rightarrow> u8 list \<Rightarrow> u8 list" where
  "shake128 outlen input =
     (let nblocks = outlen div SHAKE128_RATE;
          s = shake128_absorb input;
          (output, s) = shake128_squeezeblocks nblocks s;
          outlen = outlen - nblocks * SHAKE128_RATE
      in if outlen \<noteq> 0
         then let (t, s) = shake128_squeezeblocks 1 s in output @ take outlen t
         else output)"

definition shake256 :: "nat \<Rightarrow> u8 list \<Rightarrow> u8 list" where
  "shake256 outlen input =
     (let nblocks = outlen div SHAKE256_RATE;
          s = shake256_absorb input;
          (output, s) = shake256_squeezeblocks nblocks s;
          outlen = outlen - nblocks * SHAKE256_RATE
      in if outlen \<noteq> 0
         then let (t, s) = shake256_squeezeblocks 1 s in output @ take outlen t
         else output)"

definition sha3_256_inc_init :: "u64 list" where
  "sha3_256_inc_init = keccak_inc_init"

definition sha3_256_inc_absorb :: "u64 list \<Rightarrow> u8 list \<Rightarrow> u64 list" where
  "sha3_256_inc_absorb state input = keccak_inc_absorb state SHA3_256_RATE input"

definition sha3_256_inc_finalize :: "u64 list \<Rightarrow> u8 list \<times> u64 list" where
  "sha3_256_inc_finalize state =
     (let state = keccak_inc_finalize state SHA3_256_RATE 0x06;
          (t, state) = keccak_squeezeblocks 1 state SHA3_256_RATE
      in (take 32 t, state))"

definition sha3_256 :: "u8 list \<Rightarrow> u8 list" where
  "sha3_256 input =
     (let s = keccak_absorb SHA3_256_RATE input 0x06;
          (t, s) = keccak_squeezeblocks 1 s SHA3_256_RATE
      in take 32 t)"

definition sha3_384_inc_init :: "u64 list" where
  "sha3_384_inc_init = keccak_inc_init"

definition sha3_384_inc_absorb :: "u64 list \<Rightarrow> u8 list \<Rightarrow> u64 list" where
  "sha3_384_inc_absorb state input = keccak_inc_absorb state SHA3_384_RATE input"

definition sha3_384_inc_finalize :: "u64 list \<Rightarrow> u8 list \<times> u64 list" where
  "sha3_384_inc_finalize state =
     (let state = keccak_inc_finalize state SHA3_384_RATE 0x06;
          (t, state) = keccak_squeezeblocks 1 state SHA3_384_RATE
      in (take 48 t, state))"

definition sha3_384 :: "u8 list \<Rightarrow> u8 list" where
  "sha3_384 input =
     (let s = keccak_absorb SHA3_384_RATE input 0x06;
          (t, s) = keccak_squeezeblocks 1 s SHA3_384_RATE
      in take 48 t)"

definition sha3_512_inc_init :: "u64 list" where
  "sha3_512_inc_init = keccak_inc_init"

definition sha3_512_inc_absorb :: "u64 list \<Rightarrow> u8 list \<Rightarrow> u64 list" where
  "sha3_512_inc_absorb state input = keccak_inc_absorb state SHA3_512_RATE input"

definition sha3_512_inc_finalize :: "u64 list \<Rightarrow> u8 list \<times> u64 list" where
  "sha3_512_inc_finalize state =
     (let state = keccak_inc_finalize state SHA3_512_RATE 0x06;
          (t, state) = keccak_squeezeblocks 1 state SHA3_512_RATE
      in (take 64 t, state))"

definition sha3_512 :: "u8 list \<Rightarrow> u8 list" where
  "sha3_512 input =
     (let s = keccak_absorb SHA3_512_RATE input 0x06;
          (t, s) = keccak_squeezeblocks 1 s SHA3_512_RATE
      in take 64 t)"

text \<open>The hash with domain separation of \<open>src/shake_ds.c\<close>.\<close>

definition shake256_512_ds :: "u8 list \<Rightarrow> u8 \<Rightarrow> u8 list \<times> u64 list" where
  "shake256_512_ds input domain =
     (let state = shake256_inc_init;
          state = shake256_inc_absorb state input;
          state = shake256_inc_absorb state [domain];
          state = shake256_inc_finalize state
      in shake256_inc_squeeze (512 div 8) state)"

section \<open>The unrolled rounds compute the step mappings of FIPS 202\<close>

text \<open>Lane \<open>(x, y)\<close> of the 5 by 5 array is element \<open>5 * y + x\<close>.\<close>

definition lane :: "u64 list \<Rightarrow> nat \<Rightarrow> nat \<Rightarrow> u64" where
  "lane A x y = A ! (5 * (y mod 5) + x mod 5)"

definition from_lanes :: "(nat \<Rightarrow> nat \<Rightarrow> u64) \<Rightarrow> u64 list" where
  "from_lanes f = map (\<lambda>n. f (n mod 5) (n div 5)) [0..<25]"

definition keccak_theta :: "u64 list \<Rightarrow> u64 list" where
  "keccak_theta A =
     (let C = (\<lambda>x. lane A x 0 XOR lane A x 1 XOR lane A x 2 XOR lane A x 3 XOR lane A x 4);
          D = (\<lambda>x. C (x + 4) XOR word_rotl 1 (C (x + 1)))
      in from_lanes (\<lambda>x y. lane A x y XOR D x))"

definition rho_offset :: "nat \<Rightarrow> nat \<Rightarrow> nat" where
  "rho_offset x y =
     [0, 1, 62, 28, 27,
      36, 44, 6, 55, 20,
      3, 10, 43, 25, 39,
      41, 45, 15, 21, 8,
      18, 2, 61, 56, 14] ! (5 * y + x)"

definition keccak_rho :: "u64 list \<Rightarrow> u64 list" where
  "keccak_rho A = from_lanes (\<lambda>x y. word_rotl (rho_offset x y) (lane A x y))"

definition keccak_pi :: "u64 list \<Rightarrow> u64 list" where
  "keccak_pi A = from_lanes (\<lambda>x y. lane A (x + 3 * y) x)"

definition keccak_chi :: "u64 list \<Rightarrow> u64 list" where
  "keccak_chi A = from_lanes (\<lambda>x y. lane A x y XOR (NOT (lane A (x + 1) y) AND lane A (x + 2) y))"

text \<open>
  The round constants by their defining feedback register: \<open>rc t\<close> is its first bit after \<open>t\<close> steps
  (modulo 255), and bit \<open>2 ^ j - 1\<close> of the constant of a round is \<open>rc (j + 7 * round)\<close>.
\<close>

fun rc_step :: "bool list \<Rightarrow> bool list" where
  "rc_step [a, b, c, d, e, f, g, h] = [h, a, b, c, d \<noteq> h, e \<noteq> h, f \<noteq> h, g]"
| "rc_step r = r"

definition keccak_rc :: "nat \<Rightarrow> bool" where
  "keccak_rc t = hd ((rc_step ^^ (t mod 255)) (True # replicate 7 False))"

definition keccak_RC :: "nat \<Rightarrow> u64" where
  "keccak_RC round = fold (\<lambda>j w. if keccak_rc (j + 7 * round) then w OR push_bit (2 ^ j - 1) 1 else w) [0..<7] 0"

definition keccak_iota :: "nat \<Rightarrow> u64 list \<Rightarrow> u64 list" where
  "keccak_iota round A = A[0 := A ! 0 XOR keccak_RC round]"

definition keccak_round :: "nat \<Rightarrow> u64 list \<Rightarrow> u64 list" where
  "keccak_round round A = keccak_iota round (keccak_chi (keccak_pi (keccak_rho (keccak_theta A))))"

text \<open>The offsets are those of the walk that defines them: \<open>(t + 1)(t + 2) / 2\<close> along \<open>(x, y) \<mapsto> (y, 2x + 3y)\<close>.\<close>

fun rho_walk :: "nat \<Rightarrow> nat \<times> nat" where
  "rho_walk 0 = (1, 0)"
| "rho_walk (Suc t) = (case rho_walk t of (x, y) \<Rightarrow> (y, (2 * x + 3 * y) mod 5))"

lemma rho_offset_walk:
  assumes "t < 24"
  shows "case rho_walk t of (x, y) \<Rightarrow> rho_offset x y = (t + 1) * (t + 2) div 2 mod 64"
proof -
  have "list_all (\<lambda>t. case rho_walk t of (x, y) \<Rightarrow> rho_offset x y = (t + 1) * (t + 2) div 2 mod 64) [0..<24]"
    by code_simp
  with assms show ?thesis by (simp add: list_all_iff)
qed

text \<open>The table of the code holds these constants, and its macro is a rotation.\<close>

lemma keccak_RC_table:
  assumes "round < 24"
  shows "keccak_RC round = KeccakF_RoundConstants ! round"
proof -
  have "list_all (\<lambda>round. keccak_RC round = KeccakF_RoundConstants ! round) [0..<24]"
    by code_simp
  with assms show ?thesis by (simp add: list_all_iff)
qed

lemma word_rotl_ROL:
  assumes "n < 64"
  shows "word_rotl n a = ROL a n"
proof (rule bit_word_eqI)
  fix i assume i: "i < LENGTH(64)"
  have "bit a (64 + i - n) \<longleftrightarrow> False" if "n \<le> i" using that bit_imp_le_length [of a "64 + i - n"] by auto
  moreover have "(i + (64 - n)) mod 64 = (if i < n then 64 + i - n else i - n)"
    using i assms le_mod_geq [of 64 "i + (64 - n)"] by auto
  ultimately show "bit (word_rotl n a) i = bit (ROL a n) i"
    using i assms by (auto simp: ROL_def bit_word_rotl_iff bit_xor_iff bit_push_bit_iff bit_drop_bit_eq)
qed

lemma ROL_0 [simp]: "ROL a 0 = a"
  by (rule bit_word_eqI) (auto simp: ROL_def bit_simps dest: bit_imp_le_length)

lemma upt_0_25: "[0..<25] = [0, 1, 2, 3, 4, 5, 6, 7, 8, 9, 10, 11, 12, 13, 14, 15, 16, 17, 18, 19,
    20, 21, 22, 23, 24 :: nat]"
  by (simp add: upt_rec)

lemma from_lanes_eq:
  "from_lanes f = [f 0 0, f 1 0, f 2 0, f 3 0, f 4 0, f 0 1, f 1 1, f 2 1, f 3 1, f 4 1,
     f 0 2, f 1 2, f 2 2, f 3 2, f 4 2, f 0 3, f 1 3, f 2 3, f 3 3, f 4 3,
     f 0 4, f 1 4, f 2 4, f 3 4, f 4 4]"
  by (simp add: from_lanes_def upt_0_25)

lemma round_A_E: "round < 24 \<Longrightarrow> thetaRhoPiChiIota_A_E round A = keccak_round round A"
  by (simp add: thetaRhoPiChiIota_A_E_def keccak_RC_table word_rotl_ROL keccak_round_def keccak_iota_def keccak_chi_def keccak_pi_def
     keccak_rho_def keccak_theta_def from_lanes_eq lane_def rho_offset_def Let_def numeral_2_eq_2)

lemma round_E_A: "round < 24 \<Longrightarrow> thetaRhoPiChiIota_E_A round A = keccak_round round A"
  by (simp add: thetaRhoPiChiIota_E_A_def keccak_RC_table word_rotl_ROL keccak_round_def keccak_iota_def keccak_chi_def keccak_pi_def
     keccak_rho_def keccak_theta_def from_lanes_eq lane_def rho_offset_def Let_def numeral_2_eq_2)

lemma keccak_round_length [simp]: "length (keccak_round round A) = 25"
  by (simp add: keccak_round_def keccak_iota_def keccak_chi_def from_lanes_def)

lemma StatePermute_rounds:
  "KeccakF1600_StatePermute s = fold keccak_round [0..<24] (take 25 s) @ drop 25 s"
proof -
  have "[0..<24] = [0, 1, 2, 3, 4, 5, 6, 7, 8, 9, 10, 11, 12, 13, 14, 15, 16, 17, 18, 19, 20, 21, 22, 23 :: nat]"
    by (simp add: upt_rec)
  then show ?thesis by (simp add: KeccakF1600_StatePermute_def round_A_E round_E_A)
qed

lemma fold_keccak_round_length:
  "length A = 25 \<Longrightarrow> length (fold keccak_round rs A) = 25"
  by (induction rs arbitrary: A) auto

lemma StatePermute_length [simp]: "25 \<le> length s \<Longrightarrow> length (KeccakF1600_StatePermute s) = length s"
  by (simp add: StatePermute_rounds fold_keccak_round_length)

lemma StatePermute_append [simp]:
  "length s = 25 \<Longrightarrow> KeccakF1600_StatePermute (s @ c) = KeccakF1600_StatePermute s @ c"
  by (simp add: StatePermute_rounds)

lemma StatePermute_counter [simp]:
  "length s = 26 \<Longrightarrow> KeccakF1600_StatePermute s ! 25 = s ! 25"
  by (simp add: StatePermute_rounds fold_keccak_round_length nth_append)

section \<open>The state as bytes\<close>

lemma length_xor_byte [simp]: "length (xor_byte pos b s) = length s"
  by (simp add: xor_byte_def)

lemma length_xor_bytes [simp]: "length (xor_bytes pos bs s) = length s"
  by (induction bs arbitrary: pos s) auto

lemma state_byte_xor_byte:
  assumes "pos div 8 < length s"
  shows "state_byte (xor_byte pos b s) q = state_byte s q XOR (if q = pos then b else 0)"
proof (cases "q div 8 = pos div 8")
  case True
  then have "q = pos \<longleftrightarrow> q mod 8 = pos mod 8" by (metis mult_div_mod_eq)
  with True assms show ?thesis
    by (intro bit_word_eqI)
      (auto simp: state_byte_def xor_byte_def bit_simps dest: bit_imp_le_length)
next
  case False
  then show ?thesis using assms by (auto simp: state_byte_def xor_byte_def)
qed

lemma lane_eqI:
  fixes u v :: u64
  assumes "\<And>k. k < 8 \<Longrightarrow> (ucast (drop_bit (8 * k) u) :: u8) = ucast (drop_bit (8 * k) v)"
  shows "u = v"
proof (rule bit_word_eqI)
  fix n assume "n < LENGTH(64)"
  then have n: "n div 8 < 8" by simp
  have "bit (ucast (drop_bit (8 * (n div 8)) u) :: u8) (n mod 8) =
      bit (ucast (drop_bit (8 * (n div 8)) v) :: u8) (n mod 8)"
    using assms [OF n] by simp
  then show "bit u n = bit v n" by (simp add: bit_simps)
qed

lemma state_eqI:
  assumes "length s = length t" and "\<And>q. q div 8 < length s \<Longrightarrow> state_byte s q = state_byte t q"
  shows "s = t"
proof (rule nth_equalityI)
  fix i assume i: "i < length s"
  show "s ! i = t ! i"
  proof (rule lane_eqI)
    fix k :: nat assume k: "k < 8"
    then have "(8 * i + k) div 8 = i" "(8 * i + k) mod 8 = k" by simp_all
    with assms(2) [of "8 * i + k"] i show
      "(ucast (drop_bit (8 * k) (s ! i)) :: u8) = ucast (drop_bit (8 * k) (t ! i))"
      by (simp add: state_byte_def)
  qed
qed (rule assms)

lemma state_byte_xor_bytes:
  assumes "pos + length bs \<le> 8 * length s"
  shows "state_byte (xor_bytes pos bs s) q =
    state_byte s q XOR (if pos \<le> q \<and> q < pos + length bs then bs ! (q - pos) else 0)"
  using assms
proof (induction bs arbitrary: pos s)
  case (Cons b bs)
  then have "pos div 8 < length s" by auto
  with Cons show ?case
    by (auto simp: state_byte_xor_byte nth_Cons' xor.assoc)
qed auto

lemma xor_bytes_append: "xor_bytes pos (a @ b) s = xor_bytes (pos + length a) b (xor_bytes pos a s)"
  by (induction a arbitrary: pos s) auto

lemma bit_load64_loop:
  assumes "j \<le> 8"
  shows "bit (fold (\<lambda>i r. r OR push_bit (8 * i) (ucast (x ! i))) [0..<j] (0 :: u64)) n \<longleftrightarrow>
    n < 8 * j \<and> bit (x ! (n div 8) :: u8) (n mod 8)"
  using assms
proof (induction j)
  case (Suc j)
  have "8 * j \<le> n \<and> n < 64 \<and> bit (x ! j) (n - 8 * j) \<longleftrightarrow>
      n div 8 = j \<and> bit (x ! (n div 8)) (n mod 8)"
  proof
    assume h: "8 * j \<le> n \<and> n < 64 \<and> bit (x ! j) (n - 8 * j)"
    then have "n - 8 * j < 8" using bit_imp_le_length [of "x ! j" "n - 8 * j"] by simp
    with h have "n div 8 = j" "n mod 8 = n - 8 * j" by (auto simp: div_nat_eqI mod_nat_eqI)
    with h show "n div 8 = j \<and> bit (x ! (n div 8)) (n mod 8)" by simp
  next
    assume h: "n div 8 = j \<and> bit (x ! (n div 8)) (n mod 8)"
    then have "n = 8 * j + n mod 8" by (metis mult_div_mod_eq)
    then have "8 * j \<le> n" "n - 8 * j = n mod 8" by simp_all
    moreover have "n < 64" using h Suc.prems by auto
    ultimately show "8 * j \<le> n \<and> n < 64 \<and> bit (x ! j) (n - 8 * j)" using h by auto
  qed
  with Suc show ?case by (auto simp: bit_simps)
qed simp

lemma byte_load64:
  assumes "k < 8"
  shows "(ucast (drop_bit (8 * k) (load64 x)) :: u8) = x ! k"
proof (rule bit_word_eqI)
  fix n assume "n < LENGTH(8)"
  then have "(8 * k + n) div 8 = k" "(8 * k + n) mod 8 = n" "8 * k + n < 64" using assms by auto
  with \<open>n < LENGTH(8)\<close> show "bit (ucast (drop_bit (8 * k) (load64 x)) :: u8) n = bit (x ! k) n"
    using bit_load64_loop [of 8 x "8 * k + n"] by (simp add: load64_def bit_simps)
qed

lemma ucast_xor_u8: "(ucast (a XOR b :: u64) :: u8) = ucast a XOR ucast b"
  by (rule bit_word_eqI) (simp add: bit_simps)

lemma xor_block_length [simp]: "length (xor_block r m s) = length s"
proof -
  have "length (fold (\<lambda>i s. s[i := s ! i XOR load64 (drop (8 * i) m)]) is s) = length s" for "is" s
    by (induction "is" arbitrary: s) auto
  then show ?thesis by (simp add: xor_block_def)
qed

lemma nth_xor_block:
  assumes "i < length s"
  shows "xor_block r m s ! i = (if i < r div 8 then s ! i XOR load64 (drop (8 * i) m) else s ! i)"
proof -
  have "fold (\<lambda>i s. s[i := s ! i XOR load64 (drop (8 * i) m)]) [0..<j] s ! i =
      (if i < j then s ! i XOR load64 (drop (8 * i) m) else s ! i)" for j
    using assms
  proof (induction j)
    case (Suc j)
    have "length (fold (\<lambda>i s. s[i := s ! i XOR load64 (drop (8 * i) m)]) [0..<j] s) = length s"
      using xor_block_length [of "8 * j"] by (simp add: xor_block_def)
    with Suc show ?case by (cases "i = j") auto
  qed simp
  then show ?thesis by (simp add: xor_block_def)
qed

text \<open>Absorbing a block lane by lane is absorbing it byte by byte.\<close>

lemma xor_block_bytes:
  assumes "8 dvd r" and "r \<le> 8 * length s" and "r \<le> length m"
  shows "xor_block r m s = xor_bytes 0 (take r m) s"
proof (rule state_eqI)
  fix q assume q: "q div 8 < length (xor_block r m s)"
  have "q div 8 < r div 8 \<longleftrightarrow> q < r" using assms(1) by (auto elim!: dvdE)
  moreover have "state_byte (xor_block r m s) q =
      state_byte s q XOR (if q div 8 < r div 8 then drop (8 * (q div 8)) m ! (q mod 8) else 0)"
    using q by (simp add: state_byte_def nth_xor_block drop_bit_xor ucast_xor_u8 byte_load64)
  ultimately show "state_byte (xor_block r m s) q = state_byte (xor_bytes 0 (take r m) s) q"
    using assms by (subst state_byte_xor_bytes) (auto simp: min_def)
qed simp

section \<open>Incremental absorption\<close>

declare keccak_inc_absorb.simps [simp del] keccak_absorb_blocks.simps [simp del]
  keccak_squeeze_loop.simps [simp del]

definition inc_ok :: "nat \<Rightarrow> u64 list \<Rightarrow> bool" where
  "inc_ok r s \<longleftrightarrow> length s = 26 \<and> unat (s ! 25) < r \<and> r \<le> 200"

lemma xor_bytes_counter:
  assumes "length s = 26" and "pos + length bs \<le> 200"
  shows "(xor_bytes pos bs (s[25 := v]))[25 := w] = (xor_bytes pos bs s)[25 := w] \<and>
    xor_bytes pos bs s ! 25 = s ! 25"
  using assms
proof (induction bs arbitrary: pos s)
  case (Cons b bs)
  have "pos div 8 \<noteq> 25" using Cons.prems by auto
  then have "xor_byte pos b (s[25 := v]) = (xor_byte pos b s)[25 := v]" "xor_byte pos b s ! 25 = s ! 25"
    by (auto simp: xor_byte_def list_update_swap)
  with Cons.IH [of "xor_byte pos b s" "Suc pos"] Cons.prems show ?case by simp
qed auto

lemma unat_counter_add:
  "unat (c :: u64) + n < 2 ^ 64 \<Longrightarrow> unat (c + of_nat n) = unat c + n"
  by (subst unat_plus_small) (auto simp: unat_of_nat_lt)

lemma inc_absorb_less:
  assumes "inc_ok r s" and "length m + unat (s ! 25) < r"
  shows "keccak_inc_absorb s r m = (xor_bytes (unat (s ! 25)) m s)[25 := s ! 25 + of_nat (length m)]"
    and "unat (keccak_inc_absorb s r m ! 25) = unat (s ! 25) + length m"
    and "length (keccak_inc_absorb s r m) = 26"
  using assms by (simp_all add: keccak_inc_absorb.simps [of s] Let_def inc_ok_def unat_counter_add)

lemma inc_absorb_block:
  assumes "inc_ok r s" and "r \<le> length m + unat (s ! 25)"
  shows "keccak_inc_absorb s r m = keccak_inc_absorb
    (KeccakF1600_StatePermute ((xor_bytes (unat (s ! 25)) (take (r - unat (s ! 25)) m) s)[25 := 0])) r
    (drop (r - unat (s ! 25)) m)"
    and "inc_ok r (KeccakF1600_StatePermute
      ((xor_bytes (unat (s ! 25)) (take (r - unat (s ! 25)) m) s)[25 := 0]))"
  using assms by (simp_all add: keccak_inc_absorb.simps [of s] Let_def inc_ok_def)

lemma inc_absorb_ok:
  "inc_ok r s \<Longrightarrow> inc_ok r (keccak_inc_absorb s r m)"
proof (induction "length m" arbitrary: s m rule: less_induct)
  case less
  let ?off = "unat (s ! 25)"
  show ?case
  proof (cases "r \<le> length m + ?off")
    case True
    moreover have "length (drop (r - ?off) m) < length m" using less.prems True by (auto simp: inc_ok_def)
    ultimately show ?thesis
      using less.hyps inc_absorb_block [OF less.prems] by metis
  next
    case False
    then show ?thesis using inc_absorb_less [OF less.prems, of m] less.prems by (simp add: inc_ok_def)
  qed
qed

text \<open>Absorbing in two calls is absorbing the concatenation.\<close>

lemma inc_absorb_append:
  "inc_ok r s \<Longrightarrow> keccak_inc_absorb s r (a @ b) = keccak_inc_absorb (keccak_inc_absorb s r a) r b"
proof (induction "length a" arbitrary: s a rule: less_induct)
  case less
  let ?off = "unat (s ! 25)" and ?d = "r - unat (s ! 25)"
  have len: "length s = 26" "?off < r" "r \<le> 200" using less.prems by (auto simp: inc_ok_def)
  show ?case
  proof (cases "r \<le> length a + ?off")
    case True
    let ?s = "KeccakF1600_StatePermute ((xor_bytes ?off (take ?d a) s)[25 := 0])"
    have "keccak_inc_absorb ?s r (drop ?d a @ b) = keccak_inc_absorb (keccak_inc_absorb ?s r (drop ?d a)) r b"
      using True len inc_absorb_block(2) [OF less.prems True] by (intro less.hyps) auto
    then show ?thesis
      using True inc_absorb_block(1) [OF less.prems, of "a @ b"] inc_absorb_block(1) [OF less.prems True]
      by simp
  next
    case False
    then have lt: "length a + ?off < r" by simp
    let ?t = "keccak_inc_absorb s r a"
    note t = inc_absorb_less [OF less.prems lt]
    have ok: "inc_ok r ?t" using less.prems by (rule inc_absorb_ok)
    have xb: "(xor_bytes (?off + length a) bs ?t)[25 := w] = (xor_bytes ?off (a @ bs) s)[25 := w]"
      if "?off + length a + length bs \<le> 200" for bs w
      using that len by (simp add: t(1) xor_bytes_counter xor_bytes_append)
    show ?thesis
    proof (cases "r \<le> length b + unat (?t ! 25)")
      case True
      have u: "unat (?t ! 25) = ?off + length a" and d: "r - (?off + length a) = ?d - length a"
        using t(2) by simp_all
      have x: "(xor_bytes (?off + length a) (take (?d - length a) b) ?t)[25 := 0] =
          (xor_bytes ?off (take ?d (a @ b)) s)[25 := 0]"
        using xb [of "take (?d - length a) b" 0] lt len by simp
      have y: "drop (?d - length a) b = drop ?d (a @ b)" using lt by simp
      have "r \<le> length (a @ b) + ?off" using True t(2) by simp
      from inc_absorb_block(1) [OF less.prems this] show ?thesis
        unfolding inc_absorb_block(1) [OF ok True] u d x y .
    next
      case F: False
      then have "length b + unat (?t ! 25) < r" "length (a @ b) + ?off < r" using t(2) by auto
      moreover have "?t ! 25 + of_nat (length b) = s ! 25 + of_nat (length (a @ b))"
        using len by (simp add: t(1))
      ultimately show ?thesis
        using inc_absorb_less(1) [OF ok, of b] inc_absorb_less(1) [OF less.prems, of "a @ b"] t(2) xb [of b] len
        by (simp add: add.assoc)
    qed
  qed
qed

section \<open>The two sponge interfaces agree\<close>

lemma xor_bytes_snoc:
  "pos + length bs \<le> 8 * length s \<Longrightarrow> xor_bytes pos bs (s @ c) = xor_bytes pos bs s @ c"
proof (induction bs arbitrary: pos s)
  case (Cons b bs)
  then have "pos div 8 < length s" by auto
  then have "xor_byte pos b (s @ c) = xor_byte pos b s @ c"
    by (simp add: xor_byte_def list_update_append nth_append)
  with Cons show ?case by simp
qed simp

lemma absorb_blocks_inc:
  assumes "8 dvd r" "0 < r" "r \<le> 200" and "length s = 25"
    and "keccak_absorb_blocks r s m = (s', m')"
  shows "keccak_inc_absorb (s @ [0]) r m = xor_bytes 0 m' s' @ [of_nat (length m')] \<and>
    length m' < r \<and> length s' = 25"
  using assms(4,5)
proof (induction "length m" arbitrary: s m rule: less_induct)
  case less
  have ok: "inc_ok r (s @ [0])" using assms(2,3) less.prems(1) by (simp add: inc_ok_def nth_append)
  have c: "unat ((s @ [0]) ! 25) = 0" using less.prems(1) by (simp add: nth_append)
  show ?case
  proof (cases "r \<le> length m")
    case True
    let ?s = "KeccakF1600_StatePermute (xor_block r m s)"
    have "xor_bytes 0 (take r m) (s @ [0]) = xor_block r m s @ [0]"
      using True assms(1,3) less.prems(1) by (simp add: xor_bytes_snoc xor_block_bytes)
    then have "keccak_inc_absorb (s @ [0]) r m = keccak_inc_absorb (?s @ [0]) r (drop r m)"
      using inc_absorb_block(1) [OF ok, of m] True c less.prems(1) by (simp add: list_update_append)
    moreover have "keccak_absorb_blocks r ?s (drop r m) = (s', m')"
      using less.prems(2) True assms(2) by (simp add: keccak_absorb_blocks.simps [of r s])
    ultimately show ?thesis
      using less.hyps [of "drop r m" ?s] True assms(2) less.prems(1) by simp
  next
    case False
    then have "s' = s" "m' = m"
      using less.prems(2) by (simp_all add: keccak_absorb_blocks.simps [of r s])
    with False assms(3) c less.prems(1) inc_absorb_less(1) [OF ok, of m] show ?thesis
      by (simp add: xor_bytes_snoc list_update_append nth_append)
  qed
qed

lemma or_128_xor:
  assumes "\<not> bit (p :: u8) 7"
  shows "p OR 128 = p XOR 128"
proof -
  have "bit (128 :: u8) n \<Longrightarrow> n = 7" if "n < 8" for n
  proof -
    have "n \<in> {0, 1, 2, 3, 4, 5, 6, 7}" using that by auto
    then show "bit (128 :: u8) n \<Longrightarrow> n = 7" by auto
  qed
  with assms show ?thesis by (intro bit_word_eqI) (auto simp: bit_or_iff bit_xor_iff)
qed

text \<open>
  \<open>keccak_absorb\<close> is \<open>keccak_inc_init\<close>, \<open>keccak_inc_absorb\<close> and \<open>keccak_inc_finalize\<close>, for
  every padding byte whose top bit is clear.
\<close>

lemma absorb_eq_inc:
  assumes "8 dvd r" "0 < r" "r \<le> 200" and p: "\<not> bit p 7"
  shows "keccak_inc_finalize (keccak_inc_absorb keccak_inc_init r m) r p = keccak_absorb r m p @ [0]"
proof -
  obtain s' m' where b: "keccak_absorb_blocks r (replicate 25 0) m = (s', m')" by fastforce
  let ?l = "length m'"
  have i: "keccak_inc_absorb keccak_inc_init r m = xor_bytes 0 m' s' @ [of_nat ?l]"
    and l: "?l < r" and len: "length s' = 25"
    using absorb_blocks_inc [OF assms(1-3) _ b] replicate_add [of 25 1 "0 :: u64"]
    by (simp_all add: keccak_inc_init_def)
  have ul: "unat (of_nat ?l :: u64) = ?l" using l assms(3) by (intro unat_of_nat_lt) simp
  have xs: "xor_byte pos c (s @ [w]) = xor_byte pos c s @ [w]" if "pos < 200" "length s = 25" for pos c s w
    using that div_less_iff_less_mult [of 8 pos 25] by (simp add: xor_byte_def list_update_append nth_append)
  define t where "t = (memcpy_at (replicate r 0) 0 m')[?l := p]"
  define t' where "t' = t[r - 1 := t ! (r - 1) OR 128]"
  have t: "length t = r" "\<And>q. q < r \<Longrightarrow> t ! q = (if q < ?l then m' ! q else if q = ?l then p else 0)"
    using l by (auto simp: t_def nth_list_update nth_memcpy_at)
  have "xor_block r t' s' = xor_byte (r - 1) 128 (xor_byte ?l p (xor_bytes 0 m' s'))"
  proof (rule state_eqI)
    fix q assume q: "q div 8 < length (xor_block r t' s')"
    have "t' ! q = t ! q XOR (if q = r - 1 then 128 else 0)" if "q < r"
      using that l p t or_128_xor [of "t ! q"] by (auto simp: t'_def nth_list_update)
    then have e: "q < r \<Longrightarrow> t' ! q = (if q < ?l then m' ! q else 0) XOR (if q = ?l then p else 0) XOR
        (if q = r - 1 then 128 else 0)" using t(2) by auto
    have d: "?l div 8 < 25" "(r - 1) div 8 < 25" using l assms(3) by auto
    show "state_byte (xor_block r t' s') q =
        state_byte (xor_byte (r - 1) 128 (xor_byte ?l p (xor_bytes 0 m' s'))) q"
      using assms(1-3) l len d e t(1)
      by (auto simp: xor_block_bytes t'_def state_byte_xor_byte state_byte_xor_bytes xor.assoc)
  qed simp
  then show ?thesis
    using l assms(3) len
    by (simp add: keccak_inc_finalize_def i ul xs Let_def nth_append list_update_append keccak_absorb_def b
        t_def t'_def)
qed

lemma squeezeblocks_lane_bytes:
  assumes "8 dvd r"
  shows "concat (map (\<lambda>i. store64 (s ! i)) [0..<r div 8]) = map (state_byte s) [0..<r]"
proof -
  have "concat (map (\<lambda>i. store64 (s ! i)) [0..<k]) = map (state_byte s) [0..<8 * k]" for k
  proof (induction k)
    case (Suc k)
    have "store64 (s ! k) = map (state_byte s) [8 * k..<8 * k + 8]"
      by (rule nth_equalityI) (auto simp: store64_def state_byte_def)
    moreover have "[0..<8 * Suc k] = [0..<8 * k] @ [8 * k..<8 * k + 8]"
      using upt_add_eq_append [of 0 "8 * k" 8] by (simp add: add.commute)
    ultimately show ?case using Suc by (simp only: upt_Suc_append map_append concat_append) simp
  qed simp
  from this [of "r div 8"] assms show ?thesis by simp
qed

lemma squeezeblocks_Suc:
  assumes "8 dvd r"
  shows "fst (keccak_squeezeblocks (Suc n) s r) =
      map (state_byte (KeccakF1600_StatePermute s)) [0..<r] @
      fst (keccak_squeezeblocks n (KeccakF1600_StatePermute s) r)"
    and "snd (keccak_squeezeblocks (Suc n) s r) = snd (keccak_squeezeblocks n (KeccakF1600_StatePermute s) r)"
  by (simp_all add: Let_def split_beta squeezeblocks_lane_bytes [OF assms])

declare keccak_squeezeblocks.simps(2) [simp del]

lemma squeeze_loop_step:
  assumes "0 < n" "0 < r"
  shows "fst (keccak_squeeze_loop n s r) = map (state_byte (KeccakF1600_StatePermute s)) [0..<min n r] @
    fst (keccak_squeeze_loop (n - min n r) ((KeccakF1600_StatePermute s)[25 := of_nat (r - min n r)]) r)"
  using assms by (simp add: keccak_squeeze_loop.simps [of n] Let_def split_beta)

lemma squeezeblocks_length:
  "8 dvd r \<Longrightarrow> length (fst (keccak_squeezeblocks n s r)) = n * r"
  by (induction n arbitrary: s) (simp_all add: squeezeblocks_Suc)

lemma squeezeblocks_Suc_end:
  "8 dvd r \<Longrightarrow> fst (keccak_squeezeblocks (Suc n) s r) =
     fst (keccak_squeezeblocks n s r) @ fst (keccak_squeezeblocks 1 (snd (keccak_squeezeblocks n s r)) r)"
  by (induction n arbitrary: s) (simp_all add: squeezeblocks_Suc)

lemma squeeze_loop_blocks:
  assumes "8 dvd r" "0 < r" "r \<le> 200" and "length s = 25" and "n \<le> k * r"
  shows "fst (keccak_squeeze_loop n (s @ [c]) r) = take n (fst (keccak_squeezeblocks k s r))"
  using assms(4,5)
proof (induction k arbitrary: n s c)
  case 0
  then show ?case by (simp add: keccak_squeeze_loop.simps)
next
  case (Suc k)
  let ?s = "KeccakF1600_StatePermute s" and ?i = "min n r"
  have sb: "map (state_byte (?s @ [c])) [0..<?i] = map (state_byte ?s) [0..<?i]"
    using Suc.prems(1) assms(3) by (auto simp: state_byte_def nth_append)
  have ih: "fst (keccak_squeeze_loop (n - ?i) (?s @ [of_nat (r - ?i)]) r) =
      take (n - ?i) (fst (keccak_squeezeblocks k ?s r))"
    using Suc.prems by (intro Suc.IH) auto
  have tk: "take n (map (state_byte ?s) [0..<r] @ xs) = map (state_byte ?s) [0..<?i] @ take (n - ?i) xs" for xs
    by (cases "n \<le> r") (auto simp: min_def take_map take_upt)
  show ?case
  proof (cases "n = 0")
    case False
    then have "fst (keccak_squeeze_loop n (s @ [c]) r) = map (state_byte ?s) [0..<?i] @
        fst (keccak_squeeze_loop (n - ?i) (?s @ [of_nat (r - ?i)]) r)"
      using Suc.prems(1) assms(2) sb by (simp add: squeeze_loop_step list_update_append del: of_nat_diff)
    then show ?thesis unfolding squeezeblocks_Suc(1) [OF assms(1)] tk ih .
  qed (simp add: keccak_squeeze_loop.simps [of 0])
qed

text \<open>The one-shot extendable-output function is the incremental one, fed and read at any grain.\<close>

lemma shake256_blocks:
  "shake256 n input = take n (fst (keccak_squeezeblocks (Suc (n div 136)) (keccak_absorb 136 input 0x1F) 136))"
proof -
  let ?s = "keccak_absorb 136 input 0x1F"
  have "length (fst (keccak_squeezeblocks (n div 136) ?s 136)) = n div 136 * 136"
    by (rule squeezeblocks_length) simp
  then show ?thesis
    using squeezeblocks_Suc_end [of 136 "n div 136" ?s]
    by (simp add: shake256_def shake256_absorb_def shake256_squeezeblocks_def Let_def split_beta)
qed

lemma shake256_length [simp]: "length (shake256 n input) = n"
proof -
  have "length (fst (keccak_squeezeblocks (Suc (n div 136)) (keccak_absorb 136 input 0x1F) 136)) =
      Suc (n div 136) * 136" by (rule squeezeblocks_length) simp
  moreover have "n \<le> Suc (n div 136) * 136" using div_mult_mod_eq [of n 136] mod_less_divisor [of 136 n] by simp
  ultimately show ?thesis unfolding shake256_blocks by simp
qed

lemma keccak_absorb_length:
  assumes "8 dvd r" "0 < r" "r \<le> 200"
  shows "length (keccak_absorb r m p) = 25"
proof -
  obtain s' m' where "keccak_absorb_blocks r (replicate 25 0) m = (s', m')" by fastforce
  with absorb_blocks_inc [OF assms _ this] show ?thesis by (simp add: keccak_absorb_def Let_def)
qed

lemma shake256_eq_inc:
  "shake256 n input = fst (shake256_inc_squeeze n
     (shake256_inc_finalize (shake256_inc_absorb shake256_inc_init input)))"
proof -
  let ?s = "keccak_absorb 136 input 0x1F"
  have p: "\<not> bit (0x1F :: u8) 7" by simp
  have f: "keccak_inc_finalize (keccak_inc_absorb keccak_inc_init 136 input) 136 0x1F = ?s @ [0]"
    by (rule absorb_eq_inc [OF _ _ _ p]) simp_all
  have len: "length ?s = 25" by (rule keccak_absorb_length) simp_all
  have n: "n \<le> Suc (n div 136) * 136" using div_mult_mod_eq [of n 136] mod_less_divisor [of 136 n] by simp
  have "fst (shake256_inc_squeeze n (?s @ [0])) = fst (keccak_squeeze_loop n (?s @ [0]) 136)"
    using len by (simp add: shake256_inc_squeeze_def keccak_inc_squeeze_def Let_def nth_append
        list_update_append split_beta)
  also have "\<dots> = shake256 n input"
    unfolding shake256_blocks by (rule squeeze_loop_blocks [OF _ _ _ len n]) simp_all
  finally show ?thesis by (simp add: shake256_inc_finalize_def shake256_inc_absorb_def shake256_inc_init_def f)
qed

section \<open>Properties\<close>

text \<open>
  C33.  The unrolled permutation is Keccak-f[1600]: the two-round body that the code repeats, with its
  lanes kept in local variables, equals 24 rounds of the specification (theta, rho, pi, chi, iota on the
  five by five lanes), whose rotations are those of words and whose round constants come from the
  feedback register that defines them, not from the code's table.
\<close>

theorem permute_is_keccak_f:
  "KeccakF1600_StatePermute s = fold keccak_round [0..<24] (take 25 s) @ drop 25 s"
  by (rule StatePermute_rounds)

text \<open>
  C34.  Absorbing a message in pieces is absorbing it at once: the incremental sponge gives the same state
  for two calls as for one call on the concatenation, at any rate that is a multiple of 8 up to 200.
\<close>

theorem absorb_in_pieces:
  assumes "inc_ok r s"
  shows "keccak_inc_absorb s r (a @ b) = keccak_inc_absorb (keccak_inc_absorb s r a) r b \<and>
    inc_ok r (keccak_inc_absorb s r a)"
  using inc_absorb_append [OF assms] inc_absorb_ok [OF assms] by auto

theorem absorb_in_pieces_witness:
  "keccak_inc_absorb keccak_inc_init 136 (replicate 100 1 @ replicate 100 2) =
     keccak_inc_absorb (keccak_inc_absorb keccak_inc_init 136 (replicate 100 1)) 136 (replicate 100 2)"
  using absorb_in_pieces [of 136 keccak_inc_init] by (simp add: inc_ok_def keccak_inc_init_def)

text \<open>
  C35.  One-shot SHAKE256 and the incremental interface agree for every input and every output length.
\<close>

theorem shake256_one_shot:
  "shake256 n input = fst (shake256_inc_squeeze n
     (shake256_inc_finalize (shake256_inc_absorb shake256_inc_init input))) \<and> length (shake256 n input) = n"
  using shake256_eq_inc [of n input] shake256_length [of n input] by metis

end
