(* ===== verification/Crypto_Worker.thy ===== *)
theory Crypto_Worker
  imports Tiny_AES Fips202
begin

text \<open>
  The wrappers of \<open>src/src/PQC/crypto_worker.c\<close>.  Hashing and the block cipher are the models of
  \<open>fips202.c\<close> and \<open>aes.c\<close>; the three entry points of the HQC package (\<open>crypto_kem_keypair\<close>,
  \<open>crypto_kem_enc\<close>, \<open>crypto_kem_dec\<close> of \<open>kem.c\<close>) are the fields of a record that the operations
  take as an argument.  Key generation and encapsulation draw from the package's global generator,
  whose state has the type parameter \<open>'g\<close>.
\<close>

section \<open>Key encapsulation\<close>

abbreviation (input) CW_HQC_PUBLIC_KEY_LEN :: nat where "CW_HQC_PUBLIC_KEY_LEN \<equiv> 2249"
abbreviation (input) CW_HQC_SECRET_KEY_LEN :: nat where "CW_HQC_SECRET_KEY_LEN \<equiv> 2289"
abbreviation (input) CW_HQC_CIPHERTEXT_LEN :: nat where "CW_HQC_CIPHERTEXT_LEN \<equiv> 4481"
abbreviation (input) CW_HQC_SHARED_LEN :: nat where "CW_HQC_SHARED_LEN \<equiv> 64"
abbreviation (input) CW_AES_KEY_LEN :: nat where "CW_AES_KEY_LEN \<equiv> 32"
abbreviation (input) CW_AES_IV_LEN :: nat where "CW_AES_IV_LEN \<equiv> 16"

text \<open>
  Each field returns the C return code and the contents of the output buffers:
  \<open>(rc, pk, sk)\<close>, \<open>(rc, ct, ss)\<close> and \<open>(rc, ss)\<close>.
\<close>

record 'g kem_api =
  crypto_kem_keypair :: "'g \<Rightarrow> (int \<times> u8 list \<times> u8 list) \<times> 'g"
  crypto_kem_enc :: "u8 list \<Rightarrow> 'g \<Rightarrow> (int \<times> u8 list \<times> u8 list) \<times> 'g"
  crypto_kem_dec :: "u8 list \<Rightarrow> u8 list \<Rightarrow> int \<times> u8 list"

definition crypto_worker_keypair :: "'g kem_api \<Rightarrow> 'g \<Rightarrow> bool \<times> u8 list \<times> u8 list \<times> 'g" where
  "crypto_worker_keypair kem g =
     (case crypto_kem_keypair kem g of ((rc, pk, sk), g') \<Rightarrow> (rc = 0, pk, sk, g'))"

definition crypto_worker_encapsulate ::
  "'g kem_api \<Rightarrow> u8 list \<Rightarrow> 'g \<Rightarrow> bool \<times> u8 list \<times> u8 list \<times> 'g" where
  "crypto_worker_encapsulate kem pk g =
     (case crypto_kem_enc kem pk g of ((rc, ct, ss), g') \<Rightarrow> (rc = 0, ct, ss, g'))"

definition crypto_worker_decapsulate :: "'g kem_api \<Rightarrow> u8 list \<Rightarrow> u8 list \<Rightarrow> bool \<times> u8 list" where
  "crypto_worker_decapsulate kem sk ct =
     (case crypto_kem_dec kem ct sk of (rc, ss) \<Rightarrow> (rc = 0, ss))"

section \<open>Key derivation and encryption\<close>

definition crypto_worker_derive_aes_key :: "u8 list \<Rightarrow> u8 list" where
  "crypto_worker_derive_aes_key ss = shake256 CW_AES_KEY_LEN (take CW_HQC_SHARED_LEN ss)"

definition crypto_worker_derive_aes_iv :: "u8 list \<Rightarrow> u32 \<Rightarrow> u8 list" where
  "crypto_worker_derive_aes_iv ss counter =
     (let input = take CW_HQC_SHARED_LEN ss @
            [ucast (drop_bit 24 counter), ucast (drop_bit 16 counter), ucast (drop_bit 8 counter), ucast counter]
      in shake256 CW_AES_IV_LEN input)"

text \<open>The context is a local variable; its bytes before initialisation are not read.\<close>

definition aes_ctx_blank :: AES_ctx where
  "aes_ctx_blank = \<lparr>RoundKey = replicate AES_keyExpSize 0, Iv = replicate AES_BLOCKLEN 0\<rparr>"

definition crypto_worker_aes_ctr_xcrypt :: "u8 list \<Rightarrow> u8 list \<Rightarrow> u8 list \<Rightarrow> u8 list" where
  "crypto_worker_aes_ctr_xcrypt key iv buf =
     (if length buf = 0 then buf
      else let ctx = AES_init_ctx_iv aes_ctx_blank key iv
           in snd (AES_CTR_xcrypt_buffer ctx buf (length buf)))"

definition crypto_worker_secure_zero :: "u8 list \<Rightarrow> u8 list" where
  "crypto_worker_secure_zero buf = map (\<lambda>_. 0) buf"

lemma secure_zero_replicate [simp]: "crypto_worker_secure_zero buf = replicate (length buf) 0"
  by (simp add: crypto_worker_secure_zero_def map_replicate_const)

lemma derive_lengths [simp]:
  "length (crypto_worker_derive_aes_key ss) = 32"
  "length (crypto_worker_derive_aes_iv ss c) = 16"
  by (simp_all add: crypto_worker_derive_aes_key_def crypto_worker_derive_aes_iv_def Let_def)

section \<open>Interface: a length-preserving involutive cipher\<close>

text \<open>What the measurement protocol needs of the encryption routine.\<close>

locale stream_cipher =
  fixes xcrypt :: "u8 list \<Rightarrow> u8 list \<Rightarrow> u8 list \<Rightarrow> u8 list"
  assumes xcrypt_xcrypt: "xcrypt key iv (xcrypt key iv buf) = buf"
    and xcrypt_length: "length (xcrypt key iv buf) = length buf"
begin

lemma xcrypt_inj: "xcrypt key iv a = xcrypt key iv b \<longleftrightarrow> a = b"
  using xcrypt_xcrypt by metis

end

interpretation aes_ctr: stream_cipher crypto_worker_aes_ctr_xcrypt
proof
  fix key iv buf
  show "length (crypto_worker_aes_ctr_xcrypt key iv buf) = length buf"
    by (simp add: crypto_worker_aes_ctr_xcrypt_def Let_def)
  show "crypto_worker_aes_ctr_xcrypt key iv (crypto_worker_aes_ctr_xcrypt key iv buf) = buf"
    using CTR_xcrypt_involution [of "length buf" buf]
    by (cases "length buf") (simp_all add: crypto_worker_aes_ctr_xcrypt_def Let_def del: length_0_conv)
qed

section \<open>An instance of the interface\<close>

text \<open>
  A key encapsulation with constant keys, ciphertext and secret of the sizes of the program, the instance at
  which hypotheses on the interface are shown to hold together.
\<close>

definition constant_kem :: "unit kem_api" where
  "constant_kem = \<lparr>crypto_kem_keypair = (\<lambda>g. ((0, replicate 2249 1, replicate 2289 2), g)),
     crypto_kem_enc = (\<lambda>pk g. ((0, replicate 4481 3, replicate 64 4), g)), crypto_kem_dec = (\<lambda>ct sk. (0, replicate 64 4))\<rparr>"

lemma constant_kem_simps [simp]:
  "crypto_kem_keypair constant_kem g = ((0, replicate 2249 1, replicate 2289 2), g)"
  "crypto_kem_enc constant_kem pk g = ((0, replicate 4481 3, replicate 64 4), g)"
  "crypto_kem_dec constant_kem ct sk = (0, replicate 64 4)"
  by (simp_all add: constant_kem_def)

end
