(* ===== verification/Session_Manager.thy ===== *)
theory Session_Manager
  imports Metrics Crypto_Worker
begin

text \<open>
  Sessions and their table, \<open>src/src/PQC/session_manager.c\<close>.  A session is the record of
  \<open>session_t\<close>; the manager keeps the node's own session and the root's ten sessions.  A pointer
  to a session that is stored or compared is a \<open>session_ref\<close>.  Functions that read the clock take
  one argument for each reading, in the order of the readings.
\<close>

section \<open>Data\<close>

abbreviation (input) SESSION_MAX_NODES :: nat where "SESSION_MAX_NODES \<equiv> 10"
abbreviation (input) SESSION_MAX_RETRIES :: nat where "SESSION_MAX_RETRIES \<equiv> 3"
definition SESSION_INVALID_NODE_ID :: u16 where "SESSION_INVALID_NODE_ID = 0xffff"

definition SESSION_RETRY_TIMEOUT :: "u32 \<Rightarrow> u32" where
  "SESSION_RETRY_TIMEOUT clock_second = 120 * clock_second"

datatype session_role_t = SESSION_ROLE_NODE | SESSION_ROLE_ROOT

datatype session_state_t =
  SESSION_STATE_UNUSED | SESSION_STATE_IDLE | SESSION_STATE_WAIT_PK | SESSION_STATE_WAIT_CT |
  SESSION_STATE_WAIT_ACK | SESSION_STATE_ESTABLISHED | SESSION_STATE_FAILED

text \<open>The values of the C enumeration, which order the states.\<close>

primrec session_state_code :: "session_state_t \<Rightarrow> nat" where
  "session_state_code SESSION_STATE_UNUSED = 0"
| "session_state_code SESSION_STATE_IDLE = 1"
| "session_state_code SESSION_STATE_WAIT_PK = 2"
| "session_state_code SESSION_STATE_WAIT_CT = 3"
| "session_state_code SESSION_STATE_WAIT_ACK = 4"
| "session_state_code SESSION_STATE_ESTABLISHED = 5"
| "session_state_code SESSION_STATE_FAILED = 6"

lemma session_state_code_eq_iff [simp]: "session_state_code a = session_state_code b \<longleftrightarrow> a = b"
  by (cases a; cases b) auto

instantiation session_state_t :: linorder
begin

definition less_eq_session_state_t :: "session_state_t \<Rightarrow> session_state_t \<Rightarrow> bool" where
  "less_eq_session_state_t a b \<longleftrightarrow> session_state_code a \<le> session_state_code b"

definition less_session_state_t :: "session_state_t \<Rightarrow> session_state_t \<Rightarrow> bool" where
  "less_session_state_t a b \<longleftrightarrow> session_state_code a < session_state_code b"

instance
  by standard (auto simp: less_eq_session_state_t_def less_session_state_t_def dest: antisym)

end

type_synonym uip_ipaddr_t = "128 word"

record session_t =
  s_used :: bool
  s_node_id :: u16
  s_role :: session_role_t
  s_state :: session_state_t
  s_established :: bool
  s_next_msg_id :: u8
  s_tx_counter :: u32
  s_rx_counter :: u32
  s_ss :: "u8 list"
  s_aes_key :: "u8 list"
  s_retry_count :: u8
  s_pending_msg_type :: u8
  s_pending_msg_id :: u8
  s_waiting_response :: bool
  s_has_peer_addr :: bool
  s_peer_addr :: uip_ipaddr_t
  s_last_activity :: clock_time_t
  s_retry_deadline :: clock_time_t
  s_metrics :: pqc_metrics_snapshot_t
  s_node_metric_values :: "u32 list list"
  s_node_metrics_mask :: u8
  s_session_summary_emitted :: bool

text \<open>The result of \<open>memset(s, 0, sizeof(*s))\<close>; both enumerations have a constant 0.\<close>

definition session_zero :: session_t where
  "session_zero = \<lparr>s_used = False, s_node_id = 0, s_role = SESSION_ROLE_NODE,
     s_state = SESSION_STATE_UNUSED, s_established = False, s_next_msg_id = 0, s_tx_counter = 0,
     s_rx_counter = 0, s_ss = replicate CW_HQC_SHARED_LEN 0, s_aes_key = replicate CW_AES_KEY_LEN 0,
     s_retry_count = 0, s_pending_msg_type = 0, s_pending_msg_id = 0, s_waiting_response = False,
     s_has_peer_addr = False, s_peer_addr = 0, s_last_activity = 0, s_retry_deadline = 0,
     s_metrics = metrics_zero, s_node_metric_values = replicate 8 (replicate 4 0),
     s_node_metrics_mask = 0, s_session_summary_emitted = False\<rparr>"

text \<open>Updating one group of a session's counters.\<close>

abbreviation (input) upd_hs :: "(pqc_metrics_handshake_t \<Rightarrow> pqc_metrics_handshake_t) \<Rightarrow> session_t \<Rightarrow> session_t"
  where "upd_hs f \<equiv> s_metrics_update (ms_handshake_update f)"

abbreviation (input) upd_frag ::
  "(pqc_metrics_fragmentation_t \<Rightarrow> pqc_metrics_fragmentation_t) \<Rightarrow> session_t \<Rightarrow> session_t"
  where "upd_frag f \<equiv> s_metrics_update (ms_fragmentation_update f)"

abbreviation (input) upd_temp :: "(pqc_metrics_temp_t \<Rightarrow> pqc_metrics_temp_t) \<Rightarrow> session_t \<Rightarrow> session_t"
  where "upd_temp f \<equiv> s_metrics_update (ms_temp_update f)"

abbreviation (input) upd_res :: "(pqc_metrics_resource_t \<Rightarrow> pqc_metrics_resource_t) \<Rightarrow> session_t \<Rightarrow> session_t"
  where "upd_res f \<equiv> s_metrics_update (ms_resource_update f)"

section \<open>Session operations\<close>

definition session_clear_secrets :: "session_t \<Rightarrow> session_t" where
  "session_clear_secrets s =
     s\<lparr>s_ss := crypto_worker_secure_zero (s_ss s), s_aes_key := crypto_worker_secure_zero (s_aes_key s)\<rparr>"

definition session_touch :: "clock_time_t \<Rightarrow> session_t \<Rightarrow> session_t" where
  "session_touch now s = s\<lparr>s_last_activity := now\<rparr>"

definition session_init :: "clock_time_t \<Rightarrow> session_role_t \<Rightarrow> u16 \<Rightarrow> session_t" where
  "session_init now role node_id =
     session_touch now (session_zero\<lparr>s_used := True, s_role := role, s_node_id := node_id,
       s_state := SESSION_STATE_IDLE, s_metrics := pqc_metrics_init node_id\<rparr>)"

definition session_set_peer_addr :: "clock_time_t \<Rightarrow> uip_ipaddr_t \<Rightarrow> session_t \<Rightarrow> session_t" where
  "session_set_peer_addr now addr s =
     session_touch now (s\<lparr>s_peer_addr := addr, s_has_peer_addr := True\<rparr>)"

definition session_reset :: "clock_time_t \<Rightarrow> clock_time_t \<Rightarrow> session_t \<Rightarrow> session_t" where
  "session_reset now1 now2 s =
     (let role = s_role s; node_id = s_node_id s; has_peer_addr = s_has_peer_addr s;
          peer_addr = s_peer_addr s; metrics = s_metrics s;
          s = session_clear_secrets s;
          s = session_init now1 role node_id;
          s = s\<lparr>s_metrics := metrics\<rparr>;
          s = s\<lparr>s_metrics := pqc_metrics_set_node_id node_id (s_metrics s)\<rparr>
      in if has_peer_addr then session_set_peer_addr now2 peer_addr s else s)"

definition session_is_root :: "session_t \<Rightarrow> bool" where
  "session_is_root s \<longleftrightarrow> s_role s = SESSION_ROLE_ROOT"

definition session_is_node :: "session_t \<Rightarrow> bool" where
  "session_is_node s \<longleftrightarrow> s_role s = SESSION_ROLE_NODE"

definition session_is_established :: "session_t \<Rightarrow> bool" where
  "session_is_established s \<longleftrightarrow> s_state s = SESSION_STATE_ESTABLISHED \<and> s_established s"

definition session_is_failed :: "session_t \<Rightarrow> bool" where
  "session_is_failed s \<longleftrightarrow> s_state s = SESSION_STATE_FAILED"

definition session_set_pending ::
  "u32 \<Rightarrow> clock_time_t \<Rightarrow> clock_time_t \<Rightarrow> u8 \<Rightarrow> u8 \<Rightarrow> session_t \<Rightarrow> session_t" where
  "session_set_pending clock_second now1 now2 msg_type msg_id s =
     session_touch now2 (s\<lparr>s_pending_msg_type := msg_type, s_pending_msg_id := msg_id,
       s_waiting_response := True, s_retry_deadline := now1 + SESSION_RETRY_TIMEOUT clock_second\<rparr>)"

definition session_clear_pending :: "session_t \<Rightarrow> session_t" where
  "session_clear_pending s =
     s\<lparr>s_pending_msg_type := 0, s_pending_msg_id := 0, s_waiting_response := False, s_retry_count := 0\<rparr>"

definition session_retry_due :: "clock_time_t \<Rightarrow> session_t \<Rightarrow> bool" where
  "session_retry_due now s \<longleftrightarrow> s_waiting_response s \<and> s_retry_deadline s \<le> now"

definition session_can_retry :: "session_t \<Rightarrow> bool" where
  "session_can_retry s \<longleftrightarrow> unat (s_retry_count s) < SESSION_MAX_RETRIES"

definition session_mark_retry :: "u32 \<Rightarrow> clock_time_t \<Rightarrow> clock_time_t \<Rightarrow> session_t \<Rightarrow> session_t" where
  "session_mark_retry clock_second now1 now2 s =
     session_touch now2 (s\<lparr>s_retry_count := s_retry_count s + 1,
       s_retry_deadline := now1 + SESSION_RETRY_TIMEOUT clock_second\<rparr>)"

definition session_set_wait_pk :: "session_t \<Rightarrow> session_t" where
  "session_set_wait_pk s = s\<lparr>s_state := SESSION_STATE_WAIT_PK\<rparr>"

definition session_set_wait_ct :: "session_t \<Rightarrow> session_t" where
  "session_set_wait_ct s = s\<lparr>s_state := SESSION_STATE_WAIT_CT\<rparr>"

definition session_set_wait_ack :: "session_t \<Rightarrow> session_t" where
  "session_set_wait_ack s = s\<lparr>s_state := SESSION_STATE_WAIT_ACK\<rparr>"

definition session_set_established :: "session_t \<Rightarrow> session_t" where
  "session_set_established s =
     session_clear_pending (s\<lparr>s_state := SESSION_STATE_ESTABLISHED, s_established := True\<rparr>)"

definition session_set_failed :: "clock_time_t \<Rightarrow> session_t \<Rightarrow> session_t" where
  "session_set_failed now s =
     (let s = (if s_state s \<noteq> SESSION_STATE_FAILED
               then s\<lparr>s_metrics := pqc_metrics_handshake_failure now (s_metrics s)\<rparr> else s)
      in session_clear_pending (s\<lparr>s_state := SESSION_STATE_FAILED, s_established := False\<rparr>))"

definition session_next_msg_id :: "session_t \<Rightarrow> u8 \<times> session_t" where
  "session_next_msg_id s = (s_next_msg_id s, s\<lparr>s_next_msg_id := s_next_msg_id s + 1\<rparr>)"

definition session_next_tx_counter :: "session_t \<Rightarrow> u32 \<times> session_t" where
  "session_next_tx_counter s = (s_tx_counter s, s\<lparr>s_tx_counter := s_tx_counter s + 1\<rparr>)"

definition session_peek_rx_counter :: "session_t \<Rightarrow> u32" where
  "session_peek_rx_counter s = s_rx_counter s"

definition session_commit_rx_counter :: "session_t \<Rightarrow> session_t" where
  "session_commit_rx_counter s = s\<lparr>s_rx_counter := s_rx_counter s + 1\<rparr>"

definition session_next_rx_counter :: "session_t \<Rightarrow> u32 \<times> session_t" where
  "session_next_rx_counter s =
     (let counter = session_peek_rx_counter s in (counter, session_commit_rx_counter s))"

section \<open>The session table\<close>

record session_manager =
  sm_manager_role :: session_role_t
  sm_local_session :: session_t
  sm_sessions :: "session_t list"

datatype session_ref = Local_Session | Session_Slot nat

definition session_manager_init :: "clock_time_t \<Rightarrow> session_role_t \<Rightarrow> session_manager" where
  "session_manager_init now local_role =
     \<lparr>sm_manager_role = local_role,
      sm_local_session = (if local_role = SESSION_ROLE_NODE
                          then session_init now SESSION_ROLE_NODE SESSION_INVALID_NODE_ID
                          else session_zero),
      sm_sessions = replicate SESSION_MAX_NODES session_zero\<rparr>"

definition session_manager_get_local :: "session_manager \<Rightarrow> session_ref option" where
  "session_manager_get_local sm =
     (if sm_manager_role sm = SESSION_ROLE_NODE then Some Local_Session else None)"

definition sessions_find :: "u16 \<Rightarrow> session_t list \<Rightarrow> nat option" where
  "sessions_find node_id sessions =
     first_index (\<lambda>i. s_used (sessions ! i) \<and> s_node_id (sessions ! i) = node_id) (length sessions)"

definition session_manager_find :: "u16 \<Rightarrow> session_manager \<Rightarrow> session_ref option" where
  "session_manager_find node_id sm = map_option Session_Slot (sessions_find node_id (sm_sessions sm))"

definition session_manager_get_by_index :: "u8 \<Rightarrow> session_manager \<Rightarrow> session_ref option" where
  "session_manager_get_by_index index sm =
     (if SESSION_MAX_NODES \<le> unat index \<or> \<not> s_used (sm_sessions sm ! unat index) then None
      else Some (Session_Slot (unat index)))"

definition sessions_get_or_create ::
  "clock_time_t \<Rightarrow> u16 \<Rightarrow> session_t list \<Rightarrow> nat option \<times> session_t list" where
  "sessions_get_or_create now node_id sessions =
     (case sessions_find node_id sessions of
        Some i \<Rightarrow> (Some i, sessions)
      | None \<Rightarrow>
          (case first_index (\<lambda>i. \<not> s_used (sessions ! i)) (length sessions) of
             Some i \<Rightarrow> (Some i, sessions[i := session_init now SESSION_ROLE_ROOT node_id])
           | None \<Rightarrow> (None, sessions)))"

definition session_manager_get_or_create ::
  "clock_time_t \<Rightarrow> u16 \<Rightarrow> session_manager \<Rightarrow> session_ref option \<times> session_manager" where
  "session_manager_get_or_create now node_id sm =
     (case sessions_get_or_create now node_id (sm_sessions sm) of
        (r, sessions) \<Rightarrow> (map_option Session_Slot r, sm\<lparr>sm_sessions := sessions\<rparr>))"

text \<open>Reading and writing through a reference.\<close>

primrec session_deref :: "session_manager \<Rightarrow> session_ref \<Rightarrow> session_t" where
  "session_deref sm Local_Session = sm_local_session sm"
| "session_deref sm (Session_Slot i) = sm_sessions sm ! i"

primrec session_assign :: "session_ref \<Rightarrow> session_t \<Rightarrow> session_manager \<Rightarrow> session_manager" where
  "session_assign Local_Session s sm = sm\<lparr>sm_local_session := s\<rparr>"
| "session_assign (Session_Slot i) s sm = sm\<lparr>sm_sessions := (sm_sessions sm)[i := s]\<rparr>"

section \<open>Field facts\<close>

named_theorems session_ops \<open>definitions of the session operations\<close>

declare session_clear_secrets_def [session_ops] session_touch_def [session_ops]
  session_init_def [session_ops] session_set_peer_addr_def [session_ops] session_reset_def [session_ops]
  session_is_root_def [session_ops] session_is_node_def [session_ops]
  session_is_established_def [session_ops] session_is_failed_def [session_ops]
  session_set_pending_def [session_ops] session_clear_pending_def [session_ops]
  session_retry_due_def [session_ops] session_can_retry_def [session_ops]
  session_mark_retry_def [session_ops] session_set_wait_pk_def [session_ops]
  session_set_wait_ct_def [session_ops] session_set_wait_ack_def [session_ops]
  session_set_established_def [session_ops] session_set_failed_def [session_ops]
  session_next_msg_id_def [session_ops] session_peek_rx_counter_def [session_ops]

text \<open>A reset keeps the identity, the address and the counters of the metrics, and forgets the keys.\<close>

lemma session_reset_fields:
  "s_role (session_reset a b s) = s_role s" "s_node_id (session_reset a b s) = s_node_id s"
  "s_has_peer_addr (session_reset a b s) = s_has_peer_addr s"
  "s_has_peer_addr s \<Longrightarrow> s_peer_addr (session_reset a b s) = s_peer_addr s"
  "s_state (session_reset a b s) = SESSION_STATE_IDLE" "\<not> s_established (session_reset a b s)"
  "s_ss (session_reset a b s) = replicate 64 0" "s_aes_key (session_reset a b s) = replicate 32 0"
  "s_next_msg_id (session_reset a b s) = 0" "s_tx_counter (session_reset a b s) = 0"
  "s_rx_counter (session_reset a b s) = 0" "s_retry_count (session_reset a b s) = 0"
  "\<not> s_waiting_response (session_reset a b s)" "s_used (session_reset a b s)"
  "ms_handshake (s_metrics (session_reset a b s)) = ms_handshake (s_metrics s)"
  by (simp_all add: session_ops Let_def session_zero_def pqc_metrics_set_node_id_def)

section \<open>The invariant of a session\<close>

text \<open>
  The flag \<open>established\<close> and the state agree, the retry counter never passes the limit, and the
  secret arrays keep their size.
\<close>

definition session_inv :: "session_t \<Rightarrow> bool" where
  "session_inv s \<longleftrightarrow> (s_established s \<longleftrightarrow> s_state s = SESSION_STATE_ESTABLISHED) \<and>
     unat (s_retry_count s) \<le> 3 \<and> length (s_ss s) = 64 \<and> length (s_aes_key s) = 32"

lemma session_inv_ops:
  "session_inv (session_init now role nid)"
  "session_inv s \<Longrightarrow> session_inv (session_reset a b s)"
  "session_inv s \<Longrightarrow> session_inv (session_touch now s)"
  "session_inv s \<Longrightarrow> session_inv (session_set_peer_addr now addr s)"
  "session_inv s \<Longrightarrow> session_inv (session_set_pending cs a b mt mid s)"
  "session_inv s \<Longrightarrow> session_inv (session_clear_pending s)"
  "session_inv s \<Longrightarrow> session_inv (session_set_established s)"
  "session_inv s \<Longrightarrow> session_inv (session_set_failed now s)"
  "session_inv s \<Longrightarrow> session_inv (snd (session_next_msg_id s))"
  "session_inv s \<Longrightarrow> session_can_retry s \<Longrightarrow> session_inv (session_mark_retry cs a b s)"
  by (auto simp: session_inv_def session_ops session_zero_def Let_def unat_Suc_small)

section \<open>The table is a slot table\<close>

interpretation session_table: slot_table s_used "\<lambda>s. Some (s_node_id s)" sessions_find "sessions_get_or_create now" for now
proof
  fix k es i j
  show "sessions_find k es =
      first_index (\<lambda>i. s_used (es ! i) \<and> Some (s_node_id (es ! i)) = Some k) (length es)"
    by (simp add: sessions_find_def)
  show "sessions_find k es = Some i \<Longrightarrow> sessions_get_or_create now k es = (Some i, es)"
    by (simp add: sessions_get_or_create_def)
  show "sessions_find k es = None \<Longrightarrow> first_index (\<lambda>i. \<not> s_used (es ! i)) (length es) = Some j \<Longrightarrow>
      \<exists>e. sessions_get_or_create now k es = (Some j, es[j := e]) \<and> s_used e \<and> Some (s_node_id e) = Some k"
    by (intro exI [of _ "session_init now SESSION_ROLE_ROOT k"])
      (simp add: sessions_get_or_create_def session_init_def session_touch_def)
  show "sessions_find k es = None \<Longrightarrow> first_index (\<lambda>i. \<not> s_used (es ! i)) (length es) = None \<Longrightarrow>
      sessions_get_or_create now k es = (None, es)"
    by (simp add: sessions_get_or_create_def)
qed

text \<open>The invariant of the table: ten slots, at most one used slot per node.\<close>

definition manager_inv :: "session_manager \<Rightarrow> bool" where
  "manager_inv sm \<longleftrightarrow> length (sm_sessions sm) = SESSION_MAX_NODES \<and>
     session_table.keys_distinct (sm_sessions sm)"

lemma manager_inv_init: "manager_inv (session_manager_init now role)"
  by (auto simp: manager_inv_def session_manager_init_def session_table.keys_distinct_def session_zero_def)

lemma manager_inv_get_or_create:
  assumes "manager_inv sm" and "session_manager_get_or_create now nid sm = (r, sm')"
  shows "manager_inv sm'"
proof -
  obtain i ses where g: "sessions_get_or_create now nid (sm_sessions sm) = (i, ses)" by fastforce
  then have sm': "sm' = sm\<lparr>sm_sessions := ses\<rparr>"
    using assms(2) by (simp add: session_manager_get_or_create_def)
  have len: "length ses = 10" using session_table.acquire_length [OF g] assms(1) by (simp add: manager_inv_def)
  have "session_table.keys_distinct ses"
  proof (cases i)
    case None
    with g have "ses = sm_sessions sm"
      by (auto simp: sessions_get_or_create_def split: option.splits)
    with assms(1) show ?thesis by (simp add: manager_inv_def)
  next
    case (Some j)
    with g assms(1) session_table.acquire_lookup [of "sm_sessions sm"] show ?thesis
      by (simp add: manager_inv_def)
  qed
  with len sm' show ?thesis by (simp add: manager_inv_def)
qed

lemma session_init_fresh:
  "s_role (session_init now role nid) = role" "s_state (session_init now role nid) = SESSION_STATE_IDLE"
  "\<not> s_established (session_init now role nid)" "s_tx_counter (session_init now role nid) = 0" "s_rx_counter (session_init now role nid) = 0"
  "s_ss (session_init now role nid) = replicate 64 0" "s_aes_key (session_init now role nid) = replicate 32 0"
  "\<not> s_has_peer_addr (session_init now role nid)" "\<not> s_waiting_response (session_init now role nid)"
  "s_retry_count (session_init now role nid) = 0" "s_last_activity (session_init now role nid) = now"
  by (simp_all add: session_init_def session_touch_def session_zero_def)

lemma sessions_get_or_create_miss:
  assumes "sessions_get_or_create now node_id ss = (Some i, ss')" "sessions_find node_id ss = None"
  shows "i < length ss" "\<not> s_used (ss ! i)" "\<forall>j<i. s_used (ss ! j)" "ss' = ss[i := session_init now SESSION_ROLE_ROOT node_id]"
  using assms by (auto simp: sessions_get_or_create_def first_index_Some split: option.splits)

section \<open>Properties\<close>

text \<open>
  C28.  The session table is a map from node identifiers to slots.  With at most one used slot per node, asking
  for a node that has a slot returns it and changes nothing, neither that session nor anything else.  For a
  node that has none, the first unused slot becomes a fresh session of the root for that node (idle, not
  established, counters and keys zero, no address, nothing pending, last active now) and every other slot
  keeps its contents; if all ten slots are used, and only then, the call fails, without any change.
  Afterwards the node is found at the slot returned, every other node where it was, and the table still
  has ten slots with at most one per node.
\<close>

theorem session_table_get_or_create:
  assumes "manager_inv sm" and "session_manager_get_or_create now node_id sm = (found, sm')"
  shows "manager_inv sm' \<and>
    (found = None \<longleftrightarrow> session_manager_find node_id sm = None \<and> (\<forall>i<10. s_used (sm_sessions sm ! i))) \<and>
    (found = None \<longrightarrow> sm' = sm) \<and>
    (\<forall>r. session_manager_find node_id sm = Some r \<longrightarrow> found = Some r \<and> sm' = sm) \<and>
    (\<forall>r. session_manager_find node_id sm = None \<longrightarrow> found = Some r \<longrightarrow>
       (\<exists>i s. r = Session_Slot i \<and> i < 10 \<and> \<not> s_used (sm_sessions sm ! i) \<and> (\<forall>j<i. s_used (sm_sessions sm ! j)) \<and>
          sm' = sm\<lparr>sm_sessions := (sm_sessions sm)[i := s]\<rparr> \<and> s_role s = SESSION_ROLE_ROOT \<and> s_state s = SESSION_STATE_IDLE \<and>
          \<not> s_established s \<and> s_tx_counter s = 0 \<and> s_rx_counter s = 0 \<and> s_ss s = replicate 64 0 \<and> s_aes_key s = replicate 32 0 \<and>
          \<not> s_has_peer_addr s \<and> \<not> s_waiting_response s \<and> s_retry_count s = 0 \<and> s_last_activity s = now)) \<and>
    (\<forall>r. found = Some r \<longrightarrow> session_manager_find node_id sm' = Some r \<and> s_used (session_deref sm' r) \<and>
       s_node_id (session_deref sm' r) = node_id) \<and>
    (\<forall>other r. other \<noteq> node_id \<longrightarrow> session_manager_find other sm = Some r \<longrightarrow>
       session_manager_find other sm' = Some r \<and> session_deref sm' r = session_deref sm r)"
proof -
  obtain f ses where g: "sessions_get_or_create now node_id (sm_sessions sm) = (f, ses)" by fastforce
  have e: "found = map_option Session_Slot f" "sm' = sm\<lparr>sm_sessions := ses\<rparr>"
    using assms(2) g by (simp_all add: session_manager_get_or_create_def)
  have kd: "session_table.keys_distinct (sm_sessions sm)" "length (sm_sessions sm) = 10"
    using assms(1) by (auto simp: manager_inv_def)
  have "found = None \<longleftrightarrow> session_manager_find node_id sm = None \<and> (\<forall>i<10. s_used (sm_sessions sm ! i))"
    using session_table.acquire_fails_iff [of now node_id "sm_sessions sm"] g e kd by (simp add: session_manager_find_def)
  moreover have "found = None \<longrightarrow> sm' = sm" and "\<forall>r. session_manager_find node_id sm = Some r \<longrightarrow> found = Some r \<and> sm' = sm"
    using g e by (auto simp: sessions_get_or_create_def session_manager_find_def split: option.splits)
  moreover have "\<exists>i s. r = Session_Slot i \<and> i < 10 \<and> \<not> s_used (sm_sessions sm ! i) \<and> (\<forall>j<i. s_used (sm_sessions sm ! j)) \<and>
      sm' = sm\<lparr>sm_sessions := (sm_sessions sm)[i := s]\<rparr> \<and> s_role s = SESSION_ROLE_ROOT \<and> s_state s = SESSION_STATE_IDLE \<and>
      \<not> s_established s \<and> s_tx_counter s = 0 \<and> s_rx_counter s = 0 \<and> s_ss s = replicate 64 0 \<and> s_aes_key s = replicate 32 0 \<and>
      \<not> s_has_peer_addr s \<and> \<not> s_waiting_response s \<and> s_retry_count s = 0 \<and> s_last_activity s = now"
    if "session_manager_find node_id sm = None" "found = Some r" for r
    using sessions_get_or_create_miss [of now node_id "sm_sessions sm" "the f" ses] g that e kd(2)
    by (intro exI [of _ "the f"] exI [of _ "session_init now SESSION_ROLE_ROOT node_id"])
      (auto simp: session_manager_find_def session_init_fresh)
  moreover have "session_manager_find node_id sm' = Some r \<and> s_used (session_deref sm' r) \<and> s_node_id (session_deref sm' r) = node_id"
    if "found = Some r" for r
    using that e session_table.acquire_lookup [OF kd(1)] g session_table.lookup_Some [of node_id ses]
    by (auto simp: session_manager_find_def)
  moreover have "session_manager_find other sm' = Some r \<and> session_deref sm' r = session_deref sm r"
    if "other \<noteq> node_id" "session_manager_find other sm = Some r" for other r
    using that e session_table.acquire_other [OF kd(1) g _ that(1)] by (auto simp: session_manager_find_def)
  ultimately show ?thesis using manager_inv_get_or_create [OF assms] by blast
qed

theorem session_table_get_or_create_witness:
  "let sm = snd (session_manager_get_or_create 5 7 (session_manager_init 0 SESSION_ROLE_ROOT)) in
     session_manager_find 7 sm = Some (Session_Slot 0) \<and> s_last_activity (session_deref sm (Session_Slot 0)) = 5 \<and>
     session_manager_get_or_create 9 7 sm = (Some (Session_Slot 0), sm)"
proof -
  let ?sm = "session_manager_init 0 SESSION_ROLE_ROOT"
  obtain f sm' where g: "session_manager_get_or_create 5 7 ?sm = (f, sm')" by fastforce
  have "fst (session_manager_get_or_create 5 7 ?sm) = Some (Session_Slot 0) \<and> session_manager_find 7 ?sm = None"
    by code_simp
  then have f: "f = Some (Session_Slot 0)" "session_manager_find 7 ?sm = None" by (simp_all add: g)
  obtain f2 sm2 where g2: "session_manager_get_or_create 9 7 sm' = (f2, sm2)" by fastforce
  have 1: "manager_inv sm'" "session_manager_find 7 sm' = Some (Session_Slot 0)" "s_last_activity (session_deref sm' (Session_Slot 0)) = 5"
    using session_table_get_or_create [OF manager_inv_init g] f by (auto simp: session_manager_init_def)
  with session_table_get_or_create [OF 1(1) g2] g g2 show ?thesis by (simp add: Let_def)
qed

text \<open>
  C39.  The retry test is not safe against the wrap of the clock: when the deadline passes \<open>2 ^ 32\<close>, a
  session that has just been armed is due at once, with the clock that armed it.
\<close>

theorem retry_due_at_wrap:
  assumes "2 ^ 32 \<le> unat now + unat (SESSION_RETRY_TIMEOUT cs)"
  shows "session_retry_due now (session_set_pending cs now now2 mt mid s)"
proof -
  define a b where "a = unat now" and "b = unat (SESSION_RETRY_TIMEOUT cs)"
  have lt: "a < 2 ^ 32" "b < 2 ^ 32" by (simp_all add: a_def b_def)
  have "(a + b) mod 2 ^ 32 = a + b - 2 ^ 32"
    using assms lt le_mod_geq [of "2 ^ 32" "a + b"] unfolding a_def [symmetric] b_def [symmetric] by simp
  then have "unat (now + SESSION_RETRY_TIMEOUT cs) \<le> unat now"
    using lt(2) by (simp add: unat_word_ariths a_def [symmetric] b_def [symmetric])
  then show ?thesis by (simp add: session_retry_due_def session_set_pending_def session_touch_def word_le_nat_alt)
qed

theorem retry_due_at_wrap_witness: "session_retry_due 0xFFFFFFFF (session_set_pending 128 0xFFFFFFFF 0 2 1 session_zero)"
  by (rule retry_due_at_wrap) (simp_all add: SESSION_RETRY_TIMEOUT_def)

end
