(* ===== verification/Tx_Queue.thy ===== *)
theory Tx_Queue
  imports Fragmentation Session_Manager
begin

text \<open>
  The transmit queue of \<open>src/src/PQC/PQC.c\<close> (lines 8 to 215): 96 packet slots served by priority,
  preferring a node other than the one served last.  The queue's static variables are the record
  \<open>tx_state\<close>; its last field collects, in order, what has been handed to \<open>simple_udp_sendto\<close>.
  A connection is an identifier, \<open>NULL\<close> is \<^const>\<open>None\<close>.
\<close>

section \<open>State\<close>

abbreviation (input) PQC_TX_QUEUE_SIZE :: nat where "PQC_TX_QUEUE_SIZE \<equiv> 96"
abbreviation (input) PQC_TX_MAX_PACKET_LEN :: nat where "PQC_TX_MAX_PACKET_LEN \<equiv> 74"

definition PQC_TX_PRIORITY_HIGH :: u8 where "PQC_TX_PRIORITY_HIGH = 0"
definition PQC_TX_PRIORITY_NORMAL :: u8 where "PQC_TX_PRIORITY_NORMAL = 1"
definition PQC_TX_PRIORITY_LOW :: u8 where "PQC_TX_PRIORITY_LOW = 2"

lemmas tx_priority_defs = PQC_TX_PRIORITY_HIGH_def PQC_TX_PRIORITY_NORMAL_def PQC_TX_PRIORITY_LOW_def

type_synonym udp_conn = nat

record pqc_tx_entry_t =
  te_active :: bool
  te_priority :: u8
  te_node_id :: u16
  te_udp_conn :: "udp_conn option"
  te_dest :: uip_ipaddr_t
  te_len :: u16
  te_data :: "u8 list"

definition tx_entry_zero :: pqc_tx_entry_t where
  "tx_entry_zero = \<lparr>te_active = False, te_priority = 0, te_node_id = 0, te_udp_conn = None,
     te_dest = 0, te_len = 0, te_data = replicate PQC_TX_MAX_PACKET_LEN 0\<rparr>"

record tx_state =
  tx_queue :: "pqc_tx_entry_t list"
  tx_tail :: u8
  tx_count :: u8
  tx_last_node_id :: u16
  tx_out :: "(udp_conn \<times> uip_ipaddr_t \<times> u8 list) list"

record pqc_udp_send_ctx_t =
  uc_udp_conn :: "udp_conn option"
  uc_dest :: "uip_ipaddr_t option"

section \<open>Operations\<close>

definition pqc_tx_priority_for_msg :: "u8 \<Rightarrow> u8" where
  "pqc_tx_priority_for_msg msg_type =
     (if msg_type = PQC_MSG_ACK \<or> msg_type = PQC_MSG_NACK \<or> msg_type = PQC_MSG_GETPK
      then PQC_TX_PRIORITY_HIGH
      else if msg_type = PQC_MSG_PK \<or> msg_type = PQC_MSG_CT \<or> msg_type = PQC_MSG_TEMP
      then PQC_TX_PRIORITY_NORMAL
      else PQC_TX_PRIORITY_LOW)"

definition pqc_tx_find_free_slot :: "tx_state \<Rightarrow> nat option \<times> tx_state" where
  "pqc_tx_find_free_slot tx =
     (case first_index (\<lambda>checked. \<not> te_active (tx_queue tx ! ((unat (tx_tail tx) + checked) mod PQC_TX_QUEUE_SIZE)))
             PQC_TX_QUEUE_SIZE of
        None \<Rightarrow> (None, tx)
      | Some checked \<Rightarrow>
          let idx = (unat (tx_tail tx) + checked) mod PQC_TX_QUEUE_SIZE
          in (Some idx, tx\<lparr>tx_tail := of_nat idx\<rparr>))"

text \<open>The inner loop over the slots; \<open>first\<close> is \<^const>\<open>None\<close> while the C variable is negative.\<close>

fun tx_select_scan :: "tx_state \<Rightarrow> u8 \<Rightarrow> nat list \<Rightarrow> nat option \<Rightarrow> nat option" where
  "tx_select_scan tx priority [] first = first"
| "tx_select_scan tx priority (i # is) first =
     (let entry = tx_queue tx ! i in
      if \<not> te_active entry \<or> te_priority entry \<noteq> priority then tx_select_scan tx priority is first
      else
        let first = (if first = None then Some i else first) in
        if te_node_id entry \<noteq> tx_last_node_id tx then Some i
        else tx_select_scan tx priority is first)"

fun tx_select_priority :: "tx_state \<Rightarrow> u8 list \<Rightarrow> nat option" where
  "tx_select_priority tx [] = None"
| "tx_select_priority tx (priority # ps) =
     (case tx_select_scan tx priority [0..<PQC_TX_QUEUE_SIZE] None of
        Some i \<Rightarrow> Some i
      | None \<Rightarrow> tx_select_priority tx ps)"

definition pqc_tx_select_slot :: "tx_state \<Rightarrow> nat option" where
  "pqc_tx_select_slot tx =
     tx_select_priority tx [PQC_TX_PRIORITY_HIGH, PQC_TX_PRIORITY_NORMAL, PQC_TX_PRIORITY_LOW]"

definition pqc_tx_clear_entry :: "nat \<Rightarrow> tx_state \<Rightarrow> tx_state" where
  "pqc_tx_clear_entry idx tx =
     (if PQC_TX_QUEUE_SIZE \<le> idx \<or> \<not> te_active (tx_queue tx ! idx) then tx
      else
        let tx = tx\<lparr>tx_queue := (tx_queue tx)[idx := tx_entry_zero]\<rparr>
        in if 0 < tx_count tx then tx\<lparr>tx_count := tx_count tx - 1\<rparr> else tx)"

definition pqc_tx_init :: "tx_state \<Rightarrow> tx_state" where
  "pqc_tx_init tx =
     tx\<lparr>tx_queue := replicate PQC_TX_QUEUE_SIZE tx_entry_zero, tx_tail := 0, tx_count := 0,
        tx_last_node_id := SESSION_INVALID_NODE_ID\<rparr>"

definition pqc_tx_has_pending :: "tx_state \<Rightarrow> bool" where
  "pqc_tx_has_pending tx \<longleftrightarrow> 0 < tx_count tx"

definition pqc_tx_free_slots :: "tx_state \<Rightarrow> u8" where
  "pqc_tx_free_slots tx = of_nat PQC_TX_QUEUE_SIZE - tx_count tx"

text \<open>The loop that both drop operations run, for a test on the entries.\<close>

fun tx_drop_loop :: "(pqc_tx_entry_t \<Rightarrow> bool) \<Rightarrow> nat list \<Rightarrow> u8 \<Rightarrow> tx_state \<Rightarrow> u8 \<times> tx_state" where
  "tx_drop_loop test [] dropped tx = (dropped, tx)"
| "tx_drop_loop test (i # is) dropped tx =
     (if te_active (tx_queue tx ! i) \<and> test (tx_queue tx ! i)
      then tx_drop_loop test is (dropped + 1) (pqc_tx_clear_entry i tx)
      else tx_drop_loop test is dropped tx)"

definition pqc_tx_drop :: "u16 \<Rightarrow> u8 \<Rightarrow> u8 \<Rightarrow> tx_state \<Rightarrow> u8 \<times> tx_state" where
  "pqc_tx_drop node_id msg_type msg_id tx =
     tx_drop_loop (\<lambda>e. te_node_id e = node_id \<and> PQC_HEADER_LEN \<le> unat (te_len e) \<and>
                       te_data e ! PQC_HDR_MSG_TYPE = msg_type \<and> te_data e ! PQC_HDR_MSG_ID = msg_id)
       [0..<PQC_TX_QUEUE_SIZE] 0 tx"

definition pqc_tx_drop_node :: "u16 \<Rightarrow> tx_state \<Rightarrow> u8 \<times> tx_state" where
  "pqc_tx_drop_node node_id tx =
     tx_drop_loop (\<lambda>e. te_node_id e = node_id) [0..<PQC_TX_QUEUE_SIZE] 0 tx"

definition pqc_tx_process :: "tx_state \<Rightarrow> bool \<times> tx_state" where
  "pqc_tx_process tx =
     (if tx_count tx = 0 then (False, tx)
      else
        case pqc_tx_select_slot tx of
          None \<Rightarrow> (False, tx)
        | Some idx \<Rightarrow>
            let entry = tx_queue tx ! idx;
                tx = (case te_udp_conn entry of
                        Some conn \<Rightarrow>
                          (if te_active entry
                           then tx\<lparr>tx_out := tx_out tx @ [(conn, te_dest entry, take (unat (te_len entry)) (te_data entry))]\<rparr>
                           else tx)
                      | None \<Rightarrow> tx);
                tx = tx\<lparr>tx_last_node_id := te_node_id entry\<rparr>;
                tx = tx\<lparr>tx_queue := (tx_queue tx)[idx := tx_entry_zero]\<rparr>
            in (True, tx\<lparr>tx_count := tx_count tx - 1\<rparr>))"

definition pqc_udp_send_fragment :: "pqc_udp_send_ctx_t \<Rightarrow> u8 list \<Rightarrow> u16 \<Rightarrow> tx_state \<Rightarrow> bool \<times> tx_state" where
  "pqc_udp_send_fragment ctx data len tx =
     (case (uc_udp_conn ctx, uc_dest ctx) of
        (Some conn, Some dest) \<Rightarrow>
          (if len = 0 \<or> PQC_TX_MAX_PACKET_LEN < unat len \<or>
              PQC_TX_QUEUE_SIZE \<le> unat (tx_count tx) \<or> \<not> pqc_header_valid data len
           then (False, tx)
           else
             case pqc_tx_find_free_slot tx of
               (None, tx) \<Rightarrow> (False, tx)
             | (Some idx, tx) \<Rightarrow>
                 let msg_type = data ! PQC_HDR_MSG_TYPE;
                     entry = (tx_queue tx ! idx)\<lparr>te_active := True,
                               te_priority := pqc_tx_priority_for_msg msg_type,
                               te_node_id := pqc_header_get_node_id data,
                               te_udp_conn := Some conn, te_dest := dest, te_len := len,
                               te_data := memcpy_at (te_data (tx_queue tx ! idx)) 0 (take (unat len) data)\<rparr>
                 in (True, tx\<lparr>tx_queue := (tx_queue tx)[idx := entry],
                              tx_tail := of_nat ((idx + 1) mod PQC_TX_QUEUE_SIZE),
                              tx_count := tx_count tx + 1\<rparr>))
      | _ \<Rightarrow> (False, tx))"

section \<open>Invariant\<close>

definition tx_entry_ok :: "pqc_tx_entry_t \<Rightarrow> bool" where
  "tx_entry_ok e \<longleftrightarrow> length (te_data e) = 74 \<and>
     (te_active e \<longrightarrow> te_udp_conn e \<noteq> None \<and> packet_ok (te_data e) (te_len e) \<and>
        te_priority e = pqc_tx_priority_for_msg (te_data e ! 1) \<and>
        te_node_id e = pqc_header_get_node_id (te_data e))"

definition tx_inv :: "tx_state \<Rightarrow> bool" where
  "tx_inv tx \<longleftrightarrow> length (tx_queue tx) = 96 \<and> unat (tx_tail tx) < 96 \<and>
     unat (tx_count tx) = count_if te_active (tx_queue tx) \<and> (\<forall>e\<in>set (tx_queue tx). tx_entry_ok e)"

lemma tx_inv_le: "tx_inv tx \<Longrightarrow> unat (tx_count tx) \<le> 96"
  using count_if_le [of te_active "tx_queue tx"] by (simp add: tx_inv_def)

lemma tx_entry_zero_ok [simp]: "tx_entry_ok tx_entry_zero" "\<not> te_active tx_entry_zero"
  by (simp_all add: tx_entry_ok_def tx_entry_zero_def)

lemma tx_inv_init: "tx_inv (pqc_tx_init tx)"
  by (simp add: tx_inv_def pqc_tx_init_def)

text \<open>The packets waiting in the queue.\<close>

definition tx_packet :: "pqc_tx_entry_t \<Rightarrow> u8 list" where
  "tx_packet e = take (unat (te_len e)) (te_data e)"

definition tx_pending :: "tx_state \<Rightarrow> u8 list multiset" where
  "tx_pending tx = mset (map tx_packet (filter te_active (tx_queue tx)))"

definition tx_free :: "tx_state \<Rightarrow> nat" where
  "tx_free tx = 96 - unat (tx_count tx)"

lemma tx_free_slots_unat: "tx_inv tx \<Longrightarrow> unat (pqc_tx_free_slots tx) = tx_free tx"
  using tx_inv_le [of tx] by (simp add: pqc_tx_free_slots_def tx_free_def unat_sub word_le_nat_alt)

lemma size_tx_pending: "tx_inv tx \<Longrightarrow> size (tx_pending tx) = unat (tx_count tx)"
  unfolding tx_pending_def size_mset by (simp add: tx_inv_def count_if_def)

text \<open>Replacing one slot adds or removes one packet.\<close>

lemma filter_update_mset:
  assumes "i < length xs"
  shows "mset (map f (filter P (xs[i := v]))) + (if P (xs ! i) then {#f (xs ! i)#} else {#}) =
    mset (map f (filter P xs)) + (if P v then {#f v#} else {#})"
  using assms
proof (induction xs arbitrary: i)
  case (Cons x xs)
  then show ?case using Cons.IH [of "i - 1"] by (cases i) auto
qed simp

lemma tx_pending_insert:
  assumes "i < length (tx_queue tx)" "\<not> te_active (tx_queue tx ! i)" "te_active e"
  shows "mset (map tx_packet (filter te_active ((tx_queue tx)[i := e]))) =
    add_mset (tx_packet e) (tx_pending tx)"
  using filter_update_mset [of i "tx_queue tx" tx_packet te_active e] assms by (simp add: tx_pending_def)

lemma tx_pending_remove:
  assumes "i < length (tx_queue tx)" "te_active (tx_queue tx ! i)"
  shows "add_mset (tx_packet (tx_queue tx ! i))
      (mset (map tx_packet (filter te_active ((tx_queue tx)[i := tx_entry_zero])))) = tx_pending tx"
  using filter_update_mset [of i "tx_queue tx" tx_packet te_active tx_entry_zero] assms
  by (simp add: tx_pending_def)

section \<open>Enqueueing\<close>

lemma tx_find_free_slot:
  assumes "tx_inv tx"
  shows "unat (tx_count tx) < 96 \<Longrightarrow>
      \<exists>idx. pqc_tx_find_free_slot tx = (Some idx, tx\<lparr>tx_tail := of_nat idx\<rparr>) \<and>
        idx < 96 \<and> \<not> te_active (tx_queue tx ! idx)"
    and "unat (tx_count tx) = 96 \<Longrightarrow> pqc_tx_find_free_slot tx = (None, tx)"
proof -
  let ?t = "unat (tx_tail tx)"
  let ?P = "\<lambda>c. \<not> te_active (tx_queue tx ! ((?t + c) mod 96))"
  have len: "length (tx_queue tx) = 96" and t: "?t < 96" using assms by (auto simp: tx_inv_def)
  show "\<exists>idx. pqc_tx_find_free_slot tx = (Some idx, tx\<lparr>tx_tail := of_nat idx\<rparr>) \<and>
        idx < 96 \<and> \<not> te_active (tx_queue tx ! idx)" if "unat (tx_count tx) < 96"
  proof -
    have "count_if te_active (tx_queue tx) \<noteq> length (tx_queue tx)" using that assms len by (simp add: tx_inv_def)
    then obtain i where i: "i < 96" "\<not> te_active (tx_queue tx ! i)"
      using len count_if_full_iff [of te_active "tx_queue tx"] by (metis in_set_conv_nth)
    have "(?t + (i + 96 - ?t) mod 96) mod 96 = i" using i(1) t by (simp add: mod_add_right_eq)
    then obtain c where c: "first_index ?P 96 = Some c"
      using first_index_exI [of "(i + 96 - ?t) mod 96" 96 ?P] i by auto
    then have "?P c" by (rule first_index_SomeD)
    with c show ?thesis by (simp add: pqc_tx_find_free_slot_def Let_def)
  qed
  show "pqc_tx_find_free_slot tx = (None, tx)" if "unat (tx_count tx) = 96"
  proof -
    have "\<forall>e\<in>set (tx_queue tx). te_active e"
      using that assms len count_if_full_iff [of te_active "tx_queue tx"] by (simp add: tx_inv_def)
    then have "first_index ?P 96 = None" using len by (auto simp: first_index_None)
    then show ?thesis by (simp add: pqc_tx_find_free_slot_def)
  qed
qed

lemma tx_send_accept:
  assumes inv: "tx_inv tx" and room: "unat (tx_count tx) < 96" and ok: "packet_ok d n"
    and ctx: "uc_udp_conn ctx = Some conn" "uc_dest ctx = Some dest"
  shows "\<exists>tx'. pqc_udp_send_fragment ctx d n tx = (True, tx') \<and> tx_inv tx' \<and>
    tx_pending tx' = add_mset (take (unat n) d) (tx_pending tx) \<and>
    unat (tx_count tx') = Suc (unat (tx_count tx)) \<and> tx_out tx' = tx_out tx \<and>
    tx_last_node_id tx' = tx_last_node_id tx"
proof -
  obtain idx where idx: "pqc_tx_find_free_slot tx = (Some idx, tx\<lparr>tx_tail := of_nat idx\<rparr>)" "idx < 96"
      "\<not> te_active (tx_queue tx ! idx)"
    using tx_find_free_slot(1) [OF inv room] by auto
  have len: "length (tx_queue tx) = 96" and eok: "tx_entry_ok (tx_queue tx ! idx)"
    using inv idx(2) by (auto simp: tx_inv_def)
  have n: "pqc_header_valid d n" "unat n \<le> 74" "unat n \<le> length d" using ok by (auto simp: packet_ok_def)
  have ln: "10 \<le> unat n" using header_valid_length [OF n(1)] by simp
  then have n0: "n \<noteq> 0" by auto
  let ?data = "memcpy_at (te_data (tx_queue tx ! idx)) 0 (take (unat n) d)"
  let ?e = "(tx_queue tx ! idx)\<lparr>te_active := True, te_priority := pqc_tx_priority_for_msg (d ! 1),
      te_node_id := pqc_header_get_node_id d, te_udp_conn := Some conn, te_dest := dest, te_len := n,
      te_data := ?data\<rparr>"
  let ?tx = "tx\<lparr>tx_queue := (tx_queue tx)[idx := ?e], tx_tail := of_nat ((idx + 1) mod 96),
      tx_count := tx_count tx + 1\<rparr>"
  have send: "pqc_udp_send_fragment ctx d n tx = (True, ?tx)"
    using n n0 room idx(1) ctx by (simp add: pqc_udp_send_fragment_def Let_def)
  have dl: "length ?data = 74" using eok n(2,3) by (simp add: tx_entry_ok_def)
  have dn: "?data ! k = d ! k" if "k < 10" for k
    using that ln n(2,3) eok by (subst nth_memcpy_at) (auto simp: tx_entry_ok_def)
  have "pqc_header_valid ?data n = pqc_header_valid d n"
    by (simp add: pqc_header_valid_def dn)
  moreover have "pqc_header_get_node_id ?data = pqc_header_get_node_id d"
    by (simp add: pqc_header_get_node_id_def dn)
  ultimately have e: "tx_entry_ok ?e" using n dl dn by (simp add: tx_entry_ok_def packet_ok_def)
  have c: "unat (tx_count tx + 1) = Suc (unat (tx_count tx))" using room by (intro unat_Suc_small) simp
  have "(idx + 1) mod 96 < 96" by simp
  then have "unat (of_nat ((idx + 1) mod 96) :: u8) < 96" by (subst unat_of_nat_u8) auto
  moreover have "count_if te_active ((tx_queue tx)[idx := ?e]) = Suc (count_if te_active (tx_queue tx))"
    using idx(2,3) len by (intro count_if_set) auto
  moreover have "\<forall>e\<in>set ((tx_queue tx)[idx := ?e]). tx_entry_ok e"
    using e inv set_update_subset_insert [of "tx_queue tx" idx ?e] by (auto simp: tx_inv_def)
  ultimately have "tx_inv ?tx" using inv c len by (simp add: tx_inv_def)
  moreover have "tx_packet ?e = take (unat n) d"
    using n(2,3) eok by (simp add: tx_packet_def memcpy_at_def tx_entry_ok_def)
  then have "tx_pending ?tx = add_mset (take (unat n) d) (tx_pending tx)"
    using tx_pending_insert [of idx tx ?e] idx(2,3) len by (simp add: tx_pending_def)
  ultimately show ?thesis using send c by simp
qed

lemma tx_send_full:
  "tx_inv tx \<Longrightarrow> unat (tx_count tx) = 96 \<Longrightarrow> pqc_udp_send_fragment ctx d n tx = (False, tx)"
  by (auto simp: pqc_udp_send_fragment_def split: option.splits)

text \<open>The queue is the sender that the fragmentation layer relies on.\<close>

interpretation tx_sender: packet_sender
  "pqc_udp_send_fragment \<lparr>uc_udp_conn = Some conn, uc_dest = Some dest\<rparr>" tx_inv tx_pending tx_free
  for conn dest
proof
  fix w d n assume inv: "tx_inv w"
  show "\<exists>w'. pqc_udp_send_fragment \<lparr>uc_udp_conn = Some conn, uc_dest = Some dest\<rparr> d n w = (True, w') \<and>
      tx_inv w' \<and> tx_pending w' = add_mset (take (unat n) d) (tx_pending w) \<and> Suc (tx_free w') = tx_free w"
    if "0 < tx_free w" "packet_ok d n"
    using tx_send_accept [OF inv _ that(2), of "\<lparr>uc_udp_conn = Some conn, uc_dest = Some dest\<rparr>" conn dest] that(1)
    by (fastforce simp: tx_free_def)
  show "pqc_udp_send_fragment \<lparr>uc_udp_conn = Some conn, uc_dest = Some dest\<rparr> d n w = (False, w)"
    if "tx_free w = 0"
    using that tx_inv_le [OF inv] by (intro tx_send_full inv) (simp add: tx_free_def)
qed

section \<open>Selecting and sending\<close>

definition tx_candidate :: "tx_state \<Rightarrow> u8 \<Rightarrow> nat \<Rightarrow> bool" where
  "tx_candidate tx p i \<longleftrightarrow> te_active (tx_queue tx ! i) \<and> te_priority (tx_queue tx ! i) = p"

lemma tx_select_scan_eq:
  "tx_select_scan tx p is first =
     (case find (\<lambda>i. tx_candidate tx p i \<and> te_node_id (tx_queue tx ! i) \<noteq> tx_last_node_id tx) is of
        Some i \<Rightarrow> Some i
      | None \<Rightarrow> (if first = None then find (tx_candidate tx p) is else first))"
  by (induction "is" arbitrary: first) (auto simp: Let_def tx_candidate_def split: option.splits)

lemma tx_select_scan_Some:
  assumes "tx_select_scan tx p [0..<96] None = Some i"
  shows "i < 96" "tx_candidate tx p i"
    and "j < 96 \<Longrightarrow> tx_candidate tx p j \<Longrightarrow> te_node_id (tx_queue tx ! j) \<noteq> tx_last_node_id tx \<Longrightarrow>
      te_node_id (tx_queue tx ! i) \<noteq> tx_last_node_id tx"
  using assms by (auto simp: tx_select_scan_eq find_Some_iff find_None_iff split: option.splits)

lemma tx_select_scan_None:
  "tx_select_scan tx p [0..<96] None = None \<longleftrightarrow> (\<forall>i<96. \<not> tx_candidate tx p i)"
  by (auto simp: tx_select_scan_eq find_Some_iff find_None_iff split: option.splits)

lemma tx_entry_priority:
  "tx_entry_ok e \<Longrightarrow> te_active e \<Longrightarrow> te_priority e \<in> {0, 1, 2}"
  by (auto simp: tx_entry_ok_def pqc_tx_priority_for_msg_def tx_priority_defs)

lemma tx_select_slot_scans:
  "pqc_tx_select_slot tx = None \<longleftrightarrow> tx_select_scan tx 0 [0..<96] None = None \<and>
     tx_select_scan tx 1 [0..<96] None = None \<and> tx_select_scan tx 2 [0..<96] None = None"
  "pqc_tx_select_slot tx = Some i \<longleftrightarrow> tx_select_scan tx 0 [0..<96] None = Some i \<or>
     tx_select_scan tx 0 [0..<96] None = None \<and> (tx_select_scan tx 1 [0..<96] None = Some i \<or>
     tx_select_scan tx 1 [0..<96] None = None \<and> tx_select_scan tx 2 [0..<96] None = Some i)"
  by (auto simp: pqc_tx_select_slot_def tx_priority_defs split: option.splits)

lemma tx_select_slot_None:
  assumes "tx_inv tx"
  shows "pqc_tx_select_slot tx = None \<longleftrightarrow> tx_count tx = 0"
proof -
  have len: "length (tx_queue tx) = 96" using assms by (simp add: tx_inv_def)
  have pr: "te_priority (tx_queue tx ! i) \<in> {0, 1, 2}" if "i < 96" "te_active (tx_queue tx ! i)" for i
    using assms that len by (intro tx_entry_priority) (auto simp: tx_inv_def)
  have "pqc_tx_select_slot tx = None \<longleftrightarrow> (\<forall>p\<in>{0, 1, 2}. \<forall>i<96. \<not> tx_candidate tx p i)"
    unfolding tx_select_slot_scans(1) tx_select_scan_None by simp
  also have "\<dots> \<longleftrightarrow> (\<forall>i<96. \<not> te_active (tx_queue tx ! i))"
    using pr unfolding tx_candidate_def by blast
  also have "\<dots> \<longleftrightarrow> tx_count tx = 0"
    using assms len count_if_0_iff [of te_active "tx_queue tx"]
    by (auto simp: tx_inv_def all_set_conv_all_nth unat_eq_0 [symmetric] simp del: unat_eq_0)
  finally show ?thesis .
qed

text \<open>
  The selected packet has the best priority in the queue, and belongs to another node than the
  one served last whenever some packet of that priority does.
\<close>

lemma tx_select_slot_Some:
  assumes inv: "tx_inv tx" and sel: "pqc_tx_select_slot tx = Some i"
  shows "i < 96" "te_active (tx_queue tx ! i)"
    and "\<And>j. j < 96 \<Longrightarrow> te_active (tx_queue tx ! j) \<Longrightarrow>
      te_priority (tx_queue tx ! i) \<le> te_priority (tx_queue tx ! j)"
    and "\<And>j. j < 96 \<Longrightarrow> te_active (tx_queue tx ! j) \<Longrightarrow>
      te_priority (tx_queue tx ! j) = te_priority (tx_queue tx ! i) \<Longrightarrow>
      te_node_id (tx_queue tx ! j) \<noteq> tx_last_node_id tx \<Longrightarrow>
      te_node_id (tx_queue tx ! i) \<noteq> tx_last_node_id tx"
proof -
  have len: "length (tx_queue tx) = 96" using inv by (simp add: tx_inv_def)
  have "\<exists>p. tx_select_scan tx p [0..<96] None = Some i \<and>
      (\<forall>q\<in>{0, 1, 2}. q < p \<longrightarrow> tx_select_scan tx q [0..<96] None = None)" (is "\<exists>p. ?Q p")
    using sel exI [of ?Q 0] exI [of ?Q 1] exI [of ?Q 2] unfolding tx_select_slot_scans(2) by auto
  then obtain p where p: "tx_select_scan tx p [0..<96] None = Some i"
    and less: "\<And>q. q < p \<Longrightarrow> q \<in> {0, 1, 2} \<Longrightarrow> tx_select_scan tx q [0..<96] None = None" by blast
  note sp = tx_select_scan_Some [OF p]
  show "i < 96" by (rule sp)
  show "te_active (tx_queue tx ! i)" using sp(2) by (simp add: tx_candidate_def)
  have pi: "te_priority (tx_queue tx ! i) = p" using sp(2) by (simp add: tx_candidate_def)
  show "te_priority (tx_queue tx ! i) \<le> te_priority (tx_queue tx ! j)"
    if j: "j < 96" "te_active (tx_queue tx ! j)" for j
  proof (rule ccontr)
    assume "\<not> ?thesis"
    moreover have "te_priority (tx_queue tx ! j) \<in> {0, 1, 2}"
      using tx_entry_priority inv j len by (auto simp: tx_inv_def)
    ultimately have "tx_select_scan tx (te_priority (tx_queue tx ! j)) [0..<96] None = None"
      using less pi by auto
    with j show False by (auto simp: tx_select_scan_None tx_candidate_def)
  qed
  show "te_node_id (tx_queue tx ! i) \<noteq> tx_last_node_id tx"
    if "j < 96" "te_active (tx_queue tx ! j)" "te_priority (tx_queue tx ! j) = te_priority (tx_queue tx ! i)"
      "te_node_id (tx_queue tx ! j) \<noteq> tx_last_node_id tx" for j
    using sp(3) [of j] that pi by (simp add: tx_candidate_def)
qed

text \<open>Among the slots that could be served it is the first of the array.\<close>

lemma tx_select_scan_first:
  assumes "tx_select_scan tx p [0..<96] None = Some i" "j < i" "tx_candidate tx p j"
  shows "te_node_id (tx_queue tx ! i) \<noteq> tx_last_node_id tx \<and> te_node_id (tx_queue tx ! j) = tx_last_node_id tx"
  using assms by (auto simp: tx_select_scan_eq find_Some_iff find_None_iff split: option.splits)

lemma tx_select_slot_first:
  assumes "pqc_tx_select_slot tx = Some i" "j < i" "te_active (tx_queue tx ! j)"
    and "te_priority (tx_queue tx ! j) = te_priority (tx_queue tx ! i)"
  shows "te_node_id (tx_queue tx ! i) \<noteq> tx_last_node_id tx \<and> te_node_id (tx_queue tx ! j) = tx_last_node_id tx"
proof -
  from assms(1) obtain p where p: "tx_select_scan tx p [0..<96] None = Some i"
    unfolding tx_select_slot_scans(2) by blast
  then have "tx_candidate tx p j" using tx_select_scan_Some(2) [OF p] assms(3,4) by (simp add: tx_candidate_def)
  with p assms(2) show ?thesis by (rule tx_select_scan_first)
qed

lemma tx_process_empty: "tx_count tx = 0 \<Longrightarrow> pqc_tx_process tx = (False, tx)"
  by (simp add: pqc_tx_process_def)

lemma tx_inv_clear_slot:
  assumes "tx_inv tx" "i < 96" "te_active (tx_queue tx ! i)"
    and "tx_queue tx' = (tx_queue tx)[i := tx_entry_zero]" "tx_tail tx' = tx_tail tx"
    and "tx_count tx' = tx_count tx - 1"
  shows "tx_inv tx'" and "add_mset (tx_packet (tx_queue tx ! i)) (tx_pending tx') = tx_pending tx"
    and "Suc (unat (tx_count tx')) = unat (tx_count tx)" and "tx_count tx \<noteq> 0"
proof -
  have len: "length (tx_queue tx) = 96" using assms(1) by (simp add: tx_inv_def)
  have c: "Suc (count_if te_active (tx_queue tx')) = unat (tx_count tx)"
    using count_if_clear [of i "tx_queue tx" te_active tx_entry_zero] assms len by (simp add: tx_inv_def)
  then show n0: "tx_count tx \<noteq> 0" by auto
  then have u: "unat (tx_count tx') = unat (tx_count tx) - 1"
    unfolding assms(6) by (subst unat_sub) (auto simp: word_le_nat_alt unat_gt_0 Suc_leI)
  have "\<forall>e\<in>set (tx_queue tx'). tx_entry_ok e"
    using assms(1,4) set_update_subset_insert [of "tx_queue tx" i tx_entry_zero] by (auto simp: tx_inv_def)
  with c u len assms(1,4,5) show "tx_inv tx'" by (simp add: tx_inv_def)
  show "Suc (unat (tx_count tx')) = unat (tx_count tx)" using u c by simp
  show "add_mset (tx_packet (tx_queue tx ! i)) (tx_pending tx') = tx_pending tx"
    using tx_pending_remove [of i tx] assms len by (simp add: tx_pending_def)
qed

text \<open>Each call with a non-empty queue sends exactly one waiting packet.\<close>

lemma tx_process_step:
  assumes inv: "tx_inv tx" and "tx_count tx \<noteq> 0"
  shows "\<exists>i tx' conn. pqc_tx_select_slot tx = Some i \<and> pqc_tx_process tx = (True, tx') \<and> tx_inv tx' \<and>
    te_udp_conn (tx_queue tx ! i) = Some conn \<and>
    tx_out tx' = tx_out tx @ [(conn, te_dest (tx_queue tx ! i), tx_packet (tx_queue tx ! i))] \<and>
    add_mset (tx_packet (tx_queue tx ! i)) (tx_pending tx') = tx_pending tx \<and>
    Suc (unat (tx_count tx')) = unat (tx_count tx) \<and>
    tx_last_node_id tx' = te_node_id (tx_queue tx ! i) \<and> tx_queue tx' = (tx_queue tx)[i := tx_entry_zero]"
proof -
  obtain i where i: "pqc_tx_select_slot tx = Some i"
    using tx_select_slot_None [OF inv] assms(2) by auto
  note sl = tx_select_slot_Some(1,2) [OF inv i]
  have "tx_entry_ok (tx_queue tx ! i)" using inv sl(1) by (auto simp: tx_inv_def)
  then obtain conn where conn: "te_udp_conn (tx_queue tx ! i) = Some conn"
    using sl(2) by (auto simp: tx_entry_ok_def)
  let ?tx = "tx\<lparr>tx_queue := (tx_queue tx)[i := tx_entry_zero], tx_count := tx_count tx - 1,
      tx_last_node_id := te_node_id (tx_queue tx ! i),
      tx_out := tx_out tx @ [(conn, te_dest (tx_queue tx ! i), tx_packet (tx_queue tx ! i))]\<rparr>"
  have "pqc_tx_process tx = (True, ?tx)"
    using assms(2) i sl(2) conn by (simp add: pqc_tx_process_def tx_packet_def Let_def)
  with i conn tx_inv_clear_slot [OF inv sl, of ?tx] show ?thesis by auto
qed

text \<open>Calling \<open>pqc_tx_process\<close> \<open>n\<close> times.\<close>

fun tx_process_n :: "nat \<Rightarrow> tx_state \<Rightarrow> tx_state" where
  "tx_process_n 0 tx = tx"
| "tx_process_n (Suc n) tx = tx_process_n n (snd (pqc_tx_process tx))"

lemma tx_process_n_drains:
  assumes "tx_inv tx" and "unat (tx_count tx) = n"
  shows "tx_inv (tx_process_n n tx) \<and> tx_count (tx_process_n n tx) = 0 \<and>
    (\<exists>sent. tx_out (tx_process_n n tx) = tx_out tx @ sent \<and>
       mset (map (\<lambda>(c, d, p). p) sent) = tx_pending tx)"
  using assms
proof (induction n arbitrary: tx)
  case 0
  then have "tx_pending tx = {#}" using size_tx_pending [of tx] by simp
  with 0 show ?case by (simp add: unat_eq_0)
next
  case (Suc n)
  then have "tx_count tx \<noteq> 0" by auto
  then obtain i tx' conn where st: "pqc_tx_process tx = (True, tx')" "tx_inv tx'"
      "tx_out tx' = tx_out tx @ [(conn, te_dest (tx_queue tx ! i), tx_packet (tx_queue tx ! i))]"
      "add_mset (tx_packet (tx_queue tx ! i)) (tx_pending tx') = tx_pending tx"
      "Suc (unat (tx_count tx')) = unat (tx_count tx)"
    using tx_process_step [OF Suc.prems(1)] by blast
  from Suc.IH [OF st(2)] st(5) Suc.prems(2) obtain sent where
    "tx_inv (tx_process_n n tx')" "tx_count (tx_process_n n tx') = 0"
    "tx_out (tx_process_n n tx') = tx_out tx' @ sent" "mset (map (\<lambda>(c, d, p). p) sent) = tx_pending tx'"
    by auto
  with st show ?case by (auto intro!: exI [of _ "(conn, te_dest (tx_queue tx ! i), tx_packet (tx_queue tx ! i)) # sent"])
qed

section \<open>Dropping\<close>

lemma tx_clear_entry_step:
  assumes "tx_inv tx" "i < 96" "te_active (tx_queue tx ! i)"
  shows "pqc_tx_clear_entry i tx =
      tx\<lparr>tx_queue := (tx_queue tx)[i := tx_entry_zero], tx_count := tx_count tx - 1\<rparr>"
    and "tx_inv (pqc_tx_clear_entry i tx)"
proof -
  let ?tx = "tx\<lparr>tx_queue := (tx_queue tx)[i := tx_entry_zero], tx_count := tx_count tx - 1\<rparr>"
  have "tx_inv ?tx" "tx_count tx \<noteq> 0"
    using tx_inv_clear_slot [OF assms, of ?tx] by simp_all
  moreover from this(2) show "pqc_tx_clear_entry i tx = ?tx"
    using assms by (simp add: pqc_tx_clear_entry_def Let_def word_neq_0_conv)
  ultimately show "tx_inv (pqc_tx_clear_entry i tx)" by simp
qed

definition tx_kept :: "(pqc_tx_entry_t \<Rightarrow> bool) \<Rightarrow> pqc_tx_entry_t \<Rightarrow> pqc_tx_entry_t" where
  "tx_kept test e = (if te_active e \<and> test e then tx_entry_zero else e)"

lemma tx_drop_loop_spec:
  assumes "tx_inv tx" and "n \<le> 96" and "tx_drop_loop test [96 - n..<96] d tx = (d', tx')"
  shows "tx_inv tx' \<and> tx_queue tx' = take (96 - n) (tx_queue tx) @ map (tx_kept test) (drop (96 - n) (tx_queue tx)) \<and>
    tx_out tx' = tx_out tx \<and> tx_last_node_id tx' = tx_last_node_id tx \<and>
    d' = d + of_nat (count_if (\<lambda>e. te_active e \<and> test e) (drop (96 - n) (tx_queue tx)))"
  using assms
proof (induction n arbitrary: tx d)
  case 0
  then show ?case by (simp add: tx_inv_def)
next
  case (Suc n)
  let ?i = "96 - Suc n" and ?q = "tx_queue tx"
  have len: "length ?q = 96" using Suc.prems(1) by (simp add: tx_inv_def)
  have i: "?i < 96" "Suc ?i = 96 - n" using Suc.prems(2) by auto
  have up: "[?i..<96] = ?i # [96 - n..<96]" using i by (simp add: upt_conv_Cons)
  have dr: "drop ?i ?q = ?q ! ?i # drop (96 - n) ?q" using Cons_nth_drop_Suc [of ?i ?q] i len by simp
  have tk: "take (96 - n) ?q = take ?i ?q @ [?q ! ?i]"
    using take_Suc_conv_app_nth [of ?i ?q] i len by simp
  show ?case
  proof (cases "te_active (?q ! ?i) \<and> test (?q ! ?i)")
    case True
    let ?tx = "pqc_tx_clear_entry ?i tx"
    have cl: "?tx = tx\<lparr>tx_queue := ?q[?i := tx_entry_zero], tx_count := tx_count tx - 1\<rparr>" "tx_inv ?tx"
      using tx_clear_entry_step [OF Suc.prems(1) i(1)] True by simp_all
    have "tx_drop_loop test [96 - n..<96] (d + 1) ?tx = (d', tx')"
      using Suc.prems(3) True unfolding up by simp
    note ih = Suc.IH [OF cl(2) _ this]
    have q: "take (96 - n) (?q[?i := tx_entry_zero]) = take ?i ?q @ [tx_entry_zero]"
      "drop (96 - n) (?q[?i := tx_entry_zero]) = drop (96 - n) ?q"
      using tk i len by (simp_all add: take_update_swap list_update_append)
    have f: "tx_queue ?tx = ?q[?i := tx_entry_zero]" "tx_out ?tx = tx_out tx" "tx_last_node_id ?tx = tx_last_node_id tx"
      unfolding cl(1) by simp_all
    have "n \<le> 96" using Suc.prems(2) by simp
    from ih [OF this] True show ?thesis unfolding dr f q by (simp add: tx_kept_def)
  next
    case False
    then have "tx_drop_loop test [96 - n..<96] d tx = (d', tx')"
      using Suc.prems(3) unfolding up by auto
    from Suc.IH [OF Suc.prems(1) _ this] Suc.prems(2) False show ?thesis
      unfolding dr tk by (auto simp: tx_kept_def)
  qed
qed

lemma tx_drop_all_spec:
  assumes "tx_inv tx" and "tx_drop_loop test [0..<96] 0 tx = (d, tx')"
  shows "tx_inv tx'" and "tx_queue tx' = map (tx_kept test) (tx_queue tx)" and "tx_out tx' = tx_out tx"
    and "unat d = count_if (\<lambda>e. te_active e \<and> test e) (tx_queue tx)"
    and "unat (tx_count tx') + unat d = unat (tx_count tx)"
proof -
  have sp: "tx_inv tx'" "tx_queue tx' = map (tx_kept test) (tx_queue tx)" "tx_out tx' = tx_out tx"
      "d = of_nat (count_if (\<lambda>e. te_active e \<and> test e) (tx_queue tx))"
    using tx_drop_loop_spec [OF assms(1), of 96 test 0 d tx'] assms(2) by simp_all
  show "tx_inv tx'" "tx_queue tx' = map (tx_kept test) (tx_queue tx)" "tx_out tx' = tx_out tx" by (fact sp)+
  have le: "count_if (\<lambda>e. te_active e \<and> test e) (tx_queue tx) \<le> 96"
    using count_if_le [of _ "tx_queue tx"] assms(1) by (metis tx_inv_def)
  then show ud: "unat d = count_if (\<lambda>e. te_active e \<and> test e) (tx_queue tx)"
    unfolding sp(4) by (intro unat_of_nat_u8) simp
  have "count_if te_active (map (tx_kept test) q) + count_if (\<lambda>e. te_active e \<and> test e) q = count_if te_active q" for q
    by (induction q) (auto simp: tx_kept_def)
  then show "unat (tx_count tx') + unat d = unat (tx_count tx)"
    using sp(1,2) assms(1) ud by (simp add: tx_inv_def)
qed

section \<open>Properties\<close>

text \<open>A queue with a public-key fragment for node 1 in slot 0 and an acknowledgement for node 2 in slot 1.\<close>

definition tx_example :: tx_state where
  "tx_example = \<lparr>tx_queue =
       [\<lparr>te_active = True, te_priority = PQC_TX_PRIORITY_NORMAL, te_node_id = 1, te_udp_conn = Some 0, te_dest = 5, te_len = 10,
         te_data = pqc_header_write (replicate 74 0) PQC_MSG_PK 1 0 0 1 0 0\<rparr>,
        \<lparr>te_active = True, te_priority = PQC_TX_PRIORITY_HIGH, te_node_id = 2, te_udp_conn = Some 0, te_dest = 6, te_len = 10,
         te_data = pqc_header_write (replicate 74 0) PQC_MSG_ACK 2 0 0 1 0 0\<rparr>] @ replicate 94 tx_entry_zero,
     tx_tail = 1, tx_count = 2, tx_last_node_id = 1, tx_out = []\<rparr>"

lemma tx_example_inv: "tx_inv tx_example"
  by code_simp

lemma tx_example_select: "pqc_tx_select_slot tx_example = Some 1"
  by code_simp

text \<open>
  C25.  The send process serves the best packet and takes turns: with packets waiting it picks an active slot
  of the smallest priority value in the queue, takes one of another node than the last one served whenever
  there is one of that priority, and the first such slot of the array; it sends exactly that packet to its
  destination, clears that slot and no other, and records the packet's node as the last one served, so that
  the next call serves another node if one has a packet of the priority it chooses.  With none waiting it
  does nothing.
\<close>

theorem tx_process_serves_best:
  assumes inv: "tx_inv tx"
  shows "(tx_count tx = 0 \<longrightarrow> pqc_tx_process tx = (False, tx)) \<and>
    (tx_count tx \<noteq> 0 \<longrightarrow> (\<exists>i conn tx'. pqc_tx_select_slot tx = Some i \<and> pqc_tx_process tx = (True, tx') \<and> tx_inv tx' \<and>
       i < 96 \<and> te_active (tx_queue tx ! i) \<and> te_udp_conn (tx_queue tx ! i) = Some conn \<and>
       (\<forall>j<96. te_active (tx_queue tx ! j) \<longrightarrow> te_priority (tx_queue tx ! i) \<le> te_priority (tx_queue tx ! j)) \<and>
       (\<forall>j<96. te_active (tx_queue tx ! j) \<longrightarrow> te_priority (tx_queue tx ! j) = te_priority (tx_queue tx ! i) \<longrightarrow>
          te_node_id (tx_queue tx ! j) \<noteq> tx_last_node_id tx \<longrightarrow> te_node_id (tx_queue tx ! i) \<noteq> tx_last_node_id tx) \<and>
       (\<forall>j<i. te_active (tx_queue tx ! j) \<longrightarrow> te_priority (tx_queue tx ! j) = te_priority (tx_queue tx ! i) \<longrightarrow>
          te_node_id (tx_queue tx ! i) \<noteq> tx_last_node_id tx \<and> te_node_id (tx_queue tx ! j) = tx_last_node_id tx) \<and>
       tx_out tx' = tx_out tx @ [(conn, te_dest (tx_queue tx ! i), tx_packet (tx_queue tx ! i))] \<and>
       add_mset (tx_packet (tx_queue tx ! i)) (tx_pending tx') = tx_pending tx \<and>
       tx_queue tx' = (tx_queue tx)[i := tx_entry_zero] \<and> tx_last_node_id tx' = te_node_id (tx_queue tx ! i) \<and>
       (\<forall>k. pqc_tx_select_slot tx' = Some k \<longrightarrow>
          (\<exists>j<96. te_active (tx_queue tx' ! j) \<and> te_priority (tx_queue tx' ! j) = te_priority (tx_queue tx' ! k) \<and>
             te_node_id (tx_queue tx' ! j) \<noteq> te_node_id (tx_queue tx ! i)) \<longrightarrow>
          te_node_id (tx_queue tx' ! k) \<noteq> te_node_id (tx_queue tx ! i))))"
proof (cases "tx_count tx = 0")
  case True
  then show ?thesis by (simp add: tx_process_empty)
next
  case False
  from tx_process_step [OF inv False] obtain i tx' conn where p: "pqc_tx_select_slot tx = Some i" "pqc_tx_process tx = (True, tx')"
      "tx_inv tx'" "te_udp_conn (tx_queue tx ! i) = Some conn"
      "tx_out tx' = tx_out tx @ [(conn, te_dest (tx_queue tx ! i), tx_packet (tx_queue tx ! i))]"
      "add_mset (tx_packet (tx_queue tx ! i)) (tx_pending tx') = tx_pending tx"
      "tx_last_node_id tx' = te_node_id (tx_queue tx ! i)" "tx_queue tx' = (tx_queue tx)[i := tx_entry_zero]" by blast
  have turn: "te_node_id (tx_queue tx' ! k) \<noteq> te_node_id (tx_queue tx ! i)"
    if "pqc_tx_select_slot tx' = Some k" "j < 96" "te_active (tx_queue tx' ! j)"
      "te_priority (tx_queue tx' ! j) = te_priority (tx_queue tx' ! k)" "te_node_id (tx_queue tx' ! j) \<noteq> te_node_id (tx_queue tx ! i)" for k j
    using tx_select_slot_Some(4) [OF p(3) that(1,2,3,4)] that(5) by (simp add: p(7))
  note sel = tx_select_slot_Some [OF inv p(1)] and first = tx_select_slot_first [OF p(1)]
  show ?thesis
    using False by (intro conjI impI exI [of _ i] exI [of _ conn] exI [of _ tx'] allI) (use p sel first turn in blast)+
qed

theorem tx_process_serves_best_witness:
  "\<exists>conn tx'. pqc_tx_select_slot tx_example = Some 1 \<and> pqc_tx_process tx_example = (True, tx') \<and>
     tx_out tx' = tx_out tx_example @ [(conn, 6, tx_packet (tx_queue tx_example ! 1))] \<and>
     tx_last_node_id tx_example = 1 \<and> tx_last_node_id tx' = 2"
proof -
  have "tx_count tx_example \<noteq> 0" "te_dest (tx_queue tx_example ! 1) = 6" "tx_last_node_id tx_example = 1"
    "te_node_id (tx_queue tx_example ! 1) = 2" by (simp_all add: tx_example_def)
  with tx_process_serves_best [OF tx_example_inv] tx_example_select show ?thesis by auto
qed

text \<open>
  C26.  The queue drains: calling the send process once per waiting packet empties it, and what has been
  handed to the network meanwhile is exactly the packets that were waiting, each once.
\<close>

theorem tx_queue_drains:
  assumes "tx_inv tx"
  shows "tx_inv (tx_process_n (unat (tx_count tx)) tx) \<and> tx_count (tx_process_n (unat (tx_count tx)) tx) = 0 \<and>
    (\<exists>sent. tx_out (tx_process_n (unat (tx_count tx)) tx) = tx_out tx @ sent \<and>
       mset (map (\<lambda>(conn, dest, packet). packet) sent) = tx_pending tx)"
  using tx_process_n_drains [OF assms refl] by simp

theorem tx_queue_drains_witness:
  "tx_count (tx_process_n 2 tx_example) = 0 \<and>
   (\<exists>sent. tx_out (tx_process_n 2 tx_example) = sent \<and>
      mset (map (\<lambda>(conn, dest, packet). packet) sent) = tx_pending tx_example)"
proof -
  have "unat (tx_count tx_example) = 2" "tx_out tx_example = []" by (simp_all add: tx_example_def)
  with tx_queue_drains [OF tx_example_inv] show ?thesis by simp
qed

text \<open>
  Dropping a node's packets removes those and no others: every active slot of the node is cleared,
  every other slot keeps its contents, the result is the number removed, nothing is sent, and the
  invariant (the counter is the number of active slots) holds.
\<close>

theorem tx_drop_node_exact:
  assumes "tx_inv tx" and "pqc_tx_drop_node node_id tx = (dropped, tx')"
  shows "tx_inv tx' \<and>
    tx_queue tx' = map (\<lambda>e. if te_active e \<and> te_node_id e = node_id then tx_entry_zero else e) (tx_queue tx) \<and>
    unat dropped = length (filter (\<lambda>e. te_active e \<and> te_node_id e = node_id) (tx_queue tx)) \<and>
    unat (tx_count tx') + unat dropped = unat (tx_count tx) \<and> tx_out tx' = tx_out tx"
  using tx_drop_all_spec [OF assms(1) assms(2) [unfolded pqc_tx_drop_node_def]]
  by (simp add: tx_kept_def [abs_def] count_if_def)

theorem tx_drop_node_exact_witness:
  "\<exists>tx'. pqc_tx_drop_node 2 tx_example = (1, tx') \<and> tx_count tx' = 1 \<and> tx_queue tx' ! 0 = tx_queue tx_example ! 0 \<and>
     \<not> te_active (tx_queue tx' ! 1)"
proof -
  obtain d tx' where d: "pqc_tx_drop_node 2 tx_example = (d, tx')" by fastforce
  note p = tx_drop_node_exact [OF tx_example_inv d]
  have "unat d = 1" using p by (simp add: tx_example_def)
  moreover from this p have "unat (tx_count tx') = 1" by (simp add: tx_example_def)
  ultimately have "d = 1" "tx_count tx' = 1" by (metis unat_1 word_unat_eq_iff)+
  with d p show ?thesis by (simp add: tx_example_def)
qed

text \<open>
  C27.  Cutting a message into packets is all or stops: when the queue has a free slot for every fragment,
  exactly the fragments \<open>0\<close> to \<open>n - 1\<close> are added; otherwise the call reports failure, having filled the queue
  with the first fragments, and the invariant holds in both cases.
\<close>

theorem fragment_tx_to_queue:
  assumes "0 < length data" and "length data \<le> 4608" and "tx_inv tx"
  shows "\<exists>tx'. fragment_tx data (of_nat (length data)) mt nid mid flags
       (pqc_udp_send_fragment \<lparr>uc_udp_conn = Some conn, uc_dest = Some dest\<rparr>) tx = (frag_count data \<le> tx_free tx, tx') \<and>
     tx_inv tx' \<and> tx_free tx' = tx_free tx - frag_count data \<and>
     tx_pending tx' = tx_pending tx +
       mset (map (wire_fragment data mt nid mid flags) [0..<min (tx_free tx) (frag_count data)])"
proof (cases "frag_count data \<le> tx_free tx")
  case True
  from tx_sender.fragment_tx_room [OF assms True, of mt nid mid flags conn dest] True show ?thesis
    by (auto simp: min_absorb2)
next
  case False
  with tx_sender.fragment_tx_no_room [OF assms, of mt nid mid flags conn dest] show ?thesis by (auto simp: min_absorb1)
qed

theorem fragment_tx_to_queue_witness:
  "\<exists>tx'. fragment_tx (replicate 130 7) 130 PQC_MSG_PK 1 0 0
       (pqc_udp_send_fragment \<lparr>uc_udp_conn = Some 0, uc_dest = Some 5\<rparr>) tx_example = (True, tx') \<and> tx_free tx' = 91"
proof -
  have "frag_count (replicate 130 (7 :: u8)) = 3" by (simp add: frag_count_eq)
  moreover have "tx_free tx_example = 94" by (simp add: tx_free_def tx_example_def)
  ultimately show ?thesis
    using fragment_tx_to_queue [OF _ _ tx_example_inv, of "replicate 130 7" PQC_MSG_PK 1 0 0 0 5] by auto
qed

end
