(* ===== verification/PQC.thy ===== *)
theory PQC
  imports Tx_Queue
begin

text \<open>
  The application messages of \<open>src/src/PQC/PQC.c\<close> (lines 217 to 412): the request for the public
  key, encrypted measurements in both directions, and metric reports.  Pointers to a connection or
  an address that the guards test are options.
\<close>

abbreviation (input) PQC_TEMP_RX_COUNTER_WINDOW :: nat where "PQC_TEMP_RX_COUNTER_WINDOW \<equiv> 16"

section \<open>Sending\<close>

definition pqc_send_GETPK ::
  "udp_conn option \<Rightarrow> uip_ipaddr_t option \<Rightarrow> u16 \<Rightarrow> tx_state \<Rightarrow> bool \<times> tx_state" where
  "pqc_send_GETPK udp_conn root_addr node_id tx =
     (if udp_conn = None \<or> root_addr = None then (False, tx)
      else
        let msg = pqc_header_write (replicate PQC_HEADER_LEN 0) PQC_MSG_GETPK node_id 0 0 1 0 PQC_FLAG_NONE;
            ctx = \<lparr>uc_udp_conn = udp_conn, uc_dest = root_addr\<rparr>
        in pqc_udp_send_fragment ctx msg (of_nat PQC_HEADER_LEN) tx)"

text \<open>The packet of a measurement: the counter goes into the payload, which is then encrypted.\<close>

definition temp_packet :: "session_t \<Rightarrow> u8 \<Rightarrow> pqc_temp_payload_t \<Rightarrow> u8 list" where
  "temp_packet s msg_id measurement =
     (let payload = measurement\<lparr>tp_counter := s_tx_counter s\<rparr>;
          packet = memcpy_at (replicate (PQC_HEADER_LEN + TEMP_PAYLOAD_SIZE) 0) PQC_HEADER_LEN (temp_payload_bytes payload);
          iv = crypto_worker_derive_aes_iv (s_ss s) (s_tx_counter s);
          packet = memcpy_at packet PQC_HEADER_LEN
                     (crypto_worker_aes_ctr_xcrypt (s_aes_key s) iv (take TEMP_PAYLOAD_SIZE (drop PQC_HEADER_LEN packet)))
      in pqc_header_write packet PQC_MSG_TEMP (s_node_id s) msg_id 0 1 (of_nat TEMP_PAYLOAD_SIZE) PQC_FLAG_NONE)"

definition pqc_send_encrypted_temp ::
  "udp_conn option \<Rightarrow> uip_ipaddr_t option \<Rightarrow> pqc_temp_payload_t \<Rightarrow> session_t \<Rightarrow> tx_state \<Rightarrow>
     bool \<times> session_t \<times> tx_state" where
  "pqc_send_encrypted_temp udp_conn dest measurement s tx =
     (if udp_conn = None \<or> dest = None \<or> \<not> session_is_established s \<or> pqc_tx_free_slots tx = 0
      then (False, upd_temp (\<lambda>m. m\<lparr>mt_temp_tx_fail := mt_temp_tx_fail m + 1\<rparr>) s, tx)
      else
        let (msg_id, s') = session_next_msg_id s;
            packet = temp_packet s msg_id measurement;
            ctx = \<lparr>uc_udp_conn = udp_conn, uc_dest = dest\<rparr>;
            (queued, tx) = pqc_udp_send_fragment ctx packet (of_nat (PQC_HEADER_LEN + TEMP_PAYLOAD_SIZE)) tx
        in if queued
           then (True, upd_temp (\<lambda>m. m\<lparr>mt_temp_tx := mt_temp_tx m + 1\<rparr>) (s'\<lparr>s_tx_counter := s_tx_counter s' + 1\<rparr>), tx)
           else (False, upd_temp (\<lambda>m. m\<lparr>mt_temp_tx_fail := mt_temp_tx_fail m + 1\<rparr>) s', tx))"

definition pqc_send_metrics_report ::
  "clock_time_t \<Rightarrow> udp_conn option \<Rightarrow> uip_ipaddr_t option \<Rightarrow> u8 \<Rightarrow> session_t \<Rightarrow> tx_state \<Rightarrow>
     bool \<times> session_t \<times> tx_state" where
  "pqc_send_metrics_report now udp_conn dest grp s tx =
     (if udp_conn = None \<or> dest = None \<or> \<not> session_is_established s \<or> pqc_tx_free_slots tx = 0
      then (False, upd_res (\<lambda>m. m\<lparr>mr_tx_queue_full := mr_tx_queue_full m + 1\<rparr>) s, tx)
      else
        case pqc_metrics_build_report now (s_metrics s) grp of
          (metrics, None) \<Rightarrow> (False, s\<lparr>s_metrics := metrics\<rparr>, tx)
        | (metrics, Some report) \<Rightarrow>
            let s = s\<lparr>s_metrics := metrics\<rparr>;
                (payload_len, payload) =
                  pqc_metrics_encode_report report (replicate PQC_METRICS_REPORT_LEN 0) (of_nat PQC_METRICS_REPORT_LEN)
            in if payload_len = 0 then (False, s, tx)
               else
                 let (msg_id, s) = session_next_msg_id s;
                     packet = pqc_header_write (replicate (PQC_HEADER_LEN + PQC_METRICS_REPORT_LEN) 0)
                                PQC_MSG_METRICS (s_node_id s) msg_id 0 1 payload_len PQC_FLAG_NONE;
                     packet = memcpy_at packet PQC_HEADER_LEN (take (unat payload_len) payload);
                     ctx = \<lparr>uc_udp_conn = udp_conn, uc_dest = dest\<rparr>;
                     (queued, tx) = pqc_udp_send_fragment ctx packet (of_nat PQC_HEADER_LEN + ucast payload_len) tx
                 in if \<not> queued
                    then (False, upd_res (\<lambda>m. m\<lparr>mr_tx_queue_full := mr_tx_queue_full m + 1\<rparr>) s, tx)
                    else (True, s, tx))"

section \<open>Receiving a measurement\<close>

text \<open>The payload obtained by decrypting the packet with a trial counter.\<close>

definition temp_trial :: "session_t \<Rightarrow> u8 list \<Rightarrow> u32 \<Rightarrow> pqc_temp_payload_t" where
  "temp_trial s data trial_counter =
     temp_payload_of_bytes
       (crypto_worker_aes_ctr_xcrypt (s_aes_key s) (crypto_worker_derive_aes_iv (s_ss s) trial_counter)
          (take TEMP_PAYLOAD_SIZE (drop PQC_HEADER_LEN data)))"

text \<open>The loop over the window: the first offset whose embedded counter matches, with the payload.\<close>

fun temp_window :: "session_t \<Rightarrow> u8 list \<Rightarrow> u32 \<Rightarrow> nat list \<Rightarrow> (nat \<times> pqc_temp_payload_t) option" where
  "temp_window s data expected_counter [] = None"
| "temp_window s data expected_counter (offset # offsets) =
     (let trial_counter = expected_counter + of_nat offset;
          payload = temp_trial s data trial_counter
      in if tp_counter payload = trial_counter then Some (offset, payload)
         else temp_window s data expected_counter offsets)"

definition pqc_handle_encrypted_temp ::
  "clock_time_t \<Rightarrow> u8 list \<Rightarrow> u16 \<Rightarrow> session_t \<Rightarrow> pqc_temp_payload_t option \<times> session_t" where
  "pqc_handle_encrypted_temp now data len s =
     (if \<not> session_is_established s \<or> \<not> pqc_header_valid data len \<or>
         data ! PQC_HDR_MSG_TYPE \<noteq> PQC_MSG_TEMP \<or> data ! PQC_HDR_FRAG_IDX \<noteq> 0 \<or>
         data ! PQC_HDR_TOTAL_FRAGS \<noteq> 1 \<or> unat (data ! PQC_HDR_PAYLOAD_LEN) \<noteq> TEMP_PAYLOAD_SIZE
      then (None, upd_temp (\<lambda>m. m\<lparr>mt_temp_rx_fail := mt_temp_rx_fail m + 1\<rparr>) s)
      else
        let s = upd_temp (\<lambda>m. m\<lparr>mt_temp_rx := mt_temp_rx m + 1\<rparr>) s;
            expected_counter = session_peek_rx_counter s
        in case temp_window s data expected_counter [0..<PQC_TEMP_RX_COUNTER_WINDOW] of
             Some (offset, payload) \<Rightarrow>
               let trial_counter = expected_counter + of_nat offset;
                   s = (if offset \<noteq> 0
                        then upd_temp (\<lambda>m. m\<lparr>mt_temp_counter_resync := mt_temp_counter_resync m + 1\<rparr>) s else s);
                   s = s\<lparr>s_rx_counter := trial_counter + 1\<rparr>;
                   s = session_touch now s
               in (Some payload, upd_temp (\<lambda>m. m\<lparr>mt_temp_rx_ok := mt_temp_rx_ok m + 1\<rparr>) s)
           | None \<Rightarrow> (None, upd_temp (\<lambda>m. m\<lparr>mt_temp_rx_fail := mt_temp_rx_fail m + 1\<rparr>) s))"

section \<open>What a measurement packet is\<close>

lemma temp_packet_shape:
  assumes p: "p = temp_packet s msg_id m"
  shows "length p = 22" and "packet_ok p 22"
    and "p ! 1 = PQC_MSG_TEMP" and "p ! 5 = 0" and "p ! 6 = 1" and "p ! 7 = 12" and "p ! 4 = msg_id"
    and "pqc_header_get_node_id p = s_node_id s"
    and "take 12 (drop 10 p) = crypto_worker_aes_ctr_xcrypt (s_aes_key s)
      (crypto_worker_derive_aes_iv (s_ss s) (s_tx_counter s)) (temp_payload_bytes (m\<lparr>tp_counter := s_tx_counter s\<rparr>))"
proof -
  let ?pl = "temp_payload_bytes (m\<lparr>tp_counter := s_tx_counter s\<rparr>)"
  let ?enc = "crypto_worker_aes_ctr_xcrypt (s_aes_key s) (crypto_worker_derive_aes_iv (s_ss s) (s_tx_counter s)) ?pl"
  have le: "length ?enc = 12" by (simp add: aes_ctr.xcrypt_length)
  have pl: "take 12 (drop 10 (memcpy_at (replicate 22 0) 10 ?pl)) = ?pl"
    using take_drop_memcpy_at [of 10 ?pl "replicate 22 0"] by simp
  let ?b = "memcpy_at (memcpy_at (replicate 22 0) 10 ?pl) 10 ?enc"
  have lb: "length ?b = 22" using le by simp
  have eq: "p = pqc_header_write ?b PQC_MSG_TEMP (s_node_id s) msg_id 0 1 (of_nat 12) PQC_FLAG_NONE"
    using pl unfolding p temp_packet_def by (simp add: Let_def)
  note hf = header_write_fields [OF _ eq]
  show len: "length p = 22" using eq lb by simp
  show "p ! 1 = PQC_MSG_TEMP" "p ! 5 = 0" "p ! 6 = 1" "p ! 7 = 12" "p ! 4 = msg_id"
    "pqc_header_get_node_id p = s_node_id s" using hf lb by simp_all
  show "packet_ok p 22"
    using hf(1,7) lb len by (auto simp: packet_ok_def intro!: header_valid_append)
  show "take 12 (drop 10 p) = ?enc"
    using take_drop_memcpy_at [of 10 ?enc "memcpy_at (replicate 22 0) 10 ?pl"] le
    by (simp add: eq header_write_drop)
qed

text \<open>Decrypting with the sender's counter gives back the measurement.\<close>

lemma temp_trial_packet:
  assumes "s_aes_key r = s_aes_key s" and "s_ss r = s_ss s"
  shows "temp_trial r (temp_packet s msg_id m) (s_tx_counter s) = m\<lparr>tp_counter := s_tx_counter s\<rparr>"
  using assms temp_packet_shape(9) [OF refl, of s msg_id m]
  by (simp add: temp_trial_def aes_ctr.xcrypt_xcrypt)

section \<open>The counter window\<close>

lemma temp_window_Some:
  "temp_window s data e offs = Some (k, p) \<Longrightarrow>
     k \<in> set offs \<and> p = temp_trial s data (e + of_nat k) \<and> tp_counter p = e + of_nat k"
  by (induction offs) (auto simp: Let_def split: if_splits)

lemma temp_window_first:
  assumes "k < n" and "tp_counter (temp_trial s data (e + of_nat k)) = e + of_nat k"
    and "\<And>j. j < k \<Longrightarrow> tp_counter (temp_trial s data (e + of_nat j)) \<noteq> e + of_nat j"
  shows "temp_window s data e [0..<n] = Some (k, temp_trial s data (e + of_nat k))"
proof -
  have "temp_window s data e ([i..<k] @ offs) = temp_window s data e offs" if "i \<le> k" for i offs
    using that by (induction "k - i" arbitrary: i) (auto simp: upt_conv_Cons Let_def assms(3))
  then have "temp_window s data e ([0..<k] @ [k..<n]) = temp_window s data e [k..<n]" by simp
  moreover have "[0..<k] @ [k..<n] = [0..<n]" using assms(1) upt_add_eq_append [of 0 k "n - k"] by simp
  ultimately show ?thesis using assms(1,2) by (simp add: upt_conv_Cons [of k n] Let_def)
qed

lemma temp_trial_metrics [simp]: "temp_trial (s_metrics_update f s) = temp_trial s"
  by (rule ext)+ (simp add: temp_trial_def)

lemma temp_window_metrics [simp]: "temp_window (s_metrics_update f s) data e offs = temp_window s data e offs"
  by (induction offs) (auto simp: Let_def)

text \<open>A packet that is accepted moves the expected counter past its own counter.\<close>

lemma handle_temp_accepted:
  assumes "pqc_handle_encrypted_temp now data len s = (Some p, s')"
  obtains k where "k < 16" "tp_counter p = s_rx_counter s + of_nat k" "s_rx_counter s' = tp_counter p + 1"
    "s_aes_key s' = s_aes_key s" "s_ss s' = s_ss s" "s_established s'" "s_state s' = s_state s"
  using assms that
  by (auto simp: pqc_handle_encrypted_temp_def Let_def session_peek_rx_counter_def session_touch_def
      session_is_established_def split: if_splits option.splits dest!: temp_window_Some)

lemma handle_temp_rejected:
  assumes "pqc_handle_encrypted_temp now data len s = (None, s')"
  shows "s_rx_counter s' = s_rx_counter s" and "s_state s' = s_state s" and "s_established s' = s_established s"
    and "s_aes_key s' = s_aes_key s" and "s_ss s' = s_ss s"
  using assms
  by (auto simp: pqc_handle_encrypted_temp_def Let_def split: if_splits option.splits)

text \<open>Processing a sequence of packets; the result lists the counters of the accepted ones.\<close>

fun temp_receive_all :: "(clock_time_t \<times> u8 list \<times> u16) list \<Rightarrow> session_t \<Rightarrow> u32 list \<times> session_t" where
  "temp_receive_all [] s = ([], s)"
| "temp_receive_all ((now, data, len) # ps) s =
     (case pqc_handle_encrypted_temp now data len s of
        (r, s) \<Rightarrow>
          let (cs, s) = temp_receive_all ps s
          in (case r of None \<Rightarrow> cs | Some p \<Rightarrow> tp_counter p # cs, s))"

lemma temp_receive_all_increasing:
  assumes "unat (s_rx_counter s) + 16 * length ps < 2 ^ 32" and "temp_receive_all ps s = (cs, s')"
  shows "sorted_wrt (<) (map unat cs) \<and> (\<forall>c\<in>set cs. unat (s_rx_counter s) \<le> unat c)"
  using assms
proof (induction ps arbitrary: s cs s')
  case Nil
  then show ?case by simp
next
  case (Cons q ps)
  obtain now data len where q: "q = (now, data, len)" by (cases q)
  obtain r s1 where h: "pqc_handle_encrypted_temp now data len s = (r, s1)" by fastforce
  obtain cs1 s2 where t: "temp_receive_all ps s1 = (cs1, s2)" by fastforce
  show ?case
  proof (cases r)
    case None
    then have "s_rx_counter s1 = s_rx_counter s" using handle_temp_rejected h by simp
    with Cons.IH [of s1 cs1 s2] Cons.prems t None h q show ?thesis by simp
  next
    case (Some p)
    obtain k where k: "k < 16" "tp_counter p = s_rx_counter s + of_nat k" "s_rx_counter s1 = tp_counter p + 1"
      using handle_temp_accepted h Some by metis
    have uk: "unat (of_nat k :: u32) = k" using k(1) by (intro unat_of_nat_lt) simp
    have up: "unat (tp_counter p) = unat (s_rx_counter s) + k"
      unfolding k(2) using Cons.prems(1) k(1) uk by (subst unat_plus_small) auto
    then have u1: "unat (s_rx_counter s1) = Suc (unat (tp_counter p))"
      unfolding k(3) using Cons.prems(1) k(1) by (intro unat_Suc_small) auto
    have "sorted_wrt (<) (map unat cs1) \<and> (\<forall>c\<in>set cs1. unat (s_rx_counter s1) \<le> unat c)"
      using Cons.prems(1) k(1) up u1 t by (intro Cons.IH) auto
    with Cons.prems(2) h t q Some up u1 show ?thesis by (fastforce simp: Let_def)
  qed
qed

section \<open>Sending measurements\<close>

lemma send_temp_queued:
  assumes "tx_inv tx" and "session_is_established s" and "0 < tx_free tx"
  shows "\<exists>s' tx'. pqc_send_encrypted_temp (Some conn) (Some dest) m s tx = (True, s', tx') \<and> tx_inv tx' \<and>
    tx_pending tx' = add_mset (temp_packet s (s_next_msg_id s) m) (tx_pending tx) \<and>
    Suc (tx_free tx') = tx_free tx \<and> s_tx_counter s' = s_tx_counter s + 1 \<and>
    s_next_msg_id s' = s_next_msg_id s + 1 \<and> session_is_established s'"
proof -
  let ?p = "temp_packet s (s_next_msg_id s) m"
  note shp = temp_packet_shape [OF refl, of s "s_next_msg_id s" m]
  have fs: "pqc_tx_free_slots tx \<noteq> 0"
    using tx_free_slots_unat [OF assms(1)] assms(3) by (auto simp: unat_eq_0 [symmetric])
  obtain tx' where tx': "pqc_udp_send_fragment \<lparr>uc_udp_conn = Some conn, uc_dest = Some dest\<rparr> ?p 22 tx = (True, tx')"
      "tx_inv tx'" "tx_pending tx' = add_mset (take (unat (22 :: u16)) ?p) (tx_pending tx)" "Suc (tx_free tx') = tx_free tx"
    using tx_sender.send_accept [OF assms(1,3) shp(2), of conn dest] by blast
  have "take (unat (22 :: u16)) ?p = ?p" using shp(1) by simp
  with tx' fs assms(2) show ?thesis
    by (auto simp: pqc_send_encrypted_temp_def session_next_msg_id_def session_is_established_def Let_def)
qed

lemma send_temp_refused:
  assumes "pqc_send_encrypted_temp conn dest m s tx = (False, s', tx')" and "tx_inv tx"
  shows "s_tx_counter s' = s_tx_counter s" and "tx' = tx"
proof -
  show "s_tx_counter s' = s_tx_counter s"
    using assms(1) by (auto simp: pqc_send_encrypted_temp_def session_next_msg_id_def Let_def
        split: if_splits prod.splits)
  show "tx' = tx"
  proof (cases "conn = None \<or> dest = None \<or> \<not> session_is_established s \<or> pqc_tx_free_slots tx = 0")
    case True
    with assms(1) show ?thesis by (simp add: pqc_send_encrypted_temp_def)
  next
    case False
    then have "0 < tx_free tx" using tx_free_slots_unat [OF assms(2)] by (metis unat_gt_0)
    moreover obtain c d where "conn = Some c" "dest = Some d" using False by auto
    ultimately show ?thesis using False assms send_temp_queued [of tx s c d m] by auto
  qed
qed

section \<open>Properties\<close>

text \<open>
  C23.  A measurement arrives as it was sent: on an established session with a free queue slot, sending
  queues exactly one packet and advances the counter; a receiver with the same keys whose expected counter
  is at most 15 behind accepts that packet, recovers the reading with the sender's counter, and from then on
  expects the next counter, provided no earlier counter of its window decrypts the packet to itself.
\<close>

theorem measurement_roundtrip:
  assumes s: "session_is_established s" "tx_inv tx" "0 < tx_free tx"
    and r: "session_is_established r" "s_aes_key r = s_aes_key s" "s_ss r = s_ss s"
    and k: "k < 16" "s_tx_counter s = s_rx_counter r + of_nat k"
    and first: "\<And>j. j < k \<Longrightarrow> tp_counter (temp_trial r (temp_packet s (s_next_msg_id s) m) (s_rx_counter r + of_nat j)) \<noteq>
      s_rx_counter r + of_nat j"
  shows "\<exists>s' tx' r'. pqc_send_encrypted_temp (Some conn) (Some dest) m s tx = (True, s', tx') \<and>
    tx_pending tx' = add_mset (temp_packet s (s_next_msg_id s) m) (tx_pending tx) \<and>
    s_tx_counter s' = s_tx_counter s + 1 \<and>
    pqc_handle_encrypted_temp now (temp_packet s (s_next_msg_id s) m) 22 r = (Some (m\<lparr>tp_counter := s_tx_counter s\<rparr>), r') \<and>
    s_rx_counter r' = s_tx_counter s + 1"
proof -
  let ?p = "temp_packet s (s_next_msg_id s) m"
  note sh = temp_packet_shape [OF refl, of s "s_next_msg_id s" m]
  have t: "temp_trial r ?p (s_rx_counter r + of_nat k) = m\<lparr>tp_counter := s_tx_counter s\<rparr>"
    using temp_trial_packet [OF r(2,3), of "s_next_msg_id s" m] k(2) by simp
  have w: "temp_window r ?p (s_rx_counter r) [0..<16] = Some (k, m\<lparr>tp_counter := s_tx_counter s\<rparr>)"
    using temp_window_first [OF k(1), of r ?p "s_rx_counter r"] first t k(2) by simp
  have v: "pqc_header_valid ?p 22" using sh(2) by (simp add: packet_ok_def)
  have "\<exists>r'. pqc_handle_encrypted_temp now ?p 22 r = (Some (m\<lparr>tp_counter := s_tx_counter s\<rparr>), r') \<and>
      s_rx_counter r' = s_tx_counter s + 1"
    using r(1) v sh w k(2) by (simp add: pqc_handle_encrypted_temp_def Let_def session_peek_rx_counter_def session_touch_def)
  with send_temp_queued [OF s(2,1,3), of conn dest m] show ?thesis by blast
qed

theorem measurement_roundtrip_witness:
  "let s = session_set_established (session_init 0 SESSION_ROLE_NODE 7);
       m = \<lparr>tp_counter = 0, tp_rh_milli = 40000, tp_temp_milli = 21500\<rparr>;
       tx = pqc_tx_init \<lparr>tx_queue = [], tx_tail = 0, tx_count = 0, tx_last_node_id = 0, tx_out = []\<rparr>
   in \<exists>s' tx' r'. pqc_send_encrypted_temp (Some 0) (Some 1) m s tx = (True, s', tx') \<and>
        pqc_handle_encrypted_temp 9 (temp_packet s 0 m) 22 s = (Some m, r') \<and> s_rx_counter r' = 1"
proof -
  let ?s = "session_set_established (session_init 0 SESSION_ROLE_NODE 7)"
  let ?m = "\<lparr>tp_counter = 0, tp_rh_milli = 40000, tp_temp_milli = 21500\<rparr> :: pqc_temp_payload_t"
  let ?tx = "pqc_tx_init \<lparr>tx_queue = [], tx_tail = 0, tx_count = 0, tx_last_node_id = 0, tx_out = []\<rparr>"
  have f: "session_is_established ?s" "s_tx_counter ?s = 0" "s_rx_counter ?s = 0" "s_next_msg_id ?s = 0"
    by (simp_all add: session_ops session_zero_def)
  have "tx_inv ?tx" "0 < tx_free ?tx" by (rule tx_inv_init) (simp add: tx_free_def pqc_tx_init_def)
  with f show ?thesis
    unfolding Let_def using measurement_roundtrip [of ?s ?tx ?s 0 ?m 0 1 9] by auto
qed

text \<open>
  C24.  No measurement is accepted twice: over any sequence of packets, genuine, replayed or forged, the
  counters of the accepted measurements are strictly increasing and at least the counter expected at the
  start, as long as the counter cannot pass \<open>2 ^ 32\<close> during the sequence.
\<close>

theorem accepted_counters_increase:
  assumes "unat (s_rx_counter s) + 16 * length packets < 2 ^ 32" and "temp_receive_all packets s = (counters, s')"
  shows "sorted_wrt (<) (map unat counters) \<and> (\<forall>c\<in>set counters. unat (s_rx_counter s) \<le> unat c)"
  by (rule temp_receive_all_increasing [OF assms])

theorem accepted_counters_increase_witness:
  "let s = session_set_established (session_init 0 SESSION_ROLE_ROOT 7);
       p = temp_packet s 0 \<lparr>tp_counter = 0, tp_rh_milli = 40000, tp_temp_milli = 21500\<rparr>
   in sorted_wrt (<) (map unat (fst (temp_receive_all [(1, p, 22), (2, p, 22)] s)))"
proof -
  let ?s = "session_set_established (session_init 0 SESSION_ROLE_ROOT 7)"
  let ?p = "temp_packet ?s 0 \<lparr>tp_counter = 0, tp_rh_milli = 40000, tp_temp_milli = 21500\<rparr>"
  obtain cs s' where r: "temp_receive_all [(1, ?p, 22), (2, ?p, 22)] ?s = (cs, s')" by fastforce
  have "s_rx_counter ?s = 0" by (simp add: session_ops session_zero_def)
  then have "sorted_wrt (<) (map unat cs)" using accepted_counters_increase [OF _ r] by simp
  then show ?thesis unfolding Let_def r by simp
qed

end
