(* ===== verification/Nack.thy ===== *)
theory Nack
  imports Fragmentation
begin

text \<open>
  Negative acknowledgements, \<open>src/src/common/nack.c\<close>: the list of missing fragments built
  from a reassembly context, its wire encoding and decoding, and the membership test.  The
  codec is a canonical wire format.
\<close>

section \<open>The NACK record\<close>

abbreviation (input) PQC_NACK_MAX_MISSING :: nat where "PQC_NACK_MAX_MISSING \<equiv> 16"
abbreviation (input) PQC_NACK_FIXED_LEN :: nat where "PQC_NACK_FIXED_LEN \<equiv> 4"
abbreviation (input) PQC_NACK_MAX_PAYLOAD_LEN :: nat where "PQC_NACK_MAX_PAYLOAD_LEN \<equiv> 20"

record pqc_nack_t =
  nk_missing_msg_type :: u8
  nk_missing_msg_id :: u8
  nk_total_frags :: u8
  nk_missing_count :: u8
  nk_missing :: "u8 list"

definition nack_zero :: pqc_nack_t where
  "nack_zero = \<lparr>nk_missing_msg_type = 0, nk_missing_msg_id = 0, nk_total_frags = 0,
     nk_missing_count = 0, nk_missing = replicate PQC_NACK_MAX_MISSING 0\<rparr>"

definition pqc_nack_init :: "u8 \<Rightarrow> u8 \<Rightarrow> u8 \<Rightarrow> pqc_nack_t" where
  "pqc_nack_init missing_msg_type missing_msg_id total_frags =
     nack_zero\<lparr>nk_missing_msg_type := missing_msg_type, nk_missing_msg_id := missing_msg_id,
               nk_total_frags := total_frags\<rparr>"

section \<open>Building a NACK from a reassembly context\<close>

fun nack_collect :: "bool list \<Rightarrow> u8 \<Rightarrow> nat list \<Rightarrow> pqc_nack_t \<Rightarrow> pqc_nack_t" where
  "nack_collect bitmap max_missing [] nack = nack"
| "nack_collect bitmap max_missing (i # is) nack =
     (if nk_missing_count nack < max_missing
      then nack_collect bitmap max_missing is
             (if \<not> bitmap ! i
              then nack\<lparr>nk_missing := (nk_missing nack)[unat (nk_missing_count nack) := of_nat i],
                        nk_missing_count := nk_missing_count nack + 1\<rparr>
              else nack)
      else nack)"

definition pqc_nack_build_from_rx ::
  "fragment_rx_ctx_t \<Rightarrow> pqc_nack_t \<Rightarrow> u8 \<Rightarrow> u8 \<times> pqc_nack_t" where
  "pqc_nack_build_from_rx rx nack max_missing =
     (if \<not> rx_active rx \<or> rx_total_frags rx = 0 then (0, nack)
      else
        let max_missing = (if max_missing = 0 \<or> PQC_NACK_MAX_MISSING < unat max_missing
                           then of_nat PQC_NACK_MAX_MISSING else max_missing);
            nack = pqc_nack_init (rx_msg_type rx) (rx_msg_id rx) (rx_total_frags rx);
            limit = (if FRAG_MAX_FRAGS < unat (rx_total_frags rx) then of_nat FRAG_MAX_FRAGS
                     else rx_total_frags rx);
            nack = nack_collect (rx_bitmap rx) max_missing [0..<unat limit] nack
        in (nk_missing_count nack, nack))"

section \<open>Encoding and decoding\<close>

fun nack_copy_out :: "u8 list \<Rightarrow> nat list \<Rightarrow> u8 list \<Rightarrow> u8 list" where
  "nack_copy_out missing [] payload = payload"
| "nack_copy_out missing (i # is) payload =
     nack_copy_out missing is (payload[PQC_NACK_FIXED_LEN + i := missing ! i])"

definition pqc_nack_encode :: "pqc_nack_t \<Rightarrow> u8 list \<Rightarrow> u8 \<Rightarrow> u8 \<times> u8 list" where
  "pqc_nack_encode nack payload payload_max_len =
     (if nk_missing_count nack = 0 \<or> PQC_NACK_MAX_MISSING < unat (nk_missing_count nack)
      then (0, payload)
      else
        let len = of_nat PQC_NACK_FIXED_LEN + nk_missing_count nack in
        if payload_max_len < len then (0, payload)
        else
          let payload = payload[0 := nk_missing_msg_type nack];
              payload = payload[1 := nk_missing_msg_id nack];
              payload = payload[2 := nk_total_frags nack];
              payload = payload[3 := nk_missing_count nack];
              payload = nack_copy_out (nk_missing nack) [0..<unat (nk_missing_count nack)] payload
          in (len, payload))"

fun nack_copy_in :: "u8 list \<Rightarrow> nat list \<Rightarrow> pqc_nack_t \<Rightarrow> bool \<times> pqc_nack_t" where
  "nack_copy_in payload [] nack = (True, nack)"
| "nack_copy_in payload (i # is) nack =
     (if nk_total_frags nack \<le> payload ! (PQC_NACK_FIXED_LEN + i) then (False, nack_zero)
      else nack_copy_in payload is
             (nack\<lparr>nk_missing := (nk_missing nack)[i := payload ! (PQC_NACK_FIXED_LEN + i)]\<rparr>))"

definition pqc_nack_decode :: "u8 list \<Rightarrow> u8 \<Rightarrow> pqc_nack_t \<Rightarrow> bool \<times> pqc_nack_t" where
  "pqc_nack_decode payload payload_len nack =
     (if unat payload_len < PQC_NACK_FIXED_LEN then (False, nack)
      else
        let count = payload ! 3 in
        if count = 0 \<or> PQC_NACK_MAX_MISSING < unat count \<or>
           payload ! 2 = 0 \<or> FRAG_MAX_FRAGS < unat (payload ! 2) \<or>
           payload_len \<noteq> of_nat PQC_NACK_FIXED_LEN + count
        then (False, nack)
        else
          let nack = pqc_nack_init (payload ! 0) (payload ! 1) (payload ! 2);
              nack = nack\<lparr>nk_missing_count := count\<rparr>
          in nack_copy_in payload [0..<unat count] nack)"

definition pqc_nack_contains :: "pqc_nack_t \<Rightarrow> u8 \<Rightarrow> bool" where
  "pqc_nack_contains nack frag_idx \<longleftrightarrow>
     list_ex (\<lambda>i. nk_missing nack ! i = frag_idx) [0..<unat (nk_missing_count nack)]"

section \<open>What is collected\<close>

text \<open>The entries a NACK lists.\<close>

definition nack_entries :: "pqc_nack_t \<Rightarrow> nat list" where
  "nack_entries nack = map unat (take (unat (nk_missing_count nack)) (nk_missing nack))"

lemma nack_init_fields [simp]:
  "nk_missing_msg_type (pqc_nack_init a b c) = a" "nk_missing_msg_id (pqc_nack_init a b c) = b"
  "nk_total_frags (pqc_nack_init a b c) = c" "nk_missing_count (pqc_nack_init a b c) = 0"
  "nk_missing (pqc_nack_init a b c) = replicate 16 0"
  by (simp_all add: pqc_nack_init_def nack_zero_def)

lemma nack_collect_frame [simp]:
  "nk_missing_msg_type (nack_collect bm m is nack) = nk_missing_msg_type nack"
  "nk_missing_msg_id (nack_collect bm m is nack) = nk_missing_msg_id nack"
  "nk_total_frags (nack_collect bm m is nack) = nk_total_frags nack"
  "length (nk_missing (nack_collect bm m is nack)) = length (nk_missing nack)"
  by (induction "is" arbitrary: nack) auto

lemma nack_collect_spec:
  assumes "unat m \<le> 16" "length (nk_missing nack) = 16" "unat (nk_missing_count nack) \<le> unat m"
    and "\<forall>i\<in>set is. i < 256"
  shows "nack_entries (nack_collect bm m is nack) =
      nack_entries nack @ take (unat m - unat (nk_missing_count nack)) (filter (\<lambda>i. \<not> bm ! i) is) \<and>
    unat (nk_missing_count (nack_collect bm m is nack)) =
      unat (nk_missing_count nack) +
      min (unat m - unat (nk_missing_count nack)) (length (filter (\<lambda>i. \<not> bm ! i) is)) \<and>
    drop (unat (nk_missing_count nack) +
        min (unat m - unat (nk_missing_count nack)) (length (filter (\<lambda>i. \<not> bm ! i) is)))
      (nk_missing (nack_collect bm m is nack)) =
    drop (unat (nk_missing_count nack) +
        min (unat m - unat (nk_missing_count nack)) (length (filter (\<lambda>i. \<not> bm ! i) is)))
      (nk_missing nack)"
  using assms
proof (induction "is" arbitrary: nack)
  case Nil
  then show ?case by simp
next
  case (Cons i "is")
  let ?c = "unat (nk_missing_count nack)"
  let ?n = "nack\<lparr>nk_missing := (nk_missing nack)[?c := of_nat i], nk_missing_count := nk_missing_count nack + 1\<rparr>"
  show ?case
  proof (cases "?c < unat m \<and> \<not> bm ! i")
    case True
    then have lt: "nk_missing_count nack < m" by (simp add: word_less_nat_alt)
    have count: "unat (nk_missing_count nack + 1) = Suc ?c"
      using True Cons.prems(1) by (intro unat_Suc_small) simp
    have "nack_entries ?n = nack_entries nack @ [i]"
      using True Cons.prems count by (simp add: nack_entries_def take_Suc_conv_app_nth)
    moreover have "unat m - ?c = Suc (unat m - Suc ?c)" using True by linarith
    ultimately show ?thesis
      using True lt Cons.prems Cons.IH [of ?n] count by simp
  next
    case False
    with Cons.prems Cons.IH [of nack] show ?thesis by (auto simp: word_less_nat_alt)
  qed
qed

text \<open>The missing fragments of a context, in increasing order.\<close>

definition missing_frags :: "fragment_rx_ctx_t \<Rightarrow> nat list" where
  "missing_frags rx = filter (\<lambda>i. \<not> rx_bitmap rx ! i) [0..<unat (rx_total_frags rx)]"

lemma nack_build_spec:
  assumes "rx_inv rx" and "rx_active rx"
    and m: "m = (if max_missing = 0 \<or> 16 < unat max_missing then 16 else unat max_missing)"
    and "pqc_nack_build_from_rx rx nack0 max_missing = (c, nack)"
  shows "nack_entries nack = take m (missing_frags rx)"
    and "unat c = min m (length (missing_frags rx))" and "nk_missing_count nack = c"
    and "nk_missing_msg_type nack = rx_msg_type rx" and "nk_missing_msg_id nack = rx_msg_id rx"
    and "nk_total_frags nack = rx_total_frags rx" and "length (nk_missing nack) = 16"
    and "drop (unat c) (nk_missing nack) = replicate (16 - unat c) 0"
proof -
  define mm :: u8 where "mm = (if max_missing = 0 \<or> 16 < unat max_missing then of_nat 16 else max_missing)"
  define ini where "ini = pqc_nack_init (rx_msg_type rx) (rx_msg_id rx) (rx_total_frags rx)"
  let ?is = "[0..<unat (rx_total_frags rx)]"
  have mm: "unat mm = m" "unat mm \<le> 16" using m by (auto simp: mm_def)
  have tot: "rx_total_frags rx \<noteq> 0" "unat (rx_total_frags rx) \<le> 72"
    using assms(1,2) by (auto simp: rx_inv_def)
  then have n: "nack = nack_collect (rx_bitmap rx) mm ?is ini" and c: "c = nk_missing_count nack"
    using assms(2,4) by (auto simp: pqc_nack_build_from_rx_def Let_def mm_def ini_def split del: if_split)
  have "nack_entries ini = []" "nk_missing_count ini = 0" "nk_missing ini = replicate 16 0"
    by (simp_all add: ini_def nack_entries_def)
  moreover have "\<forall>i\<in>set ?is. i < 256" using tot(2) by auto
  ultimately have sp: "nack_entries nack = take m (missing_frags rx)"
      "unat (nk_missing_count nack) = min m (length (missing_frags rx))"
      "drop (min m (length (missing_frags rx))) (nk_missing nack) =
       drop (min m (length (missing_frags rx))) (replicate 16 0)"
    using nack_collect_spec [of mm ini ?is "rx_bitmap rx"] mm by (simp_all add: n missing_frags_def)
  show "nack_entries nack = take m (missing_frags rx)" by (rule sp)
  show "nk_missing_count nack = c" using c by simp
  show "unat c = min m (length (missing_frags rx))"
    "drop (unat c) (nk_missing nack) = replicate (16 - unat c) 0" using sp c by simp_all
  show "nk_missing_msg_type nack = rx_msg_type rx" "nk_missing_msg_id nack = rx_msg_id rx"
    "nk_total_frags nack = rx_total_frags rx" "length (nk_missing nack) = 16"
    unfolding n ini_def by simp_all
qed

lemma missing_frags_empty_iff:
  "missing_frags rx = [] \<longleftrightarrow> (\<forall>i<unat (rx_total_frags rx). rx_bitmap rx ! i)"
  by (auto simp: missing_frags_def filter_empty_conv)

section \<open>The codec is a canonical wire format\<close>

definition nack_wf :: "pqc_nack_t \<Rightarrow> bool" where
  "nack_wf n \<longleftrightarrow> nk_missing_count n \<noteq> 0 \<and> unat (nk_missing_count n) \<le> 16 \<and>
     nk_total_frags n \<noteq> 0 \<and> unat (nk_total_frags n) \<le> 72 \<and> length (nk_missing n) = 16 \<and>
     (\<forall>i<unat (nk_missing_count n). nk_missing n ! i < nk_total_frags n) \<and>
     drop (unat (nk_missing_count n)) (nk_missing n) = replicate (16 - unat (nk_missing_count n)) 0"

definition nack_to_bytes :: "pqc_nack_t \<Rightarrow> u8 list" where
  "nack_to_bytes n = (let (len, p) = pqc_nack_encode n (replicate 20 0) 20 in take (unat len) p)"

definition nack_of_bytes :: "u8 list \<Rightarrow> pqc_nack_t option" where
  "nack_of_bytes bs =
     (if length bs < 256
      then let (ok, n) = pqc_nack_decode bs (of_nat (length bs)) nack_zero in if ok then Some n else None
      else None)"

lemma nack_copy_out_length [simp]: "length (nack_copy_out m is p) = length p"
  by (induction "is" arbitrary: p) auto

lemma nack_copy_out_upt:
  "4 + k \<le> length p \<Longrightarrow> k \<le> length m \<Longrightarrow>
     nack_copy_out m [0..<k] p = take 4 p @ take k m @ drop (4 + k) p"
proof (induction k)
  case (Suc k)
  have app: "nack_copy_out m (xs @ [i]) p = (nack_copy_out m xs p)[4 + i := m ! i]" for xs i p
    by (induction xs arbitrary: p) auto
  have "drop (4 + k) p = p ! (4 + k) # drop (4 + Suc k) p"
    using Suc.prems by (simp add: drop_Suc_nth)
  with Suc show ?case
    by (simp add: app list_update_append take_Suc_conv_app_nth min_def)
qed simp

lemma nack_encode_spec:
  assumes "nk_missing_count n \<noteq> 0" "unat (nk_missing_count n) \<le> 16" "length (nk_missing n) = 16"
    and "4 + unat (nk_missing_count n) \<le> unat mx" "unat mx \<le> length p"
    and "pqc_nack_encode n p mx = (len, p')"
  shows "unat len = 4 + unat (nk_missing_count n)"
    and "take (unat len) p' =
      [nk_missing_msg_type n, nk_missing_msg_id n, nk_total_frags n, nk_missing_count n] @
      take (unat (nk_missing_count n)) (nk_missing n)"
proof -
  let ?c = "nk_missing_count n"
  have l: "unat (4 + ?c) = 4 + unat ?c"
    using assms(2) by (subst unat_plus_small) auto
  then have "\<not> mx < 4 + ?c" using assms(4) by (simp add: word_less_nat_alt)
  then have eq: "len = 4 + ?c"
    "p' = nack_copy_out (nk_missing n) [0..<unat ?c]
       (p[0 := nk_missing_msg_type n, 1 := nk_missing_msg_id n, 2 := nk_total_frags n, 3 := ?c])"
    using assms by (auto simp: pqc_nack_encode_def Let_def)
  from eq(1) l show u: "unat len = 4 + unat ?c" by simp
  have "4 \<le> length p" using assms(4,5) by linarith
  then obtain a b c d q where "p = a # b # c # d # q"
    by (auto simp: numeral_eq_Suc Suc_le_length_iff)
  with assms(2-5) show "take (unat len) p' =
      [nk_missing_msg_type n, nk_missing_msg_id n, nk_total_frags n, ?c] @ take (unat ?c) (nk_missing n)"
    unfolding u eq(2) by (subst nack_copy_out_upt) (auto simp: numeral_eq_Suc)
qed

lemma nack_copy_in_upt:
  assumes "k \<le> length (nk_missing n)"
  shows "nack_copy_in p [0..<k] n =
    (if \<forall>i<k. p ! (4 + i) < nk_total_frags n
     then (True, n\<lparr>nk_missing := map (\<lambda>i. p ! (4 + i)) [0..<k] @ drop k (nk_missing n)\<rparr>)
     else (False, nack_zero))"
  using assms
proof (induction k)
  case (Suc k)
  have app: "nack_copy_in p (xs @ [i]) n =
      (case nack_copy_in p xs n of (ok, n') \<Rightarrow>
         if \<not> ok then (False, n')
         else if nk_total_frags n' \<le> p ! (4 + i) then (False, nack_zero)
         else (True, n'\<lparr>nk_missing := (nk_missing n')[i := p ! (4 + i)]\<rparr>))" for xs i n
    by (induction xs arbitrary: n) auto
  have "drop k (nk_missing n) = nk_missing n ! k # drop (Suc k) (nk_missing n)"
    using Suc.prems by (simp add: drop_Suc_nth)
  with Suc show ?case
    by (auto simp: app less_Suc_eq list_update_append not_le)
qed simp

lemma nack_to_bytes_wf:
  assumes "nack_wf n"
  shows "nack_to_bytes n =
    [nk_missing_msg_type n, nk_missing_msg_id n, nk_total_frags n, nk_missing_count n] @
    take (unat (nk_missing_count n)) (nk_missing n)"
proof -
  obtain len p where e: "pqc_nack_encode n (replicate 20 0) 20 = (len, p)" by fastforce
  with assms nack_encode_spec(2) [of n 20 "replicate 20 0" len p] show ?thesis
    by (simp add: nack_to_bytes_def nack_wf_def)
qed

lemma nack_decode_eq:
  assumes "length bs < 256"
  shows "pqc_nack_decode bs (of_nat (length bs)) n0 =
    (if 4 \<le> length bs \<and> bs ! 3 \<noteq> 0 \<and> unat (bs ! 3) \<le> 16 \<and> bs ! 2 \<noteq> 0 \<and> unat (bs ! 2) \<le> 72 \<and>
        length bs = 4 + unat (bs ! 3)
     then nack_copy_in bs [0..<unat (bs ! 3)]
       ((pqc_nack_init (bs ! 0) (bs ! 1) (bs ! 2))\<lparr>nk_missing_count := bs ! 3\<rparr>)
     else (False, n0))"
proof -
  have "of_nat (length bs) = 4 + bs ! 3 \<longleftrightarrow> length bs = 4 + unat (bs ! 3)" if "unat (bs ! 3) \<le> 16"
  proof -
    have "unat (4 + bs ! 3) = 4 + unat (bs ! 3)"
      using that by (subst unat_plus_small) auto
    with assms show ?thesis by (metis unat_of_nat_u8 word_unat_eq_iff)
  qed
  with assms show ?thesis
    by (auto simp: pqc_nack_decode_def Let_def)
qed

interpretation nack: canonical_format nack_to_bytes nack_of_bytes nack_wf
proof
  fix n assume wf: "nack_wf n"
  let ?c = "unat (nk_missing_count n)"
  define bs where "bs = nack_to_bytes n"
  have b: "bs = [nk_missing_msg_type n, nk_missing_msg_id n, nk_total_frags n,
      nk_missing_count n] @ take ?c (nk_missing n)"
    unfolding bs_def using wf by (rule nack_to_bytes_wf)
  have len: "length bs = 4 + ?c" "?c \<le> 16" "?c \<le> length (nk_missing n)"
    using wf by (auto simp: nack_wf_def b)
  have hd: "bs ! 0 = nk_missing_msg_type n" "bs ! 1 = nk_missing_msg_id n"
    "bs ! 2 = nk_total_frags n" "bs ! 3 = nk_missing_count n" by (simp_all add: b)
  have nth: "bs ! (4 + i) = nk_missing n ! i" if "i < ?c" for i using that by (simp add: b)
  have lt: "length bs < 256" using len by simp
  have "map (\<lambda>i. bs ! (4 + i)) [0..<?c] = take ?c (nk_missing n)"
    using nth len by (intro nth_equalityI) auto
  moreover have "take ?c (nk_missing n) @ replicate (16 - ?c) 0 = nk_missing n"
    using wf append_take_drop_id [of ?c "nk_missing n"] by (simp add: nack_wf_def)
  moreover have "\<forall>i<?c. bs ! (4 + i) < nk_total_frags n" using nth wf by (simp add: nack_wf_def)
  ultimately have "pqc_nack_decode bs (of_nat (length bs)) nack_zero = (True, n)"
    unfolding nack_decode_eq [OF lt] hd using wf len
    by (subst nack_copy_in_upt) (simp_all add: nack_wf_def)
  with lt show "nack_of_bytes (nack_to_bytes n) = Some n"
    by (simp add: nack_of_bytes_def bs_def)
next
  fix bs n assume dec: "nack_of_bytes bs = Some n"
  then have lb: "length bs < 256" and d: "pqc_nack_decode bs (of_nat (length bs)) nack_zero = (True, n)"
    by (auto simp: nack_of_bytes_def split: if_splits prod.splits)
  let ?c = "unat (bs ! 3)"
  from d have g: "4 \<le> length bs" "bs ! 3 \<noteq> 0" "?c \<le> 16" "bs ! 2 \<noteq> 0" "unat (bs ! 2) \<le> 72"
      "length bs = 4 + ?c" "\<forall>i<?c. bs ! (4 + i) < bs ! 2"
    and n: "n = (pqc_nack_init (bs ! 0) (bs ! 1) (bs ! 2))
      \<lparr>nk_missing_count := bs ! 3, nk_missing := map (\<lambda>i. bs ! (4 + i)) [0..<?c] @ replicate (16 - ?c) 0\<rparr>"
    unfolding nack_decode_eq [OF lb] by (auto simp: nack_copy_in_upt split: if_splits)
  have wf: "nack_wf n" using g by (simp add: n nack_wf_def nth_append)
  moreover obtain a b c d r where "bs = a # b # c # d # r"
    using g(1) by (auto simp: numeral_eq_Suc Suc_le_length_iff)
  then have "bs = [bs ! 0, bs ! 1, bs ! 2, bs ! 3] @ map (\<lambda>i. bs ! (4 + i)) [0..<?c]"
    using g(6) map_nth [of r] by simp
  ultimately show "nack_wf n \<and> nack_to_bytes n = bs"
    by (simp add: nack_to_bytes_wf [OF wf]) (simp add: n)
qed

section \<open>Properties\<close>

text \<open>
  A negative acknowledgement built from a reassembly context lists the missing fragments: the first
  ones in increasing order, as many as the limit allows (16 when the limit is 0 or larger), under the
  message type, identifier and fragment count of the context, and the count returned is the number listed.
\<close>

theorem nack_lists_missing:
  assumes "rx_inv rx" and "rx_active rx" and "pqc_nack_build_from_rx rx nack0 max_missing = (c, nack)"
  shows "nack_entries nack =
      take (if max_missing = 0 \<or> 16 < unat max_missing then 16 else unat max_missing)
        (filter (\<lambda>i. \<not> rx_bitmap rx ! i) [0..<unat (rx_total_frags rx)]) \<and>
    unat c = length (nack_entries nack) \<and> nk_missing_count nack = c \<and>
    nk_missing_msg_type nack = rx_msg_type rx \<and> nk_missing_msg_id nack = rx_msg_id rx \<and>
    nk_total_frags nack = rx_total_frags rx"
  using nack_build_spec [OF assms(1,2) refl assms(3)] by (simp add: missing_frags_def min.commute)

theorem nack_lists_missing_witness:
  "nack_entries (snd (pqc_nack_build_from_rx (receive_chunks 2 7 1 (replicate 130 5) [1] fragment_rx_init) nack_zero 0)) = [0, 2]"
proof -
  let ?rx = "receive_chunks 2 7 1 (replicate 130 (5 :: u8)) [1] fragment_rx_init"
  have n: "frag_count (replicate 130 (5 :: u8)) = 3" by (simp add: frag_count_eq)
  have h: "rx_holds 2 7 1 (replicate 130 (5 :: u8)) {1} ?rx"
    using receive_chunks_holds [of "replicate 130 (5 :: u8)" "{}" "[1]" 2 7 1 fragment_rx_init] n by simp
  obtain c nack where b: "pqc_nack_build_from_rx ?rx nack_zero 0 = (c, nack)" by fastforce
  have inv: "rx_inv ?rx" "rx_active ?rx" using h by (auto simp: rx_holds_def)
  have "unat (rx_total_frags ?rx) = 3" "\<forall>i<3. rx_bitmap ?rx ! i = (i = 1)"
    using h n by (auto simp: rx_holds_def frag_count_def)
  then have "filter (\<lambda>i. \<not> rx_bitmap ?rx ! i) [0..<unat (rx_total_frags ?rx)] = [0, 2]"
    by (simp add: upt_rec numeral_3_eq_3)
  with nack_lists_missing [OF inv b] show ?thesis unfolding b by simp
qed

text \<open>
  C29.  The wire format of a negative acknowledgement is canonical: a byte string decodes to a message
  exactly when the message is well formed and encodes to that byte string, so decoding inverts encoding,
  no two messages share an encoding, and every other byte string is rejected.
\<close>

theorem nack_codec_canonical: "nack_of_bytes bs = Some n \<longleftrightarrow> nack_wf n \<and> nack_to_bytes n = bs"
  by (rule nack.decode_Some_iff)

end
