(* ===== verification/Handshake.thy ===== *)
theory Handshake
  imports PQC Nack
begin

text \<open>
  The handshake state machine, \<open>src/src/PQC/handshake_fsm.c\<close>.  The static variables of the module,
  the transmit queue it fills and the state of the key-encapsulation generator are the record
  \<open>hs_env\<close>; a function takes the session it works on, the reference under which that session is
  known to the reassembly slots, the callback that queues a packet, and returns the updated session
  and environment.  \<open>cs\<close> is the platform's \<open>CLOCK_SECOND\<close>.  \<open>clk k\<close> is the value of \<open>clock_time()\<close>
  at the \<open>k\<close>-th program point of the function that reads it.
\<close>

section \<open>State\<close>

abbreviation (input) HS_RX_SLOT_COUNT :: nat where "HS_RX_SLOT_COUNT \<equiv> 2"

definition HS_RX_TIMEOUT :: "u32 \<Rightarrow> u32" where "HS_RX_TIMEOUT cs = SESSION_RETRY_TIMEOUT cs"
definition HS_RESPONSE_GRACE :: "u32 \<Rightarrow> u32" where "HS_RESPONSE_GRACE cs = 10 * cs"
definition HS_RETRY_TX_DRAIN_DELAY :: "u32 \<Rightarrow> u32" where "HS_RETRY_TX_DRAIN_DELAY cs = cs"
definition HS_NACK_REPEAT_DELAY :: "u32 \<Rightarrow> u32" where "HS_NACK_REPEAT_DELAY cs = 4 * cs"

abbreviation (input) HS_MSG_PK :: u8 where "HS_MSG_PK \<equiv> PQC_MSG_PK"
abbreviation (input) HS_MSG_CT :: u8 where "HS_MSG_CT \<equiv> PQC_MSG_CT"
abbreviation (input) HS_MSG_ACK :: u8 where "HS_MSG_ACK \<equiv> PQC_MSG_ACK"
abbreviation (input) HS_MSG_NACK :: u8 where "HS_MSG_NACK \<equiv> PQC_MSG_NACK"

record hs_rx_slot_t =
  sl_active :: bool
  sl_owner :: "session_ref option"
  sl_started_at :: clock_time_t
  sl_last_nack_at :: clock_time_t
  sl_last_nack_received_frags :: u8
  sl_last_nack_missing_count :: u8
  sl_ctx :: fragment_rx_ctx_t

definition rx_slot_zero :: hs_rx_slot_t where
  "rx_slot_zero = \<lparr>sl_active = False, sl_owner = None, sl_started_at = 0, sl_last_nack_at = 0,
     sl_last_nack_received_frags = 0, sl_last_nack_missing_count = 0, sl_ctx = fragment_rx_init\<rparr>"

record 'g hs_env =
  he_root_pk :: "u8 list"
  he_root_sk :: "u8 list"
  he_root_has_keypair :: bool
  he_node_ct :: "u8 list"
  he_root_ct :: "u8 list"
  he_rx_slots :: "hs_rx_slot_t list"
  he_tx :: tx_state
  he_prng :: 'g

text \<open>The static variables at power-up, of this module and of the transmit queue; \<open>g\<close> is the generator's state.\<close>

definition hs_env_boot :: "'g \<Rightarrow> 'g hs_env" where
  "hs_env_boot g = \<lparr>he_root_pk = replicate CW_HQC_PUBLIC_KEY_LEN 0, he_root_sk = replicate CW_HQC_SECRET_KEY_LEN 0,
     he_root_has_keypair = False, he_node_ct = replicate CW_HQC_CIPHERTEXT_LEN 0,
     he_root_ct = replicate CW_HQC_CIPHERTEXT_LEN 0, he_rx_slots = replicate HS_RX_SLOT_COUNT rx_slot_zero,
     he_tx = \<lparr>tx_queue = replicate PQC_TX_QUEUE_SIZE tx_entry_zero, tx_tail = 0, tx_count = 0,
              tx_last_node_id = 0, tx_out = []\<rparr>,
     he_prng = g\<rparr>"

section \<open>Reassembly slots\<close>

definition rx_slot_clear :: "hs_rx_slot_t \<Rightarrow> hs_rx_slot_t" where
  "rx_slot_clear slot =
     slot\<lparr>sl_ctx := fragment_rx_reset (sl_ctx slot), sl_active := False, sl_owner := None,
          sl_started_at := 0, sl_last_nack_at := 0, sl_last_nack_received_frags := 0,
          sl_last_nack_missing_count := 0\<rparr>"

definition rx_slots_gc :: "u32 \<Rightarrow> clock_time_t \<Rightarrow> hs_rx_slot_t list \<Rightarrow> hs_rx_slot_t list" where
  "rx_slots_gc cs now slots =
     map (\<lambda>slot. if sl_active slot \<and> HS_RX_TIMEOUT cs < now - sl_started_at slot
                 then rx_slot_clear slot else slot) slots"

definition rx_slot_find :: "session_ref \<Rightarrow> hs_rx_slot_t list \<Rightarrow> nat option" where
  "rx_slot_find self slots =
     first_index (\<lambda>i. sl_active (slots ! i) \<and> sl_owner (slots ! i) = Some self) (length slots)"

text \<open>The part of \<open>rx_slot_get\<close> after the timeout sweep.\<close>

definition rx_slot_acquire ::
  "clock_time_t \<Rightarrow> session_ref \<Rightarrow> hs_rx_slot_t list \<Rightarrow> nat option \<times> hs_rx_slot_t list" where
  "rx_slot_acquire now self slots =
     (case rx_slot_find self slots of
        Some i \<Rightarrow> (Some i, slots)
      | None \<Rightarrow>
          (case first_index (\<lambda>i. \<not> sl_active (slots ! i)) (length slots) of
             Some i \<Rightarrow>
               (Some i, slots[i := (slots ! i)\<lparr>sl_active := True, sl_owner := Some self,
                  sl_started_at := now, sl_last_nack_at := 0, sl_last_nack_received_frags := 0,
                  sl_last_nack_missing_count := 0, sl_ctx := fragment_rx_init\<rparr>])
           | None \<Rightarrow> (None, slots)))"

definition rx_slot_get ::
  "u32 \<Rightarrow> clock_time_t \<Rightarrow> clock_time_t \<Rightarrow> session_ref \<Rightarrow> hs_rx_slot_t list \<Rightarrow> nat option \<times> hs_rx_slot_t list" where
  "rx_slot_get cs now1 now2 self slots = rx_slot_acquire now2 self (rx_slots_gc cs now1 slots)"

definition rx_slot_touch :: "clock_time_t \<Rightarrow> session_ref \<Rightarrow> hs_rx_slot_t list \<Rightarrow> hs_rx_slot_t list" where
  "rx_slot_touch now self slots =
     (case rx_slot_find self slots of
        Some i \<Rightarrow> slots[i := (slots ! i)\<lparr>sl_started_at := now\<rparr>]
      | None \<Rightarrow> slots)"

definition rx_slot_release :: "session_ref \<Rightarrow> hs_rx_slot_t list \<Rightarrow> hs_rx_slot_t list" where
  "rx_slot_release self slots =
     (case rx_slot_find self slots of
        Some i \<Rightarrow> slots[i := rx_slot_clear (slots ! i)]
      | None \<Rightarrow> slots)"

text \<open>\<open>rx\<close> is the index of the slot whose context the C pointer refers to.\<close>

definition rx_slot_nack_due ::
  "u32 \<Rightarrow> clock_time_t \<Rightarrow> session_ref \<Rightarrow> nat \<Rightarrow> u8 \<Rightarrow> hs_rx_slot_t list \<Rightarrow> bool" where
  "rx_slot_nack_due cs now self rx frag_idx slots =
     (let ctx = sl_ctx (slots ! rx) in
      if rx_total_frags ctx = 0 \<or> \<not> rx_bitmap ctx ! (unat (rx_total_frags ctx) - 1) then False
      else
        case first_index (\<lambda>i. sl_active (slots ! i) \<and> sl_owner (slots ! i) = Some self \<and> i = rx) (length slots) of
          None \<Rightarrow> False
        | Some i \<Rightarrow>
            let slot = slots ! i in
            if sl_last_nack_missing_count slot = 0 then unat frag_idx + 1 = unat (rx_total_frags ctx)
            else if sl_last_nack_received_frags slot + sl_last_nack_missing_count slot \<le> rx_received_frags ctx
            then True
            else HS_NACK_REPEAT_DELAY cs \<le> now - sl_last_nack_at slot)"

definition rx_slot_note_nack ::
  "u32 \<Rightarrow> clock_time_t \<Rightarrow> clock_time_t \<Rightarrow> session_ref \<Rightarrow> nat \<Rightarrow> u8 \<Rightarrow> session_t \<Rightarrow> hs_rx_slot_t list \<Rightarrow>
     session_t \<times> hs_rx_slot_t list" where
  "rx_slot_note_nack cs now1 now2 self rx missing_count s slots =
     (if missing_count = 0 then (s, slots)
      else
        case first_index (\<lambda>i. sl_active (slots ! i) \<and> sl_owner (slots ! i) = Some self \<and> i = rx) (length slots) of
          None \<Rightarrow> (s, slots)
        | Some i \<Rightarrow>
            let slot = (slots ! i)\<lparr>sl_last_nack_at := now1,
                         sl_last_nack_received_frags := rx_received_frags (sl_ctx (slots ! rx)),
                         sl_last_nack_missing_count := missing_count\<rparr>;
                s = s\<lparr>s_retry_deadline := sl_last_nack_at slot + HS_NACK_REPEAT_DELAY cs\<rparr>
            in (session_touch now2 s, slots[i := slot]))"

section \<open>Deadlines\<close>

definition tx_has_room_for :: "u16 \<Rightarrow> tx_state \<Rightarrow> bool" where
  "tx_has_room_for len tx \<longleftrightarrow>
     (let needed = fragment_tx_count len in needed \<noteq> 0 \<and> needed \<le> pqc_tx_free_slots tx)"

definition rx_first_missing :: "fragment_rx_ctx_t \<Rightarrow> u8" where
  "rx_first_missing rx =
     (if rx_total_frags rx = 0 then 0xff
      else case first_index (\<lambda>i. \<not> rx_bitmap rx ! i) (min (unat (rx_total_frags rx)) FRAG_MAX_FRAGS) of
             Some i \<Rightarrow> of_nat i
           | None \<Rightarrow> 0xff)"

definition hs_transfer_extra :: "u32 \<Rightarrow> u16 \<Rightarrow> clock_time_t" where
  "hs_transfer_extra cs transfer_len =
     (let frags = fragment_tx_count transfer_len;
          extra = HS_RESPONSE_GRACE cs
      in if frags \<noteq> 0 then extra + ucast frags * SEND_INTERVAL cs else extra)"

definition hs_set_pending_for_transfer ::
  "u32 \<Rightarrow> (nat \<Rightarrow> clock_time_t) \<Rightarrow> u8 \<Rightarrow> u8 \<Rightarrow> u16 \<Rightarrow> session_t \<Rightarrow> session_t" where
  "hs_set_pending_for_transfer cs clk msg_type msg_id transfer_len s =
     (let s = session_set_pending cs (clk 0) (clk 1) msg_type msg_id s
      in s\<lparr>s_retry_deadline := clk 2 + SESSION_RETRY_TIMEOUT cs + hs_transfer_extra cs transfer_len\<rparr>)"

definition hs_mark_retry_for_transfer ::
  "u32 \<Rightarrow> (nat \<Rightarrow> clock_time_t) \<Rightarrow> u16 \<Rightarrow> session_t \<Rightarrow> session_t" where
  "hs_mark_retry_for_transfer cs clk transfer_len s =
     (let s = s\<lparr>s_retry_count := s_retry_count s + 1\<rparr>;
          s = upd_res (\<lambda>m. m\<lparr>mr_retries := mr_retries m + 1\<rparr>) s;
          s = s\<lparr>s_retry_deadline := clk 0 + SESSION_RETRY_TIMEOUT cs + hs_transfer_extra cs transfer_len\<rparr>
      in session_touch (clk 1) s)"

definition hs_mark_rx_retry :: "u32 \<Rightarrow> (nat \<Rightarrow> clock_time_t) \<Rightarrow> session_t \<Rightarrow> session_t" where
  "hs_mark_rx_retry cs clk s =
     (let s = s\<lparr>s_retry_count := s_retry_count s + 1\<rparr>;
          s = upd_res (\<lambda>m. m\<lparr>mr_retries := mr_retries m + 1\<rparr>) s;
          s = s\<lparr>s_retry_deadline := clk 0 + SESSION_RETRY_TIMEOUT cs\<rparr>
      in session_touch (clk 1) s)"

section \<open>Sending control messages\<close>

definition send_ack ::
  "tx_state send_fn \<Rightarrow> u8 \<Rightarrow> session_t \<Rightarrow> tx_state \<Rightarrow> bool \<times> session_t \<times> tx_state" where
  "send_ack send_fn confirmed_msg_id s tx =
     (if \<not> tx_has_room_for 1 tx then (False, s, tx)
      else
        let ack_payload = [confirmed_msg_id];
            (ack_msg_id, s) = session_next_msg_id s;
            s = upd_hs (\<lambda>m. m\<lparr>mh_ack_tx := mh_ack_tx m + 1\<rparr>) s;
            (ok, tx) = fragment_tx ack_payload 1 HS_MSG_ACK (s_node_id s) ack_msg_id PQC_FLAG_NONE send_fn tx
        in (ok, s, tx))"

definition send_nack ::
  "tx_state send_fn \<Rightarrow> fragment_rx_ctx_t \<Rightarrow> session_t \<Rightarrow> tx_state \<Rightarrow> u8 \<times> session_t \<times> tx_state" where
  "send_nack send_fn rx s tx =
     (let (c, nack) = pqc_nack_build_from_rx rx nack_zero (of_nat PQC_NACK_MAX_MISSING) in
      if c = 0 then (0, s, tx)
      else
        let (nack_len, nack_payload) = pqc_nack_encode nack (replicate PQC_NACK_MAX_PAYLOAD_LEN 0) (of_nat PQC_NACK_MAX_PAYLOAD_LEN) in
        if nack_len = 0 then (0, s, tx)
        else if \<not> tx_has_room_for (ucast nack_len) tx then (0, s, tx)
        else
          let (nack_msg_id, s) = session_next_msg_id s;
              s = upd_frag (\<lambda>m. m\<lparr>mf_nack_tx := mf_nack_tx m + 1\<rparr>) s;
              s = upd_frag (\<lambda>m. m\<lparr>mf_nack_rounds := mf_nack_rounds m + 1\<rparr>) s;
              (ok, tx) = fragment_tx nack_payload (ucast nack_len) HS_MSG_NACK (s_node_id s) nack_msg_id PQC_FLAG_NONE send_fn tx
          in if \<not> ok then (0, s, tx) else (nk_missing_count nack, s, tx))"

definition send_fragment_slice ::
  "tx_state send_fn \<Rightarrow> u8 list \<Rightarrow> u16 \<Rightarrow> u8 \<Rightarrow> u16 \<Rightarrow> u8 \<Rightarrow> u8 \<Rightarrow> u8 \<Rightarrow> u8 \<Rightarrow> tx_state \<Rightarrow> bool \<times> tx_state" where
  "send_fragment_slice send_fn data len msg_type node_id msg_id frag_idx total_frags flags tx =
     (if len = 0 \<or> total_frags = 0 \<or> total_frags \<le> frag_idx then (False, tx)
      else
        let offset = ucast frag_idx * (of_nat FRAG_MAX_PAYLOAD_LEN :: u16) in
        if len \<le> offset then (False, tx)
        else
          let remaining = len - offset;
              frag_len = (if FRAG_MAX_PAYLOAD_LEN < unat remaining then of_nat FRAG_MAX_PAYLOAD_LEN
                          else ucast remaining) :: u8;
              frag = pqc_header_write (replicate (FRAG_HEADER_LEN + FRAG_MAX_PAYLOAD_LEN) 0)
                       msg_type node_id msg_id frag_idx total_frags frag_len flags;
              frag = memcpy_at frag FRAG_HEADER_LEN (take (unat frag_len) (drop (unat offset) data))
          in send_fn frag (of_nat FRAG_HEADER_LEN + ucast frag_len) tx)"

text \<open>The loop over the missing fragments; it stops at the first one that cannot be queued.\<close>

fun retransmit_loop ::
  "tx_state send_fn \<Rightarrow> u8 list \<Rightarrow> u16 \<Rightarrow> u8 \<Rightarrow> u16 \<Rightarrow> u8 \<Rightarrow> u8 \<Rightarrow> u8 list \<Rightarrow> tx_state \<Rightarrow> bool \<times> tx_state" where
  "retransmit_loop send_fn data len msg_type node_id msg_id total_frags [] tx = (True, tx)"
| "retransmit_loop send_fn data len msg_type node_id msg_id total_frags (idx # missing) tx =
     (case send_fragment_slice send_fn data len msg_type node_id msg_id idx total_frags PQC_FLAG_RETRY tx of
        (ok, tx) \<Rightarrow>
          if \<not> ok then (False, tx)
          else retransmit_loop send_fn data len msg_type node_id msg_id total_frags missing tx)"

definition retransmit_nack_fragments ::
  "u32 \<Rightarrow> (nat \<Rightarrow> clock_time_t) \<Rightarrow> tx_state send_fn \<Rightarrow> pqc_nack_t \<Rightarrow> session_t \<Rightarrow> 'g hs_env \<Rightarrow>
     bool \<times> session_t \<times> 'g hs_env" where
  "retransmit_nack_fragments cs clk send_fn nack s env =
     (let s = upd_frag (\<lambda>m. m\<lparr>mf_nack_rx := mf_nack_rx m + 1\<rparr>) s in
      if nk_missing_msg_id nack \<noteq> s_pending_msg_id s \<or> nk_missing_msg_type nack \<noteq> s_pending_msg_type s
      then (False, s, env)
      else
        case (if session_is_root s \<and> s_pending_msg_type s = HS_MSG_PK
              then Some (he_root_pk env, of_nat CW_HQC_PUBLIC_KEY_LEN)
              else if session_is_node s \<and> s_pending_msg_type s = HS_MSG_CT
              then Some (he_node_ct env, of_nat CW_HQC_CIPHERTEXT_LEN)
              else None) of
          None \<Rightarrow> (False, s, env)
        | Some (data, len) \<Rightarrow>
            let expected_frags = fragment_tx_count len in
            if expected_frags = 0 \<or> nk_total_frags nack \<noteq> expected_frags then (False, s, env)
            else if pqc_tx_free_slots (he_tx env) < nk_missing_count nack
            then (True, s\<lparr>s_retry_deadline := clk 0 + HS_RETRY_TX_DRAIN_DELAY cs\<rparr>, env)
            else
              let (ok, tx) = retransmit_loop send_fn data len (nk_missing_msg_type nack) (s_node_id s)
                               (nk_missing_msg_id nack) expected_frags
                               (take (unat (nk_missing_count nack)) (nk_missing nack)) (he_tx env);
                  env = env\<lparr>he_tx := tx\<rparr>
              in if \<not> ok then (False, s, env)
                 else
                   let s = upd_frag (\<lambda>m. m\<lparr>mf_nack_recovered_fragments :=
                             mf_nack_recovered_fragments m + ucast (nk_missing_count nack)\<rparr>) s;
                       s = s\<lparr>s_retry_deadline := clk 1 + SESSION_RETRY_TIMEOUT cs + hs_transfer_extra cs len\<rparr>
                   in (True, session_touch (clk 2) s, env))"

definition hs_fsm_root_init_keypair :: "'g kem_api \<Rightarrow> 'g hs_env \<Rightarrow> bool \<times> 'g hs_env" where
  "hs_fsm_root_init_keypair kem env =
     (if he_root_has_keypair env then (True, env)
      else
        case crypto_worker_keypair kem (he_prng env) of
          (ok, pk, sk, g) \<Rightarrow>
            let env = env\<lparr>he_root_pk := pk, he_root_sk := sk, he_prng := g\<rparr>
            in if \<not> ok then (False, env) else (True, env\<lparr>he_root_has_keypair := True\<rparr>))"

definition hs_fsm_root_has_keypair :: "'g hs_env \<Rightarrow> bool" where
  "hs_fsm_root_has_keypair env = he_root_has_keypair env"

definition send_getpk_retry ::
  "tx_state send_fn \<Rightarrow> session_t \<Rightarrow> tx_state \<Rightarrow> bool \<times> tx_state" where
  "send_getpk_retry send_fn s tx =
     (let msg = pqc_header_write (replicate PQC_HEADER_LEN 0) PQC_MSG_GETPK (s_node_id s)
                  (s_pending_msg_id s) 0 1 0 PQC_FLAG_RETRY
      in send_fn msg (of_nat PQC_HEADER_LEN) tx)"

section \<open>Parsing\<close>

record frag_hdr =
  fh_msg_type :: u8
  fh_node_id :: u16
  fh_msg_id :: u8
  fh_frag_idx :: u8
  fh_total_frags :: u8
  fh_frag_len :: u8

definition parse_fragment_header :: "u8 list \<Rightarrow> u16 \<Rightarrow> frag_hdr option" where
  "parse_fragment_header data len =
     (if unat len < FRAG_HEADER_LEN \<or> data ! PQC_HDR_VERSION \<noteq> PQC_PROTO_VERSION then None
      else
        let h = \<lparr>fh_msg_type = data ! PQC_HDR_MSG_TYPE, fh_node_id = pqc_header_get_node_id data,
                 fh_msg_id = data ! PQC_HDR_MSG_ID, fh_frag_idx = data ! PQC_HDR_FRAG_IDX,
                 fh_total_frags = data ! PQC_HDR_TOTAL_FRAGS, fh_frag_len = data ! PQC_HDR_PAYLOAD_LEN\<rparr> in
        if fh_total_frags h = 0 \<or> FRAG_MAX_FRAGS < unat (fh_total_frags h) \<or>
           fh_total_frags h \<le> fh_frag_idx h \<or> FRAG_MAX_PAYLOAD_LEN < unat (fh_frag_len h)
        then None
        else if of_nat FRAG_HEADER_LEN + ucast (fh_frag_len h) \<le> len then Some h else None)"

section \<open>Starting a handshake\<close>

text \<open>The root's part of \<open>hs_fsm_start\<close> once the key pair exists: the public key is queued.\<close>

definition hs_start_send_pk ::
  "u32 \<Rightarrow> (nat \<Rightarrow> clock_time_t) \<Rightarrow> tx_state send_fn \<Rightarrow> session_t \<Rightarrow> 'g hs_env \<Rightarrow> bool \<times> session_t \<times> 'g hs_env" where
  "hs_start_send_pk cs clk send_fn s env =
     (if \<not> tx_has_room_for (of_nat CW_HQC_PUBLIC_KEY_LEN) (he_tx env) then (False, s, env)
      else
        let (msg_id, s) = session_next_msg_id s;
            s = session_set_wait_ct s;
            s = hs_set_pending_for_transfer cs clk HS_MSG_PK msg_id (of_nat CW_HQC_PUBLIC_KEY_LEN) s;
            s = upd_hs (\<lambda>m. m\<lparr>mh_pk_tx := mh_pk_tx m + 1\<rparr>) s;
            s = upd_hs (\<lambda>m. m\<lparr>mh_pk_tx_started_at := clk 3\<rparr>) s;
            s = upd_frag (\<lambda>m. m\<lparr>mf_fragments_tx := mf_fragments_tx m + ucast (fragment_tx_count (of_nat CW_HQC_PUBLIC_KEY_LEN))\<rparr>) s;
            (ok, tx) = fragment_tx (he_root_pk env) (of_nat CW_HQC_PUBLIC_KEY_LEN) HS_MSG_PK (s_node_id s) msg_id
                         PQC_FLAG_NONE send_fn (he_tx env);
            env = env\<lparr>he_tx := tx\<rparr>
        in if \<not> ok then (False, session_set_failed (clk 4) s, env)
           else (True, upd_hs (\<lambda>m. m\<lparr>mh_pk_tx_ticks_last := pqc_metrics_elapsed_since (clk 5) (mh_pk_tx_started_at m)\<rparr>) s, env))"

definition hs_fsm_start ::
  "'g kem_api \<Rightarrow> u32 \<Rightarrow> (nat \<Rightarrow> clock_time_t) \<Rightarrow> tx_state send_fn \<Rightarrow> session_t \<Rightarrow> 'g hs_env \<Rightarrow>
     bool \<times> session_t \<times> 'g hs_env" where
  "hs_fsm_start kem cs clk send_fn s env =
     (let env = env\<lparr>he_rx_slots := rx_slots_gc cs (clk 0) (he_rx_slots env)\<rparr> in
      if session_is_root s then
        let s = s\<lparr>s_metrics := pqc_metrics_handshake_start (clk 1) (s_metrics s)\<rparr>;
            keypair_started_at = (if he_root_has_keypair env then 0 else clk 2);
            (ok, env) = hs_fsm_root_init_keypair kem env
        in if \<not> ok then (False, session_set_failed (clk 3) s, env)
           else
             let s = (if keypair_started_at \<noteq> 0
                      then upd_hs (\<lambda>m. m\<lparr>mh_keypair_ticks_last := clk 4 - keypair_started_at\<rparr>) s else s)
             in hs_start_send_pk cs (\<lambda>k. clk (5 + k)) send_fn s env
      else if session_is_node s then
        (if s_state s \<noteq> SESSION_STATE_IDLE \<and> s_state s \<noteq> SESSION_STATE_WAIT_PK then (False, s, env)
         else (True, session_set_wait_pk s, env))
      else (False, s, env))"

section \<open>Receiving a fragment\<close>

text \<open>
  The handlers of a completed message.  \<open>rx\<close> is the completed context; \<open>self\<close> is the reference that
  owns its slot.
\<close>

definition hs_release :: "session_ref \<Rightarrow> 'g hs_env \<Rightarrow> 'g hs_env" where
  "hs_release self env = env\<lparr>he_rx_slots := rx_slot_release self (he_rx_slots env)\<rparr>"

text \<open>A node that has just encapsulated queues the ciphertext (lines 846 to 878).\<close>

definition hs_node_send_ct ::
  "u32 \<Rightarrow> (nat \<Rightarrow> clock_time_t) \<Rightarrow> tx_state send_fn \<Rightarrow> session_t \<Rightarrow> 'g hs_env \<Rightarrow> bool \<times> session_t \<times> 'g hs_env" where
  "hs_node_send_ct cs clk send_fn s env =
     (if \<not> tx_has_room_for (of_nat CW_HQC_CIPHERTEXT_LEN) (he_tx env)
      then (False, session_set_failed (clk 0) s, env\<lparr>he_node_ct := crypto_worker_secure_zero (he_node_ct env)\<rparr>)
      else
        let s = session_clear_pending s;
            (ct_msg_id, s) = session_next_msg_id s;
            s = session_set_wait_ack s;
            s = hs_set_pending_for_transfer cs (\<lambda>k. clk (1 + k)) HS_MSG_CT ct_msg_id (of_nat CW_HQC_CIPHERTEXT_LEN) s;
            s = upd_hs (\<lambda>m. m\<lparr>mh_ct_tx := mh_ct_tx m + 1\<rparr>) s;
            s = upd_hs (\<lambda>m. m\<lparr>mh_ct_tx_started_at := clk 4\<rparr>) s;
            s = upd_frag (\<lambda>m. m\<lparr>mf_fragments_tx := mf_fragments_tx m + ucast (fragment_tx_count (of_nat CW_HQC_CIPHERTEXT_LEN))\<rparr>) s;
            (ok, tx) = fragment_tx (he_node_ct env) (of_nat CW_HQC_CIPHERTEXT_LEN) HS_MSG_CT (s_node_id s) ct_msg_id
                         PQC_FLAG_NONE send_fn (he_tx env);
            env = env\<lparr>he_tx := tx\<rparr>
        in if \<not> ok
           then (False, session_set_failed (clk 5) s, env\<lparr>he_node_ct := crypto_worker_secure_zero (he_node_ct env)\<rparr>)
           else (True, upd_hs (\<lambda>m. m\<lparr>mh_ct_tx_ticks_last := pqc_metrics_elapsed_since (clk 6) (mh_ct_tx_started_at m)\<rparr>) s, env))"

definition hs_node_complete_pk ::
  "'g kem_api \<Rightarrow> u32 \<Rightarrow> (nat \<Rightarrow> clock_time_t) \<Rightarrow> tx_state send_fn \<Rightarrow> session_ref \<Rightarrow> fragment_rx_ctx_t \<Rightarrow>
     session_t \<Rightarrow> 'g hs_env \<Rightarrow> bool \<times> session_t \<times> 'g hs_env" where
  "hs_node_complete_pk kem cs clk send_fn self rx s env =
     (if unat (fragment_rx_len rx) \<noteq> CW_HQC_PUBLIC_KEY_LEN
      then (False, session_set_failed (clk 0) s, hs_release self env)
      else
        let s = upd_hs (\<lambda>m. m\<lparr>mh_pk_rx_complete := mh_pk_rx_complete m + 1\<rparr>) s;
            s = upd_hs (\<lambda>m. m\<lparr>mh_pk_rx_completed_at := clk 1\<rparr>) s;
            s = upd_hs (\<lambda>m. if mh_handshake_started_at m \<noteq> 0
                            then m\<lparr>mh_pk_rx_ticks_last := pqc_metrics_elapsed_since (clk 2) (mh_handshake_started_at m)\<rparr>
                            else m) s;
            started_at = clk 3;
            (ok, ct, ss, g) = crypto_worker_encapsulate kem (take CW_HQC_PUBLIC_KEY_LEN (rx_buffer rx)) (he_prng env);
            env = env\<lparr>he_node_ct := ct, he_prng := g\<rparr>;
            s = s\<lparr>s_ss := ss\<rparr>
        in if \<not> ok then (False, session_set_failed (clk 4) s, hs_release self env)
           else
             let s = upd_hs (\<lambda>m. m\<lparr>mh_encaps_ticks_last := clk 5 - started_at\<rparr>) s;
                 s = s\<lparr>s_aes_key := crypto_worker_derive_aes_key (s_ss s)\<rparr>;
                 env = hs_release self env
             in hs_node_send_ct cs (\<lambda>k. clk (6 + k)) send_fn s env)"

definition hs_node_complete_ack ::
  "(nat \<Rightarrow> clock_time_t) \<Rightarrow> session_ref \<Rightarrow> fragment_rx_ctx_t \<Rightarrow> session_t \<Rightarrow> 'g hs_env \<Rightarrow>
     bool \<times> session_t \<times> 'g hs_env" where
  "hs_node_complete_ack clk self rx s env =
     (if unat (fragment_rx_len rx) \<noteq> 1 \<or> fragment_rx_data rx = None \<or> rx_buffer rx ! 0 \<noteq> s_pending_msg_id s
      then (False, s, hs_release self env)
      else
        let s = session_set_established s;
            s = upd_hs (\<lambda>m. m\<lparr>mh_ack_rx := mh_ack_rx m + 1\<rparr>) s;
            s = upd_hs (\<lambda>m. m\<lparr>mh_ack_rx_at := clk 0\<rparr>) s;
            s = upd_hs (\<lambda>m. if mh_ct_tx_started_at m \<noteq> 0
                            then m\<lparr>mh_ack_wait_ticks_last := pqc_metrics_elapsed_since (clk 1) (mh_ct_tx_started_at m)\<rparr>
                            else m) s;
            s = s\<lparr>s_metrics := pqc_metrics_handshake_success (clk 2) (s_metrics s)\<rparr>;
            env = env\<lparr>he_node_ct := crypto_worker_secure_zero (he_node_ct env)\<rparr>
        in (True, s, hs_release self env))"

text \<open>The root decapsulates the ciphertext it has copied (lines 929 to 964).\<close>

definition hs_root_accept_ct ::
  "'g kem_api \<Rightarrow> (nat \<Rightarrow> clock_time_t) \<Rightarrow> tx_state send_fn \<Rightarrow> u8 \<Rightarrow> session_t \<Rightarrow> 'g hs_env \<Rightarrow>
     bool \<times> session_t \<times> 'g hs_env" where
  "hs_root_accept_ct kem clk send_fn msg_id s env =
     (let wipe = (\<lambda>env. env\<lparr>he_root_ct := crypto_worker_secure_zero (he_root_ct env)\<rparr>) in
      if session_is_established s then
        let env = wipe env;
            (ok, s, tx) = send_ack send_fn msg_id s (he_tx env)
        in (ok, s, env\<lparr>he_tx := tx\<rparr>)
      else if s_state s \<noteq> SESSION_STATE_WAIT_CT then (False, s, wipe env)
      else if \<not> hs_fsm_root_has_keypair env then (False, session_set_failed (clk 0) s, wipe env)
      else
        let started_at = clk 1;
            (ok, ss) = crypto_worker_decapsulate kem (he_root_sk env) (he_root_ct env);
            s = s\<lparr>s_ss := ss\<rparr>
        in if \<not> ok then (False, session_set_failed (clk 2) s, wipe env)
           else
             let s = upd_hs (\<lambda>m. m\<lparr>mh_decaps_ticks_last := clk 3 - started_at\<rparr>) s;
                 env = wipe env;
                 s = s\<lparr>s_aes_key := crypto_worker_derive_aes_key (s_ss s)\<rparr>;
                 s = session_set_established s;
                 s = s\<lparr>s_metrics := pqc_metrics_handshake_success (clk 4) (s_metrics s)\<rparr>;
                 (ok, s, tx) = send_ack send_fn msg_id s (he_tx env)
             in (ok, s, env\<lparr>he_tx := tx\<rparr>))"

definition hs_root_complete_ct ::
  "'g kem_api \<Rightarrow> (nat \<Rightarrow> clock_time_t) \<Rightarrow> tx_state send_fn \<Rightarrow> session_ref \<Rightarrow> fragment_rx_ctx_t \<Rightarrow> u8 \<Rightarrow>
     session_t \<Rightarrow> 'g hs_env \<Rightarrow> bool \<times> session_t \<times> 'g hs_env" where
  "hs_root_complete_ct kem clk send_fn self rx msg_id s env =
     (if unat (fragment_rx_len rx) \<noteq> CW_HQC_CIPHERTEXT_LEN
      then (False, session_set_failed (clk 0) s, hs_release self env)
      else
        let s = upd_hs (\<lambda>m. m\<lparr>mh_ct_rx_complete := mh_ct_rx_complete m + 1\<rparr>) s;
            s = upd_hs (\<lambda>m. m\<lparr>mh_ct_rx_completed_at := clk 1\<rparr>) s;
            s = upd_hs (\<lambda>m. if mh_ct_rx_started_at m \<noteq> 0
                            then m\<lparr>mh_ct_rx_ticks_last := pqc_metrics_elapsed_since (clk 2) (mh_ct_rx_started_at m)\<rparr>
                            else m) s;
            env = env\<lparr>he_root_ct := memcpy_at (he_root_ct env) 0 (take CW_HQC_CIPHERTEXT_LEN (rx_buffer rx))\<rparr>;
            env = hs_release self env
        in hs_root_accept_ct kem (\<lambda>k. clk (3 + k)) send_fn msg_id s env)"

definition hs_complete_message ::
  "'g kem_api \<Rightarrow> u32 \<Rightarrow> (nat \<Rightarrow> clock_time_t) \<Rightarrow> tx_state send_fn \<Rightarrow> session_ref \<Rightarrow> fragment_rx_ctx_t \<Rightarrow>
     frag_hdr \<Rightarrow> session_t \<Rightarrow> 'g hs_env \<Rightarrow> bool \<times> session_t \<times> 'g hs_env" where
  "hs_complete_message kem cs clk send_fn self rx h s env =
     (if session_is_node s \<and> fh_msg_type h = HS_MSG_PK
      then hs_node_complete_pk kem cs clk send_fn self rx s env
      else if session_is_node s \<and> fh_msg_type h = HS_MSG_ACK
      then hs_node_complete_ack clk self rx s env
      else if session_is_root s \<and> fh_msg_type h = HS_MSG_CT
      then hs_root_complete_ct kem clk send_fn self rx (fh_msg_id h) s env
      else (False, s, hs_release self env))"

text \<open>Storing a fragment and, when it completes the message, handling the message (lines 760 to 973).\<close>

definition hs_store_fragment ::
  "'g kem_api \<Rightarrow> u32 \<Rightarrow> (nat \<Rightarrow> clock_time_t) \<Rightarrow> tx_state send_fn \<Rightarrow> session_ref \<Rightarrow> u8 list \<Rightarrow> frag_hdr \<Rightarrow>
     session_t \<Rightarrow> 'g hs_env \<Rightarrow> bool \<times> session_t \<times> 'g hs_env" where
  "hs_store_fragment kem cs clk send_fn self data h s env =
     (case rx_slot_get cs (clk 0) (clk 1) self (he_rx_slots env) of
        (None, slots) \<Rightarrow> (False, s, env\<lparr>he_rx_slots := slots\<rparr>)
      | (Some i, slots) \<Rightarrow>
          let (ok, rx) = fragment_rx_add (sl_ctx (slots ! i)) (fh_msg_type h) (fh_node_id h) (fh_msg_id h)
                           (fh_frag_idx h) (fh_total_frags h) (drop FRAG_HEADER_LEN data) (ucast (fh_frag_len h));
              slots = slots[i := (slots ! i)\<lparr>sl_ctx := rx\<rparr>];
              env = env\<lparr>he_rx_slots := slots\<rparr>
          in if \<not> ok then (False, s, env)
             else
               let s = upd_frag (\<lambda>m. m\<lparr>mf_fragments_rx := mf_fragments_rx m + 1\<rparr>) s;
                   s = session_touch (clk 2) s
               in if \<not> fragment_rx_complete rx
                  then
                    (if fh_msg_type h \<noteq> HS_MSG_NACK \<and> rx_slot_nack_due cs (clk 3) self i (fh_frag_idx h) slots
                     then
                       let (missing_count, s, tx) = send_nack send_fn rx s (he_tx env);
                           (s, slots) = rx_slot_note_nack cs (clk 4) (clk 5) self i missing_count s slots
                       in (True, s, env\<lparr>he_tx := tx, he_rx_slots := slots\<rparr>)
                     else (True, s, env))
                  else hs_complete_message kem cs (\<lambda>k. clk (6 + k)) send_fn self rx h s env)"

text \<open>
  The tests that \<open>hs_fsm_handle_fragment\<close> makes on the session before it stores a fragment (lines 702
  to 741).  A node without an identifier adopts the one in the packet.
\<close>

datatype hs_gate = Gate_Drop | Gate_Duplicate_CT | Gate_Pass

definition hs_gate_session :: "frag_hdr \<Rightarrow> session_t \<Rightarrow> session_t option" where
  "hs_gate_session h s =
     (if session_is_root s \<and> s_node_id s \<noteq> fh_node_id h then None
      else if session_is_node s \<and> s_node_id s = SESSION_INVALID_NODE_ID then Some (s\<lparr>s_node_id := fh_node_id h\<rparr>)
      else if session_is_node s \<and> s_node_id s \<noteq> fh_node_id h then None
      else Some s)"

definition hs_gate_message :: "frag_hdr \<Rightarrow> session_t \<Rightarrow> hs_gate" where
  "hs_gate_message h s =
     (if session_is_node s \<and> fh_msg_type h = HS_MSG_PK \<and>
         (s_state s \<noteq> SESSION_STATE_WAIT_PK \<or> s_pending_msg_type s \<noteq> PQC_MSG_GETPK) then Gate_Drop
      else if session_is_node s \<and> fh_msg_type h = HS_MSG_ACK \<and>
         (s_state s \<noteq> SESSION_STATE_WAIT_ACK \<or> s_pending_msg_type s \<noteq> HS_MSG_CT) then Gate_Drop
      else if session_is_root s \<and> session_is_established s \<and> fh_msg_type h = HS_MSG_CT then Gate_Duplicate_CT
      else if session_is_root s \<and> fh_msg_type h = HS_MSG_CT \<and> s_state s \<noteq> SESSION_STATE_WAIT_CT then Gate_Drop
      else Gate_Pass)"

definition hs_fsm_handle_fragment ::
  "'g kem_api \<Rightarrow> u32 \<Rightarrow> (nat \<Rightarrow> clock_time_t) \<Rightarrow> tx_state send_fn \<Rightarrow> session_ref \<Rightarrow> u8 list \<Rightarrow> u16 \<Rightarrow>
     session_t \<Rightarrow> 'g hs_env \<Rightarrow> bool \<times> session_t \<times> 'g hs_env" where
  "hs_fsm_handle_fragment kem cs clk send_fn self data len s env =
     (let env = env\<lparr>he_rx_slots := rx_slots_gc cs (clk 0) (he_rx_slots env)\<rparr> in
      case parse_fragment_header data len of
        None \<Rightarrow> (False, s, env)
      | Some h \<Rightarrow>
          (case hs_gate_session h s of
             None \<Rightarrow> (False, s, env)
           | Some s \<Rightarrow>
               (case hs_gate_message h s of
                  Gate_Drop \<Rightarrow> (False, s, env)
                | Gate_Duplicate_CT \<Rightarrow>
                    if fh_frag_idx h = 0 \<or> unat (fh_frag_idx h) + 1 = unat (fh_total_frags h)
                    then let (ok, s, tx) = send_ack send_fn (fh_msg_id h) s (he_tx env)
                         in (True, s, env\<lparr>he_tx := tx\<rparr>)
                    else (True, s, env)
                | Gate_Pass \<Rightarrow>
                    if fh_msg_type h = HS_MSG_NACK
                    then
                      (if fh_frag_idx h \<noteq> 0 \<or> fh_total_frags h \<noteq> 1 then (False, s, env)
                       else
                         case pqc_nack_decode (drop FRAG_HEADER_LEN data) (fh_frag_len h) nack_zero of
                           (False, nack) \<Rightarrow> (False, s, env)
                         | (True, nack) \<Rightarrow> retransmit_nack_fragments cs (\<lambda>k. clk (1 + k)) send_fn nack s env)
                    else hs_store_fragment kem cs (\<lambda>k. clk (1 + k)) send_fn self data h s env)))"

section \<open>Retrying\<close>

text \<open>The root whose ciphertext is overdue asks for what is missing (lines 1005 to 1027).\<close>

definition hs_retry_root_ct ::
  "u32 \<Rightarrow> (nat \<Rightarrow> clock_time_t) \<Rightarrow> tx_state send_fn \<Rightarrow> session_ref \<Rightarrow> session_t \<Rightarrow> 'g hs_env \<Rightarrow>
     bool \<times> session_t \<times> 'g hs_env" where
  "hs_retry_root_ct cs clk send_fn self s env =
     (let give_up = (\<lambda>s env. (False, session_set_failed (clk 5) s, hs_release self env)) in
      case rx_slot_find self (he_rx_slots env) of
        None \<Rightarrow> give_up s env
      | Some i \<Rightarrow>
          let rx = sl_ctx (he_rx_slots env ! i) in
          if rx_active rx \<and> \<not> fragment_rx_complete rx
          then
            let (missing_count, s, tx) = send_nack send_fn rx s (he_tx env);
                env = env\<lparr>he_tx := tx\<rparr>
            in if missing_count \<noteq> 0
               then
                 let slots = rx_slot_touch (clk 0) self (he_rx_slots env);
                     (s, slots) = rx_slot_note_nack cs (clk 1) (clk 2) self i missing_count s slots;
                     s = hs_mark_rx_retry cs (\<lambda>k. clk (3 + k)) s
                 in (True, s, env\<lparr>he_rx_slots := slots\<rparr>)
               else give_up s env
          else give_up s env)"

text \<open>Resending the message that is pending (lines 1029 to 1094).\<close>

definition hs_retry_resend ::
  "u32 \<Rightarrow> (nat \<Rightarrow> clock_time_t) \<Rightarrow> tx_state send_fn \<Rightarrow> session_t \<Rightarrow> 'g hs_env \<Rightarrow> bool \<times> session_t \<times> 'g hs_env" where
  "hs_retry_resend cs clk send_fn s env =
     (if session_is_node s \<and> s_pending_msg_type s = PQC_MSG_GETPK then
        let (queued, tx) = send_getpk_retry send_fn s (he_tx env);
            s = (if queued then hs_mark_retry_for_transfer cs clk (of_nat PQC_HEADER_LEN) s else s)
        in (queued, s, env\<lparr>he_tx := tx\<rparr>)
      else if session_is_root s \<and> s_pending_msg_type s = HS_MSG_PK then
        (if \<not> hs_fsm_root_has_keypair env then (False, session_set_failed (clk 0) s, env)
         else if \<not> tx_has_room_for (of_nat CW_HQC_PUBLIC_KEY_LEN) (he_tx env)
         then (True, s\<lparr>s_retry_deadline := clk 0 + HS_RETRY_TX_DRAIN_DELAY cs\<rparr>, env)
         else
           let (queued, tx) = fragment_tx (he_root_pk env) (of_nat CW_HQC_PUBLIC_KEY_LEN) HS_MSG_PK (s_node_id s)
                                (s_pending_msg_id s) PQC_FLAG_RETRY send_fn (he_tx env);
               s = (if queued then hs_mark_retry_for_transfer cs clk (of_nat CW_HQC_PUBLIC_KEY_LEN) s else s)
           in (queued, s, env\<lparr>he_tx := tx\<rparr>))
      else if session_is_node s \<and> s_pending_msg_type s = HS_MSG_CT then
        (if \<not> tx_has_room_for (of_nat CW_HQC_CIPHERTEXT_LEN) (he_tx env)
         then (True, s\<lparr>s_retry_deadline := clk 0 + HS_RETRY_TX_DRAIN_DELAY cs\<rparr>, env)
         else
           let (queued, tx) = fragment_tx (he_node_ct env) (of_nat CW_HQC_CIPHERTEXT_LEN) HS_MSG_CT (s_node_id s)
                                (s_pending_msg_id s) PQC_FLAG_RETRY send_fn (he_tx env);
               s = (if queued then hs_mark_retry_for_transfer cs clk (of_nat CW_HQC_CIPHERTEXT_LEN) s else s)
           in (queued, s, env\<lparr>he_tx := tx\<rparr>))
      else (False, s, env))"

definition hs_fsm_retry ::
  "u32 \<Rightarrow> (nat \<Rightarrow> clock_time_t) \<Rightarrow> tx_state send_fn \<Rightarrow> session_ref \<Rightarrow> session_t \<Rightarrow> 'g hs_env \<Rightarrow>
     bool \<times> session_t \<times> 'g hs_env" where
  "hs_fsm_retry cs clk send_fn self s env =
     (let env = env\<lparr>he_rx_slots := rx_slots_gc cs (clk 0) (he_rx_slots env)\<rparr> in
      if \<not> session_retry_due (clk 1) s then (True, s, env)
      else if pqc_tx_has_pending (he_tx env)
      then (True, s\<lparr>s_retry_deadline := clk 2 + HS_RETRY_TX_DRAIN_DELAY cs\<rparr>, env)
      else if \<not> session_can_retry s
      then
        let s = session_set_failed (clk 3) s;
            env = hs_release self env;
            env = (if session_is_node s then env\<lparr>he_node_ct := crypto_worker_secure_zero (he_node_ct env)\<rparr> else env)
        in (False, s, env)
      else if session_is_root s \<and> s_pending_msg_type s = HS_MSG_CT
      then hs_retry_root_ct cs (\<lambda>k. clk (4 + k)) send_fn self s env
      else hs_retry_resend cs (\<lambda>k. clk (4 + k)) send_fn s (hs_release self env))"

end
