(* ===== verification/Handshake_Slots.thy ===== *)
theory Handshake_Slots
  imports Handshake
begin

text \<open>
  Facts the handshake lemmas share: the reassembly slots are a slot table whose invariant every
  operation keeps, the parts of a session that sending leaves alone, and what the transmit queue holds
  after a message, an acknowledgement, a NACK or a retransmission has been queued.
\<close>

section \<open>The reassembly slots\<close>

interpretation rx_table: slot_table sl_active sl_owner rx_slot_find "rx_slot_acquire now" for now
proof
  fix k es i j
  show "rx_slot_find k es = first_index (\<lambda>i. sl_active (es ! i) \<and> sl_owner (es ! i) = Some k) (length es)"
    by (simp add: rx_slot_find_def)
  show "rx_slot_find k es = Some i \<Longrightarrow> rx_slot_acquire now k es = (Some i, es)"
    by (simp add: rx_slot_acquire_def)
  show "rx_slot_find k es = None \<Longrightarrow> first_index (\<lambda>i. \<not> sl_active (es ! i)) (length es) = Some j \<Longrightarrow>
      \<exists>e. rx_slot_acquire now k es = (Some j, es[j := e]) \<and> sl_active e \<and> sl_owner e = Some k"
    by (intro exI [of _ "(es ! j)\<lparr>sl_active := True, sl_owner := Some k,
                  sl_started_at := now, sl_last_nack_at := 0, sl_last_nack_received_frags := 0,
                  sl_last_nack_missing_count := 0, sl_ctx := fragment_rx_init\<rparr>"])
      (simp add: rx_slot_acquire_def)
  show "rx_slot_find k es = None \<Longrightarrow> first_index (\<lambda>i. \<not> sl_active (es ! i)) (length es) = None \<Longrightarrow>
      rx_slot_acquire now k es = (None, es)"
    by (simp add: rx_slot_acquire_def)
qed

definition rx_slots_inv :: "hs_rx_slot_t list \<Rightarrow> bool" where
  "rx_slots_inv slots \<longleftrightarrow> length slots = 2 \<and> rx_table.keys_distinct slots \<and>
     (\<forall>slot\<in>set slots. rx_inv (sl_ctx slot) \<and> (sl_active slot \<longleftrightarrow> sl_owner slot \<noteq> None))"

lemma rx_slot_clear_fields [simp]:
  "\<not> sl_active (rx_slot_clear slot)" "sl_owner (rx_slot_clear slot) = None"
  "rx_inv (sl_ctx (rx_slot_clear slot))"
  by (simp_all add: rx_slot_clear_def)

lemma keys_distinct_update:
  assumes "rx_table.keys_distinct slots" and "i < length slots \<Longrightarrow> sl_active slot \<Longrightarrow>
      sl_active (slots ! i) \<and> sl_owner slot = sl_owner (slots ! i)"
  shows "rx_table.keys_distinct (slots[i := slot])"
proof -
  have "sl_active (slots ! k) \<and> sl_owner (slots[i := slot] ! k) = sl_owner (slots ! k)"
    if "k < length slots" "sl_active (slots[i := slot] ! k)" for k
    using that assms(2) by (cases "k = i") auto
  with assms(1) show ?thesis unfolding rx_table.keys_distinct_def length_list_update by metis
qed

lemma rx_slots_inv_update:
  assumes "rx_slots_inv slots" and "rx_inv (sl_ctx slot)" and "sl_active slot \<longleftrightarrow> sl_owner slot \<noteq> None"
    and "i < length slots \<Longrightarrow> sl_active slot \<Longrightarrow> sl_active (slots ! i) \<and> sl_owner slot = sl_owner (slots ! i)"
  shows "rx_slots_inv (slots[i := slot])"
  using assms keys_distinct_update [of slots i slot] set_update_subset_insert [of slots i slot]
  by (auto simp: rx_slots_inv_def)

lemma rx_slots_inv_gc: "rx_slots_inv slots \<Longrightarrow> rx_slots_inv (rx_slots_gc cs now slots)"
  by (auto simp: rx_slots_inv_def rx_slots_gc_def rx_table.keys_distinct_def)

lemma rx_slots_inv_acquire:
  assumes "rx_slots_inv slots" and "rx_slot_acquire now self slots = (r, slots')"
  shows "rx_slots_inv slots'"
proof (cases r)
  case None
  then show ?thesis using assms by (auto simp: rx_slot_acquire_def split: option.splits)
next
  case (Some i)
  have "rx_table.keys_distinct slots'"
    using rx_table.acquire_lookup [of slots now self i slots'] assms Some by (simp add: rx_slots_inv_def)
  moreover have "length slots' = 2"
    using rx_table.acquire_length [OF assms(2)] assms(1) by (simp add: rx_slots_inv_def)
  moreover have "\<forall>slot\<in>set slots'. rx_inv (sl_ctx slot) \<and> (sl_active slot \<longleftrightarrow> sl_owner slot \<noteq> None)"
    using assms
    by (auto simp: rx_slot_acquire_def rx_slots_inv_def split: option.splits dest!: set_update_subset_insert [THEN subsetD])
  ultimately show ?thesis by (simp add: rx_slots_inv_def)
qed

lemma rx_slots_inv_ops:
  assumes "rx_slots_inv slots"
  shows "rx_slots_inv (rx_slot_touch now self slots)" and "rx_slots_inv (rx_slot_release self slots)"
    and "rx_slots_inv (snd (rx_slot_note_nack cs a b self rx m s slots))"
    and "rx_slots_inv (snd (rx_slot_get cs a b self slots))"
proof -
  have mem: "i < length slots \<Longrightarrow> rx_inv (sl_ctx (slots ! i)) \<and> (sl_active (slots ! i) \<longleftrightarrow> sl_owner (slots ! i) \<noteq> None)" for i
    using assms by (simp add: rx_slots_inv_def)
  show "rx_slots_inv (rx_slot_touch now self slots)"
  proof (cases "rx_slot_find self slots")
    case (Some i)
    with assms mem [of i] rx_table.lookup_Some [OF Some] show ?thesis
      by (simp add: rx_slot_touch_def rx_slots_inv_update)
  qed (use assms in \<open>simp add: rx_slot_touch_def\<close>)
  show "rx_slots_inv (rx_slot_release self slots)"
  proof (cases "rx_slot_find self slots")
    case (Some i)
    have "rx_slots_inv (slots[i := rx_slot_clear (slots ! i)])"
      using assms by (rule rx_slots_inv_update) simp_all
    with Some show ?thesis by (simp add: rx_slot_release_def)
  qed (use assms in \<open>simp add: rx_slot_release_def\<close>)
  show "rx_slots_inv (snd (rx_slot_note_nack cs a b self rx m s slots))"
  proof (cases "first_index (\<lambda>i. sl_active (slots ! i) \<and> sl_owner (slots ! i) = Some self \<and> i = rx) (length slots)")
    case (Some i)
    then have "i < length slots" "sl_active (slots ! i)" "sl_owner (slots ! i) = Some self"
      by (auto simp: first_index_Some)
    with assms mem [of i] Some show ?thesis
      by (simp add: rx_slot_note_nack_def Let_def rx_slots_inv_update)
  qed (use assms in \<open>simp add: rx_slot_note_nack_def\<close>)
  show "rx_slots_inv (snd (rx_slot_get cs a b self slots))"
    using rx_slots_inv_acquire [OF rx_slots_inv_gc [OF assms]] by (cases "rx_slot_acquire b self (rx_slots_gc cs a slots)")
      (auto simp: rx_slot_get_def)
qed

text \<open>After a release the session owns no slot.\<close>

lemma rx_slot_release_find:
  assumes "rx_slots_inv slots"
  shows "rx_slot_find self (rx_slot_release self slots) = None"
proof (cases "rx_slot_find self slots")
  case None
  then show ?thesis by (simp add: rx_slot_release_def)
next
  case (Some i)
  have i: "i < length slots" "sl_active (slots ! i)" "sl_owner (slots ! i) = Some self"
    using rx_table.lookup_Some [OF Some] by auto
  have u: "j = i" if "j < length slots" "sl_active (slots ! j)" "sl_owner (slots ! j) = Some self" for j
    using assms i that unfolding rx_slots_inv_def rx_table.keys_distinct_def by metis
  have "sl_owner (slots[i := rx_slot_clear (slots ! i)] ! j) \<noteq> Some self"
    if "j < length slots" "sl_active (slots[i := rx_slot_clear (slots ! i)] ! j)" for j
  proof (cases "j = i")
    case True
    with that(2) i(1) show ?thesis by simp
  next
    case False
    with that u [of j] show ?thesis by (metis nth_list_update_neq)
  qed
  then show ?thesis
    using Some by (simp add: rx_slot_release_def rx_table.lookup_None)
qed

section \<open>What a handler leaves alone\<close>

text \<open>
  Two sessions that differ at most in the metrics, the message counter, the retry deadline and the
  time of the last activity.
\<close>

definition same_core :: "session_t \<Rightarrow> session_t \<Rightarrow> bool" where
  "same_core s s' \<longleftrightarrow> s' = s\<lparr>s_next_msg_id := s_next_msg_id s', s_metrics := s_metrics s',
     s_retry_deadline := s_retry_deadline s', s_last_activity := s_last_activity s'\<rparr>"

lemma same_core_refl [simp]: "same_core s s"
  by (simp add: same_core_def)

lemma same_core_fields:
  assumes "same_core s s'"
  shows "s_used s' = s_used s" "s_node_id s' = s_node_id s" "s_role s' = s_role s" "s_state s' = s_state s"
    "s_established s' = s_established s" "s_tx_counter s' = s_tx_counter s" "s_rx_counter s' = s_rx_counter s"
    "s_ss s' = s_ss s" "s_aes_key s' = s_aes_key s" "s_retry_count s' = s_retry_count s"
    "s_pending_msg_type s' = s_pending_msg_type s" "s_pending_msg_id s' = s_pending_msg_id s"
    "s_waiting_response s' = s_waiting_response s" "s_has_peer_addr s' = s_has_peer_addr s"
    "s_peer_addr s' = s_peer_addr s"
proof -
  obtain n m d l where "s' = s\<lparr>s_next_msg_id := n, s_metrics := m, s_retry_deadline := d, s_last_activity := l\<rparr>"
    using assms unfolding same_core_def by metis
  then show "s_used s' = s_used s" "s_node_id s' = s_node_id s" "s_role s' = s_role s" "s_state s' = s_state s"
    "s_established s' = s_established s" "s_tx_counter s' = s_tx_counter s" "s_rx_counter s' = s_rx_counter s"
    "s_ss s' = s_ss s" "s_aes_key s' = s_aes_key s" "s_retry_count s' = s_retry_count s"
    "s_pending_msg_type s' = s_pending_msg_type s" "s_pending_msg_id s' = s_pending_msg_id s"
    "s_waiting_response s' = s_waiting_response s" "s_has_peer_addr s' = s_has_peer_addr s"
    "s_peer_addr s' = s_peer_addr s" by simp_all
qed

lemma same_coreI:
  "s' = s\<lparr>s_next_msg_id := n, s_metrics := m, s_retry_deadline := d, s_last_activity := l\<rparr> \<Longrightarrow> same_core s s'"
  by (simp add: same_core_def)

lemma same_core_trans [trans]: "same_core a b \<Longrightarrow> same_core b c \<Longrightarrow> same_core a c"
  by (cases a; cases b; cases c) (simp add: same_core_def)

section \<open>Queueing messages\<close>

text \<open>The sender that every caller of the handshake passes: the transmit queue towards one peer.\<close>

abbreviation (input) queue_send :: "udp_conn \<Rightarrow> uip_ipaddr_t \<Rightarrow> tx_state send_fn" where
  "queue_send conn dest \<equiv> pqc_udp_send_fragment \<lparr>uc_udp_conn = Some conn, uc_dest = Some dest\<rparr>"

lemma fragment_packet_take:
  assumes "unat idx < 72" and "64 * unat idx < unat len"
  shows "fragment_packet (take (unat len) data) len mt nid mid idx tot flags =
    fragment_packet data len mt nid mid idx tot flags"
proof -
  have off: "unat (ucast idx * 64 :: u16) = unat idx * 64" using assms(1) by (rule frag_offset_unat)
  have rem: "unat (len - ucast idx * 64 :: u16) = unat len - 64 * unat idx"
    using off assms(2) by (subst unat_sub) (auto simp: word_le_nat_alt)
  let ?fl = "(if 64 < unat (len - ucast idx * 64 :: u16) then of_nat 64 else ucast (len - ucast idx * 64 :: u16)) :: u8"
  have "unat ?fl \<le> unat len - 64 * unat idx"
    using rem by (auto simp: unsigned_ucast_eq take_bit_nat_eq_self)
  then have "take (unat ?fl) (drop (64 * unat idx) (take (unat len) data)) =
      take (unat ?fl) (drop (64 * unat idx) data)"
    by (simp add: drop_take min_absorb1 split del: if_split)
  then show ?thesis
    by (simp add: fragment_packet_def Let_def off mult.commute split del: if_split)
qed

lemma fragment_tx_take:
  assumes "0 < unat len" "unat len \<le> 4608"
  shows "fragment_tx (take (unat len) data) len mt nid mid flags send w = fragment_tx data len mt nid mid flags send w"
proof -
  have n: "unat (fragment_tx_count len) = (unat len + 63) div 64" using assms by (rule fragment_tx_count_eq)
  have "fragment_tx_loop send (take (unat len) data) len mt nid mid tot flags (map of_nat is) w =
      fragment_tx_loop send data len mt nid mid tot flags (map of_nat is) w"
    if "\<forall>i\<in>set is. i < (unat len + 63) div 64" for "is" tot w
    using that
  proof (induction "is" arbitrary: w)
    case (Cons i "is")
    then have "i < 72" "64 * i < unat len" using assms(2) by auto
    with fragment_packet_take [of "of_nat i" len data] Cons show ?case
      by (simp split: prod.split)
  qed simp
  from this [of "[0..<unat (fragment_tx_count len)]"] n show ?thesis
    by (simp add: fragment_tx_def Let_def)
qed

text \<open>A message goes into the queue in full when there is room for it, and otherwise fills the queue.\<close>

lemma fragment_tx_queue:
  assumes inv: "tx_inv tx" and len: "0 < unat len" "unat len \<le> 4608" "unat len \<le> length data"
    and tx: "fragment_tx data len mt nid mid flags (queue_send conn dest) tx = (ok, tx')"
  shows "tx_inv tx'" and "ok \<longleftrightarrow> unat (fragment_tx_count len) \<le> tx_free tx"
    and "ok \<Longrightarrow> tx_pending tx' = tx_pending tx +
      mset (map (wire_fragment (take (unat len) data) mt nid mid flags) [0..<unat (fragment_tx_count len)])"
    and "ok \<Longrightarrow> tx_free tx' + unat (fragment_tx_count len) = tx_free tx"
proof -
  let ?d = "take (unat len) data"
  have d: "0 < length ?d" "length ?d \<le> 4608" "of_nat (length ?d) = len" using len by auto
  then have fc: "frag_count ?d = unat (fragment_tx_count len)" by (simp add: frag_count_def)
  have eq: "fragment_tx ?d (of_nat (length ?d)) mt nid mid flags (queue_send conn dest) tx = (ok, tx')"
    using tx d(3) by (simp add: fragment_tx_take [OF len(1,2)] del: length_take)
  have *: "tx_inv tx' \<and> (ok \<longleftrightarrow> frag_count ?d \<le> tx_free tx) \<and>
      (ok \<longrightarrow> tx_pending tx' = tx_pending tx + mset (map (wire_fragment ?d mt nid mid flags) [0..<frag_count ?d]) \<and>
        tx_free tx' + frag_count ?d = tx_free tx)"
  proof (cases "frag_count ?d \<le> tx_free tx")
    case True
    from tx_sender.fragment_tx_room [OF d(1,2) inv True, of mt nid mid flags conn dest] eq True show ?thesis
      by (auto simp del: mset_map)
  next
    case False
    with tx_sender.fragment_tx_no_room [OF d(1,2) inv, of mt nid mid flags conn dest] eq show ?thesis by auto
  qed
  then show "tx_inv tx'" "ok \<longleftrightarrow> unat (fragment_tx_count len) \<le> tx_free tx"
    "ok \<Longrightarrow> tx_pending tx' = tx_pending tx +
      mset (map (wire_fragment ?d mt nid mid flags) [0..<unat (fragment_tx_count len)])"
    "ok \<Longrightarrow> tx_free tx' + unat (fragment_tx_count len) = tx_free tx"
    unfolding fc by blast+
qed

lemma tx_has_room_for_iff:
  "tx_inv tx \<Longrightarrow> tx_has_room_for len tx \<longleftrightarrow>
     fragment_tx_count len \<noteq> 0 \<and> unat (fragment_tx_count len) \<le> tx_free tx"
  by (simp add: tx_has_room_for_def Let_def word_le_nat_alt tx_free_slots_unat)

lemma fragment_counts [simp]:
  "unat (fragment_tx_count 1) = 1" "unat (fragment_tx_count 2249) = 36" "unat (fragment_tx_count 4481) = 71"
  "fragment_tx_count 1 \<noteq> 0" "fragment_tx_count 2249 \<noteq> 0" "fragment_tx_count 4481 \<noteq> 0"
  by (simp_all add: fragment_tx_count_def Let_def)

lemma send_ack_spec:
  assumes inv: "tx_inv tx" and a: "send_ack (queue_send conn dest) confirmed s tx = (ok, s', tx')"
  shows "tx_inv tx'" and "same_core s s'" and "ok \<longleftrightarrow> 0 < tx_free tx"
    and "ok \<Longrightarrow> tx_pending tx' = add_mset
      (wire_fragment [confirmed] PQC_MSG_ACK (s_node_id s) (s_next_msg_id s) PQC_FLAG_NONE 0) (tx_pending tx)"
    and "\<not> ok \<Longrightarrow> tx' = tx \<and> s' = s"
proof -
  have *: "tx_inv tx' \<and> same_core s s' \<and> (ok \<longleftrightarrow> 0 < tx_free tx) \<and> (ok \<longrightarrow> tx_pending tx' = add_mset
      (wire_fragment [confirmed] PQC_MSG_ACK (s_node_id s) (s_next_msg_id s) PQC_FLAG_NONE 0) (tx_pending tx)) \<and>
      (\<not> ok \<longrightarrow> tx' = tx \<and> s' = s)"
  proof (cases "tx_has_room_for 1 tx")
    case False
    then show ?thesis using a inv by (auto simp: send_ack_def tx_has_room_for_iff)
  next
    case True
    then have room: "1 \<le> tx_free tx" using inv by (simp add: tx_has_room_for_iff)
    obtain tx1 b where t: "fragment_tx [confirmed] 1 PQC_MSG_ACK (s_node_id s) (s_next_msg_id s) PQC_FLAG_NONE
        (queue_send conn dest) tx = (b, tx1)" by fastforce
    note f = fragment_tx_queue [OF inv _ _ _ t]
    have "tx' = tx1" "ok = b" "same_core s s'"
      using a True t by (auto simp: send_ack_def Let_def session_next_msg_id_def same_core_def)
    with f room show ?thesis by simp
  qed
  then show "tx_inv tx'" "same_core s s'" "ok \<longleftrightarrow> 0 < tx_free tx"
    "ok \<Longrightarrow> tx_pending tx' = add_mset
      (wire_fragment [confirmed] PQC_MSG_ACK (s_node_id s) (s_next_msg_id s) PQC_FLAG_NONE 0) (tx_pending tx)"
    "\<not> ok \<Longrightarrow> tx' = tx \<and> s' = s" by blast+
qed

text \<open>A packet without payload, such as a request for the public key.\<close>

lemma send_bare_header:
  assumes "tx_inv tx" "queue_send conn dest (pqc_header_write (replicate 10 0) mt nid mid idx tot 0 fl) 10 tx = (ok, tx')"
  shows "tx_inv tx'" and "ok \<longleftrightarrow> 0 < tx_free tx"
    and "ok \<Longrightarrow> tx_pending tx' = add_mset (pqc_header_write (replicate 10 0) mt nid mid idx tot 0 fl) (tx_pending tx)"
proof -
  let ?p = "pqc_header_write (replicate 10 0) mt nid mid idx tot 0 fl"
  have p: "packet_ok ?p 10"
    using header_write_fields [of "replicate 10 0" ?p mt nid mid idx tot 0 fl]
    by (auto simp: packet_ok_def intro!: header_valid_append)
  have "tx_inv tx' \<and> (ok \<longleftrightarrow> 0 < tx_free tx) \<and> (ok \<longrightarrow> tx_pending tx' = add_mset ?p (tx_pending tx))"
    using tx_sender.send_accept [OF assms(1) _ p, of conn dest] tx_sender.send_full [OF assms(1), of conn dest ?p 10] assms
    by (cases "tx_free tx = 0") auto
  then show "tx_inv tx'" "ok \<longleftrightarrow> 0 < tx_free tx" "ok \<Longrightarrow> tx_pending tx' = add_mset ?p (tx_pending tx)" by blast+
qed

text \<open>A NACK that is sent lists missing fragments of the context, as the encoder writes them.\<close>

lemma send_nack_spec:
  assumes inv: "tx_inv tx" and rx: "rx_inv rx" "rx_active rx"
    and a: "send_nack (queue_send conn dest) rx s tx = (c, s', tx')"
  shows "tx_inv tx' \<and> same_core s s' \<and>
    (c \<noteq> 0 \<longrightarrow> unat c = min 16 (length (missing_frags rx)) \<and>
      (\<exists>nack. nack_wf nack \<and> nack_entries nack = take 16 (missing_frags rx) \<and>
         nk_missing_msg_type nack = rx_msg_type rx \<and> nk_missing_msg_id nack = rx_msg_id rx \<and>
         nk_total_frags nack = rx_total_frags rx \<and>
         tx_pending tx' = add_mset
           (wire_fragment (nack_to_bytes nack) PQC_MSG_NACK (s_node_id s) (s_next_msg_id s) PQC_FLAG_NONE 0)
           (tx_pending tx)))"
proof -
  obtain c0 nack where b: "pqc_nack_build_from_rx rx nack_zero 16 = (c0, nack)" by fastforce
  note sp = nack_build_spec [OF rx refl b]
  obtain nl np where e: "pqc_nack_encode nack (replicate 20 0) 20 = (nl, np)" by fastforce
  show ?thesis
  proof (cases "c0 = 0 \<or> nl = 0 \<or> \<not> tx_has_room_for (ucast nl) tx")
    case True
    then show ?thesis using a b e inv by (auto simp: send_nack_def Let_def split: if_splits)
  next
    case False
    then have c0: "c0 \<noteq> 0" "nk_missing_count nack \<noteq> 0" "unat (nk_missing_count nack) \<le> 16"
      using sp(2,3) by auto
    have nl: "unat nl = 4 + unat (nk_missing_count nack)"
      using nack_encode_spec(1) [OF c0(2,3) sp(7) _ _ e] c0(3) by simp
    have lnp: "length np = 20"
      using e by (auto simp: pqc_nack_encode_def Let_def split: if_splits)
    obtain tx1 ok where t: "fragment_tx np (ucast nl) PQC_MSG_NACK (s_node_id s) (s_next_msg_id s) PQC_FLAG_NONE
        (queue_send conn dest) tx = (ok, tx1)" by fastforce
    note f = fragment_tx_queue [OF inv _ _ _ t]
    have res: "tx' = tx1" "c = (if ok then nk_missing_count nack else 0)" "same_core s s'"
      using a b e t False
      by (cases ok; auto simp: send_nack_def Let_def session_next_msg_id_def same_core_def)+
    have fc: "unat (fragment_tx_count (ucast nl)) = 1"
      using nl c0(3) by (subst fragment_tx_count_eq) auto
    have tk: "take (unat nl) np = nack_to_bytes nack"
      using e by (simp add: nack_to_bytes_def)
    have ent: "\<forall>i<unat (nk_missing_count nack). nk_missing nack ! i < nk_total_frags nack"
    proof (intro allI impI)
      fix i assume i: "i < unat (nk_missing_count nack)"
      then have "nack_entries nack ! i = unat (nk_missing nack ! i)"
        using c0(3) sp(7) by (simp add: nack_entries_def)
      moreover have "i < length (nack_entries nack)" using i c0(3) sp(7) by (simp add: nack_entries_def)
      then have "nack_entries nack ! i \<in> set (missing_frags rx)"
        using nth_mem [of i "nack_entries nack"] unfolding sp(1) by (auto dest: in_set_takeD)
      ultimately show "nk_missing nack ! i < nk_total_frags nack"
        using sp(6) by (auto simp: missing_frags_def word_less_nat_alt)
    qed
    have tot: "rx_total_frags rx \<noteq> 0" "unat (rx_total_frags rx) \<le> 72" using rx by (auto simp: rx_inv_def)
    have wf: "nack_wf nack"
      using c0 sp(3,6,7,8) ent tot by (simp add: nack_wf_def)
    have "tx_inv tx1" using f(1) nl c0(3) lnp by simp
    moreover have "ok \<Longrightarrow> tx_pending tx1 = add_mset
        (wire_fragment (nack_to_bytes nack) PQC_MSG_NACK (s_node_id s) (s_next_msg_id s) PQC_FLAG_NONE 0) (tx_pending tx)"
      using f(3) nl c0(3) lnp fc tk by simp
    ultimately show ?thesis
      using res wf sp(1-6) by (cases ok) (auto intro!: exI [of _ nack])
  qed
qed

section \<open>Retransmission\<close>

lemma send_fragment_slice_eq:
  assumes "0 < unat len" "unat len \<le> 4608" and "unat idx < unat (fragment_tx_count len)"
  shows "send_fragment_slice send data len mt nid mid idx (fragment_tx_count len) flags tx =
    (case fragment_packet data len mt nid mid idx (fragment_tx_count len) flags of (f, n) \<Rightarrow> send f n tx)"
proof -
  have n: "unat (fragment_tx_count len) = (unat len + 63) div 64" using assms(1,2) by (rule fragment_tx_count_eq)
  then have i: "unat idx < 72" "64 * unat idx < unat len" using assms by auto
  have off: "unat (ucast idx * 64 :: u16) = unat idx * 64" using i(1) by (rule frag_offset_unat)
  have "\<not> len \<le> ucast idx * 64" "\<not> fragment_tx_count len \<le> idx" "fragment_tx_count len \<noteq> 0" "len \<noteq> 0"
    using off i(2) assms by (auto simp: word_le_nat_alt)
  then show ?thesis
    by (simp add: send_fragment_slice_def fragment_packet_def Let_def split del: if_split)
qed

lemma retransmit_loop_queue:
  assumes len: "0 < unat len" "unat len \<le> 4608" "unat len \<le> length data"
    and "tx_inv tx" and "\<forall>i\<in>set missing. unat i < unat (fragment_tx_count len)" and "length missing \<le> tx_free tx"
  shows "\<exists>tx'. retransmit_loop (queue_send conn dest) data len mt nid mid (fragment_tx_count len) missing tx = (True, tx') \<and>
    tx_inv tx' \<and> tx_free tx' + length missing = tx_free tx \<and>
    tx_pending tx' = tx_pending tx +
      mset (map (\<lambda>i. wire_fragment (take (unat len) data) mt nid mid PQC_FLAG_RETRY (unat i)) missing)"
  using assms(4-)
proof (induction missing arbitrary: tx)
  case Nil
  then show ?case by simp
next
  case (Cons i missing)
  let ?d = "take (unat len) data"
  have d: "0 < length ?d" "length ?d \<le> 4608" "of_nat (length ?d) = len" using len by auto
  have fc: "frag_count ?d = unat (fragment_tx_count len)" using d(3) by (simp add: frag_count_def)
  have n: "unat (fragment_tx_count len) = (unat len + 63) div 64" using len(1,2) by (rule fragment_tx_count_eq)
  have i: "unat i < unat (fragment_tx_count len)" using Cons.prems(2) by simp
  then have i2: "unat i < 72" "64 * unat i < unat len" using n len(2) by auto
  obtain f k where p: "fragment_packet data len mt nid mid i (fragment_tx_count len) PQC_FLAG_RETRY = (f, k)" by fastforce
  then have p': "fragment_packet ?d (of_nat (length ?d)) mt nid mid (of_nat (unat i))
      (fragment_tx_count (of_nat (length ?d))) PQC_FLAG_RETRY = (f, k)"
    using fragment_packet_take [OF i2, of data mt nid mid "fragment_tx_count len" PQC_FLAG_RETRY] d(3) by simp
  have "unat i < frag_count ?d" using i fc by simp
  note w = fragment_packet_wire [OF d(1,2) this p']
  have "0 < tx_free tx" using Cons.prems(3) by simp
  from tx_sender.send_accept [OF Cons.prems(1) this w(2), of conn dest] obtain tx1 where
    t: "queue_send conn dest f k tx = (True, tx1)" "tx_inv tx1"
      "tx_pending tx1 = add_mset (wire_fragment ?d mt nid mid PQC_FLAG_RETRY (unat i)) (tx_pending tx)"
      "Suc (tx_free tx1) = tx_free tx" unfolding w(1) by blast
  obtain tx2 where "retransmit_loop (queue_send conn dest) data len mt nid mid (fragment_tx_count len) missing tx1 = (True, tx2)"
      "tx_inv tx2" "tx_free tx2 + length missing = tx_free tx1"
      "tx_pending tx2 = tx_pending tx1 + mset (map (\<lambda>i. wire_fragment ?d mt nid mid PQC_FLAG_RETRY (unat i)) missing)"
    using Cons.IH [OF t(2)] Cons.prems t(4) by auto
  with t show ?case
    using send_fragment_slice_eq [OF len(1,2) i, of "queue_send conn dest" data mt nid mid PQC_FLAG_RETRY tx] p
    by simp
qed

lemma retransmit_loop_inv:
  assumes len: "0 < unat len" "unat len \<le> 4608" "unat len \<le> length data"
    and "tx_inv tx" and "retransmit_loop (queue_send conn dest) data len mt nid mid (fragment_tx_count len) missing tx = (ok, tx')"
  shows "tx_inv tx'"
  using assms(4-)
proof (induction missing arbitrary: tx)
  case (Cons i missing)
  show ?case
  proof (cases "unat i < unat (fragment_tx_count len) \<and> 0 < tx_free tx")
    case True
    then obtain tx1 where "retransmit_loop (queue_send conn dest) data len mt nid mid (fragment_tx_count len) [i] tx = (True, tx1)" "tx_inv tx1"
      using retransmit_loop_queue [OF len Cons.prems(1), of "[i]" conn dest mt nid mid] by auto
    then show ?thesis using Cons by (auto split: prod.splits if_splits)
  next
    case False
    then have "send_fragment_slice (queue_send conn dest) data len mt nid mid i (fragment_tx_count len) PQC_FLAG_RETRY tx = (False, tx)"
    proof (cases "unat i < unat (fragment_tx_count len)")
      case True
      with False have "tx_free tx = 0" by simp
      then have "queue_send conn dest f k tx = (False, tx)" for f k
        using tx_sender.send_full [OF Cons.prems(1)] by blast
      then show ?thesis using send_fragment_slice_eq [OF len(1,2) True, of "queue_send conn dest"] by (simp split: prod.splits)
    next
      case False
      then show ?thesis by (simp add: send_fragment_slice_def word_le_nat_alt)
    qed
    with Cons.prems show ?thesis by simp
  qed
qed simp

end
