(* ===== verification/Handshake_Inv.thy ===== *)
theory Handshake_Inv
  imports Handshake_Slots
begin

text \<open>
  Every entry point of \<open>src/src/PQC/handshake_fsm.c\<close> keeps the session invariant and the invariant of
  the module's state: the transmit queue, the reassembly slots and the sizes of the key and
  ciphertext buffers.
\<close>

section \<open>Invariants of the environment\<close>

text \<open>What the code relies on of the HQC package: the buffer sizes of \<open>api.h\<close>.\<close>

definition kem_sized :: "'g kem_api \<Rightarrow> bool" where
  "kem_sized kem \<longleftrightarrow>
     (\<forall>g rc pk sk g'. crypto_kem_keypair kem g = ((rc, pk, sk), g') \<longrightarrow> length pk = 2249 \<and> length sk = 2289) \<and>
     (\<forall>pk g rc ct ss g'. crypto_kem_enc kem pk g = ((rc, ct, ss), g') \<longrightarrow> length ct = 4481 \<and> length ss = 64) \<and>
     (\<forall>ct sk rc ss. crypto_kem_dec kem ct sk = (rc, ss) \<longrightarrow> length ss = 64)"

lemma constant_kem_sized: "kem_sized constant_kem"
  by (simp add: kem_sized_def)

definition hs_inv :: "'g hs_env \<Rightarrow> bool" where
  "hs_inv env \<longleftrightarrow> tx_inv (he_tx env) \<and> rx_slots_inv (he_rx_slots env) \<and>
     length (he_root_pk env) = 2249 \<and> length (he_node_ct env) = 4481 \<and> length (he_root_ct env) = 4481"

lemma session_inv_same_core: "session_inv s \<Longrightarrow> same_core s s' \<Longrightarrow> session_inv s'"
  using same_core_fields [of s s'] by (simp add: session_inv_def)

lemma hs_inv_boot: "hs_inv (hs_env_boot g)"
proof -
  have "tx_inv (he_tx (hs_env_boot g))"
    using tx_inv_init [of "he_tx (hs_env_boot g)"] by (simp add: hs_env_boot_def pqc_tx_init_def tx_inv_def)
  moreover have "rx_slots_inv (he_rx_slots (hs_env_boot g))"
    by (auto simp: hs_env_boot_def rx_slots_inv_def rx_table.keys_distinct_def rx_slot_zero_def less_Suc_eq numeral_2_eq_2)
  ultimately show ?thesis by (simp add: hs_inv_def hs_env_boot_def)
qed

lemma hs_inv_release: "hs_inv env \<Longrightarrow> hs_inv (hs_release self env)"
  by (simp add: hs_inv_def hs_release_def rx_slots_inv_ops)

lemma hs_inv_gc: "hs_inv env \<Longrightarrow> hs_inv (env\<lparr>he_rx_slots := rx_slots_gc cs now (he_rx_slots env)\<rparr>)"
  by (simp add: hs_inv_def rx_slots_inv_gc)

lemma session_inv_failed [simp]: "session_inv s \<Longrightarrow> session_inv (session_set_failed now s)"
  by (rule session_inv_ops)

lemma session_inv_fields [simp]:
  "session_inv (s_metrics_update f s) = session_inv s"
  "session_inv (s\<lparr>s_retry_deadline := d\<rparr>) = session_inv s"
  "session_inv (s\<lparr>s_next_msg_id := n\<rparr>) = session_inv s"
  "session_inv (s\<lparr>s_node_id := i\<rparr>) = session_inv s"
  "session_inv (session_touch now s) = session_inv s"
  "length k = 32 \<Longrightarrow> session_inv s \<Longrightarrow> session_inv (s\<lparr>s_aes_key := k\<rparr>)"
  "length k = 64 \<Longrightarrow> session_inv s \<Longrightarrow> session_inv (s\<lparr>s_ss := k\<rparr>)"
  by (simp_all add: session_inv_def session_touch_def)

lemma kem_sized_enc:
  "kem_sized kem \<Longrightarrow> crypto_worker_encapsulate kem pk g = (ok, ct, ss, g') \<Longrightarrow> length ct = 4481 \<and> length ss = 64"
  unfolding kem_sized_def crypto_worker_encapsulate_def by (auto split: prod.splits) blast+

lemma kem_sized_dec:
  "kem_sized kem \<Longrightarrow> crypto_worker_decapsulate kem sk ct = (ok, ss) \<Longrightarrow> length ss = 64"
  unfolding kem_sized_def crypto_worker_decapsulate_def by (auto split: prod.splits)

lemma kem_sized_keypair:
  "kem_sized kem \<Longrightarrow> crypto_worker_keypair kem g = (ok, pk, sk, g') \<Longrightarrow> length pk = 2249 \<and> length sk = 2289"
  unfolding kem_sized_def crypto_worker_keypair_def by (auto split: prod.splits) blast+

lemma retransmit_inv:
  assumes "hs_inv env" "session_inv s" "retransmit_nack_fragments cs clk (queue_send conn dest) nack s env = (ok, s', env')"
  shows "hs_inv env' \<and> session_inv s' \<and> he_rx_slots env' = he_rx_slots env"
proof -
  have P: "tx_inv tx'" if "retransmit_loop (queue_send conn dest) (he_root_pk env) 2249 mt nid mid (fragment_tx_count 2249) ms (he_tx env) = (b, tx')" for mt nid mid ms b tx'
    by (rule retransmit_loop_inv [OF _ _ _ _ that]) (use assms(1) in \<open>simp_all add: hs_inv_def\<close>)
  have C: "tx_inv tx'" if "retransmit_loop (queue_send conn dest) (he_node_ct env) 4481 mt nid mid (fragment_tx_count 4481) ms (he_tx env) = (b, tx')" for mt nid mid ms b tx'
    by (rule retransmit_loop_inv [OF _ _ _ _ that]) (use assms(1) in \<open>simp_all add: hs_inv_def\<close>)
  show ?thesis
    using assms P C
    by (auto simp: retransmit_nack_fragments_def Let_def hs_inv_def split: if_splits option.splits prod.splits)
qed

lemma hs_node_send_ct_inv:
  assumes "hs_inv env" "session_inv s" "hs_node_send_ct cs clk (queue_send conn dest) s env = (ok, s', env')"
    and st: "s_state s \<noteq> SESSION_STATE_ESTABLISHED"
  shows "hs_inv env' \<and> session_inv s'"
proof -
  have T: "tx_inv tx'" if "fragment_tx (he_node_ct env) 4481 mt nid mid fl (queue_send conn dest) (he_tx env) = (b, tx')" for mt nid mid fl b tx'
    by (rule fragment_tx_queue(1) [OF _ _ _ _ that]) (use assms(1) in \<open>simp_all add: hs_inv_def\<close>)
  show ?thesis
    using assms T
    by (auto simp: hs_node_send_ct_def Let_def hs_inv_def hs_set_pending_for_transfer_def session_set_pending_def
        session_clear_pending_def session_next_msg_id_def session_set_wait_ack_def session_inv_def session_touch_def
        session_set_failed_def split: if_splits prod.splits)
qed

lemma hs_node_complete_pk_inv:
  assumes "kem_sized kem" "hs_inv env" "session_inv s" "s_state s \<noteq> SESSION_STATE_ESTABLISHED"
    and h: "hs_node_complete_pk kem cs clk (queue_send conn dest) self rx s env = (ok, s', env')"
  shows "hs_inv env' \<and> session_inv s'"
proof (cases "unat (fragment_rx_len rx) = 2249")
  case False
  then show ?thesis using h assms(2,3) by (auto simp: hs_node_complete_pk_def hs_inv_release)
next
  case True
  obtain ok1 ct ss g where e: "crypto_worker_encapsulate kem (take 2249 (rx_buffer rx)) (he_prng env) = (ok1, ct, ss, g)"
    by (metis prod_cases4)
  have l: "length ct = 4481" "length ss = 64" using kem_sized_enc [OF assms(1) e] by auto
  have env1: "hs_inv (hs_release self (env\<lparr>he_node_ct := ct, he_prng := g\<rparr>))"
    using assms(2) l(1) by (intro hs_inv_release) (simp add: hs_inv_def)
  show ?thesis
  proof (cases ok1)
    case False
    then show ?thesis using h True e env1 l assms(3) by (auto simp: hs_node_complete_pk_def Let_def)
  next
    case ok1: True
    have "\<exists>s1. session_inv s1 \<and> s_state s1 \<noteq> SESSION_STATE_ESTABLISHED \<and>
        hs_node_send_ct cs (\<lambda>k. clk (6 + k)) (queue_send conn dest) s1
           (hs_release self (env\<lparr>he_node_ct := ct, he_prng := g\<rparr>)) = (ok, s', env')"
      using h True e ok1
      by (simp add: hs_node_complete_pk_def Let_def)
        (rule exI, rule conjI [rotated], rule conjI [rotated], assumption, simp_all add: assms(3,4) l)
    then show ?thesis using hs_node_send_ct_inv env1 by blast
  qed
qed

lemma hs_node_complete_ack_inv:
  assumes "hs_inv env" "session_inv s" "hs_node_complete_ack clk self rx s env = (ok, s', env')"
  shows "hs_inv env' \<and> session_inv s'"
proof -
  have "hs_inv (hs_release self (env\<lparr>he_node_ct := replicate (length (he_node_ct env)) 0\<rparr>))"
    using assms(1) by (intro hs_inv_release) (simp add: hs_inv_def)
  with assms session_inv_ops(7) [of s] show ?thesis
    by (auto simp: hs_node_complete_ack_def Let_def hs_inv_release split: if_splits)
qed

lemma hs_root_accept_ct_inv:
  assumes "kem_sized kem" "hs_inv env" "session_inv s"
    and h: "hs_root_accept_ct kem clk (queue_send conn dest) msg_id s env = (ok, s', env')"
  shows "hs_inv env' \<and> session_inv s'"
proof -
  let ?w = "env\<lparr>he_root_ct := replicate (length (he_root_ct env)) 0\<rparr>"
  have w: "hs_inv ?w" "tx_inv (he_tx env)" using assms(2) by (simp_all add: hs_inv_def)
  have A: "hs_inv (?w\<lparr>he_tx := tx1\<rparr>) \<and> session_inv s1"
    if "send_ack (queue_send conn dest) msg_id s0 (he_tx env) = (b, s1, tx1)" "session_inv s0" for s0 s1 tx1 b
    using send_ack_spec(1,2) [OF w(2) that(1)] that(2) w(1) session_inv_same_core by (auto simp: hs_inv_def)
  obtain ok1 ss where d: "crypto_worker_decapsulate kem (he_root_sk env) (he_root_ct env) = (ok1, ss)" by fastforce
  have ss: "length ss = 64" using kem_sized_dec [OF assms(1) d] .
  let ?e = "s_metrics_update (\<lambda>_. pqc_metrics_handshake_success (clk 4)
      (s_metrics (session_set_established (s_aes_key_update (\<lambda>_. crypto_worker_derive_aes_key ss)
        (upd_hs (\<lambda>m. m\<lparr>mh_decaps_ticks_last := clk 3 - clk 1\<rparr>) (s\<lparr>s_ss := ss\<rparr>))))))
      (session_set_established (s_aes_key_update (\<lambda>_. crypto_worker_derive_aes_key ss)
        (upd_hs (\<lambda>m. m\<lparr>mh_decaps_ticks_last := clk 3 - clk 1\<rparr>) (s\<lparr>s_ss := ss\<rparr>))))"
  have e: "session_inv ?e"
    using session_inv_ops(7) assms(3) ss by simp
  consider "session_is_established s" | "\<not> session_is_established s" "s_state s \<noteq> SESSION_STATE_WAIT_CT"
    | "\<not> session_is_established s" "s_state s = SESSION_STATE_WAIT_CT" "\<not> he_root_has_keypair env"
    | "\<not> session_is_established s" "s_state s = SESSION_STATE_WAIT_CT" "he_root_has_keypair env" "\<not> ok1"
    | "\<not> session_is_established s" "s_state s = SESSION_STATE_WAIT_CT" "he_root_has_keypair env" "ok1" by blast
  then show ?thesis
  proof cases
    case 1
    then show ?thesis using h A assms(3) by (auto simp: hs_root_accept_ct_def Let_def split: prod.splits)
  next
    case 5
    then show ?thesis
      using h d A [OF _ e] by (auto simp: hs_root_accept_ct_def Let_def hs_fsm_root_has_keypair_def split: prod.splits)
  qed (use h d w assms(3) ss in \<open>auto simp: hs_root_accept_ct_def Let_def hs_fsm_root_has_keypair_def\<close>)
qed

lemma hs_root_complete_ct_inv:
  assumes "kem_sized kem" "hs_inv env" "session_inv s" "length (rx_buffer rx) = 4608"
    and h: "hs_root_complete_ct kem clk (queue_send conn dest) self rx msg_id s env = (ok, s', env')"
  shows "hs_inv env' \<and> session_inv s'"
proof (cases "unat (fragment_rx_len rx) = 4481")
  case False
  then show ?thesis using h assms(2,3) by (auto simp: hs_root_complete_ct_def hs_inv_release)
next
  case True
  let ?env = "hs_release self (env\<lparr>he_root_ct := memcpy_at (he_root_ct env) 0 (take 4481 (rx_buffer rx))\<rparr>)"
  have "hs_inv ?env" using assms(2,4) by (intro hs_inv_release) (simp add: hs_inv_def)
  moreover have "\<exists>s1. session_inv s1 \<and>
      hs_root_accept_ct kem (\<lambda>k. clk (3 + k)) (queue_send conn dest) msg_id s1 ?env = (ok, s', env')"
    using h True
    by (simp add: hs_root_complete_ct_def Let_def) (rule exI, rule conjI [rotated], assumption, simp add: assms(3))
  ultimately show ?thesis using hs_root_accept_ct_inv [OF assms(1)] by blast
qed

lemma hs_complete_message_inv:
  assumes "kem_sized kem" "hs_inv env" "session_inv s" "length (rx_buffer rx) = 4608"
    and "fh_msg_type h = PQC_MSG_PK \<Longrightarrow> session_is_node s \<Longrightarrow> s_state s \<noteq> SESSION_STATE_ESTABLISHED"
    and "hs_complete_message kem cs clk (queue_send conn dest) self rx h s env = (ok, s', env')"
  shows "hs_inv env' \<and> session_inv s'"
  using assms hs_node_complete_pk_inv [OF assms(1-3)] hs_node_complete_ack_inv [OF assms(2,3)]
    hs_root_complete_ct_inv [OF assms(1-4)]
  by (auto simp: hs_complete_message_def hs_inv_release split: if_splits)

lemma hs_store_fragment_inv:
  assumes "kem_sized kem" "hs_inv env" "session_inv s"
    and pk: "fh_msg_type h = PQC_MSG_PK \<Longrightarrow> session_is_node s \<Longrightarrow> s_state s \<noteq> SESSION_STATE_ESTABLISHED"
    and h: "hs_store_fragment kem cs clk (queue_send conn dest) self data h s env = (ok, s', env')"
  shows "hs_inv env' \<and> session_inv s'"
proof -
  obtain r slots where g: "rx_slot_get cs (clk 0) (clk 1) self (he_rx_slots env) = (r, slots)" by fastforce
  have si: "rx_slots_inv slots"
    using rx_slots_inv_ops(4) [of "he_rx_slots env" cs "clk 0" "clk 1" self] assms(2) g by (simp add: hs_inv_def)
  show ?thesis
  proof (cases r)
    case None
    then show ?thesis using h g si assms(2,3) by (auto simp: hs_store_fragment_def hs_inv_def)
  next
    case (Some i)
    let ?sl = "slots ! i"
    obtain b rx where a: "fragment_rx_add (sl_ctx ?sl) (fh_msg_type h) (fh_node_id h) (fh_msg_id h)
        (fh_frag_idx h) (fh_total_frags h) (drop 10 data) (ucast (fh_frag_len h)) = (b, rx)" by fastforce
    have "rx_table.keys_distinct (rx_slots_gc cs (clk 0) (he_rx_slots env))"
      using rx_slots_inv_gc assms(2) by (simp add: rx_slots_inv_def hs_inv_def)
    moreover have "rx_slot_acquire (clk 1) self (rx_slots_gc cs (clk 0) (he_rx_slots env)) = (Some i, slots)"
      using g Some by (simp add: rx_slot_get_def)
    ultimately have "rx_slot_find self slots = Some i" using rx_table.acquire_lookup by blast
    then have i: "i < length slots" "sl_active ?sl" "sl_owner ?sl = Some self"
      by (auto dest: rx_table.lookup_Some)
    have rx: "rx_inv rx" using fragment_rx_add_inv [OF _ a] si i(1) by (simp add: rx_slots_inv_def)
    define slots' where "slots' = slots[i := ?sl\<lparr>sl_ctx := rx\<rparr>]"
    have si': "rx_slots_inv slots'"
      unfolding slots'_def using i rx by (intro rx_slots_inv_update si) simp_all
    define env1 where "env1 = env\<lparr>he_rx_slots := slots'\<rparr>"
    have e1: "hs_inv env1" using assms(2) si' by (simp add: env1_def hs_inv_def)
    define s1 where "s1 = session_touch (clk 2) (upd_frag (\<lambda>m. m\<lparr>mf_fragments_rx := mf_fragments_rx m + 1\<rparr>) s)"
    have s1: "session_inv s1" using assms(3) by (simp add: s1_def)
    have st: "s_state s1 = s_state s" "s_role s1 = s_role s" by (simp_all add: s1_def session_touch_def)
    have h': "hs_store_fragment kem cs clk (queue_send conn dest) self data h s env =
      (if \<not> b then (False, s, env1)
       else if \<not> fragment_rx_complete rx
       then (if fh_msg_type h \<noteq> PQC_MSG_NACK \<and> rx_slot_nack_due cs (clk 3) self i (fh_frag_idx h) slots'
             then let (c, s, tx) = send_nack (queue_send conn dest) rx s1 (he_tx env);
                      (s, sl) = rx_slot_note_nack cs (clk 4) (clk 5) self i c s slots'
                  in (True, s, env1\<lparr>he_tx := tx, he_rx_slots := sl\<rparr>)
             else (True, s1, env1))
       else hs_complete_message kem cs (\<lambda>k. clk (6 + k)) (queue_send conn dest) self rx h s1 env1)"
      unfolding hs_store_fragment_def g Some
      by (simp add: a Let_def slots'_def env1_def s1_def)
    consider "\<not> b" | "b" "fragment_rx_complete rx"
      | "b" "\<not> fragment_rx_complete rx" "fh_msg_type h \<noteq> PQC_MSG_NACK \<and> rx_slot_nack_due cs (clk 3) self i (fh_frag_idx h) slots'"
      | "b" "\<not> fragment_rx_complete rx" "\<not> (fh_msg_type h \<noteq> PQC_MSG_NACK \<and> rx_slot_nack_due cs (clk 3) self i (fh_frag_idx h) slots')"
      by blast
    then show ?thesis
    proof cases
      case 2
      then show ?thesis
        using hs_complete_message_inv [OF assms(1) e1 s1, of rx h] rx pk st h unfolding h'
        by (simp add: rx_inv_lengths session_is_node_def)
    next
      case 3
      obtain c s2 tx where n: "send_nack (queue_send conn dest) rx s1 (he_tx env) = (c, s2, tx)" by (metis prod_cases3)
      obtain s3 sl where nn: "rx_slot_note_nack cs (clk 4) (clk 5) self i c s2 slots' = (s3, sl)" by fastforce
      have act: "rx_active rx" using a 3 by (auto simp: fragment_rx_add_def Let_def split: if_splits)
      have n2: "tx_inv tx" "session_inv s2"
        using send_nack_spec [OF _ rx act n] assms(2) s1 session_inv_same_core by (auto simp: hs_inv_def)
      moreover have "rx_slots_inv sl" using rx_slots_inv_ops(3) [OF si'] nn by (metis snd_conv)
      moreover have "session_inv s3"
        using nn n2(2) by (auto simp: rx_slot_note_nack_def Let_def split: if_splits option.splits)
      ultimately show ?thesis using h h' 3 n nn e1 by (auto simp: hs_inv_def)
    qed (use h h' e1 s1 assms(3) in auto)
  qed
qed

text \<open>Every packet leaves the session and the environment well formed.\<close>

lemma hs_handle_fragment_inv:
  assumes "kem_sized kem" "hs_inv env" "session_inv s"
    and h: "hs_fsm_handle_fragment kem cs clk (queue_send conn dest) self data len s env = (ok, s', env')"
  shows "hs_inv env' \<and> session_inv s'"
proof -
  define env1 where "env1 = env\<lparr>he_rx_slots := rx_slots_gc cs (clk 0) (he_rx_slots env)\<rparr>"
  have e1: "hs_inv env1" unfolding env1_def using assms(2) by (rule hs_inv_gc)
  show ?thesis
  proof (cases "parse_fragment_header data len")
    case None
    then show ?thesis using h e1 assms(3) by (simp add: hs_fsm_handle_fragment_def env1_def Let_def)
  next
    case hd: (Some fh)
    show ?thesis
    proof (cases "hs_gate_session fh s")
      case None
      then show ?thesis using h hd e1 assms(3) by (simp add: hs_fsm_handle_fragment_def env1_def Let_def)
    next
      case s1: (Some s1)
      then have i1: "session_inv s1" using assms(3) by (auto simp: hs_gate_session_def split: if_splits)
      show ?thesis
      proof (cases "hs_gate_message fh s1")
        case Gate_Drop
        then show ?thesis using h hd s1 i1 e1 by (simp add: hs_fsm_handle_fragment_def env1_def Let_def)
      next
        case Gate_Duplicate_CT
        have "hs_inv (env1\<lparr>he_tx := tx2\<rparr>) \<and> session_inv s2"
          if "send_ack (queue_send conn dest) (fh_msg_id fh) s1 (he_tx env1) = (b, s2, tx2)" for b s2 tx2
          using send_ack_spec(1,2) [OF _ that] e1 i1 session_inv_same_core by (auto simp: hs_inv_def)
        then show ?thesis
          using h hd s1 i1 e1 Gate_Duplicate_CT
          by (auto simp: hs_fsm_handle_fragment_def env1_def Let_def split: if_splits prod.splits)
      next
        case Gate_Pass
        then have pk: "fh_msg_type fh = PQC_MSG_PK \<Longrightarrow> session_is_node s1 \<Longrightarrow> s_state s1 \<noteq> SESSION_STATE_ESTABLISHED"
          by (auto simp: hs_gate_message_def split: if_splits)
        show ?thesis
          using h hd s1 i1 e1 Gate_Pass retransmit_inv [OF e1 i1] hs_store_fragment_inv [OF assms(1) e1 i1 pk]
          by (auto simp: hs_fsm_handle_fragment_def env1_def [symmetric] Let_def split: if_splits prod.splits bool.splits)
      qed
    qed
  qed
qed

section \<open>Starting and retrying\<close>

lemma hs_start_send_pk_inv:
  assumes "hs_inv env" "session_inv s" "\<not> s_established s"
    and h: "hs_start_send_pk cs clk (queue_send conn dest) s env = (ok, s', env')"
  shows "hs_inv env' \<and> session_inv s'"
proof -
  have T: "tx_inv tx'" if "fragment_tx (he_root_pk env) 2249 mt nid mid fl (queue_send conn dest) (he_tx env) = (b, tx')" for mt nid mid fl b tx'
    by (rule fragment_tx_queue(1) [OF _ _ _ _ that]) (use assms(1) in \<open>simp_all add: hs_inv_def\<close>)
  show ?thesis
    using assms T
    by (auto simp: hs_start_send_pk_def Let_def hs_inv_def hs_set_pending_for_transfer_def session_set_pending_def
        session_next_msg_id_def session_set_wait_ct_def session_inv_def session_touch_def session_clear_pending_def
        session_set_failed_def split: if_splits prod.splits)
qed

lemma hs_root_init_keypair_inv:
  assumes "kem_sized kem" "hs_inv env" "hs_fsm_root_init_keypair kem env = (ok, env')"
  shows "hs_inv env'" and "he_tx env' = he_tx env" and "he_rx_slots env' = he_rx_slots env"
    and "ok \<longleftrightarrow> he_root_has_keypair env'"
  using assms kem_sized_keypair [OF assms(1)]
  by (auto simp: hs_fsm_root_init_keypair_def hs_inv_def Let_def split: if_splits prod.splits)

lemma hs_start_inv:
  assumes "kem_sized kem" "hs_inv env" "session_inv s" "\<not> s_established s"
    and h: "hs_fsm_start kem cs clk (queue_send conn dest) s env = (ok, s', env')"
  shows "hs_inv env' \<and> session_inv s'"
proof (cases "session_is_root s")
  case False
  with h assms(3,4) hs_inv_gc [OF assms(2)] show ?thesis
    by (auto simp: hs_fsm_start_def Let_def session_set_wait_pk_def session_inv_def split: if_splits)
next
  case root: True
  define env1 where "env1 = env\<lparr>he_rx_slots := rx_slots_gc cs (clk 0) (he_rx_slots env)\<rparr>"
  have e1: "hs_inv env1" unfolding env1_def using assms(2) by (rule hs_inv_gc)
  obtain ok1 env2 where k: "hs_fsm_root_init_keypair kem env1 = (ok1, env2)" by fastforce
  have e2: "hs_inv env2" using hs_root_init_keypair_inv(1) [OF assms(1) e1 k] .
  have S: "hs_inv env' \<and> session_inv s'"
    if "hs_start_send_pk cs (\<lambda>k. clk (5 + k)) (queue_send conn dest) s0 env2 = (ok, s', env')"
      "session_inv s0" "\<not> s_established s0" for s0
    using hs_start_send_pk_inv [OF e2 that(2,3,1)] .
  show ?thesis
  proof (cases ok1)
    case False
    with h root k e2 assms(3) show ?thesis by (auto simp: hs_fsm_start_def Let_def env1_def)
  next
    case True
    with h root k have "\<exists>s0. session_inv s0 \<and> \<not> s_established s0 \<and>
        hs_start_send_pk cs (\<lambda>k. clk (5 + k)) (queue_send conn dest) s0 env2 = (ok, s', env')"
      unfolding hs_fsm_start_def Let_def env1_def [symmetric]
      by simp (rule exI, rule conjI [rotated], rule conjI [rotated], assumption, simp_all add: assms(3,4))
    with S show ?thesis by blast
  qed
qed

lemma session_inv_mark_retry:
  assumes "session_inv s" "session_can_retry s"
  shows "session_inv (hs_mark_retry_for_transfer cs clk len s)" "session_inv (hs_mark_rx_retry cs clk s)"
  using assms
  by (auto simp: session_inv_def hs_mark_retry_for_transfer_def hs_mark_rx_retry_def Let_def session_touch_def
      session_can_retry_def unat_Suc_small)

lemma rx_slot_note_nack_core: "same_core s (fst (rx_slot_note_nack cs a b self rx m s slots))"
  by (auto simp: rx_slot_note_nack_def Let_def session_touch_def same_core_def split: option.split)

lemma session_can_retry_core: "same_core s s' \<Longrightarrow> session_can_retry s' = session_can_retry s"
  by (simp add: session_can_retry_def same_core_fields)

lemma hs_retry_root_ct_inv:
  assumes "hs_inv env" "session_inv s" "session_can_retry s"
    and h: "hs_retry_root_ct cs clk (queue_send conn dest) self s env = (ok, s', env')"
  shows "hs_inv env' \<and> session_inv s'"
proof (cases "rx_slot_find self (he_rx_slots env)")
  case None
  with h assms(1,2) show ?thesis by (auto simp: hs_retry_root_ct_def Let_def hs_inv_release)
next
  case (Some i)
  let ?rx = "sl_ctx (he_rx_slots env ! i)"
  have i: "i < length (he_rx_slots env)" using rx_table.lookup_Some [OF Some] by simp
  then have rx: "rx_inv ?rx" using assms(1) by (simp add: hs_inv_def rx_slots_inv_def)
  show ?thesis
  proof (cases "rx_active ?rx \<and> \<not> fragment_rx_complete ?rx")
    case False
    with h Some assms(1,2) show ?thesis by (auto simp: hs_retry_root_ct_def Let_def hs_inv_release)
  next
    case True
    obtain c s1 tx where n: "send_nack (queue_send conn dest) ?rx s (he_tx env) = (c, s1, tx)" by (metis prod_cases3)
    have tx: "tx_inv tx" and s1: "same_core s s1"
      using send_nack_spec [OF _ rx _ n] True assms(1) by (auto simp: hs_inv_def)
    have e1: "hs_inv (env\<lparr>he_tx := tx\<rparr>)" using assms(1) tx by (simp add: hs_inv_def)
    have i1: "session_inv s1" "session_can_retry s1"
      using session_inv_same_core [OF assms(2) s1] assms(3) session_can_retry_core [OF s1] by auto
    obtain s2 slots where nn: "rx_slot_note_nack cs (clk 1) (clk 2) self i c s1
        (rx_slot_touch (clk 0) self (he_rx_slots env)) = (s2, slots)" by fastforce
    have s2: "same_core s1 s2" using rx_slot_note_nack_core [of s1] nn by (metis fst_conv)
    have sl: "rx_slots_inv slots"
      using rx_slots_inv_ops(3) [OF rx_slots_inv_ops(1)] nn assms(1) unfolding hs_inv_def by (metis snd_conv)
    have i2: "session_inv (hs_mark_rx_retry cs (\<lambda>k. clk (3 + k)) s2)"
      using i1 session_inv_same_core [OF i1(1) s2] session_can_retry_core [OF s2] by (intro session_inv_mark_retry) auto
    have "hs_retry_root_ct cs clk (queue_send conn dest) self s env =
      (if c \<noteq> 0 then (True, hs_mark_rx_retry cs (\<lambda>k. clk (3 + k)) s2, env\<lparr>he_tx := tx, he_rx_slots := slots\<rparr>)
       else (False, session_set_failed (clk 5) s1, hs_release self (env\<lparr>he_tx := tx\<rparr>)))"
      unfolding hs_retry_root_ct_def Let_def Some using True n nn by simp
    then show ?thesis using h e1 sl i1 i2 hs_inv_release [OF e1] by (auto simp: hs_inv_def split: if_splits)
  qed
qed

lemma hs_retry_resend_inv:
  assumes "hs_inv env" "session_inv s" "session_can_retry s"
    and h: "hs_retry_resend cs clk (queue_send conn dest) s env = (ok, s', env')"
  shows "hs_inv env' \<and> session_inv s'"
proof -
  have P: "tx_inv tx'" if "fragment_tx (he_root_pk env) 2249 mt nid mid fl (queue_send conn dest) (he_tx env) = (b, tx')" for mt nid mid fl b tx'
    by (rule fragment_tx_queue(1) [OF _ _ _ _ that]) (use assms(1) in \<open>simp_all add: hs_inv_def\<close>)
  have C: "tx_inv tx'" if "fragment_tx (he_node_ct env) 4481 mt nid mid fl (queue_send conn dest) (he_tx env) = (b, tx')" for mt nid mid fl b tx'
    by (rule fragment_tx_queue(1) [OF _ _ _ _ that]) (use assms(1) in \<open>simp_all add: hs_inv_def\<close>)
  have G: "tx_inv tx'" if "send_getpk_retry (queue_send conn dest) s (he_tx env) = (b, tx')" for b tx'
    using that assms(1) send_bare_header(1) [of "he_tx env"] by (simp add: hs_inv_def send_getpk_retry_def)
  show ?thesis
    using assms P C G session_inv_mark_retry [OF assms(2,3)]
    by (auto simp: hs_retry_resend_def Let_def hs_inv_def split: if_splits prod.splits)
qed

lemma hs_retry_inv:
  assumes "hs_inv env" "session_inv s"
    and h: "hs_fsm_retry cs clk (queue_send conn dest) self s env = (ok, s', env')"
  shows "hs_inv env' \<and> session_inv s'"
proof -
  define env1 where "env1 = env\<lparr>he_rx_slots := rx_slots_gc cs (clk 0) (he_rx_slots env)\<rparr>"
  have e1: "hs_inv env1" unfolding env1_def using assms(1) by (rule hs_inv_gc)
  have e2: "hs_inv (hs_release self env1)" using e1 by (rule hs_inv_release)
  show ?thesis
    using h e1 e2 assms(2) hs_retry_root_ct_inv [OF e1 assms(2)] hs_retry_resend_inv [OF e2 assms(2)]
    unfolding hs_fsm_retry_def Let_def env1_def [symmetric]
    by (auto simp: hs_inv_def split: if_splits)
qed

end
