(* ===== verification/Handshake_Steps.thy ===== *)
theory Handshake_Steps
  imports Handshake_Inv
begin

text \<open>
  The functional behaviour of the handshake: what happens to a session when the fragments of the
  public key, of the ciphertext or of the acknowledgement arrive, in any order and with repetitions,
  and which messages can establish a session.
\<close>

section \<open>Fragments as the parser sees them\<close>

definition wire_hdr :: "u8 list \<Rightarrow> u8 \<Rightarrow> u16 \<Rightarrow> u8 \<Rightarrow> nat \<Rightarrow> frag_hdr" where
  "wire_hdr data mt nid mid i =
     \<lparr>fh_msg_type = mt, fh_node_id = nid, fh_msg_id = mid, fh_frag_idx = of_nat i,
      fh_total_frags = fragment_tx_count (of_nat (length data)), fh_frag_len = of_nat (length (chunk data i))\<rparr>"

lemma wire_hdr_fields [simp]:
  "fh_msg_type (wire_hdr data mt nid mid i) = mt" "fh_node_id (wire_hdr data mt nid mid i) = nid"
  "fh_msg_id (wire_hdr data mt nid mid i) = mid" "fh_frag_idx (wire_hdr data mt nid mid i) = of_nat i"
  "fh_total_frags (wire_hdr data mt nid mid i) = fragment_tx_count (of_nat (length data))"
  "fh_frag_len (wire_hdr data mt nid mid i) = of_nat (length (chunk data i))"
  by (simp_all add: wire_hdr_def)

lemma chunk_length_le: "length (chunk data i) \<le> 64"
  by (simp add: length_chunk)

lemma wire_fragment_length: "length (wire_fragment data mt nid mid fl i) = 10 + length (chunk data i)"
  by (simp add: wire_fragment_def)

lemma wire_fragment_payload: "drop 10 (wire_fragment data mt nid mid fl i) = chunk data i"
  by (simp add: wire_fragment_def)

lemma parse_wire_fragment:
  assumes "0 < length data" "length data \<le> 4608" "i < frag_count data"
  shows "parse_fragment_header (wire_fragment data mt nid mid fl i)
    (of_nat (length (wire_fragment data mt nid mid fl i))) = Some (wire_hdr data mt nid mid i)"
proof -
  let ?c = "length (chunk data i)" and ?t = "fragment_tx_count (of_nat (length data))"
  define w where "w = wire_fragment data mt nid mid fl i"
  define h where "h = pqc_header_write (replicate 10 0) mt nid mid (of_nat i) ?t (of_nat ?c) fl"
  have lh: "length h = 10" by (simp add: h_def)
  have w: "w = h @ chunk data i" by (simp add: w_def h_def wire_fragment_def)
  then have n: "w ! k = h ! k" if "k < 10" for k using lh that by (simp add: nth_append)
  note f = header_write_fields [OF _ h_def, simplified]
  have g: "pqc_header_get_node_id w = nid"
    using f(3) n by (simp add: pqc_header_get_node_id_def)
  have u: "unat (of_nat (10 + ?c) :: u16) = 10 + ?c" "unat (of_nat ?c :: u8) = ?c" "unat (of_nat i :: u8) = i"
    using chunk_length_le [of data i] assms(3) frag_count_le [of data] by (auto simp del: of_nat_add)
  have t: "?t \<noteq> 0" "unat ?t \<le> 72" "\<not> ?t \<le> of_nat i"
    using message_len_nonzero(2) [OF assms(1,2)] fragment_tx_count_le assms(3) u(3)
    by (auto simp: word_le_nat_alt frag_count_def)
  have "unat (10 + ucast (of_nat ?c :: u8) :: u16) = 10 + ?c"
    using chunk_length_le [of data i] by (subst unat_plus_small) (auto simp: unsigned_ucast_eq take_bit_nat_eq_self)
  then have l: "10 + ucast (of_nat ?c :: u8) \<le> (of_nat (10 + ?c) :: u16)"
    using u(1) by (simp add: word_le_nat_alt)
  have "parse_fragment_header w (of_nat (10 + ?c)) = Some (wire_hdr data mt nid mid i)"
    using f n g u t l chunk_length_le [of data i]
    by (simp add: parse_fragment_header_def Let_def wire_hdr_def not_less del: of_nat_add unat_of_nat)
  then show ?thesis unfolding w_def wire_fragment_length .
qed

section \<open>A message being collected\<close>

text \<open>
  \<open>hs_holding self mt nid mid data I t0 slots\<close>: the slot that \<open>self\<close> owns since \<open>t0\<close> holds exactly the
  fragments \<open>I\<close> of the message; when \<open>I\<close> is empty \<open>self\<close> owns no slot and one is free.
\<close>

definition hs_holding ::
  "session_ref \<Rightarrow> u8 \<Rightarrow> u16 \<Rightarrow> u8 \<Rightarrow> u8 list \<Rightarrow> nat set \<Rightarrow> clock_time_t \<Rightarrow> hs_rx_slot_t list \<Rightarrow> bool" where
  "hs_holding self mt nid mid data I t0 slots \<longleftrightarrow>
     (if I = {} then rx_slot_find self slots = None \<and> (\<exists>i<length slots. \<not> sl_active (slots ! i))
      else \<exists>i. rx_slot_find self slots = Some i \<and> rx_holds mt nid mid data I (sl_ctx (slots ! i)) \<and>
             sl_started_at (slots ! i) = t0)"

lemma rx_slots_gc_nth:
  "i < length slots \<Longrightarrow> rx_slots_gc cs now slots ! i =
     (if sl_active (slots ! i) \<and> HS_RX_TIMEOUT cs < now - sl_started_at (slots ! i)
      then rx_slot_clear (slots ! i) else slots ! i)"
  by (simp add: rx_slots_gc_def)

lemma rx_slots_gc_length [simp]: "length (rx_slots_gc cs now slots) = length slots"
  by (simp add: rx_slots_gc_def)

lemma hs_holding_gc:
  assumes inv: "rx_slots_inv slots" and h: "hs_holding self mt nid mid data I t0 slots"
    and "now - t0 \<le> HS_RX_TIMEOUT cs"
  shows "hs_holding self mt nid mid data I t0 (rx_slots_gc cs now slots)"
proof (cases "I = {}")
  case True
  with h show ?thesis
    by (auto simp: hs_holding_def rx_table.lookup_None rx_slots_gc_nth)
next
  case False
  then obtain i where i: "rx_slot_find self slots = Some i" "rx_holds mt nid mid data I (sl_ctx (slots ! i))"
      "sl_started_at (slots ! i) = t0" using h by (auto simp: hs_holding_def)
  note l = rx_table.lookup_Some [OF i(1)]
  have eq: "rx_slots_gc cs now slots ! i = slots ! i"
    using assms(3) l i(3) by (simp add: rx_slots_gc_nth)
  have "rx_slot_find self (rx_slots_gc cs now slots) = Some i"
    using rx_slots_inv_gc [OF inv, of cs now] l eq
    by (intro rx_table.lookup_unique) (auto simp: rx_slots_inv_def)
  with False i eq show ?thesis by (auto simp: hs_holding_def)
qed

text \<open>Getting the slot: a fresh one at the first fragment, the owned one afterwards.\<close>

lemma hs_holding_get:
  assumes inv: "rx_slots_inv slots" and h: "hs_holding self mt nid mid data I t0 slots"
    and "now1 - t0 \<le> HS_RX_TIMEOUT cs" and t: "I = {} \<Longrightarrow> now2 = t0"
  shows "\<exists>i slots'. rx_slot_get cs now1 now2 self slots = (Some i, slots') \<and> rx_slots_inv slots' \<and>
    rx_slot_find self slots' = Some i \<and> rx_holds mt nid mid data I (sl_ctx (slots' ! i)) \<and>
    sl_started_at (slots' ! i) = t0"
proof -
  let ?g = "rx_slots_gc cs now1 slots"
  have h': "hs_holding self mt nid mid data I t0 ?g" using inv h assms(3) by (rule hs_holding_gc)
  have ig: "rx_slots_inv ?g" using inv by (rule rx_slots_inv_gc)
  show ?thesis
  proof (cases "I = {}")
    case False
    then obtain i where "rx_slot_find self ?g = Some i" "rx_holds mt nid mid data I (sl_ctx (?g ! i))" "sl_started_at (?g ! i) = t0"
      using h' by (auto simp: hs_holding_def)
    then show ?thesis using ig by (auto simp: rx_slot_get_def rx_slot_acquire_def)
  next
    case True
    with h' have n: "rx_slot_find self ?g = None" and "\<exists>i<length ?g. \<not> sl_active (?g ! i)" by (auto simp: hs_holding_def)
    then obtain j where j: "first_index (\<lambda>i. \<not> sl_active (?g ! i)) (length ?g) = Some j"
      using first_index_None [of "\<lambda>i. \<not> sl_active (?g ! i)" "length ?g"] by (cases "first_index (\<lambda>i. \<not> sl_active (?g ! i)) (length ?g)") auto
    then have jl: "j < length ?g" by (auto simp: first_index_Some)
    let ?e = "(?g ! j)\<lparr>sl_active := True, sl_owner := Some self, sl_started_at := now2, sl_last_nack_at := 0,
       sl_last_nack_received_frags := 0, sl_last_nack_missing_count := 0, sl_ctx := fragment_rx_init\<rparr>"
    have a: "rx_slot_acquire now2 self ?g = (Some j, ?g[j := ?e])" using n j by (simp add: rx_slot_acquire_def)
    have "rx_slot_find self (?g[j := ?e]) = Some j"
      using rx_table.acquire_lookup [OF _ a] ig by (simp add: rx_slots_inv_def)
    then show ?thesis
      using a rx_slots_inv_acquire [OF ig a] jl t [OF True] True by (simp add: rx_slot_get_def)
  qed
qed

lemma note_nack_keeps:
  assumes "rx_slot_note_nack cs a b self rx m s slots = (s', slots')"
  shows "length slots' = length slots" and "sl_active (slots' ! i) = sl_active (slots ! i)"
    and "sl_owner (slots' ! i) = sl_owner (slots ! i)" and "sl_ctx (slots' ! i) = sl_ctx (slots ! i)"
    and "sl_started_at (slots' ! i) = sl_started_at (slots ! i)"
proof -
  have "slots' = slots \<or> (\<exists>j t r c. j < length slots \<and> slots' = slots[j := (slots ! j)\<lparr>sl_last_nack_at := t,
      sl_last_nack_received_frags := r, sl_last_nack_missing_count := c\<rparr>])"
    using assms by (auto simp: rx_slot_note_nack_def Let_def first_index_Some split: if_splits option.splits)
  then show "length slots' = length slots" "sl_active (slots' ! i) = sl_active (slots ! i)"
    "sl_owner (slots' ! i) = sl_owner (slots ! i)" "sl_ctx (slots' ! i) = sl_ctx (slots ! i)"
    "sl_started_at (slots' ! i) = sl_started_at (slots ! i)"
    by (auto simp: nth_list_update split: if_splits)
qed

lemma hs_holding_note_nack:
  assumes "rx_slot_note_nack cs a b self' rx m s slots = (s', slots')"
  shows "hs_holding self mt nid mid data I t0 slots' = hs_holding self mt nid mid data I t0 slots"
  using note_nack_keeps [OF assms] by (simp add: hs_holding_def rx_slot_find_def)

lemma hs_holding_update:
  assumes "rx_slots_inv slots" "rx_slot_find self slots = Some i" "sl_started_at (slots ! i) = t0"
    and "rx_holds mt nid mid data I rx" "I \<noteq> {}"
  shows "hs_holding self mt nid mid data I t0 (slots[i := (slots ! i)\<lparr>sl_ctx := rx\<rparr>])"
    and "rx_slots_inv (slots[i := (slots ! i)\<lparr>sl_ctx := rx\<rparr>])"
    and "rx_slot_find self (slots[i := (slots ! i)\<lparr>sl_ctx := rx\<rparr>]) = Some i"
proof -
  let ?s = "slots[i := (slots ! i)\<lparr>sl_ctx := rx\<rparr>]"
  note l = rx_table.lookup_Some [OF assms(2)]
  show inv: "rx_slots_inv ?s"
    using assms(1,4) l by (intro rx_slots_inv_update) (auto simp: rx_holds_def)
  show find: "rx_slot_find self ?s = Some i"
    using inv l by (intro rx_table.lookup_unique) (auto simp: rx_slots_inv_def)
  show "hs_holding self mt nid mid data I t0 ?s"
    using find l assms(3-5) by (auto simp: hs_holding_def)
qed

section \<open>Storing a fragment\<close>

lemma frag_len_ucast: "c \<le> 64 \<Longrightarrow> ucast (of_nat c :: u8) = (of_nat c :: u16)"
  by (simp add: word_unat_eq_iff unsigned_ucast_eq take_bit_nat_eq_self)

lemma hs_store_fragment_step:
  assumes inv: "hs_inv env" and len: "0 < length data" "length data \<le> 4608"
    and I: "I \<subseteq> {..<frag_count data}" and i: "i < frag_count data"
    and h: "hs_holding self mt nid mid data I t0 (he_rx_slots env)"
    and t: "clk 0 - t0 \<le> HS_RX_TIMEOUT cs" "I = {} \<Longrightarrow> clk 1 = t0"
  shows "\<exists>j slots rx. rx_slots_inv slots \<and> rx_slot_find self slots = Some j \<and> sl_ctx (slots ! j) = rx \<and>
    hs_holding self mt nid mid data (insert i I) t0 slots \<and> rx_holds mt nid mid data (insert i I) rx \<and>
    hs_store_fragment kem cs clk send self (wire_fragment data mt nid mid fl i) (wire_hdr data mt nid mid i) s env =
     (let s1 = session_touch (clk 2) (upd_frag (\<lambda>m. m\<lparr>mf_fragments_rx := mf_fragments_rx m + 1\<rparr>) s);
          env1 = env\<lparr>he_rx_slots := slots\<rparr>
      in if \<not> fragment_rx_complete rx
       then (if mt \<noteq> PQC_MSG_NACK \<and> rx_slot_nack_due cs (clk 3) self j (of_nat i) slots
             then let (c, s, tx) = send_nack send rx s1 (he_tx env);
                      (s, sl) = rx_slot_note_nack cs (clk 4) (clk 5) self j c s slots
                  in (True, s, env1\<lparr>he_tx := tx, he_rx_slots := sl\<rparr>)
             else (True, s1, env1))
       else hs_complete_message kem cs (\<lambda>k. clk (6 + k)) send self rx (wire_hdr data mt nid mid i) s1 env1)"
proof -
  have ri: "rx_slots_inv (he_rx_slots env)" using inv by (simp add: hs_inv_def)
  obtain j slots where g: "rx_slot_get cs (clk 0) (clk 1) self (he_rx_slots env) = (Some j, slots)"
      and si: "rx_slots_inv slots" "rx_slot_find self slots = Some j"
        "rx_holds mt nid mid data I (sl_ctx (slots ! j))" "sl_started_at (slots ! j) = t0"
    using hs_holding_get [OF ri h t] by blast
  let ?ctx = "sl_ctx (slots ! j)"
  obtain rx where a: "add_chunk mt nid mid data i ?ctx = (True, rx)" and rx: "rx_holds mt nid mid data (insert i I) rx"
    using add_chunk_holds [OF len I i si(3)] by (metis prod.collapse)
  define slots' where "slots' = slots[j := (slots ! j)\<lparr>sl_ctx := rx\<rparr>]"
  have jl: "j < length slots" using rx_table.lookup_Some [OF si(2)] by simp
  note u = hs_holding_update [OF si(1,2,4) rx, folded slots'_def, OF insert_not_empty]
  have add: "fragment_rx_add ?ctx mt nid mid (of_nat i) (fragment_tx_count (of_nat (length data)))
      (drop 10 (wire_fragment data mt nid mid fl i)) (ucast (of_nat (length (chunk data i)) :: u8)) = (True, rx)"
    using a by (simp add: add_chunk_def wire_fragment_payload frag_len_ucast [OF chunk_length_le])
  show ?thesis
  proof (intro exI [of _ j] exI [of _ slots'] exI [of _ rx] conjI)
    show "rx_slots_inv slots'" "rx_slot_find self slots' = Some j"
      "hs_holding self mt nid mid data (insert i I) t0 slots'" using u by blast+
    show "sl_ctx (slots' ! j) = rx" using jl by (simp add: slots'_def)
    show "rx_holds mt nid mid data (insert i I) rx" by (fact rx)
  qed (simp add: hs_store_fragment_def g [simplified] add slots'_def Let_def)
qed

text \<open>The times that keep a slot alive: both sweeps of a packet fall within the timeout.\<close>

definition in_time :: "u32 \<Rightarrow> clock_time_t \<Rightarrow> (nat \<Rightarrow> clock_time_t) \<Rightarrow> bool" where
  "in_time cs t0 clk \<longleftrightarrow> clk 0 - t0 \<le> HS_RX_TIMEOUT cs \<and> clk 1 - t0 \<le> HS_RX_TIMEOUT cs"

definition hs_passes :: "u8 \<Rightarrow> u16 \<Rightarrow> session_t \<Rightarrow> bool" where
  "hs_passes mt nid s \<longleftrightarrow> mt \<noteq> PQC_MSG_NACK \<and> s_node_id s = nid \<and>
     (\<forall>h. fh_msg_type h = mt \<longrightarrow> hs_gate_message h s = Gate_Pass)"

lemma hs_passes_core: "same_core s s' \<Longrightarrow> hs_passes mt nid s \<Longrightarrow> hs_passes mt nid s'"
  by (auto simp: hs_passes_def hs_gate_message_def same_core_fields session_ops)

lemma hs_gate_session_same: "fh_node_id h = s_node_id s \<Longrightarrow> hs_gate_session h s = Some s"
  by (cases s) (simp add: hs_gate_session_def)

lemma hs_handle_passes:
  assumes "0 < length data" "length data \<le> 4608" "i < frag_count data" "hs_passes mt nid s"
    and "w = wire_fragment data mt nid mid fl i"
  shows "hs_fsm_handle_fragment kem cs clk send self w (of_nat (length w)) s env =
    hs_store_fragment kem cs (\<lambda>k. clk (1 + k)) send self w (wire_hdr data mt nid mid i) s
      (env\<lparr>he_rx_slots := rx_slots_gc cs (clk 0) (he_rx_slots env)\<rparr>)"
  using assms parse_wire_fragment [OF assms(1-3)] by (simp add: hs_fsm_handle_fragment_def hs_passes_def hs_gate_session_same)

lemma hs_handle_partial:
  assumes inv: "hs_inv env" and len: "0 < length data" "length data \<le> 4608"
    and I: "I \<subseteq> {..<frag_count data}" and i: "i < frag_count data" and part: "insert i I \<noteq> {..<frag_count data}"
    and h: "hs_holding self mt nid mid data I t0 (he_rx_slots env)"
    and t: "in_time cs t0 clk" "I = {} \<Longrightarrow> clk 2 = t0"
    and p: "hs_passes mt nid s" and w: "w = wire_fragment data mt nid mid fl i"
  shows "\<exists>s' slots tx. hs_fsm_handle_fragment kem cs clk (queue_send conn dest) self w (of_nat (length w)) s env =
      (True, s', env\<lparr>he_rx_slots := slots, he_tx := tx\<rparr>) \<and> same_core s s' \<and> tx_inv tx \<and> rx_slots_inv slots \<and>
      hs_holding self mt nid mid data (insert i I) t0 slots \<and> (frag_count data - 1 \<notin> insert i I \<longrightarrow> tx = he_tx env)"
proof -
  let ?env = "env\<lparr>he_rx_slots := rx_slots_gc cs (clk 0) (he_rx_slots env)\<rparr>"
  let ?n = "insert i I"
  have e: "hs_inv ?env" using inv by (rule hs_inv_gc)
  have h': "hs_holding self mt nid mid data I t0 (he_rx_slots ?env)"
    using hs_holding_gc [OF _ h, of "clk 0" cs] inv t(1) by (simp add: hs_inv_def in_time_def)
  have t': "clk (1 + 0) - t0 \<le> HS_RX_TIMEOUT cs" "I = {} \<Longrightarrow> clk (1 + 1) = t0"
    using t by (auto simp: in_time_def numeral_2_eq_2)
  obtain j slots rx where si: "rx_slots_inv slots" "rx_slot_find self slots = Some j" "sl_ctx (slots ! j) = rx"
      and ho: "hs_holding self mt nid mid data ?n t0 slots" and rx: "rx_holds mt nid mid data ?n rx"
      and st: "hs_store_fragment kem cs (\<lambda>k. clk (1 + k)) (queue_send conn dest) self w (wire_hdr data mt nid mid i) s ?env =
     (let s1 = session_touch (clk (1 + 2)) (upd_frag (\<lambda>m. m\<lparr>mf_fragments_rx := mf_fragments_rx m + 1\<rparr>) s);
          env1 = ?env\<lparr>he_rx_slots := slots\<rparr>
      in if \<not> fragment_rx_complete rx
       then (if mt \<noteq> PQC_MSG_NACK \<and> rx_slot_nack_due cs (clk (1 + 3)) self j (of_nat i) slots
             then let (c, s, tx) = send_nack (queue_send conn dest) rx s1 (he_tx ?env);
                      (s, sl) = rx_slot_note_nack cs (clk (1 + 4)) (clk (1 + 5)) self j c s slots
                  in (True, s, env1\<lparr>he_tx := tx, he_rx_slots := sl\<rparr>)
             else (True, s1, env1))
       else hs_complete_message kem cs (\<lambda>k. clk (1 + (6 + k))) (queue_send conn dest) self rx (wire_hdr data mt nid mid i) s1 env1)"
    using hs_store_fragment_step [OF e len I i h', of "\<lambda>k. clk (1 + k)" cs, OF t', of kem "queue_send conn dest" fl s] w by blast
  define s1 where "s1 = session_touch (clk (1 + 2)) (upd_frag (\<lambda>m. m\<lparr>mf_fragments_rx := mf_fragments_rx m + 1\<rparr>) s)"
  have c1: "same_core s s1" by (simp add: s1_def same_core_def session_touch_def)
  have nc: "\<not> fragment_rx_complete rx"
    using rx_holds_complete_iff [OF len _ rx] I i part by auto
  have nd: "frag_count data - 1 \<in> ?n" if "rx_slot_nack_due cs now self j k slots" for now k
    using that si(3) rx frag_count_le [of data] i
    by (auto simp: rx_slot_nack_due_def Let_def rx_holds_def frag_count_def split: if_splits)
  have hd: "hs_fsm_handle_fragment kem cs clk (queue_send conn dest) self w (of_nat (length w)) s env =
     (if mt \<noteq> PQC_MSG_NACK \<and> rx_slot_nack_due cs (clk (1 + 3)) self j (of_nat i) slots
      then let (c, s, tx) = send_nack (queue_send conn dest) rx s1 (he_tx env);
               (s, sl) = rx_slot_note_nack cs (clk (1 + 4)) (clk (1 + 5)) self j c s slots
           in (True, s, env\<lparr>he_rx_slots := sl, he_tx := tx\<rparr>)
      else (True, s1, env\<lparr>he_rx_slots := slots, he_tx := he_tx env\<rparr>))"
    unfolding hs_handle_passes [OF len i p w] st Let_def s1_def [symmetric] using nc by (auto split: prod.splits)
  show ?thesis
  proof (cases "mt \<noteq> PQC_MSG_NACK \<and> rx_slot_nack_due cs (clk (1 + 3)) self j (of_nat i) slots")
    case False
    with hd c1 si(1) ho inv show ?thesis
      by (intro exI [of _ s1] exI [of _ slots] exI [of _ "he_tx env"]) (auto simp: hs_inv_def)
  next
    case True
    obtain c s2 tx where n: "send_nack (queue_send conn dest) rx s1 (he_tx env) = (c, s2, tx)" by (metis prod_cases3)
    obtain s3 sl where nn: "rx_slot_note_nack cs (clk (1 + 4)) (clk (1 + 5)) self j c s2 slots = (s3, sl)" by fastforce
    have "tx_inv tx" and c2: "same_core s1 s2"
      using send_nack_spec [OF _ _ _ n] inv rx by (auto simp: hs_inv_def rx_holds_def)
    moreover have c3: "same_core s2 s3" using rx_slot_note_nack_core [of s2] nn by (metis fst_conv)
    moreover have "rx_slots_inv sl" using rx_slots_inv_ops(3) [OF si(1)] nn by (metis snd_conv)
    moreover have "hs_holding self mt nid mid data ?n t0 sl" using ho hs_holding_note_nack [OF nn] by simp
    moreover have "hs_fsm_handle_fragment kem cs clk (queue_send conn dest) self w (of_nat (length w)) s env =
        (True, s3, env\<lparr>he_rx_slots := sl, he_tx := tx\<rparr>)"
      unfolding hd Let_def n using True nn by simp
    moreover have "same_core s s3" using same_core_trans [OF c1 same_core_trans [OF c2 c3]] .
    moreover have "frag_count data - 1 \<in> ?n" using nd True by blast
    ultimately show ?thesis by blast
  qed
qed

lemma hs_handle_complete:
  assumes inv: "hs_inv env" and len: "0 < length data" "length data \<le> 4608"
    and I: "I \<subseteq> {..<frag_count data}" and i: "i < frag_count data" and full: "insert i I = {..<frag_count data}"
    and h: "hs_holding self mt nid mid data I t0 (he_rx_slots env)"
    and t: "in_time cs t0 clk" "I = {} \<Longrightarrow> clk 2 = t0"
    and p: "hs_passes mt nid s" and w: "w = wire_fragment data mt nid mid fl i"
  shows "\<exists>s' slots rx. hs_fsm_handle_fragment kem cs clk send self w (of_nat (length w)) s env =
      hs_complete_message kem cs (\<lambda>k. clk (7 + k)) send self rx (wire_hdr data mt nid mid i) s' (env\<lparr>he_rx_slots := slots\<rparr>) \<and>
      same_core s s' \<and> s_next_msg_id s' = s_next_msg_id s \<and> rx_slots_inv slots \<and> rx_slot_find self slots \<noteq> None \<and>
      take (length data) (rx_buffer rx) = data \<and>
      unat (fragment_rx_len rx) = length data \<and> fragment_rx_data rx = Some (rx_buffer rx) \<and> length (rx_buffer rx) = 4608"
proof -
  let ?env = "env\<lparr>he_rx_slots := rx_slots_gc cs (clk 0) (he_rx_slots env)\<rparr>"
  have e: "hs_inv ?env" using inv by (rule hs_inv_gc)
  have h': "hs_holding self mt nid mid data I t0 (he_rx_slots ?env)"
    using hs_holding_gc [OF _ h, of "clk 0" cs] inv t(1) by (simp add: hs_inv_def in_time_def)
  have t': "clk (1 + 0) - t0 \<le> HS_RX_TIMEOUT cs" "I = {} \<Longrightarrow> clk (1 + 1) = t0"
    using t by (auto simp: in_time_def numeral_2_eq_2)
  obtain slots rx where si: "rx_slots_inv slots" "rx_slot_find self slots \<noteq> None"
      and rx: "rx_holds mt nid mid data (insert i I) rx"
      and st: "fragment_rx_complete rx \<Longrightarrow>
        hs_store_fragment kem cs (\<lambda>k. clk (1 + k)) send self w (wire_hdr data mt nid mid i) s ?env =
        hs_complete_message kem cs (\<lambda>k. clk (1 + (6 + k))) send self rx (wire_hdr data mt nid mid i)
          (session_touch (clk (1 + 2)) (upd_frag (\<lambda>m. m\<lparr>mf_fragments_rx := mf_fragments_rx m + 1\<rparr>) s))
          (?env\<lparr>he_rx_slots := slots\<rparr>)"
    using hs_store_fragment_step [OF e len I i h', of "\<lambda>k. clk (1 + k)" cs, OF t', of kem send fl s] w
    unfolding Let_def by fastforce
  have c: "fragment_rx_complete rx" using rx_holds_complete_iff [OF len _ rx] I i full by auto
  have "rx_holds mt nid mid data {..<frag_count data} rx" using rx full by simp
  note d = rx_holds_data [OF len this]
  have "length (rx_buffer rx) = 4608" using rx by (simp add: rx_holds_def rx_inv_lengths)
  with d c si st [OF c] show ?thesis
    unfolding hs_handle_passes [OF len i p w]
    by (intro exI [of _ "session_touch (clk (1 + 2)) (upd_frag (\<lambda>m. m\<lparr>mf_fragments_rx := mf_fragments_rx m + 1\<rparr>) s)"]
        exI [of _ slots] exI [of _ rx])
      (simp add: fragment_rx_data_def fragment_rx_len_def same_core_def session_touch_def)
qed

section \<open>A run of arrivals\<close>

text \<open>
  What happens to one endpoint while a message is on its way: a fragment arrives (with the readings of
  the clock during its handling, its flags and its index), or the send process transmits a packet.
\<close>

datatype frag_event = Arrive "nat \<Rightarrow> clock_time_t" u8 nat | Send_Tick

primrec frag_step ::
  "'g kem_api \<Rightarrow> u32 \<Rightarrow> tx_state send_fn \<Rightarrow> session_ref \<Rightarrow> u8 list \<Rightarrow> u8 \<Rightarrow> u16 \<Rightarrow> u8 \<Rightarrow> frag_event \<Rightarrow>
     session_t \<times> 'g hs_env \<Rightarrow> session_t \<times> 'g hs_env" where
  "frag_step kem cs send self data mt nid mid (Arrive clk fl i) se =
     (let w = wire_fragment data mt nid mid fl i
      in snd (hs_fsm_handle_fragment kem cs clk send self w (of_nat (length w)) (fst se) (snd se)))"
| "frag_step kem cs send self data mt nid mid Send_Tick se =
     (fst se, (snd se)\<lparr>he_tx := snd (pqc_tx_process (he_tx (snd se)))\<rparr>)"

definition frag_run ::
  "'g kem_api \<Rightarrow> u32 \<Rightarrow> tx_state send_fn \<Rightarrow> session_ref \<Rightarrow> u8 list \<Rightarrow> u8 \<Rightarrow> u16 \<Rightarrow> u8 \<Rightarrow> frag_event list \<Rightarrow>
     session_t \<times> 'g hs_env \<Rightarrow> session_t \<times> 'g hs_env" where
  "frag_run kem cs send self data mt nid mid evs se = fold (frag_step kem cs send self data mt nid mid) evs se"

primrec arrived :: "frag_event list \<Rightarrow> nat set" where
  "arrived [] = {}"
| "arrived (e # evs) = (case e of Arrive clk fl i \<Rightarrow> insert i (arrived evs) | Send_Tick \<Rightarrow> arrived evs)"

text \<open>The time at which the slot is taken, and the condition that it never times out.\<close>

primrec arrival_start :: "frag_event list \<Rightarrow> clock_time_t" where
  "arrival_start [] = 0"
| "arrival_start (e # evs) = (case e of Arrive clk fl i \<Rightarrow> clk 2 | Send_Tick \<Rightarrow> arrival_start evs)"

primrec all_in_time :: "u32 \<Rightarrow> clock_time_t \<Rightarrow> frag_event list \<Rightarrow> bool" where
  "all_in_time cs t0 [] = True"
| "all_in_time cs t0 (e # evs) = ((case e of Arrive clk fl i \<Rightarrow> in_time cs t0 clk | Send_Tick \<Rightarrow> True) \<and> all_in_time cs t0 evs)"

text \<open>Two environments that agree on keys, ciphertexts and generator.\<close>

definition same_keys :: "'g hs_env \<Rightarrow> 'g hs_env \<Rightarrow> bool" where
  "same_keys env env' \<longleftrightarrow> he_root_pk env' = he_root_pk env \<and> he_root_sk env' = he_root_sk env \<and>
     he_root_has_keypair env' = he_root_has_keypair env \<and> he_node_ct env' = he_node_ct env \<and>
     he_root_ct env' = he_root_ct env \<and> he_prng env' = he_prng env"

lemma same_keys_simps [simp]:
  "same_keys env env" "same_keys env (env'\<lparr>he_rx_slots := slots\<rparr>) = same_keys env env'"
  "same_keys env (env'\<lparr>he_tx := tx\<rparr>) = same_keys env env'"
  by (simp_all add: same_keys_def)

lemma same_keys_trans [trans]: "same_keys a b \<Longrightarrow> same_keys b c \<Longrightarrow> same_keys a c"
  by (auto simp: same_keys_def)

lemma tx_process_inv: "tx_inv tx \<Longrightarrow> tx_inv (snd (pqc_tx_process tx))"
  using tx_process_step [of tx] tx_process_empty [of tx] by (cases "tx_count tx = 0") auto

lemma tx_process_free: "tx_inv tx \<Longrightarrow> tx_free tx \<le> tx_free (snd (pqc_tx_process tx))"
  using tx_process_step [of tx] tx_process_empty [of tx] by (cases "tx_count tx = 0") (auto simp: tx_free_def)

lemma frag_run_collect:
  assumes len: "0 < length data" "length data \<le> 4608"
    and "hs_inv env" "I \<union> arrived evs \<subset> {..<frag_count data}"
    and "hs_holding self mt nid mid data I t0 (he_rx_slots env)" "hs_passes mt nid s"
    and "all_in_time cs t0 evs" "I = {} \<Longrightarrow> arrival_start (evs @ [lst]) = t0"
    and "frag_run kem cs (queue_send conn dest) self data mt nid mid evs (s, env) = (s', env')"
  shows "same_core s s' \<and> same_keys env env' \<and> hs_inv env' \<and>
    hs_holding self mt nid mid data (I \<union> arrived evs) t0 (he_rx_slots env') \<and>
    (I \<union> arrived evs = {} \<longrightarrow> arrival_start [lst] = t0) \<and>
    (frag_count data - 1 \<notin> I \<union> arrived evs \<longrightarrow> tx_free (he_tx env) \<le> tx_free (he_tx env'))"
  using assms(3-)
proof (induction evs arbitrary: I s env)
  case Nil
  then show ?case by (simp add: frag_run_def)
next
  case (Cons e evs)
  show ?case
  proof (cases e)
    case Send_Tick
    let ?env = "env\<lparr>he_tx := snd (pqc_tx_process (he_tx env))\<rparr>"
    have e: "hs_inv ?env" using Cons.prems(1) tx_process_inv by (simp add: hs_inv_def)
    have "frag_run kem cs (queue_send conn dest) self data mt nid mid evs (s, ?env) = (s', env')"
      using Cons.prems(7) by (simp add: frag_run_def Send_Tick)
    from Cons.IH [OF e _ _ Cons.prems(4) _ _ this, of I] Cons.prems(2,3,5,6) same_keys_trans [of env ?env env']
      tx_process_free [of "he_tx env"] Cons.prems(1)
    show ?thesis by (auto simp: Send_Tick hs_inv_def)
  next
    case (Arrive clk fl i)
    let ?w = "wire_fragment data mt nid mid fl i"
    have I: "I \<subseteq> {..<frag_count data}" "i < frag_count data" "insert i I \<noteq> {..<frag_count data}"
        "insert i I \<union> arrived evs \<subset> {..<frag_count data}"
      using Cons.prems(2) by (auto simp: Arrive)
    obtain s1 slots tx where h: "hs_fsm_handle_fragment kem cs clk (queue_send conn dest) self ?w (of_nat (length ?w)) s env =
        (True, s1, env\<lparr>he_rx_slots := slots, he_tx := tx\<rparr>)" and c: "same_core s s1" "tx_inv tx" "rx_slots_inv slots"
        "hs_holding self mt nid mid data (insert i I) t0 slots" "frag_count data - 1 \<notin> insert i I \<longrightarrow> tx = he_tx env"
      using hs_handle_partial [OF Cons.prems(1) len I(1,2,3) Cons.prems(3), of cs clk s ?w fl kem conn dest] Cons.prems
      by (auto simp: Arrive)
    let ?env = "env\<lparr>he_rx_slots := slots, he_tx := tx\<rparr>"
    have e: "hs_inv ?env" using Cons.prems(1) c by (simp add: hs_inv_def)
    have "frag_run kem cs (queue_send conn dest) self data mt nid mid evs (s1, ?env) = (s', env')"
      using Cons.prems(7) h by (simp add: frag_run_def Arrive Let_def)
    with Cons.IH [OF e I(4) _ hs_passes_core [OF c(1) Cons.prems(4)]] c Cons.prems(5)
    have "same_core s1 s' \<and> same_keys ?env env' \<and> hs_inv env' \<and>
        hs_holding self mt nid mid data (insert i I \<union> arrived evs) t0 (he_rx_slots env') \<and>
        (frag_count data - 1 \<notin> insert i I \<union> arrived evs \<longrightarrow> tx_free (he_tx ?env) \<le> tx_free (he_tx env'))"
      by (simp add: Arrive)
    then show ?thesis using same_core_trans [OF c(1)] same_keys_trans [of env ?env] c(5) by (auto simp: Arrive)
  qed
qed

end
