(* ===== verification/Handshake_Recovery.thy ===== *)
theory Handshake_Recovery
  imports Handshake_Steps
begin

text \<open>
  Recovery from loss in \<open>src/src/PQC/handshake_fsm.c\<close>: a NACK makes the sender queue exactly the
  fragments it names, an overdue message is resent in full, and after three retries the session
  fails.
\<close>

section \<open>Retransmission on a NACK\<close>

lemma nack_decode_wire:
  assumes wf: "nack_wf nack"
  shows "pqc_nack_decode (nack_to_bytes nack) (of_nat (length (nack_to_bytes nack))) nack_zero = (True, nack)"
    and "length (nack_to_bytes nack) = 4 + unat (nk_missing_count nack)"
    and "length (nack_to_bytes nack) \<le> 20"
proof -
  show "length (nack_to_bytes nack) = 4 + unat (nk_missing_count nack)" and "length (nack_to_bytes nack) \<le> 20"
    using wf by (simp_all add: nack_to_bytes_wf nack_wf_def)
  show "pqc_nack_decode (nack_to_bytes nack) (of_nat (length (nack_to_bytes nack))) nack_zero = (True, nack)"
    using nack.decode_encode [OF wf] by (auto simp: nack_of_bytes_def split: if_splits prod.splits)
qed

lemma frag_count_one:
  assumes "0 < length data" "length data \<le> 64"
  shows "frag_count data = 1" and "fragment_tx_count (of_nat (length data)) = 1" and "chunk data 0 = data"
proof -
  have "(length data + 63) div 64 = 1" using assms by linarith
  then show f: "frag_count data = 1" using assms by (simp add: frag_count_eq)
  then show "fragment_tx_count (of_nat (length data)) = 1"
    by (simp add: frag_count_def word_unat_eq_iff)
  show "chunk data 0 = data" using assms by (simp add: chunk_def)
qed

lemma hs_handle_nack:
  assumes wf: "nack_wf nack" and w: "w = wire_fragment (nack_to_bytes nack) PQC_MSG_NACK (s_node_id s) mid fl 0"
  shows "hs_fsm_handle_fragment kem cs clk send self w (of_nat (length w)) s env =
    retransmit_nack_fragments cs (\<lambda>k. clk (1 + k)) send nack s
      (env\<lparr>he_rx_slots := rx_slots_gc cs (clk 0) (he_rx_slots env)\<rparr>)"
proof -
  let ?d = "nack_to_bytes nack"
  have len: "0 < length ?d" "length ?d \<le> 4608" "length ?d \<le> 64"
    using nack_decode_wire(2,3) [OF wf] by auto
  note one = frag_count_one [OF len(1,3)]
  have p: "parse_fragment_header w (of_nat (length w)) = Some (wire_hdr ?d PQC_MSG_NACK (s_node_id s) mid 0)"
    unfolding w using one(1) by (intro parse_wire_fragment [OF len(1,2)]) simp
  have d: "drop 10 w = ?d" using one(3) by (simp add: w wire_fragment_payload)
  have g: "hs_gate_message (wire_hdr ?d PQC_MSG_NACK (s_node_id s) mid 0) s = Gate_Pass"
    by (simp add: hs_gate_message_def msg_type_defs)
  show ?thesis
    using p d g one nack_decode_wire(1) [OF wf]
    by (simp add: hs_fsm_handle_fragment_def Let_def hs_gate_session_same)
qed

text \<open>The node's answer to a NACK of its ciphertext, when the queue has room for it.\<close>

lemma retransmit_ct:
  assumes inv: "hs_inv env" and wf: "nack_wf nack"
    and s: "session_is_node s" "s_pending_msg_type s = PQC_MSG_CT"
    and n: "nk_missing_msg_type nack = PQC_MSG_CT" "nk_missing_msg_id nack = s_pending_msg_id s" "nk_total_frags nack = 71"
    and room: "unat (nk_missing_count nack) \<le> tx_free (he_tx env)"
  shows "\<exists>s' tx. retransmit_nack_fragments cs clk (queue_send conn dest) nack s env = (True, s', env\<lparr>he_tx := tx\<rparr>) \<and>
    same_core s s' \<and> tx_inv tx \<and>
    tx_pending tx = tx_pending (he_tx env) + mset (map (wire_fragment (he_node_ct env) PQC_MSG_CT (s_node_id s)
      (s_pending_msg_id s) PQC_FLAG_RETRY) (nack_entries nack))"
proof -
  have tx: "tx_inv (he_tx env)" and l: "length (he_node_ct env) = 4481" using inv by (auto simp: hs_inv_def)
  let ?m = "take (unat (nk_missing_count nack)) (nk_missing nack)"
  have c: "fragment_tx_count 4481 = 71" by (simp add: fragment_tx_count_def Let_def)
  have "\<forall>i\<in>set ?m. i < 71"
    using wf n(3) by (auto simp: nack_wf_def in_set_conv_nth)
  then have m: "\<forall>i\<in>set ?m. unat i < unat (fragment_tx_count 4481)" by (simp add: c word_less_nat_alt)
  have lm: "length ?m = unat (nk_missing_count nack)" using wf by (simp add: nack_wf_def)
  obtain tx' where t: "retransmit_loop (queue_send conn dest) (he_node_ct env) 4481 PQC_MSG_CT (s_node_id s)
        (s_pending_msg_id s) (fragment_tx_count 4481) ?m (he_tx env) = (True, tx')"
      "tx_inv tx'" "tx_pending tx' = tx_pending (he_tx env) +
        mset (map (\<lambda>i. wire_fragment (take 4481 (he_node_ct env)) PQC_MSG_CT (s_node_id s) (s_pending_msg_id s) PQC_FLAG_RETRY (unat i)) ?m)"
    using retransmit_loop_queue [of "4481 :: u16" "he_node_ct env" "he_tx env" ?m conn dest PQC_MSG_CT "s_node_id s" "s_pending_msg_id s"]
      l tx m room lm by auto
  have p: "tx_pending tx' = tx_pending (he_tx env) + mset (map (wire_fragment (he_node_ct env) PQC_MSG_CT (s_node_id s)
      (s_pending_msg_id s) PQC_FLAG_RETRY) (nack_entries nack))"
    using t(3) l by (simp add: nack_entries_def comp_def image_mset.comp)
  have fr: "\<not> pqc_tx_free_slots (he_tx env) < nk_missing_count nack"
    using room tx by (simp add: word_less_nat_alt tx_free_slots_unat)
  let ?s = "session_touch (clk 2) ((upd_frag (\<lambda>m. m\<lparr>mf_nack_recovered_fragments :=
       mf_nack_recovered_fragments m + ucast (nk_missing_count nack)\<rparr>) (upd_frag (\<lambda>m. m\<lparr>mf_nack_rx := mf_nack_rx m + 1\<rparr>) s))
       \<lparr>s_retry_deadline := clk 1 + SESSION_RETRY_TIMEOUT cs + hs_transfer_extra cs 4481\<rparr>)"
  have "retransmit_nack_fragments cs clk (queue_send conn dest) nack s env = (True, ?s, env\<lparr>he_tx := tx'\<rparr>)"
    using s n t(1) fr c by (simp add: retransmit_nack_fragments_def Let_def msg_type_defs session_is_node_def session_is_root_def)
  moreover have "same_core s ?s" by (simp add: same_core_def session_touch_def)
  ultimately show ?thesis using t(2) p by blast
qed

section \<open>Retries\<close>

lemma hs_retry_not_due: "\<not> session_retry_due (clk 1) s \<Longrightarrow>
    hs_fsm_retry cs clk send self s env = (True, s, env\<lparr>he_rx_slots := rx_slots_gc cs (clk 0) (he_rx_slots env)\<rparr>)"
  by (simp add: hs_fsm_retry_def)

text \<open>An overdue session whose retries are used up fails, and its buffers are wiped.\<close>

lemma hs_retry_gives_up:
  assumes "session_retry_due (clk 1) s" "\<not> pqc_tx_has_pending (he_tx env)" "\<not> session_can_retry s"
    and "hs_fsm_retry cs clk send self s env = (ok, s', env')"
  shows "\<not> ok" "s_state s' = SESSION_STATE_FAILED" "\<not> s_established s'" "\<not> s_waiting_response s'" "s_retry_count s' = 0"
    and "he_tx env' = he_tx env" and "session_is_node s \<Longrightarrow> he_node_ct env' = replicate (length (he_node_ct env)) 0"
  using assms by (auto simp: hs_fsm_retry_def Let_def session_ops hs_release_def split: if_splits)

text \<open>A node whose ciphertext is unacknowledged sends all of it again, flagged as a retry.\<close>

lemma hs_retry_node_ct:
  assumes inv: "hs_inv env" and s: "session_is_node s" "s_pending_msg_type s = PQC_MSG_CT"
    and due: "session_retry_due (clk 1) s" "tx_count (he_tx env) = 0" "session_can_retry s"
  shows "\<exists>s' env'. hs_fsm_retry cs clk (queue_send conn dest) self s env = (True, s', env') \<and> hs_inv env' \<and>
    same_core (s\<lparr>s_retry_count := s_retry_count s + 1\<rparr>) s' \<and> he_node_ct env' = he_node_ct env \<and>
    tx_pending (he_tx env') = mset (map (wire_fragment (he_node_ct env) PQC_MSG_CT (s_node_id s) (s_pending_msg_id s)
      PQC_FLAG_RETRY) [0..<71])"
proof -
  have tx: "tx_inv (he_tx env)" and l: "length (he_node_ct env) = 4481" using inv by (auto simp: hs_inv_def)
  have fr: "tx_free (he_tx env) = 96" "tx_pending (he_tx env) = {#}"
    using due(2) size_tx_pending [OF tx] by (auto simp: tx_free_def)
  obtain ok tx where t: "fragment_tx (he_node_ct env) 4481 PQC_MSG_CT (s_node_id s) (s_pending_msg_id s) PQC_FLAG_RETRY
      (queue_send conn dest) (he_tx env) = (ok, tx)" by fastforce
  note q = fragment_tx_queue [OF tx _ _ _ t]
  have q': "ok" "tx_inv tx" "tx_pending tx = mset (map (wire_fragment (he_node_ct env) PQC_MSG_CT (s_node_id s) (s_pending_msg_id s)
      PQC_FLAG_RETRY) [0..<71])" using q l fr by simp_all
  have r: "tx_has_room_for 4481 (he_tx env)" using tx fr by (simp add: tx_has_room_for_iff)
  have np: "\<not> pqc_tx_has_pending (he_tx env)" using due(2) by (simp add: pqc_tx_has_pending_def)
  have nr: "\<not> session_is_root s" using s(1) by (simp add: session_is_root_def session_is_node_def)
  have e: "hs_inv (hs_release self (env\<lparr>he_rx_slots := rx_slots_gc cs (clk 0) (he_rx_slots env)\<rparr>))"
    using inv by (intro hs_inv_release hs_inv_gc)
  let ?s = "hs_mark_retry_for_transfer cs (\<lambda>k. clk (4 + k)) 4481 s"
  have "same_core (s\<lparr>s_retry_count := s_retry_count s + 1\<rparr>) ?s"
    by (simp add: hs_mark_retry_for_transfer_def Let_def same_core_def session_touch_def)
  with s nr due(1,3) np r t q' e l show ?thesis
    by (simp add: hs_fsm_retry_def hs_retry_resend_def Let_def hs_release_def hs_inv_def msg_type_defs)
qed

text \<open>
  Rounds of the retry process with no answer: before each round the send process has emptied the
  queue.
\<close>

fun retry_rounds ::
  "u32 \<Rightarrow> tx_state send_fn \<Rightarrow> session_ref \<Rightarrow> (nat \<Rightarrow> clock_time_t) list \<Rightarrow> session_t \<Rightarrow> 'g hs_env \<Rightarrow> session_t \<times> 'g hs_env" where
  "retry_rounds cs send self [] s env = (s, env)"
| "retry_rounds cs send self (clk # clks) s env =
     (let env = env\<lparr>he_tx := tx_process_n (unat (tx_count (he_tx env))) (he_tx env)\<rparr>;
          (ok, s, env) = hs_fsm_retry cs clk send self s env
      in retry_rounds cs send self clks s env)"

text \<open>Every round finds the deadline of the round before it passed.\<close>

fun rounds_due :: "u32 \<Rightarrow> tx_state send_fn \<Rightarrow> session_ref \<Rightarrow> (nat \<Rightarrow> clock_time_t) list \<Rightarrow> session_t \<Rightarrow> 'g hs_env \<Rightarrow> bool" where
  "rounds_due cs send self [] s env = True"
| "rounds_due cs send self (clk # clks) s env =
     (s_retry_deadline s \<le> clk 1 \<and>
      (let env = env\<lparr>he_tx := tx_process_n (unat (tx_count (he_tx env))) (he_tx env)\<rparr>;
           (ok, s, env) = hs_fsm_retry cs clk send self s env
       in rounds_due cs send self clks s env))"

lemma retry_rounds_fail:
  assumes "hs_inv env" "session_inv s" "session_is_node s" "s_pending_msg_type s = PQC_MSG_CT" "s_waiting_response s"
    and "rounds_due cs (queue_send conn dest) self clks s env" "length clks = 4 - unat (s_retry_count s)"
  shows "s_state (fst (retry_rounds cs (queue_send conn dest) self clks s env)) = SESSION_STATE_FAILED \<and>
    \<not> s_established (fst (retry_rounds cs (queue_send conn dest) self clks s env))"
  using assms
proof (induction clks arbitrary: s env)
  case Nil
  then show ?case by (simp add: session_inv_def)
next
  case (Cons clk clks)
  define e where "e = env\<lparr>he_tx := tx_process_n (unat (tx_count (he_tx env))) (he_tx env)\<rparr>"
  have d: "tx_inv (he_tx e)" "tx_count (he_tx e) = 0"
    using tx_process_n_drains [of "he_tx env"] Cons.prems(1) by (auto simp: hs_inv_def e_def)
  have ei: "hs_inv e" using Cons.prems(1) d(1) by (simp add: hs_inv_def e_def)
  have due: "session_retry_due (clk 1) s" using Cons.prems(5,6) by (simp add: session_retry_due_def)
  have np: "\<not> pqc_tx_has_pending (he_tx e)" using d(2) by (simp add: pqc_tx_has_pending_def)
  obtain ok s' env' where h: "hs_fsm_retry cs clk (queue_send conn dest) self s e = (ok, s', env')" by (metis prod_cases3)
  show ?case
  proof (cases "session_can_retry s")
    case False
    then have "length clks = 0" using Cons.prems(7) unfolding session_can_retry_def list.size by linarith
    then have c: "clks = []" by simp
    show ?thesis using hs_retry_gives_up [of clk s e, OF due np False h] h c by (simp add: e_def [symmetric])
  next
    case True
    obtain s1 env1 where r: "hs_fsm_retry cs clk (queue_send conn dest) self s e = (True, s1, env1)" "hs_inv env1"
        "same_core (s\<lparr>s_retry_count := s_retry_count s + 1\<rparr>) s1"
      using hs_retry_node_ct [of e s clk, OF ei Cons.prems(3,4) due d(2) True] by blast
    note f = same_core_fields [OF r(3), simplified]
    have u: "unat (s_retry_count s1) = Suc (unat (s_retry_count s))"
      using True f(10) by (simp add: session_can_retry_def unat_Suc_small)
    have "session_inv s1" using hs_retry_inv [OF ei Cons.prems(2) r(1)] by blast
    moreover have "session_is_node s1" using Cons.prems(3) f by (simp add: session_is_node_def)
    moreover have "rounds_due cs (queue_send conn dest) self clks s1 env1"
      using Cons.prems(6) r(1) by (simp add: e_def [symmetric])
    moreover have "length clks = 4 - unat (s_retry_count s1)"
      using Cons.prems(7) u True by (simp add: session_can_retry_def)
    ultimately show ?thesis
      using Cons.IH [OF r(2)] Cons.prems(4,5) f r(1) by (simp add: e_def [symmetric])
  qed
qed

section \<open>Properties\<close>

lemma built_nack_wf:
  assumes rx: "rx_inv rx" "rx_active rx" and b: "pqc_nack_build_from_rx rx nack0 max_missing = (c, nack)" and "c \<noteq> 0"
  shows "nack_wf nack"
proof -
  note sp = nack_build_spec [OF rx refl b]
  let ?m = "if max_missing = 0 \<or> 16 < unat max_missing then 16 else unat max_missing"
  have c16: "unat c \<le> 16" using sp(2) by (auto split: if_splits)
  have e: "nack_entries nack = map unat (take (unat c) (nk_missing nack))" using sp(3) by (simp add: nack_entries_def)
  have "nk_missing nack ! i < nk_total_frags nack" if "i < unat c" for i
  proof -
    have "unat (nk_missing nack ! i) \<in> set (nack_entries nack)" using that c16 sp(7) nth_mem [of i "nack_entries nack"] unfolding e by simp
    then have "unat (nk_missing nack ! i) < unat (rx_total_frags rx)"
      unfolding sp(1) by (auto simp: missing_frags_def dest!: in_set_takeD)
    then show ?thesis using sp(6) by (simp add: word_less_nat_alt)
  qed
  moreover have "unat (rx_total_frags rx) \<le> 72" "rx_total_frags rx \<noteq> 0" using rx by (auto simp: rx_inv_def)
  ultimately show ?thesis using sp c16 assms(4) by (simp add: nack_wf_def)
qed

text \<open>
  C9.  A negative acknowledgement repairs a ciphertext: when the root reports the fragments its
  reassembly context lacks and the report reaches a node that waits for the acknowledgement of that
  ciphertext with a queue slot for each of them, the node queues exactly the reported fragments, the first
  sixteen missing ones in order, marked as retransmissions, and its session stays as it was.
\<close>

theorem nack_repairs_ciphertext:
  assumes inv: "hs_inv env" and s: "session_is_node s" "s_pending_msg_type s = PQC_MSG_CT"
    and rx: "rx_inv rx" "rx_active rx" "rx_msg_type rx = PQC_MSG_CT" "rx_msg_id rx = s_pending_msg_id s" "rx_total_frags rx = 71"
    and nack: "pqc_nack_build_from_rx rx nack0 16 = (c, nack)" "c \<noteq> 0" "unat c \<le> tx_free (he_tx env)"
    and w: "w = wire_fragment (nack_to_bytes nack) PQC_MSG_NACK (s_node_id s) mid flags 0"
  shows "\<exists>s' env'. hs_fsm_handle_fragment kem cs clk (queue_send conn dest) self w (of_nat (length w)) s env = (True, s', env') \<and>
    same_core s s' \<and> tx_inv (he_tx env') \<and> he_node_ct env' = he_node_ct env \<and>
    tx_pending (he_tx env') = tx_pending (he_tx env) + mset (map (wire_fragment (he_node_ct env) PQC_MSG_CT (s_node_id s)
      (s_pending_msg_id s) PQC_FLAG_RETRY) (take 16 (filter (\<lambda>i. \<not> rx_bitmap rx ! i) [0..<71])))"
proof -
  note sp = nack_build_spec [OF rx(1,2) refl nack(1)]
  note wf = built_nack_wf [OF rx(1,2) nack(1,2)]
  let ?e = "env\<lparr>he_rx_slots := rx_slots_gc cs (clk 0) (he_rx_slots env)\<rparr>"
  have e: "nack_entries nack = take 16 (filter (\<lambda>i. \<not> rx_bitmap rx ! i) [0..<71])"
    using sp(1) rx(5) by (simp add: missing_frags_def)
  have "hs_inv ?e" by (rule hs_inv_gc [OF inv])
  from retransmit_ct [OF this wf s, of cs "\<lambda>k. clk (1 + k)" conn dest] hs_handle_nack [OF wf w, of kem cs clk "queue_send conn dest" self env]
    sp(3,4,5,6) rx(3-5) nack(3) e
  show ?thesis by auto
qed

text \<open>A node waiting for the acknowledgement of ciphertext 3, and the context of a root that has every fragment but two.\<close>

definition waiting_node :: session_t where
  "waiting_node = session_set_pending 128 0 0 PQC_MSG_CT 3 (session_set_wait_ack (session_init 0 SESSION_ROLE_NODE 7))"

definition lossy_rx :: fragment_rx_ctx_t where
  "lossy_rx = receive_chunks PQC_MSG_CT 7 3 (replicate 4481 0) (filter (\<lambda>i. i \<noteq> 5 \<and> i \<noteq> 70) [0..<71]) fragment_rx_init"

lemma waiting_node_fields: "session_is_node waiting_node" "s_pending_msg_type waiting_node = PQC_MSG_CT"
  "s_pending_msg_id waiting_node = 3" "s_node_id waiting_node = 7" "s_waiting_response waiting_node"
  "unat (s_retry_count waiting_node) = 0" "session_inv waiting_node"
  by (simp_all add: waiting_node_def session_ops session_zero_def session_inv_def)

lemma lossy_rx_fields: "rx_inv lossy_rx" "rx_active lossy_rx" "rx_msg_type lossy_rx = PQC_MSG_CT" "rx_msg_id lossy_rx = 3"
  "rx_total_frags lossy_rx = 71" "filter (\<lambda>i. \<not> rx_bitmap lossy_rx ! i) [0..<71] = [5, 70]"
proof -
  let ?d = "replicate 4481 (0 :: u8)" and ?is = "filter (\<lambda>i. i \<noteq> 5 \<and> i \<noteq> 70) [0..<71]"
  have n: "frag_count ?d = 71" by (simp add: frag_count_eq)
  have h: "rx_holds PQC_MSG_CT 7 3 ?d (set ?is) lossy_rx"
    using receive_chunks_holds [of ?d "{}" ?is PQC_MSG_CT 7 3 fragment_rx_init] n by (auto simp: lossy_rx_def)
  have "(0 :: nat) \<in> set ?is" by simp
  then have ne: "set ?is \<noteq> {}" using emptyE by metis
  have "fragment_tx_count (of_nat (length ?d)) = 71" by code_simp
  with h ne show "rx_inv lossy_rx" "rx_active lossy_rx" "rx_msg_type lossy_rx = PQC_MSG_CT" "rx_msg_id lossy_rx = 3"
    "rx_total_frags lossy_rx = 71" by (auto simp: rx_holds_def)
  have "filter (\<lambda>i. \<not> rx_bitmap lossy_rx ! i) [0..<71] = filter (\<lambda>i. \<not> (i \<noteq> 5 \<and> i \<noteq> 70)) [0..<71]"
    using h by (intro filter_cong) (auto simp: rx_holds_def)
  also have "\<dots> = [5, 70]" by code_simp
  finally show "filter (\<lambda>i. \<not> rx_bitmap lossy_rx ! i) [0..<71] = [5, 70]" .
qed

theorem nack_repairs_ciphertext_witness:
  "\<exists>s' env'. hs_fsm_handle_fragment constant_kem 128 (\<lambda>k. 0) (queue_send 0 5) Local_Session
      (wire_fragment (nack_to_bytes (snd (pqc_nack_build_from_rx lossy_rx nack_zero 16))) PQC_MSG_NACK 7 0 0 0) 16
      waiting_node (hs_env_boot ()) = (True, s', env') \<and>
    tx_pending (he_tx env') = mset (map (wire_fragment (he_node_ct (hs_env_boot ())) PQC_MSG_CT 7 3 PQC_FLAG_RETRY) [5, 70])"
proof -
  obtain c nack where b: "pqc_nack_build_from_rx lossy_rx nack_zero 16 = (c, nack)" by fastforce
  note sp = nack_build_spec [OF lossy_rx_fields(1,2) refl b]
  have "missing_frags lossy_rx = [5, 70]" using lossy_rx_fields(5,6) by (simp add: missing_frags_def)
  then have c: "unat c = 2" using sp(2) by simp
  then have c0: "c \<noteq> 0" by auto
  have "length (nack_to_bytes nack) = 6"
    using nack_decode_wire(2) [OF built_nack_wf [OF lossy_rx_fields(1,2) b c0]] sp(3) c by simp
  then have l: "length (wire_fragment (nack_to_bytes nack) PQC_MSG_NACK 7 0 0 0) = 16"
    by (simp add: wire_fragment_length chunk_def)
  have e: "tx_free (he_tx (hs_env_boot ())) = 96" "tx_pending (he_tx (hs_env_boot ())) = {#}"
    by (simp_all add: hs_env_boot_def tx_free_def tx_pending_def)
  from nack_repairs_ciphertext [OF hs_inv_boot [of "()"] waiting_node_fields(1,2) lossy_rx_fields(1-3) _ lossy_rx_fields(5) b c0 _ refl,
      of constant_kem 128 "\<lambda>k. 0" 0 5 Local_Session 0 0] lossy_rx_fields(4,6) waiting_node_fields(3,4) e c l
  show ?thesis unfolding b by auto
qed

text \<open>
  C10.  Without an answer the node gives up after three repetitions: when every run of the retry process
  finds the deadline passed and the queue sent, the session of a node waiting for the acknowledgement of its
  ciphertext fails after at most four runs (one fewer for each repetition already made), and is not established.
\<close>

theorem retries_are_bounded:
  assumes "hs_inv env" and "session_inv s" and "session_is_node s" and "s_pending_msg_type s = PQC_MSG_CT"
    and "s_waiting_response s" and "rounds_due cs (queue_send conn dest) self clks s env"
    and "length clks = 4 - unat (s_retry_count s)"
  shows "s_state (fst (retry_rounds cs (queue_send conn dest) self clks s env)) = SESSION_STATE_FAILED \<and>
    \<not> session_is_established (fst (retry_rounds cs (queue_send conn dest) self clks s env))"
  using retry_rounds_fail [OF assms] by (simp add: session_is_established_def)

lemma rounds_due_late: "rounds_due cs send self (replicate n (\<lambda>k. - 1)) s env"
  by (induction n arbitrary: s env) (auto simp: Let_def split: prod.split)

theorem retries_are_bounded_witness:
  "s_state (fst (retry_rounds 128 (queue_send 0 5) Local_Session (replicate 4 (\<lambda>k. - 1)) waiting_node (hs_env_boot ()))) =
     SESSION_STATE_FAILED"
  using retries_are_bounded [OF hs_inv_boot waiting_node_fields(7,1,2,5) rounds_due_late, of 4 128 0 5 Local_Session "()"]
    waiting_node_fields(6) by simp

end
