(* ===== verification/Console.thy ===== *)
theory Console
  imports Protocol
begin

text \<open>
  The text the programs print: the decimal conversions of \<open>printf\<close> that they use, the seconds of the
  CSV log (\<open>csv_print_seconds\<close> and \<open>csv_print_value\<close> of \<open>src/server_main.c\<close>), and the measurement
  module \<open>src/src/Temp/temp_measurement.c\<close>.
\<close>

section \<open>Decimal conversions\<close>

definition digit_char :: "nat \<Rightarrow> char" where
  "digit_char d = char_of (48 + d)"

text \<open>\<open>%lu\<close> and \<open>%u\<close>.\<close>

fun print_nat :: "nat \<Rightarrow> string" where
  "print_nat n = (if n < 10 then [digit_char n] else print_nat (n div 10) @ [digit_char (n mod 10)])"

declare print_nat.simps [simp del]

text \<open>\<open>%ld\<close>.\<close>

definition print_int :: "int \<Rightarrow> string" where
  "print_int i = (if i < 0 then CHR ''-'' # print_nat (nat (- i)) else print_nat (nat i))"

text \<open>\<open>%03lu\<close> and \<open>%03ld\<close> for a value that is not negative.\<close>

definition print_pad3 :: "nat \<Rightarrow> string" where
  "print_pad3 n = (let t = print_nat n in replicate (3 - length t) (CHR ''0'') @ t)"

text \<open>Reading a decimal numeral back.\<close>

definition read_nat :: "string \<Rightarrow> nat" where
  "read_nat t = foldl (\<lambda>v c. 10 * v + (of_char c - 48)) 0 t"

lemma read_nat_snoc: "read_nat (t @ [c]) = 10 * read_nat t + (of_char c - 48)"
  by (simp add: read_nat_def)

lemma of_digit_char [simp]: "d < 10 \<Longrightarrow> of_char (digit_char d) = (48 + d :: nat)"
  by (simp add: digit_char_def)

lemma read_print_nat: "read_nat (print_nat n) = n"
proof (induction n rule: print_nat.induct)
  case (1 n)
  show ?case
  proof (cases "n < 10")
    case True
    then show ?thesis by (simp add: print_nat.simps [of n] read_nat_def)
  next
    case False
    with 1 show ?thesis by (subst print_nat.simps) (simp add: read_nat_snoc)
  qed
qed

lemma read_zeros: "read_nat (replicate k (CHR ''0'') @ t) = read_nat t"
proof -
  have "foldl (\<lambda>v c. 10 * v + (of_char c - 48)) 0 (replicate k (CHR ''0'')) = (0 :: nat)"
    by (induction k) auto
  then show ?thesis by (simp add: read_nat_def)
qed

lemma print_nat_length: "n < 10 ^ k \<Longrightarrow> 0 < k \<Longrightarrow> length (print_nat n) \<le> k"
proof (induction n arbitrary: k rule: print_nat.induct)
  case (1 n)
  show ?case
  proof (cases "n < 10")
    case False
    obtain j where j: "k = Suc j" using 1(3) by (cases k) auto
    then have k: "k = Suc j" "0 < j" using 1(2) False by (cases j; simp)+
    then have "n div 10 < 10 ^ j" using 1(2) by (simp add: less_mult_imp_div_less mult.commute)
    with 1(1) [OF False] k False show ?thesis by (subst print_nat.simps) auto
  qed (use 1 in \<open>simp add: print_nat.simps [of n]\<close>)
qed

lemma print_pad3_spec: "n < 1000 \<Longrightarrow> length (print_pad3 n) = 3 \<and> read_nat (print_pad3 n) = n"
  using print_nat_length [of n 3] by (simp add: print_pad3_def Let_def read_zeros read_print_nat)

section \<open>Seconds\<close>

text \<open>The two numbers that \<open>csv_print_seconds\<close> prints; \<open>cs\<close> is \<open>CLOCK_SECOND\<close>.\<close>

definition csv_split_seconds :: "u32 \<Rightarrow> u32 \<Rightarrow> u32 \<times> u32" where
  "csv_split_seconds cs ticks =
     (let seconds = ticks div cs;
          millis = ((ticks mod cs) * 1000 + cs div 2) div cs
      in if 1000 \<le> millis then (seconds + 1, millis - 1000) else (seconds, millis))"

definition csv_print_seconds :: "u32 \<Rightarrow> u32 \<Rightarrow> string" where
  "csv_print_seconds cs ticks =
     (let (seconds, millis) = csv_split_seconds cs ticks
      in print_nat (unat seconds) @ ''.'' @ print_pad3 (unat millis))"

definition csv_print_value :: "u32 \<Rightarrow> u32 \<Rightarrow> bool \<Rightarrow> string" where
  "csv_print_value cs val as_seconds = (if as_seconds then csv_print_seconds cs val else print_nat (unat val))"

text \<open>The printed time is the tick count rounded to the nearest millisecond.\<close>

lemma csv_split_seconds_rounds:
  assumes cs: "0 < unat cs" "unat cs \<le> 4000000"
  shows "unat (fst (csv_split_seconds cs ticks)) * 1000 + unat (snd (csv_split_seconds cs ticks)) =
      (unat ticks * 1000 + unat cs div 2) div unat cs"
    and "unat (snd (csv_split_seconds cs ticks)) < 1000"
proof -
  let ?c = "unat cs" and ?t = "unat ticks"
  let ?m = "((ticks mod cs) * 1000 + cs div 2) div cs"
  have r: "?t mod ?c < ?c" using cs by simp
  have m1: "unat ((ticks mod cs) * 1000 :: u32) = ?t mod ?c * 1000"
    using r cs(2) by (simp add: unat_word_ariths unat_mod mod_less)
  have m2: "unat ((ticks mod cs) * 1000 + cs div 2 :: u32) = ?t mod ?c * 1000 + ?c div 2"
    using r cs(2) m1 by (subst unat_plus_small) (auto simp: unat_div)
  have m: "unat ?m = (?t mod ?c * 1000 + ?c div 2) div ?c" by (simp add: unat_div m2)
  have le: "unat ?m \<le> 1000"
  proof -
    have "?t mod ?c * 1000 + ?c div 2 < 1001 * ?c" using r cs(1) by linarith
    then have "unat ?m < 1001" unfolding m using cs(1) by (simp add: less_mult_imp_div_less)
    then show ?thesis by simp
  qed
  have s: "unat (ticks div cs) = ?t div ?c" by (simp add: unat_div)
  have "(?t * 1000 + ?c div 2) div ?c = ?t div ?c * 1000 + unat ?m"
  proof -
    have "?t * 1000 + ?c div 2 = ?c * (?t div ?c * 1000) + (?t mod ?c * 1000 + ?c div 2)"
      using mult_div_mod_eq [of ?c ?t] by (metis add.assoc add_mult_distrib mult.assoc)
    then show ?thesis unfolding m using cs(1) by (simp only: div_mult_self4)
  qed
  moreover have "unat (ticks div cs + 1) = ?t div ?c + 1 \<and> unat (?m - 1000) = unat ?m - 1000" if "1000 \<le> ?m"
  proof -
    have "?c \<noteq> 1"
    proof
      assume "?c = 1"
      then show False using that m by (simp add: word_le_nat_alt)
    qed
    then have "?t div ?c \<le> ?t div 2" using cs(1) by (intro div_le_mono2) auto
    then have "?t div ?c + 1 < 4294967296" using unat_u32_lt [of ticks] by linarith
    then show ?thesis using s that by (simp add: unat_plus_small unat_sub)
  qed
  ultimately show "unat (fst (csv_split_seconds cs ticks)) * 1000 + unat (snd (csv_split_seconds cs ticks)) =
      (?t * 1000 + ?c div 2) div ?c" "unat (snd (csv_split_seconds cs ticks)) < 1000"
    using s le by (auto simp: csv_split_seconds_def Let_def word_le_nat_alt)
qed

section \<open>Measurements\<close>

text \<open>
  Division by a positive constant as in C, towards zero.  The arguments of \<open>print_measurement\<close> are
  \<open>int\<close>; the negation of the smallest one is outside the sensor's range.
\<close>

definition c_div :: "int \<Rightarrow> int \<Rightarrow> int" where
  "c_div a b = (if a < 0 then - ((- a) div b) else a div b)"

definition print_measurement :: "int \<Rightarrow> int \<Rightarrow> string" where
  "print_measurement rh_milli temp_milli =
     (let rh_int = c_div rh_milli 1000;
          rh_frac = (if 0 \<le> rh_milli then rh_milli else - rh_milli) mod 1000;
          t_int = c_div temp_milli 1000;
          t_frac = (if 0 \<le> temp_milli then temp_milli else - temp_milli) mod 1000
      in ''RH:'' @ print_int rh_int @ ''.'' @ print_pad3 (nat rh_frac) @ '' %,  T:'' @ print_int t_int @ ''.'' @
         print_pad3 (nat t_frac) @ '' C'' @ [CHR 0x0D, CHR 0x0A])"

text \<open>\<open>reading\<close> is the result of the sensor driver's \<open>SI7021_measure\<close>.\<close>

definition temp_measurement_read :: "u32 \<times> u32 \<Rightarrow> pqc_temp_payload_t \<Rightarrow> pqc_temp_payload_t" where
  "temp_measurement_read reading out =
     (let (hume, temper) = reading in out\<lparr>tp_rh_milli := hume, tp_temp_milli := temper\<rparr>)"

text \<open>Between -1 and 0 degrees the sign is not printed.\<close>

lemma print_measurement_sign:
  "0 < t \<Longrightarrow> t < 1000 \<Longrightarrow> print_measurement rh (- t) = print_measurement rh t"
  by (simp add: print_measurement_def c_div_def Let_def)

section \<open>Properties\<close>

text \<open>
  A time in the log is the tick count in seconds rounded to the nearest millisecond, for every clock
  rate up to 4000000 ticks per second: the integer part and the three digits after the point, read back as
  numbers, give the tick count times 1000 divided by the rate, rounded half up, and the digits are a proper
  fraction.
\<close>

theorem csv_seconds_rounded:
  assumes "0 < unat cs" and "unat cs \<le> 4000000"
  shows "\<exists>seconds millis. csv_print_seconds cs ticks = print_nat seconds @ ''.'' @ print_pad3 millis \<and>
    millis < 1000 \<and> length (print_pad3 millis) = 3 \<and> read_nat (print_pad3 millis) = millis \<and>
    read_nat (print_nat seconds) = seconds \<and>
    seconds * 1000 + millis = (unat ticks * 1000 + unat cs div 2) div unat cs"
proof -
  let ?s = "unat (fst (csv_split_seconds cs ticks))" and ?m = "unat (snd (csv_split_seconds cs ticks))"
  have "csv_print_seconds cs ticks = print_nat ?s @ ''.'' @ print_pad3 ?m"
    by (simp add: csv_print_seconds_def split: prod.split)
  with csv_split_seconds_rounds [OF assms, of ticks] print_pad3_spec [of ?m] read_print_nat [of ?s]
  show ?thesis by metis
qed

theorem csv_seconds_rounded_witness:
  "\<exists>seconds millis. csv_print_seconds 128 1000 = print_nat seconds @ ''.'' @ print_pad3 millis \<and>
     seconds * 1000 + millis = 7813"
  using csv_seconds_rounded [of 128 1000] by auto

text \<open>
  C40.  Printing a measurement loses the sign between minus one and zero: a negative reading above
  \<open>-1000\<close> thousandths is printed exactly like the positive one.
\<close>

theorem measurement_sign_lost:
  assumes "0 < t" and "t < 1000"
  shows "print_measurement rh (- t) = print_measurement rh t"
  by (rule print_measurement_sign [OF assms])

theorem measurement_sign_lost_witness: "print_measurement 40000 (- 500) = print_measurement 40000 500"
  using measurement_sign_lost [of 500 40000] by simp

end
