(* ===== verification/Server_Main.thy ===== *)
theory Server_Main
  imports Handshake Console
begin

text \<open>
  The root program, \<open>src/server_main.c\<close>.  Its state is the session table, the handshake module with
  the transmit queue, the impact window and the CSV log; the log is the list of printed CSV lines,
  without the free-text lines of \<open>ROOT_LOG\<close>.  \<open>clk k\<close> is the reading of the clock at the \<open>k\<close>-th
  program point; a callee gets the readings from its first program point on.
\<close>

section \<open>The CSV log\<close>

abbreviation (input) CSV_VALUE0_SECONDS :: u8 where "CSV_VALUE0_SECONDS \<equiv> 1"
abbreviation (input) CSV_VALUE1_SECONDS :: u8 where "CSV_VALUE1_SECONDS \<equiv> 2"
abbreviation (input) CSV_VALUE2_SECONDS :: u8 where "CSV_VALUE2_SECONDS \<equiv> 4"
abbreviation (input) CSV_VALUE3_SECONDS :: u8 where "CSV_VALUE3_SECONDS \<equiv> 8"

definition csv_header :: string where
  "csv_header = ''PQC_CSV_HEADER,record,root_seconds,node_id,event,value0,value1,value2,value3''"

definition csv_event_units ::
  "u32 \<Rightarrow> clock_time_t \<Rightarrow> u16 \<Rightarrow> string \<Rightarrow> u32 \<Rightarrow> u32 \<Rightarrow> u32 \<Rightarrow> u32 \<Rightarrow> u8 \<Rightarrow> string" where
  "csv_event_units cs now node_id event value0 value1 value2 value3 seconds_mask =
     ''PQC_CSV,EVENT,'' @ csv_print_seconds cs now @ '','' @ print_nat (unat node_id) @ '','' @ event @ '','' @
     csv_print_value cs value0 (seconds_mask AND CSV_VALUE0_SECONDS \<noteq> 0) @ '','' @
     csv_print_value cs value1 (seconds_mask AND CSV_VALUE1_SECONDS \<noteq> 0) @ '','' @
     csv_print_value cs value2 (seconds_mask AND CSV_VALUE2_SECONDS \<noteq> 0) @ '','' @
     csv_print_value cs value3 (seconds_mask AND CSV_VALUE3_SECONDS \<noteq> 0)"

definition csv_event :: "u32 \<Rightarrow> clock_time_t \<Rightarrow> u16 \<Rightarrow> string \<Rightarrow> u32 \<Rightarrow> u32 \<Rightarrow> u32 \<Rightarrow> u32 \<Rightarrow> string" where
  "csv_event cs now node_id event value0 value1 value2 value3 =
     csv_event_units cs now node_id event value0 value1 value2 value3 0"

definition csv_temp :: "u32 \<Rightarrow> clock_time_t \<Rightarrow> u16 \<Rightarrow> pqc_temp_payload_t \<Rightarrow> string" where
  "csv_temp cs now node_id measurement =
     ''PQC_CSV,TEMP,'' @ csv_print_seconds cs now @ '','' @ print_nat (unat node_id) @ '',TEMP_RX,'' @
     print_nat (unat (tp_counter measurement)) @ '','' @ print_int (sint (tp_rh_milli measurement)) @ '','' @
     print_int (sint (tp_temp_milli measurement)) @ '',0''"

definition csv_hs_summary :: "u32 \<Rightarrow> (nat \<Rightarrow> clock_time_t) \<Rightarrow> session_t \<Rightarrow> string \<Rightarrow> string list" where
  "csv_hs_summary cs clk s event =
     (let m = s_metrics s; h = ms_handshake m in
      [csv_event_units cs (clk 0) (s_node_id s) event (mh_handshake_ticks_last h) (mr_retries (ms_resource m))
         (mf_nack_tx (ms_fragmentation m)) (mf_nack_rx (ms_fragmentation m)) CSV_VALUE0_SECONDS,
       csv_event_units cs (clk 1) (s_node_id s) ''HS_PK'' (mh_pk_tx_ticks_last h) (mh_pk_rx_ticks_last h)
         (mh_pk_tx h) (mh_pk_rx_complete h) (CSV_VALUE0_SECONDS OR CSV_VALUE1_SECONDS),
       csv_event_units cs (clk 2) (s_node_id s) ''HS_CT'' (mh_ct_tx_ticks_last h) (mh_ct_rx_ticks_last h)
         (mh_ct_tx h) (mh_ct_rx_complete h) (CSV_VALUE0_SECONDS OR CSV_VALUE1_SECONDS),
       csv_event_units cs (clk 3) (s_node_id s) ''HS_CRYPTO'' (mh_keypair_ticks_last h) (mh_encaps_ticks_last h)
         (mh_decaps_ticks_last h) (mh_ack_wait_ticks_last h)
         (CSV_VALUE0_SECONDS OR CSV_VALUE1_SECONDS OR CSV_VALUE2_SECONDS OR CSV_VALUE3_SECONDS)])"

definition csv_node_metrics :: "u32 \<Rightarrow> (nat \<Rightarrow> clock_time_t) \<Rightarrow> u16 \<Rightarrow> pqc_metrics_report_t \<Rightarrow> string list" where
  "csv_node_metrics cs clk node_id report =
     (let g = rp_group report;
          seconds_mask =
            (if g = PQC_METRICS_GROUP_HS then CSV_VALUE0_SECONDS
             else if g = PQC_METRICS_GROUP_PK \<or> g = PQC_METRICS_GROUP_CT then CSV_VALUE0_SECONDS OR CSV_VALUE1_SECONDS
             else if g = PQC_METRICS_GROUP_CRYPTO
             then CSV_VALUE0_SECONDS OR CSV_VALUE1_SECONDS OR CSV_VALUE2_SECONDS OR CSV_VALUE3_SECONDS
             else 0)
      in [csv_event_units cs (clk 0) node_id (pqc_metrics_group_name g) (rp_value0 report) (rp_value1 report)
            (rp_value2 report) (rp_value3 report) seconds_mask,
          csv_event_units cs (clk 1) node_id ''NODE_METRICS_META'' (ucast g) (rp_seq report) (rp_uptime_ticks report)
            (ucast (rp_version report)) CSV_VALUE2_SECONDS])"

definition session_store_node_metrics :: "pqc_metrics_report_t \<Rightarrow> session_t \<Rightarrow> session_t" where
  "session_store_node_metrics report s =
     (if rp_group report = 0 \<or> PQC_METRICS_GROUP_COUNT < rp_group report then s
      else
        s\<lparr>s_node_metric_values := (s_node_metric_values s)[unat (rp_group report) :=
            [rp_value0 report, rp_value1 report, rp_value2 report, rp_value3 report]],
          s_node_metrics_mask := s_node_metrics_mask s OR push_bit (unat (rp_group report) - 1) 1\<rparr>)"

definition csv_summary_required :: u8 where
  "csv_summary_required =
     push_bit (unat PQC_METRICS_GROUP_HS - 1) 1 OR push_bit (unat PQC_METRICS_GROUP_PK - 1) 1 OR
     push_bit (unat PQC_METRICS_GROUP_CT - 1) 1 OR push_bit (unat PQC_METRICS_GROUP_CRYPTO - 1) 1 OR
     push_bit (unat PQC_METRICS_GROUP_FRAG - 1) 1 OR push_bit (unat PQC_METRICS_GROUP_TEMP - 1) 1 OR
     push_bit (unat PQC_METRICS_GROUP_RES - 1) 1"

definition csv_session_summary :: "u32 \<Rightarrow> (nat \<Rightarrow> clock_time_t) \<Rightarrow> session_t \<Rightarrow> string list" where
  "csv_session_summary cs clk s =
     (let root = s_metrics s; h = ms_handshake root; f = ms_fragmentation root; t = ms_temp root;
          node = (\<lambda>g :: u8. s_node_metric_values s ! unat g);
          node_hs = node PQC_METRICS_GROUP_HS; node_pk = node PQC_METRICS_GROUP_PK;
          node_ct = node PQC_METRICS_GROUP_CT; node_crypto = node PQC_METRICS_GROUP_CRYPTO;
          node_frag = node PQC_METRICS_GROUP_FRAG; node_temp = node PQC_METRICS_GROUP_TEMP;
          node_res = node PQC_METRICS_GROUP_RES
      in [csv_event_units cs (clk 0) (s_node_id s) ''SESSION_HS'' (mh_handshake_ticks_last h) (node_hs ! 0)
            (mr_retries (ms_resource root)) (node_res ! 0) (CSV_VALUE0_SECONDS OR CSV_VALUE1_SECONDS),
          csv_event_units cs (clk 1) (s_node_id s) ''SESSION_PK'' (mh_pk_tx_ticks_last h) (node_pk ! 1)
            (mh_pk_tx h) (node_pk ! 3) (CSV_VALUE0_SECONDS OR CSV_VALUE1_SECONDS),
          csv_event_units cs (clk 2) (s_node_id s) ''SESSION_CT'' (node_ct ! 0) (mh_ct_rx_ticks_last h)
            (node_ct ! 2) (mh_ct_rx_complete h) (CSV_VALUE0_SECONDS OR CSV_VALUE1_SECONDS),
          csv_event_units cs (clk 3) (s_node_id s) ''SESSION_CRYPTO'' (mh_keypair_ticks_last h) (node_crypto ! 1)
            (mh_decaps_ticks_last h) (node_crypto ! 3)
            (CSV_VALUE0_SECONDS OR CSV_VALUE1_SECONDS OR CSV_VALUE2_SECONDS OR CSV_VALUE3_SECONDS),
          csv_event cs (clk 4) (s_node_id s) ''SESSION_FRAG'' (mf_nack_tx f) (mf_nack_rx f) (node_frag ! 2) (node_frag ! 3),
          csv_event cs (clk 5) (s_node_id s) ''SESSION_TEMP'' (mt_temp_rx_ok t) (mt_temp_rx_fail t)
            (node_temp ! 0) (node_temp ! 1)])"

definition csv_session_summary_if_ready ::
  "u32 \<Rightarrow> (nat \<Rightarrow> clock_time_t) \<Rightarrow> session_t \<Rightarrow> string list \<times> session_t" where
  "csv_session_summary_if_ready cs clk s =
     (if s_session_summary_emitted s \<or> \<not> session_is_established s then ([], s)
      else if s_node_metrics_mask s AND csv_summary_required \<noteq> csv_summary_required then ([], s)
      else (csv_session_summary cs clk s, s\<lparr>s_session_summary_emitted := True\<rparr>))"

section \<open>The impact window\<close>

record impact_snapshot_t =
  is_active :: bool
  is_node_id :: u16
  is_temp_rx_ok :: u32
  is_temp_rx_fail :: u32
  is_temp_counter_resync :: u32
  is_rx_counter :: u32

record impact_window_t =
  iw_active :: bool
  iw_target_node_id :: u16
  iw_snapshot_count :: u8
  iw_started_at :: u32
  iw_snapshots :: "impact_snapshot_t list"

definition impact_zero :: impact_window_t where
  "impact_zero = \<lparr>iw_active = False, iw_target_node_id = 0, iw_snapshot_count = 0, iw_started_at = 0,
     iw_snapshots = replicate SESSION_MAX_NODES \<lparr>is_active = False, is_node_id = 0, is_temp_rx_ok = 0,
       is_temp_rx_fail = 0, is_temp_counter_resync = 0, is_rx_counter = 0\<rparr>\<rparr>"

fun impact_collect :: "u16 \<Rightarrow> session_manager \<Rightarrow> nat list \<Rightarrow> impact_window_t \<Rightarrow> impact_window_t" where
  "impact_collect target sm [] w = w"
| "impact_collect target sm (i # is) w =
     (case session_manager_get_by_index (of_nat i) sm of
        None \<Rightarrow> impact_collect target sm is w
      | Some r \<Rightarrow>
          let s = session_deref sm r in
          if \<not> session_is_established s \<or> s_node_id s = target \<or> SESSION_MAX_NODES \<le> unat (iw_snapshot_count w)
          then impact_collect target sm is w
          else
            let snapshot = \<lparr>is_active = True, is_node_id = s_node_id s,
                  is_temp_rx_ok = mt_temp_rx_ok (ms_temp (s_metrics s)),
                  is_temp_rx_fail = mt_temp_rx_fail (ms_temp (s_metrics s)),
                  is_temp_counter_resync = mt_temp_counter_resync (ms_temp (s_metrics s)),
                  is_rx_counter = s_rx_counter s\<rparr>;
                w = w\<lparr>iw_snapshots := (iw_snapshots w)[unat (iw_snapshot_count w) := snapshot],
                      iw_snapshot_count := iw_snapshot_count w + 1\<rparr>
            in impact_collect target sm is w)"

definition impact_start ::
  "u32 \<Rightarrow> (nat \<Rightarrow> clock_time_t) \<Rightarrow> u16 \<Rightarrow> session_manager \<Rightarrow> impact_window_t \<Rightarrow> string list \<times> impact_window_t" where
  "impact_start cs clk target sm w =
     (if iw_active w
      then ([csv_event cs (clk 0) (iw_target_node_id w) ''IMPACT_OVERLAP'' (ucast target) (ucast (iw_snapshot_count w)) 0 0], w)
      else
        let w = impact_zero\<lparr>iw_active := True, iw_target_node_id := target, iw_started_at := clk 0\<rparr>;
            w = impact_collect target sm [0..<SESSION_MAX_NODES] w
        in ([csv_event cs (clk 1) target ''IMPACT_START'' (ucast (iw_snapshot_count w)) 0 0 0], w))"

text \<open>The lines that one snapshot contributes when the window closes.\<close>

definition impact_report ::
  "u32 \<Rightarrow> clock_time_t \<Rightarrow> clock_time_t \<Rightarrow> u16 \<Rightarrow> session_manager \<Rightarrow> impact_snapshot_t \<Rightarrow> string list" where
  "impact_report cs now1 now2 target sm snapshot =
     (if \<not> is_active snapshot then []
      else
        case session_manager_find (is_node_id snapshot) sm of
          None \<Rightarrow> [csv_event cs now1 (is_node_id snapshot) ''IMPACT_NODE_LOST'' (ucast target) 0 0 0]
        | Some r \<Rightarrow>
            let s = session_deref sm r; t = ms_temp (s_metrics s);
                temp_ok_delta = mt_temp_rx_ok t - is_temp_rx_ok snapshot;
                temp_fail_delta = mt_temp_rx_fail t - is_temp_rx_fail snapshot;
                resync_delta = mt_temp_counter_resync t - is_temp_counter_resync snapshot;
                rx_counter_delta = s_rx_counter s - is_rx_counter snapshot;
                counter_gap = (if temp_ok_delta < rx_counter_delta then rx_counter_delta - temp_ok_delta else 0)
            in [csv_event cs now1 (is_node_id snapshot) ''IMPACT_TEMP'' (ucast target) temp_ok_delta temp_fail_delta counter_gap,
                csv_event cs now2 (is_node_id snapshot) ''IMPACT_RESYNC'' (ucast target) resync_delta rx_counter_delta
                  (if session_is_established s then 1 else 0)])"

definition impact_end ::
  "u32 \<Rightarrow> (nat \<Rightarrow> clock_time_t) \<Rightarrow> u16 \<Rightarrow> bool \<Rightarrow> session_manager \<Rightarrow> impact_window_t \<Rightarrow> string list \<times> impact_window_t" where
  "impact_end cs clk target success sm w =
     (if \<not> iw_active w \<or> iw_target_node_id w \<noteq> target then ([], w)
      else
        let duration = clk 0 - iw_started_at w;
            n = unat (iw_snapshot_count w);
            reports = concat (map (\<lambda>i. impact_report cs (clk (1 + 2 * i)) (clk (2 + 2 * i)) target sm (iw_snapshots w ! i)) [0..<n])
        in (reports @ [csv_event_units cs (clk (1 + 2 * n)) target ''IMPACT_END'' duration (ucast (iw_snapshot_count w))
                         (if success then 1 else 0) 0 CSV_VALUE0_SECONDS], impact_zero))"

section \<open>The state of the program\<close>

record 'g root_state =
  rs_sm :: session_manager
  rs_env :: "'g hs_env"
  rs_impact :: impact_window_t
  rs_log :: "string list"

definition root_log :: "string list \<Rightarrow> 'g root_state \<Rightarrow> 'g root_state" where
  "root_log lines st = st\<lparr>rs_log := rs_log st @ lines\<rparr>"

definition root_set_session :: "session_ref \<Rightarrow> session_t \<Rightarrow> 'g root_state \<Rightarrow> 'g root_state" where
  "root_set_session r s st = st\<lparr>rs_sm := session_assign r s (rs_sm st)\<rparr>"

definition root_set_tx :: "tx_state \<Rightarrow> 'g root_state \<Rightarrow> 'g root_state" where
  "root_set_tx tx st = st\<lparr>rs_env := (rs_env st)\<lparr>he_tx := tx\<rparr>\<rparr>"

definition root_impact_start :: "u32 \<Rightarrow> (nat \<Rightarrow> clock_time_t) \<Rightarrow> u16 \<Rightarrow> 'g root_state \<Rightarrow> 'g root_state" where
  "root_impact_start cs clk target st =
     (let (lines, w) = impact_start cs clk target (rs_sm st) (rs_impact st) in root_log lines (st\<lparr>rs_impact := w\<rparr>))"

definition root_impact_end :: "u32 \<Rightarrow> (nat \<Rightarrow> clock_time_t) \<Rightarrow> u16 \<Rightarrow> bool \<Rightarrow> 'g root_state \<Rightarrow> 'g root_state" where
  "root_impact_end cs clk target success st =
     (let (lines, w) = impact_end cs clk target success (rs_sm st) (rs_impact st) in root_log lines (st\<lparr>rs_impact := w\<rparr>))"

definition PQC_process_init ::
  "'g kem_api \<Rightarrow> u32 \<Rightarrow> (nat \<Rightarrow> clock_time_t) \<Rightarrow> u16 \<Rightarrow> 'g root_state \<Rightarrow> 'g root_state" where
  "PQC_process_init kem cs clk udp_server_port st =
     (let st = root_log [csv_header, csv_event cs (clk 0) SESSION_INVALID_NODE_ID ''ROOT_START'' 0 0 0 0,
                 csv_event cs (clk 1) SESSION_INVALID_NODE_ID ''UDP_LISTEN'' (ucast udp_server_port) 0 0 0] st;
          st = root_set_tx (pqc_tx_init (he_tx (rs_env st))) st;
          st = st\<lparr>rs_sm := session_manager_init (clk 2) SESSION_ROLE_ROOT\<rparr>;
          (ok, env) = hs_fsm_root_init_keypair kem (rs_env st);
          st = st\<lparr>rs_env := env\<rparr>
      in root_log [csv_event cs (clk 3) SESSION_INVALID_NODE_ID
                     (if \<not> ok then ''ROOT_KEYPAIR_FAIL'' else ''ROOT_KEYPAIR_READY'') 0 0 0 0] st)"

definition PQC_send_step :: "'g root_state \<Rightarrow> 'g root_state" where
  "PQC_send_step st = root_set_tx (snd (pqc_tx_process (he_tx (rs_env st)))) st"

section \<open>Receiving\<close>

text \<open>Starting or restarting a handshake: the window opens, the public key is queued.\<close>

definition root_start_handshake ::
  "'g kem_api \<Rightarrow> u32 \<Rightarrow> (nat \<Rightarrow> clock_time_t) \<Rightarrow> pqc_udp_send_ctx_t \<Rightarrow> session_ref \<Rightarrow> u16 \<Rightarrow> 'g root_state \<Rightarrow> 'g root_state" where
  "root_start_handshake kem cs clk send_ctx r node_id st =
     (let st = root_impact_start cs clk node_id st;
          (ok, s, env) = hs_fsm_start kem cs (\<lambda>k. clk (2 + k)) (pqc_udp_send_fragment send_ctx)
                           (session_deref (rs_sm st) r) (rs_env st);
          st = root_set_session r s (st\<lparr>rs_env := env\<rparr>)
      in if \<not> ok then root_impact_end cs (\<lambda>k. clk (20 + k)) node_id False st else st)"

definition root_drop_and_reset ::
  "clock_time_t \<Rightarrow> clock_time_t \<Rightarrow> clock_time_t \<Rightarrow> uip_ipaddr_t \<Rightarrow> session_ref \<Rightarrow> u16 \<Rightarrow> 'g root_state \<Rightarrow> 'g root_state" where
  "root_drop_and_reset now1 now2 now3 sender r node_id st =
     (let (dropped, tx) = pqc_tx_drop_node node_id (he_tx (rs_env st));
          st = root_set_tx tx st;
          s = session_reset now1 now2 (session_deref (rs_sm st) r);
          s = session_set_peer_addr now3 sender s
      in root_set_session r s st)"

definition root_rx_getpk ::
  "'g kem_api \<Rightarrow> u32 \<Rightarrow> (nat \<Rightarrow> clock_time_t) \<Rightarrow> pqc_udp_send_ctx_t \<Rightarrow> uip_ipaddr_t \<Rightarrow> session_ref \<Rightarrow> u16 \<Rightarrow> u8 \<Rightarrow>
     'g root_state \<Rightarrow> 'g root_state" where
  "root_rx_getpk kem cs clk send_ctx sender r node_id msg_id st =
     (let s = upd_hs (\<lambda>m. m\<lparr>mh_getpk_rx := mh_getpk_rx m + 1\<rparr>) (session_deref (rs_sm st) r);
          st = root_set_session r s st;
          st = (if session_is_failed s
                then root_drop_and_reset (clk 1) (clk 2) (clk 3) sender r node_id
                       (root_log [csv_event cs (clk 0) node_id ''GETPK_AFTER_FAIL'' (ucast (s_retry_count s)) 0 0 0] st)
                else st);
          s = session_deref (rs_sm st) r
      in if s_state s = SESSION_STATE_IDLE
         then root_start_handshake kem cs (\<lambda>k. clk (5 + k)) send_ctx r node_id
                (root_log [csv_event cs (clk 4) node_id ''GETPK_ACCEPT'' (ucast msg_id) 0 0 0] st)
         else if s_state s = SESSION_STATE_WAIT_CT \<or> session_is_established s
         then root_start_handshake kem cs (\<lambda>k. clk (8 + k)) send_ctx r node_id
                (root_drop_and_reset (clk 5) (clk 6) (clk 7) sender r node_id
                   (root_log [csv_event cs (clk 4) node_id ''GETPK_RESTART''
                      (of_nat (session_state_code (s_state s))) (ucast msg_id) 0 0] st))
         else root_log [csv_event cs (clk 4) node_id ''GETPK_IGNORE''
                (of_nat (session_state_code (s_state s))) (ucast msg_id) 0 0] st)"

text \<open>The first fragment of a ciphertext stops the retransmission of the public key.\<close>

definition root_rx_ct_start ::
  "u32 \<Rightarrow> (nat \<Rightarrow> clock_time_t) \<Rightarrow> session_ref \<Rightarrow> u16 \<Rightarrow> u8 \<Rightarrow> 'g root_state \<Rightarrow> 'g root_state" where
  "root_rx_ct_start cs clk r node_id msg_id st =
     (let s = session_deref (rs_sm st) r;
          (dropped, tx) = pqc_tx_drop node_id PQC_MSG_PK (s_pending_msg_id s) (he_tx (rs_env st));
          st = root_set_tx tx st;
          st = root_log [csv_event cs (clk 0) node_id ''CT_RX_START'' (ucast msg_id) (ucast dropped) 0 0] st;
          s = upd_hs (\<lambda>m. m\<lparr>mh_ct_rx_started_at := clk 1\<rparr>) s;
          s = upd_hs (\<lambda>m. m\<lparr>mh_ct_rx_completed_at := 0\<rparr>) s;
          s = session_set_pending cs (clk 2) (clk 3) PQC_MSG_CT msg_id s
      in root_set_session r s st)"

definition root_rx_temp ::
  "u32 \<Rightarrow> (nat \<Rightarrow> clock_time_t) \<Rightarrow> session_ref \<Rightarrow> u16 \<Rightarrow> u8 \<Rightarrow> u8 list \<Rightarrow> u16 \<Rightarrow> 'g root_state \<Rightarrow> 'g root_state" where
  "root_rx_temp cs clk r node_id msg_id data datalen st =
     (case pqc_handle_encrypted_temp (clk 0) data datalen (session_deref (rs_sm st) r) of
        (Some measurement, s) \<Rightarrow> root_log [csv_temp cs (clk 1) node_id measurement] (root_set_session r s st)
      | (None, s) \<Rightarrow>
          root_log [csv_event cs (clk 1) node_id ''TEMP_DECRYPT_FAIL'' (ucast msg_id) (ucast datalen) 0 0]
            (root_set_session r s st))"

definition root_rx_metrics ::
  "u32 \<Rightarrow> (nat \<Rightarrow> clock_time_t) \<Rightarrow> session_ref \<Rightarrow> u16 \<Rightarrow> u8 \<Rightarrow> u8 list \<Rightarrow> u16 \<Rightarrow> 'g root_state \<Rightarrow> 'g root_state" where
  "root_rx_metrics cs clk r node_id msg_id data datalen st =
     (case (if unat datalen = PQC_HEADER_LEN + PQC_METRICS_REPORT_LEN \<and> data ! PQC_HDR_FRAG_IDX = 0 \<and>
               data ! PQC_HDR_TOTAL_FRAGS = 1 \<and> unat (data ! PQC_HDR_PAYLOAD_LEN) = PQC_METRICS_REPORT_LEN
            then pqc_metrics_decode_report (drop PQC_HEADER_LEN data) (data ! PQC_HDR_PAYLOAD_LEN) else None) of
        Some report \<Rightarrow>
          let st = root_log (csv_node_metrics cs clk node_id report) st;
              s = session_store_node_metrics report (session_deref (rs_sm st) r);
              (lines, s) = csv_session_summary_if_ready cs (\<lambda>k. clk (2 + k)) s
          in root_log lines (root_set_session r s st)
      | None \<Rightarrow> root_log [csv_event cs (clk 0) node_id ''NODE_METRICS_INVALID'' (ucast datalen) (ucast msg_id) 0 0] st)"

definition root_rx_handshake ::
  "'g kem_api \<Rightarrow> u32 \<Rightarrow> (nat \<Rightarrow> clock_time_t) \<Rightarrow> pqc_udp_send_ctx_t \<Rightarrow> session_ref \<Rightarrow> bool \<Rightarrow> u8 list \<Rightarrow> u16 \<Rightarrow>
     'g root_state \<Rightarrow> 'g root_state" where
  "root_rx_handshake kem cs clk send_ctx r was_established data datalen st =
     (let (ok, s, env) = hs_fsm_handle_fragment kem cs clk (pqc_udp_send_fragment send_ctx) r data datalen
                           (session_deref (rs_sm st) r) (rs_env st);
          st = root_set_session r s (st\<lparr>rs_env := env\<rparr>)
      in if \<not> was_established \<and> session_is_established s
         then
           let st = root_log (csv_hs_summary cs (\<lambda>k. clk (40 + k)) s ''HS_SUCCESS'') st;
               st = root_impact_end cs (\<lambda>k. clk (50 + k)) (s_node_id s) True st;
               (lines, s) = csv_session_summary_if_ready cs (\<lambda>k. clk (90 + k)) (session_deref (rs_sm st) r)
           in root_log lines (root_set_session r s st)
         else st)"

text \<open>What the callback does with a packet whose session is \<open>r\<close>, by message type.\<close>

definition root_rx_dispatch ::
  "'g kem_api \<Rightarrow> u32 \<Rightarrow> (nat \<Rightarrow> clock_time_t) \<Rightarrow> udp_conn \<Rightarrow> uip_ipaddr_t \<Rightarrow> u8 list \<Rightarrow> u16 \<Rightarrow> session_ref \<Rightarrow>
     'g root_state \<Rightarrow> 'g root_state" where
  "root_rx_dispatch kem cs clk conn sender data datalen r st =
     (let msg_type = data ! PQC_HDR_MSG_TYPE;
          msg_id = data ! PQC_HDR_MSG_ID;
          node_id = pqc_header_get_node_id data;
          s = session_deref (rs_sm st) r;
          was_established = session_is_established s;
          send_ctx = \<lparr>uc_udp_conn = Some conn, uc_dest = Some sender\<rparr>
      in if msg_type = PQC_MSG_GETPK
         then root_rx_getpk kem cs clk send_ctx sender r node_id msg_id st
         else
           let st = (if msg_type = PQC_MSG_CT \<and> s_state s = SESSION_STATE_WAIT_CT \<and>
                        s_pending_msg_type s = PQC_MSG_PK
                     then root_rx_ct_start cs clk r node_id msg_id st else st)
           in if msg_type = PQC_MSG_TEMP
              then root_rx_temp cs (\<lambda>k. clk (4 + k)) r node_id msg_id data datalen st
              else if msg_type = PQC_MSG_METRICS
              then root_rx_metrics cs (\<lambda>k. clk (4 + k)) r node_id msg_id data datalen st
              else root_rx_handshake kem cs (\<lambda>k. clk (4 + k)) send_ctx r was_established data datalen st)"

definition udp_rx_callback_root ::
  "'g kem_api \<Rightarrow> u32 \<Rightarrow> (nat \<Rightarrow> clock_time_t) \<Rightarrow> udp_conn \<Rightarrow> uip_ipaddr_t \<Rightarrow> u8 list \<Rightarrow> u16 \<Rightarrow>
     'g root_state \<Rightarrow> 'g root_state" where
  "udp_rx_callback_root kem cs clk conn sender data datalen st =
     (if \<not> pqc_header_valid data datalen
      then root_log [csv_event cs (clk 0) SESSION_INVALID_NODE_ID ''RX_INVALID'' (ucast datalen) 0 0 0] st
      else
        let (found, sm) = session_manager_get_or_create (clk 0) (pqc_header_get_node_id data) (rs_sm st);
            st = st\<lparr>rs_sm := sm\<rparr>
        in case found of
             None \<Rightarrow> root_log [csv_event cs (clk 1) (pqc_header_get_node_id data) ''NO_SESSION_SLOT'' 0 0 0 0] st
           | Some r \<Rightarrow>
               let s = session_set_peer_addr (clk 1) sender (session_deref (rs_sm st) r)
               in root_rx_dispatch kem cs (\<lambda>k. clk (2 + k)) conn sender data datalen r (root_set_session r s st))"

section \<open>Retrying\<close>

definition root_retry_session ::
  "u32 \<Rightarrow> (nat \<Rightarrow> clock_time_t) \<Rightarrow> udp_conn \<Rightarrow> nat \<Rightarrow> 'g root_state \<Rightarrow> 'g root_state" where
  "root_retry_session cs clk conn i st =
     (case session_manager_get_by_index (of_nat i) (rs_sm st) of
        None \<Rightarrow> st
      | Some r \<Rightarrow>
          let s = session_deref (rs_sm st) r in
          if session_is_established s \<or> \<not> s_has_peer_addr s then st
          else
            let send_ctx = \<lparr>uc_udp_conn = Some conn, uc_dest = Some (s_peer_addr s)\<rparr>;
                (ok, s, env) = hs_fsm_retry cs clk (pqc_udp_send_fragment send_ctx) r s (rs_env st);
                st = root_set_session r s (st\<lparr>rs_env := env\<rparr>)
            in if session_is_failed s
               then
                 let st = root_log (csv_hs_summary cs (\<lambda>k. clk (20 + k)) s ''HS_FAIL'') st;
                     st = root_impact_end cs (\<lambda>k. clk (30 + k)) (s_node_id s) False st;
                     st = root_log [csv_event cs (clk 60) (s_node_id s) ''HS_FAIL_RESET''
                            (of_nat (session_state_code (s_state s))) (ucast (s_retry_count s)) 0 0] st;
                     (dropped, tx) = pqc_tx_drop_node (s_node_id s) (he_tx (rs_env st));
                     st = root_set_tx tx st
                 in root_set_session r (session_reset (clk 61) (clk 62) s) st
               else st)"

text \<open>One expiry of the retry timer: all ten sessions in order; \<open>clks i\<close> are the readings for slot \<open>i\<close>.\<close>

definition PQC_retry_step_root ::
  "u32 \<Rightarrow> (nat \<Rightarrow> nat \<Rightarrow> clock_time_t) \<Rightarrow> udp_conn \<Rightarrow> 'g root_state \<Rightarrow> 'g root_state" where
  "PQC_retry_step_root cs clks conn st =
     fold (\<lambda>i. root_retry_session cs (clks i) conn i) [0..<SESSION_MAX_NODES] st"

end
