(* ===== verification/Handshake_Safety.thy ===== *)
theory Handshake_Safety
  imports Handshake_Inv
begin

text \<open>
  Which packets can establish a session, and what a retry may do: the safety side of
  \<open>src/src/PQC/handshake_fsm.c\<close>.
\<close>

section \<open>Handlers that leave the core of a session alone\<close>

lemma send_ack_core: "send_ack send c s tx = (ok, s', tx') \<Longrightarrow> same_core s s'"
  by (auto simp: send_ack_def Let_def session_next_msg_id_def same_core_def split: if_splits prod.splits)

lemma send_nack_core: "send_nack send rx s tx = (c, s', tx') \<Longrightarrow> same_core s s'"
  by (auto simp: send_nack_def Let_def session_next_msg_id_def same_core_def split: if_splits prod.splits)

lemma retransmit_core:
  "retransmit_nack_fragments cs clk send nack s env = (ok, s', env') \<Longrightarrow> same_core s s'"
  by (auto simp: retransmit_nack_fragments_def Let_def session_touch_def same_core_def split: if_splits prod.splits option.splits)

lemma same_core_established: "same_core s s' \<Longrightarrow> session_is_established s' = session_is_established s"
  by (simp add: session_is_established_def same_core_fields)

text \<open>The context that holds the message a fragment belongs to, once the fragment is stored.\<close>

definition hs_rx_after ::
  "u32 \<Rightarrow> (nat \<Rightarrow> clock_time_t) \<Rightarrow> session_ref \<Rightarrow> u8 list \<Rightarrow> frag_hdr \<Rightarrow> hs_rx_slot_t list \<Rightarrow> fragment_rx_ctx_t option" where
  "hs_rx_after cs clk self data h slots =
     (case rx_slot_get cs (clk 0) (clk 1) self slots of
        (None, _) \<Rightarrow> None
      | (Some i, slots) \<Rightarrow>
          Some (snd (fragment_rx_add (sl_ctx (slots ! i)) (fh_msg_type h) (fh_node_id h) (fh_msg_id h)
                       (fh_frag_idx h) (fh_total_frags h) (drop FRAG_HEADER_LEN data) (ucast (fh_frag_len h)))))"

text \<open>Storing a fragment changes the core of a session only through a completed message.\<close>

lemma hs_store_fragment_cases:
  assumes "hs_store_fragment kem cs clk send self data h s env = (ok, s', env')"
  shows "same_core s s' \<or> (\<exists>rx s1 slots. hs_rx_after cs clk self data h (he_rx_slots env) = Some rx \<and> fragment_rx_complete rx \<and>
     same_core s s1 \<and>
     hs_complete_message kem cs (\<lambda>k. clk (6 + k)) send self rx h s1 (env\<lparr>he_rx_slots := slots\<rparr>) = (ok, s', env'))"
proof -
  obtain r slots where g: "rx_slot_get cs (clk 0) (clk 1) self (he_rx_slots env) = (r, slots)" by fastforce
  show ?thesis
  proof (cases r)
    case None
    then show ?thesis using assms g by (simp add: hs_store_fragment_def)
  next
    case (Some i)
    obtain b rx where a: "fragment_rx_add (sl_ctx (slots ! i)) (fh_msg_type h) (fh_node_id h) (fh_msg_id h)
        (fh_frag_idx h) (fh_total_frags h) (drop 10 data) (ucast (fh_frag_len h)) = (b, rx)" by fastforce
    have rx: "hs_rx_after cs clk self data h (he_rx_slots env) = Some rx"
      unfolding hs_rx_after_def g Some using a by simp
    let ?s1 = "session_touch (clk 2) (upd_frag (\<lambda>m. m\<lparr>mf_fragments_rx := mf_fragments_rx m + 1\<rparr>) s)"
    have c1: "same_core s ?s1" by (simp add: same_core_def session_touch_def)
    have N: "same_core s s3" if "send_nack send rx ?s1 (he_tx env) = (c, s2, tx)"
        "rx_slot_note_nack cs x y self i c s2 sl = (s3, sl')" for c s2 tx x y sl s3 sl'
      using same_core_trans [OF c1 same_core_trans [OF send_nack_core [OF that(1)]]] rx_slot_note_nack_core [of s2] that(2)
      by (metis fst_conv)
    show ?thesis
      using assms c1 rx N unfolding hs_store_fragment_def g Some
      by (auto simp: a Let_def split: if_splits prod.splits)
  qed
qed

section \<open>What establishes a session\<close>

lemma hs_gate_session_fields:
  assumes "hs_gate_session h s = Some s0"
  shows "s_role s0 = s_role s" "s_state s0 = s_state s" "s_established s0 = s_established s" "s_ss s0 = s_ss s"
    "s_aes_key s0 = s_aes_key s" "s_pending_msg_type s0 = s_pending_msg_type s" "s_pending_msg_id s0 = s_pending_msg_id s"
    "s_node_id s0 = fh_node_id h"
  using assms by (cases "s_role s"; auto simp: hs_gate_session_def session_is_root_def session_is_node_def split: if_splits)+

lemma hs_establishing_message:
  assumes h: "hs_fsm_handle_fragment kem cs clk send self data len s env = (ok, s', env')"
    and "\<not> session_is_established s" "session_is_established s'"
  obtains hd s0 rx s1 slots where "parse_fragment_header data len = Some hd" "hs_gate_session hd s = Some s0"
    "hs_gate_message hd s0 = Gate_Pass" "fh_msg_type hd \<noteq> PQC_MSG_NACK"
    "hs_rx_after cs (\<lambda>k. clk (1 + k)) self data hd (rx_slots_gc cs (clk 0) (he_rx_slots env)) = Some rx"
    "fragment_rx_complete rx" "same_core s0 s1"
    "hs_complete_message kem cs (\<lambda>k. clk (1 + (6 + k))) send self rx hd s1 (env\<lparr>he_rx_slots := slots\<rparr>) = (ok, s', env')"
proof -
  define env1 where "env1 = env\<lparr>he_rx_slots := rx_slots_gc cs (clk 0) (he_rx_slots env)\<rparr>"
  obtain hd where hd: "parse_fragment_header data len = Some hd"
    using h assms(2,3) by (cases "parse_fragment_header data len") (auto simp: hs_fsm_handle_fragment_def Let_def)
  obtain s0 where s0: "hs_gate_session hd s = Some s0"
    using h assms(2,3) hd by (cases "hs_gate_session hd s") (auto simp: hs_fsm_handle_fragment_def Let_def)
  have ne: "\<not> session_is_established s0"
    using assms(2) hs_gate_session_fields [OF s0] by (simp add: session_is_established_def)
  have D: "\<not> same_core s0 s'" using ne assms(3) same_core_established by blast
  have gate: "hs_gate_message hd s0 = Gate_Pass"
  proof (cases "hs_gate_message hd s0")
    case Gate_Drop
    with h hd s0 D show ?thesis by (simp add: hs_fsm_handle_fragment_def Let_def)
  next
    case Gate_Duplicate_CT
    with ne show ?thesis by (simp add: hs_gate_message_def split: if_splits)
  qed
  have nn: "fh_msg_type hd \<noteq> PQC_MSG_NACK"
    using h hd s0 gate D retransmit_core
    by (auto simp: hs_fsm_handle_fragment_def Let_def split: if_splits prod.splits bool.splits) blast+
  have "hs_store_fragment kem cs (\<lambda>k. clk (1 + k)) send self data hd s0 env1 = (ok, s', env')"
    using h hd s0 gate nn by (simp add: hs_fsm_handle_fragment_def Let_def env1_def)
  from hs_store_fragment_cases [OF this] D obtain rx s1 slots where
    "hs_rx_after cs (\<lambda>k. clk (1 + k)) self data hd (he_rx_slots env1) = Some rx" "fragment_rx_complete rx" "same_core s0 s1"
    "hs_complete_message kem cs (\<lambda>k. clk (1 + (6 + k))) send self rx hd s1 (env1\<lparr>he_rx_slots := slots\<rparr>) = (ok, s', env')"
    by blast
  then show thesis using that hd s0 gate nn by (simp add: env1_def)
qed

lemma hs_complete_message_establishes:
  assumes "hs_complete_message kem cs clk send self rx h s env = (ok, s', env')"
    and "\<not> session_is_established s" "session_is_established s'"
  shows "(session_is_node s \<and> fh_msg_type h = PQC_MSG_ACK \<and> unat (fragment_rx_len rx) = 1 \<and>
           rx_buffer rx ! 0 = s_pending_msg_id s \<and> s_ss s' = s_ss s \<and> s_aes_key s' = s_aes_key s) \<or>
         (session_is_root s \<and> fh_msg_type h = PQC_MSG_CT \<and> s_state s = SESSION_STATE_WAIT_CT \<and> he_root_has_keypair env \<and>
           unat (fragment_rx_len rx) = 4481 \<and>
           crypto_kem_dec kem (memcpy_at (he_root_ct env) 0 (take 4481 (rx_buffer rx))) (he_root_sk env) = (0, s_ss s') \<and>
           s_aes_key s' = crypto_worker_derive_aes_key (s_ss s'))"
proof -
  have A: "s_ss s' = s_ss s0 \<and> s_aes_key s' = s_aes_key s0" if "send_ack send m s0 tx = (b, s', tx')" for m s0 tx b tx'
    using send_ack_core [OF that] by (simp add: same_core_fields)
  have PK: "\<not> session_is_established s'" if "hs_node_complete_pk kem cs clk send self rx s env = (ok, s', env')"
    using that by (auto simp: hs_node_complete_pk_def hs_node_send_ct_def Let_def session_ops hs_set_pending_for_transfer_def
        split: if_splits prod.splits)
  consider "session_is_node s" "fh_msg_type h = PQC_MSG_PK" | "session_is_node s" "fh_msg_type h = PQC_MSG_ACK" "fh_msg_type h \<noteq> PQC_MSG_PK"
    | "session_is_root s" "\<not> session_is_node s" "fh_msg_type h = PQC_MSG_CT" | "s' = s"
    using assms(1) by (auto simp: hs_complete_message_def session_is_node_def session_is_root_def split: if_splits)
  then show ?thesis
  proof cases
    case 1
    then show ?thesis using assms PK by (simp add: hs_complete_message_def)
  next
    case 2
    then have "hs_node_complete_ack clk self rx s env = (ok, s', env')" using assms(1) by (simp add: hs_complete_message_def)
    then show ?thesis
      using 2 assms(2,3) by (auto simp: hs_node_complete_ack_def Let_def session_ops split: if_splits)
  next
    case 3
    then have "hs_root_complete_ct kem clk send self rx (fh_msg_id h) s env = (ok, s', env')"
      using assms(1) by (simp add: hs_complete_message_def)
    then show ?thesis
      using 3 assms(2,3) A
      by (auto simp: hs_root_complete_ct_def hs_root_accept_ct_def Let_def session_ops hs_fsm_root_has_keypair_def
          crypto_worker_decapsulate_def hs_release_def split: if_splits prod.splits)
  next
    case 4
    then show ?thesis using assms(2,3) by simp
  qed
qed

end
