(* ===== verification/Server_Inv.thy ===== *)
theory Server_Inv
  imports Server_Main Handshake_Safety
begin

text \<open>
  The root program keeps its invariant (session table, sessions, queue and reassembly slots well
  formed), a packet touches no session but its sender's, and the states the program reaches are those
  of a step relation over its events.
\<close>

section \<open>Identity of a session\<close>

text \<open>The slot, the node and the role of a session never change while it is in use.\<close>

definition same_id :: "session_t \<Rightarrow> session_t \<Rightarrow> bool" where
  "same_id s s' \<longleftrightarrow> s_used s' = s_used s \<and> s_node_id s' = s_node_id s \<and> s_role s' = s_role s"

lemma same_id_refl [simp]: "same_id s s"
  by (simp add: same_id_def)

lemma same_id_core: "same_core s s' \<Longrightarrow> same_id s s'"
  by (simp add: same_id_def same_core_fields)

lemma same_id_trans [trans]: "same_id a b \<Longrightarrow> same_id b c \<Longrightarrow> same_id a c"
  by (simp add: same_id_def)

lemma same_id_failed [simp]: "same_id s (session_set_failed now s')= same_id s s'"
  by (simp add: same_id_def session_ops Let_def)

lemma hs_start_same_id:
  "hs_fsm_start kem cs clk send s env = (ok, s', env') \<Longrightarrow> same_id s s'"
  by (auto simp: hs_fsm_start_def hs_start_send_pk_def Let_def same_id_def session_ops hs_set_pending_for_transfer_def
      split: if_splits prod.splits)

lemma hs_complete_same_id:
  assumes "hs_complete_message kem cs clk send self rx h s env = (ok, s', env')"
  shows "same_id s s'"
proof -
  have A: "s_used s1 = s_used s0 \<and> s_node_id s1 = s_node_id s0 \<and> s_role s1 = s_role s0"
    if "send_ack send m s0 tx = (b, s1, tx')" for m s0 tx b s1 tx'
    using same_id_core [OF send_ack_core [OF that]] by (simp add: same_id_def)
  have "same_id s s'" if "hs_node_complete_pk kem cs clk send self rx s env = (ok, s', env')"
    using that by (auto simp: hs_node_complete_pk_def hs_node_send_ct_def Let_def same_id_def session_ops
        hs_set_pending_for_transfer_def split: if_splits prod.splits)
  moreover have "same_id s s'" if "hs_node_complete_ack clk self rx s env = (ok, s', env')"
    using that by (auto simp: hs_node_complete_ack_def Let_def same_id_def session_ops split: if_splits)
  moreover have "same_id s s'" if "hs_root_complete_ct kem clk send self rx (fh_msg_id h) s env = (ok, s', env')"
    using that by (auto simp: hs_root_complete_ct_def hs_root_accept_ct_def Let_def same_id_def session_ops
        split: if_splits prod.splits dest!: A)
  ultimately show ?thesis using assms by (auto simp: hs_complete_message_def split: if_splits)
qed

lemma hs_handle_same_id:
  assumes "hs_fsm_handle_fragment kem cs clk send self data len s env = (ok, s', env')" and "session_is_root s"
  shows "same_id s s'"
proof -
  have g: "hs_gate_session h s = Some s0 \<Longrightarrow> s0 = s" for h s0
    using assms(2) by (auto simp: hs_gate_session_def session_is_root_def session_is_node_def split: if_splits)
  have st: "same_id s s'" if "hs_store_fragment kem cs c send self data h s e = (ok, s', env')" for c h e
    using hs_store_fragment_cases [OF that] same_id_core hs_complete_same_id same_id_trans by blast
  show ?thesis
    using assms(1) st send_ack_core [THEN same_id_core] retransmit_core [THEN same_id_core]
    by (auto simp: hs_fsm_handle_fragment_def Let_def split: option.splits hs_gate.splits if_splits prod.splits bool.splits
        dest!: g)
qed

lemma hs_mark_same_id [simp]:
  "same_id s (hs_mark_retry_for_transfer cs clk len s') = same_id s s'" "same_id s (hs_mark_rx_retry cs clk s') = same_id s s'"
  by (simp_all add: same_id_def hs_mark_retry_for_transfer_def hs_mark_rx_retry_def Let_def session_touch_def)

lemma same_id_deadline [simp]: "same_id s (s'\<lparr>s_retry_deadline := d\<rparr>) = same_id s s'"
  by (simp add: same_id_def)

lemma hs_retry_same_id:
  assumes "hs_fsm_retry cs clk send self s env = (ok, s', env')"
  shows "same_id s s'"
proof -
  have R: "same_id s s'" if "hs_retry_resend cs c send s e = (ok, s', env')" for c e
    using that by (auto simp: hs_retry_resend_def Let_def split: if_splits prod.splits)
  have N: "same_id s s2" if "send_nack send rx s tx = (c, s1, tx1)" "rx_slot_note_nack cs a b self i c s1 sl = (s2, sl2)"
    for rx tx c s1 tx1 a b i sl s2 sl2
    using same_id_core [OF send_nack_core [OF that(1)]] same_id_core [OF rx_slot_note_nack_core [of s1]] that(2) same_id_trans
    by (metis fst_conv)
  have C: "same_id s s'" if "hs_retry_root_ct cs c send self s e = (ok, s', env')" for c e
    using that N same_id_core [OF send_nack_core]
    by (auto simp: hs_retry_root_ct_def Let_def split: if_splits prod.splits option.splits)
  show ?thesis
    using assms R C by (auto simp: hs_fsm_retry_def Let_def split: if_splits)
qed

section \<open>The invariant of the root program\<close>

definition root_inv :: "'g root_state \<Rightarrow> bool" where
  "root_inv st \<longleftrightarrow> manager_inv (rs_sm st) \<and> hs_inv (rs_env st) \<and>
     (\<forall>s\<in>set (sm_sessions (rs_sm st)). session_inv s \<and> (s_used s \<longrightarrow> s_role s = SESSION_ROLE_ROOT))"

text \<open>A reference to a slot in use.\<close>

definition live_ref :: "session_ref \<Rightarrow> 'g root_state \<Rightarrow> bool" where
  "live_ref r st \<longleftrightarrow> (\<exists>i<10. r = Session_Slot i \<and> s_used (sm_sessions (rs_sm st) ! i))"

lemma root_simps [simp]:
  "rs_sm (root_log l st) = rs_sm st" "rs_env (root_log l st) = rs_env st" "root_inv (root_log l st) = root_inv st"
  "live_ref r (root_log l st) = live_ref r st" "root_inv (st\<lparr>rs_impact := w\<rparr>) = root_inv st"
  "live_ref r (st\<lparr>rs_impact := w\<rparr>) = live_ref r st" "live_ref r (st\<lparr>rs_env := e\<rparr>) = live_ref r st"
  "rs_sm (root_set_tx tx st) = rs_sm st" "live_ref r (root_set_tx tx st) = live_ref r st"
  "rs_env (root_set_session r s st) = rs_env st" "rs_env (root_set_tx tx st) = (rs_env st)\<lparr>he_tx := tx\<rparr>"
  by (simp_all add: root_log_def root_inv_def live_ref_def root_set_tx_def root_set_session_def)

lemma root_impact_simps [simp]:
  "rs_sm (root_impact_start cs clk t st) = rs_sm st" "rs_env (root_impact_start cs clk t st) = rs_env st"
  "rs_sm (root_impact_end cs clk t b st) = rs_sm st" "rs_env (root_impact_end cs clk t b st) = rs_env st"
  "root_inv (root_impact_start cs clk t st) = root_inv st" "root_inv (root_impact_end cs clk t b st) = root_inv st"
  "live_ref r (root_impact_start cs clk t st) = live_ref r st" "live_ref r (root_impact_end cs clk t b st) = live_ref r st"
  by (simp_all add: root_impact_start_def root_impact_end_def split: prod.split)

lemma root_inv_tx: "root_inv st \<Longrightarrow> tx_inv tx \<Longrightarrow> root_inv (root_set_tx tx st)"
  by (simp add: root_inv_def root_set_tx_def hs_inv_def)

lemma root_inv_env: "root_inv st \<Longrightarrow> hs_inv env \<Longrightarrow> root_inv (st\<lparr>rs_env := env\<rparr>)"
  by (simp add: root_inv_def)

lemma root_live:
  assumes "root_inv st" "live_ref r st"
  shows "session_inv (session_deref (rs_sm st) r)" "session_is_root (session_deref (rs_sm st) r)" "s_used (session_deref (rs_sm st) r)"
  using assms by (auto simp: root_inv_def live_ref_def manager_inv_def session_is_root_def)

lemma root_deref_set [simp]:
  "root_inv st \<Longrightarrow> live_ref r st \<Longrightarrow> session_deref (rs_sm (root_set_session r s st)) r = s"
  by (auto simp: root_inv_def live_ref_def manager_inv_def root_set_session_def)

text \<open>Writing back a session of the same identity keeps everything.\<close>

lemma root_inv_set:
  assumes inv: "root_inv st" and live: "live_ref r st"
    and s: "session_inv s" "same_id (session_deref (rs_sm st) r) s"
  shows "root_inv (root_set_session r s st)" and "live_ref r (root_set_session r s st)"
proof -
  obtain i where i: "i < 10" "r = Session_Slot i" "s_used (sm_sessions (rs_sm st) ! i)" using live by (auto simp: live_ref_def)
  let ?ss = "sm_sessions (rs_sm st)"
  have len: "length ?ss = 10" and kd: "session_table.keys_distinct ?ss" using inv by (auto simp: root_inv_def manager_inv_def)
  have id: "s_used s = s_used (?ss ! i)" "s_node_id s = s_node_id (?ss ! i)" "s_role s = s_role (?ss ! i)"
    using s(2) i by (auto simp: same_id_def)
  have nth: "s_used (?ss[i := s] ! k) = s_used (?ss ! k) \<and> s_node_id (?ss[i := s] ! k) = s_node_id (?ss ! k)" if "k < 10" for k
    using that id len i(1) by (cases "k = i") auto
  have "session_table.keys_distinct (?ss[i := s])"
    using kd nth len unfolding session_table.keys_distinct_def by auto
  moreover have "\<forall>x\<in>set (?ss[i := s]). session_inv x \<and> (s_used x \<longrightarrow> s_role x = SESSION_ROLE_ROOT)"
    using inv s(1) id i len set_update_subset_insert [of ?ss i s] by (fastforce simp: root_inv_def)
  ultimately show "root_inv (root_set_session r s st)"
    using inv i len by (simp add: root_inv_def manager_inv_def root_set_session_def)
  show "live_ref r (root_set_session r s st)"
    using i len id by (simp add: live_ref_def root_set_session_def)
qed

section \<open>Steps that touch one session\<close>

text \<open>
  A step through the reference \<open>r\<close>: the invariant holds afterwards, the session keeps its identity,
  and every other slot of the table is what it was.
\<close>

definition touches :: "session_ref \<Rightarrow> 'g root_state \<Rightarrow> 'g root_state \<Rightarrow> bool" where
  "touches r st st' \<longleftrightarrow> root_inv st' \<and> live_ref r st' \<and>
     same_id (session_deref (rs_sm st) r) (session_deref (rs_sm st') r) \<and>
     (\<forall>j. r \<noteq> Session_Slot j \<longrightarrow> sm_sessions (rs_sm st') ! j = sm_sessions (rs_sm st) ! j)"

lemma touchesD: "touches r st st' \<Longrightarrow> root_inv st'" "touches r st st' \<Longrightarrow> live_ref r st'"
  by (simp_all add: touches_def)

lemma touches_refl: "root_inv st \<Longrightarrow> live_ref r st \<Longrightarrow> touches r st st"
  by (simp add: touches_def)

lemma touches_trans: "touches r st st1 \<Longrightarrow> touches r st1 st2 \<Longrightarrow> touches r st st2"
  by (auto simp: touches_def same_id_def)

lemma touches_log [simp]: "touches r st (root_log l st') = touches r st st'"
  by (simp add: touches_def)

lemma touches_impact [simp]:
  "touches r st (root_impact_start cs clk n st') = touches r st st'"
  "touches r st (root_impact_end cs clk n b st') = touches r st st'"
  by (simp_all add: touches_def)

lemma touches_tx: "touches r st st' \<Longrightarrow> tx_inv tx \<Longrightarrow> touches r st (root_set_tx tx st')"
  by (auto simp: touches_def root_inv_tx)

lemma touches_set:
  assumes t: "touches r st st'" and "session_inv s" "same_id (session_deref (rs_sm st') r) s" "hs_inv env"
  shows "touches r st (root_set_session r s (st'\<lparr>rs_env := env\<rparr>))"
proof -
  have i: "root_inv (st'\<lparr>rs_env := env\<rparr>)" "live_ref r (st'\<lparr>rs_env := env\<rparr>)"
    using t assms(4) root_inv_env [of st' env] by (auto simp: touches_def)
  obtain i where r: "r = Session_Slot i" using i(2) by (auto simp: live_ref_def)
  have "same_id (session_deref (rs_sm st) r) s" using t assms(3) same_id_trans by (auto simp: touches_def)
  then show ?thesis
    using root_inv_set [OF i] root_deref_set [OF i] assms(2,3) t r
    by (auto simp: touches_def root_set_session_def)
qed

lemma touches_set_session:
  assumes "touches r st st'" "session_inv s" "same_id (session_deref (rs_sm st') r) s"
  shows "touches r st (root_set_session r s st')"
  using touches_set [OF assms, of "rs_env st'"] assms(1) by (simp add: touches_def root_inv_def)

text \<open>The session operations the program applies directly keep the identity.\<close>

lemma same_id_ops:
  "same_id s (session_set_peer_addr now addr s') = same_id s s'"
  "same_id s (s_metrics_update f s') = same_id s s'"
  "same_id s (session_set_pending cs a b mt mid s') = same_id s s'"
  "same_id s (s'\<lparr>s_session_summary_emitted := b1\<rparr>) = same_id s s'"
  "same_id s (s'\<lparr>s_node_metric_values := v, s_node_metrics_mask := m\<rparr>) = same_id s s'"
  "same_id s (s'\<lparr>s_rx_counter := c\<rparr>) = same_id s s'"
  by (simp_all add: same_id_def session_ops)

lemma same_id_reset: "s_used s' \<Longrightarrow> same_id s (session_reset now1 now2 s') = same_id s s'"
  by (auto simp: same_id_def session_reset_fields)

lemma session_inv_more [simp]:
  "session_inv (s\<lparr>s_session_summary_emitted := b1\<rparr>) = session_inv s"
  "session_inv (s\<lparr>s_node_metric_values := v, s_node_metrics_mask := m\<rparr>) = session_inv s"
  "session_inv (s\<lparr>s_rx_counter := c\<rparr>) = session_inv s"
  "session_inv (session_set_peer_addr now addr s) = session_inv s"
  "session_inv (session_set_pending cs a b mt mid s) = session_inv s"
  by (simp_all add: session_inv_def session_ops)

lemma summary_same_id:
  "csv_session_summary_if_ready cs clk s = (lines, s') \<Longrightarrow> same_id s s' \<and> session_inv s' = session_inv s"
  by (auto simp: csv_session_summary_if_ready_def same_id_ops split: if_splits)

lemma store_metrics_same_id:
  "same_id s (session_store_node_metrics report s)" "session_inv (session_store_node_metrics report s) = session_inv s"
  by (simp_all add: session_store_node_metrics_def same_id_ops)

lemma touches_live:
  "touches r st st' \<Longrightarrow> session_inv (session_deref (rs_sm st') r) \<and> session_is_root (session_deref (rs_sm st') r) \<and>
     s_used (session_deref (rs_sm st') r)"
  using root_live touchesD by blast

lemma touches_hs_inv: "touches r st st' \<Longrightarrow> hs_inv (rs_env st')"
  by (simp add: touches_def root_inv_def)

section \<open>The branches of the receive callback\<close>

lemma drop_node_touches:
  assumes t: "touches r st st'" and d: "pqc_tx_drop_node nid (he_tx (rs_env st')) = (d, tx)"
  shows "touches r st (root_set_tx tx st')"
  using t tx_drop_all_spec(1) [of "he_tx (rs_env st')" "\<lambda>e. te_node_id e = nid" d tx] d touches_hs_inv [OF t]
  by (intro touches_tx) (simp_all add: pqc_tx_drop_node_def hs_inv_def)

lemma drop_and_reset_touches:
  assumes t: "touches r st st'"
  shows "touches r st (root_drop_and_reset a b c sender r nid st')"
    and "\<not> s_established (session_deref (rs_sm (root_drop_and_reset a b c sender r nid st')) r)"
    and "s_state (session_deref (rs_sm (root_drop_and_reset a b c sender r nid st')) r) = SESSION_STATE_IDLE"
proof -
  obtain d tx where d: "pqc_tx_drop_node nid (he_tx (rs_env st')) = (d, tx)" by fastforce
  note t' = drop_node_touches [OF t d]
  let ?s = "session_set_peer_addr c sender (session_reset a b (session_deref (rs_sm st') r))"
  have e: "root_drop_and_reset a b c sender r nid st' = root_set_session r ?s (root_set_tx tx st')"
    using d by (simp add: root_drop_and_reset_def Let_def)
  show "touches r st (root_drop_and_reset a b c sender r nid st')"
    unfolding e using t' touches_live [OF t'] by (intro touches_set_session) (simp_all add: same_id_ops same_id_reset session_inv_ops)
  have "session_deref (rs_sm (root_drop_and_reset a b c sender r nid st')) r = ?s"
    unfolding e using t' by (simp add: touches_def)
  then show "\<not> s_established (session_deref (rs_sm (root_drop_and_reset a b c sender r nid st')) r)"
    and "s_state (session_deref (rs_sm (root_drop_and_reset a b c sender r nid st')) r) = SESSION_STATE_IDLE"
    by (simp_all add: session_set_peer_addr_def session_touch_def session_reset_fields)
qed

lemma start_handshake_touches:
  assumes k: "kem_sized kem" and t: "touches r st st'" and ne: "\<not> s_established (session_deref (rs_sm st') r)"
    and c: "ctx = \<lparr>uc_udp_conn = Some conn, uc_dest = Some dest\<rparr>"
  shows "touches r st (root_start_handshake kem cs clk ctx r nid st')"
proof -
  let ?s = "session_deref (rs_sm st') r"
  obtain ok s env where h: "hs_fsm_start kem cs (\<lambda>k. clk (2 + k)) (queue_send conn dest) ?s (rs_env st') = (ok, s, env)"
    by (metis prod_cases3)
  have "hs_inv env \<and> session_inv s"
    using hs_start_inv [OF k _ _ ne h] touches_hs_inv [OF t] touches_live [OF t] by blast
  then have "touches r st (root_set_session r s ((root_impact_start cs clk nid st')\<lparr>rs_env := env\<rparr>))"
    using t hs_start_same_id [OF h] by (intro touches_set) auto
  then show ?thesis using h c by (simp add: root_start_handshake_def Let_def)
qed

lemma touches_upd:
  assumes t: "touches r st st'" and "session_inv s = session_inv (session_deref (rs_sm st') r)"
    and "same_id (session_deref (rs_sm st') r) s"
  shows "touches r st (root_set_session r s st')"
  using touches_set_session [OF t _ assms(3)] assms(2) touches_live [OF t] by blast

lemma getpk_touches:
  assumes k: "kem_sized kem" and t: "touches r st st'" and c: "ctx = \<lparr>uc_udp_conn = Some conn, uc_dest = Some dest\<rparr>"
  shows "touches r st (root_rx_getpk kem cs clk ctx sender r nid mid st')"
proof -
  let ?s0 = "upd_hs (\<lambda>m. m\<lparr>mh_getpk_rx := mh_getpk_rx m + 1\<rparr>) (session_deref (rs_sm st') r)"
  let ?st0 = "root_set_session r ?s0 st'"
  have t0: "touches r st ?st0" using t by (intro touches_upd) (simp_all add: same_id_ops)
  define st1 where "st1 = (if session_is_failed ?s0
       then root_drop_and_reset (clk 1) (clk 2) (clk 3) sender r nid
              (root_log [csv_event cs (clk 0) nid ''GETPK_AFTER_FAIL'' (ucast (s_retry_count ?s0)) 0 0 0] ?st0) else ?st0)"
  have t1: "touches r st st1"
    unfolding st1_def using t0 by (auto intro!: drop_and_reset_touches(1))
  let ?s = "session_deref (rs_sm st1) r"
  have i: "s_state ?s = SESSION_STATE_IDLE \<Longrightarrow> \<not> s_established ?s"
    using touches_live [OF t1] by (simp add: session_inv_def)
  show ?thesis
    unfolding root_rx_getpk_def Let_def st1_def [symmetric]
    using t1 i by (auto intro!: start_handshake_touches [OF k _ _ c] drop_and_reset_touches(1) simp: drop_and_reset_touches)
qed

lemma ct_start_touches:
  assumes t: "touches r st st'"
  shows "touches r st (root_rx_ct_start cs clk r nid mid st')"
proof -
  let ?s = "session_deref (rs_sm st') r"
  obtain d tx where d: "pqc_tx_drop nid PQC_MSG_PK (s_pending_msg_id ?s) (he_tx (rs_env st')) = (d, tx)" by fastforce
  have "tx_inv tx"
    using tx_drop_all_spec(1) d touches_hs_inv [OF t] unfolding pqc_tx_drop_def hs_inv_def by blast
  then have "touches r st (root_set_tx tx st')" by (rule touches_tx [OF t])
  then show ?thesis
    unfolding root_rx_ct_start_def Let_def using d by (auto intro!: touches_upd simp: same_id_ops)
qed

lemma handle_temp_same_id:
  "pqc_handle_encrypted_temp now data len s = (m, s') \<Longrightarrow> same_id s s' \<and> session_inv s' = session_inv s"
  by (auto simp: pqc_handle_encrypted_temp_def Let_def same_id_ops session_touch_def same_id_def session_inv_def
      split: if_splits option.splits)

lemma temp_touches:
  assumes t: "touches r st st'"
  shows "touches r st (root_rx_temp cs clk r nid mid data len st')"
  unfolding root_rx_temp_def
  using handle_temp_same_id by (auto split: prod.split option.split intro!: touches_upd [OF t] dest!: handle_temp_same_id)

lemma metrics_touches:
  assumes t: "touches r st st'"
  shows "touches r st (root_rx_metrics cs clk r nid mid data len st')"
proof -
  have "touches r st (root_set_session r s' st')"
    if "csv_session_summary_if_ready cs c (session_store_node_metrics report (session_deref (rs_sm st') r)) = (lines, s')"
    for c report lines s'
    using summary_same_id [OF that] store_metrics_same_id same_id_trans by (intro touches_upd [OF t]) blast+
  then show ?thesis
    unfolding root_rx_metrics_def Let_def using t
    by (auto split: option.split prod.split simp: root_log_def root_set_session_def touches_def root_inv_def live_ref_def)
qed

lemma handshake_touches:
  assumes k: "kem_sized kem" and t: "touches r st st'" and c: "ctx = \<lparr>uc_udp_conn = Some conn, uc_dest = Some dest\<rparr>"
  shows "touches r st (root_rx_handshake kem cs clk ctx r was data len st')"
proof -
  let ?s = "session_deref (rs_sm st') r"
  obtain ok s env where h: "hs_fsm_handle_fragment kem cs clk (queue_send conn dest) r data len ?s (rs_env st') = (ok, s, env)"
    by (metis prod_cases3)
  have "hs_inv env \<and> session_inv s"
    using hs_handle_fragment_inv [OF k _ _ h] touches_hs_inv [OF t] touches_live [OF t] by blast
  then have t1: "touches r st (root_set_session r s (st'\<lparr>rs_env := env\<rparr>))" (is "touches r st ?st1")
    using hs_handle_same_id [OF h] touches_live [OF t] t by (intro touches_set) auto
  have "touches r st (root_set_session r s2 (root_impact_end cs c' n True (root_log l ?st1)))"
    if "csv_session_summary_if_ready cs c2 (session_deref (rs_sm ?st1) r) = (lines, s2)" for c' n l c2 lines s2
    using summary_same_id [OF that] t1 by (intro touches_upd) auto
  then show ?thesis
    unfolding root_rx_handshake_def using h c t1 by (auto simp: Let_def split: prod.split)
qed

section \<open>The receive callback\<close>

lemma get_or_create_root_inv:
  assumes inv: "root_inv st" and g: "session_manager_get_or_create now nid (rs_sm st) = (found, sm)"
  shows "root_inv (st\<lparr>rs_sm := sm\<rparr>)"
    and "found = Some r \<Longrightarrow> live_ref r (st\<lparr>rs_sm := sm\<rparr>) \<and> s_node_id (session_deref sm r) = nid"
    and "i < 10 \<Longrightarrow> s_used (sm_sessions (rs_sm st) ! i) \<Longrightarrow> s_node_id (sm_sessions (rs_sm st) ! i) \<noteq> nid \<Longrightarrow>
         sm_sessions sm ! i = sm_sessions (rs_sm st) ! i \<and> found \<noteq> Some (Session_Slot i)"
    and "found = None \<Longrightarrow> sm = rs_sm st"
proof -
  let ?ss = "sm_sessions (rs_sm st)"
  obtain f ses where gs: "sessions_get_or_create now nid ?ss = (f, ses)" by fastforce
  have e: "found = map_option Session_Slot f" "sm = (rs_sm st)\<lparr>sm_sessions := ses\<rparr>"
    using g gs by (simp_all add: session_manager_get_or_create_def)
  have kd: "session_table.keys_distinct ?ss" "length ?ss = 10" using inv by (auto simp: root_inv_def manager_inv_def)
  have m: "manager_inv sm" using manager_inv_get_or_create [OF _ g] inv by (simp add: root_inv_def)
  have "set ses \<subseteq> insert (session_init now SESSION_ROLE_ROOT nid) (set ?ss)"
    using gs set_update_subset_insert by (fastforce simp: sessions_get_or_create_def split: option.splits)
  then have "\<forall>s\<in>set ses. session_inv s \<and> (s_used s \<longrightarrow> s_role s = SESSION_ROLE_ROOT)"
    using inv session_inv_ops(1) [of now SESSION_ROLE_ROOT nid]
    by (auto simp: root_inv_def session_init_def session_touch_def dest!: subsetD)
  then show "root_inv (st\<lparr>rs_sm := sm\<rparr>)" using inv m e by (simp add: root_inv_def)
  show "live_ref r (st\<lparr>rs_sm := sm\<rparr>) \<and> s_node_id (session_deref sm r) = nid" if fd: "found = Some r"
  proof -
    obtain j where j: "f = Some j" "r = Session_Slot j" using fd e(1) by auto
    have l: "sessions_find nid ses = Some j" using session_table.acquire_lookup [OF kd(1)] gs j by blast
    have "length ses = 10" using session_table.acquire_length [OF gs] kd by simp
    with session_table.lookup_Some [OF l] j e show ?thesis by (simp add: live_ref_def)
  qed
  show "sm_sessions sm ! i = ?ss ! i \<and> found \<noteq> Some (Session_Slot i)"
    if "i < 10" "s_used (?ss ! i)" "s_node_id (?ss ! i) \<noteq> nid"
  proof -
    have l: "sessions_find (s_node_id (?ss ! i)) ?ss = Some i"
      using session_table.lookup_unique [OF kd(1)] that kd(2) by simp
    note o = session_table.acquire_other [OF kd(1) gs l that(3)]
    have "f \<noteq> Some i"
    proof
      assume "f = Some i"
      then have "sessions_find nid ses = Some i" using session_table.acquire_lookup [OF kd(1)] gs by blast
      then show False using session_table.lookup_Some [of nid ses i] o that(3) by auto
    qed
    then show ?thesis using e o by auto
  qed
  show "sm = rs_sm st" if "found = None"
    using that e gs by (auto simp: sessions_get_or_create_def split: option.splits)
qed

lemma dispatch_touches:
  assumes k: "kem_sized kem" and t: "touches r st0 st"
  shows "touches r st0 (root_rx_dispatch kem cs clk conn sender data len r st)"
proof -
  define st2 where "st2 = (if data ! PQC_HDR_MSG_TYPE = PQC_MSG_CT \<and>
      s_state (session_deref (rs_sm st) r) = SESSION_STATE_WAIT_CT \<and>
      s_pending_msg_type (session_deref (rs_sm st) r) = PQC_MSG_PK
    then root_rx_ct_start cs clk r (pqc_header_get_node_id data) (data ! PQC_HDR_MSG_ID) st else st)"
  have t2: "touches r st0 st2" using t ct_start_touches [OF t] by (simp add: st2_def)
  show ?thesis
    unfolding root_rx_dispatch_def Let_def st2_def [symmetric]
    by (simp add: getpk_touches [OF k t refl] temp_touches [OF t2] metrics_touches [OF t2] handshake_touches [OF k t2 refl])
qed

lemma callback_step:
  assumes k: "kem_sized kem" and inv: "root_inv st"
  shows "root_inv (udp_rx_callback_root kem cs clk conn sender data len st)"
    and "i < 10 \<Longrightarrow> s_used (sm_sessions (rs_sm st) ! i) \<Longrightarrow>
         s_node_id (sm_sessions (rs_sm st) ! i) \<noteq> pqc_header_get_node_id data \<Longrightarrow>
         sm_sessions (rs_sm (udp_rx_callback_root kem cs clk conn sender data len st)) ! i = sm_sessions (rs_sm st) ! i"
proof -
  let ?cb = "udp_rx_callback_root kem cs clk conn sender data len st"
  obtain found sm where g: "session_manager_get_or_create (clk 0) (pqc_header_get_node_id data) (rs_sm st) = (found, sm)"
    by fastforce
  note gc = get_or_create_root_inv [OF inv g]
  have T: "touches r (st\<lparr>rs_sm := sm\<rparr>) ?cb" if v: "pqc_header_valid data len" and f: "found = Some r" for r
  proof -
    let ?st0 = "st\<lparr>rs_sm := sm\<rparr>"
    have "touches r ?st0 (root_set_session r (session_set_peer_addr (clk 1) sender (session_deref sm r)) ?st0)"
      using gc(1,2) f by (intro touches_upd touches_refl) (simp_all add: same_id_ops)
    from dispatch_touches [OF k this] v g f show ?thesis
      unfolding udp_rx_callback_root_def by (simp add: Let_def)
  qed
  have N: "rs_sm ?cb = rs_sm st \<and> root_inv ?cb" if "\<not> pqc_header_valid data len \<or> found = None"
    using that g gc(1,4) inv by (auto simp: udp_rx_callback_root_def Let_def)
  show "root_inv ?cb" using T N touchesD(1) by (cases found) blast+
  show "sm_sessions (rs_sm ?cb) ! i = sm_sessions (rs_sm st) ! i"
    if "i < 10" "s_used (sm_sessions (rs_sm st) ! i)" "s_node_id (sm_sessions (rs_sm st) ! i) \<noteq> pqc_header_get_node_id data"
  proof (cases "\<not> pqc_header_valid data len \<or> found = None")
    case True
    with N show ?thesis by simp
  next
    case False
    then obtain r where r: "found = Some r" by auto
    with T False have "touches r (st\<lparr>rs_sm := sm\<rparr>) ?cb" by blast
    then have "r \<noteq> Session_Slot i \<Longrightarrow> sm_sessions (rs_sm ?cb) ! i = sm_sessions sm ! i" by (simp add: touches_def)
    with gc(3) [OF that] r show ?thesis by simp
  qed
qed

section \<open>The retry timer\<close>

lemma retry_session_unused:
  "i < 10 \<Longrightarrow> \<not> s_used (sm_sessions (rs_sm st) ! i) \<Longrightarrow> root_retry_session cs clk conn i st = st"
  by (simp add: root_retry_session_def session_manager_get_by_index_def)

lemma retry_session_touches:
  assumes inv: "root_inv st" and i: "i < 10" and True: "s_used (sm_sessions (rs_sm st) ! i)"
  shows "touches (Session_Slot i) st (root_retry_session cs clk conn i st)"
proof -
  let ?r = "Session_Slot i" and ?s = "sm_sessions (rs_sm st) ! i"
  have t: "touches ?r st st" using inv True i by (intro touches_refl) (auto simp: live_ref_def)
  have gi: "session_manager_get_by_index (of_nat i) (rs_sm st) = Some ?r"
    using True i by (simp add: session_manager_get_by_index_def)
  obtain ok s env where h: "hs_fsm_retry cs clk (queue_send conn (s_peer_addr ?s)) ?r ?s (rs_env st) = (ok, s, env)"
    by (metis prod_cases3)
  have "hs_inv env \<and> session_inv s"
    using hs_retry_inv [OF _ _ h] touches_hs_inv [OF t] touches_live [OF t] by simp
  then have t1: "touches ?r st (root_set_session ?r s (st\<lparr>rs_env := env\<rparr>))" (is "touches _ _ ?st1")
    using t hs_retry_same_id [OF h] by (intro touches_set) auto
  let ?st2 = "root_log [csv_event cs (clk 60) (s_node_id s) ''HS_FAIL_RESET'' (of_nat (session_state_code (s_state s)))
      (ucast (s_retry_count s)) 0 0] (root_impact_end cs (\<lambda>k. clk (30 + k)) (s_node_id s) False
      (root_log (csv_hs_summary cs (\<lambda>k. clk (20 + k)) s ''HS_FAIL'') ?st1))"
  have t2: "touches ?r st ?st2" using t1 by simp
  obtain d tx where d: "pqc_tx_drop_node (s_node_id s) (he_tx (rs_env ?st2)) = (d, tx)" by fastforce
  have sd: "session_deref (rs_sm (root_set_tx tx ?st2)) ?r = s"
    using inv i by (simp add: root_set_session_def root_inv_def manager_inv_def)
  have u: "s_used s" "session_inv s" using touches_live [OF drop_node_touches [OF t2 d]] sd by simp_all
  have "touches ?r st (root_set_session ?r (session_reset (clk 61) (clk 62) s) (root_set_tx tx ?st2))"
    using drop_node_touches [OF t2 d] u sd by (intro touches_set_session) (simp_all add: session_inv_ops same_id_reset)
  then show ?thesis using t t1 gi h d by (simp add: root_retry_session_def Let_def)
qed

lemma retry_session_step: "root_inv st \<Longrightarrow> i < 10 \<Longrightarrow> root_inv (root_retry_session cs clk conn i st)"
  using retry_session_touches touchesD(1) retry_session_unused by metis

lemma retry_step_inv: "root_inv st \<Longrightarrow> root_inv (PQC_retry_step_root cs clks conn st)"
proof -
  have "root_inv (fold (\<lambda>i. root_retry_session cs (clks i) conn i) is st)" if "root_inv st" "\<forall>i\<in>set is. i < 10" for "is" st
    using that by (induction "is" arbitrary: st) (auto simp: retry_session_step)
  from this [of st "[0..<10]"] show "root_inv st \<Longrightarrow> root_inv (PQC_retry_step_root cs clks conn st)"
    by (simp add: PQC_retry_step_root_def)
qed

lemma send_step_inv: "root_inv st \<Longrightarrow> root_inv (PQC_send_step st)"
proof -
  assume inv: "root_inv st"
  let ?tx = "he_tx (rs_env st)"
  have "tx_inv ?tx" using inv by (simp add: root_inv_def hs_inv_def)
  then have "tx_inv (snd (pqc_tx_process ?tx))"
    using tx_process_empty [of ?tx] tx_process_step [of ?tx] by (cases "tx_count ?tx = 0") fastforce+
  then show ?thesis using inv by (simp add: PQC_send_step_def root_inv_tx)
qed

end
