(* ===== verification/Server_Run.thy ===== *)
theory Server_Run
  imports Server_Inv
begin

text \<open>
  The runs of the root program as a step relation over its three event handlers, and the safety of
  its keys: in every reachable state an established session holds a shared secret that the root's
  secret key decapsulates, and the encryption key derived from it.
\<close>

section \<open>Where a key comes from\<close>

text \<open>Once the root has a key pair it keeps it.\<close>

definition key_env :: "'g hs_env \<Rightarrow> 'g hs_env \<Rightarrow> bool" where
  "key_env env env' \<longleftrightarrow>
     (he_root_has_keypair env \<longrightarrow> he_root_has_keypair env' \<and> he_root_sk env' = he_root_sk env)"

definition key_from :: "'g kem_api \<Rightarrow> 'g hs_env \<Rightarrow> session_t \<Rightarrow> bool" where
  "key_from kem env s \<longleftrightarrow> (session_is_established s \<longrightarrow>
     he_root_has_keypair env \<and> s_aes_key s = crypto_worker_derive_aes_key (s_ss s) \<and>
     (\<exists>ct. crypto_kem_dec kem ct (he_root_sk env) = (0, s_ss s)))"

lemma key_env_refl [simp]: "key_env env env"
  and key_env_fields [simp]: "key_env env (env'\<lparr>he_tx := tx\<rparr>) = key_env env env'"
    "key_env env (env'\<lparr>he_rx_slots := sl\<rparr>) = key_env env env'" "key_env env (env'\<lparr>he_root_ct := ct\<rparr>) = key_env env env'"
    "key_env env (env'\<lparr>he_node_ct := ct\<rparr>) = key_env env env'" "key_env env (hs_release self env') = key_env env env'"
  by (simp_all add: key_env_def hs_release_def)

lemma key_env_trans: "key_env a b \<Longrightarrow> key_env b c \<Longrightarrow> key_env a c"
  by (simp add: key_env_def)

lemma key_from_mono: "key_env env env' \<Longrightarrow> key_from kem env s \<Longrightarrow> key_from kem env' s"
  by (auto simp: key_env_def key_from_def)

lemma key_from_fields [simp]: "key_from kem (env\<lparr>he_rx_slots := sl\<rparr>) s = key_from kem env s"
  "key_from kem (env\<lparr>he_tx := tx\<rparr>) s = key_from kem env s"
  by (simp_all add: key_from_def)

lemma key_from_idle: "\<not> session_is_established s \<Longrightarrow> key_from kem env s"
  by (simp add: key_from_def)

text \<open>Two sessions with the same keys.\<close>

definition same_secrets :: "session_t \<Rightarrow> session_t \<Rightarrow> bool" where
  "same_secrets s s' \<longleftrightarrow> session_is_established s' = session_is_established s \<and> s_ss s' = s_ss s \<and> s_aes_key s' = s_aes_key s"

lemma same_secrets_core: "same_core s s' \<Longrightarrow> same_secrets s s'"
  by (simp add: same_secrets_def same_core_fields session_is_established_def)

lemma key_from_same: "same_secrets s s' \<Longrightarrow> key_from kem env s' = key_from kem env s"
  by (simp add: same_secrets_def key_from_def)

lemma not_established_ops [simp]: "\<not> session_is_established (session_set_failed now s)"
  "\<not> session_is_established (session_reset a b s)" "\<not> session_is_established (session_init a role n)"
  by (simp_all add: session_is_established_def session_set_failed_def session_clear_pending_def session_reset_fields
      session_init_def session_touch_def Let_def)

lemma established_fields [simp]:
  "session_is_established (s_metrics_update f s) = session_is_established s"
  "session_is_established (s\<lparr>s_retry_deadline := d\<rparr>) = session_is_established s"
  "session_is_established (hs_mark_retry_for_transfer cs clk len s) = session_is_established s"
  "session_is_established (hs_mark_rx_retry cs clk s) = session_is_established s"
  by (simp_all add: session_is_established_def hs_mark_retry_for_transfer_def hs_mark_rx_retry_def Let_def session_touch_def)

section \<open>The handshake module\<close>

lemma hs_start_key_env: "hs_fsm_start kem cs clk send s env = (ok, s', env') \<Longrightarrow> key_env env env'"
  by (auto simp: hs_fsm_start_def hs_start_send_pk_def hs_fsm_root_init_keypair_def key_env_def Let_def
      split: if_splits prod.splits)

lemma hs_start_not_established:
  assumes "hs_fsm_start kem cs clk send s env = (ok, s', env')" and "session_is_root s" "\<not> session_is_established s"
    and "session_inv s"
  shows "\<not> session_is_established s'"
  using assms by (auto simp: hs_fsm_start_def hs_start_send_pk_def Let_def session_next_msg_id_def
      hs_set_pending_for_transfer_def session_is_established_def session_set_wait_ct_def session_set_pending_def
      session_touch_def session_set_failed_def session_clear_pending_def session_is_root_def split: if_splits prod.splits)

lemma hs_retry_keys:
  assumes "hs_fsm_retry cs clk send self s env = (ok, s', env')"
  shows "key_env env env'" and "\<not> session_is_established s \<Longrightarrow> \<not> session_is_established s'"
proof -
  have C: "key_env env env' \<and> (\<not> session_is_established s \<longrightarrow> \<not> session_is_established s')"
    if "hs_retry_root_ct cs c send self s e = (ok, s', env')" "key_env env e" for c e
    using that same_core_established [OF send_nack_core] same_core_established [OF rx_slot_note_nack_core]
    by (auto simp: hs_retry_root_ct_def Let_def split: if_splits prod.splits option.splits dest!: same_core_established [OF send_nack_core])
      (metis fst_conv)+
  have R: "key_env env env' \<and> (\<not> session_is_established s \<longrightarrow> \<not> session_is_established s')"
    if "hs_retry_resend cs c send s e = (ok, s', env')" "key_env env e" for c e
    using that by (auto simp: hs_retry_resend_def Let_def split: if_splits prod.splits)
  have "key_env env env' \<and> (\<not> session_is_established s \<longrightarrow> \<not> session_is_established s')"
    using assms C R by (auto simp: hs_fsm_retry_def Let_def split: if_splits)
  then show "key_env env env'" "\<not> session_is_established s \<Longrightarrow> \<not> session_is_established s'" by blast+
qed

lemma retransmit_key_env:
  "retransmit_nack_fragments cs clk send nack s env = (ok, s', env') \<Longrightarrow> key_env env env'"
  by (auto simp: retransmit_nack_fragments_def Let_def split: if_splits prod.splits option.splits)

text \<open>No message changes the root's key pair.\<close>

definition same_root_key :: "'g hs_env \<Rightarrow> 'g hs_env \<Rightarrow> bool" where
  "same_root_key env env' \<longleftrightarrow> he_root_sk env' = he_root_sk env \<and> he_root_has_keypair env' = he_root_has_keypair env"

lemma same_root_key_simps [simp]:
  "same_root_key env env" "same_root_key env (env'\<lparr>he_tx := tx\<rparr>) = same_root_key env env'"
  "same_root_key env (env'\<lparr>he_rx_slots := sl\<rparr>) = same_root_key env env'"
  "same_root_key (env\<lparr>he_rx_slots := sl\<rparr>) env' = same_root_key env env'"
  "same_root_key env (env'\<lparr>he_root_ct := ct\<rparr>) = same_root_key env env'"
  "same_root_key env (env'\<lparr>he_node_ct := ct\<rparr>) = same_root_key env env'"
  "same_root_key env (env'\<lparr>he_prng := g\<rparr>) = same_root_key env env'"
  "same_root_key env (hs_release self env') = same_root_key env env'"
  by (simp_all add: same_root_key_def hs_release_def)

lemma key_from_same_root_key: "same_root_key env env' \<Longrightarrow> key_from kem env' s = key_from kem env s"
  by (simp add: same_root_key_def key_from_def)

lemma hs_complete_same_root_key:
  "hs_complete_message kem cs clk send self rx h s env = (ok, s', env') \<Longrightarrow> same_root_key env env'"
  by (auto simp: hs_complete_message_def hs_node_complete_pk_def hs_node_send_ct_def hs_node_complete_ack_def
      hs_root_complete_ct_def hs_root_accept_ct_def Let_def split: if_splits prod.splits)

lemma hs_handle_same_root_key:
  "hs_fsm_handle_fragment kem cs clk send self data len s env = (ok, s', env') \<Longrightarrow> same_root_key env env'"
  by (auto simp: hs_fsm_handle_fragment_def hs_store_fragment_def retransmit_nack_fragments_def Let_def
      split: if_splits prod.splits option.splits hs_gate.splits bool.splits dest!: hs_complete_same_root_key)

lemma hs_root_complete_keys:
  assumes "hs_root_complete_ct kem clk send self rx mid s env = (ok, s', env')" and "\<not> session_is_established s"
  shows "key_from kem env' s'"
  using assms(1,2) same_core_fields [OF send_ack_core]
  by (auto simp: hs_root_complete_ct_def hs_root_accept_ct_def Let_def key_from_def hs_release_def
      hs_fsm_root_has_keypair_def crypto_worker_decapsulate_def session_is_established_def
      session_set_failed_def session_clear_pending_def session_set_established_def split: if_splits prod.splits)

lemma hs_complete_keys:
  assumes h: "hs_complete_message kem cs clk send self rx h s env = (ok, s', env')" and r: "session_is_root s"
    and g: "fh_msg_type h = PQC_MSG_CT \<Longrightarrow> \<not> session_is_established s" and k: "key_from kem env s"
  shows "key_from kem env' s'"
proof (cases "fh_msg_type h = PQC_MSG_CT")
  case True
  then have "hs_root_complete_ct kem clk send self rx (fh_msg_id h) s env = (ok, s', env')"
    using h r by (auto simp: hs_complete_message_def session_is_root_def session_is_node_def)
  then show ?thesis by (rule hs_root_complete_keys) (rule g [OF True])
next
  case False
  then show ?thesis using h r k
    by (auto simp: hs_complete_message_def session_is_root_def session_is_node_def hs_release_def key_from_def)
qed

lemma hs_handle_keys:
  assumes h: "hs_fsm_handle_fragment kem cs clk send self data len s env = (ok, s', env')" and r: "session_is_root s"
    and k: "key_from kem env s"
  shows "key_from kem env' s'"
proof -
  note e = key_from_same_root_key [OF hs_handle_same_root_key [OF h]]
  have core: "key_from kem env' s'" if "same_core s s'"
    using key_from_same [OF same_secrets_core [OF that]] e k by blast
  have st: "key_from kem env' s'" if st: "hs_store_fragment kem cs c send self data hd' s e0 = (ok, s', env')"
    and g: "hs_gate_message hd' s = Gate_Pass" and e0: "key_from kem e0 s" for c hd' e0
    using hs_store_fragment_cases [OF st]
  proof
    assume "\<exists>rx s1 slots. hs_rx_after cs c self data hd' (he_rx_slots e0) = Some rx \<and> fragment_rx_complete rx \<and>
      same_core s s1 \<and> hs_complete_message kem cs (\<lambda>k. c (6 + k)) send self rx hd' s1 (e0\<lparr>he_rx_slots := slots\<rparr>) = (ok, s', env')"
    then obtain rx s1 slots where s1: "same_core s s1"
      and m: "hs_complete_message kem cs (\<lambda>k. c (6 + k)) send self rx hd' s1 (e0\<lparr>he_rx_slots := slots\<rparr>) = (ok, s', env')" by blast
    have "fh_msg_type hd' = PQC_MSG_CT \<Longrightarrow> \<not> session_is_established s1"
      using g r same_core_established [OF s1] by (auto simp: hs_gate_message_def split: if_splits)
    moreover have "session_is_root s1" using r same_core_fields [OF s1] by (simp add: session_is_root_def)
    moreover have "key_from kem (e0\<lparr>he_rx_slots := slots\<rparr>) s1"
      using e0 key_from_same [OF same_secrets_core [OF s1], of kem e0] by simp
    ultimately show ?thesis using hs_complete_keys [OF m] by blast
  qed (rule core)
  have gs: "hs_gate_session hd' s = Some s0 \<Longrightarrow> s0 = s" for hd' s0
    using r by (auto simp: hs_gate_session_def session_is_root_def session_is_node_def split: if_splits)
  have k': "key_from kem (env\<lparr>he_rx_slots := sl\<rparr>) s" for sl using k by (simp add: key_from_def)
  show ?thesis
    using h st core send_ack_core retransmit_core k'
    by (fastforce simp: hs_fsm_handle_fragment_def Let_def split: option.splits hs_gate.splits if_splits prod.splits bool.splits
        dest!: gs)
qed

section \<open>The handlers\<close>

text \<open>What a step through the reference \<open>r\<close> does to the keys.\<close>

definition key_step :: "'g kem_api \<Rightarrow> session_ref \<Rightarrow> 'g root_state \<Rightarrow> 'g root_state \<Rightarrow> bool" where
  "key_step kem r st st' \<longleftrightarrow> key_env (rs_env st) (rs_env st') \<and>
     (key_from kem (rs_env st) (session_deref (rs_sm st) r) \<longrightarrow>
      key_from kem (rs_env st') (session_deref (rs_sm st') r))"

lemma key_step_refl [simp]: "key_step kem r st st"
  by (simp add: key_step_def)

lemma key_step_trans: "key_step kem r st st1 \<Longrightarrow> key_step kem r st1 st2 \<Longrightarrow> key_step kem r st st2"
  using key_env_trans by (auto simp: key_step_def)

lemma key_step_simps [simp]:
  "key_step kem r st (root_log l st') = key_step kem r st st'"
  "key_step kem r st (root_impact_start cs clk n st') = key_step kem r st st'"
  "key_step kem r st (root_impact_end cs clk n b st') = key_step kem r st st'"
  "key_step kem r st (root_set_tx tx st') = key_step kem r st st'"
  by (simp_all add: key_step_def key_from_def)

lemma key_step_set:
  assumes t: "touches r st0 st'" and k: "key_step kem r st st'" "key_env (rs_env st') env"
    and s: "key_from kem (rs_env st') (session_deref (rs_sm st') r) \<Longrightarrow> key_from kem env s"
  shows "key_step kem r st (root_set_session r s (st'\<lparr>rs_env := env\<rparr>))"
proof -
  obtain i where "r = Session_Slot i" "i < length (sm_sessions (rs_sm st'))"
    using t by (auto simp: touches_def live_ref_def root_inv_def manager_inv_def)
  then show ?thesis using k s key_env_trans by (auto simp: key_step_def root_set_session_def)
qed

lemma key_step_upd:
  assumes t: "touches r st0 st'" and k: "key_step kem r st st'" and s: "same_secrets (session_deref (rs_sm st') r) s"
  shows "key_step kem r st (root_set_session r s st')"
  using key_step_set [OF t k, of "rs_env st'" s] key_from_same [OF s, of kem "rs_env st'"] by fastforce

lemma same_secrets_ops:
  "same_secrets s (session_set_peer_addr now addr s') = same_secrets s s'"
  "same_secrets s (s_metrics_update f s') = same_secrets s s'"
  "same_secrets s (session_set_pending cs a b mt mid s') = same_secrets s s'"
  "same_secrets s s"
  by (simp_all add: same_secrets_def session_ops)

lemma same_secrets_trans: "same_secrets a b \<Longrightarrow> same_secrets b c \<Longrightarrow> same_secrets a c"
  by (simp add: same_secrets_def)

lemma summary_same_secrets:
  "csv_session_summary_if_ready cs clk s = (lines, s') \<Longrightarrow> same_secrets s s'"
  by (auto simp: csv_session_summary_if_ready_def same_secrets_def session_is_established_def split: if_splits)

lemma store_metrics_same_secrets: "same_secrets s (session_store_node_metrics report s)"
  by (simp add: session_store_node_metrics_def same_secrets_def session_is_established_def)

lemma handle_temp_same_secrets:
  "pqc_handle_encrypted_temp now data len s = (m, s') \<Longrightarrow> same_secrets s s'"
  by (auto simp: pqc_handle_encrypted_temp_def Let_def same_secrets_def session_touch_def session_is_established_def
      split: if_splits option.splits)

lemma drop_and_reset_keys:
  assumes t: "touches r st0 st'" and k: "key_step kem r st st'"
  shows "key_step kem r st (root_drop_and_reset a b c sender r nid st')"
proof -
  obtain d tx where d: "pqc_tx_drop_node nid (he_tx (rs_env st')) = (d, tx)" by fastforce
  let ?s = "session_set_peer_addr c sender (session_reset a b (session_deref (rs_sm st') r))"
  have "\<not> session_is_established ?s"
    by (simp add: session_set_peer_addr_def session_touch_def session_is_established_def session_reset_fields)
  then have "key_from kem e ?s" for e by (rule key_from_idle)
  then have "key_step kem r st (root_set_session r ?s ((root_set_tx tx st')\<lparr>rs_env := rs_env (root_set_tx tx st')\<rparr>))"
    using k by (intro key_step_set [OF drop_node_touches [OF t d]]) auto
  then show ?thesis using d by (simp add: root_drop_and_reset_def Let_def root_set_tx_def)
qed

lemma start_handshake_keys:
  assumes k: "key_step kem r st st'" and t: "touches r st0 st'" and ne: "\<not> s_established (session_deref (rs_sm st') r)"
  shows "key_step kem r st (root_start_handshake kem cs clk ctx r nid st')"
proof -
  let ?s = "session_deref (rs_sm st') r"
  obtain ok s env where h: "hs_fsm_start kem cs (\<lambda>k. clk (2 + k)) (pqc_udp_send_fragment ctx) ?s (rs_env st') = (ok, s, env)"
    by (metis prod_cases3)
  have "\<not> session_is_established s"
    using hs_start_not_established [OF h] touches_live [OF t] ne by (simp add: session_is_established_def)
  then have "key_step kem r st (root_set_session r s ((root_impact_start cs clk nid st')\<lparr>rs_env := env\<rparr>))"
    using t k hs_start_key_env [OF h] by (intro key_step_set [of r st0]) (auto intro: key_from_idle)
  then show ?thesis using h by (simp add: root_start_handshake_def Let_def)
qed

lemma getpk_keys:
  assumes k: "key_step kem r st st'" and t: "touches r st0 st'"
  shows "key_step kem r st (root_rx_getpk kem cs clk ctx sender r nid mid st')"
proof -
  let ?s0 = "upd_hs (\<lambda>m. m\<lparr>mh_getpk_rx := mh_getpk_rx m + 1\<rparr>) (session_deref (rs_sm st') r)"
  let ?st0 = "root_set_session r ?s0 st'"
  have t0: "touches r st0 ?st0" using t by (intro touches_upd) (simp_all add: same_id_ops)
  have k0: "key_step kem r st ?st0" using t k by (intro key_step_upd) (simp_all add: same_secrets_ops)
  define st1 where "st1 = (if session_is_failed ?s0
       then root_drop_and_reset (clk 1) (clk 2) (clk 3) sender r nid
              (root_log [csv_event cs (clk 0) nid ''GETPK_AFTER_FAIL'' (ucast (s_retry_count ?s0)) 0 0 0] ?st0) else ?st0)"
  have t1: "touches r st0 st1" unfolding st1_def using t0 by (auto intro!: drop_and_reset_touches(1))
  have k1: "key_step kem r st st1" unfolding st1_def using t0 k0 by (auto intro!: drop_and_reset_keys [where ?st0.0 = st0])
  let ?s = "session_deref (rs_sm st1) r"
  have i: "s_state ?s = SESSION_STATE_IDLE \<Longrightarrow> \<not> s_established ?s"
    using touches_live [OF t1] by (simp add: session_inv_def)
  show ?thesis
    unfolding root_rx_getpk_def Let_def st1_def [symmetric]
    using t1 k1 i by (auto intro!: start_handshake_keys [where ?st0.0 = st0] drop_and_reset_touches(1)
        drop_and_reset_keys [where ?st0.0 = st0] simp: drop_and_reset_touches)
qed

lemma ct_start_keys:
  assumes k: "key_step kem r st st'" and t: "touches r st0 st'"
  shows "key_step kem r st (root_rx_ct_start cs clk r nid mid st')"
proof -
  let ?s = "session_deref (rs_sm st') r"
  obtain d tx where d: "pqc_tx_drop nid PQC_MSG_PK (s_pending_msg_id ?s) (he_tx (rs_env st')) = (d, tx)" by fastforce
  have "tx_inv tx"
    using tx_drop_all_spec(1) d touches_hs_inv [OF t] unfolding pqc_tx_drop_def hs_inv_def by blast
  then have "touches r st0 (root_set_tx tx st')" by (rule touches_tx [OF t])
  then show ?thesis
    unfolding root_rx_ct_start_def Let_def using d k by (auto intro!: key_step_upd [where ?st0.0 = st0] simp: same_secrets_ops)
qed

lemma temp_keys:
  assumes k: "key_step kem r st st'" and t: "touches r st0 st'"
  shows "key_step kem r st (root_rx_temp cs clk r nid mid data len st')"
  unfolding root_rx_temp_def
  by (auto split: prod.split option.split intro!: key_step_upd [OF t k] dest!: handle_temp_same_secrets)

lemma metrics_keys:
  assumes k: "key_step kem r st st'" and t: "touches r st0 st'"
  shows "key_step kem r st (root_rx_metrics cs clk r nid mid data len st')"
proof -
  have "key_step kem r st (root_set_session r s' (root_log l st'))"
    if "csv_session_summary_if_ready cs c (session_store_node_metrics report (session_deref (rs_sm st') r)) = (lines, s')"
    for c report lines s' l
    using summary_same_secrets [OF that] store_metrics_same_secrets same_secrets_trans t k
    by (intro key_step_upd [where ?st0.0 = st0]) (simp, simp, fastforce)
  then show ?thesis unfolding root_rx_metrics_def Let_def using k by (auto split: option.split prod.split)
qed

lemma handshake_keys:
  assumes z: "kem_sized kem" and k: "key_step kem r st st'" and t: "touches r st0 st'"
    and c: "ctx = \<lparr>uc_udp_conn = Some conn, uc_dest = Some dest\<rparr>"
  shows "key_step kem r st (root_rx_handshake kem cs clk ctx r was data len st')"
proof -
  let ?s = "session_deref (rs_sm st') r"
  obtain ok s env where h: "hs_fsm_handle_fragment kem cs clk (queue_send conn dest) r data len ?s (rs_env st') = (ok, s, env)"
    by (metis prod_cases3)
  have "hs_inv env \<and> session_inv s"
    using hs_handle_fragment_inv [OF z _ _ h] touches_hs_inv [OF t] touches_live [OF t] by blast
  then have t1: "touches r st0 (root_set_session r s (st'\<lparr>rs_env := env\<rparr>))" (is "touches _ _ ?st1")
    using hs_handle_same_id [OF h] touches_live [OF t] t by (intro touches_set) auto
  have "key_env (rs_env st') env" using hs_handle_same_root_key [OF h] by (simp add: same_root_key_def key_env_def)
  then have k1: "key_step kem r st ?st1"
    using hs_handle_keys [OF h] touches_live [OF t] by (intro key_step_set [OF t k]) auto
  have "key_step kem r st (root_set_session r s2 (root_impact_end cs c' n True (root_log l ?st1)))"
    if "csv_session_summary_if_ready cs c2 (session_deref (rs_sm ?st1) r) = (lines, s2)" for c' n l c2 lines s2
    using summary_same_secrets [OF that] t1 k1 by (intro key_step_upd [where ?st0.0 = st0]) auto
  then show ?thesis
    unfolding root_rx_handshake_def using h c k1 by (auto simp: Let_def split: prod.split)
qed

lemma dispatch_keys:
  assumes z: "kem_sized kem" and k: "key_step kem r st0 st" and t: "touches r st0 st"
  shows "key_step kem r st0 (root_rx_dispatch kem cs clk conn sender data len r st)"
proof -
  define st2 where "st2 = (if data ! PQC_HDR_MSG_TYPE = PQC_MSG_CT \<and>
      s_state (session_deref (rs_sm st) r) = SESSION_STATE_WAIT_CT \<and>
      s_pending_msg_type (session_deref (rs_sm st) r) = PQC_MSG_PK
    then root_rx_ct_start cs clk r (pqc_header_get_node_id data) (data ! PQC_HDR_MSG_ID) st else st)"
  have t2: "touches r st0 st2" using t ct_start_touches [OF t] by (simp add: st2_def)
  have k2: "key_step kem r st0 st2" using k ct_start_keys [OF k t] by (simp add: st2_def)
  show ?thesis
    unfolding root_rx_dispatch_def Let_def st2_def [symmetric]
    by (simp add: getpk_keys [OF k t] temp_keys [OF k2 t2] metrics_keys [OF k2 t2] handshake_keys [OF z k2 t2 refl])
qed

section \<open>Runs\<close>

text \<open>
  The program is driven by three events: a packet arrives, the retry process runs, the send process
  runs.  The readings of the clock, the addresses and the packets are arbitrary.
\<close>

inductive root_step :: "'g kem_api \<Rightarrow> u32 \<Rightarrow> 'g root_state \<Rightarrow> 'g root_state \<Rightarrow> bool" for kem cs where
  receive: "root_step kem cs st (udp_rx_callback_root kem cs clk conn sender data len st)"
| retry: "root_step kem cs st (PQC_retry_step_root cs clks conn st)"
| send: "root_step kem cs st (PQC_send_step st)"

definition root_boot :: "'g \<Rightarrow> 'g root_state" where
  "root_boot g = \<lparr>rs_sm = \<lparr>sm_manager_role = SESSION_ROLE_NODE, sm_local_session = session_zero,
     sm_sessions = replicate SESSION_MAX_NODES session_zero\<rparr>, rs_env = hs_env_boot g,
     rs_impact = impact_zero, rs_log = []\<rparr>"

inductive root_reachable :: "'g kem_api \<Rightarrow> u32 \<Rightarrow> 'g root_state \<Rightarrow> bool" for kem cs where
  boot: "root_reachable kem cs (PQC_process_init kem cs clk port (root_boot g))"
| step: "root_reachable kem cs st \<Longrightarrow> root_step kem cs st st' \<Longrightarrow> root_reachable kem cs st'"

definition keys_inv :: "'g kem_api \<Rightarrow> 'g root_state \<Rightarrow> bool" where
  "keys_inv kem st \<longleftrightarrow> (\<forall>s\<in>set (sm_sessions (rs_sm st)). key_from kem (rs_env st) s)"

lemma keys_inv_step:
  assumes k: "keys_inv kem st" and inv: "root_inv st" and t: "touches r st st'" and s: "key_step kem r st st'"
  shows "keys_inv kem st'"
proof -
  have len: "length (sm_sessions (rs_sm st)) = 10" "length (sm_sessions (rs_sm st')) = 10"
    using inv t by (auto simp: root_inv_def manager_inv_def touches_def)
  obtain i where i: "i < 10" "r = Session_Slot i" using t by (auto simp: touches_def live_ref_def)
  have "key_from kem (rs_env st') (sm_sessions (rs_sm st') ! j)" if j: "j < 10" for j
  proof (cases "j = i")
    case True
    have "key_from kem (rs_env st) (sm_sessions (rs_sm st) ! i)" using k i len by (auto simp: keys_inv_def)
    then show ?thesis using s True i by (simp add: key_step_def)
  next
    case False
    have "key_from kem (rs_env st) (sm_sessions (rs_sm st) ! j)" using k j len by (auto simp: keys_inv_def)
    then have "key_from kem (rs_env st') (sm_sessions (rs_sm st) ! j)" using s key_from_mono by (auto simp: key_step_def)
    then show ?thesis using t False i by (simp add: touches_def)
  qed
  then show ?thesis using len by (auto simp: keys_inv_def in_set_conv_nth)
qed

lemma callback_keys:
  assumes z: "kem_sized kem" and inv: "root_inv st" and k: "keys_inv kem st"
  shows "keys_inv kem (udp_rx_callback_root kem cs clk conn sender data len st)"
proof -
  obtain found sm where g: "session_manager_get_or_create (clk 0) (pqc_header_get_node_id data) (rs_sm st) = (found, sm)"
    by fastforce
  note gc = get_or_create_root_inv [OF inv g]
  let ?st0 = "st\<lparr>rs_sm := sm\<rparr>"
  have "set (sm_sessions sm) \<subseteq> insert (session_init (clk 0) SESSION_ROLE_ROOT (pqc_header_get_node_id data)) (set (sm_sessions (rs_sm st)))"
    using g set_update_subset_insert
    by (fastforce simp: session_manager_get_or_create_def sessions_get_or_create_def split: option.splits)
  then have k0: "keys_inv kem ?st0" using k by (auto simp: keys_inv_def key_from_idle dest!: subsetD)
  show ?thesis
  proof (cases "pqc_header_valid data len \<and> found \<noteq> None")
    case False
    then show ?thesis using k k0 g by (auto simp: udp_rx_callback_root_def Let_def keys_inv_def)
  next
    case True
    then obtain r where f: "found = Some r" by auto
    let ?st1 = "root_set_session r (session_set_peer_addr (clk 1) sender (session_deref sm r)) ?st0"
    have t0: "touches r ?st0 ?st0" using gc(1,2) f by (intro touches_refl) auto
    have t1: "touches r ?st0 ?st1" using t0 by (intro touches_upd) (simp_all add: same_id_ops)
    have k1: "key_step kem r ?st0 ?st1" using t0 by (intro key_step_upd [OF t0]) (simp_all add: same_secrets_ops)
    have "udp_rx_callback_root kem cs clk conn sender data len st =
        root_rx_dispatch kem cs (\<lambda>k. clk (2 + k)) conn sender data len r ?st1"
      unfolding udp_rx_callback_root_def using True g f by (simp add: Let_def)
    then show ?thesis
      using keys_inv_step [OF k0 gc(1) dispatch_touches [OF z t1] dispatch_keys [OF z k1 t1]] by simp
  qed
qed

lemma retry_session_keys:
  assumes inv: "root_inv st" and k: "keys_inv kem st" and i: "i < 10"
  shows "keys_inv kem (root_retry_session cs clk conn i st)"
proof (cases "s_used (sm_sessions (rs_sm st) ! i)")
  case False
  then show ?thesis using k retry_session_unused [OF i, of st] by simp
next
  case True
  let ?r = "Session_Slot i" and ?s = "sm_sessions (rs_sm st) ! i" and ?st' = "root_retry_session cs clk conn i st"
  have len: "i < length (sm_sessions (rs_sm st))" using inv i by (simp add: root_inv_def manager_inv_def)
  have gi: "session_manager_get_by_index (of_nat i) (rs_sm st) = Some ?r"
    using True i by (simp add: session_manager_get_by_index_def)
  have "key_step kem ?r st ?st'"
  proof (cases "session_is_established ?s \<or> \<not> s_has_peer_addr ?s")
    case True
    then show ?thesis using gi by (simp add: root_retry_session_def)
  next
    case False
    obtain ok s env where h: "hs_fsm_retry cs clk (queue_send conn (s_peer_addr ?s)) ?r ?s (rs_env st) = (ok, s, env)"
      by (metis prod_cases3)
    note hk = hs_retry_keys [OF h]
    have "\<not> session_is_established s" using hk(2) False by simp
    moreover have "\<exists>tx. sm_sessions (rs_sm ?st') ! i \<in> {s, session_reset (clk 61) (clk 62) s} \<and>
        (rs_env ?st' = env \<or> rs_env ?st' = env\<lparr>he_tx := tx\<rparr>)"
      using gi h False len
      by (auto simp: root_retry_session_def Let_def root_set_session_def split: prod.split)
    ultimately show ?thesis using hk(1) by (auto simp: key_step_def key_from_idle)
  qed
  then show ?thesis using keys_inv_step [OF k inv retry_session_touches [OF inv i True]] by blast
qed

lemma retry_step_keys:
  assumes "root_inv st" "keys_inv kem st"
  shows "keys_inv kem (PQC_retry_step_root cs clks conn st)"
proof -
  have "keys_inv kem (fold (\<lambda>i. root_retry_session cs (clks i) conn i) is st)"
    if "root_inv st" "keys_inv kem st" "\<forall>i\<in>set is. i < 10" for "is" st
    using that by (induction "is" arbitrary: st) (auto simp: retry_session_keys retry_session_step)
  from this [of st "[0..<10]"] assms show ?thesis by (simp add: PQC_retry_step_root_def)
qed

lemma root_init_inv:
  assumes "kem_sized kem"
  shows "root_inv (PQC_process_init kem cs clk port (root_boot g))" and "keys_inv kem (PQC_process_init kem cs clk port (root_boot g))"
proof -
  let ?env0 = "(hs_env_boot g)\<lparr>he_tx := pqc_tx_init (he_tx (hs_env_boot g))\<rparr>"
  let ?st = "PQC_process_init kem cs clk port (root_boot g)"
  obtain ok env where e: "hs_fsm_root_init_keypair kem ?env0 = (ok, env)" by fastforce
  have st: "rs_sm ?st = session_manager_init (clk 2) SESSION_ROLE_ROOT" "rs_env ?st = env"
    using e by (simp_all add: PQC_process_init_def Let_def root_boot_def root_set_tx_def root_log_def)
  have "hs_inv ?env0" using hs_inv_boot [of g] tx_inv_init by (simp add: hs_inv_def)
  then have "hs_inv env" by (rule hs_root_init_keypair_inv(1) [OF assms _ e])
  moreover have "\<forall>s\<in>set (sm_sessions (rs_sm ?st)). s = session_zero"
    unfolding st by (simp add: session_manager_init_def)
  moreover have "session_inv session_zero" "\<not> s_used session_zero" "key_from kem e session_zero" for e
    by (simp_all add: key_from_def session_inv_def session_zero_def session_is_established_def)
  ultimately show "root_inv ?st" "keys_inv kem ?st"
    using manager_inv_init [of "clk 2" SESSION_ROLE_ROOT] st by (auto simp: root_inv_def keys_inv_def)
qed

text \<open>Every reachable state satisfies both invariants.\<close>

lemma root_reachable_inv:
  assumes "root_reachable kem cs st" and "kem_sized kem"
  shows "root_inv st \<and> keys_inv kem st"
  using assms(1)
proof induction
  case (boot clk port g)
  then show ?case using root_init_inv [OF assms(2)] by blast
next
  case (step st st')
  from step.hyps(2) show ?case
  proof cases
    case receive
    then show ?thesis using step.IH callback_step(1) callback_keys assms(2) by metis
  next
    case retry
    then show ?thesis using step.IH retry_step_inv retry_step_keys by metis
  next
    case send
    then show ?thesis using step.IH send_step_inv by (auto simp: PQC_send_step_def keys_inv_def)
  qed
qed

section \<open>A request for the public key\<close>

lemma start_root_with_keypair:
  assumes inv: "hs_inv env" and s: "session_is_root s" "he_root_has_keypair env" and room: "36 \<le> tx_free (he_tx env)"
  shows "\<exists>s' env'. hs_fsm_start kem cs clk (queue_send conn dest) s env = (True, s', env') \<and>
    s_state s' = SESSION_STATE_WAIT_CT \<and> s_node_id s' = s_node_id s \<and> s_tx_counter s' = s_tx_counter s \<and>
    s_rx_counter s' = s_rx_counter s \<and> s_ss s' = s_ss s \<and> s_aes_key s' = s_aes_key s \<and>
    s_pending_msg_type s' = PQC_MSG_PK \<and> s_pending_msg_id s' = s_next_msg_id s \<and> he_root_pk env' = he_root_pk env \<and>
    tx_pending (he_tx env') = tx_pending (he_tx env) +
      mset (map (wire_fragment (he_root_pk env) PQC_MSG_PK (s_node_id s) (s_next_msg_id s) PQC_FLAG_NONE) [0..<36])"
proof -
  have tx: "tx_inv (he_tx env)" and l: "length (he_root_pk env) = 2249" using inv by (simp_all add: hs_inv_def)
  obtain ok tx where t: "fragment_tx (he_root_pk env) 2249 PQC_MSG_PK (s_node_id s) (s_next_msg_id s) PQC_FLAG_NONE
      (queue_send conn dest) (he_tx env) = (ok, tx)" by fastforce
  note q = fragment_tx_queue [OF tx _ _ _ t]
  have q': "ok" "tx_pending tx = tx_pending (he_tx env) +
      mset (map (wire_fragment (he_root_pk env) PQC_MSG_PK (s_node_id s) (s_next_msg_id s) PQC_FLAG_NONE) [0..<36])"
    using q room l by simp_all
  have r: "tx_has_room_for 2249 (he_tx env)" using tx room by (simp add: tx_has_room_for_iff)
  from s r t q' show ?thesis
    by (simp add: hs_fsm_start_def hs_fsm_root_init_keypair_def hs_start_send_pk_def Let_def
        hs_set_pending_for_transfer_def session_ops)
qed

text \<open>Without room for the public key the call fails and only the metrics of the session change.\<close>

lemma start_root_no_room:
  assumes inv: "hs_inv env" and s: "session_is_root s" "he_root_has_keypair env" and room: "tx_free (he_tx env) < 36"
  shows "\<exists>s' env'. hs_fsm_start kem cs clk (queue_send conn dest) s env = (False, s', env') \<and>
    s_state s' = s_state s \<and> s_tx_counter s' = s_tx_counter s \<and> s_rx_counter s' = s_rx_counter s \<and> s_ss s' = s_ss s \<and>
    s_aes_key s' = s_aes_key s \<and> he_tx env' = he_tx env"
proof -
  have "\<not> tx_has_room_for 2249 (he_tx env)" using inv room by (simp add: hs_inv_def tx_has_room_for_iff)
  with s show ?thesis by (simp add: hs_fsm_start_def hs_fsm_root_init_keypair_def hs_start_send_pk_def Let_def)
qed

text \<open>The packets of the queue that are not for a node.\<close>

definition tx_pending_others :: "u16 \<Rightarrow> tx_state \<Rightarrow> u8 list multiset" where
  "tx_pending_others nid tx = mset (map tx_packet (filter (\<lambda>e. te_active e \<and> te_node_id e \<noteq> nid) (tx_queue tx)))"

lemma drop_node_pending:
  assumes "tx_inv tx" and "pqc_tx_drop_node nid tx = (d, tx')"
  shows "tx_inv tx'" and "tx_pending tx' = tx_pending_others nid tx" and "tx_free tx' = 96 - size (tx_pending_others nid tx)"
proof -
  note sp = tx_drop_all_spec [OF assms(1) assms(2) [unfolded pqc_tx_drop_node_def]]
  show "tx_inv tx'" by (rule sp)
  have "map tx_packet (filter te_active (map (tx_kept (\<lambda>e. te_node_id e = nid)) q)) =
      map tx_packet (filter (\<lambda>e. te_active e \<and> te_node_id e \<noteq> nid) q)" for q
    by (induction q) (auto simp: tx_kept_def)
  then show p: "tx_pending tx' = tx_pending_others nid tx" using sp(2) by (simp add: tx_pending_def tx_pending_others_def)
  show "tx_free tx' = 96 - size (tx_pending_others nid tx)" using size_tx_pending [OF sp(1)] p by (simp add: tx_free_def)
qed

lemma getpk_restart_step:
  assumes t: "touches r st0 st" and k: "he_root_has_keypair (rs_env st)" and nid: "s_node_id (session_deref (rs_sm st) r) = nid"
    and s: "s_state (session_deref (rs_sm st) r) = SESSION_STATE_WAIT_CT \<or> session_is_established (session_deref (rs_sm st) r)"
    and c: "ctx = \<lparr>uc_udp_conn = Some conn, uc_dest = Some dest\<rparr>"
    and st': "st' = root_rx_getpk kem cs clk ctx sender r nid mid st"
  shows "s_ss (session_deref (rs_sm st') r) = replicate 64 0 \<and> s_aes_key (session_deref (rs_sm st') r) = replicate 32 0 \<and>
    s_tx_counter (session_deref (rs_sm st') r) = 0 \<and> s_rx_counter (session_deref (rs_sm st') r) = 0 \<and>
    (if size (tx_pending_others nid (he_tx (rs_env st))) \<le> 60
     then s_state (session_deref (rs_sm st') r) = SESSION_STATE_WAIT_CT \<and>
       tx_pending (he_tx (rs_env st')) = tx_pending_others nid (he_tx (rs_env st)) +
         mset (map (wire_fragment (he_root_pk (rs_env st)) PQC_MSG_PK nid 0 PQC_FLAG_NONE) [0..<36])
     else s_state (session_deref (rs_sm st') r) = SESSION_STATE_IDLE \<and>
       tx_pending (he_tx (rs_env st')) = tx_pending_others nid (he_tx (rs_env st)))"
proof -
  let ?s = "session_deref (rs_sm st) r"
  let ?s0 = "upd_hs (\<lambda>m. m\<lparr>mh_getpk_rx := mh_getpk_rx m + 1\<rparr>) ?s"
  let ?st0 = "root_set_session r ?s0 st"
  have t0: "touches r st0 ?st0" using t by (intro touches_upd) (simp_all add: same_id_ops)
  have d0: "session_deref (rs_sm ?st0) r = ?s0" using t by (simp add: touches_def)
  have nf: "\<not> session_is_failed ?s0" "s_state ?s0 \<noteq> SESSION_STATE_IDLE"
    and w: "s_state ?s0 = SESSION_STATE_WAIT_CT \<or> session_is_established ?s0"
    using s by (auto simp: session_is_failed_def session_is_established_def)
  define st1 where "st1 = root_log [csv_event cs (clk 4) nid ''GETPK_RESTART''
      (of_nat (session_state_code (s_state ?s0))) (ucast mid) 0 0] ?st0"
  define st2 where "st2 = root_drop_and_reset (clk 5) (clk 6) (clk 7) sender r nid st1"
  have t1: "touches r st0 st1" using t0 by (simp add: st1_def)
  note t2 = drop_and_reset_touches(1) [OF t1, of "clk 5" "clk 6" "clk 7" sender nid, folded st2_def]
  have st'2: "st' = root_start_handshake kem cs (\<lambda>k. clk (8 + k)) ctx r nid st2"
    unfolding st' root_rx_getpk_def Let_def using nf w d0 by (simp add: st2_def st1_def)
  obtain d tx where d: "pqc_tx_drop_node nid (he_tx (rs_env st)) = (d, tx)" by fastforce
  have "tx_inv (he_tx (rs_env st))" using touches_hs_inv [OF t] by (simp add: hs_inv_def)
  note dn = drop_node_pending [OF this d]
  have d1: "session_deref (rs_sm st1) r = ?s0" "rs_env st1 = rs_env st" using d0 by (simp_all add: st1_def)
  let ?s2 = "session_set_peer_addr (clk 7) sender (session_reset (clk 5) (clk 6) ?s0)"
  have "st2 = root_set_session r ?s2 (root_set_tx tx st1)"
    using d d1 by (simp add: st2_def root_drop_and_reset_def Let_def)
  then have e2: "session_deref (rs_sm st2) r = ?s2" "rs_env st2 = (rs_env st)\<lparr>he_tx := tx\<rparr>"
    using t1 d1 root_deref_set [of "root_set_tx tx st1" r ?s2] root_inv_tx [of st1 tx] dn(1) by (auto simp: touches_def)
  have f2: "session_is_root ?s2" "s_node_id ?s2 = nid" "s_state ?s2 = SESSION_STATE_IDLE" "s_tx_counter ?s2 = 0" "s_rx_counter ?s2 = 0" "s_ss ?s2 = replicate 64 0"
    "s_aes_key ?s2 = replicate 32 0" "s_next_msg_id ?s2 = 0"
    using touches_live [OF t] nid
    by (simp_all add: session_set_peer_addr_def session_touch_def session_reset_fields session_is_root_def)
  have fr: "tx_free (he_tx (rs_env st2)) = 96 - size (tx_pending_others nid (he_tx (rs_env st)))" using dn(3) e2 by simp
  have hs2: "hs_inv (rs_env st2)" "he_root_has_keypair (rs_env st2)" using touches_hs_inv [OF t2] k e2(2) by simp_all
  have deref: "session_deref (rs_sm (root_set_session r s' ((root_impact_start cs (\<lambda>k. clk (8 + k)) nid st2)\<lparr>rs_env := env'\<rparr>))) r = s'" for s' env'
    using t2 by (auto simp: touches_def live_ref_def root_inv_def manager_inv_def root_set_session_def)
  show ?thesis
  proof (cases "size (tx_pending_others nid (he_tx (rs_env st))) \<le> 60")
    case True
    then have "36 \<le> tx_free (he_tx (rs_env st2))" using fr by simp
    from start_root_with_keypair [OF hs2(1) f2(1) hs2(2) this, of kem cs "\<lambda>k. clk (8 + (2 + k))" conn dest] obtain s' env' where
        h: "hs_fsm_start kem cs (\<lambda>k. clk (8 + (2 + k))) (queue_send conn dest) ?s2 (rs_env st2) = (True, s', env')"
      "s_state s' = SESSION_STATE_WAIT_CT" "s_tx_counter s' = 0" "s_rx_counter s' = 0" "s_ss s' = replicate 64 0"
      "s_aes_key s' = replicate 32 0"
      "tx_pending (he_tx env') = tx_pending tx +
        mset (map (wire_fragment (he_root_pk (rs_env st)) PQC_MSG_PK nid 0 PQC_FLAG_NONE) [0..<36])"
      using f2 e2(2) by auto
    have "st' = root_set_session r s' ((root_impact_start cs (\<lambda>k. clk (8 + k)) nid st2)\<lparr>rs_env := env'\<rparr>)"
      unfolding st'2 root_start_handshake_def Let_def using h(1) e2(1) c by simp
    with deref True h dn(2) show ?thesis by simp
  next
    case False
    then have "tx_free (he_tx (rs_env st2)) < 36" using fr by simp
    from start_root_no_room [OF hs2(1) f2(1) hs2(2) this, of kem cs "\<lambda>k. clk (8 + (2 + k))" conn dest] obtain s' env' where
        h: "hs_fsm_start kem cs (\<lambda>k. clk (8 + (2 + k))) (queue_send conn dest) ?s2 (rs_env st2) = (False, s', env')"
      "s_state s' = SESSION_STATE_IDLE" "s_tx_counter s' = 0" "s_rx_counter s' = 0" "s_ss s' = replicate 64 0"
      "s_aes_key s' = replicate 32 0" "he_tx env' = tx"
      using f2 e2(2) by auto
    have "st' = root_impact_end cs (\<lambda>k. clk (8 + (20 + k))) nid False
        (root_set_session r s' ((root_impact_start cs (\<lambda>k. clk (8 + k)) nid st2)\<lparr>rs_env := env'\<rparr>))"
      unfolding st'2 root_start_handshake_def Let_def using h(1) e2(1) c by simp
    with deref False h dn(2) show ?thesis by simp
  qed
qed

section \<open>Properties\<close>

text \<open>A request for the public key from a node, and a root with one session, for node 7, that waits for a ciphertext.\<close>

definition getpk_packet :: "u16 \<Rightarrow> u8 list" where
  "getpk_packet nid = pqc_header_write (replicate PQC_HEADER_LEN 0) PQC_MSG_GETPK nid 0 0 1 0 PQC_FLAG_NONE"

definition root_example :: "unit root_state" where
  "root_example = \<lparr>rs_sm = \<lparr>sm_manager_role = SESSION_ROLE_ROOT, sm_local_session = session_zero,
       sm_sessions = session_set_wait_ct (session_init 0 SESSION_ROLE_ROOT 7) # replicate 9 session_zero\<rparr>,
     rs_env = (hs_env_boot ())\<lparr>he_root_has_keypair := True\<rparr>, rs_impact = impact_zero, rs_log = []\<rparr>"

lemma getpk_packet_fields: "pqc_header_valid (getpk_packet nid) 10" "getpk_packet nid ! 1 = PQC_MSG_GETPK"
  "pqc_header_get_node_id (getpk_packet nid) = nid"
  using header_write_fields [OF _ refl, of "replicate 10 0" PQC_MSG_GETPK nid 0 0 1 0 PQC_FLAG_NONE]
  by (auto simp: getpk_packet_def intro!: header_valid_append)

lemma root_example_inv: "root_inv root_example"
proof -
  let ?s = "session_set_wait_ct (session_init 0 SESSION_ROLE_ROOT 7)"
  have "session_table.keys_distinct (?s # replicate 9 session_zero)"
    by (auto simp: session_table.keys_distinct_def nth_Cons session_zero_def split: nat.splits)
  moreover have "hs_inv ((hs_env_boot ())\<lparr>he_root_has_keypair := True\<rparr>)" using hs_inv_boot [of "()"] by (simp add: hs_inv_def)
  moreover have "session_inv ?s" "session_inv session_zero" "s_role ?s = SESSION_ROLE_ROOT" "\<not> s_used session_zero"
    by (simp_all add: session_inv_def session_ops session_zero_def)
  ultimately show ?thesis by (simp add: root_inv_def manager_inv_def root_example_def)
qed

text \<open>
  C3.  The root program keeps its data well formed: in every state it can reach, whatever packets come and
  whenever the timers run, the session table has ten slots with at most one per node, every session
  satisfies its invariant (established flag and state agree, at most three repetitions, key sizes), every
  used session has the role of the root, the transmit queue counts its active slots, and the two reassembly
  slots belong to different sessions and have consistent contexts.
\<close>

theorem root_program_invariant:
  assumes "root_reachable kem cs st" and "kem_sized kem"
  shows "manager_inv (rs_sm st) \<and> hs_inv (rs_env st) \<and>
    (\<forall>s\<in>set (sm_sessions (rs_sm st)). session_inv s \<and> (s_used s \<longrightarrow> session_is_root s))"
  using root_reachable_inv [OF assms] by (auto simp: root_inv_def session_is_root_def)

theorem root_program_invariant_witness:
  "let st = udp_rx_callback_root constant_kem 128 (\<lambda>k. 0) 0 5 (getpk_packet 7) 10
              (PQC_process_init constant_kem 128 (\<lambda>k. 0) 5678 (root_boot ()))
   in manager_inv (rs_sm st) \<and> hs_inv (rs_env st)"
proof -
  have "root_reachable constant_kem 128 (udp_rx_callback_root constant_kem 128 (\<lambda>k. 0) 0 5 (getpk_packet 7) 10
      (PQC_process_init constant_kem 128 (\<lambda>k. 0) 5678 (root_boot ())))"
    by (rule root_reachable.step [OF root_reachable.boot root_step.receive])
  from root_program_invariant [OF this constant_kem_sized] show ?thesis by (simp add: Let_def)
qed

text \<open>
  C6.  A packet touches one session only: whatever the packet is, a used session of another node than the
  one named in its header is afterwards exactly what it was.
\<close>

theorem packet_touches_one_session:
  assumes "kem_sized kem" and "root_inv st" and "i < 10" and "s_used (sm_sessions (rs_sm st) ! i)"
    and "s_node_id (sm_sessions (rs_sm st) ! i) \<noteq> pqc_header_get_node_id data"
  shows "sm_sessions (rs_sm (udp_rx_callback_root kem cs clk conn sender data len st)) ! i = sm_sessions (rs_sm st) ! i"
  by (rule callback_step(2) [OF assms])

theorem packet_touches_one_session_witness:
  "sm_sessions (rs_sm (udp_rx_callback_root constant_kem 128 (\<lambda>k. 0) 0 5 (getpk_packet 8) 10 root_example)) ! 0 =
     session_set_wait_ct (session_init 0 SESSION_ROLE_ROOT 7)"
proof -
  have z: "sm_sessions (rs_sm root_example) ! 0 = session_set_wait_ct (session_init 0 SESSION_ROLE_ROOT 7)"
    by (simp add: root_example_def)
  then show ?thesis
    using packet_touches_one_session [OF constant_kem_sized root_example_inv, of 0 "getpk_packet 8" 128 "\<lambda>k. 0" 0 5 10]
    by (simp add: getpk_packet_fields session_ops)
qed

text \<open>
  C7.  A request for the public key restarts the handshake from scratch: when it comes for a session that
  waits for a ciphertext or is established, at a root that has its key pair (it makes one at start-up), the
  session forgets its keys and counters, the packets queued for that node are dropped and those of the
  other nodes stay.  If this leaves room in the queue for the 36 fragments of the public key (at most 60
  packets for other nodes), exactly these are queued for the node and the session waits for a new
  ciphertext; otherwise nothing is queued for it and the session is idle, so that the node's next request
  is accepted as a first one.
\<close>

theorem getpk_restarts_handshake:
  assumes inv: "root_inv st" and p: "pqc_header_valid data len" "data ! PQC_HDR_MSG_TYPE = PQC_MSG_GETPK"
      "pqc_header_get_node_id data = nid" "session_manager_find nid (rs_sm st) = Some r"
    and s: "s_state (session_deref (rs_sm st) r) = SESSION_STATE_WAIT_CT \<or> session_is_established (session_deref (rs_sm st) r)"
    and k: "he_root_has_keypair (rs_env st)"
    and st': "st' = udp_rx_callback_root kem cs clk conn sender data len st"
  shows "s_ss (session_deref (rs_sm st') r) = replicate 64 0 \<and> s_aes_key (session_deref (rs_sm st') r) = replicate 32 0 \<and>
    s_tx_counter (session_deref (rs_sm st') r) = 0 \<and> s_rx_counter (session_deref (rs_sm st') r) = 0 \<and>
    (if size (tx_pending_others nid (he_tx (rs_env st))) \<le> 60
     then s_state (session_deref (rs_sm st') r) = SESSION_STATE_WAIT_CT \<and>
       tx_pending (he_tx (rs_env st')) = tx_pending_others nid (he_tx (rs_env st)) +
         mset (map (wire_fragment (he_root_pk (rs_env st)) PQC_MSG_PK nid 0 PQC_FLAG_NONE) [0..<36])
     else s_state (session_deref (rs_sm st') r) = SESSION_STATE_IDLE \<and>
       tx_pending (he_tx (rs_env st')) = tx_pending_others nid (he_tx (rs_env st)))"
proof -
  obtain i where i: "r = Session_Slot i" "sessions_find nid (sm_sessions (rs_sm st)) = Some i"
    using p(4) by (auto simp: session_manager_find_def)
  note l = session_table.lookup_Some [OF i(2)]
  have len: "length (sm_sessions (rs_sm st)) = 10" using inv by (simp add: root_inv_def manager_inv_def)
  have g: "session_manager_get_or_create (clk 0) nid (rs_sm st) = (Some r, rs_sm st)"
    using i session_table.acquire_hit [OF i(2)] by (simp add: session_manager_get_or_create_def)
  let ?s1 = "session_set_peer_addr (clk 1) sender (session_deref (rs_sm st) r)"
  let ?st1 = "root_set_session r ?s1 st"
  have t0: "touches r st st" using inv l i len by (intro touches_refl) (auto simp: live_ref_def)
  have t1: "touches r st ?st1" using t0 by (intro touches_upd) (simp_all add: same_id_ops)
  have d1: "session_deref (rs_sm ?st1) r = ?s1" using t0 by (simp add: touches_def)
  have "st' = root_rx_getpk kem cs (\<lambda>k. clk (2 + k)) \<lparr>uc_udp_conn = Some conn, uc_dest = Some sender\<rparr> sender r nid (data ! PQC_HDR_MSG_ID) ?st1"
    unfolding st' udp_rx_callback_root_def root_rx_dispatch_def Let_def using p(1-3) g by simp
  moreover have e1: "rs_env ?st1 = rs_env st" by simp
  moreover have "s_node_id (session_deref (rs_sm ?st1) r) = nid"
    "s_state (session_deref (rs_sm ?st1) r) = SESSION_STATE_WAIT_CT \<or> session_is_established (session_deref (rs_sm ?st1) r)"
    using d1 s l i by (simp_all add: session_set_peer_addr_def session_touch_def session_is_established_def)
  ultimately show ?thesis using getpk_restart_step [OF t1 _ _ _ refl] k unfolding e1 by blast
qed

theorem getpk_restarts_handshake_witness:
  "let st' = udp_rx_callback_root constant_kem 128 (\<lambda>k. 0) 0 5 (getpk_packet 7) 10 root_example
   in s_state (session_deref (rs_sm st') (Session_Slot 0)) = SESSION_STATE_WAIT_CT \<and>
      tx_pending (he_tx (rs_env st')) =
        mset (map (wire_fragment (replicate 2249 0) PQC_MSG_PK 7 0 PQC_FLAG_NONE) [0..<36])"
proof -
  have f: "session_manager_find 7 (rs_sm root_example) = Some (Session_Slot 0)"
    "s_state (session_deref (rs_sm root_example) (Session_Slot 0)) = SESSION_STATE_WAIT_CT"
    "he_root_has_keypair (rs_env root_example)" "he_root_pk (rs_env root_example) = replicate 2249 0" "tx_pending_others 7 (he_tx (rs_env root_example)) = {#}"
    by (simp_all add: root_example_def session_manager_find_def sessions_find_def first_index_def session_ops hs_env_boot_def
        tx_free_def tx_pending_others_def upt_conv_Cons)
  from getpk_restarts_handshake [OF root_example_inv getpk_packet_fields(1) _ getpk_packet_fields(3) f(1) _ f(3) refl,
      of constant_kem 128 "\<lambda>k. 0" 0 5] f(2,4,5) getpk_packet_fields(2)
  show ?thesis by (simp add: Let_def)
qed

end
