(* ===== verification/Handshake_Agreement.thy ===== *)
theory Handshake_Agreement
  imports Handshake_Steps
begin

text \<open>
  The handshake from end to end: what each completed message does to the session that receives it,
  and that the two sides agree on the shared secret.
\<close>

section \<open>Completed messages\<close>

lemma hs_release_fields [simp]:
  "he_tx (hs_release self env) = he_tx env" "he_root_pk (hs_release self env) = he_root_pk env"
  "he_root_sk (hs_release self env) = he_root_sk env" "he_node_ct (hs_release self env) = he_node_ct env"
  "he_root_ct (hs_release self env) = he_root_ct env" "he_prng (hs_release self env) = he_prng env"
  "he_root_has_keypair (hs_release self env) = he_root_has_keypair env"
  "he_rx_slots (hs_release self env) = rx_slot_release self (he_rx_slots env)"
  by (simp_all add: hs_release_def)

text \<open>
  What a session is after the node has encapsulated: it waits for the acknowledgement of a ciphertext
  whose 71 fragments are queued, and holds the secret and the key derived from it.
\<close>

definition node_awaits_ack :: "session_t \<Rightarrow> u8 list \<Rightarrow> session_t \<Rightarrow> bool" where
  "node_awaits_ack s ss s' \<longleftrightarrow> s_state s' = SESSION_STATE_WAIT_ACK \<and> s_role s' = s_role s \<and>
     s_node_id s' = s_node_id s \<and> s_established s' = s_established s \<and> s_ss s' = ss \<and>
     s_aes_key s' = crypto_worker_derive_aes_key ss \<and> s_pending_msg_type s' = PQC_MSG_CT \<and>
     s_pending_msg_id s' = s_next_msg_id s \<and> s_waiting_response s' \<and> s_retry_count s' = 0 \<and>
     s_tx_counter s' = s_tx_counter s \<and> s_rx_counter s' = s_rx_counter s"

lemma hs_node_complete_pk_ok:
  assumes inv: "hs_inv env" and rx: "unat (fragment_rx_len rx) = 2249" "take 2249 (rx_buffer rx) = pk"
    and enc: "crypto_kem_enc kem pk (he_prng env) = ((0, ct, ss), g)" "length ct = 4481"
    and room: "71 \<le> tx_free (he_tx env)"
  shows "\<exists>s' env'. hs_node_complete_pk kem cs clk (queue_send conn dest) self rx s env = (True, s', env') \<and>
    node_awaits_ack s ss s' \<and> tx_inv (he_tx env') \<and> he_node_ct env' = ct \<and> he_prng env' = g \<and>
    he_rx_slots env' = rx_slot_release self (he_rx_slots env) \<and>
    tx_pending (he_tx env') = tx_pending (he_tx env) +
      mset (map (wire_fragment ct PQC_MSG_CT (s_node_id s) (s_next_msg_id s) PQC_FLAG_NONE) [0..<71])"
proof -
  have tx: "tx_inv (he_tx env)" using inv by (simp add: hs_inv_def)
  obtain ok tx where t: "fragment_tx ct 4481 PQC_MSG_CT (s_node_id s) (s_next_msg_id s) PQC_FLAG_NONE
      (queue_send conn dest) (he_tx env) = (ok, tx)" by fastforce
  note q = fragment_tx_queue [OF tx _ _ _ t]
  have q': "ok" "tx_inv tx" "tx_pending tx = tx_pending (he_tx env) +
      mset (map (wire_fragment ct PQC_MSG_CT (s_node_id s) (s_next_msg_id s) PQC_FLAG_NONE) [0..<71])"
    using q room enc(2) by simp_all
  have r: "tx_has_room_for 4481 (he_tx env)" using tx room by (simp add: tx_has_room_for_iff)
  have e: "crypto_worker_encapsulate kem pk (he_prng env) = (True, ct, ss, g)"
    using enc(1) by (simp add: crypto_worker_encapsulate_def)
  show ?thesis
    using rx e r t q'
    by (simp add: hs_node_complete_pk_def hs_node_send_ct_def Let_def node_awaits_ack_def
        hs_set_pending_for_transfer_def session_ops)
qed

text \<open>The root, established: it holds the decapsulated secret, and nothing is pending.\<close>

definition root_established :: "session_t \<Rightarrow> u8 list \<Rightarrow> session_t \<Rightarrow> bool" where
  "root_established s ss s' \<longleftrightarrow> session_is_established s' \<and> s_role s' = s_role s \<and> s_node_id s' = s_node_id s \<and>
     s_ss s' = ss \<and> s_aes_key s' = crypto_worker_derive_aes_key ss \<and> \<not> s_waiting_response s' \<and>
     s_tx_counter s' = s_tx_counter s \<and> s_rx_counter s' = s_rx_counter s"

lemma root_established_core: "same_core s1 s2 \<Longrightarrow> root_established s ss s1 \<Longrightarrow> root_established s ss s2"
  by (simp add: root_established_def same_core_fields session_is_established_def)

lemma hs_root_complete_ct_ok:
  assumes inv: "hs_inv env" and rx: "unat (fragment_rx_len rx) = 4481" "take 4481 (rx_buffer rx) = ct" "length (rx_buffer rx) = 4608"
    and s: "s_state s = SESSION_STATE_WAIT_CT" "he_root_has_keypair env"
    and dec: "crypto_kem_dec kem ct (he_root_sk env) = (0, ss)"
    and room: "0 < tx_free (he_tx env)"
  shows "\<exists>s' env'. hs_root_complete_ct kem clk (queue_send conn dest) self rx msg_id s env = (True, s', env') \<and>
    root_established s ss s' \<and> tx_inv (he_tx env') \<and> he_root_ct env' = replicate 4481 0 \<and>
    he_rx_slots env' = rx_slot_release self (he_rx_slots env) \<and>
    tx_pending (he_tx env') = add_mset
      (wire_fragment [msg_id] PQC_MSG_ACK (s_node_id s) (s_next_msg_id s) PQC_FLAG_NONE 0) (tx_pending (he_tx env))"
proof -
  have tx: "tx_inv (he_tx env)" and l: "length (he_root_ct env) = 4481" using inv by (auto simp: hs_inv_def)
  have ct: "memcpy_at (he_root_ct env) 0 ct = ct"
  proof -
    have "length ct = 4481" using rx(2,3) by auto
    then show ?thesis using l by (simp add: memcpy_at_def)
  qed
  have d: "crypto_worker_decapsulate kem (he_root_sk env) ct = (True, ss)"
    using dec by (simp add: crypto_worker_decapsulate_def)
  have A: "\<exists>s' tx'. send_ack (queue_send conn dest) msg_id s0 (he_tx env) = (True, s', tx') \<and>
      root_established s ss s' \<and> tx_inv tx' \<and> tx_pending tx' = add_mset
        (wire_fragment [msg_id] PQC_MSG_ACK (s_node_id s) (s_next_msg_id s) PQC_FLAG_NONE 0) (tx_pending (he_tx env))"
    if r: "root_established s ss s0" "s_next_msg_id s0 = s_next_msg_id s" for s0
  proof -
    obtain ok s' tx' where a: "send_ack (queue_send conn dest) msg_id s0 (he_tx env) = (ok, s', tx')" by (metis prod_cases3)
    note sp = send_ack_spec [OF tx a]
    have ok: "ok" using sp(3) room by simp
    have "s_node_id s0 = s_node_id s" using r(1) by (simp add: root_established_def)
    then show ?thesis using a sp ok root_established_core [OF sp(2) r(1)] r(2) by simp
  qed
  define s1 where "s1 = (let s = upd_hs (\<lambda>m. m\<lparr>mh_ct_rx_complete := mh_ct_rx_complete m + 1\<rparr>) s;
            s = upd_hs (\<lambda>m. m\<lparr>mh_ct_rx_completed_at := clk 1\<rparr>) s
         in upd_hs (\<lambda>m. if mh_ct_rx_started_at m \<noteq> 0
                            then m\<lparr>mh_ct_rx_ticks_last := pqc_metrics_elapsed_since (clk 2) (mh_ct_rx_started_at m)\<rparr>
                            else m) s)"
  define s2 where "s2 = (let s = s1\<lparr>s_ss := ss\<rparr>;
                 s = upd_hs (\<lambda>m. m\<lparr>mh_decaps_ticks_last := clk (3 + 3) - clk (3 + 1)\<rparr>) s;
                 s = s\<lparr>s_aes_key := crypto_worker_derive_aes_key (s_ss s)\<rparr>;
                 s = session_set_established s
              in s\<lparr>s_metrics := pqc_metrics_handshake_success (clk (3 + 4)) (s_metrics s)\<rparr>)"
  have r2: "root_established s ss s2" "s_next_msg_id s2 = s_next_msg_id s"
    by (simp_all add: root_established_def s2_def s1_def Let_def session_ops)
  obtain s' tx' where a: "send_ack (queue_send conn dest) msg_id s2 (he_tx env) = (True, s', tx')" "root_established s ss s'"
      "tx_inv tx'" "tx_pending tx' = add_mset
        (wire_fragment [msg_id] PQC_MSG_ACK (s_node_id s) (s_next_msg_id s) PQC_FLAG_NONE 0) (tx_pending (he_tx env))"
    using A [OF r2] by blast
  have "s_state s1 = SESSION_STATE_WAIT_CT" "\<not> session_is_established s1"
    using s by (simp_all add: s1_def session_is_established_def Let_def)
  then have "hs_root_complete_ct kem clk (queue_send conn dest) self rx msg_id s env =
      (True, s', (hs_release self (env\<lparr>he_root_ct := ct\<rparr>))\<lparr>he_root_ct := replicate (length ct) 0, he_tx := tx'\<rparr>)"
    using rx s ct d a(1)
    unfolding hs_root_complete_ct_def s1_def [unfolded Let_def, symmetric] Let_def hs_root_accept_ct_def s2_def
    by (simp add: hs_fsm_root_has_keypair_def)
  then show ?thesis using a l rx by auto
qed

lemma hs_node_complete_ack_ok:
  assumes "unat (fragment_rx_len rx) = 1" "take 1 (rx_buffer rx) = [mid]" "fragment_rx_data rx = Some (rx_buffer rx)"
    and "s_pending_msg_id s = mid"
  shows "\<exists>s' env'. hs_node_complete_ack clk self rx s env = (True, s', env') \<and> session_is_established s' \<and>
    s_role s' = s_role s \<and> s_node_id s' = s_node_id s \<and> s_ss s' = s_ss s \<and> s_aes_key s' = s_aes_key s \<and>
    \<not> s_waiting_response s' \<and> s_tx_counter s' = s_tx_counter s \<and> s_rx_counter s' = s_rx_counter s \<and>
    he_node_ct env' = replicate (length (he_node_ct env)) 0 \<and> he_tx env' = he_tx env \<and>
    he_rx_slots env' = rx_slot_release self (he_rx_slots env)"
proof -
  have "rx_buffer rx ! 0 = mid" using assms(2) by (cases "rx_buffer rx") auto
  with assms show ?thesis
    by (simp add: hs_node_complete_ack_def Let_def session_ops)
qed

section \<open>Complete messages arriving\<close>

text \<open>
  A run of events that delivers a message: its last event is the arrival of the last missing fragment,
  and the slot does not time out.
\<close>

definition delivers :: "u32 \<Rightarrow> u8 list \<Rightarrow> frag_event list \<Rightarrow> bool" where
  "delivers cs data evs \<longleftrightarrow> evs \<noteq> [] \<and> last evs \<noteq> Send_Tick \<and> arrived evs = {..<frag_count data} \<and>
     arrived (butlast evs) \<noteq> {..<frag_count data} \<and> all_in_time cs (arrival_start evs) evs"

definition slot_available :: "session_ref \<Rightarrow> hs_rx_slot_t list \<Rightarrow> bool" where
  "slot_available self slots \<longleftrightarrow> rx_slot_find self slots = None \<and> (\<exists>k<length slots. \<not> sl_active (slots ! k))"

lemma arrived_append: "arrived (a @ b) = arrived a \<union> arrived b"
  by (induction a) (auto split: frag_event.split)

lemma all_in_time_append: "all_in_time cs t (a @ b) = (all_in_time cs t a \<and> all_in_time cs t b)"
  by (induction a) auto

lemma frag_run_snoc:
  "frag_run kem cs send self data mt nid mid (evs @ [e]) se =
     frag_step kem cs send self data mt nid mid e (frag_run kem cs send self data mt nid mid evs se)"
  by (simp add: frag_run_def)

lemma deliversE:
  assumes "delivers cs data evs"
  obtains evs' clk fl i where "evs = evs' @ [Arrive clk fl i]" "arrived evs' = {..<frag_count data} - {i}"
    "i < frag_count data" "all_in_time cs (arrival_start evs) evs'" "in_time cs (arrival_start evs) clk"
proof -
  obtain evs' e where e: "evs = evs' @ [e]" using assms by (metis delivers_def append_butlast_last_id)
  then obtain clk fl i where a: "e = Arrive clk fl i" using assms by (cases e) (auto simp: delivers_def)
  have n: "insert i (arrived evs') = {..<frag_count data}" "arrived evs' \<noteq> {..<frag_count data}"
    using assms unfolding e a delivers_def by (simp_all add: arrived_append)
  have "i \<notin> arrived evs'" using n by (metis insert_absorb)
  then have "arrived evs' = {..<frag_count data} - {i}" unfolding n(1) [symmetric] by simp
  moreover have "i < frag_count data" using n(1) by (metis insertI1 lessThan_iff)
  moreover have "all_in_time cs (arrival_start evs) evs'" "in_time cs (arrival_start evs) clk"
    using assms unfolding delivers_def by (simp_all add: e a all_in_time_append)
  ultimately show thesis using that e a by blast
qed

lemma slot_available_release:
  assumes "rx_slots_inv slots" "rx_slot_find self slots \<noteq> None"
  shows "slot_available self (rx_slot_release self slots)"
proof -
  obtain i where i: "rx_slot_find self slots = Some i" using assms(2) by auto
  then have "i < length slots" by (auto dest: rx_table.lookup_Some)
  then have "\<exists>k<length slots. \<not> sl_active (rx_slot_release self slots ! k) \<and> length (rx_slot_release self slots) = length slots"
    using i by (auto simp: rx_slot_release_def)
  then show ?thesis using rx_slot_release_find [OF assms(1)] by (auto simp: slot_available_def)
qed

text \<open>
  The last missing fragment hands the whole message to the handler of its type, whatever order the
  fragments came in and however often; until then the session is unchanged in its core.
\<close>

lemma frag_run_completes:
  assumes len: "0 < length data" "length data \<le> 4608" and inv: "hs_inv env" and dl: "delivers cs data evs"
    and free: "slot_available self (he_rx_slots env)" and p: "hs_passes mt nid s"
    and run: "frag_run kem cs (queue_send conn dest) self data mt nid mid (butlast evs) (s, env) = (s1, env1)"
  shows "\<exists>s2 slots rx clk i.
      frag_run kem cs (queue_send conn dest) self data mt nid mid evs (s, env) =
      snd (hs_complete_message kem cs clk (queue_send conn dest) self rx (wire_hdr data mt nid mid i) s2
        (env1\<lparr>he_rx_slots := slots\<rparr>)) \<and>
      same_core s s2 \<and> same_keys env env1 \<and> hs_inv (env1\<lparr>he_rx_slots := slots\<rparr>) \<and> s_next_msg_id s2 = s_next_msg_id s1 \<and>
      rx_slots_inv slots \<and> rx_slot_find self slots \<noteq> None \<and> take (length data) (rx_buffer rx) = data \<and>
      unat (fragment_rx_len rx) = length data \<and> fragment_rx_data rx = Some (rx_buffer rx) \<and> length (rx_buffer rx) = 4608"
proof -
  obtain evs' clk fl i where evs: "evs = evs' @ [Arrive clk fl i]" "arrived evs' = {..<frag_count data} - {i}"
      "i < frag_count data" and t: "all_in_time cs (arrival_start evs) evs'" "in_time cs (arrival_start evs) clk"
    using deliversE [OF dl] by blast
  let ?t0 = "arrival_start evs"
  have hold: "hs_holding self mt nid mid data {} ?t0 (he_rx_slots env)" using free by (simp add: hs_holding_def slot_available_def)
  have sub: "{} \<union> arrived evs' \<subset> {..<frag_count data}" using evs by auto
  have run': "frag_run kem cs (queue_send conn dest) self data mt nid mid evs' (s, env) = (s1, env1)"
    using run evs(1) by simp
  have c: "same_core s s1" "same_keys env env1" "hs_inv env1"
      "hs_holding self mt nid mid data (arrived evs') ?t0 (he_rx_slots env1)"
      "arrived evs' = {} \<Longrightarrow> clk 2 = ?t0"
    using frag_run_collect [OF len inv sub hold p t(1) _ run', of "Arrive clk fl i"] evs(1) by auto
  have "arrived evs' \<subseteq> {..<frag_count data}" "insert i (arrived evs') = {..<frag_count data}" using evs by auto
  from hs_handle_complete [OF c(3) len this(1) evs(3) this(2) c(4) t(2) c(5) hs_passes_core [OF c(1) p] refl,
      of kem "queue_send conn dest" fl]
  obtain s2 slots rx where h: "hs_fsm_handle_fragment kem cs clk (queue_send conn dest) self (wire_fragment data mt nid mid fl i)
        (of_nat (length (wire_fragment data mt nid mid fl i))) s1 env1 =
      hs_complete_message kem cs (\<lambda>k. clk (7 + k)) (queue_send conn dest) self rx (wire_hdr data mt nid mid i) s2
        (env1\<lparr>he_rx_slots := slots\<rparr>)"
      and r: "same_core s1 s2" "s_next_msg_id s2 = s_next_msg_id s1" "rx_slots_inv slots" "rx_slot_find self slots \<noteq> None"
      "take (length data) (rx_buffer rx) = data" "unat (fragment_rx_len rx) = length data"
      "fragment_rx_data rx = Some (rx_buffer rx)" "length (rx_buffer rx) = 4608"
    by blast
  have "frag_run kem cs (queue_send conn dest) self data mt nid mid evs (s, env) =
      snd (hs_complete_message kem cs (\<lambda>k. clk (7 + k)) (queue_send conn dest) self rx (wire_hdr data mt nid mid i) s2
        (env1\<lparr>he_rx_slots := slots\<rparr>))"
    unfolding evs(1) frag_run_snoc run' using h by (simp add: Let_def)
  moreover have "hs_inv (env1\<lparr>he_rx_slots := slots\<rparr>)" using c(3) r(3) by (simp add: hs_inv_def)
  ultimately show ?thesis using c(2) r same_core_trans [OF c(1) r(1)] by blast
qed

text \<open>Until the last index arrives no NACK is due, so the queue loses no room.\<close>

lemma frag_run_room:
  assumes len: "0 < length data" "length data \<le> 4608" and inv: "hs_inv env" and dl: "delivers cs data evs"
    and free: "slot_available self (he_rx_slots env)" and p: "hs_passes mt nid s"
    and lst: "frag_count data - 1 \<notin> arrived (butlast evs)"
  shows "tx_free (he_tx env) \<le> tx_free (he_tx (snd (frag_run kem cs (queue_send conn dest) self data mt nid mid (butlast evs) (s, env))))"
proof -
  obtain s1 env1 where run: "frag_run kem cs (queue_send conn dest) self data mt nid mid (butlast evs) (s, env) = (s1, env1)" by fastforce
  obtain evs' clk fl i where evs: "evs = evs' @ [Arrive clk fl i]" "arrived evs' = {..<frag_count data} - {i}"
      "i < frag_count data" and t: "all_in_time cs (arrival_start evs) evs'" "in_time cs (arrival_start evs) clk"
    using deliversE [OF dl] by blast
  have "hs_holding self mt nid mid data {} (arrival_start evs) (he_rx_slots env)" using free by (simp add: hs_holding_def slot_available_def)
  moreover have "{} \<union> arrived (butlast evs) \<subset> {..<frag_count data}" using evs by auto
  ultimately show ?thesis
    using frag_run_collect [OF len inv _ _ p _ _ run, of "{}" "arrival_start evs" "Arrive clk fl i"] t(1) lst evs(1) run by simp
qed

text \<open>What a session waits for.\<close>

definition node_awaits_pk :: "session_t \<Rightarrow> bool" where
  "node_awaits_pk s \<longleftrightarrow> session_is_node s \<and> s_state s = SESSION_STATE_WAIT_PK \<and> s_pending_msg_type s = PQC_MSG_GETPK"

definition root_awaits_ct :: "session_t \<Rightarrow> bool" where
  "root_awaits_ct s \<longleftrightarrow> session_is_root s \<and> s_state s = SESSION_STATE_WAIT_CT"

lemma session_roles [simp]: "session_is_node s \<Longrightarrow> \<not> session_is_root s" "session_is_root s \<Longrightarrow> \<not> session_is_node s"
  by (simp_all add: session_is_node_def session_is_root_def)

lemma passes_pk: "node_awaits_pk s \<Longrightarrow> hs_passes PQC_MSG_PK (s_node_id s) s"
  by (simp add: hs_passes_def node_awaits_pk_def hs_gate_message_def msg_type_defs)

lemma passes_ct: "root_awaits_ct s \<Longrightarrow> hs_passes PQC_MSG_CT (s_node_id s) s"
  by (simp add: hs_passes_def root_awaits_ct_def hs_gate_message_def msg_type_defs session_is_established_def)

lemma passes_ack:
  "session_is_node s \<Longrightarrow> s_state s = SESSION_STATE_WAIT_ACK \<Longrightarrow> s_pending_msg_type s = PQC_MSG_CT \<Longrightarrow>
     hs_passes PQC_MSG_ACK (s_node_id s) s"
  by (simp add: hs_passes_def hs_gate_message_def msg_type_defs)

lemma node_receives_pk:
  assumes inv: "hs_inv env" and s: "node_awaits_pk s" and free: "slot_available self (he_rx_slots env)"
    and pk: "length pk = 2249" and dl: "delivers cs pk evs"
    and run: "frag_run kem cs (queue_send conn dest) self pk PQC_MSG_PK (s_node_id s) mid (butlast evs) (s, env) = (s1, env1)"
    and room: "71 \<le> tx_free (he_tx env1)"
    and enc: "crypto_kem_enc kem pk (he_prng env) = ((0, ct, ss), g)" "length ct = 4481"
  shows "\<exists>s' env'. frag_run kem cs (queue_send conn dest) self pk PQC_MSG_PK (s_node_id s) mid evs (s, env) = (s', env') \<and>
    node_awaits_ack (s\<lparr>s_next_msg_id := s_next_msg_id s1\<rparr>) ss s' \<and> hs_inv env' \<and> he_node_ct env' = ct \<and>
    slot_available self (he_rx_slots env') \<and>
    tx_pending (he_tx env') = tx_pending (he_tx env1) +
      mset (map (wire_fragment ct PQC_MSG_CT (s_node_id s) (s_next_msg_id s1) PQC_FLAG_NONE) [0..<71])"
proof -
  have len: "0 < length pk" "length pk \<le> 4608" using pk by auto
  obtain s2 slots rx clk i where r: "frag_run kem cs (queue_send conn dest) self pk PQC_MSG_PK (s_node_id s) mid evs (s, env) =
      snd (hs_complete_message kem cs clk (queue_send conn dest) self rx (wire_hdr pk PQC_MSG_PK (s_node_id s) mid i) s2
        (env1\<lparr>he_rx_slots := slots\<rparr>))"
      "same_core s s2" "same_keys env env1" "hs_inv (env1\<lparr>he_rx_slots := slots\<rparr>)" "s_next_msg_id s2 = s_next_msg_id s1"
      "rx_slots_inv slots" "rx_slot_find self slots \<noteq> None" "take 2249 (rx_buffer rx) = pk" "unat (fragment_rx_len rx) = 2249"
    using frag_run_completes [OF len inv dl free passes_pk [OF s] run] unfolding pk by blast
  let ?e = "env1\<lparr>he_rx_slots := slots\<rparr>"
  have nd: "session_is_node s2" using s r(2) by (simp add: node_awaits_pk_def same_core_fields session_is_node_def)
  have g: "crypto_kem_enc kem pk (he_prng ?e) = ((0, ct, ss), g)" using enc(1) r(3) by (simp add: same_keys_def)
  have "71 \<le> tx_free (he_tx ?e)" using room by simp
  from hs_node_complete_pk_ok [OF r(4) r(9) r(8) g enc(2) this, of cs clk conn dest self s2]
  obtain s' env' where c: "hs_node_complete_pk kem cs clk (queue_send conn dest) self rx s2 ?e = (True, s', env')"
      "node_awaits_ack s2 ss s'" "tx_inv (he_tx env')" "he_node_ct env' = ct"
      "he_rx_slots env' = rx_slot_release self slots"
      "tx_pending (he_tx env') = tx_pending (he_tx env1) +
        mset (map (wire_fragment ct PQC_MSG_CT (s_node_id s2) (s_next_msg_id s2) PQC_FLAG_NONE) [0..<71])"
    by auto
  have "he_root_pk env' = he_root_pk ?e \<and> he_root_ct env' = he_root_ct ?e"
    using c(1) by (auto simp: hs_node_complete_pk_def hs_node_send_ct_def Let_def split: if_splits prod.splits)
  then have "hs_inv env'"
    using c r(4,6) rx_slots_inv_ops(2) [OF r(6)] enc(2) by (simp add: hs_inv_def)
  moreover have "slot_available self (he_rx_slots env')" using slot_available_release [OF r(6,7)] c(5) by simp
  moreover have "node_awaits_ack (s\<lparr>s_next_msg_id := s_next_msg_id s1\<rparr>) ss s'"
    using c(2) r(2,5) by (simp add: node_awaits_ack_def same_core_fields)
  moreover have "frag_run kem cs (queue_send conn dest) self pk PQC_MSG_PK (s_node_id s) mid evs (s, env) = (s', env')"
    using r(1) nd c(1) by (simp add: hs_complete_message_def)
  ultimately show ?thesis using c(4,6) r(2,5) by (simp add: same_core_fields)
qed

lemma root_receives_ct:
  assumes inv: "hs_inv env" and s: "root_awaits_ct s" and free: "slot_available self (he_rx_slots env)"
    and ct: "length ct = 4481" and dl: "delivers cs ct evs" and k: "he_root_has_keypair env"
    and run: "frag_run kem cs (queue_send conn dest) self ct PQC_MSG_CT (s_node_id s) mid (butlast evs) (s, env) = (s1, env1)"
    and room: "0 < tx_free (he_tx env1)"
    and dec: "crypto_kem_dec kem ct (he_root_sk env) = (0, ss)"
  shows "\<exists>s' env'. frag_run kem cs (queue_send conn dest) self ct PQC_MSG_CT (s_node_id s) mid evs (s, env) = (s', env') \<and>
    root_established s ss s' \<and> hs_inv env' \<and> slot_available self (he_rx_slots env') \<and>
    tx_pending (he_tx env') = add_mset
      (wire_fragment [mid] PQC_MSG_ACK (s_node_id s) (s_next_msg_id s1) PQC_FLAG_NONE 0) (tx_pending (he_tx env1))"
proof -
  have len: "0 < length ct" "length ct \<le> 4608" using ct by auto
  obtain s2 slots rx clk i where r: "frag_run kem cs (queue_send conn dest) self ct PQC_MSG_CT (s_node_id s) mid evs (s, env) =
      snd (hs_complete_message kem cs clk (queue_send conn dest) self rx (wire_hdr ct PQC_MSG_CT (s_node_id s) mid i) s2
        (env1\<lparr>he_rx_slots := slots\<rparr>))"
      "same_core s s2" "same_keys env env1" "hs_inv (env1\<lparr>he_rx_slots := slots\<rparr>)" "s_next_msg_id s2 = s_next_msg_id s1"
      "rx_slots_inv slots" "rx_slot_find self slots \<noteq> None" "take 4481 (rx_buffer rx) = ct" "unat (fragment_rx_len rx) = 4481"
      "length (rx_buffer rx) = 4608"
    using frag_run_completes [OF len inv dl free passes_ct [OF s] run] unfolding ct by blast
  let ?e = "env1\<lparr>he_rx_slots := slots\<rparr>"
  have st: "s_state s2 = SESSION_STATE_WAIT_CT" "session_is_root s2"
    using s r(2) by (simp_all add: root_awaits_ct_def same_core_fields session_is_root_def)
  have e: "he_root_has_keypair ?e" "crypto_kem_dec kem ct (he_root_sk ?e) = (0, ss)" "0 < tx_free (he_tx ?e)"
    using k dec r(3) room by (simp_all add: same_keys_def)
  from hs_root_complete_ct_ok [OF r(4) r(9) r(8) r(10) st(1) e, of clk conn dest self mid]
  obtain s' env' where c: "hs_root_complete_ct kem clk (queue_send conn dest) self rx mid s2 ?e = (True, s', env')"
      "root_established s2 ss s'" "tx_inv (he_tx env')" "he_root_ct env' = replicate 4481 0"
      "he_rx_slots env' = rx_slot_release self slots"
      "tx_pending (he_tx env') = add_mset
        (wire_fragment [mid] PQC_MSG_ACK (s_node_id s2) (s_next_msg_id s2) PQC_FLAG_NONE 0) (tx_pending (he_tx env1))"
    by auto
  have "he_root_pk env' = he_root_pk ?e \<and> he_node_ct env' = he_node_ct ?e"
    using c(1) by (auto simp: hs_root_complete_ct_def hs_root_accept_ct_def Let_def split: if_splits prod.splits)
  then have "hs_inv env'"
    using c r(4) rx_slots_inv_ops(2) [OF r(6)] by (simp add: hs_inv_def)
  moreover have "slot_available self (he_rx_slots env')" using slot_available_release [OF r(6,7)] c(5) by simp
  moreover have "root_established s ss s'" using c(2) r(2) by (simp add: root_established_def same_core_fields)
  moreover have "frag_run kem cs (queue_send conn dest) self ct PQC_MSG_CT (s_node_id s) mid evs (s, env) = (s', env')"
    using r(1) st(2) c(1) by (simp add: hs_complete_message_def)
  ultimately show ?thesis using c(6) r(2,5) by (simp add: same_core_fields)
qed

lemma node_receives_ack:
  assumes inv: "hs_inv env" and s: "node_awaits_ack s0 ss s" "session_is_node s" and free: "slot_available self (he_rx_slots env)"
    and dl: "delivers cs [s_pending_msg_id s] evs"
  shows "\<exists>s' env'. frag_run kem cs (queue_send conn dest) self [s_pending_msg_id s] PQC_MSG_ACK (s_node_id s) mid evs (s, env) = (s', env') \<and>
    session_is_established s' \<and> s_ss s' = ss \<and> s_aes_key s' = crypto_worker_derive_aes_key ss \<and> s_node_id s' = s_node_id s \<and>
    s_tx_counter s' = s_tx_counter s \<and> s_rx_counter s' = s_rx_counter s \<and> he_node_ct env' = replicate 4481 0"
proof -
  let ?d = "[s_pending_msg_id s]"
  obtain s1 env1 where run: "frag_run kem cs (queue_send conn dest) self ?d PQC_MSG_ACK (s_node_id s) mid (butlast evs) (s, env) = (s1, env1)"
    by fastforce
  have p: "hs_passes PQC_MSG_ACK (s_node_id s) s" using s by (intro passes_ack) (auto simp: node_awaits_ack_def)
  obtain s2 slots rx clk i where r: "frag_run kem cs (queue_send conn dest) self ?d PQC_MSG_ACK (s_node_id s) mid evs (s, env) =
      snd (hs_complete_message kem cs clk (queue_send conn dest) self rx (wire_hdr ?d PQC_MSG_ACK (s_node_id s) mid i) s2
        (env1\<lparr>he_rx_slots := slots\<rparr>))"
      "same_core s s2" "same_keys env env1" "take (length ?d) (rx_buffer rx) = ?d" "unat (fragment_rx_len rx) = length ?d"
      "fragment_rx_data rx = Some (rx_buffer rx)"
    using frag_run_completes [OF _ _ inv dl free p run] by auto
  have nd: "session_is_node s2" "s_pending_msg_id s2 = s_pending_msg_id s"
    using s r(2) by (simp_all add: same_core_fields session_is_node_def)
  have l: "length (he_node_ct env1) = 4481" using inv r(3) by (simp add: hs_inv_def same_keys_def)
  have "unat (fragment_rx_len rx) = 1" "take 1 (rx_buffer rx) = ?d" using r(4,5) by simp_all
  from hs_node_complete_ack_ok [OF this r(6) nd(2), of clk self "env1\<lparr>he_rx_slots := slots\<rparr>"]
  obtain s' env' where "hs_node_complete_ack clk self rx s2 (env1\<lparr>he_rx_slots := slots\<rparr>) = (True, s', env')"
      "session_is_established s'" "s_node_id s' = s_node_id s2" "s_ss s' = s_ss s2" "s_aes_key s' = s_aes_key s2"
      "s_tx_counter s' = s_tx_counter s2" "s_rx_counter s' = s_rx_counter s2" "he_node_ct env' = replicate 4481 0"
    using l by auto
  then show ?thesis
    using r(1,2) nd(1) s(1) by (simp add: hs_complete_message_def msg_type_defs same_core_fields node_awaits_ack_def)
qed

section \<open>The root starts\<close>

lemma slot_available_gc: "slot_available self slots \<Longrightarrow> slot_available self (rx_slots_gc cs now slots)"
  by (auto simp: slot_available_def rx_table.lookup_None rx_slots_gc_nth)

text \<open>With the key pair it has, or with the one it makes now.\<close>

lemma hs_start_root_ok:
  assumes inv: "hs_inv env" and s: "session_is_root s"
    and key: "if he_root_has_keypair env then he_root_pk env = pk \<and> he_root_sk env = sk
              else (\<exists>g. crypto_kem_keypair kem (he_prng env) = ((0, pk, sk), g))" "length pk = 2249"
    and room: "36 \<le> tx_free (he_tx env)" and free: "slot_available self (he_rx_slots env)"
  shows "\<exists>s' env'. hs_fsm_start kem cs clk (queue_send conn dest) s env = (True, s', env') \<and> root_awaits_ct s' \<and>
    s_node_id s' = s_node_id s \<and> s_tx_counter s' = s_tx_counter s \<and> s_rx_counter s' = s_rx_counter s \<and>
    s_pending_msg_type s' = PQC_MSG_PK \<and> s_pending_msg_id s' = s_next_msg_id s \<and>
    hs_inv env' \<and> he_root_pk env' = pk \<and> he_root_sk env' = sk \<and> he_root_has_keypair env' \<and>
    slot_available self (he_rx_slots env') \<and>
    tx_pending (he_tx env') = tx_pending (he_tx env) +
      mset (map (wire_fragment pk PQC_MSG_PK (s_node_id s) (s_next_msg_id s) PQC_FLAG_NONE) [0..<36])"
proof -
  have tx: "tx_inv (he_tx env)" using inv by (simp add: hs_inv_def)
  obtain ok tx where t: "fragment_tx pk 2249 PQC_MSG_PK (s_node_id s) (s_next_msg_id s) PQC_FLAG_NONE
      (queue_send conn dest) (he_tx env) = (ok, tx)" by fastforce
  note q = fragment_tx_queue [OF tx _ _ _ t]
  have q': "ok" "tx_inv tx" "tx_pending tx = tx_pending (he_tx env) +
      mset (map (wire_fragment pk PQC_MSG_PK (s_node_id s) (s_next_msg_id s) PQC_FLAG_NONE) [0..<36])"
    using q room key(2) by simp_all
  have r: "tx_has_room_for 2249 (he_tx env)" using tx room by (simp add: tx_has_room_for_iff)
  have "hs_inv (env\<lparr>he_rx_slots := rx_slots_gc cs (clk 0) (he_rx_slots env)\<rparr>)" using inv by (rule hs_inv_gc)
  then show ?thesis
    using s key r t q' slot_available_gc [OF free]
    by (cases "he_root_has_keypair env")
      (auto simp: hs_fsm_start_def hs_fsm_root_init_keypair_def crypto_worker_keypair_def hs_start_send_pk_def Let_def
        hs_set_pending_for_transfer_def session_ops root_awaits_ct_def hs_inv_def)
qed

end
