(* ===== verification/Server_Establish.thy ===== *)
theory Server_Establish
  imports Server_Run Handshake_Agreement
begin

text \<open>
  The root program establishes a session: the fragments of a ciphertext, given one by one to its receive
  callback, are reassembled, decapsulated and acknowledged.
\<close>

section \<open>Fragments of a ciphertext through the callback\<close>

lemma wire_fragment_header:
  assumes "0 < length data" "length data \<le> 4608" "i < frag_count data" and w: "w = wire_fragment data mt nid mid fl i"
  shows "pqc_header_valid w (of_nat (length w))" "w ! 1 = mt" "pqc_header_get_node_id w = nid" "w ! 4 = mid"
proof -
  have h: "parse_fragment_header w (of_nat (length w)) = Some (wire_hdr data mt nid mid i)"
    unfolding w by (rule parse_wire_fragment [OF assms(1-3)])
  show "w ! 1 = mt" "pqc_header_get_node_id w = nid" "w ! 4 = mid"
    using h by (auto simp: parse_fragment_header_def wire_hdr_def Let_def split: if_splits)
  have v: "w ! PQC_HDR_VERSION = PQC_PROTO_VERSION" and p: "w ! PQC_HDR_PAYLOAD_LEN = of_nat (length (chunk data i))"
    using h by (auto simp: parse_fragment_header_def wire_hdr_def Let_def split: if_splits)
  have l: "length w = 10 + length (chunk data i)" "length (chunk data i) \<le> 64"
    unfolding w by (rule wire_fragment_length, rule chunk_length_le)
  have "unat (of_nat (length w) :: u16) = length w" using l by (intro unat_of_nat_u16) simp
  moreover have "unat (w ! PQC_HDR_PAYLOAD_LEN) = length (chunk data i)" unfolding p using l(2) by (intro unat_of_nat_u8) simp
  ultimately show "pqc_header_valid w (of_nat (length w))"
    using l by (intro header_valid_append [OF _ v]) simp
qed

lemma get_or_create_live:
  assumes inv: "root_inv st" and live: "live_ref r st" and nid: "s_node_id (session_deref (rs_sm st) r) = nid"
  shows "session_manager_get_or_create now nid (rs_sm st) = (Some r, rs_sm st)"
proof -
  obtain i where i: "i < 10" "r = Session_Slot i" "s_used (sm_sessions (rs_sm st) ! i)" using live by (auto simp: live_ref_def)
  have "session_table.keys_distinct (sm_sessions (rs_sm st))" "length (sm_sessions (rs_sm st)) = 10"
    using inv by (auto simp: root_inv_def manager_inv_def)
  then have "sessions_find nid (sm_sessions (rs_sm st)) = Some i"
    using session_table.lookup_unique [of "sm_sessions (rs_sm st)" i nid] i nid by simp
  then show ?thesis using session_table.acquire_hit i(2) by (simp add: session_manager_get_or_create_def)
qed

text \<open>A root that waits for a ciphertext of node \<open>nid\<close> and has some fragments of it.\<close>

definition ct_collecting ::
  "session_ref \<Rightarrow> u16 \<Rightarrow> u8 \<Rightarrow> u8 list \<Rightarrow> nat set \<Rightarrow> clock_time_t \<Rightarrow> u8 list \<Rightarrow> 'g root_state \<Rightarrow> bool" where
  "ct_collecting r nid mid ct I t0 sk st \<longleftrightarrow> root_inv st \<and> live_ref r st \<and>
     s_node_id (session_deref (rs_sm st) r) = nid \<and> root_awaits_ct (session_deref (rs_sm st) r) \<and>
     he_root_has_keypair (rs_env st) \<and> he_root_sk (rs_env st) = sk \<and>
     hs_holding r PQC_MSG_CT nid mid ct I t0 (he_rx_slots (rs_env st))"

text \<open>What the callback has done when it hands a fragment to the handshake module.\<close>

lemma ct_callback_prologue:
  assumes c: "ct_collecting r nid mid ct I t0 sk st" and ct: "length ct = 4481" and i: "i < frag_count ct"
    and w: "w = wire_fragment ct PQC_MSG_CT nid mid fl i"
  obtains st2 where "ct_collecting r nid mid ct I t0 sk st2" "touches r st2 st2" "tx_free (he_tx (rs_env st)) \<le> tx_free (he_tx (rs_env st2))"
    "s_rx_counter (session_deref (rs_sm st2) r) = s_rx_counter (session_deref (rs_sm st) r)"
    "udp_rx_callback_root kem cs clk conn sender w (of_nat (length w)) st =
       root_rx_handshake kem cs (\<lambda>k. clk (2 + (4 + k))) \<lparr>uc_udp_conn = Some conn, uc_dest = Some sender\<rparr> r False w (of_nat (length w)) st2"
proof -
  have len: "0 < length ct" "length ct \<le> 4608" using ct by simp_all
  note hd = wire_fragment_header [OF len i w]
  have cc: "root_inv st" "live_ref r st" "s_node_id (session_deref (rs_sm st) r) = nid" "root_awaits_ct (session_deref (rs_sm st) r)"
    using c by (simp_all add: ct_collecting_def)
  note g = get_or_create_live [OF cc(1-3), of "clk 0"]
  have t: "touches r st st" using cc by (intro touches_refl)
  let ?s1 = "session_set_peer_addr (clk 1) sender (session_deref (rs_sm st) r)"
  define st1 where "st1 = root_set_session r ?s1 st"
  have t1: "touches r st st1" unfolding st1_def using t by (intro touches_upd) (simp_all add: same_id_ops)
  have d1: "session_deref (rs_sm st1) r = ?s1" "rs_env st1 = rs_env st" using cc by (simp_all add: st1_def)
  have ne: "\<not> session_is_established ?s1"
    using cc(4) by (simp add: root_awaits_ct_def session_is_established_def session_set_peer_addr_def session_touch_def)
  define st2 where "st2 = (if s_state (session_deref (rs_sm st1) r) = SESSION_STATE_WAIT_CT \<and>
      s_pending_msg_type (session_deref (rs_sm st1) r) = PQC_MSG_PK
    then root_rx_ct_start cs (\<lambda>k. clk (2 + k)) r nid mid st1 else st1)"
  have t2: "touches r st st2" using t1 ct_start_touches [OF t1] by (simp add: st2_def)
  have e: "\<exists>tx. rs_env st2 = (rs_env st)\<lparr>he_tx := tx\<rparr> \<and> tx_free (he_tx (rs_env st)) \<le> tx_free tx"
    and s2: "s_state (session_deref (rs_sm st2) r) = SESSION_STATE_WAIT_CT \<and>
      s_rx_counter (session_deref (rs_sm st2) r) = s_rx_counter (session_deref (rs_sm st) r)"
  proof -
    obtain d tx where d: "pqc_tx_drop nid PQC_MSG_PK (s_pending_msg_id ?s1) (he_tx (rs_env st)) = (d, tx)" by fastforce
    have fr: "tx_inv tx \<and> tx_free (he_tx (rs_env st)) \<le> tx_free tx"
      using tx_drop_all_spec(1,5) [of "he_tx (rs_env st)" _ d tx] d cc(1) unfolding pqc_tx_drop_def root_inv_def hs_inv_def
      by (fastforce simp: tx_free_def)
    have x: "rs_env st1 = (rs_env st)\<lparr>he_tx := he_tx (rs_env st)\<rparr>" using d1 by simp
    have y: "rs_env (root_rx_ct_start cs (\<lambda>k. clk (2 + k)) r nid mid st1) = (rs_env st)\<lparr>he_tx := tx\<rparr>"
      using d d1 by (simp add: root_rx_ct_start_def Let_def)
    show "\<exists>tx. rs_env st2 = (rs_env st)\<lparr>he_tx := tx\<rparr> \<and> tx_free (he_tx (rs_env st)) \<le> tx_free tx"
    proof (cases "st2 = st1")
      case True
      then show ?thesis using x by blast
    next
      case False
      then have "st2 = root_rx_ct_start cs (\<lambda>k. clk (2 + k)) r nid mid st1" unfolding st2_def by meson
      then show ?thesis using y fr by blast
    qed
    have z: "session_deref (rs_sm (root_set_session r s' (root_log l (root_set_tx tx st1)))) r = s'" for s' l
      using root_deref_set [of "root_log l (root_set_tx tx st1)" r s'] root_inv_tx [of st1 tx] t1 fr by (simp add: touches_def)
    have "s_state (session_deref (rs_sm (root_rx_ct_start cs (\<lambda>k. clk (2 + k)) r nid mid st1)) r) = s_state ?s1 \<and>
      s_rx_counter (session_deref (rs_sm (root_rx_ct_start cs (\<lambda>k. clk (2 + k)) r nid mid st1)) r) = s_rx_counter ?s1"
      using d d1 z by (simp add: root_rx_ct_start_def Let_def session_set_pending_def session_touch_def)
    moreover have "s_state ?s1 = SESSION_STATE_WAIT_CT" "s_rx_counter ?s1 = s_rx_counter (session_deref (rs_sm st) r)"
      using cc(4) by (simp_all add: root_awaits_ct_def session_set_peer_addr_def session_touch_def)
    ultimately show "s_state (session_deref (rs_sm st2) r) = SESSION_STATE_WAIT_CT \<and>
      s_rx_counter (session_deref (rs_sm st2) r) = s_rx_counter (session_deref (rs_sm st) r)"
      using d1 by (simp add: st2_def)
  qed
  have "same_id (session_deref (rs_sm st) r) (session_deref (rs_sm st2) r)" using t2 by (simp add: touches_def)
  then have c2: "ct_collecting r nid mid ct I t0 sk st2"
    using c e s2 touchesD [OF t2] by (auto simp: ct_collecting_def root_awaits_ct_def session_is_root_def same_id_def)
  have "udp_rx_callback_root kem cs clk conn sender w (of_nat (length w)) st =
      root_rx_dispatch kem cs (\<lambda>k. clk (2 + k)) conn sender w (of_nat (length w)) r st1"
    unfolding udp_rx_callback_root_def st1_def using hd g by (simp add: Let_def)
  also have "\<dots> = root_rx_handshake kem cs (\<lambda>k. clk (2 + (4 + k))) \<lparr>uc_udp_conn = Some conn, uc_dest = Some sender\<rparr> r False w (of_nat (length w)) st2"
    unfolding root_rx_dispatch_def Let_def using hd d1 ne by (simp add: st2_def msg_type_defs)
  finally show thesis
    using that [OF c2 touches_refl] c2 e s2 unfolding ct_collecting_def by auto
qed

text \<open>A fragment that does not complete the ciphertext is collected.\<close>

lemma ct_callback_partial:
  assumes c: "ct_collecting r nid mid ct I t0 sk st" and ct: "length ct = 4481" and i: "i < frag_count ct"
    and I: "I \<subseteq> {..<frag_count ct}" "insert i I \<noteq> {..<frag_count ct}"
    and t: "in_time cs t0 (\<lambda>k. clk (2 + (4 + k)))" "I = {} \<Longrightarrow> clk 8 = t0"
    and w: "w = wire_fragment ct PQC_MSG_CT nid mid fl i"
    and st': "st' = udp_rx_callback_root kem cs clk conn sender w (of_nat (length w)) st"
  shows "ct_collecting r nid mid ct (insert i I) t0 sk st'"
    and "frag_count ct - 1 \<notin> insert i I \<Longrightarrow> tx_free (he_tx (rs_env st)) \<le> tx_free (he_tx (rs_env st'))"
    and "s_rx_counter (session_deref (rs_sm st') r) = s_rx_counter (session_deref (rs_sm st) r)"
proof -
  obtain st2 where c2: "ct_collecting r nid mid ct I t0 sk st2" and t2: "touches r st2 st2"
    and fr: "tx_free (he_tx (rs_env st)) \<le> tx_free (he_tx (rs_env st2))"
    and rxc: "s_rx_counter (session_deref (rs_sm st2) r) = s_rx_counter (session_deref (rs_sm st) r)"
    and cb: "st' = root_rx_handshake kem cs (\<lambda>k. clk (2 + (4 + k))) \<lparr>uc_udp_conn = Some conn, uc_dest = Some sender\<rparr> r False w (of_nat (length w)) st2"
    using ct_callback_prologue [OF c ct i w, of kem cs clk conn sender] st' by metis
  let ?s = "session_deref (rs_sm st2) r" and ?clk = "\<lambda>k. clk (2 + (4 + k))"
  have cc: "root_inv st2" "live_ref r st2" "s_node_id ?s = nid" "root_awaits_ct ?s" "hs_inv (rs_env st2)"
    "hs_holding r PQC_MSG_CT nid mid ct I t0 (he_rx_slots (rs_env st2))"
    using c2 by (auto simp: ct_collecting_def root_inv_def)
  have p: "hs_passes PQC_MSG_CT nid ?s" using passes_ct [OF cc(4)] cc(3) by simp
  have len: "0 < length ct" "length ct \<le> 4608" using ct by simp_all
  have st0: "I = {} \<Longrightarrow> ?clk 2 = t0" using t(2) by simp
  obtain s' slots tx where h: "hs_fsm_handle_fragment kem cs ?clk (queue_send conn sender) r w (of_nat (length w)) ?s (rs_env st2) =
      (True, s', (rs_env st2)\<lparr>he_rx_slots := slots, he_tx := tx\<rparr>)" and s': "same_core ?s s'" "tx_inv tx" "rx_slots_inv slots"
      "hs_holding r PQC_MSG_CT nid mid ct (insert i I) t0 slots" "frag_count ct - 1 \<notin> insert i I \<longrightarrow> tx = he_tx (rs_env st2)"
    using hs_handle_partial [OF cc(5) len I(1) i I(2) cc(6) t(1) st0 p w, of kem conn sender] by blast
  let ?env = "(rs_env st2)\<lparr>he_rx_slots := slots, he_tx := tx\<rparr>"
  have ne: "\<not> session_is_established s'"
    using same_core_fields [OF s'(1)] cc(4) by (simp add: root_awaits_ct_def session_is_established_def)
  have e: "st' = root_set_session r s' (st2\<lparr>rs_env := ?env\<rparr>)"
    unfolding cb root_rx_handshake_def using h ne by simp
  have hi: "hs_inv ?env" using cc(5) s' by (simp add: hs_inv_def)
  have si: "session_inv s'" using session_inv_same_core [OF _ s'(1)] touches_live [OF t2] by blast
  have t': "touches r st2 st'" unfolding e by (rule touches_set [OF t2 si same_id_core [OF s'(1)] hi])
  have d: "session_deref (rs_sm st') r = s'"
    unfolding e using root_deref_set [of "st2\<lparr>rs_env := ?env\<rparr>" r s'] root_inv_env [OF cc(1) hi] cc(2) by simp
  show "ct_collecting r nid mid ct (insert i I) t0 sk st'"
    using touchesD [OF t'] c2 s'(4) same_core_fields [OF s'(1)] unfolding ct_collecting_def d
    by (simp add: e root_awaits_ct_def session_is_root_def)
  show "frag_count ct - 1 \<notin> insert i I \<Longrightarrow> tx_free (he_tx (rs_env st)) \<le> tx_free (he_tx (rs_env st'))"
    using s'(5) fr by (simp add: e)
  show "s_rx_counter (session_deref (rs_sm st') r) = s_rx_counter (session_deref (rs_sm st) r)"
    using same_core_fields [OF s'(1)] rxc unfolding d by simp
qed

text \<open>The fragment that completes it establishes the session.\<close>

lemma ct_callback_complete:
  assumes c: "ct_collecting r nid mid ct I t0 sk st" and ct: "length ct = 4481" and i: "i < frag_count ct"
    and I: "I \<subseteq> {..<frag_count ct}" "insert i I = {..<frag_count ct}"
    and t: "in_time cs t0 (\<lambda>k. clk (2 + (4 + k)))" "I = {} \<Longrightarrow> clk 8 = t0"
    and w: "w = wire_fragment ct PQC_MSG_CT nid mid fl i"
    and room: "0 < tx_free (he_tx (rs_env st))" and dec: "crypto_kem_dec kem ct sk = (0, ss)"
    and st': "st' = udp_rx_callback_root kem cs clk conn sender w (of_nat (length w)) st"
  shows "session_is_established (session_deref (rs_sm st') r) \<and> s_ss (session_deref (rs_sm st') r) = ss \<and>
    s_aes_key (session_deref (rs_sm st') r) = crypto_worker_derive_aes_key ss \<and>
    (\<exists>ack_id. wire_fragment [mid] PQC_MSG_ACK nid ack_id PQC_FLAG_NONE 0 \<in># tx_pending (he_tx (rs_env st')))"
proof -
  obtain st2 where c2: "ct_collecting r nid mid ct I t0 sk st2" and t2: "touches r st2 st2"
    and fr: "tx_free (he_tx (rs_env st)) \<le> tx_free (he_tx (rs_env st2))"
    and cb: "st' = root_rx_handshake kem cs (\<lambda>k. clk (2 + (4 + k))) \<lparr>uc_udp_conn = Some conn, uc_dest = Some sender\<rparr> r False w (of_nat (length w)) st2"
    using ct_callback_prologue [OF c ct i w, of kem cs clk conn sender] st' by metis
  let ?s = "session_deref (rs_sm st2) r" and ?clk = "\<lambda>k. clk (2 + (4 + k))"
  have cc: "root_inv st2" "live_ref r st2" "s_node_id ?s = nid" "root_awaits_ct ?s" "hs_inv (rs_env st2)"
    "hs_holding r PQC_MSG_CT nid mid ct I t0 (he_rx_slots (rs_env st2))" "he_root_has_keypair (rs_env st2)" "he_root_sk (rs_env st2) = sk"
    using c2 by (auto simp: ct_collecting_def root_inv_def)
  have p: "hs_passes PQC_MSG_CT nid ?s" using passes_ct [OF cc(4)] cc(3) by simp
  have len: "0 < length ct" "length ct \<le> 4608" using ct by simp_all
  have st0: "I = {} \<Longrightarrow> ?clk 2 = t0" using t(2) by simp
  obtain s1 slots rx where h: "hs_fsm_handle_fragment kem cs ?clk (queue_send conn sender) r w (of_nat (length w)) ?s (rs_env st2) =
      hs_complete_message kem cs (\<lambda>k. ?clk (7 + k)) (queue_send conn sender) r rx (wire_hdr ct PQC_MSG_CT nid mid i) s1
        ((rs_env st2)\<lparr>he_rx_slots := slots\<rparr>)"
    and s1: "same_core ?s s1" "rx_slots_inv slots" "take (length ct) (rx_buffer rx) = ct"
      "unat (fragment_rx_len rx) = length ct" "length (rx_buffer rx) = 4608"
    using hs_handle_complete [OF cc(5) len I(1) i I(2) cc(6) t(1) st0 p w, of kem "queue_send conn sender"] by blast
  let ?env = "(rs_env st2)\<lparr>he_rx_slots := slots\<rparr>"
  note f = same_core_fields [OF s1(1)]
  have role: "session_is_root s1" "s_state s1 = SESSION_STATE_WAIT_CT" "s_node_id s1 = nid"
    using f cc(3,4) by (auto simp: root_awaits_ct_def session_is_root_def)
  have hi: "hs_inv ?env" using cc(5) s1(2) by (simp add: hs_inv_def)
  have fr2: "0 < tx_free (he_tx ?env)" "he_root_has_keypair ?env" "crypto_kem_dec kem ct (he_root_sk ?env) = (0, ss)"
    using room fr cc(7,8) dec by simp_all
  obtain s' env' where a: "hs_root_complete_ct kem (\<lambda>k. ?clk (7 + k)) (queue_send conn sender) r rx mid s1 ?env = (True, s', env')"
    and s': "root_established s1 ss s'"
      "tx_pending (he_tx env') = add_mset (wire_fragment [mid] PQC_MSG_ACK nid (s_next_msg_id s1) PQC_FLAG_NONE 0) (tx_pending (he_tx (rs_env st2)))"
    using hs_root_complete_ct_ok [OF hi _ _ s1(5) role(2) fr2(2,3,1), of "\<lambda>k. ?clk (7 + k)" conn sender r mid] s1(3,4) ct role(3) by auto
  have m: "hs_fsm_handle_fragment kem cs ?clk (queue_send conn sender) r w (of_nat (length w)) ?s (rs_env st2) = (True, s', env')"
    unfolding h hs_complete_message_def using a role(1) by simp
  have es: "session_is_established s'" using s'(1) by (simp add: root_established_def)
  obtain lines s3 st3 where e: "st' = root_log lines (root_set_session r s3 st3)" "rs_env st3 = env'"
      "csv_session_summary_if_ready cs (\<lambda>k. ?clk (90 + k)) (session_deref (rs_sm st3) r) = (lines, s3)"
      "rs_sm st3 = session_assign r s' (rs_sm st2)"
  proof -
    let ?st3 = "root_impact_end cs (\<lambda>k. ?clk (50 + k)) (s_node_id s') True
      (root_log (csv_hs_summary cs (\<lambda>k. ?clk (40 + k)) s' ''HS_SUCCESS'') (root_set_session r s' (st2\<lparr>rs_env := env'\<rparr>)))"
    obtain lines s3 where l: "csv_session_summary_if_ready cs (\<lambda>k. ?clk (90 + k)) (session_deref (rs_sm ?st3) r) = (lines, s3)" by fastforce
    have "st' = root_log lines (root_set_session r s3 ?st3)"
      unfolding cb root_rx_handshake_def using m es l by (simp add: Let_def)
    then show thesis using that [OF _ _ l] by (simp add: root_set_session_def)
  qed
  obtain j where j: "r = Session_Slot j" "j < length (sm_sessions (rs_sm st2))"
    using cc(1,2) by (auto simp: live_ref_def root_inv_def manager_inv_def)
  have "session_deref (rs_sm st3) r = s'" "session_deref (rs_sm st') r = s3"
    using e j by (simp_all add: root_set_session_def)
  moreover have "same_secrets s' s3" using summary_same_secrets [OF e(3)] calculation(1) by simp
  moreover have "rs_env st' = env'" using e(1,2) by simp
  ultimately show ?thesis using s' by (auto simp: same_secrets_def root_established_def)
qed

section \<open>A run of the callback over a ciphertext\<close>

text \<open>The callback on fragments of a ciphertext, each with its clock readings, header flags and index.\<close>

definition root_receive_ct ::
  "'g kem_api \<Rightarrow> u32 \<Rightarrow> udp_conn \<Rightarrow> uip_ipaddr_t \<Rightarrow> u8 list \<Rightarrow> u16 \<Rightarrow> u8 \<Rightarrow> ((nat \<Rightarrow> clock_time_t) \<times> u8 \<times> nat) list \<Rightarrow>
     'g root_state \<Rightarrow> 'g root_state" where
  "root_receive_ct kem cs conn sender ct nid mid arrivals =
     fold (\<lambda>(clk, fl, i). let w = wire_fragment ct PQC_MSG_CT nid mid fl i
       in udp_rx_callback_root kem cs clk conn sender w (of_nat (length w))) arrivals"

definition arrived_frags :: "((nat \<Rightarrow> clock_time_t) \<times> u8 \<times> nat) list \<Rightarrow> nat set" where
  "arrived_frags arrivals = (\<lambda>(clk, fl, i). i) ` set arrivals"

text \<open>The first fragment takes its slot at \<open>clk 8\<close>; the others come within the reassembly timeout of it.\<close>

definition arrivals_in_time :: "u32 \<Rightarrow> ((nat \<Rightarrow> clock_time_t) \<times> u8 \<times> nat) list \<Rightarrow> bool" where
  "arrivals_in_time cs arrivals \<longleftrightarrow>
     (\<forall>(clk, fl, i) \<in> set arrivals. in_time cs (fst (hd arrivals) 8) (\<lambda>k. clk (2 + (4 + k))))"

lemma root_receive_ct_snoc:
  "root_receive_ct kem cs conn sender ct nid mid (as @ [(clk, fl, i)]) st =
     udp_rx_callback_root kem cs clk conn sender (wire_fragment ct PQC_MSG_CT nid mid fl i)
       (of_nat (length (wire_fragment ct PQC_MSG_CT nid mid fl i))) (root_receive_ct kem cs conn sender ct nid mid as st)"
  by (simp add: root_receive_ct_def Let_def)

lemma root_receive_ct_collects:
  assumes c: "ct_collecting r nid mid ct {} t0 sk st" and ct: "length ct = 4481"
    and a: "arrived_frags as \<subset> {..<frag_count ct}"
    and t: "\<forall>(clk, fl, i) \<in> set as. in_time cs t0 (\<lambda>k. clk (2 + (4 + k)))" "as \<noteq> [] \<Longrightarrow> fst (hd as) 8 = t0"
  shows "ct_collecting r nid mid ct (arrived_frags as) t0 sk (root_receive_ct kem cs conn sender ct nid mid as st)"
    and "frag_count ct - 1 \<notin> arrived_frags as \<Longrightarrow> tx_free (he_tx (rs_env st)) \<le>
      tx_free (he_tx (rs_env (root_receive_ct kem cs conn sender ct nid mid as st)))"
proof -
  have "ct_collecting r nid mid ct (arrived_frags as) t0 sk (root_receive_ct kem cs conn sender ct nid mid as st) \<and>
    (frag_count ct - 1 \<notin> arrived_frags as \<longrightarrow> tx_free (he_tx (rs_env st)) \<le>
      tx_free (he_tx (rs_env (root_receive_ct kem cs conn sender ct nid mid as st))))"
    using a t
  proof (induction as rule: rev_induct)
    case Nil
    then show ?case using c by (simp add: root_receive_ct_def arrived_frags_def)
  next
    case (snoc x as)
    obtain clk fl i where x: "x = (clk, fl, i)" by (cases x) auto
    let ?st = "root_receive_ct kem cs conn sender ct nid mid as st"
    have ar: "arrived_frags (as @ [x]) = insert i (arrived_frags as)" by (auto simp: arrived_frags_def x)
    have as0: "arrived_frags as = {} \<Longrightarrow> as = []" by (auto simp: arrived_frags_def)
    have sub: "arrived_frags as \<subset> {..<frag_count ct}" "i < frag_count ct"
      using snoc.prems(1) unfolding ar by auto
    have "\<forall>(clk, fl, i) \<in> set as. in_time cs t0 (\<lambda>k. clk (2 + (4 + k)))" "as \<noteq> [] \<Longrightarrow> fst (hd as) 8 = t0"
      using snoc.prems(2,3) by auto
    note ih = snoc.IH [OF sub(1) this]
    have tm: "in_time cs t0 (\<lambda>k. clk (2 + (4 + k)))" using snoc.prems(2) by (simp add: x)
    have t0: "arrived_frags as = {} \<Longrightarrow> clk 8 = t0" using snoc.prems(3) as0 by (auto simp: x)
    have ne: "insert i (arrived_frags as) \<noteq> {..<frag_count ct}" using snoc.prems(1) unfolding ar by blast
    note p = ct_callback_partial [OF conjunct1 [OF ih] ct sub(2) psubset_imp_subset [OF sub(1)] ne tm t0 refl refl]
    show ?case unfolding ar unfolding x root_receive_ct_snoc using p(1,2) ih by (meson insertCI le_trans)
  qed
  then show "ct_collecting r nid mid ct (arrived_frags as) t0 sk (root_receive_ct kem cs conn sender ct nid mid as st)"
    and "frag_count ct - 1 \<notin> arrived_frags as \<Longrightarrow> tx_free (he_tx (rs_env st)) \<le>
      tx_free (he_tx (rs_env (root_receive_ct kem cs conn sender ct nid mid as st)))" by blast+
qed

lemma root_receive_ct_reachable:
  "root_reachable kem cs st \<Longrightarrow> root_reachable kem cs (root_receive_ct kem cs conn sender ct nid mid as st)"
proof (induction as rule: rev_induct)
  case (snoc x as)
  then show ?case
    by (cases x) (simp add: root_receive_ct_snoc root_reachable.step [OF _ root_step.receive])
qed (simp add: root_receive_ct_def)

section \<open>The first request of a node\<close>

lemma getpk_accept_step:
  assumes t: "touches r st0 st" and k: "he_root_has_keypair (rs_env st)" and room: "36 \<le> tx_free (he_tx (rs_env st))"
    and s: "s_state (session_deref (rs_sm st) r) = SESSION_STATE_IDLE" "s_node_id (session_deref (rs_sm st) r) = nid"
    and c: "ctx = \<lparr>uc_udp_conn = Some conn, uc_dest = Some dest\<rparr>"
    and st': "st' = root_rx_getpk kem cs clk ctx sender r nid mid st"
  shows "s_state (session_deref (rs_sm st') r) = SESSION_STATE_WAIT_CT \<and> s_node_id (session_deref (rs_sm st') r) = nid \<and>
    key_env (rs_env st) (rs_env st') \<and> he_rx_slots (rs_env st') = rx_slots_gc cs (clk 7) (he_rx_slots (rs_env st)) \<and>
    tx_pending (he_tx (rs_env st')) = tx_pending (he_tx (rs_env st)) +
      mset (map (wire_fragment (he_root_pk (rs_env st)) PQC_MSG_PK nid (s_next_msg_id (session_deref (rs_sm st) r)) PQC_FLAG_NONE) [0..<36])"
proof -
  let ?s = "session_deref (rs_sm st) r"
  let ?s0 = "upd_hs (\<lambda>m. m\<lparr>mh_getpk_rx := mh_getpk_rx m + 1\<rparr>) ?s"
  let ?st0 = "root_set_session r ?s0 st"
  have t0: "touches r st0 ?st0" using t by (intro touches_upd) (simp_all add: same_id_ops)
  have d0: "session_deref (rs_sm ?st0) r = ?s0" using t by (simp add: touches_def)
  have nf: "\<not> session_is_failed ?s0" using s by (simp add: session_is_failed_def)
  define st1 where "st1 = root_log [csv_event cs (clk 4) nid ''GETPK_ACCEPT'' (ucast mid) 0 0 0] ?st0"
  have t1: "touches r st0 st1" using t0 by (simp add: st1_def)
  have d1: "session_deref (rs_sm st1) r = ?s0" "rs_env st1 = rs_env st" using d0 by (simp_all add: st1_def)
  have st'1: "st' = root_start_handshake kem cs (\<lambda>k. clk (5 + k)) ctx r nid st1"
    unfolding st' root_rx_getpk_def Let_def using nf s d0 by (simp add: st1_def)
  have rt: "session_is_root ?s0" using touches_live [OF t] by (simp add: session_is_root_def)
  obtain s' env' where h: "hs_fsm_start kem cs (\<lambda>k. clk (5 + (2 + k))) (queue_send conn dest) ?s0 (rs_env st) = (True, s', env')"
      "s_state s' = SESSION_STATE_WAIT_CT" "s_node_id s' = nid"
      "tx_pending (he_tx env') = tx_pending (he_tx (rs_env st)) +
        mset (map (wire_fragment (he_root_pk (rs_env st)) PQC_MSG_PK nid (s_next_msg_id ?s) PQC_FLAG_NONE) [0..<36])"
    using start_root_with_keypair [OF touches_hs_inv [OF t] rt k room, of kem cs "\<lambda>k. clk (5 + (2 + k))" conn dest] s(2) by auto
  have sl: "he_rx_slots env' = rx_slots_gc cs (clk 7) (he_rx_slots (rs_env st))"
    using h(1) rt by (auto simp: hs_fsm_start_def hs_start_send_pk_def hs_fsm_root_init_keypair_def Let_def split: if_splits prod.splits)
  have "st' = root_set_session r s' ((root_impact_start cs (\<lambda>k. clk (5 + k)) nid st1)\<lparr>rs_env := env'\<rparr>)"
    unfolding st'1 root_start_handshake_def Let_def using h(1) d1 c by simp
  moreover have "session_deref (rs_sm (root_set_session r s' ((root_impact_start cs (\<lambda>k. clk (5 + k)) nid st1)\<lparr>rs_env := env'\<rparr>))) r = s'"
    using t1 by (auto simp: touches_def live_ref_def root_inv_def manager_inv_def root_set_session_def)
  ultimately show ?thesis using h sl hs_start_key_env [OF h(1)] by simp
qed

text \<open>A request from a node without a session, when a slot of the table is free.\<close>

lemma getpk_first_request:
  assumes z: "kem_sized kem" and inv: "root_inv st" and k: "he_root_has_keypair (rs_env st)" and room: "36 \<le> tx_free (he_tx (rs_env st))"
    and new: "session_manager_find nid (rs_sm st) = None" and free: "i < 10" "\<not> s_used (sm_sessions (rs_sm st) ! i)"
    and st': "st' = udp_rx_callback_root kem cs clk conn sender (getpk_packet nid) 10 st"
  shows "\<exists>r. root_inv st' \<and> live_ref r st' \<and> s_node_id (session_deref (rs_sm st') r) = nid \<and> root_awaits_ct (session_deref (rs_sm st') r) \<and>
    key_env (rs_env st) (rs_env st') \<and> he_rx_slots (rs_env st') = rx_slots_gc cs (clk 9) (he_rx_slots (rs_env st)) \<and>
    tx_pending (he_tx (rs_env st')) = tx_pending (he_tx (rs_env st)) +
      mset (map (wire_fragment (he_root_pk (rs_env st)) PQC_MSG_PK nid 0 PQC_FLAG_NONE) [0..<36])"
proof -
  obtain found sm where g: "session_manager_get_or_create (clk 0) nid (rs_sm st) = (found, sm)" by fastforce
  note gc = get_or_create_root_inv [OF inv g]
  have sf: "sessions_find nid (sm_sessions (rs_sm st)) = None" using new by (simp add: session_manager_find_def)
  have len: "length (sm_sessions (rs_sm st)) = 10" using inv by (simp add: root_inv_def manager_inv_def)
  obtain j where j: "first_index (\<lambda>i. \<not> s_used (sm_sessions (rs_sm st) ! i)) 10 = Some j"
    using first_index_exI [of i 10 "\<lambda>i. \<not> s_used (sm_sessions (rs_sm st) ! i)"] free by blast
  have f: "found = Some (Session_Slot j)" "sm = (rs_sm st)\<lparr>sm_sessions := (sm_sessions (rs_sm st))[j := session_init (clk 0) SESSION_ROLE_ROOT nid]\<rparr>"
    using g sf j len by (simp_all add: session_manager_get_or_create_def sessions_get_or_create_def)
  let ?r = "Session_Slot j" and ?st0 = "st\<lparr>rs_sm := sm\<rparr>"
  have t0: "touches ?r ?st0 ?st0" using gc(1,2) f(1) by (intro touches_refl) auto
  have s0: "session_deref sm ?r = session_init (clk 0) SESSION_ROLE_ROOT nid" using f(2) first_index_SomeD [OF j] len by simp
  let ?s1 = "session_set_peer_addr (clk 1) sender (session_deref sm ?r)"
  let ?st1 = "root_set_session ?r ?s1 ?st0"
  have t1: "touches ?r ?st0 ?st1" using t0 by (intro touches_upd) (simp_all add: same_id_ops)
  have d1: "session_deref (rs_sm ?st1) ?r = ?s1" "rs_env ?st1 = rs_env st"
    using root_deref_set [of ?st0 ?r ?s1] gc(1,2) f(1) by auto
  have e: "st' = root_rx_getpk kem cs (\<lambda>k. clk (2 + k)) \<lparr>uc_udp_conn = Some conn, uc_dest = Some sender\<rparr> sender ?r nid
      (getpk_packet nid ! PQC_HDR_MSG_ID) ?st1"
    unfolding st' udp_rx_callback_root_def root_rx_dispatch_def Let_def using getpk_packet_fields g f(1) by simp
  have a: "s_state ?s1 = SESSION_STATE_IDLE" "s_node_id ?s1 = nid" "s_next_msg_id ?s1 = 0"
    unfolding s0 by (simp_all add: session_ops session_zero_def)
  have t': "touches ?r ?st0 st'" unfolding e by (rule getpk_touches [OF z t1 refl])
  have "session_is_root (session_deref (rs_sm st') ?r)" using touches_live [OF t'] by blast
  with getpk_accept_step [OF t1 _ _ _ _ refl e] d1 a k room touchesD [OF t'] show ?thesis
    by (intro exI [of _ ?r]) (simp add: root_awaits_ct_def)
qed

lemma root_receive_ct_establishes:
  assumes st: "root_inv st" "live_ref r st" "s_node_id (session_deref (rs_sm st) r) = nid" "root_awaits_ct (session_deref (rs_sm st) r)"
      "he_root_has_keypair (rs_env st)" "slot_available r (he_rx_slots (rs_env st))"
    and ct: "length ct = 4481" "crypto_kem_dec kem ct (he_root_sk (rs_env st)) = (0, ss)"
    and arr: "arrivals = as @ [(clk, fl, i)]" "arrived_frags arrivals = {..<71}" "arrived_frags as \<noteq> {..<71}"
      "arrivals_in_time cs arrivals"
    and room: "0 < tx_free (he_tx (rs_env (root_receive_ct kem cs conn sender ct nid mid as st)))"
    and st': "st' = root_receive_ct kem cs conn sender ct nid mid arrivals st"
  shows "session_is_established (session_deref (rs_sm st') r) \<and> s_ss (session_deref (rs_sm st') r) = ss \<and>
    s_aes_key (session_deref (rs_sm st') r) = crypto_worker_derive_aes_key ss \<and>
    (\<exists>ack_id. wire_fragment [mid] PQC_MSG_ACK nid ack_id PQC_FLAG_NONE 0 \<in># tx_pending (he_tx (rs_env st')))"
proof -
  define t0 where "t0 = fst (hd arrivals) 8"
  have fc: "frag_count ct = 71" using ct(1) by (simp add: frag_count_eq)
  have h0: "ct_collecting r nid mid ct {} t0 (he_root_sk (rs_env st)) st"
    using st by (simp add: ct_collecting_def hs_holding_def slot_available_def)
  have ar: "arrived_frags arrivals = insert i (arrived_frags as)" by (auto simp: arrived_frags_def arr(1))
  have sub: "arrived_frags as \<subset> {..<frag_count ct}" "i < frag_count ct" "insert i (arrived_frags as) = {..<frag_count ct}"
    using arr(2,3) ar fc by auto
  have tm: "\<forall>(clk, fl, i) \<in> set as. in_time cs t0 (\<lambda>k. clk (2 + (4 + k)))" "in_time cs t0 (\<lambda>k. clk (2 + (4 + k)))"
    using arr(4) by (auto simp: arrivals_in_time_def t0_def arr(1))
  have hd: "as \<noteq> [] \<Longrightarrow> fst (hd as) 8 = t0" "as = [] \<Longrightarrow> clk 8 = t0" by (simp_all add: t0_def arr(1))
  note c = root_receive_ct_collects(1) [OF h0 ct(1) sub(1) tm(1) hd(1)]
  have e0: "arrived_frags as = {} \<Longrightarrow> clk 8 = t0" using hd(2) by (auto simp: arrived_frags_def)
  from ct_callback_complete [OF c ct(1) sub(2) psubset_imp_subset [OF sub(1)] sub(3) tm(2) e0 refl room ct(2) refl]
  show ?thesis unfolding st' arr(1) root_receive_ct_snoc by simp
qed

section \<open>An example run\<close>

text \<open>Node 7 asks for the public key and sends its ciphertext; the clock stands still.\<close>

definition example_start :: "unit root_state" where
  "example_start = udp_rx_callback_root constant_kem 128 (\<lambda>k. 0) 0 5 (getpk_packet 7) 10
     (PQC_process_init constant_kem 128 (\<lambda>k. 0) 5678 (root_boot ()))"

definition example_arrivals :: "nat \<Rightarrow> ((nat \<Rightarrow> clock_time_t) \<times> u8 \<times> nat) list" where
  "example_arrivals n = map (\<lambda>i. (\<lambda>k. 0, 0, i)) [0..<n]"

definition example_end :: "unit root_state" where
  "example_end = root_receive_ct constant_kem 128 0 5 (replicate 4481 3) 7 0 (example_arrivals 71) example_start"

lemma example_init:
  fixes st :: "unit root_state"
  assumes st: "st = PQC_process_init constant_kem 128 (\<lambda>k. 0) 5678 (root_boot ())"
  shows "root_inv st" "he_root_has_keypair (rs_env st)" "he_root_sk (rs_env st) = replicate 2289 2" "tx_free (he_tx (rs_env st)) = 96"
    "tx_pending (he_tx (rs_env st)) = {#}" "session_manager_find 7 (rs_sm st) = None" "\<not> s_used (sm_sessions (rs_sm st) ! 0)"
    "he_rx_slots (rs_env st) = replicate 2 rx_slot_zero"
proof -
  show "root_inv st" unfolding st by (rule root_init_inv [OF constant_kem_sized])
  have e: "rs_env st = (hs_env_boot ())\<lparr>he_tx := pqc_tx_init (he_tx (hs_env_boot ())), he_root_pk := replicate 2249 1,
      he_root_sk := replicate 2289 2, he_prng := (), he_root_has_keypair := True\<rparr>"
    "sm_sessions (rs_sm st) = replicate 10 session_zero"
    unfolding st PQC_process_init_def by (simp_all add: Let_def root_boot_def root_set_tx_def root_log_def session_manager_init_def
        hs_fsm_root_init_keypair_def crypto_worker_keypair_def hs_env_boot_def)
  then show "he_root_has_keypair (rs_env st)" "he_root_sk (rs_env st) = replicate 2289 2" "tx_free (he_tx (rs_env st)) = 96"
    "tx_pending (he_tx (rs_env st)) = {#}" "session_manager_find 7 (rs_sm st) = None" "\<not> s_used (sm_sessions (rs_sm st) ! 0)"
    "he_rx_slots (rs_env st) = replicate 2 rx_slot_zero"
    by (simp_all add: tx_free_def tx_pending_def pqc_tx_init_def session_manager_find_def sessions_find_def first_index_None
        session_zero_def hs_env_boot_def)
qed

lemma example_start_facts:
  obtains r where "root_inv example_start" "live_ref r example_start" "s_node_id (session_deref (rs_sm example_start) r) = 7"
    "root_awaits_ct (session_deref (rs_sm example_start) r)" "he_root_has_keypair (rs_env example_start)"
    "slot_available r (he_rx_slots (rs_env example_start))" "tx_free (he_tx (rs_env example_start)) = 60"
proof -
  define st where "st = PQC_process_init constant_kem 128 (\<lambda>k. 0) 5678 (root_boot ())"
  note i = example_init [OF st_def]
  obtain r where r: "root_inv example_start" "live_ref r example_start" "s_node_id (session_deref (rs_sm example_start) r) = 7"
      "root_awaits_ct (session_deref (rs_sm example_start) r)" "key_env (rs_env st) (rs_env example_start)"
      "he_rx_slots (rs_env example_start) = rx_slots_gc 128 0 (he_rx_slots (rs_env st))"
      "tx_pending (he_tx (rs_env example_start)) = tx_pending (he_tx (rs_env st)) +
        mset (map (wire_fragment (he_root_pk (rs_env st)) PQC_MSG_PK 7 0 PQC_FLAG_NONE) [0..<36])"
    using getpk_first_request [OF constant_kem_sized i(1,2) _ i(6) _ i(7) example_start_def [folded st_def]] i(4) by auto
  have "tx_inv (he_tx (rs_env example_start))" using r(1) by (simp add: root_inv_def hs_inv_def)
  then have "tx_free (he_tx (rs_env example_start)) = 60"
    using size_tx_pending [of "he_tx (rs_env example_start)"] r(7) i(5) by (simp add: tx_free_def)
  moreover have "slot_available r (he_rx_slots (rs_env example_start))"
    unfolding r(6) i(8) by (rule slot_available_gc) (auto simp: slot_available_def rx_slot_find_def first_index_None rx_slot_zero_def numeral_2_eq_2 less_Suc_eq)
  moreover have "he_root_has_keypair (rs_env example_start)" using r(5) i(2) by (simp add: key_env_def)
  ultimately show thesis using that r(1-4) by blast
qed

lemma example_arrivals_facts:
  "example_arrivals 71 = example_arrivals 70 @ [(\<lambda>k. 0, 0, 70)]" "arrived_frags (example_arrivals n) = {..<n}"
  "arrivals_in_time 128 (example_arrivals 71)"
proof -
  have u: "[0..<71] = [0..<70] @ [70 :: nat]" by (simp add: upt_Suc_append [of 0 70, simplified])
  show "example_arrivals 71 = example_arrivals 70 @ [(\<lambda>k. 0, 0, 70)]" unfolding example_arrivals_def u by simp
  show "arrived_frags (example_arrivals n) = {..<n}"
    by (simp add: example_arrivals_def arrived_frags_def image_image lessThan_atLeast0)
  have "hd (example_arrivals 71) = (\<lambda>k. 0, 0, 0)" unfolding example_arrivals_def by (simp add: upt_conv_Cons)
  then show "arrivals_in_time 128 (example_arrivals 71)"
    by (auto simp: arrivals_in_time_def in_time_def example_arrivals_def)
qed

lemma example_room:
  assumes "root_inv example_start" "live_ref r example_start" "s_node_id (session_deref (rs_sm example_start) r) = 7"
    "root_awaits_ct (session_deref (rs_sm example_start) r)" "he_root_has_keypair (rs_env example_start)"
    "slot_available r (he_rx_slots (rs_env example_start))" "tx_free (he_tx (rs_env example_start)) = 60"
  shows "0 < tx_free (he_tx (rs_env (root_receive_ct constant_kem 128 0 5 (replicate 4481 3) 7 0 (example_arrivals 70) example_start)))"
proof -
  let ?ct = "replicate 4481 (3 :: u8)"
  have fc: "frag_count ?ct = 71" by (simp add: frag_count_eq)
  have h: "ct_collecting r 7 0 ?ct {} 0 (he_root_sk (rs_env example_start)) example_start"
    using assms by (simp add: ct_collecting_def hs_holding_def slot_available_def)
  have "\<forall>(clk, fl, i) \<in> set (example_arrivals 70). in_time 128 0 (\<lambda>k. clk (2 + (4 + k)))"
    by (auto simp: example_arrivals_def in_time_def)
  moreover have "fst (hd (example_arrivals 70)) 8 = 0" by (simp add: example_arrivals_def upt_conv_Cons)
  moreover have "{..<70} \<subset> {..<71 :: nat}" by auto
  ultimately show ?thesis
    using root_receive_ct_collects(2) [OF h, of "example_arrivals 70" 128 constant_kem 0 5] assms(7) fc by (simp add: example_arrivals_facts)
qed

section \<open>Properties\<close>

text \<open>
  C5.  The root program completes a handshake: when a session waits for a ciphertext and its fragments are
  given to the receive callback, in any order and with repetitions but within the reassembly timeout, the last
  one to arrive leaves the session established with the decapsulated secret and the key derived from it, and
  the acknowledgement that names the ciphertext in the transmit queue; a reassembly slot must be free at the
  start and a queue slot at the end.
\<close>

theorem root_program_establishes:
  assumes st: "root_inv st" "live_ref r st" "s_node_id (session_deref (rs_sm st) r) = nid" "root_awaits_ct (session_deref (rs_sm st) r)"
      "he_root_has_keypair (rs_env st)" "slot_available r (he_rx_slots (rs_env st))"
    and ct: "length ct = 4481" "crypto_kem_dec kem ct (he_root_sk (rs_env st)) = (0, ss)"
    and arr: "arrivals = as @ [(clk, fl, i)]" "arrived_frags arrivals = {..<71}" "arrived_frags as \<noteq> {..<71}"
      "arrivals_in_time cs arrivals"
    and room: "0 < tx_free (he_tx (rs_env (root_receive_ct kem cs conn sender ct nid mid as st)))"
    and st': "st' = root_receive_ct kem cs conn sender ct nid mid arrivals st"
  shows "session_is_established (session_deref (rs_sm st') r) \<and> s_ss (session_deref (rs_sm st') r) = ss \<and>
    s_aes_key (session_deref (rs_sm st') r) = crypto_worker_derive_aes_key ss \<and>
    (\<exists>ack_id. wire_fragment [mid] PQC_MSG_ACK nid ack_id PQC_FLAG_NONE 0 \<in># tx_pending (he_tx (rs_env st')))"
  by (rule root_receive_ct_establishes [OF assms])

theorem root_program_establishes_witness:
  "\<exists>r. session_is_established (session_deref (rs_sm example_end) r) \<and> s_ss (session_deref (rs_sm example_end) r) = replicate 64 4 \<and>
     (\<exists>ack_id. wire_fragment [0] PQC_MSG_ACK 7 ack_id PQC_FLAG_NONE 0 \<in># tx_pending (he_tx (rs_env example_end)))"
proof -
  obtain r where r: "root_inv example_start" "live_ref r example_start" "s_node_id (session_deref (rs_sm example_start) r) = 7"
    "root_awaits_ct (session_deref (rs_sm example_start) r)" "he_root_has_keypair (rs_env example_start)"
    "slot_available r (he_rx_slots (rs_env example_start))" "tx_free (he_tx (rs_env example_start)) = 60"
    by (rule example_start_facts)
  from root_program_establishes [OF r(1-6) _ constant_kem_simps(3) example_arrivals_facts(1) _ _ example_arrivals_facts(3)
      example_room [OF r] example_end_def]
  show ?thesis by (auto simp: example_arrivals_facts(2))
qed

text \<open>
  C2.  An established session of the root holds a key that its secret key explains: in every state the
  program can reach, the root has its key pair, the shared secret of the session is the result of a
  successful decapsulation under it, and the encryption key is the one derived from that secret.
\<close>

theorem established_keys_are_decapsulated:
  assumes "root_reachable kem cs st" and "kem_sized kem"
  shows "\<forall>s\<in>set (sm_sessions (rs_sm st)). session_is_established s \<longrightarrow>
    he_root_has_keypair (rs_env st) \<and> (\<exists>ct. crypto_kem_dec kem ct (he_root_sk (rs_env st)) = (0, s_ss s)) \<and>
    s_aes_key s = crypto_worker_derive_aes_key (s_ss s)"
  using root_reachable_inv [OF assms] by (auto simp: keys_inv_def key_from_def)

theorem established_keys_are_decapsulated_witness:
  "\<exists>s\<in>set (sm_sessions (rs_sm example_end)). session_is_established s \<and> s_aes_key s = crypto_worker_derive_aes_key (s_ss s) \<and>
     he_root_has_keypair (rs_env example_end) \<and>
     (\<exists>ct. crypto_kem_dec constant_kem ct (he_root_sk (rs_env example_end)) = (0, s_ss s))"
proof -
  obtain r where r: "root_inv example_start" "live_ref r example_start" "s_node_id (session_deref (rs_sm example_start) r) = 7"
    "root_awaits_ct (session_deref (rs_sm example_start) r)" "he_root_has_keypair (rs_env example_start)"
    "slot_available r (he_rx_slots (rs_env example_start))" "tx_free (he_tx (rs_env example_start)) = 60"
    by (rule example_start_facts)
  have re: "root_reachable constant_kem 128 example_end"
    unfolding example_end_def example_start_def
    by (intro root_receive_ct_reachable root_reachable.step [OF root_reachable.boot root_step.receive])
  have es: "session_is_established (session_deref (rs_sm example_end) r)"
    using root_receive_ct_establishes [OF r(1-6) _ constant_kem_simps(3) example_arrivals_facts(1) _ _ example_arrivals_facts(3)
      example_room [OF r] example_end_def] by (auto simp: example_arrivals_facts(2))
  obtain j where j: "r = Session_Slot j" "j < 10" using r(2) by (auto simp: live_ref_def)
  have "length (sm_sessions (rs_sm example_end)) = 10"
    using root_reachable_inv [OF re constant_kem_sized] by (simp add: root_inv_def manager_inv_def)
  then have "sm_sessions (rs_sm example_end) ! j \<in> set (sm_sessions (rs_sm example_end))" using j by simp
  with established_keys_are_decapsulated [OF re constant_kem_sized] es j show ?thesis by auto
qed


end
