(* ===== verification/Node_Main.thy ===== *)
theory Node_Main
  imports Handshake Console
begin

text \<open>
  The node program, \<open>src/node_main.c\<close>.  Its state is the local session, the handshake module with
  the transmit queue and the static variables of the file.  What the routing protocol and the sensor
  answer are arguments: \<open>reachable\<close>, \<open>root_addr\<close> (the address \<open>get_root_ipaddr\<close> stores, if it
  succeeds), \<open>joined\<close>, \<open>next_hop\<close> (the result of \<open>uip_ds6_defrt_choose\<close>) and the sensor reading.
  The free-text lines the program prints are not part of the state.
\<close>

section \<open>State\<close>

record 'g node_state =
  nd_session :: session_t
  nd_env :: "'g hs_env"
  nd_node_id :: u16
  nd_dest_address :: uip_ipaddr_t
  nd_getpk_in_flight :: bool
  nd_metrics_pending :: bool
  nd_has_last_next_hop :: bool
  nd_last_next_hop :: uip_ipaddr_t

definition nd_send_ctx :: "udp_conn \<Rightarrow> 'g node_state \<Rightarrow> pqc_udp_send_ctx_t" where
  "nd_send_ctx conn st = \<lparr>uc_udp_conn = Some conn, uc_dest = Some (nd_dest_address st)\<rparr>"

definition nd_set_tx :: "tx_state \<Rightarrow> 'g node_state \<Rightarrow> 'g node_state" where
  "nd_set_tx tx st = st\<lparr>nd_env := (nd_env st)\<lparr>he_tx := tx\<rparr>\<rparr>"

text \<open>The start of the main process, up to its loop; \<open>linkaddr\<close> is the node's link-layer address.\<close>

definition PQC_process_init_node :: "clock_time_t \<Rightarrow> u8 list \<Rightarrow> 'g node_state \<Rightarrow> 'g node_state" where
  "PQC_process_init_node now linkaddr st =
     (let st = nd_set_tx (pqc_tx_init (he_tx (nd_env st))) st;
          st = st\<lparr>nd_node_id := pqc_node_id_from_linkaddr linkaddr\<rparr>;
          sm = session_manager_init now SESSION_ROLE_NODE
      in st\<lparr>nd_session := (sm_local_session sm)\<lparr>s_node_id := nd_node_id st\<rparr>,
            nd_getpk_in_flight := False, nd_metrics_pending := False, nd_has_last_next_hop := False\<rparr>)"

section \<open>Helpers\<close>

definition log_next_hop_if_changed :: "uip_ipaddr_t option \<Rightarrow> 'g node_state \<Rightarrow> 'g node_state" where
  "log_next_hop_if_changed next_hop st =
     (case next_hop of
        None \<Rightarrow> (if nd_has_last_next_hop st then st\<lparr>nd_has_last_next_hop := False\<rparr> else st)
      | Some hop \<Rightarrow>
          (if \<not> nd_has_last_next_hop st \<or> nd_last_next_hop st \<noteq> hop
           then st\<lparr>nd_last_next_hop := hop, nd_has_last_next_hop := True\<rparr> else st))"

definition clear_getpk_wait :: "'g node_state \<Rightarrow> 'g node_state" where
  "clear_getpk_wait st = st\<lparr>nd_getpk_in_flight := False\<rparr>"

definition should_request_pk :: "'g node_state \<Rightarrow> bool" where
  "should_request_pk st \<longleftrightarrow>
     s_state (nd_session st) = SESSION_STATE_IDLE \<and> s_pending_msg_type (nd_session st) = 0 \<and>
     \<not> nd_getpk_in_flight st \<and> \<not> session_is_established (nd_session st)"

text \<open>The loop over the groups; \<open>clk g\<close> is the clock when group \<open>g\<close> is reported.\<close>

fun send_node_metrics_loop ::
  "(nat \<Rightarrow> clock_time_t) \<Rightarrow> udp_conn \<Rightarrow> nat list \<Rightarrow> 'g node_state \<Rightarrow> bool \<times> 'g node_state" where
  "send_node_metrics_loop clk conn [] st = (True, st\<lparr>nd_metrics_pending := False\<rparr>)"
| "send_node_metrics_loop clk conn (grp # groups) st =
     (if pqc_tx_free_slots (he_tx (nd_env st)) = 0 then (False, st\<lparr>nd_metrics_pending := True\<rparr>)
      else
        case pqc_send_metrics_report (clk grp) (Some conn) (Some (nd_dest_address st)) (of_nat grp)
               (nd_session st) (he_tx (nd_env st)) of
          (ok, s, tx) \<Rightarrow>
            let st = nd_set_tx tx (st\<lparr>nd_session := s\<rparr>)
            in if \<not> ok then (False, st\<lparr>nd_metrics_pending := True\<rparr>)
               else send_node_metrics_loop clk conn groups st)"

definition send_node_metrics :: "(nat \<Rightarrow> clock_time_t) \<Rightarrow> udp_conn \<Rightarrow> 'g node_state \<Rightarrow> bool \<times> 'g node_state" where
  "send_node_metrics clk conn st =
     send_node_metrics_loop clk conn [unat PQC_METRICS_GROUP_HS..<unat PQC_METRICS_GROUP_COUNT + 1] st"

section \<open>Events\<close>

text \<open>One expiry of the routing timer.\<close>

definition PQC_routing_step ::
  "u32 \<Rightarrow> (nat \<Rightarrow> clock_time_t) \<Rightarrow> udp_conn \<Rightarrow> bool \<Rightarrow> uip_ipaddr_t option \<Rightarrow> bool \<Rightarrow> uip_ipaddr_t option \<Rightarrow>
     'g node_state \<Rightarrow> 'g node_state" where
  "PQC_routing_step cs clk conn reachable root_addr joined next_hop st =
     (let st = log_next_hop_if_changed next_hop st in
      if \<not> reachable then st
      else
        case root_addr of
          None \<Rightarrow> st
        | Some addr \<Rightarrow>
            let st = st\<lparr>nd_dest_address := addr\<rparr> in
            if \<not> joined \<or> \<not> should_request_pk st then st
            else
              let (ok, tx) = pqc_send_GETPK (Some conn) (Some (nd_dest_address st)) (nd_node_id st) (he_tx (nd_env st));
                  st = nd_set_tx tx st
              in if ok
                 then
                   let s = nd_session st;
                       s = s\<lparr>s_metrics := pqc_metrics_handshake_start (clk 0) (s_metrics s)\<rparr>;
                       s = upd_hs (\<lambda>m. m\<lparr>mh_getpk_tx := mh_getpk_tx m + 1\<rparr>) s;
                       s = session_set_wait_pk s;
                       s = session_set_pending cs (clk 1) (clk 2) PQC_MSG_GETPK 0 s
                   in st\<lparr>nd_getpk_in_flight := True, nd_session := s\<rparr>
                 else st)"

definition PQC_send_step_node :: "'g node_state \<Rightarrow> 'g node_state" where
  "PQC_send_step_node st = nd_set_tx (snd (pqc_tx_process (he_tx (nd_env st)))) st"

text \<open>One expiry of the retry timer.\<close>

definition PQC_retry_step_node ::
  "u32 \<Rightarrow> (nat \<Rightarrow> clock_time_t) \<Rightarrow> udp_conn \<Rightarrow> bool \<Rightarrow> uip_ipaddr_t option \<Rightarrow> 'g node_state \<Rightarrow> 'g node_state" where
  "PQC_retry_step_node cs clk conn reachable root_addr st =
     (if session_is_established (nd_session st) \<or> \<not> reachable then st
      else
        case root_addr of
          None \<Rightarrow> st
        | Some addr \<Rightarrow>
            let st = st\<lparr>nd_dest_address := addr\<rparr>;
                (ok, s, env) = hs_fsm_retry cs clk (pqc_udp_send_fragment (nd_send_ctx conn st)) Local_Session
                                 (nd_session st) (nd_env st);
                st = st\<lparr>nd_session := s, nd_env := env\<rparr>
            in if session_is_failed s
               then st\<lparr>nd_session := (session_reset (clk 20) (clk 21) s)\<lparr>s_node_id := nd_node_id st\<rparr>,
                       nd_getpk_in_flight := False\<rparr>
               else st)"

text \<open>One expiry of the measurement timer; \<open>blank\<close> is the uninitialised local structure.\<close>

definition Temp_measurement_step ::
  "udp_conn \<Rightarrow> u32 \<times> u32 \<Rightarrow> pqc_temp_payload_t \<Rightarrow> 'g node_state \<Rightarrow> 'g node_state" where
  "Temp_measurement_step conn reading blank st =
     (if session_is_established (nd_session st)
      then
        let measurement = temp_measurement_read reading blank;
            (ok, s, tx) = pqc_send_encrypted_temp (Some conn) (Some (nd_dest_address st)) measurement
                            (nd_session st) (he_tx (nd_env st))
        in nd_set_tx tx (st\<lparr>nd_session := s\<rparr>)
      else st)"

definition udp_rx_callback_node ::
  "'g kem_api \<Rightarrow> u32 \<Rightarrow> (nat \<Rightarrow> clock_time_t) \<Rightarrow> udp_conn \<Rightarrow> u8 list \<Rightarrow> u16 \<Rightarrow> 'g node_state \<Rightarrow> 'g node_state" where
  "udp_rx_callback_node kem cs clk conn data datalen st =
     (if pqc_header_valid data datalen
      then
        let was_established = session_is_established (nd_session st);
            (ok, s, env) = hs_fsm_handle_fragment kem cs clk (pqc_udp_send_fragment (nd_send_ctx conn st)) Local_Session
                             data datalen (nd_session st) (nd_env st);
            st = st\<lparr>nd_session := s, nd_env := env\<rparr>;
            st = (if s_pending_msg_type (nd_session st) \<noteq> PQC_MSG_GETPK then clear_getpk_wait st else st)
        in if \<not> was_established \<and> session_is_established (nd_session st)
           then snd (send_node_metrics (\<lambda>k. clk (40 + k)) conn (st\<lparr>nd_metrics_pending := True\<rparr>))
           else if nd_metrics_pending st \<and> session_is_established (nd_session st)
           then snd (send_node_metrics (\<lambda>k. clk (40 + k)) conn st)
           else st
      else st)"

end
