(* ===== verification/Node_Run.thy ===== *)
theory Node_Run
  imports Node_Main Handshake_Safety Handshake_Steps
begin

text \<open>
  The runs of the node program as a step relation over its event handlers, the invariant that every reachable
  state satisfies, and what the request for the public key and the report of the metrics put into the queue.
\<close>

section \<open>The session of the node\<close>

text \<open>From the moment the ciphertext is sent the encryption key is the one derived from the shared secret.\<close>

definition node_key :: "session_t \<Rightarrow> bool" where
  "node_key s \<longleftrightarrow> (s_state s \<in> {SESSION_STATE_WAIT_ACK, SESSION_STATE_ESTABLISHED} \<longrightarrow>
     s_aes_key s = crypto_worker_derive_aes_key (s_ss s))"

definition node_session_inv :: "session_t \<Rightarrow> bool" where
  "node_session_inv s \<longleftrightarrow> session_inv s \<and> session_is_node s \<and> node_key s"

lemma node_key_core: "same_core s s' \<Longrightarrow> node_key s' = node_key s" "same_core s s' \<Longrightarrow> session_is_node s' = session_is_node s"
  by (simp_all add: node_key_def session_is_node_def same_core_fields)

lemma node_key_failed [simp]: "node_key (session_set_failed now s)" "session_is_node (session_set_failed now s) = session_is_node s"
  by (simp_all add: node_key_def session_is_node_def session_set_failed_def session_clear_pending_def Let_def)

lemma node_key_fields [simp]:
  "node_key (s_metrics_update f s) = node_key s" "node_key (s\<lparr>s_retry_deadline := d\<rparr>) = node_key s"
  "node_key (hs_mark_retry_for_transfer cs clk len s) = node_key s" "node_key (hs_mark_rx_retry cs clk s) = node_key s"
  "session_is_node (s_metrics_update f s) = session_is_node s" "session_is_node (s\<lparr>s_retry_deadline := d\<rparr>) = session_is_node s"
  "session_is_node (hs_mark_retry_for_transfer cs clk len s) = session_is_node s" "session_is_node (hs_mark_rx_retry cs clk s) = session_is_node s"
  by (simp_all add: node_key_def session_is_node_def hs_mark_retry_for_transfer_def hs_mark_rx_retry_def Let_def session_touch_def)

lemma hs_complete_node:
  assumes h: "hs_complete_message kem cs clk send self rx h s env = (ok, s', env')" and n: "session_is_node s" and k: "node_key s"
    and g: "fh_msg_type h = PQC_MSG_ACK \<Longrightarrow> s_state s = SESSION_STATE_WAIT_ACK"
  shows "session_is_node s' \<and> node_key s'"
proof -
  have P: "session_is_node s' \<and> node_key s'" if "hs_node_complete_pk kem cs clk send self rx s env = (ok, s', env')"
    using that n by (auto simp: hs_node_complete_pk_def hs_node_send_ct_def Let_def session_ops hs_set_pending_for_transfer_def
        node_key_def split: if_splits prod.splits)
  have A: "session_is_node s' \<and> node_key s'" if "hs_node_complete_ack clk self rx s env = (ok, s', env')" "s_state s = SESSION_STATE_WAIT_ACK"
    using that n k by (auto simp: hs_node_complete_ack_def Let_def session_ops node_key_def split: if_splits)
  show ?thesis
    using h n k P A g by (auto simp: hs_complete_message_def session_is_node_def session_is_root_def split: if_splits)
qed

lemma hs_handle_node:
  assumes h: "hs_fsm_handle_fragment kem cs clk send self data len s env = (ok, s', env')" and n: "session_is_node s" and k: "node_key s"
  shows "session_is_node s' \<and> node_key s'"
proof -
  have gs: "session_is_node s0 \<and> node_key s0" if "hs_gate_session hd' s = Some s0" for hd' s0
    using hs_gate_session_fields [OF that] n k by (simp add: node_key_def session_is_node_def)
  have st: "session_is_node s' \<and> node_key s'"
    if st: "hs_store_fragment kem cs c send self data hd' s0 e0 = (ok, s', env')" and s0: "session_is_node s0" "node_key s0"
      and g: "hs_gate_message hd' s0 = Gate_Pass" for c hd' e0 s0
    using hs_store_fragment_cases [OF st]
  proof
    assume "same_core s0 s'"
    then show ?thesis using s0 node_key_core by blast
  next
    assume "\<exists>rx s1 slots. hs_rx_after cs c self data hd' (he_rx_slots e0) = Some rx \<and> fragment_rx_complete rx \<and>
      same_core s0 s1 \<and> hs_complete_message kem cs (\<lambda>k. c (6 + k)) send self rx hd' s1 (e0\<lparr>he_rx_slots := slots\<rparr>) = (ok, s', env')"
    then obtain rx s1 slots where s1: "same_core s0 s1"
      and m: "hs_complete_message kem cs (\<lambda>k. c (6 + k)) send self rx hd' s1 (e0\<lparr>he_rx_slots := slots\<rparr>) = (ok, s', env')" by blast
    have "fh_msg_type hd' = PQC_MSG_ACK \<Longrightarrow> s_state s1 = SESSION_STATE_WAIT_ACK"
      using g s0(1) same_core_fields [OF s1] by (auto simp: hs_gate_message_def split: if_splits)
    then show ?thesis using hs_complete_node [OF m] s0 node_key_core [OF s1] by blast
  qed
  have ack: "session_is_node s1 \<and> node_key s1" if "send_ack send m s0 tx = (b, s1, tx')" "session_is_node s0 \<and> node_key s0" for m s0 tx b s1 tx'
    using node_key_core [OF send_ack_core [OF that(1)]] that(2) by blast
  have re: "session_is_node s1 \<and> node_key s1"
    if "retransmit_nack_fragments cs c send nk s0 e = (b, s1, e1)" "session_is_node s0 \<and> node_key s0" for c nk s0 e b s1 e1
    using node_key_core [OF retransmit_core [OF that(1)]] that(2) by blast
  show ?thesis
    using h n k gs st ack re
    by (fastforce simp: hs_fsm_handle_fragment_def Let_def split: option.splits hs_gate.splits if_splits prod.splits bool.splits)
qed

lemma not_root: "session_is_node s \<Longrightarrow> \<not> session_is_root s"
  by (simp add: session_is_node_def session_is_root_def)

lemma hs_retry_node:
  assumes "hs_fsm_retry cs clk send self s env = (ok, s', env')" and "session_is_node s" and "node_key s"
  shows "session_is_node s' \<and> node_key s'"
proof -
  have R: "session_is_node s' \<and> node_key s'" if "hs_retry_resend cs c send s e = (ok, s', env')" for c e
    using that assms(2,3) by (auto simp: hs_retry_resend_def Let_def split: if_splits prod.splits)
  show ?thesis
    using assms R by (auto simp: hs_fsm_retry_def Let_def not_root split: if_splits)
qed

section \<open>The invariant of the node program\<close>

definition node_inv :: "'g node_state \<Rightarrow> bool" where
  "node_inv st \<longleftrightarrow> session_inv (nd_session st) \<and> session_is_node (nd_session st) \<and> node_key (nd_session st) \<and> hs_inv (nd_env st)"

lemma hs_inv_tx: "hs_inv env \<Longrightarrow> tx_inv tx \<Longrightarrow> hs_inv (env\<lparr>he_tx := tx\<rparr>)"
  by (simp add: hs_inv_def)

lemma hs_inv_txD: "hs_inv env \<Longrightarrow> tx_inv (he_tx env)"
  by (simp add: hs_inv_def)

lemma node_inv_fields [simp]:
  "node_inv (st\<lparr>nd_getpk_in_flight := b\<rparr>) = node_inv st" "node_inv (st\<lparr>nd_metrics_pending := b\<rparr>) = node_inv st"
  "node_inv (st\<lparr>nd_dest_address := a\<rparr>) = node_inv st" "node_inv (st\<lparr>nd_has_last_next_hop := b\<rparr>) = node_inv st"
  "node_inv (st\<lparr>nd_last_next_hop := a\<rparr>) = node_inv st"
  by (simp_all add: node_inv_def)

lemma node_inv_set_tx: "node_inv st \<Longrightarrow> tx_inv tx \<Longrightarrow> node_inv (nd_set_tx tx st)"
  by (simp add: node_inv_def nd_set_tx_def hs_inv_tx)

text \<open>The queue after a call that sends at most one packet.\<close>

lemma send_fragment_inv:
  assumes "tx_inv tx" and "packet_ok d n" and "pqc_udp_send_fragment \<lparr>uc_udp_conn = Some conn, uc_dest = Some dest\<rparr> d n tx = (ok, tx')"
  shows "tx_inv tx'" and "ok \<longleftrightarrow> 0 < tx_free tx" and "tx_free tx' = tx_free tx - 1"
    and "ok \<Longrightarrow> tx_pending tx' = add_mset (take (unat n) d) (tx_pending tx)"
proof -
  have "tx_inv tx' \<and> (ok \<longleftrightarrow> 0 < tx_free tx) \<and> tx_free tx' = tx_free tx - 1 \<and>
    (ok \<longrightarrow> tx_pending tx' = add_mset (take (unat n) d) (tx_pending tx))"
  proof (cases "0 < tx_free tx")
    case True
    from tx_sender.send_accept [OF assms(1) True assms(2), of conn dest] assms(3) True show ?thesis by auto
  next
    case False
    with tx_sender.send_full [OF assms(1), of conn dest d n] assms show ?thesis by simp
  qed
  then show "tx_inv tx'" "ok \<longleftrightarrow> 0 < tx_free tx" "tx_free tx' = tx_free tx - 1"
    "ok \<Longrightarrow> tx_pending tx' = add_mset (take (unat n) d) (tx_pending tx)" by blast+
qed

lemma bare_header_ok: "packet_ok (pqc_header_write (replicate PQC_HEADER_LEN 0) mt nid mid 0 1 0 fl) 10"
  using header_write_fields [OF _ refl, of "replicate 10 0" mt nid mid 0 1 0 fl]
  by (auto simp: packet_ok_def intro!: header_valid_append)

lemma send_getpk_spec:
  assumes "tx_inv tx" and "pqc_send_GETPK (Some conn) (Some dest) nid tx = (ok, tx')"
  shows "tx_inv tx'" and "ok \<longleftrightarrow> 0 < tx_free tx"
    and "ok \<Longrightarrow> tx_pending tx' = add_mset (pqc_header_write (replicate PQC_HEADER_LEN 0) PQC_MSG_GETPK nid 0 0 1 0 PQC_FLAG_NONE) (tx_pending tx)"
proof -
  have s: "pqc_udp_send_fragment \<lparr>uc_udp_conn = Some conn, uc_dest = Some dest\<rparr>
      (pqc_header_write (replicate PQC_HEADER_LEN 0) PQC_MSG_GETPK nid 0 0 1 0 PQC_FLAG_NONE) 10 tx = (ok, tx')"
    using assms(2) by (simp add: pqc_send_GETPK_def Let_def)
  note i = send_fragment_inv [OF assms(1) bare_header_ok s]
  show "tx_inv tx'" "ok \<longleftrightarrow> 0 < tx_free tx" by (rule i)+
  show "ok \<Longrightarrow> tx_pending tx' = add_mset (pqc_header_write (replicate PQC_HEADER_LEN 0) PQC_MSG_GETPK nid 0 0 1 0 PQC_FLAG_NONE) (tx_pending tx)"
    using i(4) by simp
qed

text \<open>A report of the metrics is one packet of the payload that the codec produces.\<close>

lemma metrics_packet_ok:
  assumes "length payload = 26"
  shows "packet_ok (memcpy_at (pqc_header_write (replicate (PQC_HEADER_LEN + PQC_METRICS_REPORT_LEN) 0)
    PQC_MSG_METRICS nid mid 0 1 26 PQC_FLAG_NONE) PQC_HEADER_LEN payload) 36"
proof -
  let ?h = "pqc_header_write (replicate 36 0) PQC_MSG_METRICS nid mid 0 1 26 PQC_FLAG_NONE"
  note f = header_write_fields [OF _ refl, of "replicate 36 0" PQC_MSG_METRICS nid mid 0 1 26 PQC_FLAG_NONE]
  have "memcpy_at ?h 10 payload ! 0 = ?h ! 0" "memcpy_at ?h 10 payload ! 7 = ?h ! 7"
    using assms by (simp_all add: nth_memcpy_at)
  then show ?thesis using f assms by (auto simp: packet_ok_def intro!: header_valid_append)
qed

lemma encode_report_len:
  "pqc_metrics_encode_report report (replicate PQC_METRICS_REPORT_LEN 0) (of_nat PQC_METRICS_REPORT_LEN) = (len, p) \<Longrightarrow>
     len = 26 \<and> length p = 26"
  by (auto simp: pqc_metrics_encode_report_def Let_def split: if_splits)

lemma send_metrics_spec:
  assumes inv: "tx_inv tx" and e: "session_is_established s" and g: "grp \<noteq> 0" "grp \<le> PQC_METRICS_GROUP_COUNT"
    and r: "pqc_send_metrics_report now (Some conn) (Some dest) grp s tx = (ok, s', tx')"
  shows "tx_inv tx'" and "ok \<longleftrightarrow> 0 < tx_free tx" and "tx_free tx' = tx_free tx - 1" and "same_core s s'"
proof -
  have core: "same_core s (s_metrics_update f s)" "same_core s (s_metrics_update f (s\<lparr>s_metrics := m, s_next_msg_id := k\<rparr>))"
    "same_core s (s\<lparr>s_metrics := m, s_next_msg_id := k\<rparr>)" for f m k
    by (simp_all add: same_core_def)
  have "tx_inv tx' \<and> (ok \<longleftrightarrow> 0 < tx_free tx) \<and> tx_free tx' = tx_free tx - 1 \<and> same_core s s'"
  proof (cases "tx_free tx = 0")
    case True
    then have "pqc_tx_free_slots tx = 0" using tx_free_slots_unat [OF inv] by (simp add: unat_eq_0)
    then show ?thesis using r inv True core(1) by (auto simp: pqc_send_metrics_report_def)
  next
    case False
    then have fs: "pqc_tx_free_slots tx \<noteq> 0" using tx_free_slots_unat [OF inv] by (auto simp: unat_eq_0 [symmetric])
    obtain m report where b: "pqc_metrics_build_report now (s_metrics s) grp = (m, Some report)"
      using build_report_Some_iff [of now "s_metrics s" grp] g by (cases "pqc_metrics_build_report now (s_metrics s) grp") auto
    obtain len p where en: "pqc_metrics_encode_report report (replicate PQC_METRICS_REPORT_LEN 0) (of_nat PQC_METRICS_REPORT_LEN) = (len, p)"
      by fastforce
    note el = encode_report_len [OF en]
    let ?pk = "memcpy_at (pqc_header_write (replicate (PQC_HEADER_LEN + PQC_METRICS_REPORT_LEN) 0) PQC_MSG_METRICS (s_node_id s)
      (s_next_msg_id s) 0 1 26 PQC_FLAG_NONE) PQC_HEADER_LEN p"
    obtain q tx1 where q: "pqc_udp_send_fragment \<lparr>uc_udp_conn = Some conn, uc_dest = Some dest\<rparr> ?pk 36 tx = (q, tx1)" by fastforce
    note i = send_fragment_inv [OF inv metrics_packet_ok q]
    show ?thesis
      using r fs e b en el q i False core
      by (auto simp: pqc_send_metrics_report_def Let_def session_next_msg_id_def split: if_splits)
  qed
  then show "tx_inv tx'" "ok \<longleftrightarrow> 0 < tx_free tx" "tx_free tx' = tx_free tx - 1" "same_core s s'" by blast+
qed

lemma node_inv_core: "node_inv st \<Longrightarrow> same_core (nd_session st) s \<Longrightarrow> node_inv (st\<lparr>nd_session := s\<rparr>)"
  using session_inv_same_core node_key_core by (auto simp: node_inv_def)

lemma nd_set_tx_simps [simp]:
  "nd_session (nd_set_tx tx st) = nd_session st" "nd_env (nd_set_tx tx st) = (nd_env st)\<lparr>he_tx := tx\<rparr>"
  "nd_metrics_pending (nd_set_tx tx st) = nd_metrics_pending st"
  by (simp_all add: nd_set_tx_def)

lemma group_of_nat:
  assumes "1 \<le> g" "g \<le> 7"
  shows "(of_nat g :: u8) \<noteq> 0" "(of_nat g :: u8) \<le> PQC_METRICS_GROUP_COUNT"
proof -
  have "unat (of_nat g :: u8) = g" using assms by (intro unat_of_nat_u8) auto
  then show "(of_nat g :: u8) \<noteq> 0" "(of_nat g :: u8) \<le> PQC_METRICS_GROUP_COUNT"
    using assms by (auto simp: PQC_METRICS_GROUP_COUNT_def word_le_nat_alt simp del: word_of_nat_eq_0_iff dest: arg_cong [of _ _ unat])
qed

text \<open>The loop over the groups sends as many reports as there are free slots.\<close>

lemma metrics_loop_spec:
  assumes "node_inv st" and "session_is_established (nd_session st)" and "\<forall>g\<in>set groups. 1 \<le> g \<and> g \<le> 7"
    and "send_node_metrics_loop clk conn groups st = (ok, st')"
  shows "node_inv st' \<and> (ok \<longleftrightarrow> length groups \<le> tx_free (he_tx (nd_env st))) \<and> nd_metrics_pending st' = (\<not> ok) \<and>
    tx_free (he_tx (nd_env st')) = tx_free (he_tx (nd_env st)) - length groups \<and> session_is_established (nd_session st')"
  using assms
proof (induction groups arbitrary: st)
  case Nil
  then show ?case by auto
next
  case (Cons g groups)
  let ?tx = "he_tx (nd_env st)" and ?s = "nd_session st"
  have tx: "tx_inv ?tx" using Cons.prems(1) by (simp add: node_inv_def hs_inv_txD)
  have "1 \<le> g" "g \<le> 7" using Cons.prems(3) by auto
  note g = group_of_nat [OF this]
  show ?case
  proof (cases "tx_free ?tx = 0")
    case True
    then have "pqc_tx_free_slots ?tx = 0" using tx_free_slots_unat [OF tx] by (simp add: unat_eq_0)
    then show ?thesis using Cons.prems True by auto
  next
    case False
    then have fs: "pqc_tx_free_slots ?tx \<noteq> 0" using tx_free_slots_unat [OF tx] by (auto simp: unat_eq_0 [symmetric])
    obtain b s1 tx1 where r: "pqc_send_metrics_report (clk g) (Some conn) (Some (nd_dest_address st)) (of_nat g) ?s ?tx = (b, s1, tx1)"
      by (metis prod_cases3)
    note sp = send_metrics_spec [OF tx Cons.prems(2) g r]
    have b: "b" using sp(2) False by simp
    let ?st = "nd_set_tx tx1 (st\<lparr>nd_session := s1\<rparr>)"
    have i: "node_inv ?st" using node_inv_set_tx [OF node_inv_core [OF Cons.prems(1) sp(4)] sp(1)] .
    have e: "session_is_established (nd_session ?st)" using same_core_established [OF sp(4)] Cons.prems(2) by simp
    have "send_node_metrics_loop clk conn groups ?st = (ok, st')" using Cons.prems(4) fs r b by simp
    from Cons.IH [OF i e _ this] Cons.prems(3) sp(3) False show ?thesis by auto
  qed
qed

text \<open>
  The report of one group on the wire, from what it is made of: the sender's identifier and message
  number, the snapshot, the sequence number, the clock and the group.
\<close>

definition metrics_packet :: "u16 \<Rightarrow> u8 \<Rightarrow> pqc_metrics_snapshot_t \<Rightarrow> u32 \<Rightarrow> clock_time_t \<Rightarrow> nat \<Rightarrow> u8 list" where
  "metrics_packet nid mid m seq now g =
     pqc_header_write (replicate 10 0) PQC_MSG_METRICS nid mid 0 1 26 PQC_FLAG_NONE @
     (case metrics_group_values m (of_nat g) of
        Some (v0, v1, v2, v3) \<Rightarrow>
          report_to_bytes \<lparr>rp_version = PQC_METRICS_SCHEMA_VERSION, rp_group = of_nat g, rp_seq = seq, rp_uptime_ticks = now,
            rp_value0 = v0, rp_value1 = v1, rp_value2 = v2, rp_value3 = v3\<rparr>
      | None \<Rightarrow> [])"

lemma metrics_group_values_keep [simp]:
  "metrics_group_values (m\<lparr>ms_version := a, ms_seq := b, ms_uptime_ticks := c\<rparr>) grp = metrics_group_values m grp"
  by (simp add: metrics_group_values_def Let_def)

lemma header_append_payload:
  "length p = 26 \<Longrightarrow> memcpy_at (pqc_header_write (replicate 36 0) a b c d e f g) 10 p = pqc_header_write (replicate 10 0) a b c d e f g @ p"
  by (simp add: memcpy_at_def pqc_header_write_def pqc_header_set_node_id_def Let_def take_update_swap)

lemma send_metrics_packet:
  assumes inv: "tx_inv tx" and e: "session_is_established s" and g: "1 \<le> g" "g \<le> 7" and room: "0 < tx_free tx"
    and r: "pqc_send_metrics_report now (Some conn) (Some dest) (of_nat g) s tx = (ok, s', tx')"
  shows "tx_pending tx' = add_mset (metrics_packet (s_node_id s) (s_next_msg_id s) (s_metrics s) (ms_seq (s_metrics s) + 1) now g) (tx_pending tx)"
    and "s' = s\<lparr>s_metrics := (s_metrics s)\<lparr>ms_version := PQC_METRICS_SCHEMA_VERSION, ms_seq := ms_seq (s_metrics s) + 1, ms_uptime_ticks := now\<rparr>,
      s_next_msg_id := s_next_msg_id s + 1\<rparr>"
proof -
  have fs: "pqc_tx_free_slots tx \<noteq> 0" using tx_free_slots_unat [OF inv] room by (auto simp: unat_eq_0 [symmetric])
  have gg: "(of_nat g :: u8) \<noteq> 0" "(of_nat g :: u8) \<le> PQC_METRICS_GROUP_COUNT" using group_of_nat [OF g] .
  then obtain v0 v1 v2 v3 where v: "metrics_group_values (s_metrics s) (of_nat g) = Some (v0, v1, v2, v3)"
    using metrics_group_values_total [of "of_nat g" "s_metrics s"] by (cases "metrics_group_values (s_metrics s) (of_nat g)") auto
  let ?m = "(s_metrics s)\<lparr>ms_version := PQC_METRICS_SCHEMA_VERSION, ms_seq := ms_seq (s_metrics s) + 1, ms_uptime_ticks := now\<rparr>"
  let ?r = "\<lparr>rp_version = PQC_METRICS_SCHEMA_VERSION, rp_group = of_nat g, rp_seq = ms_seq (s_metrics s) + 1, rp_uptime_ticks = now,
            rp_value0 = v0, rp_value1 = v1, rp_value2 = v2, rp_value3 = v3\<rparr> :: pqc_metrics_report_t"
  have b: "pqc_metrics_build_report now (s_metrics s) (of_nat g) = (?m, Some ?r)"
    using gg v by (simp add: pqc_metrics_build_report_def Let_def not_less report_zero_def)
  obtain len p where en: "pqc_metrics_encode_report ?r (replicate PQC_METRICS_REPORT_LEN 0) (of_nat PQC_METRICS_REPORT_LEN) = (len, p)"
    by fastforce
  note el = encode_report_len [OF en]
  have p: "p = report_to_bytes ?r" using en el by (simp add: report_to_bytes_def)
  let ?pk = "memcpy_at (pqc_header_write (replicate (PQC_HEADER_LEN + PQC_METRICS_REPORT_LEN) 0) PQC_MSG_METRICS (s_node_id s)
      (s_next_msg_id s) 0 1 26 PQC_FLAG_NONE) PQC_HEADER_LEN p"
  have pk: "take 36 ?pk = metrics_packet (s_node_id s) (s_next_msg_id s) (s_metrics s) (ms_seq (s_metrics s) + 1) now g"
    using el v header_append_payload [of p] by (simp add: metrics_packet_def p)
  obtain q tx1 where q: "pqc_udp_send_fragment \<lparr>uc_udp_conn = Some conn, uc_dest = Some dest\<rparr> ?pk 36 tx = (q, tx1)" by fastforce
  note i = send_fragment_inv [OF inv metrics_packet_ok q]
  have tx1: "q" "tx_pending tx1 = add_mset (take 36 ?pk) (tx_pending tx)" using i(2,4) el room by simp_all
  have "pqc_send_metrics_report now (Some conn) (Some dest) (of_nat g) s tx = (True, s\<lparr>s_metrics := ?m, s_next_msg_id := s_next_msg_id s + 1\<rparr>, tx1)"
    using fs e b en el q tx1(1) by (simp add: pqc_send_metrics_report_def Let_def session_next_msg_id_def)
  with r tx1(2) pk show "tx_pending tx' = add_mset (metrics_packet (s_node_id s) (s_next_msg_id s) (s_metrics s) (ms_seq (s_metrics s) + 1) now g) (tx_pending tx)"
    and "s' = s\<lparr>s_metrics := ?m, s_next_msg_id := s_next_msg_id s + 1\<rparr>" by auto
qed

lemma metrics_loop_packets:
  assumes "node_inv st" "session_is_established (nd_session st)" "1 \<le> a" "a + n \<le> 8"
    and "send_node_metrics_loop clk conn [a..<a + n] st = (ok, st')"
    and "s_next_msg_id (nd_session st) = mid + of_nat (a - 1)" "ms_seq (s_metrics (nd_session st)) = seq + of_nat (a - 1)"
    and "\<And>grp. metrics_group_values (s_metrics (nd_session st)) grp = metrics_group_values m grp"
  shows "tx_pending (he_tx (nd_env st')) = tx_pending (he_tx (nd_env st)) +
    mset (map (\<lambda>g. metrics_packet (s_node_id (nd_session st)) (mid + of_nat (g - 1)) m (seq + of_nat g) (clk g) g)
      [a..<a + min n (tx_free (he_tx (nd_env st)))])"
  using assms
proof (induction n arbitrary: a st)
  case 0
  then show ?case by auto
next
  case (Suc n)
  let ?tx = "he_tx (nd_env st)" and ?s = "nd_session st"
  have tx: "tx_inv ?tx" using Suc.prems(1) by (simp add: node_inv_def hs_inv_txD)
  have up: "[a..<a + Suc n] = a # [Suc a..<Suc a + n]" by (simp add: upt_rec)
  have a7: "a \<le> 7" using Suc.prems(4) by simp
  show ?case
  proof (cases "tx_free ?tx = 0")
    case True
    then have "pqc_tx_free_slots ?tx = 0" using tx_free_slots_unat [OF tx] by (simp add: unat_eq_0)
    then show ?thesis using Suc.prems(5) True unfolding up by auto
  next
    case False
    then have fs: "pqc_tx_free_slots ?tx \<noteq> 0" using tx_free_slots_unat [OF tx] by (auto simp: unat_eq_0 [symmetric])
    obtain b s1 tx1 where r: "pqc_send_metrics_report (clk a) (Some conn) (Some (nd_dest_address st)) (of_nat a) ?s ?tx = (b, s1, tx1)"
      by (metis prod_cases3)
    note sp = send_metrics_spec [OF tx Suc.prems(2) group_of_nat [OF Suc.prems(3) a7] r]
      and pk = send_metrics_packet [OF tx Suc.prems(2,3) a7 _ r]
    have b: "b" using sp(2) False by simp
    let ?st = "nd_set_tx tx1 (st\<lparr>nd_session := s1\<rparr>)"
    have i: "node_inv ?st" using node_inv_set_tx [OF node_inv_core [OF Suc.prems(1) sp(4)] sp(1)] .
    have e: "session_is_established (nd_session ?st)" using same_core_established [OF sp(4)] Suc.prems(2) by simp
    have l: "send_node_metrics_loop clk conn [Suc a..<Suc a + n] ?st = (ok, st')" using Suc.prems(5) fs r b unfolding up by simp
    have mn: "a + min (Suc n) (tx_free ?tx) = Suc a + min n (tx_free tx1)" "a < a + min (Suc n) (tx_free ?tx)"
      using sp(3) False by auto
    have k: "of_nat a = of_nat (a - 1) + (1 :: u8)" "of_nat a = of_nat (a - 1) + (1 :: u32)"
      using Suc.prems(3) by (simp_all add: of_nat_diff)
    have s1: "s1 = ?s\<lparr>s_metrics := (s_metrics ?s)\<lparr>ms_version := PQC_METRICS_SCHEMA_VERSION, ms_seq := ms_seq (s_metrics ?s) + 1, ms_uptime_ticks := clk a\<rparr>,
        s_next_msg_id := s_next_msg_id ?s + 1\<rparr>" using pk(2) False by blast
    have "tx_pending (he_tx (nd_env st')) = tx_pending tx1 +
        mset (map (\<lambda>g. metrics_packet (s_node_id ?s) (mid + of_nat (g - 1)) m (seq + of_nat g) (clk g) g) [Suc a..<Suc a + min n (tx_free tx1)])"
      using Suc.IH [OF i e _ _ l] Suc.prems(4,6,7,8) k by (simp add: s1 add.assoc)
    moreover have "tx_pending tx1 = add_mset (metrics_packet (s_node_id ?s) (mid + of_nat (a - 1)) m (seq + of_nat a) (clk a) a) (tx_pending ?tx)"
      using pk(1) False Suc.prems(6,7,8) k by (simp add: metrics_packet_def add.assoc)
    ultimately show ?thesis unfolding mn(1) upt_conv_Cons [OF mn(2) [unfolded mn(1)]] by simp
  qed
qed

lemma send_node_metrics_eq: "send_node_metrics clk conn st = send_node_metrics_loop clk conn [1..<8] st"
  by (simp add: send_node_metrics_def metrics_group_defs)

section \<open>The handlers keep the invariant\<close>

lemma node_init_inv:
  fixes st :: "'g node_state"
  assumes "nd_env st = hs_env_boot g"
  shows "node_inv (PQC_process_init_node now linkaddr st)"
proof -
  have "hs_inv ((hs_env_boot g)\<lparr>he_tx := pqc_tx_init (he_tx (hs_env_boot g))\<rparr>)"
    by (rule hs_inv_tx [OF hs_inv_boot tx_inv_init])
  then show ?thesis
    using assms session_inv_ops(1) [of now SESSION_ROLE_NODE SESSION_INVALID_NODE_ID]
    by (simp add: PQC_process_init_node_def Let_def nd_set_tx_def node_inv_def session_manager_init_def node_key_def
        session_is_node_def) (simp add: session_init_def session_touch_def)
qed

lemma next_hop_inv [simp]: "node_inv (log_next_hop_if_changed h st) = node_inv st"
  by (auto simp: log_next_hop_if_changed_def split: option.split)

lemma node_inv_txD: "node_inv st \<Longrightarrow> tx_inv (he_tx (nd_env st))"
  by (simp add: node_inv_def hs_inv_txD)

text \<open>What the routing timer does to a node that has to ask for the public key, and to any other.\<close>

lemma routing_step_idle:
  fixes st :: "'g node_state"
  assumes "\<not> reachable \<or> root_addr = None \<or> \<not> joined \<or> \<not> should_request_pk st"
  shows "nd_session (PQC_routing_step cs clk conn reachable root_addr joined next_hop st) = nd_session st"
    and "nd_env (PQC_routing_step cs clk conn reachable root_addr joined next_hop st) = nd_env st"
    and "nd_getpk_in_flight (PQC_routing_step cs clk conn reachable root_addr joined next_hop st) = nd_getpk_in_flight st"
  using assms by (auto simp: PQC_routing_step_def log_next_hop_if_changed_def should_request_pk_def Let_def split: option.splits)

definition getpk_sent :: "u32 \<Rightarrow> (nat \<Rightarrow> clock_time_t) \<Rightarrow> session_t \<Rightarrow> session_t" where
  "getpk_sent cs clk s = session_set_pending cs (clk 1) (clk 2) PQC_MSG_GETPK 0 (session_set_wait_pk
     (upd_hs (\<lambda>m. m\<lparr>mh_getpk_tx := mh_getpk_tx m + 1\<rparr>) (s\<lparr>s_metrics := pqc_metrics_handshake_start (clk 0) (s_metrics s)\<rparr>)))"

lemma routing_step_request:
  fixes st :: "'g node_state" and next_hop cs clk
  assumes "reachable" "joined" "should_request_pk st"
    and "pqc_send_GETPK (Some conn) (Some addr) (nd_node_id st) (he_tx (nd_env st)) = (ok, tx)"
  defines "st' \<equiv> PQC_routing_step cs clk conn reachable (Some addr) joined next_hop st"
  shows "nd_env st' = (nd_env st)\<lparr>he_tx := tx\<rparr>" and "nd_getpk_in_flight st' = ok"
    and "nd_session st' = (if ok then getpk_sent cs clk (nd_session st) else nd_session st)" and "nd_dest_address st' = addr"
  using assms(1-4)
  by (auto simp: st'_def PQC_routing_step_def log_next_hop_if_changed_def should_request_pk_def Let_def getpk_sent_def nd_set_tx_def
      split: option.splits)

lemma getpk_sent_inv:
  assumes "session_inv s" "session_is_node s" "s_state s = SESSION_STATE_IDLE"
  shows "session_inv (getpk_sent cs clk s)" "session_is_node (getpk_sent cs clk s)" "node_key (getpk_sent cs clk s)"
    "s_state (getpk_sent cs clk s) = SESSION_STATE_WAIT_PK" "s_pending_msg_type (getpk_sent cs clk s) = PQC_MSG_GETPK"
  using assms by (simp_all add: getpk_sent_def session_inv_def session_ops node_key_def)

lemma routing_step_inv:
  assumes inv: "node_inv st"
  shows "node_inv (PQC_routing_step cs clk conn reachable root_addr joined next_hop st)"
proof (cases "\<not> reachable \<or> root_addr = None \<or> \<not> joined \<or> \<not> should_request_pk st")
  case True
  then show ?thesis using routing_step_idle [OF True, where cs = cs and clk = clk and conn = conn and next_hop = next_hop] inv
    by (simp add: node_inv_def)
next
  case False
  then obtain addr where a: "reachable" "root_addr = Some addr" "joined" "should_request_pk st" by auto
  obtain ok tx where g: "pqc_send_GETPK (Some conn) (Some addr) (nd_node_id st) (he_tx (nd_env st)) = (ok, tx)" by fastforce
  note r = routing_step_request [OF a(1,3,4) g, where cs = cs and clk = clk and next_hop = next_hop]
  have "s_state (nd_session st) = SESSION_STATE_IDLE" using a(4) by (simp add: should_request_pk_def)
  then show ?thesis
    using a r inv getpk_sent_inv [of "nd_session st" cs clk] send_getpk_spec(1) [OF node_inv_txD [OF inv] g]
    by (auto simp: node_inv_def hs_inv_tx)
qed

lemma send_step_node_inv: "node_inv st \<Longrightarrow> node_inv (PQC_send_step_node st)"
  unfolding PQC_send_step_node_def by (intro node_inv_set_tx tx_process_inv node_inv_txD)

lemma reset_node:
  assumes "session_inv s" "session_is_node s"
  shows "session_inv ((session_reset a b s)\<lparr>s_node_id := i\<rparr>)" "session_is_node ((session_reset a b s)\<lparr>s_node_id := i\<rparr>)"
    "node_key ((session_reset a b s)\<lparr>s_node_id := i\<rparr>)" "s_state ((session_reset a b s)\<lparr>s_node_id := i\<rparr>) = SESSION_STATE_IDLE"
  using assms session_inv_ops(2) [OF assms(1), of a b]
  by (auto simp: node_key_def session_is_node_def session_reset_def session_inv_def Let_def session_init_def session_touch_def
      session_set_peer_addr_def)

lemma retry_step_node_inv:
  assumes inv: "node_inv st"
  shows "node_inv (PQC_retry_step_node cs clk conn reachable root_addr st)"
proof (cases "session_is_established (nd_session st) \<or> \<not> reachable \<or> root_addr = None")
  case True
  then show ?thesis using inv by (auto simp: PQC_retry_step_node_def)
next
  case False
  then obtain addr where a: "\<not> session_is_established (nd_session st)" "reachable" "root_addr = Some addr" by auto
  obtain ok s env where h: "hs_fsm_retry cs clk (queue_send conn addr) Local_Session (nd_session st) (nd_env st) = (ok, s, env)"
    by (metis prod_cases3)
  have "hs_inv env \<and> session_inv s" using hs_retry_inv [OF _ _ h] inv by (simp add: node_inv_def)
  moreover have "session_is_node s \<and> node_key s" using hs_retry_node [OF h] inv by (simp add: node_inv_def)
  ultimately show ?thesis
    using a h reset_node [of s] by (simp add: PQC_retry_step_node_def Let_def nd_send_ctx_def node_inv_def)
qed

lemma send_temp_inv:
  assumes inv: "tx_inv tx" and e: "session_is_established s"
    and r: "pqc_send_encrypted_temp (Some conn) (Some dest) m s tx = (ok, s', tx')"
  shows "tx_inv tx'" "session_inv s' = session_inv s" "session_is_node s' = session_is_node s" "node_key s' = node_key s"
proof -
  show "tx_inv tx'"
  proof (cases ok)
    case True
    then have "pqc_tx_free_slots tx \<noteq> 0" using r by (auto simp: pqc_send_encrypted_temp_def)
    then have "tx_free tx \<noteq> 0" using tx_free_slots_unat [OF inv] by (metis unat_eq_zero)
    then show ?thesis using send_temp_queued [OF inv e, of conn dest m] r by auto
  next
    case False
    then show ?thesis using send_temp_refused(2) [of "Some conn" "Some dest" m s tx s' tx'] r inv by simp
  qed
  show "session_inv s' = session_inv s" "session_is_node s' = session_is_node s" "node_key s' = node_key s"
    using r by (auto simp: pqc_send_encrypted_temp_def Let_def session_next_msg_id_def session_inv_def session_is_node_def node_key_def
        split: if_splits prod.splits)
qed

lemma temp_step_inv:
  assumes inv: "node_inv st"
  shows "node_inv (Temp_measurement_step conn reading blank st)"
proof (cases "session_is_established (nd_session st)")
  case True
  obtain ok s tx where r: "pqc_send_encrypted_temp (Some conn) (Some (nd_dest_address st)) (temp_measurement_read reading blank)
      (nd_session st) (he_tx (nd_env st)) = (ok, s, tx)" by (metis prod_cases3)
  note t = send_temp_inv [OF node_inv_txD [OF inv] True r]
  have "node_inv (st\<lparr>nd_session := s\<rparr>)" using inv t by (simp add: node_inv_def)
  then show ?thesis using True r t(1) by (simp add: Temp_measurement_step_def node_inv_set_tx)
next
  case False
  then show ?thesis using inv by (simp add: Temp_measurement_step_def)
qed

lemma metrics_report_inv:
  assumes "node_inv st" "session_is_established (nd_session st)"
  shows "node_inv (snd (send_node_metrics clk conn st))"
proof -
  obtain ok st' where r: "send_node_metrics_loop clk conn [1..<8] st = (ok, st')" by fastforce
  from metrics_loop_spec [OF assms _ r] have "node_inv st'" by auto
  then show ?thesis unfolding send_node_metrics_eq r by simp
qed

lemma udp_rx_node_inv:
  assumes kem: "kem_sized kem" and inv: "node_inv st"
  shows "node_inv (udp_rx_callback_node kem cs clk conn data datalen st)"
proof (cases "pqc_header_valid data datalen")
  case True
  obtain ok s env where h: "hs_fsm_handle_fragment kem cs clk (queue_send conn (nd_dest_address st)) Local_Session data datalen
      (nd_session st) (nd_env st) = (ok, s, env)" by (metis prod_cases3)
  have "hs_inv env \<and> session_inv s" using hs_handle_fragment_inv [OF kem _ _ h] inv by (simp add: node_inv_def)
  moreover have "session_is_node s \<and> node_key s" using hs_handle_node [OF h] inv by (simp add: node_inv_def)
  ultimately have i: "node_inv (st\<lparr>nd_session := s, nd_env := env\<rparr>)" by (simp add: node_inv_def)
  let ?st = "if s_pending_msg_type s \<noteq> PQC_MSG_GETPK then clear_getpk_wait (st\<lparr>nd_session := s, nd_env := env\<rparr>)
    else st\<lparr>nd_session := s, nd_env := env\<rparr>"
  have "node_inv ?st" "node_inv (?st\<lparr>nd_metrics_pending := True\<rparr>)" "nd_session ?st = s"
    using i by (simp_all add: clear_getpk_wait_def)
  then show ?thesis
    using True h metrics_report_inv [of "?st\<lparr>nd_metrics_pending := True\<rparr>"] metrics_report_inv [of ?st]
    by (simp add: udp_rx_callback_node_def Let_def nd_send_ctx_def)
next
  case False
  then show ?thesis using inv by (simp add: udp_rx_callback_node_def)
qed

section \<open>Runs\<close>

text \<open>
  The node after its start and under any interleaving of its events: the routing timer, the transmit timer,
  the retry timer, the measurement timer and packets.
\<close>

definition node_boot :: "'g \<Rightarrow> 'g node_state" where
  "node_boot g = \<lparr>nd_session = session_zero, nd_env = hs_env_boot g, nd_node_id = 0, nd_dest_address = 0,
     nd_getpk_in_flight = False, nd_metrics_pending = False, nd_has_last_next_hop = False, nd_last_next_hop = 0\<rparr>"

inductive node_step :: "'g kem_api \<Rightarrow> u32 \<Rightarrow> 'g node_state \<Rightarrow> 'g node_state \<Rightarrow> bool" for kem cs where
  routing: "node_step kem cs st (PQC_routing_step cs clk conn reachable root_addr joined next_hop st)"
| transmit: "node_step kem cs st (PQC_send_step_node st)"
| retry: "node_step kem cs st (PQC_retry_step_node cs clk conn reachable root_addr st)"
| measure_temp: "node_step kem cs st (Temp_measurement_step conn reading blank st)"
| receive: "node_step kem cs st (udp_rx_callback_node kem cs clk conn data datalen st)"

inductive node_reachable :: "'g kem_api \<Rightarrow> u32 \<Rightarrow> 'g node_state \<Rightarrow> bool" for kem cs where
  boot: "node_reachable kem cs (PQC_process_init_node now linkaddr (node_boot g))"
| step: "node_reachable kem cs st \<Longrightarrow> node_step kem cs st st' \<Longrightarrow> node_reachable kem cs st'"

lemma node_step_inv: "node_step kem cs st st' \<Longrightarrow> kem_sized kem \<Longrightarrow> node_inv st \<Longrightarrow> node_inv st'"
  by (induction rule: node_step.induct)
    (simp_all add: routing_step_inv send_step_node_inv retry_step_node_inv temp_step_inv udp_rx_node_inv)

lemma node_reachable_inv: "node_reachable kem cs st \<Longrightarrow> kem_sized kem \<Longrightarrow> node_inv st"
  by (induction rule: node_reachable.induct) (auto intro: node_step_inv node_init_inv simp: node_boot_def)

section \<open>Properties\<close>

text \<open>
  C20.  The node program keeps its data well formed: in every state it can reach, whatever packets come and
  whenever its timers run, the established flag and the state of its session agree, at most three repetitions
  were made, the session has the role of a node, the transmit queue counts its active slots and the
  reassembly slots are consistent; and once the ciphertext is out, the encryption key is the one derived
  from the shared secret.
\<close>

theorem node_program_invariant:
  assumes "node_reachable kem cs st" and "kem_sized kem"
  shows "session_inv (nd_session st) \<and> session_is_node (nd_session st) \<and> hs_inv (nd_env st) \<and>
    (s_state (nd_session st) \<in> {SESSION_STATE_WAIT_ACK, SESSION_STATE_ESTABLISHED} \<longrightarrow>
       s_aes_key (nd_session st) = crypto_worker_derive_aes_key (s_ss (nd_session st)))"
  using node_reachable_inv [OF assms] by (simp add: node_inv_def node_key_def)

theorem node_program_invariant_witness:
  "let st = PQC_retry_step_node 128 (\<lambda>k. 9) 0 True (Some 5) (PQC_routing_step 128 (\<lambda>k. 0) 0 True (Some 5) True None
              (PQC_process_init_node 0 [1, 2] (node_boot ())))
   in session_inv (nd_session st) \<and> session_is_node (nd_session st) \<and> hs_inv (nd_env st)"
proof -
  have "node_reachable constant_kem 128 (PQC_retry_step_node 128 (\<lambda>k. 9) 0 True (Some 5)
      (PQC_routing_step 128 (\<lambda>k. 0) 0 True (Some 5) True None (PQC_process_init_node 0 [1, 2] (node_boot ()))))"
    by (rule node_reachable.step [OF node_reachable.step [OF node_reachable.boot node_step.routing] node_step.retry])
  from node_program_invariant [OF this constant_kem_sized] show ?thesis by (simp add: Let_def)
qed

text \<open>
  C21.  The routing timer asks for the public key once: a joined node whose root is
  reachable, that has no message pending and a free slot in its queue, queues one request with its own
  identifier, waits for the public key and does not ask again while the request is in flight.
\<close>

theorem routing_requests_once:
  assumes inv: "node_inv st" and r: "should_request_pk st" and free: "0 < tx_free (he_tx (nd_env st))"
    and st': "st' = PQC_routing_step cs clk conn True (Some addr) True next_hop st"
  shows "tx_pending (he_tx (nd_env st')) = add_mset
      (pqc_header_write (replicate PQC_HEADER_LEN 0) PQC_MSG_GETPK (nd_node_id st) 0 0 1 0 PQC_FLAG_NONE) (tx_pending (he_tx (nd_env st)))
    \<and> s_state (nd_session st') = SESSION_STATE_WAIT_PK \<and> s_pending_msg_type (nd_session st') = PQC_MSG_GETPK
    \<and> nd_env (PQC_routing_step cs' clk' conn' reachable' root_addr' joined' next_hop' st') = nd_env st'"
proof -
  obtain ok tx where g: "pqc_send_GETPK (Some conn) (Some addr) (nd_node_id st) (he_tx (nd_env st)) = (ok, tx)" by fastforce
  note sp = send_getpk_spec [OF node_inv_txD [OF inv] g]
  have ok: "ok" using sp(2) free by simp
  note rs = routing_step_request [OF TrueI TrueI r g, where cs = cs and clk = clk and next_hop = next_hop, folded st']
  have "session_inv (nd_session st)" "session_is_node (nd_session st)" "s_state (nd_session st) = SESSION_STATE_IDLE"
    using inv r by (simp_all add: node_inv_def should_request_pk_def)
  note gs = getpk_sent_inv [OF this, of cs clk]
  have "\<not> should_request_pk st'" using rs(2) ok by (simp add: should_request_pk_def)
  then have "nd_env (PQC_routing_step cs' clk' conn' reachable' root_addr' joined' next_hop' st') = nd_env st'"
    by (intro routing_step_idle(2)) simp
  then show ?thesis using rs ok sp(3) gs(4,5) by simp
qed

text \<open>The state after the start of the program.\<close>

lemma boot_ready:
  assumes st_def: "st = PQC_process_init_node now linkaddr (node_boot g)"
  shows "node_inv st" "should_request_pk st" "tx_free (he_tx (nd_env st)) = 96"
proof -
  show "node_inv st" unfolding st_def by (intro node_init_inv [where g = g]) (simp add: node_boot_def)
  show "should_request_pk st"
    by (simp add: st_def PQC_process_init_node_def Let_def should_request_pk_def session_manager_init_def nd_set_tx_def)
      (simp add: session_ops session_zero_def)
  show "tx_free (he_tx (nd_env st)) = 96"
    by (simp add: st_def PQC_process_init_node_def Let_def nd_set_tx_def tx_free_def pqc_tx_init_def)
qed

theorem routing_requests_once_witness:
  "let st' = PQC_routing_step 128 (\<lambda>k. 0) 0 True (Some 5) True None (PQC_process_init_node 0 [1, 2] (node_boot ()))
   in PQC_MSG_GETPK \<in># image_mset (\<lambda>p. p ! 1) (tx_pending (he_tx (nd_env st'))) \<and>
      s_state (nd_session st') = SESSION_STATE_WAIT_PK"
proof -
  note b = boot_ready [OF refl, of 0 "[1, 2]" "()"]
  have "0 < tx_free (he_tx (nd_env (PQC_process_init_node 0 [1, 2] (node_boot ()))))" using b(3) by simp
  from routing_requests_once [OF b(1,2) this refl, of 128 "\<lambda>k. 0" 0 5 None] show ?thesis
    using header_write_fields(2) [OF _ refl, of "replicate 10 0"] by (simp add: Let_def)
qed

text \<open>
  C22.  The report of the metrics is all or pending: on an established session the node queues one report for
  each of the seven groups, in order, if the queue has seven free slots; otherwise it fills the queue with
  the reports of the first groups, says so and leaves the report marked as pending, so that the next packet
  triggers it again.  Each report is one packet with the node's identifier, the next message number, the
  next sequence number of the snapshot, the clock and the four values of its own group.
\<close>

theorem metrics_report_all_or_pending:
  assumes "node_inv st" and "session_is_established (nd_session st)" and "send_node_metrics clk conn st = (ok, st')"
    and "s = nd_session st"
  shows "(ok \<longleftrightarrow> 7 \<le> tx_free (he_tx (nd_env st))) \<and> nd_metrics_pending st' = (\<not> ok) \<and>
    tx_pending (he_tx (nd_env st')) = tx_pending (he_tx (nd_env st)) +
      mset (map (\<lambda>g. metrics_packet (s_node_id s) (s_next_msg_id s + of_nat (g - 1)) (s_metrics s)
                       (ms_seq (s_metrics s) + of_nat g) (clk g) g) [1..<1 + min 7 (tx_free (he_tx (nd_env st)))]) \<and>
    tx_free (he_tx (nd_env st')) = tx_free (he_tx (nd_env st)) - 7 \<and> session_is_established (nd_session st') \<and> node_inv st'"
proof -
  have r: "send_node_metrics_loop clk conn [1..<1 + 7] st = (ok, st')" using assms(3) unfolding send_node_metrics_eq by simp
  from metrics_loop_packets [OF assms(1,2) _ _ r, of "s_next_msg_id s" "ms_seq (s_metrics s)" "s_metrics s"]
  have "tx_pending (he_tx (nd_env st')) = tx_pending (he_tx (nd_env st)) +
      mset (map (\<lambda>g. metrics_packet (s_node_id s) (s_next_msg_id s + of_nat (g - 1)) (s_metrics s)
                       (ms_seq (s_metrics s) + of_nat g) (clk g) g) [1..<1 + min 7 (tx_free (he_tx (nd_env st)))])"
    by (simp add: assms(4))
  with metrics_loop_spec [OF assms(1,2) _ r] show ?thesis by auto
qed

definition node_example :: "unit node_state" where
  "node_example = (node_boot ())\<lparr>nd_session := (session_init 0 SESSION_ROLE_NODE 7)
     \<lparr>s_state := SESSION_STATE_ESTABLISHED, s_established := True, s_ss := replicate 64 3,
      s_aes_key := crypto_worker_derive_aes_key (replicate 64 3)\<rparr>,
     nd_env := (hs_env_boot ())\<lparr>he_tx := pqc_tx_init (he_tx (hs_env_boot ()))\<rparr>\<rparr>"

theorem metrics_report_all_or_pending_witness:
  "fst (send_node_metrics (\<lambda>k. 0) 0 node_example) \<and>
   tx_pending (he_tx (nd_env (snd (send_node_metrics (\<lambda>k. 0) 0 node_example)))) =
     mset (map (\<lambda>g. metrics_packet 7 (of_nat (g - 1)) (pqc_metrics_init 7) (of_nat g) 0 g) [1..<8])"
proof -
  obtain ok st' where r: "send_node_metrics (\<lambda>k. 0) 0 node_example = (ok, st')" by fastforce
  have k: "length (crypto_worker_derive_aes_key (replicate 64 3)) = 32" by simp
  have i: "node_inv node_example" "session_is_established (nd_session node_example)"
    using hs_inv_tx [OF hs_inv_boot tx_inv_init, of "he_tx (hs_env_boot ())" "()"] k
    by (simp_all add: node_example_def node_inv_def node_key_def session_inv_def session_is_established_def session_is_node_def
        session_init_def session_touch_def session_zero_def)
  have f: "tx_free (he_tx (nd_env node_example)) = 96" "tx_pending (he_tx (nd_env node_example)) = {#}"
    by (simp_all add: node_example_def tx_free_def pqc_tx_init_def tx_pending_def)
  have s: "s_node_id (nd_session node_example) = 7" "s_next_msg_id (nd_session node_example) = 0"
    "s_metrics (nd_session node_example) = pqc_metrics_init 7" "ms_seq (pqc_metrics_init 7) = 0"
    by (simp_all add: node_example_def session_init_def session_touch_def session_zero_def pqc_metrics_init_def metrics_zero_def)
  have u: "1 + min 7 96 = (8 :: nat)" by simp
  show ?thesis
    using metrics_report_all_or_pending [OF i r refl] unfolding r f s u fst_conv snd_conv add_0 by (simp del: upt_rec_numeral map_map)
qed

end
