(* ===== verification/Radio_Driver.thy ===== *)
theory Radio_Driver
  imports Console
begin

text \<open>
  The radio driver, \<open>src/radio_diver/efr32-radio_V2_corregido.c\<close>: the ring of four receive buffers
  that the interrupt handler fills and the radio process empties, the transmit status machine, and
  the parameter interface.  What the vendor's RAIL library answers is an argument: the received
  packet, the bytes the transmit FIFO accepted, status codes, signal strength and times.  The two
  wait loops of \<open>transmit\<close> run over a trace of what happens at each iteration: the interrupts, which
  store packets, move \<open>last_rx_time\<close> and set the transmit status while the loop runs, and the clock.  A
  loop that has not ended when the trace ends has no result.
\<close>

section \<open>State\<close>

datatype tx_status_t = TX_IDLE | TX_SENDING | TX_SENT | TX_NO_ACK | TX_CHANNEL_BUSY | TX_ERROR

datatype radio_result = RADIO_RESULT_OK | RADIO_RESULT_NOT_SUPPORTED | RADIO_RESULT_INVALID_VALUE | RADIO_RESULT_ERROR

datatype radio_tx_result = RADIO_TX_OK | RADIO_TX_ERR | RADIO_TX_COLLISION | RADIO_TX_NOACK

datatype radio_param = RADIO_PARAM_PAN_ID | RADIO_PARAM_CHANNEL | RADIO_PARAM_RSSI | RADIO_PARAM_64BIT_ADDR | RADIO_PARAM_OTHER nat

record rx_buffer_t =
  rb_rssi :: "16 word"
  rb_lqi :: "16 word"
  rb_len :: u8
  rb_buf :: "u8 list"

abbreviation (input) RX_BUF_COUNT :: nat where "RX_BUF_COUNT \<equiv> 4"
abbreviation (input) IEEE802154_MAX_LENGTH :: nat where "IEEE802154_MAX_LENGTH \<equiv> 127"

record radio_state =
  ra_tx_status :: tx_status_t
  ra_last_rx_time :: u64
  ra_rx_buf :: "rx_buffer_t list"
  ra_next_read :: nat
  ra_next_write :: nat
  ra_radio_stage :: u32
  ra_panid :: u16
  ra_channel :: int
  ra_wait_for_ack :: bool

section \<open>The receive ring\<close>

definition has_packet :: "radio_state \<Rightarrow> bool" where
  "has_packet st \<longleftrightarrow> 0 < rb_len (ra_rx_buf st ! ra_next_read st)"

definition get_full_rx_buf :: "radio_state \<Rightarrow> nat option \<times> radio_state" where
  "get_full_rx_buf st =
     (let nr = ra_next_read st in
      if 0 < rb_len (ra_rx_buf st ! nr)
      then (Some nr, st\<lparr>ra_next_read := (ra_next_read st + 1) mod RX_BUF_COUNT\<rparr>)
      else (None, st))"

definition get_empty_rx_buf :: "radio_state \<Rightarrow> nat option \<times> radio_state" where
  "get_empty_rx_buf st =
     (let nw = ra_next_write st in
      if rb_len (ra_rx_buf st ! nw) = 0
      then (Some nw, st\<lparr>ra_next_write := (ra_next_write st + 1) mod RX_BUF_COUNT\<rparr>)
      else (None, st))"

definition free_rx_buf :: "nat \<Rightarrow> radio_state \<Rightarrow> radio_state" where
  "free_rx_buf i st = st\<lparr>ra_rx_buf := (ra_rx_buf st)[i := (ra_rx_buf st ! i)\<lparr>rb_len := 0\<rparr>]\<rparr>"

text \<open>What RAIL reports about the oldest received packet; its bytes include the length byte.\<close>

record rail_packet =
  rk_ready :: bool
  rk_bytes :: "u8 list"
  rk_details_ok :: bool
  rk_crc_passed :: bool
  rk_rssi :: "16 word"
  rk_lqi :: "16 word"

text \<open>The stage written when a packet is released.\<close>

definition release_packet :: "radio_state \<Rightarrow> radio_state" where
  "release_packet st = (if ra_radio_stage st < 0xE0 then st\<lparr>ra_radio_stage := 0x17\<rparr> else st)"

definition move_to_rx_buffer :: "u64 \<Rightarrow> rail_packet option \<Rightarrow> radio_state \<Rightarrow> radio_state" where
  "move_to_rx_buffer rail_time packet st =
     (let st = st\<lparr>ra_radio_stage := 0x12\<rparr> in
      case packet of
        None \<Rightarrow> st\<lparr>ra_radio_stage := 0xE1\<rparr>
      | Some p \<Rightarrow>
          let st = st\<lparr>ra_radio_stage := 0x13, ra_last_rx_time := rail_time\<rparr>;
              raw_len = length (rk_bytes p)
          in if \<not> rk_ready p then release_packet (st\<lparr>ra_radio_stage := 0xE2\<rparr>)
             else if raw_len < 1 \<or> 128 < raw_len then release_packet (st\<lparr>ra_radio_stage := 0xE3\<rparr>)
             else
               let payload_len = raw_len - 1 in
               if 128 < payload_len then release_packet (st\<lparr>ra_radio_stage := 0xE7\<rparr>)
               else if \<not> rk_details_ok p then release_packet (st\<lparr>ra_radio_stage := 0xE4\<rparr>)
               else
                 let st = st\<lparr>ra_radio_stage := 0x14\<rparr> in
                 if \<not> rk_crc_passed p then release_packet (st\<lparr>ra_radio_stage := 0xE5\<rparr>)
                 else
                   case get_empty_rx_buf st of
                     (None, st) \<Rightarrow> release_packet (st\<lparr>ra_radio_stage := 0xE6\<rparr>)
                   | (Some d, st) \<Rightarrow>
                       let st = st\<lparr>ra_radio_stage := 0x15\<rparr>;
                           dest = ra_rx_buf st ! d;
                           buf = memcpy_at (rb_buf dest) 0 (rk_bytes p);
                           buf = (if 0 < payload_len then memcpy_at buf 0 (take payload_len (drop 1 buf)) else buf);
                           st = st\<lparr>ra_radio_stage := 0x16\<rparr>;
                           dest = dest\<lparr>rb_buf := buf, rb_rssi := rk_rssi p, rb_lqi := rk_lqi p, rb_len := of_nat payload_len\<rparr>
                       in release_packet (st\<lparr>ra_rx_buf := (ra_rx_buf st)[d := dest]\<rparr>))"

text \<open>
  The result is the frame with its signal attributes; \<^const>\<open>None\<close> is the return value 0.  A null buffer
  is answered like one of size 0.
\<close>

definition read_radio :: "nat \<Rightarrow> radio_state \<Rightarrow> (u8 list \<times> 16 word \<times> 16 word) option \<times> radio_state" where
  "read_radio bufsize st =
     (if bufsize = 0 then (None, st)
      else
        case get_full_rx_buf st of
          (None, st) \<Rightarrow> (None, st)
        | (Some i, st) \<Rightarrow>
            let b = ra_rx_buf st ! i; len = unat (rb_len b) in
            if bufsize < len then (None, free_rx_buf i st)
            else (Some (take len (rb_buf b), rb_rssi b, rb_lqi b), free_rx_buf i st))"

definition pending_packet :: "radio_state \<Rightarrow> bool" where
  "pending_packet st = has_packet st"

text \<open>One pass of the radio process: the frame handed to the MAC layer, if any.\<close>

definition radio_proc_step :: "nat \<Rightarrow> radio_state \<Rightarrow> u8 list option \<times> radio_state" where
  "radio_proc_step packetbuf_size st =
     (if has_packet st
      then case read_radio packetbuf_size st of
             (Some (frame, rssi, lqi), st) \<Rightarrow> (if 0 < length frame then (Some frame, st) else (None, st))
           | (None, st) \<Rightarrow> (None, st)
      else (None, st))"

section \<open>Transmitting\<close>

text \<open>The event bits the callback tests.\<close>

record rail_events =
  ev_tx_aborted :: bool
  ev_tx_blocked :: bool
  ev_tx_underflow :: bool
  ev_rx_ack_timeout :: bool
  ev_rx_packet_received :: bool
  ev_tx_packet_sent :: bool
  ev_tx_channel_busy :: bool

definition RAILCb_Generic :: "rail_events \<Rightarrow> u64 \<Rightarrow> rail_packet option \<Rightarrow> radio_state \<Rightarrow> radio_state" where
  "RAILCb_Generic ev rail_time packet st =
     (let st = (if ev_tx_aborted ev \<or> ev_tx_blocked ev \<or> ev_tx_underflow ev then st\<lparr>ra_tx_status := TX_ERROR\<rparr> else st);
          st = (if ev_rx_ack_timeout ev then st\<lparr>ra_tx_status := TX_NO_ACK\<rparr> else st);
          st = (if ev_rx_packet_received ev then move_to_rx_buffer rail_time packet st else st);
          st = (if ev_tx_packet_sent ev then st\<lparr>ra_tx_status := TX_SENT\<rparr> else st);
          st = (if ev_tx_channel_busy ev then st\<lparr>ra_tx_status := TX_CHANNEL_BUSY\<rparr> else st)
      in st)"

text \<open>
  \<open>written1\<close> and \<open>written2\<close> are what \<open>RAIL_WriteTxFifo\<close> returned for the length byte and the payload;
  the payload is \<^const>\<open>None\<close> for a null pointer.
\<close>

definition prepare :: "nat \<Rightarrow> nat \<Rightarrow> u8 list option \<Rightarrow> radio_state \<Rightarrow> radio_tx_result \<times> radio_state" where
  "prepare written1 written2 payload st =
     (case payload of
        None \<Rightarrow> (RADIO_TX_ERR, st)
      | Some data \<Rightarrow>
          if length data = 0 then (RADIO_TX_ERR, st)
          else if IEEE802154_MAX_LENGTH - 2 < length data then (RADIO_TX_ERR, st)
          else if written1 + written2 \<noteq> length data + 1 then (RADIO_TX_ERR, st)
          else (RADIO_TX_OK, st\<lparr>ra_wait_for_ack := bit (data ! 0) 5\<rparr>))"

text \<open>
  Interrupts between two statements of the driver: the events, the time and the packet of each, in
  order; the callback runs to its end for each of them.
\<close>

type_synonym radio_irq = "rail_events \<times> u64 \<times> rail_packet option"

definition run_irqs :: "radio_irq list \<Rightarrow> radio_state \<Rightarrow> radio_state" where
  "run_irqs irqs st = fold (\<lambda>(ev, t, p). RAILCb_Generic ev t p) irqs st"

text \<open>
  The wait for a pending automatic acknowledgement.  An iteration \<open>(irqs1, t1, irqs2, t2)\<close> has the
  interrupts up to the load of \<open>last_rx_time\<close>, the first reading of \<open>RAIL_GetTime()\<close>, the interrupts up to
  the next iteration or the end of the loop, and the second reading, which is taken when the first test
  succeeded.  A packet received in \<open>irqs1\<close> or \<open>irqs2\<close> moves \<open>last_rx_time\<close> and so prolongs the wait.
\<close>

fun autoack_wait :: "u32 \<Rightarrow> (radio_irq list \<times> u32 \<times> radio_irq list \<times> u32) list \<Rightarrow> radio_state \<Rightarrow> radio_state option" where
  "autoack_wait start [] st = None"
| "autoack_wait start ((irqs1, t1, irqs2, t2) # trace) st =
     (let st = run_irqs irqs1 st;
          waiting = (t1 - ucast (ra_last_rx_time st) :: u32) < 1000;
          st = run_irqs irqs2 st
      in if waiting
         then if 5000 < t2 - start then Some st else autoack_wait start trace st
         else Some st)"

text \<open>
  The wait for the end of the transmission.  An iteration \<open>(irqs1, now, irqs2)\<close> has the interrupts up to
  the load of \<open>tx_status\<close>, the clock, and the interrupts up to the next iteration or, at the timeout, up to
  the assignment of \<^const>\<open>TX_IDLE\<close>.  The result is the state and whether the wait timed out.
\<close>

fun tx_wait ::
  "u32 \<Rightarrow> clock_time_t \<Rightarrow> (radio_irq list \<times> clock_time_t \<times> radio_irq list) list \<Rightarrow> radio_state \<Rightarrow>
     (bool \<times> radio_state) option" where
  "tx_wait cs tx_start [] st = None"
| "tx_wait cs tx_start ((irqs1, now, irqs2) # trace) st =
     (let st = run_irqs irqs1 st in
      if ra_tx_status st \<noteq> TX_SENDING then Some (False, st)
      else if cs < now - tx_start then Some (True, (run_irqs irqs2 st)\<lparr>ra_tx_status := TX_IDLE\<rparr>)
      else tx_wait cs tx_start trace (run_irqs irqs2 st))"

text \<open>
  What the rest of the system does during one call of \<open>transmit\<close>: the interrupts before the busy test, the
  start and the iterations of the first wait, the interrupts and the answer of \<open>RAIL_StartCcaCsmaTx\<close>, the
  start and the iterations of the second wait, and the interrupts before each of the three loads of
  \<open>tx_status\<close> that choose the result and before the last assignment.  An interrupt between two loads of
  the test for a terminal status has the effect of one before the call or of one before the busy test.
\<close>

record transmit_env =
  tv_busy_irqs :: "radio_irq list"
  tv_ack_wait_start :: u32
  tv_ack_trace :: "(radio_irq list \<times> u32 \<times> radio_irq list \<times> u32) list"
  tv_start_irqs :: "radio_irq list"
  tv_start_ok :: bool
  tv_tx_start :: clock_time_t
  tv_tx_trace :: "(radio_irq list \<times> clock_time_t \<times> radio_irq list) list"
  tv_result_irqs :: "radio_irq list \<times> radio_irq list \<times> radio_irq list \<times> radio_irq list"

definition tx_terminal :: "tx_status_t \<Rightarrow> bool" where
  "tx_terminal s \<longleftrightarrow> s = TX_SENT \<or> s = TX_NO_ACK \<or> s = TX_CHANNEL_BUSY \<or> s = TX_ERROR"

definition tx_cleanup :: "radio_state \<Rightarrow> radio_state" where
  "tx_cleanup st = (if tx_terminal (ra_tx_status st) then st\<lparr>ra_tx_status := TX_IDLE\<rparr> else st)"

definition tx_result ::
  "radio_irq list \<times> radio_irq list \<times> radio_irq list \<times> radio_irq list \<Rightarrow> radio_state \<Rightarrow> radio_tx_result \<times> radio_state" where
  "tx_result irqs st =
     (case irqs of (irqs1, irqs2, irqs3, irqs4) \<Rightarrow>
        let st1 = run_irqs irqs1 st; st2 = run_irqs irqs2 st1; st3 = run_irqs irqs3 st2;
            (ret, st) = (if ra_tx_status st1 = TX_SENT then (RADIO_TX_OK, st1)
                         else if ra_tx_status st2 = TX_NO_ACK then (RADIO_TX_NOACK, st2)
                         else if ra_tx_status st3 = TX_CHANNEL_BUSY then (RADIO_TX_COLLISION, st3)
                         else (RADIO_TX_ERR, st3))
        in (ret, (run_irqs irqs4 st)\<lparr>ra_tx_status := TX_IDLE\<rparr>))"

definition transmit :: "u32 \<Rightarrow> transmit_env \<Rightarrow> radio_state \<Rightarrow> (radio_tx_result \<times> radio_state) option" where
  "transmit cs env st =
     (let st = run_irqs (tv_busy_irqs env) (tx_cleanup st) in
      if ra_tx_status st \<noteq> TX_IDLE then Some (RADIO_TX_ERR, st)
      else
        case autoack_wait (tv_ack_wait_start env) (tv_ack_trace env) st of
          None \<Rightarrow> None
        | Some st \<Rightarrow>
            let st = run_irqs (tv_start_irqs env) (st\<lparr>ra_tx_status := TX_SENDING\<rparr>) in
            if \<not> tv_start_ok env then Some (RADIO_TX_ERR, st\<lparr>ra_tx_status := TX_IDLE\<rparr>)
            else
              case tx_wait cs (tv_tx_start env) (tv_tx_trace env) st of
                None \<Rightarrow> None
              | Some (timed_out, st) \<Rightarrow>
                  if timed_out then Some (RADIO_TX_ERR, st) else Some (tx_result (tv_result_irqs env) st))"

definition send_radio ::
  "u32 \<Rightarrow> nat \<Rightarrow> nat \<Rightarrow> transmit_env \<Rightarrow> u8 list option \<Rightarrow> radio_state \<Rightarrow> (radio_tx_result \<times> radio_state) option" where
  "send_radio cs written1 written2 env payload st =
     (case prepare written1 written2 payload st of
        (ret, st) \<Rightarrow> if ret \<noteq> RADIO_TX_OK then Some (ret, st) else transmit cs env st)"

section \<open>Parameters\<close>

text \<open>
  \<open>null_value\<close> says that the pointer for the answer is null; \<open>rssi\<close> is the reading of \<open>RAIL_GetRssi\<close> in
  quarters of a dBm, \<^const>\<open>None\<close> when it is invalid.
\<close>

definition get_value :: "bool \<Rightarrow> int option \<Rightarrow> radio_param \<Rightarrow> radio_state \<Rightarrow> radio_result \<times> int option" where
  "get_value null_value rssi param st =
     (if null_value then (RADIO_RESULT_INVALID_VALUE, None)
      else
        case param of
          RADIO_PARAM_PAN_ID \<Rightarrow> (RADIO_RESULT_OK, Some (uint (ra_panid st)))
        | RADIO_PARAM_CHANNEL \<Rightarrow> (RADIO_RESULT_OK, Some (ra_channel st))
        | RADIO_PARAM_RSSI \<Rightarrow>
            (case rssi of Some v \<Rightarrow> (RADIO_RESULT_OK, Some (c_div v 4)) | None \<Rightarrow> (RADIO_RESULT_ERROR, None))
        | _ \<Rightarrow> (RADIO_RESULT_NOT_SUPPORTED, None))"

definition set_value :: "radio_param \<Rightarrow> int \<Rightarrow> radio_state \<Rightarrow> radio_result \<times> radio_state" where
  "set_value param val st =
     (case param of
        RADIO_PARAM_CHANNEL \<Rightarrow>
          (if val < 11 \<or> 26 < val then (RADIO_RESULT_INVALID_VALUE, st)
           else (RADIO_RESULT_OK, st\<lparr>ra_channel := val\<rparr>))
      | RADIO_PARAM_PAN_ID \<Rightarrow> (RADIO_RESULT_OK, st\<lparr>ra_panid := word_of_int val\<rparr>)
      | _ \<Rightarrow> (RADIO_RESULT_NOT_SUPPORTED, st))"

text \<open>The address handed to RAIL, byte-reversed; \<open>src\<close> is \<^const>\<open>None\<close> for a null pointer.\<close>

definition set_object :: "radio_param \<Rightarrow> u8 list option \<Rightarrow> nat \<Rightarrow> radio_result \<times> u8 list option" where
  "set_object param src sz =
     (if param = RADIO_PARAM_64BIT_ADDR
      then case src of
             None \<Rightarrow> (RADIO_RESULT_INVALID_VALUE, None)
           | Some a \<Rightarrow> if sz \<noteq> 8 then (RADIO_RESULT_INVALID_VALUE, None)
                       else (RADIO_RESULT_OK, Some (map (\<lambda>i. a ! (7 - i)) [0..<8]))
      else (RADIO_RESULT_NOT_SUPPORTED, None))"

definition channel_clear :: "int \<Rightarrow> bool" where
  "channel_clear rssi \<longleftrightarrow> \<not> - 85 < c_div rssi 4"

end
