(* ===== verification/Radio_Ring.thy ===== *)
theory Radio_Ring
  imports Radio_Driver
begin

text \<open>
  The receive ring of the radio driver is a first-in first-out queue of four frames, as long as every
  stored packet has a payload, and the bounded wait loops of a transmission end.
\<close>

section \<open>The ring is a bounded queue\<close>

text \<open>The buffers in reading order, and the frames waiting in them.\<close>

definition ring_order :: "radio_state \<Rightarrow> rx_buffer_t list" where
  "ring_order st = map (\<lambda>k. ra_rx_buf st ! ((ra_next_read st + k) mod 4)) [0..<4]"

definition rx_frame :: "rx_buffer_t \<Rightarrow> u8 list" where
  "rx_frame b = take (unat (rb_len b)) (rb_buf b)"

definition ring_frames :: "radio_state \<Rightarrow> u8 list list" where
  "ring_frames st = map rx_frame (takeWhile (\<lambda>b. rb_len b \<noteq> 0) (ring_order st))"

definition ring_inv :: "radio_state \<Rightarrow> bool" where
  "ring_inv st \<longleftrightarrow> length (ra_rx_buf st) = 4 \<and> ra_next_read st < 4 \<and>
     (\<forall>b\<in>set (ra_rx_buf st). length (rb_buf b) = 128 \<and> unat (rb_len b) \<le> 127) \<and>
     (\<exists>n\<le>4. ra_next_write st = (ra_next_read st + n) mod 4 \<and>
        map (\<lambda>b. rb_len b \<noteq> 0) (ring_order st) = replicate n True @ replicate (4 - n) False)"

lemma takeWhile_pattern:
  "map P xs = replicate n True @ replicate m False \<Longrightarrow> takeWhile P xs = take n xs"
proof (induction xs arbitrary: n)
  case (Cons x xs)
  then show ?case by (cases n; cases m) auto
qed auto

lemma ring_slot_inj: "k < 4 \<Longrightarrow> n < 4 \<Longrightarrow> (r + k) mod 4 = (r + n) mod 4 \<longleftrightarrow> k = (n :: nat)"
proof -
  assume kn: "k < 4" "n < 4"
  have "\<forall>q\<in>set [0..<4]. \<forall>k\<in>set [0..<4]. \<forall>n\<in>set [0..<4]. (q + k) mod 4 = (q + n) mod 4 \<longleftrightarrow> k = (n :: nat)"
    by code_simp
  then have "(r mod 4 + k) mod 4 = (r mod 4 + n) mod 4 \<longleftrightarrow> k = n" using kn by (simp del: upt.simps)
  then show ?thesis by (simp add: mod_simps)
qed

lemma ring_order_length [simp]: "length (ring_order st) = 4"
  by (simp add: ring_order_def)

lemma ring_order_nth: "k < 4 \<Longrightarrow> ring_order st ! k = ra_rx_buf st ! ((ra_next_read st + k) mod 4)"
  by (simp add: ring_order_def)

lemma ring_order_update:
  assumes "n < 4" "length (ra_rx_buf st) = 4"
  shows "ring_order (st\<lparr>ra_rx_buf := (ra_rx_buf st)[(ra_next_read st + n) mod 4 := d]\<rparr>) = (ring_order st)[n := d]"
proof (rule nth_equalityI)
  fix k assume "k < length (ring_order (st\<lparr>ra_rx_buf := (ra_rx_buf st)[(ra_next_read st + n) mod 4 := d]\<rparr>))"
  then have k: "k < 4" by simp
  show "ring_order (st\<lparr>ra_rx_buf := (ra_rx_buf st)[(ra_next_read st + n) mod 4 := d]\<rparr>) ! k = (ring_order st)[n := d] ! k"
    using ring_slot_inj [OF k assms(1), of "ra_next_read st"] k assms
    by (cases "k = n") (simp_all add: ring_order_nth)
qed simp

lemma ring_frames_inv:
  assumes "ring_inv st"
  obtains n where "n \<le> 4" "ra_next_write st = (ra_next_read st + n) mod 4" "length (ring_frames st) = n"
    "ring_frames st = map rx_frame (take n (ring_order st))"
    "map (\<lambda>b. rb_len b \<noteq> 0) (ring_order st) = replicate n True @ replicate (4 - n) False"
proof -
  obtain n where n: "n \<le> 4" "ra_next_write st = (ra_next_read st + n) mod 4"
      "map (\<lambda>b. rb_len b \<noteq> 0) (ring_order st) = replicate n True @ replicate (4 - n) False"
    using assms by (auto simp: ring_inv_def)
  have "takeWhile (\<lambda>b. rb_len b \<noteq> 0) (ring_order st) = take n (ring_order st)"
    using takeWhile_pattern [OF n(3)] .
  then show thesis using that n by (simp add: ring_frames_def)
qed

lemma ring_len_nth:
  assumes "map (\<lambda>b. rb_len b \<noteq> 0) (ring_order st) = replicate n True @ replicate (4 - n) False" "n \<le> 4" "k < 4"
  shows "rb_len (ra_rx_buf st ! ((ra_next_read st + k) mod 4)) \<noteq> 0 \<longleftrightarrow> k < n"
proof -
  have "map (\<lambda>b. rb_len b \<noteq> 0) (ring_order st) ! k = (replicate n True @ replicate (4 - n) False) ! k" using assms(1) by simp
  then show ?thesis using assms(2,3) by (simp add: nth_append ring_order_nth del: replicate_append_same)
qed

text \<open>A packet that the driver stores: received, intact, and not just a length byte.\<close>

definition packet_good :: "rail_packet \<Rightarrow> bool" where
  "packet_good p \<longleftrightarrow> rk_ready p \<and> 2 \<le> length (rk_bytes p) \<and> length (rk_bytes p) \<le> 128 \<and> rk_details_ok p \<and> rk_crc_passed p"

lemma move_good_full:
  assumes "packet_good p" "rb_len (ra_rx_buf st ! ra_next_write st) \<noteq> 0"
  shows "move_to_rx_buffer t (Some p) st = st\<lparr>ra_radio_stage := 0xE6, ra_last_rx_time := t\<rparr>"
proof -
  have "get_empty_rx_buf (st\<lparr>ra_last_rx_time := b, ra_radio_stage := a\<rparr>) = (None, st\<lparr>ra_last_rx_time := b, ra_radio_stage := a\<rparr>)" for a b
    using assms(2) by (simp add: get_empty_rx_buf_def Let_def)
  with assms(1) show ?thesis
    by (auto simp: move_to_rx_buffer_def release_packet_def packet_good_def Let_def)
qed

lemma move_good_room:
  assumes "packet_good p" "rb_len d = 0" and d: "d = ra_rx_buf st ! ra_next_write st"
    and b: "b = memcpy_at (rb_buf d) 0 (rk_bytes p)"
  shows "move_to_rx_buffer t (Some p) st = st\<lparr>ra_radio_stage := 0x17, ra_last_rx_time := t,
    ra_next_write := (ra_next_write st + 1) mod 4,
    ra_rx_buf := (ra_rx_buf st)[ra_next_write st := d\<lparr>rb_buf := memcpy_at b 0 (take (length (rk_bytes p) - 1) (drop 1 b)),
       rb_rssi := rk_rssi p, rb_lqi := rk_lqi p, rb_len := of_nat (length (rk_bytes p) - 1)\<rparr>]\<rparr>"
proof -
  have "get_empty_rx_buf (st\<lparr>ra_last_rx_time := y, ra_radio_stage := x\<rparr>) =
      (Some (ra_next_write st), st\<lparr>ra_last_rx_time := y, ra_radio_stage := x, ra_next_write := (ra_next_write st + 1) mod 4\<rparr>)" for x y
    using assms(2) d by (simp add: get_empty_rx_buf_def Let_def)
  with assms(1) b show ?thesis
    by (auto simp: move_to_rx_buffer_def release_packet_def packet_good_def Let_def d)
qed

text \<open>The buffer after the copy and the shift by the length byte holds the frame.\<close>

lemma stored_frame:
  assumes "packet_good p" "length (rb_buf d) = 128"
  defines "b \<equiv> memcpy_at (rb_buf d) 0 (rk_bytes p)"
  defines "d' \<equiv> d\<lparr>rb_buf := memcpy_at b 0 (take (length (rk_bytes p) - 1) (drop 1 b)), rb_rssi := rk_rssi p, rb_lqi := rk_lqi p,
    rb_len := of_nat (length (rk_bytes p) - 1)\<rparr>"
  shows "rx_frame d' = drop 1 (rk_bytes p)" "rb_len d' \<noteq> 0" "length (rb_buf d') = 128" "unat (rb_len d') \<le> 127"
proof -
  have g: "2 \<le> length (rk_bytes p)" "length (rk_bytes p) \<le> 128" using assms(1) by (auto simp: packet_good_def)
  have ul: "unat (of_nat (length (rk_bytes p) - 1) :: u8) = length (rk_bytes p) - 1" using g by (intro unat_of_nat_u8) linarith
  have tk: "take (length (rk_bytes p) - 1) (drop 1 b) = drop 1 (rk_bytes p)" using assms(2) g by (simp add: b_def memcpy_at_def)
  have "take (length (rk_bytes p) - 1) (memcpy_at b 0 (drop 1 (rk_bytes p))) = drop 1 (rk_bytes p)"
    using assms(2) g by (simp add: b_def memcpy_at_def)
  then show "rx_frame d' = drop 1 (rk_bytes p)" unfolding rx_frame_def d'_def tk using ul by simp
  show "rb_len d' \<noteq> 0" using ul g(1) by (auto simp: d'_def word_unat_eq_iff)
  show "length (rb_buf d') = 128" "unat (rb_len d') \<le> 127" using assms(2) ul g by (simp_all add: d'_def b_def)
qed

text \<open>A buffer written at the writing position of a ring that is not full.\<close>

lemma ring_put:
  assumes inv: "ring_inv st" and room: "length (ring_frames st) < 4"
    and d: "rb_len d \<noteq> 0" "length (rb_buf d) = 128" "unat (rb_len d) \<le> 127"
    and s': "ra_rx_buf s' = (ra_rx_buf st)[ra_next_write st := d]" "ra_next_read s' = ra_next_read st" "ra_next_write s' = (ra_next_write st + 1) mod 4"
  shows "ring_inv s'" and "ring_frames s' = ring_frames st @ [rx_frame d]"
proof -
  obtain n where n: "n \<le> 4" "ra_next_write st = (ra_next_read st + n) mod 4" "length (ring_frames st) = n"
      "ring_frames st = map rx_frame (take n (ring_order st))"
      and pat: "map (\<lambda>b. rb_len b \<noteq> 0) (ring_order st) = replicate n True @ replicate (4 - n) False"
    using ring_frames_inv [OF inv] by blast
  have n4: "n < 4" using room n(3) by simp
  have ord: "ring_order s' = (ring_order st)[n := d]"
    using ring_order_update [OF n4, of st d] inv s'(1,2) n(2) by (simp add: ring_inv_def ring_order_def)
  have "replicate (4 - n) False = False # replicate (4 - Suc n) False" using n4 by (metis Suc_diff_Suc replicate_Suc)
  then have pat': "map (\<lambda>b. rb_len b \<noteq> 0) (ring_order s') = replicate (Suc n) True @ replicate (4 - Suc n) False"
    unfolding ord map_update pat using d(1) by (simp add: list_update_append replicate_app_Cons_same)
  have "ring_frames s' = map rx_frame (take (Suc n) (ring_order s'))" using takeWhile_pattern [OF pat'] by (simp add: ring_frames_def)
  also have "\<dots> = ring_frames st @ [rx_frame d]" using n4 n(4) by (simp add: ord take_Suc_conv_app_nth)
  finally show "ring_frames s' = ring_frames st @ [rx_frame d]" .
  have "\<forall>b\<in>set (ra_rx_buf s'). length (rb_buf b) = 128 \<and> unat (rb_len b) \<le> 127"
    using inv d s'(1) set_update_subset_insert [of "ra_rx_buf st" "ra_next_write st" d] by (auto simp: ring_inv_def)
  moreover have "ra_next_write s' = (ra_next_read s' + Suc n) mod 4" using s' n(2) by (simp add: mod_simps)
  ultimately show "ring_inv s'"
    unfolding ring_inv_def using inv s' n4 pat' by (auto simp: ring_inv_def intro!: exI [of _ "Suc n"])
qed

lemma move_to_rx_buffer_put:
  assumes inv: "ring_inv st" and good: "packet_good p"
  shows "ring_inv (move_to_rx_buffer t (Some p) st)"
    and "ring_frames (move_to_rx_buffer t (Some p) st) =
      (if length (ring_frames st) < 4 then ring_frames st @ [drop 1 (rk_bytes p)] else ring_frames st)"
proof -
  obtain n where n: "n \<le> 4" "ra_next_write st = (ra_next_read st + n) mod 4" "length (ring_frames st) = n"
      and pat: "map (\<lambda>b. rb_len b \<noteq> 0) (ring_order st) = replicate n True @ replicate (4 - n) False"
    using ring_frames_inv [OF inv] by blast
  let ?st' = "move_to_rx_buffer t (Some p) st"
  have "ring_inv ?st' \<and> ring_frames ?st' = (if n < 4 then ring_frames st @ [drop 1 (rk_bytes p)] else ring_frames st)"
  proof (cases "n < 4")
    case False
    then have n4: "n = 4" using n(1) by simp
    have "ra_next_write st = (ra_next_read st + 0) mod 4" unfolding n(2) n4 by simp
    moreover have "rb_len (ra_rx_buf st ! ((ra_next_read st + 0) mod 4)) \<noteq> 0"
      unfolding ring_len_nth [OF pat n(1) zero_less_numeral] n4 by simp
    ultimately have "rb_len (ra_rx_buf st ! ra_next_write st) \<noteq> 0" by (simp only: not_False_eq_True)
    then show ?thesis using move_good_full [OF good, of st t] inv False by (simp add: ring_inv_def ring_frames_def ring_order_def)
  next
    case True
    define d where "d = ra_rx_buf st ! ra_next_write st"
    have ne: "rb_len d = 0" using ring_len_nth [OF pat n(1) True] n(2) by (simp add: d_def)
    have "d \<in> set (ra_rx_buf st)" using inv n(2) by (simp add: d_def ring_inv_def)
    then have "length (rb_buf d) = 128" using inv by (simp add: ring_inv_def)
    note sf = stored_frame [OF good this]
    have "length (ring_frames st) < 4" using True n(3) by simp
    note rp = ring_put [OF inv this sf(2-4), of ?st']
    show ?thesis using move_good_room [OF good ne d_def refl, of t] rp True sf(1) by simp
  qed
  then show "ring_inv ?st'" "ring_frames ?st' = (if length (ring_frames st) < 4 then ring_frames st @ [drop 1 (rk_bytes p)] else ring_frames st)"
    using n(3) by auto
qed

text \<open>The ring after its first buffer has been freed.\<close>

lemma ring_order_free:
  assumes nr: "ra_next_read st < 4" "length (ra_rx_buf st) = 4"
    and s': "ra_next_read s' = (ra_next_read st + 1) mod 4" "ra_rx_buf s' = (ra_rx_buf st)[ra_next_read st := d]"
  shows "ring_order s' = tl (ring_order st) @ [d]"
proof (rule nth_equalityI)
  fix k assume "k < length (ring_order s')"
  then have k: "k < 4" by simp
  have md: "((ra_next_read st + 1) mod 4 + k) mod 4 = (ra_next_read st + Suc k) mod 4" by (simp add: mod_simps)
  show "ring_order s' ! k = (tl (ring_order st) @ [d]) ! k"
  proof (cases "k < 3")
    case True
    then have ne: "(ra_next_read st + Suc k) mod 4 \<noteq> ra_next_read st"
      using ring_slot_inj [of "Suc k" 0 "ra_next_read st"] nr(1) by simp
    have "ring_order s' ! k = ra_rx_buf st ! ((ra_next_read st + Suc k) mod 4)"
      unfolding ring_order_nth [OF k] using md ne by (simp add: s')
    then show ?thesis using True by (simp add: nth_append nth_tl ring_order_nth)
  next
    case False
    then have "k = 3" using k by simp
    then have "((ra_next_read st + 1) mod 4 + k) mod 4 = ra_next_read st" using md nr(1) by simp
    then have "ring_order s' ! k = d" unfolding ring_order_nth [OF k] using nr by (simp add: s')
    then show ?thesis using \<open>k = 3\<close> by (simp add: nth_append)
  qed
qed simp

lemma ring_take:
  assumes inv: "ring_inv st" and ne: "ring_frames st \<noteq> []"
    and d: "rb_len d = 0" "length (rb_buf d) = 128"
    and s': "ra_next_read s' = (ra_next_read st + 1) mod 4" "ra_rx_buf s' = (ra_rx_buf st)[ra_next_read st := d]" "ra_next_write s' = ra_next_write st"
  shows "ring_inv s'" and "ring_frames st = rx_frame (ra_rx_buf st ! ra_next_read st) # ring_frames s'"
proof -
  obtain n where n: "n \<le> 4" "ra_next_write st = (ra_next_read st + n) mod 4" "length (ring_frames st) = n"
      "ring_frames st = map rx_frame (take n (ring_order st))"
      and pat: "map (\<lambda>b. rb_len b \<noteq> 0) (ring_order st) = replicate n True @ replicate (4 - n) False"
    using ring_frames_inv [OF inv] by blast
  have nr: "ra_next_read st < 4" "length (ra_rx_buf st) = 4" using inv by (simp_all add: ring_inv_def)
  obtain m where m: "n = Suc m" using n(3) ne by (cases n) auto
  note ord = ring_order_free [OF nr s'(1,2)]
  have "4 - m = Suc (4 - n)" using m n(1) by simp
  then have pat': "map (\<lambda>b. rb_len b \<noteq> 0) (ring_order s') = replicate m True @ replicate (4 - m) False"
    unfolding ord map_append map_tl pat m using d(1) by (simp add: replicate_append_same)
  have "ring_frames s' = map rx_frame (take m (ring_order s'))" using takeWhile_pattern [OF pat'] by (simp add: ring_frames_def)
  also have "\<dots> = map rx_frame (take m (tl (ring_order st)))" using m n(1) by (simp add: ord)
  finally have "ring_frames s' = map rx_frame (take m (tl (ring_order st)))" .
  moreover have "ring_order st ! 0 = ra_rx_buf st ! ra_next_read st" using nr(1) by (simp add: ring_order_nth)
  ultimately show "ring_frames st = rx_frame (ra_rx_buf st ! ra_next_read st) # ring_frames s'"
    unfolding n(4) m using ring_order_length [of st] by (cases "ring_order st") auto
  have "\<forall>x\<in>set (ra_rx_buf s'). length (rb_buf x) = 128 \<and> unat (rb_len x) \<le> 127"
    using inv d set_update_subset_insert [of "ra_rx_buf st" "ra_next_read st" d] by (auto simp: ring_inv_def s')
  moreover have "length (ra_rx_buf s') = 4" "ra_next_read s' < 4" "ra_next_write s' = (ra_next_read s' + m) mod 4"
    using nr n(2) m by (simp_all add: s' mod_simps)
  moreover have "m \<le> 4" using m n(1) by simp
  ultimately show "ring_inv s'" using pat' unfolding ring_inv_def by blast
qed

lemma read_radio_take:
  assumes inv: "ring_inv st" and sz: "127 \<le> bufsize" and r: "read_radio bufsize st = (res, st')"
  shows "ring_inv st'" and "map_option fst res = (case ring_frames st of [] \<Rightarrow> None | f # fs \<Rightarrow> Some f)"
    and "ring_frames st' = tl (ring_frames st)"
proof -
  obtain n where n: "n \<le> 4" "length (ring_frames st) = n"
      and pat: "map (\<lambda>b. rb_len b \<noteq> 0) (ring_order st) = replicate n True @ replicate (4 - n) False"
    using ring_frames_inv [OF inv] by blast
  have nr: "ra_next_read st < 4" "length (ra_rx_buf st) = 4" using inv by (simp_all add: ring_inv_def)
  define b where "b = ra_rx_buf st ! ra_next_read st"
  have b0: "rb_len b \<noteq> 0 \<longleftrightarrow> 0 < n" using ring_len_nth [OF pat n(1), of 0] nr(1) by (simp add: b_def)
  have "ring_inv st' \<and> map_option fst res = (case ring_frames st of [] \<Rightarrow> None | f # fs \<Rightarrow> Some f) \<and>
      ring_frames st' = tl (ring_frames st)"
  proof (cases "ring_frames st = []")
    case True
    then have "read_radio bufsize st = (None, st)" using b0 n(2) sz by (simp add: read_radio_def get_full_rx_buf_def b_def Let_def)
    then show ?thesis using r inv True by simp
  next
    case False
    have "b \<in> set (ra_rx_buf st)" using nr by (simp add: b_def)
    then have bl: "length (rb_buf b) = 128" "unat (rb_len b) \<le> 127" using inv by (simp_all add: ring_inv_def)
    define s' where "s' = st\<lparr>ra_next_read := (ra_next_read st + 1) mod 4, ra_rx_buf := (ra_rx_buf st)[ra_next_read st := b\<lparr>rb_len := 0\<rparr>]\<rparr>"
    have "0 < rb_len b" using b0 False n(2) by (auto simp: word_gt_0)
    then have rd: "read_radio bufsize st = (Some (rx_frame b, rb_rssi b, rb_lqi b), s')"
      using sz bl by (simp add: read_radio_def get_full_rx_buf_def free_rx_buf_def b_def [symmetric] Let_def rx_frame_def s'_def)
    show ?thesis using ring_take [OF inv False, of "b\<lparr>rb_len := 0\<rparr>" s'] bl(1) rd r by (simp add: s'_def b_def [symmetric])
  qed
  then show "ring_inv st'" "map_option fst res = (case ring_frames st of [] \<Rightarrow> None | f # fs \<Rightarrow> Some f)"
    "ring_frames st' = tl (ring_frames st)" by blast+
qed

text \<open>The ring is a bounded queue of capacity four.\<close>

definition radio_get :: "nat \<Rightarrow> radio_state \<Rightarrow> u8 list option \<times> radio_state" where
  "radio_get bufsize st = (case read_radio (127 + bufsize) st of (r, st') \<Rightarrow> (map_option fst r, st'))"

interpretation rx_ring: bounded_fifo ring_inv ring_frames 4 packet_good "\<lambda>p. drop 1 (rk_bytes p)"
  "\<lambda>p. move_to_rx_buffer t (Some p)" "radio_get extra" for t extra
proof
  fix s p
  assume "ring_inv s" "packet_good p"
  then show "ring_inv (move_to_rx_buffer t (Some p) s)"
    and "ring_frames (move_to_rx_buffer t (Some p) s) =
      (if length (ring_frames s) < 4 then ring_frames s @ [drop 1 (rk_bytes p)] else ring_frames s)"
    by (rule move_to_rx_buffer_put)+
next
  fix s r s'
  assume inv: "ring_inv s" and g: "radio_get extra s = (r, s')"
  obtain res where rd: "read_radio (127 + extra) s = (res, s')" "r = map_option fst res"
    using g by (auto simp: radio_get_def split: prod.splits)
  from read_radio_take [OF inv _ rd(1)] rd(2)
  show "ring_inv s' \<and> r = (case ring_frames s of [] \<Rightarrow> None | x # xs \<Rightarrow> Some x) \<and> ring_frames s' = tl (ring_frames s)"
    by simp
qed

section \<open>Transmission ends\<close>

lemma move_to_rx_buffer_status [simp]: "ra_tx_status (move_to_rx_buffer t p st) = ra_tx_status st"
  by (auto simp: move_to_rx_buffer_def release_packet_def get_empty_rx_buf_def Let_def split: option.splits)

lemma autoack_wait_returns:
  "(irqs1, t1, irqs2, t2) \<in> set trace \<Longrightarrow> 5000 < t2 - start \<Longrightarrow> \<exists>st'. autoack_wait start trace st = Some st'"
  by (induction trace arbitrary: st) (auto simp: Let_def)

lemma tx_wait_returns:
  "(irqs1, now, irqs2) \<in> set trace \<Longrightarrow> cs < now - tx_start \<Longrightarrow> \<exists>r. tx_wait cs tx_start trace st = Some r"
  by (induction trace arbitrary: st) (auto simp: Let_def simp del: split_paired_Ex)

lemma tx_wait_timeout_idle: "tx_wait cs tx_start trace st = Some (True, st') \<Longrightarrow> ra_tx_status st' = TX_IDLE"
  by (induction trace arbitrary: st) (auto simp: Let_def split: if_splits)

lemma tx_result_idle: "ra_tx_status (snd (tx_result irqs st)) = TX_IDLE"
  by (simp add: tx_result_def Let_def split: prod.splits)

text \<open>Only the event of a sent packet makes the status \<^const>\<open>TX_SENT\<close>.\<close>

definition irq_sent :: "radio_irq \<Rightarrow> bool" where
  "irq_sent irq = ev_tx_packet_sent (fst irq)"

lemma RAILCb_sent: "ra_tx_status (RAILCb_Generic ev t p st) = TX_SENT \<Longrightarrow> ev_tx_packet_sent ev \<or> ra_tx_status st = TX_SENT"
  by (auto simp: RAILCb_Generic_def Let_def split: if_splits)

lemma run_irqs_sent:
  "ra_tx_status (run_irqs irqs st) = TX_SENT \<Longrightarrow> (\<exists>irq\<in>set irqs. irq_sent irq) \<or> ra_tx_status st = TX_SENT"
proof (induction irqs rule: rev_induct)
  case (snoc irq irqs)
  obtain ev t p where irq: "irq = (ev, t, p)" by (cases irq)
  from snoc show ?case using RAILCb_sent [of ev t p "run_irqs irqs st"] by (auto simp: run_irqs_def irq irq_sent_def)
qed (simp add: run_irqs_def)

lemma tx_wait_sent:
  "tx_wait cs tx_start trace st = Some (False, st') \<Longrightarrow> ra_tx_status st' = TX_SENT \<Longrightarrow>
     (\<exists>(irqs1, now, irqs2)\<in>set trace. \<exists>irq\<in>set (irqs1 @ irqs2). irq_sent irq) \<or> ra_tx_status st = TX_SENT"
  by (induction trace arbitrary: st) (fastforce simp: Let_def dest: run_irqs_sent split: if_splits)+

lemma tx_result_ok:
  "fst (tx_result (irqs1, rest) st) = RADIO_TX_OK \<Longrightarrow> (\<exists>irq\<in>set irqs1. irq_sent irq) \<or> ra_tx_status st = TX_SENT"
  by (auto simp: tx_result_def Let_def dest: run_irqs_sent split: prod.splits if_splits)

text \<open>The interrupts of a call after the status became \<^const>\<open>TX_SENDING\<close> and before the result is chosen.\<close>

definition sending_irqs :: "transmit_env \<Rightarrow> radio_irq list" where
  "sending_irqs env = tv_start_irqs env @ concat (map (\<lambda>(irqs1, now, irqs2). irqs1 @ irqs2) (tv_tx_trace env)) @ fst (tv_result_irqs env)"

lemma transmit_sending:
  assumes "transmit cs env st = Some (RADIO_TX_OK, st')"
  shows "\<exists>irq\<in>set (sending_irqs env). irq_sent irq"
proof -
  let ?s = "\<lambda>s. run_irqs (tv_start_irqs env) (s\<lparr>ra_tx_status := TX_SENDING\<rparr>)"
  obtain irqs1 rest where r: "tv_result_irqs env = (irqs1, rest)" by (cases "tv_result_irqs env") auto
  from assms obtain s1 s2 where s: "tx_wait cs (tv_tx_start env) (tv_tx_trace env) (?s s1) = Some (False, s2)"
      "fst (tx_result (irqs1, rest) s2) = RADIO_TX_OK"
    by (auto simp: transmit_def Let_def r split: if_splits option.splits)
  from tx_result_ok [OF s(2)] tx_wait_sent [OF s(1)] run_irqs_sent [of "tv_start_irqs env" "s1\<lparr>ra_tx_status := TX_SENDING\<rparr>"]
  show ?thesis by (fastforce simp: sending_irqs_def r)
qed

lemma transmit_returns:
  assumes "\<exists>(irqs1, t1, irqs2, t2)\<in>set (tv_ack_trace env). 5000 < t2 - tv_ack_wait_start env"
    and "\<exists>(irqs1, now, irqs2)\<in>set (tv_tx_trace env). cs < now - tv_tx_start env"
  shows "\<exists>r st'. transmit cs env st = Some (r, st') \<and>
    (if ra_tx_status (run_irqs (tv_busy_irqs env) (tx_cleanup st)) = TX_IDLE then ra_tx_status st' = TX_IDLE
     else r = RADIO_TX_ERR \<and> st' = run_irqs (tv_busy_irqs env) (tx_cleanup st))"
proof -
  define s0 where "s0 = run_irqs (tv_busy_irqs env) (tx_cleanup st)"
  obtain s1 where s1: "autoack_wait (tv_ack_wait_start env) (tv_ack_trace env) s0 = Some s1"
    using assms(1) autoack_wait_returns by blast
  obtain b s2 where s2: "tx_wait cs (tv_tx_start env) (tv_tx_trace env) (run_irqs (tv_start_irqs env) (s1\<lparr>ra_tx_status := TX_SENDING\<rparr>)) = Some (b, s2)"
    using assms(2) tx_wait_returns by (metis (no_types, lifting) case_prodE surj_pair)
  have "b \<Longrightarrow> ra_tx_status s2 = TX_IDLE" using tx_wait_timeout_idle [of _ _ _ _ s2] s2 by (cases b) auto
  then show ?thesis
    using tx_result_idle [of "tv_result_irqs env" s2]
    unfolding transmit_def Let_def s0_def [symmetric] by (cases b; cases "tx_result (tv_result_irqs env) s2") (simp_all add: s1 s2)
qed

section \<open>Properties\<close>

text \<open>
  C36.  The receive ring is a queue of four frames: after a burst of good packets into an empty ring, reading
  once per packet returns the payloads of the first four in order of arrival (the later ones were
  dropped) and nothing else.
\<close>

theorem radio_burst_fifo:
  assumes "ring_inv st" and "ring_frames st = []" and "\<forall>p\<in>set packets. packet_good p"
  shows "fst (get_all (radio_get extra) (length packets) (fold (\<lambda>p. move_to_rx_buffer t (Some p)) packets st)) =
    map (\<lambda>p. drop 1 (rk_bytes p)) (take 4 packets)"
  by (rule rx_ring.burst_roundtrip [OF assms])

text \<open>An idle radio with an empty ring.\<close>

definition ring_example :: radio_state where
  "ring_example = \<lparr>ra_tx_status = TX_IDLE, ra_last_rx_time = 0,
     ra_rx_buf = replicate 4 \<lparr>rb_rssi = 0, rb_lqi = 0, rb_len = 0, rb_buf = replicate 128 0\<rparr>,
     ra_next_read = 3, ra_next_write = 3, ra_radio_stage = 0, ra_panid = 0, ra_channel = 0, ra_wait_for_ack = False\<rparr>"

definition packet_example :: "u8 \<Rightarrow> rail_packet" where
  "packet_example b = \<lparr>rk_ready = True, rk_bytes = [2, b, b], rk_details_ok = True, rk_crc_passed = True, rk_rssi = 0, rk_lqi = 0\<rparr>"

lemma ring_example_inv: "ring_inv ring_example" "ring_frames ring_example = []"
proof -
  have u: "[0..<4] = [0, 1, 2, 3 :: nat]" by code_simp
  have r: "replicate 4 b = [b, b, b, b]" for b :: "'a" by (simp add: numeral_eq_Suc)
  have o: "map (\<lambda>b. rb_len b) (ring_order ring_example) = [0, 0, 0, 0]"
    unfolding ring_order_def u ring_example_def r by simp
  then show "ring_frames ring_example = []" by (cases "ring_order ring_example") (auto simp: ring_frames_def)
  have "map (\<lambda>b. rb_len b \<noteq> 0) (ring_order ring_example) = map (\<lambda>l. l \<noteq> 0) (map (\<lambda>b. rb_len b) (ring_order ring_example))"
    by simp
  then have "map (\<lambda>b. rb_len b \<noteq> 0) (ring_order ring_example) = replicate 4 False" unfolding o r by simp
  then show "ring_inv ring_example"
    unfolding ring_inv_def by (intro conjI exI [of _ 0]) (simp_all add: ring_example_def)
qed

theorem radio_burst_fifo_witness:
  "fst (get_all (radio_get 0) 5 (fold (\<lambda>p. move_to_rx_buffer 9 (Some p)) (map packet_example [1, 2, 3, 4, 5]) ring_example)) =
     [[1, 1], [2, 2], [3, 3], [4, 4]]"
proof -
  have good: "\<forall>p\<in>set (map packet_example [1, 2, 3, 4, 5]). packet_good p"
    by (simp add: packet_good_def packet_example_def)
  have "length (map packet_example [1, 2, 3, 4, 5]) = 5"
    "map (\<lambda>p. drop 1 (rk_bytes p)) (take 4 (map packet_example [1, 2, 3, 4, 5])) = [[1, 1], [2, 2], [3, 3], [4, 4]]"
    by (simp_all add: packet_example_def)
  with radio_burst_fifo [OF ring_example_inv good, of 0 9] show ?thesis by (simp only:)
qed

text \<open>
  C38.  A packet with no payload stalls the receiver: when one of a single raw byte arrives at an empty ring
  and a good packet follows, the good packet is stored behind an empty buffer, the driver reports that
  nothing is pending, and the radio process returns nothing and leaves the state as it is.
\<close>

theorem empty_packet_stalls_reader:
  assumes "ring_inv st" and "ring_frames st = []"
    and "rk_ready z" "length (rk_bytes z) = 1" "rk_details_ok z" "rk_crc_passed z" and "packet_good p"
    and "st' = move_to_rx_buffer t' (Some p) (move_to_rx_buffer t (Some z) st)"
  shows "(\<exists>b\<in>set (ra_rx_buf st'). rx_frame b = drop 1 (rk_bytes p)) \<and> \<not> pending_packet st' \<and>
    radio_proc_step bufsize st' = (None, st')"
proof -
  obtain n where n: "n \<le> 4" "ra_next_write st = (ra_next_read st + n) mod 4" "length (ring_frames st) = n"
      "map (\<lambda>b. rb_len b \<noteq> 0) (ring_order st) = replicate n True @ replicate (4 - n) False"
    using ring_frames_inv [OF assms(1)] by metis
  have n0: "n = 0" using n(3) assms(2) by simp
  let ?r = "ra_next_read st" and ?w = "(ra_next_read st + 1) mod 4"
  have r: "?r < 4" "length (ra_rx_buf st) = 4" "ra_next_write st = ?r"
    using assms(1) n n0 by (auto simp: ring_inv_def)
  have e: "rb_len (ra_rx_buf st ! ?r) = 0" "rb_len (ra_rx_buf st ! ?w) = 0"
    using ring_len_nth [OF n(4,1), of 0] ring_len_nth [OF n(4,1), of 1] n0 r by simp_all
  have l: "length (rb_buf (ra_rx_buf st ! ?w)) = 128" using assms(1) r by (auto simp: ring_inv_def)
  have ne: "?w \<noteq> ?r" using ring_slot_inj [of 1 0 ?r] r by simp
  let ?st1 = "move_to_rx_buffer t (Some z) st"
  have s1: "ra_next_write ?st1 = ?w" "ra_next_read ?st1 = ?r" "length (ra_rx_buf ?st1) = 4"
      "ra_rx_buf ?st1 ! ?w = ra_rx_buf st ! ?w" "rb_len (ra_rx_buf ?st1 ! ?r) = 0"
    using assms(3-6) e(1) r ne
    by (simp_all add: move_to_rx_buffer_def get_empty_rx_buf_def release_packet_def Let_def)
  have s2: "ra_rx_buf st' ! ?r = ra_rx_buf ?st1 ! ?r" "ra_next_read st' = ?r"
      "ra_rx_buf st' ! ?w = (ra_rx_buf st ! ?w)\<lparr>rb_buf := memcpy_at (memcpy_at (rb_buf (ra_rx_buf st ! ?w)) 0 (rk_bytes p)) 0
         (take (length (rk_bytes p) - 1) (drop 1 (memcpy_at (rb_buf (ra_rx_buf st ! ?w)) 0 (rk_bytes p)))),
       rb_rssi := rk_rssi p, rb_lqi := rk_lqi p, rb_len := of_nat (length (rk_bytes p) - 1)\<rparr>" "length (ra_rx_buf st') = 4"
    using move_good_room [OF assms(7), of "ra_rx_buf ?st1 ! ?w" ?st1 _ t'] s1 e(2) ne assms(8) by simp_all
  have u: "unat (of_nat (length (rk_bytes p) - 1) :: u8) = length (rk_bytes p) - 1"
    using assms(7) by (intro unat_of_nat_u8) (auto simp: packet_good_def)
  have "rx_frame (ra_rx_buf st' ! ?w) = drop 1 (rk_bytes p)"
    using assms(7) l unfolding s2(3) rx_frame_def packet_good_def by (simp add: memcpy_at_def u [simplified One_nat_def] del: of_nat_diff)
  moreover have "?w < length (ra_rx_buf st')" using s2(4) by simp
  ultimately have "\<exists>b\<in>set (ra_rx_buf st'). rx_frame b = drop 1 (rk_bytes p)" using nth_mem by metis
  then show ?thesis using s1(5) s2 by (simp add: pending_packet_def has_packet_def radio_proc_step_def)
qed

theorem empty_packet_stalls_reader_witness:
  "radio_proc_step 127 (move_to_rx_buffer 2 (Some (packet_example 7))
     (move_to_rx_buffer 1 (Some ((packet_example 0)\<lparr>rk_bytes := [0]\<rparr>)) ring_example)) =
   (None, move_to_rx_buffer 2 (Some (packet_example 7))
     (move_to_rx_buffer 1 (Some ((packet_example 0)\<lparr>rk_bytes := [0]\<rparr>)) ring_example))"
  using empty_packet_stalls_reader [OF ring_example_inv _ _ _ _ _ refl, of "(packet_example 0)\<lparr>rk_bytes := [0]\<rparr>" "packet_example 7"]
  by (simp add: packet_good_def packet_example_def)

text \<open>
  C37.  A transmission ends, whatever interrupts come while it waits: once the clock has passed the two bounds
  that the code tests (5000 microseconds in the wait for the automatic acknowledgement, which received
  packets can prolong up to that bound, and one second in the wait for the transmission), the call returns.
  If the radio was found idle at the busy test, it is idle again at the end; otherwise, with a
  transmission in progress or an interrupt just before the test, the call is an error and changes nothing.
  It is answered with success only if the event of a sent packet came after the start.
\<close>

theorem transmit_ends:
  assumes "\<exists>(irqs1, t1, irqs2, t2)\<in>set (tv_ack_trace env). 5000 < t2 - tv_ack_wait_start env"
    and "\<exists>(irqs1, now, irqs2)\<in>set (tv_tx_trace env). cs < now - tv_tx_start env"
    and "before = run_irqs (tv_busy_irqs env) (tx_cleanup st)"
  shows "\<exists>r st'. transmit cs env st = Some (r, st') \<and>
    (if ra_tx_status before = TX_IDLE then ra_tx_status st' = TX_IDLE else r = RADIO_TX_ERR \<and> st' = before) \<and>
    (r = RADIO_TX_OK \<longrightarrow> (\<exists>irq\<in>set (sending_irqs env). irq_sent irq))"
  using transmit_returns [OF assms(1,2)] transmit_sending [of cs env st] unfolding assms(3) by blast

text \<open>A call with a packet received in the first wait and the end of the transmission in the second.\<close>

definition no_events :: rail_events where
  "no_events = \<lparr>ev_tx_aborted = False, ev_tx_blocked = False, ev_tx_underflow = False, ev_rx_ack_timeout = False,
     ev_rx_packet_received = False, ev_tx_packet_sent = False, ev_tx_channel_busy = False\<rparr>"

definition transmit_env_example :: transmit_env where
  "transmit_env_example = \<lparr>tv_busy_irqs = [], tv_ack_wait_start = 0,
     tv_ack_trace = [([(no_events\<lparr>ev_rx_packet_received := True\<rparr>, 900, Some (packet_example 7))], 950, [], 960),
                     ([], 1100, [], 6000)],
     tv_start_irqs = [], tv_start_ok = True, tv_tx_start = 0,
     tv_tx_trace = [([], 1, []), ([(no_events\<lparr>ev_tx_packet_sent := True\<rparr>, 1200, None)], 129, [])],
     tv_result_irqs = ([], [], [], [])\<rparr>"

theorem transmit_ends_witness:
  "\<exists>r st'. transmit 128 transmit_env_example ring_example = Some (r, st') \<and> ra_tx_status st' = TX_IDLE"
proof -
  have 1: "\<exists>(irqs1, t1, irqs2, t2)\<in>set (tv_ack_trace transmit_env_example). 5000 < t2 - tv_ack_wait_start transmit_env_example"
    and 2: "\<exists>(irqs1, now, irqs2)\<in>set (tv_tx_trace transmit_env_example). 128 < now - tv_tx_start transmit_env_example"
    by (simp_all add: transmit_env_example_def)
  have "ra_tx_status (run_irqs (tv_busy_irqs transmit_env_example) (tx_cleanup ring_example)) = TX_IDLE"
    by (simp add: transmit_env_example_def run_irqs_def tx_cleanup_def tx_terminal_def ring_example_def)
  with transmit_ends [OF 1 2 refl, of ring_example] show ?thesis by auto
qed

end
