(* ===== verification/Gf2_Poly.thy ===== *)
theory Gf2_Poly
  imports Prelude
begin

text \<open>
  Polynomials over the field with two elements, as the reference for the arithmetic of HQC: the number
  whose bit \<open>i\<close> is the coefficient of \<open>X ^ i\<close>.  Addition is \<open>XOR\<close>, multiplication by \<open>X\<close> is doubling.
  \<open>clmul\<close> is the product and \<open>pmod n p\<close> the remainder modulo a polynomial \<open>p\<close> of degree \<open>n\<close>; the field of
  256 elements and the ring modulo \<open>X ^ n - 1\<close> are both remainders of this kind.
\<close>

section \<open>Bits of numbers\<close>

lemma double_xor: "2 * ((a :: nat) XOR b) = 2 * a XOR 2 * b"
  using push_bit_xor [of 1 a b] by (simp add: push_bit_eq_mult mult.commute)

lemma half_xor: "((a :: nat) XOR b) div 2 = a div 2 XOR b div 2"
  using drop_bit_xor [of 1 a b] by (simp add: drop_bit_eq_div)

lemma odd_xor: "odd ((a :: nat) XOR b) \<longleftrightarrow> odd a \<noteq> odd b"
  by (auto simp: even_xor_iff)

lemma xor_self_left [simp]: "(a :: nat) XOR (a XOR b) = b"
  by (simp add: xor.assoc [symmetric])

lemma xor_less: "(a :: nat) < 2 ^ n \<Longrightarrow> b < 2 ^ n \<Longrightarrow> a XOR b < 2 ^ n"
  by (simp flip: take_bit_nat_eq_self_iff)

lemma nat_halves: "(a :: nat) = of_bool (odd a) XOR 2 * (a div 2)"
proof (rule bit_eqI)
  show "bit a k = bit (of_bool (odd a) XOR 2 * (a div 2)) k" for k
    by (cases k) (simp_all add: bit_xor_iff bit_0 bit_double_iff bit_Suc bit_1_iff half_xor even_xor_iff)
qed

lemma take_drop_xor: "(a :: nat) = take_bit n a XOR push_bit n (drop_bit n a)"
  by (rule bit_eqI) (auto simp: bit_xor_iff bit_take_bit_iff bit_push_bit_iff bit_drop_bit_eq)

section \<open>The product\<close>

fun clmul :: "nat \<Rightarrow> nat \<Rightarrow> nat" where
  "clmul a b = (if a = 0 then 0 else (if odd a then b else 0) XOR 2 * clmul (a div 2) b)"

declare clmul.simps [simp del]

lemma clmul_0 [simp]: "clmul 0 b = 0"
  by (simp add: clmul.simps)

lemma clmul_step: "clmul a b = (if odd a then b else 0) XOR 2 * clmul (a div 2) b"
  by (cases "a = 0") (simp_all add: clmul.simps [of a])

lemma clmul_double [simp]: "clmul (2 * a) b = 2 * clmul a b"
  by (simp add: clmul_step [of "2 * a"])

lemma clmul_1 [simp]: "clmul 1 b = b" "clmul (Suc 0) b = b"
  by (simp_all add: clmul_step [of "Suc 0"])

lemma clmul_0_right [simp]: "clmul a 0 = 0"
  by (induction a "0 :: nat" rule: clmul.induct) (simp add: clmul.simps)

lemma clmul_xor_right: "clmul a (b XOR c) = clmul a b XOR clmul a c"
proof (induction a b rule: clmul.induct)
  case (1 a b)
  show ?case
  proof (cases "a = 0")
    case False
    with 1 show ?thesis by (simp add: clmul_step [of a] double_xor ac_simps)
  qed simp
qed

lemma clmul_double_right: "clmul a (2 * b) = 2 * clmul a b"
proof (induction a b rule: clmul.induct)
  case (1 a b)
  show ?case
  proof (cases "a = 0")
    case False
    with 1 show ?thesis by (simp add: clmul_step [of a] double_xor)
  qed simp
qed

lemma clmul_xor_left: "clmul (a XOR b) c = clmul a c XOR clmul b c"
proof (induction "a + b" arbitrary: a b rule: less_induct)
  case less
  show ?case
  proof (cases "a + b = 0")
    case False
    then have "a div 2 + b div 2 < a + b" by linarith
    from less [OF this] show ?thesis
      by (auto simp: clmul_step [of "a XOR b"] clmul_step [of a] clmul_step [of b] half_xor odd_xor double_xor ac_simps)
  qed simp
qed

lemma clmul_1_right: "clmul b 1 = b" "clmul b (Suc 0) = b"
proof -
  show "clmul b 1 = b"
  proof (induction b "1 :: nat" rule: clmul.induct)
    case (1 b)
    show ?case
    proof (cases "b = 0")
      case False
      with 1 have "clmul b 1 = of_bool (odd b) XOR 2 * (b div 2)" by (simp add: clmul_step [of b])
      then show ?thesis using nat_halves [of b] by simp
    qed simp
  qed
  then show "clmul b (Suc 0) = b" by simp
qed

lemma clmul_commute: "clmul a b = clmul b a"
proof (induction a b rule: clmul.induct)
  case (1 a b)
  show ?case
  proof (cases "a = 0")
    case False
    have "clmul b (of_bool (odd a)) = (if odd a then b else 0)" by (simp add: clmul_1_right)
    then have "clmul b a = (if odd a then b else 0) XOR 2 * clmul b (a div 2)"
      using clmul_xor_right [of b "of_bool (odd a)" "2 * (a div 2)"] nat_halves [of a] by (simp add: clmul_double_right)
    with 1 False show ?thesis by (simp add: clmul_step [of a])
  qed simp
qed

lemma clmul_assoc: "clmul (clmul a b) c = clmul a (clmul b c)"
proof (induction a b rule: clmul.induct)
  case (1 a b)
  show ?case
  proof (cases "a = 0")
    case False
    with 1 show ?thesis by (simp add: clmul_step [of a] clmul_xor_left)
  qed simp
qed

lemma clmul_left_commute: "clmul a (clmul b c) = clmul b (clmul a c)"
  using clmul_assoc [of a b c] clmul_assoc [of b a c] clmul_commute [of a b] by simp

lemmas clmul_ac = clmul_commute clmul_assoc clmul_left_commute

lemma clmul_push_left: "clmul (push_bit k a) b = push_bit k (clmul a b)"
  using clmul_double by (induction k arbitrary: a) (simp_all add: push_bit_double mult.commute)

lemma clmul_push_right: "clmul a (push_bit k b) = push_bit k (clmul a b)"
  by (metis clmul_commute clmul_push_left)

lemma clmul_power: "clmul (2 ^ k) b = push_bit k b"
  using clmul_push_left [of k 1 b] by (simp add: push_bit_eq_mult)

lemma clmul_less:
  assumes "a < 2 ^ m" "b < 2 ^ n"
  shows "clmul a b < 2 ^ (m + n)"
  using assms(1)
proof (induction m arbitrary: a)
  case 0
  then show ?case by simp
next
  case (Suc m)
  have "clmul (a div 2) b < 2 ^ (m + n)" using Suc.prems by (intro Suc.IH) simp
  then have "2 * clmul (a div 2) b < 2 ^ (Suc m + n)" by simp
  moreover have "b < 2 ^ (Suc m + n)" by (rule less_le_trans [OF assms(2)]) (rule power_increasing, simp_all)
  ultimately show ?case unfolding clmul_step [of a] by (intro xor_less) auto
qed

text \<open>The degree of a product: one less than the sum of the widths.\<close>

lemma clmul_less_pred:
  assumes "a < 2 ^ Suc m" "b < 2 ^ n"
  shows "clmul a b < 2 ^ (m + n)"
  using assms(1)
proof (induction m arbitrary: a)
  case 0
  then have "a = 0 \<or> a = 1" by auto
  then show ?case using assms(2) by auto
next
  case (Suc m)
  have "clmul (a div 2) b < 2 ^ (m + n)" using Suc.prems by (intro Suc.IH) simp
  then have "2 * clmul (a div 2) b < 2 ^ (Suc m + n)" by simp
  moreover have "b < 2 ^ (Suc m + n)" by (rule less_le_trans [OF assms(2)]) (rule power_increasing, simp_all)
  ultimately show ?case unfolding clmul_step [of a] by (intro xor_less) auto
qed

section \<open>The remainder\<close>

text \<open>Multiplication by \<open>X\<close> of a remainder, and the remainder by the scheme of Horner.\<close>

definition xmul :: "nat \<Rightarrow> nat \<Rightarrow> nat \<Rightarrow> nat" where
  "xmul n p a = (if bit (2 * a) n then 2 * a XOR p else 2 * a)"

fun pmod :: "nat \<Rightarrow> nat \<Rightarrow> nat \<Rightarrow> nat" where
  "pmod n p a = (if a = 0 then 0 else of_bool (odd a) XOR xmul n p (pmod n p (a div 2)))"

declare pmod.simps [simp del]

definition modulus :: "nat \<Rightarrow> nat \<Rightarrow> bool" where
  "modulus n p \<longleftrightarrow> 0 < n \<and> 2 ^ n \<le> p \<and> p < 2 ^ Suc n"

lemma xmul_0 [simp]: "xmul n p 0 = 0"
  by (simp add: xmul_def)

lemma pmod_0 [simp]: "pmod n p 0 = 0"
  by (simp add: pmod.simps)

lemma pmod_step: "pmod n p a = of_bool (odd a) XOR xmul n p (pmod n p (a div 2))"
  by (cases "a = 0") (simp_all add: pmod.simps [of n p a])

lemma bit_top: "(2::nat) ^ n \<le> a \<Longrightarrow> a < 2 ^ Suc n \<Longrightarrow> bit a n"
  by (simp add: bit_iff_odd) (metis One_nat_def Suc_1 div_nat_eqI lessI mult.commute mult.right_neutral mult_2 odd_one power_Suc)

lemma xmul_less:
  assumes "modulus n p" "a < 2 ^ n"
  shows "xmul n p a < 2 ^ n"
proof -
  have a: "2 * a < 2 ^ Suc n" using assms(2) by simp
  have b: "x < 2 ^ n" if "x < 2 ^ Suc n" "\<not> bit x n" for x :: nat using that bit_top by (meson not_le)
  have p: "bit p n" "p < 2 ^ Suc n" using assms(1) bit_top by (auto simp: modulus_def)
  have "2 * a XOR p < 2 ^ Suc n" using a p(2) by (rule xor_less)
  then show ?thesis unfolding xmul_def using a p(1) b by (auto simp: bit_xor_iff)
qed

lemma pmod_less: "modulus n p \<Longrightarrow> pmod n p a < 2 ^ n"
proof (induction n p a rule: pmod.induct)
  case (1 n p a)
  have "(1 :: nat) < 2 ^ n" using 1(2) by (intro one_less_power) (auto simp: modulus_def)
  then have "(of_bool (odd a) :: nat) < 2 ^ n" by simp
  then show ?case using 1 xmul_less by (cases "a = 0") (simp_all add: pmod_step [of n p a] xor_less)
qed

lemma xmul_xor: "xmul n p (a XOR b) = xmul n p a XOR xmul n p b"
  unfolding xmul_def double_xor by (auto simp: bit_xor_iff xor.assoc xor.left_commute xor.commute [of p] xor.commute [of "2 * b" "2 * a"])

lemma pmod_xor: "pmod n p (a XOR b) = pmod n p a XOR pmod n p b"
proof (induction "a + b" arbitrary: a b rule: less_induct)
  case less
  show ?case
  proof (cases "a + b = 0")
    case False
    then have "a div 2 + b div 2 < a + b" by linarith
    from less [OF this] show ?thesis
      by (auto simp: pmod_step [of _ _ "a XOR b"] pmod_step [of _ _ a] pmod_step [of _ _ b] half_xor odd_xor xmul_xor ac_simps)
  qed simp
qed

lemma pmod_small: "a < 2 ^ n \<Longrightarrow> pmod n p a = a"
proof (induction n p a rule: pmod.induct)
  case (1 n p a)
  show ?case
  proof (cases "a = 0")
    case False
    then have "pmod n p (a div 2) = a div 2" using 1 by simp
    moreover have "\<not> bit (2 * (a div 2)) n"
      using 1(2) by (metis bit_take_bit_iff div_times_less_eq_dividend le_less_trans less_irrefl mult.commute take_bit_nat_eq_self)
    ultimately show ?thesis using nat_halves [of a] by (simp add: pmod_step [of n p a] xmul_def)
  qed simp
qed

lemma pmod_pmod [simp]: "modulus n p \<Longrightarrow> pmod n p (pmod n p a) = pmod n p a"
  by (simp add: pmod_small pmod_less)

lemma pmod_double: "pmod n p (2 * a) = xmul n p (pmod n p a)"
  by (simp add: pmod_step [of n p "2 * a"])

lemma xmul_pmod: "modulus n p \<Longrightarrow> pmod n p (2 * pmod n p a) = xmul n p (pmod n p a)"
  by (simp add: pmod_double)

text \<open>The product of remainders is the remainder of the product.\<close>

lemma pmod_clmul_right: "modulus n p \<Longrightarrow> pmod n p (clmul a (pmod n p b)) = pmod n p (clmul a b)"
proof (induction a b rule: clmul.induct)
  case (1 a b)
  show ?case
  proof (cases "a = 0")
    case False
    with 1 show ?thesis by (simp add: clmul_step [of a] pmod_xor pmod_double)
  qed simp
qed

lemma pmod_clmul_left: "modulus n p \<Longrightarrow> pmod n p (clmul (pmod n p a) b) = pmod n p (clmul a b)"
  by (metis clmul_commute pmod_clmul_right)

lemma pmod_power: "modulus n p \<Longrightarrow> pmod n p (2 ^ n) = 2 ^ n XOR p"
proof -
  assume m: "modulus n p"
  then obtain k where n: "n = Suc k" by (cases n) (auto simp: modulus_def)
  have "pmod n p (2 ^ k) = 2 ^ k" using n by (intro pmod_small) simp
  then show ?thesis using pmod_double [of n p "2 ^ k"] n by (simp add: xmul_def bit_double_iff bit_2_iff) (simp add: bit_exp_iff flip: power_Suc)
qed

lemma pmod_modulus: "modulus n p \<Longrightarrow> pmod n p p = 0"
proof -
  assume m: "modulus n p"
  have b: "bit p n" "p < 2 ^ Suc n" using m bit_top by (auto simp: modulus_def)
  have "2 ^ n XOR p < 2 ^ Suc n" using b(2) by (intro xor_less) auto
  moreover have "\<not> bit (2 ^ n XOR p) n" using b(1) by (simp add: bit_xor_iff bit_exp_iff)
  ultimately have l: "2 ^ n XOR p < 2 ^ n" using bit_top by (meson not_le)
  have "p = 2 ^ n XOR (2 ^ n XOR p)" by simp
  then have "pmod n p p = (2 ^ n XOR p) XOR pmod n p (2 ^ n XOR p)" using pmod_xor pmod_power [OF m] by metis
  then show ?thesis using pmod_small [OF l] by simp
qed

text \<open>Adding a multiple of the modulus does not change the remainder.\<close>

lemma pmod_add_multiple: "modulus n p \<Longrightarrow> pmod n p (a XOR clmul p b) = pmod n p a"
  using pmod_clmul_left [of n p p b] by (simp add: pmod_xor pmod_modulus)

section \<open>Masks of code without branches\<close>

text \<open>The top bit of \<open>x | -x\<close> tells whether \<open>x\<close> is zero.\<close>

lemma drop_top_bit: "drop_bit (LENGTH('a) - 1) (w :: 'a::len word) = of_bool (bit w (LENGTH('a) - 1))"
proof (rule bit_eqI)
  fix k
  show "bit (drop_bit (LENGTH('a) - 1) w) k = bit (of_bool (bit w (LENGTH('a) - 1)) :: 'a word) k"
    by (cases "k = 0") (auto simp: bit_drop_bit_eq bit_of_bool_iff dest: bit_imp_le_length)
qed

lemma nonzero_flag: "drop_bit (LENGTH('a) - 1) (x OR - x) = (of_bool (x \<noteq> 0) :: 'a::len word)"
proof -
  obtain n where n: "LENGTH('a) = Suc n" by (cases "LENGTH('a)") auto
  have "bit (x OR - x) n" if "x \<noteq> 0"
  proof (rule ccontr)
    assume nb: "\<not> bit (x OR - x) n"
    have small: "unat w < 2 ^ n" if "\<not> bit w n" for w :: "'a word"
      using that bit_top [of n "unat w"] unsigned_less [of w, where 'a = nat] n by (fastforce simp: bit_unsigned_iff not_le)
    have "unat x < 2 ^ n" "unat (- x) < 2 ^ n" using nb small by (auto simp: bit_or_iff)
    moreover have "unat (- x) = 2 ^ Suc n - unat x" using unat_sub_if' [of 0 x] that n by (simp add: unat_eq_zero)
    ultimately show False by simp
  qed
  moreover have "\<not> bit (x OR - x) n" if "x = 0" using that by simp
  ultimately show ?thesis using n drop_top_bit [of "x OR - x"] by auto
qed

lemma zero_mask: "- (1 - drop_bit (LENGTH('a) - 1) (x OR - x)) = (if x = 0 then - 1 else 0 :: 'a::len word)"
  by (simp only: nonzero_flag) simp

text \<open>Selecting a table entry by masks.\<close>

lemma fold_select:
  "fold (\<lambda>i g. g XOR (if i = t then u i else 0)) [0..<n] 0 = (if t < n then u t else (0 :: 'a::semiring_bit_operations))"
  by (induction n) (auto simp: less_Suc_eq)

lemma take_bit_add_window: "take_bit (i + k) (a :: nat) = take_bit i a XOR push_bit i (take_bit k (drop_bit i a))"
  by (rule bit_eqI) (auto simp: bit_xor_iff bit_take_bit_iff bit_push_bit_iff bit_drop_bit_eq)

end
