(* ===== verification/Gf.thy ===== *)
theory Gf
  imports Gf2_Poly
begin

text \<open>
  The field with 256 elements, \<open>src/gf.c\<close> and the tables of \<open>src/gf.h\<close> of the HQC-128 implementation.  The
  reference is the type \<open>gf256\<close> of the remainders modulo \<open>X^8 + X^4 + X^3 + X^2 + 1\<close>, a field.
\<close>

section \<open>The code\<close>

abbreviation (input) PARAM_M :: nat where "PARAM_M \<equiv> 8"
abbreviation (input) PARAM_GF_POLY_WT :: nat where "PARAM_GF_POLY_WT \<equiv> 5"
abbreviation (input) PARAM_GF_MUL_ORDER :: nat where "PARAM_GF_MUL_ORDER \<equiv> 255"

definition PARAM_GF_POLY :: u16 where "PARAM_GF_POLY = 0x11D"
definition PARAM_GF_POLY_M2 :: u32 where "PARAM_GF_POLY_M2 = 4"

definition CEIL_DIVIDE :: "u32 \<Rightarrow> u32 \<Rightarrow> u32" where
  "CEIL_DIVIDE a b = a div b + (if a mod b = 0 then 0 else 1)"

text \<open>The tables of powers and logarithms of \<open>gf.h\<close>.\<close>

definition gf_exp :: "u16 list" where
  "gf_exp = [1, 2, 4, 8, 16, 32, 64, 128, 29, 58, 116, 232, 205, 135, 19, 38, 76, 152, 45, 90,
     180, 117, 234, 201, 143, 3, 6, 12, 24, 48, 96, 192, 157, 39, 78, 156, 37, 74, 148, 53,
     106, 212, 181, 119, 238, 193, 159, 35, 70, 140, 5, 10, 20, 40, 80, 160, 93, 186, 105, 210,
     185, 111, 222, 161, 95, 190, 97, 194, 153, 47, 94, 188, 101, 202, 137, 15, 30, 60, 120, 240,
     253, 231, 211, 187, 107, 214, 177, 127, 254, 225, 223, 163, 91, 182, 113, 226, 217, 175, 67, 134,
     17, 34, 68, 136, 13, 26, 52, 104, 208, 189, 103, 206, 129, 31, 62, 124, 248, 237, 199, 147,
     59, 118, 236, 197, 151, 51, 102, 204, 133, 23, 46, 92, 184, 109, 218, 169, 79, 158, 33, 66,
     132, 21, 42, 84, 168, 77, 154, 41, 82, 164, 85, 170, 73, 146, 57, 114, 228, 213, 183, 115,
     230, 209, 191, 99, 198, 145, 63, 126, 252, 229, 215, 179, 123, 246, 241, 255, 227, 219, 171, 75,
     150, 49, 98, 196, 149, 55, 110, 220, 165, 87, 174, 65, 130, 25, 50, 100, 200, 141, 7, 14,
     28, 56, 112, 224, 221, 167, 83, 166, 81, 162, 89, 178, 121, 242, 249, 239, 195, 155, 43, 86,
     172, 69, 138, 9, 18, 36, 72, 144, 61, 122, 244, 245, 247, 243, 251, 235, 203, 139, 11, 22,
     44, 88, 176, 125, 250, 233, 207, 131, 27, 54, 108, 216, 173, 71, 142, 1, 2, 4]"

definition gf_log :: "u16 list" where
  "gf_log = [0, 0, 1, 25, 2, 50, 26, 198, 3, 223, 51, 238, 27, 104, 199, 75, 4, 100, 224, 14,
     52, 141, 239, 129, 28, 193, 105, 248, 200, 8, 76, 113, 5, 138, 101, 47, 225, 36, 15, 33,
     53, 147, 142, 218, 240, 18, 130, 69, 29, 181, 194, 125, 106, 39, 249, 185, 201, 154, 9, 120,
     77, 228, 114, 166, 6, 191, 139, 98, 102, 221, 48, 253, 226, 152, 37, 179, 16, 145, 34, 136,
     54, 208, 148, 206, 143, 150, 219, 189, 241, 210, 19, 92, 131, 56, 70, 64, 30, 66, 182, 163,
     195, 72, 126, 110, 107, 58, 40, 84, 250, 133, 186, 61, 202, 94, 155, 159, 10, 21, 121, 43,
     78, 212, 229, 172, 115, 243, 167, 87, 7, 112, 192, 247, 140, 128, 99, 13, 103, 74, 222, 237,
     49, 197, 254, 24, 227, 165, 153, 119, 38, 184, 180, 124, 17, 68, 146, 217, 35, 32, 137, 46,
     55, 63, 209, 91, 149, 188, 207, 205, 144, 135, 151, 178, 220, 252, 190, 97, 242, 86, 211, 171,
     20, 42, 93, 158, 132, 60, 57, 83, 71, 109, 65, 162, 31, 45, 67, 216, 183, 123, 164, 118,
     196, 23, 73, 236, 127, 12, 111, 246, 108, 161, 59, 82, 41, 157, 85, 170, 251, 96, 134, 177,
     187, 204, 62, 90, 203, 89, 95, 176, 156, 169, 160, 81, 11, 245, 22, 235, 122, 117, 44, 215,
     79, 174, 213, 233, 230, 231, 173, 232, 116, 214, 244, 234, 168, 80, 88, 175]"

text \<open>
  The loop of the generator of the two tables: the element \<open>elt\<close> after \<open>i\<close> steps, with both arrays.
\<close>

definition gf_generate_step :: "nat \<Rightarrow> nat \<Rightarrow> u16 \<times> u16 list \<times> u16 list \<Rightarrow> u16 \<times> u16 list \<times> u16 list" where
  "gf_generate_step m i = (\<lambda>(elt, exps, logs).
     let exps = exps[i := elt]; logs = logs[unat elt := of_nat i]; elt = elt * 2
     in (if 2 ^ m \<le> unat elt then elt XOR PARAM_GF_POLY else elt, exps, logs))"

definition gf_generate :: "u16 list \<Rightarrow> u16 list \<Rightarrow> nat \<Rightarrow> u16 list \<times> u16 list" where
  "gf_generate exps logs m =
     (case fold (gf_generate_step m) [0..<2 ^ m - 1] (1, exps, logs) of
        (elt, exps, logs) \<Rightarrow> (exps[2 ^ m - 1 := 1, 2 ^ m := 2, 2 ^ m + 1 := 4], logs[0 := 0]))"

definition trailing_zero_bits_count :: "u16 \<Rightarrow> u16" where
  "trailing_zero_bits_count a =
     fst (fold (\<lambda>i (tmp, mask).
            (tmp + ((1 - (drop_bit i a AND 1)) AND mask), mask AND - (1 - (drop_bit i a AND 1)))) [0..<14] (0, 0xFFFF))"

text \<open>One step of the reduction; the inner loop runs \<open>PARAM_GF_POLY_WT - 2\<close> times.\<close>

definition gf_reduce_inner :: "nat \<Rightarrow> u64 \<times> u64 \<times> u16 \<times> u16 \<Rightarrow> u64 \<times> u64 \<times> u16 \<times> u16" where
  "gf_reduce_inner j = (\<lambda>(x, md, z1, rmdr).
     let z2 = trailing_zero_bits_count rmdr;
         dist = z2 - z1;
         md = push_bit (unat dist) md
     in (x XOR md, md, z2, rmdr XOR push_bit (unat z2) 1))"

definition gf_reduce_step :: "nat \<Rightarrow> u64 \<Rightarrow> u64" where
  "gf_reduce_step i x =
     (let md = drop_bit PARAM_M x;
          x = (x AND (push_bit PARAM_M 1 - 1)) XOR md
      in fst (fold gf_reduce_inner [0..<PARAM_GF_POLY_WT - 2] (x, md, 0, PARAM_GF_POLY XOR 1)))"

definition gf_reduce :: "u64 \<Rightarrow> u32 \<Rightarrow> u16" where
  "gf_reduce x deg_x =
     (let steps = CEIL_DIVIDE (deg_x - (of_nat PARAM_M - 1)) PARAM_GF_POLY_M2
      in ucast (fold gf_reduce_step [0..<unat steps] x))"

text \<open>The masked selection of a table entry, and the product of two bytes as two bytes.\<close>

definition gf_select :: "u16 list \<Rightarrow> u16 \<Rightarrow> u16" where
  "gf_select u tmp1 =
     fold (\<lambda>i g. let tmp2 = ucast tmp1 - of_nat i :: u32
                 in g XOR ucast (ucast (u ! i) AND - (1 - drop_bit 31 (tmp2 OR - tmp2)))) [0..<4] 0"

definition gf_carryless_mul :: "u8 \<Rightarrow> u8 \<Rightarrow> u8 \<times> u8" where
  "gf_carryless_mul a b =
     (let u1 = ucast b AND (push_bit 7 1 - 1) :: u16;
          u2 = push_bit 1 u1;
          u = [0, u1, u2, u2 XOR u1];
          l = gf_select u (ucast (a AND 3));
          (l, h) = fold (\<lambda>i (l, h).
                      let g = gf_select u (ucast (drop_bit i a AND 3))
                      in (l XOR push_bit i g, h XOR drop_bit (8 - i) g)) [2, 4, 6] (l, 0);
          mask = - ucast (drop_bit 7 b AND 1) :: u16;
          l = l XOR (push_bit 7 (ucast a) AND mask);
          h = h XOR (drop_bit 1 (ucast a) AND mask)
      in (ucast l, ucast h))"

definition gf_mul :: "u16 \<Rightarrow> u16 \<Rightarrow> u16" where
  "gf_mul a b =
     (let (c0, c1) = gf_carryless_mul (ucast a) (ucast b);
          tmp = ucast c0 XOR push_bit 8 (ucast c1) :: u16
      in gf_reduce (ucast tmp) (of_nat (2 * (PARAM_M - 1))))"

definition gf_square :: "u16 \<Rightarrow> u16" where
  "gf_square a =
     (let b = ucast a :: u32;
          (b, s) = fold (\<lambda>i (b, s). let b = push_bit 1 b in (b, s XOR (b AND push_bit (2 * i) 1))) [1..<PARAM_M] (b, b AND 1)
      in gf_reduce (ucast s) (of_nat (2 * (PARAM_M - 1))))"

definition gf_inverse :: "u16 \<Rightarrow> u16" where
  "gf_inverse a =
     (let inv = gf_square a;
          tmp1 = gf_mul inv a;
          inv = gf_square inv;
          tmp2 = gf_mul inv tmp1;
          tmp1 = gf_mul inv tmp2;
          inv = gf_mul tmp1 inv;
          inv = gf_square inv;
          inv = gf_square inv;
          inv = gf_square inv;
          inv = gf_mul inv tmp2;
          inv = gf_square inv
      in inv)"

definition gf_mod :: "u16 \<Rightarrow> u16" where
  "gf_mod i =
     (let tmp = i - of_nat PARAM_GF_MUL_ORDER;
          mask = - drop_bit 15 tmp
      in tmp + (mask AND of_nat PARAM_GF_MUL_ORDER))"

section \<open>The reference field\<close>

typedef gf256 = "{a :: nat. a < 256}"
  by (rule exI [of _ 0]) simp

setup_lifting type_definition_gf256

lemma gf_modulus: "modulus 8 0x11D"
  by (simp add: modulus_def)

lemma gf_pmod_less [simp]: "pmod 8 0x11D a < 256"
  using pmod_less [OF gf_modulus, of a] by simp

lemma gf_pmod_small: "a < 256 \<Longrightarrow> pmod 8 0x11D a = a"
  using pmod_small [of a 8] by simp

lemma xor_less_256: "(a :: nat) < 256 \<Longrightarrow> b < 256 \<Longrightarrow> a XOR b < 256"
  using xor_less [of a 8 b] by simp

instantiation gf256 :: comm_ring_1
begin

lift_definition zero_gf256 :: gf256 is "0 :: nat" by simp
lift_definition one_gf256 :: gf256 is "1 :: nat" by simp
lift_definition plus_gf256 :: "gf256 \<Rightarrow> gf256 \<Rightarrow> gf256" is "\<lambda>a b. a XOR b" by (rule xor_less_256)
lift_definition minus_gf256 :: "gf256 \<Rightarrow> gf256 \<Rightarrow> gf256" is "\<lambda>a b. a XOR b" by (rule xor_less_256)
lift_definition uminus_gf256 :: "gf256 \<Rightarrow> gf256" is "\<lambda>a. a" .
lift_definition times_gf256 :: "gf256 \<Rightarrow> gf256 \<Rightarrow> gf256" is "\<lambda>a b. pmod 8 0x11D (clmul a b)" by simp

instance
proof
  fix a b c :: gf256
  show "a + b + c = a + (b + c)" by transfer (simp add: xor.assoc)
  show "a + b = b + a" by transfer (simp add: xor.commute)
  show "0 + a = a" by transfer simp
  show "- a + a = 0" by transfer simp
  show "a - b = a + - b" by transfer simp
  show "a * b * c = a * (b * c)"
    by transfer (simp add: pmod_clmul_left pmod_clmul_right gf_modulus clmul_assoc)
  show "a * b = b * a" by transfer (simp add: clmul_commute)
  show "1 * a = a" by transfer (simp add: gf_pmod_small)
  show "(a + b) * c = a * c + b * c" by transfer (simp add: clmul_xor_left pmod_xor)
  show "(0 :: gf256) \<noteq> 1" by transfer simp
qed

end

lemma gf256_add_self [simp]: "(a :: gf256) + a = 0" "a + (a + b) = b"
  by (transfer, simp)+

lemma gf256_minus: "(a :: gf256) - b = a + b" "- a = (a :: gf256)"
  by (transfer, simp)+

text \<open>The powers of \<open>X\<close> are the table \<open>gf_exp\<close>, which reaches every non-zero element.\<close>

lemma gf_exp_length [simp]: "length gf_exp = 258"
  by (simp add: gf_exp_def)

lemma gf_log_length [simp]: "length gf_log = 256"
  by (simp add: gf_log_def)

lemma gf_exp_table: "list_all (\<lambda>(a, b). b = xmul 8 0x11D a) (zip (map unat gf_exp) (map unat (tl gf_exp)))"
  by (simp add: gf_exp_def xmul_def bit_0)

lemma gf_log_table:
  "sort_key fst (zip (map uint (take 255 gf_exp)) [0..254]) = zip [1..255] (map uint (tl gf_log))"
  unfolding gf_exp_def gf_log_def by code_simp

lemma gf_exp_Suc: "k < 257 \<Longrightarrow> unat (gf_exp ! Suc k) = xmul 8 0x11D (unat (gf_exp ! k))"
  using gf_exp_table by (simp add: list_all_length nth_tl)

text \<open>The element a number of the code stands for: its low byte.\<close>

lift_definition gf :: "u16 \<Rightarrow> gf256" is "\<lambda>w. unat w mod 256" by simp

definition alpha :: gf256 where "alpha = gf 2"

lemma gf_simps [simp]: "gf 0 = 0" "gf 1 = 1"
  by (simp_all add: gf_def zero_gf256_def one_gf256_def)

lemma Rep_gf_small: "unat w < 256 \<Longrightarrow> Rep_gf256 (gf w) = unat w"
  by (simp add: gf.rep_eq)

lemma gf_inject: "unat v < 256 \<Longrightarrow> unat w < 256 \<Longrightarrow> gf v = gf w \<longleftrightarrow> v = w"
  by (metis Rep_gf_small word_unat_eq_iff)

lemma gf_eq_0: "unat w < 256 \<Longrightarrow> gf w = 0 \<longleftrightarrow> w = 0"
  using gf_inject [of w 0] by simp

lemma gf_xor: "gf (v XOR w) = gf v + gf w"
proof transfer
  fix v w :: u16
  have "take_bit 8 (unat (v XOR w)) = take_bit 8 (unat v) XOR take_bit 8 (unat w)" by (simp add: unsigned_xor_eq)
  then show "unat (v XOR w) mod 256 = unat v mod 256 XOR unat w mod 256" by (simp add: take_bit_eq_mod)
qed

lemma alpha_mult: "alpha * x = Abs_gf256 (xmul 8 0x11D (Rep_gf256 x))"
proof -
  have "Rep_gf256 x < 256" using Rep_gf256 by simp
  then have "pmod 8 0x11D (clmul 2 (Rep_gf256 x)) = xmul 8 0x11D (Rep_gf256 x)"
    using pmod_double [of 8 "0x11D" "Rep_gf256 x"] clmul_double [of 1 "Rep_gf256 x"] by (simp add: gf_pmod_small)
  then show ?thesis by (simp add: times_gf256_def alpha_def gf.rep_eq)
qed

lemma gf_exp_small: "k < 258 \<Longrightarrow> unat (gf_exp ! k) < 256"
proof (induction k)
  case (Suc k)
  then show ?case using xmul_less [OF gf_modulus, of "unat (gf_exp ! k)"] gf_exp_Suc by simp
qed (simp add: gf_exp_def)

lemma gf_exp_alpha: "k < 258 \<Longrightarrow> gf (gf_exp ! k) = alpha ^ k"
proof (induction k)
  case 0
  then show ?case by (simp add: gf_exp_def)
next
  case (Suc k)
  have "gf (gf_exp ! Suc k) = Abs_gf256 (unat (gf_exp ! Suc k))"
    using gf_exp_small [OF Suc.prems] by (simp add: gf_def)
  also have "\<dots> = alpha * gf (gf_exp ! k)"
    using Suc.prems gf_exp_small [of k] by (simp add: alpha_mult Rep_gf_small gf_exp_Suc)
  finally show ?case using Suc by simp
qed

lemma gf_log_exp:
  assumes "0 < a" "a < 256"
  shows "unat (gf_log ! a) < 255" and "gf_exp ! unat (gf_log ! a) = of_nat a"
proof -
  let ?E = "zip (map uint (take 255 gf_exp)) [0..254]" and ?L = "zip [1..255] (map uint (tl gf_log))"
  have "?L ! (a - 1) = (int a, uint (gf_log ! a))" using assms by (simp add: nth_tl)
  moreover have "a - 1 < length ?L" using assms by simp
  ultimately have "(int a, uint (gf_log ! a)) \<in> set ?L" by (metis nth_mem)
  then have "(int a, uint (gf_log ! a)) \<in> set ?E" unfolding gf_log_table [symmetric] by simp
  then obtain i where i: "i < 255" "int a = uint (gf_exp ! i)" "uint (gf_log ! a) = int i"
    by (fastforce simp: in_set_zip)
  have l: "unat (gf_log ! a) = i" using i(3) by (simp add: unat_eq_nat_uint)
  then show "unat (gf_log ! a) < 255" using i(1) by simp
  have "a = unat (gf_exp ! i)" using i(2) by (metis nat_int unat_eq_nat_uint)
  then show "gf_exp ! unat (gf_log ! a) = of_nat a" using l by simp
qed

lemma gf256_nonzero_power: "x \<noteq> 0 \<Longrightarrow> \<exists>k<255. x = alpha ^ k"
proof -
  assume x: "x \<noteq> 0"
  let ?a = "Rep_gf256 x"
  have a: "?a < 256" "0 < ?a" using Rep_gf256 [of x] x by (auto simp: zero_gf256.rep_eq Rep_gf256_inject [symmetric])
  note l = gf_log_exp [OF a(2,1)]
  have "gf (of_nat ?a) = x" using a(1) by (simp add: gf_def Rep_gf256_inverse)
  then have "x = alpha ^ unat (gf_log ! ?a)" using gf_exp_alpha [of "unat (gf_log ! ?a)"] l by simp
  then show ?thesis using l(1) by blast
qed

lemma alpha_255: "alpha ^ 255 = 1"
  using gf_exp_alpha [of 255] by (simp add: gf_exp_def)

lemma gf256_power_255: "x \<noteq> 0 \<Longrightarrow> x ^ 255 = (1 :: gf256)"
  using gf256_nonzero_power [of x] alpha_255 by (metis mult.commute power_mult power_one)

instantiation gf256 :: field
begin

definition inverse_gf256 :: "gf256 \<Rightarrow> gf256" where "inverse_gf256 x = x ^ 254"
definition divide_gf256 :: "gf256 \<Rightarrow> gf256 \<Rightarrow> gf256" where "divide_gf256 x y = x * y ^ 254"

instance
proof
  fix x y :: gf256
  show "x \<noteq> 0 \<Longrightarrow> inverse x * x = 1"
    using gf256_power_255 [of x] power_Suc2 [of x 254] by (simp add: inverse_gf256_def)
  show "x div y = x * inverse y" by (simp add: divide_gf256_def inverse_gf256_def)
  show "inverse 0 = (0 :: gf256)" by (simp add: inverse_gf256_def)
qed

end

end
