(* ===== verification/Gf_Ops.thy ===== *)
theory Gf_Ops
  imports Gf
begin

text \<open>
  The operations of \<open>gf.c\<close> are those of the field: multiplication by windows and masks, squaring by
  spreading the bits, inversion by an addition chain, and the generated tables.
\<close>

section \<open>Multiplication\<close>

lemma upt_4: "[0..<4] = [0, 1, 2, 3 :: nat]"
  by (simp add: upt_rec)

lemma less_4_cases: "(n :: nat) < 4 \<Longrightarrow> n = 0 \<or> n = 1 \<or> n = 2 \<or> n = 3"
  by auto

lemma gf_select_nth:
  assumes "unat t < 4"
  shows "gf_select [u0, u1, u2, u3] t = [u0, u1, u2, u3] ! unat t"
proof -
  have "t = 0 \<or> t = 1 \<or> t = 2 \<or> t = 3" using less_4_cases [OF assms] by (simp add: word_unat_eq_iff)
  then show ?thesis by (elim disjE) (simp_all add: gf_select_def upt_4 Let_def unsigned_ucast_eq take_bit_word_eq_self)
qed

lemma and_3: "(a :: nat) AND 3 = take_bit 2 a"
  by (simp add: take_bit_eq_mask mask_eq_exp_minus_1)

lemma unat_window: "unat (ucast (drop_bit i (a :: u8) AND 3) :: u16) = take_bit 2 (drop_bit i (unat a))"
  by (simp add: unsigned_and_eq unsigned_drop_bit_eq and_3 [symmetric] take_bit_nat_eq_self)

text \<open>The table of the multiples of the low seven bits.\<close>

lemma gf_table:
  fixes b :: u8
  defines "u1 \<equiv> ucast b AND (push_bit 7 1 - 1) :: u16"
  assumes "unat t < 4"
  shows "unat (gf_select [0, u1, push_bit 1 u1, push_bit 1 u1 XOR u1] t) = clmul (unat t) (take_bit 7 (unat b))"
proof -
  have u1: "unat u1 = take_bit 7 (unat b)"
    by (simp add: u1_def unsigned_and_eq take_bit_eq_mask mask_eq_exp_minus_1)
  moreover have "take_bit 7 (unat b) < 128" using take_bit_nat_less_exp [of 7 "unat b"] by simp
  ultimately have u2: "unat (push_bit 1 u1) = 2 * take_bit 7 (unat b)"
    unfolding unsigned_push_bit_eq by (simp add: take_bit_nat_eq_self)
  have "clmul 2 x = 2 * x" "clmul 3 x = 2 * x XOR x" for x
    using clmul_step [of 2 x] clmul_step [of 3 x] by (simp_all add: xor.commute)
  then show ?thesis
    using less_4_cases [OF assms(2)] u1 u2 by (auto simp: gf_select_nth [OF assms(2)] unsigned_xor_eq)
qed

lemma unat_3: "a < 4 \<Longrightarrow> take_bit 2 (a :: nat) = a"
  by (simp add: take_bit_nat_eq_self)

text \<open>A product split into the part below bit \<open>w\<close> and the part above.\<close>

lemma windows_8:
  assumes "(a :: nat) < 256"
  shows "clmul a b = clmul (take_bit 2 a) b XOR push_bit 2 (clmul (take_bit 2 (drop_bit 2 a)) b) XOR
    push_bit 4 (clmul (take_bit 2 (drop_bit 4 a)) b) XOR push_bit 6 (clmul (take_bit 2 (drop_bit 6 a)) b)"
proof -
  have "a = take_bit 8 a" using assms by (simp add: take_bit_nat_eq_self)
  also have "\<dots> = take_bit 2 a XOR push_bit 2 (take_bit 2 (drop_bit 2 a)) XOR push_bit 4 (take_bit 2 (drop_bit 4 a)) XOR
      push_bit 6 (take_bit 2 (drop_bit 6 a))"
    using take_bit_add_window [of 2 2 a] take_bit_add_window [of 4 2 a] take_bit_add_window [of 6 2 a] by (simp add: xor.assoc)
  finally have "clmul a b = clmul (take_bit 2 a XOR push_bit 2 (take_bit 2 (drop_bit 2 a)) XOR push_bit 4 (take_bit 2 (drop_bit 4 a)) XOR
      push_bit 6 (take_bit 2 (drop_bit 6 a))) b" by simp
  then show ?thesis by (simp add: clmul_xor_left clmul_push_left)
qed

lemma clmul_top_bit:
  assumes "(b :: nat) < 256"
  shows "clmul a b = clmul a (take_bit 7 b) XOR (if bit b 7 then push_bit 7 a else 0)"
proof -
  have "b = take_bit 7 b XOR push_bit 7 (take_bit 1 (drop_bit 7 b))"
    using take_bit_add_window [of 7 1 b] assms by (simp add: take_bit_nat_eq_self)
  moreover have "take_bit 1 (drop_bit 7 b) = of_bool (bit b 7)"
    by (simp add: take_bit_eq_mod bit_iff_odd drop_bit_eq_div mod_2_eq_odd)
  ultimately have "clmul a b = clmul a (take_bit 7 b XOR push_bit 7 (of_bool (bit b 7)))" by simp
  then show ?thesis by (simp add: clmul_xor_right clmul_push_right clmul_1_right del: push_bit_of_1)
qed

lemma take_8_push: "take_bit 8 (unat (push_bit i (g :: u16))) = take_bit 8 (push_bit i (unat g))"
  by (simp add: unsigned_push_bit_eq)

lemma unat_drop_u16: "unat (drop_bit k (g :: u16)) = drop_bit k (unat g)"
  by (simp add: unsigned_drop_bit_eq take_bit_nat_eq_self)

lemma mask_bit:
  "x AND - (ucast (drop_bit 7 (b :: u8) AND 1) :: u16) = (if bit (unat b) 7 then x else 0)"
proof -
  have "drop_bit 7 b AND 1 = of_bool (bit b 7)"
    by (rule bit_eqI) (auto simp: bit_and_iff bit_drop_bit_eq bit_1_iff intro: Nat.gr0I)
  then show ?thesis by (simp add: bit_unsigned_iff)
qed

lemma join_bytes:
  assumes "unat (h :: u16) < 256"
  shows "unat (ucast (ucast (l :: u16) :: u8) XOR push_bit 8 (ucast (ucast h :: u8)) :: u16) = take_bit 8 (unat l) XOR push_bit 8 (unat h)"
proof (rule bit_eqI)
  fix k
  have "bit h j \<Longrightarrow> j < 8" for j using assms bit_take_bit_iff [of 8 "unat h" j] by (simp add: take_bit_nat_eq_self bit_unsigned_iff)
  from this [of "k - 8"] have "bit h (k - 8) \<Longrightarrow> k < 16" by linarith
  then show "bit (unat (ucast (ucast l :: u8) XOR push_bit 8 (ucast (ucast h :: u8)) :: u16)) k = bit (take_bit 8 (unat l) XOR push_bit 8 (unat h)) k"
    by (auto simp: bit_unsigned_iff bit_xor_iff bit_push_bit_iff bit_ucast_iff bit_take_bit_iff dest: bit_imp_le_length)
qed

lemma gf_carryless_mul_correct:
  assumes "gf_carryless_mul a b = (c0, c1)"
  shows "unat (ucast c0 XOR push_bit 8 (ucast c1) :: u16) = clmul (unat a) (unat b)"
proof -
  define u1 where "u1 = ucast b AND (push_bit 7 1 - 1 :: u16)"
  define u where "u = [0, u1, push_bit 1 u1, push_bit 1 u1 XOR u1]"
  define B where "B = take_bit 7 (unat b)"
  define g where "g i = gf_select u (ucast (drop_bit i a AND 3))" for i
  have G: "unat (g i) = clmul (take_bit 2 (drop_bit i (unat a))) B" for i
  proof -
    have "unat (ucast (drop_bit i a AND 3) :: u16) < 4" unfolding unat_window using take_bit_nat_less_exp [of 2] by simp
    from gf_table [OF this, of b] show ?thesis unfolding g_def u_def u1_def B_def unat_window .
  qed
  define l where "l = (((g 0 XOR push_bit 2 (g 2)) XOR push_bit 4 (g 4)) XOR push_bit 6 (g 6)) XOR (if bit (unat b) 7 then push_bit 7 (ucast a) else 0)"
  define h where "h = ((drop_bit 6 (g 2) XOR drop_bit 4 (g 4)) XOR drop_bit 2 (g 6)) XOR (if bit (unat b) 7 then drop_bit 1 (ucast a) else 0 :: u16)"
  have c: "c0 = ucast l" "c1 = ucast h"
    using assms unfolding gf_carryless_mul_def Let_def l_def h_def g_def u_def u1_def mask_bit by simp_all
  have A: "unat a < 256" "unat b < 256" by simp_all
  have X: "clmul (unat a) (unat b) = unat (g 0) XOR push_bit 2 (unat (g 2)) XOR push_bit 4 (unat (g 4)) XOR push_bit 6 (unat (g 6)) XOR
      (if bit (unat b) 7 then push_bit 7 (unat a) else 0)" (is "_ = ?X")
    unfolding G clmul_top_bit [OF A(2), of "unat a"] B_def [symmetric] windows_8 [OF A(1), of B] by (simp add: xor.assoc)
  have gl: "unat (g i) < 256" for i
    unfolding G using clmul_less_pred [of "take_bit 2 (drop_bit i (unat a))" 1 B 7] take_bit_nat_less_exp [of 2] take_bit_nat_less_exp [of 7 "unat b"]
    by (simp add: B_def)
  have "take_bit 8 (unat l) = take_bit 8 ?X"
    by (simp add: l_def unsigned_xor_eq take_8_push unsigned_push_bit_eq xor.assoc)
  moreover have "drop_bit 8 (unat (g 0)) = 0" using gl [of 0] by (simp add: drop_bit_eq_div)
  then have "unat h = drop_bit 8 ?X"
    by (simp add: h_def unsigned_xor_eq unat_drop_u16 drop_bit_push_bit xor.assoc del: drop_bit_Suc)
  moreover have "?X < 2 ^ 15" using clmul_less_pred [of "unat a" 7 "unat b" 8] A X by simp
  then have hl: "drop_bit 8 ?X < 256" by (simp add: drop_bit_eq_div)
  ultimately have "unat (ucast c0 XOR push_bit 8 (ucast c1) :: u16) = take_bit 8 ?X XOR push_bit 8 (drop_bit 8 ?X)"
    unfolding c by (subst join_bytes) simp_all
  then show ?thesis using take_drop_xor [of ?X 8] X by simp
qed

text \<open>The reduction.\<close>

lemma trailing_zeros: "trailing_zero_bits_count 0x11C = 2" "trailing_zero_bits_count 0x118 = 3" "trailing_zero_bits_count 0x110 = 4"
  by code_simp+

lemma upt_3: "[0..<3] = [0, 1, 2 :: nat]"
  by (simp add: upt_rec)

lemma gf_reduce_step_eq:
  "gf_reduce_step i x = ((((x AND 0xFF) XOR drop_bit 8 x) XOR push_bit 2 (drop_bit 8 x)) XOR push_bit 3 (drop_bit 8 x)) XOR push_bit 4 (drop_bit 8 x)"
  by (simp add: gf_reduce_step_def gf_reduce_inner_def Let_def upt_3 PARAM_GF_POLY_def trailing_zeros push_bit_push_bit
      del: One_nat_def flip: push_bit_Suc)

lemma clmul_29: "clmul 29 m = m XOR push_bit 2 m XOR push_bit 3 m XOR push_bit 4 m"
proof -
  have "clmul 29 m = clmul (1 XOR 2 ^ 2 XOR 2 ^ 3 XOR 2 ^ 4) m" by simp
  then show ?thesis unfolding clmul_xor_left clmul_power by simp
qed

lemma unat_reduce_step:
  assumes "unat x < 2 ^ 60"
  shows "unat (gf_reduce_step i x) = take_bit 8 (unat x) XOR clmul 29 (drop_bit 8 (unat x))"
proof -
  have d: "unat (drop_bit 8 x) = drop_bit 8 (unat x)"
    using assms by (simp add: unsigned_drop_bit_eq take_bit_nat_eq_self)
  have "drop_bit 8 (unat x) < 2 ^ 52" using assms by (simp add: drop_bit_eq_div)
  then have "push_bit k (drop_bit 8 (unat x)) < 2 ^ 64" if "k \<le> 4" for k
    using that power_increasing [of k 4 "2 :: nat"] mult_strict_mono [of "drop_bit 8 (unat x)" "2 ^ 52" "2 ^ k" "2 ^ 12"]
    by (simp add: push_bit_eq_mult)
  then have "unat (push_bit k (drop_bit 8 x)) = push_bit k (drop_bit 8 (unat x))" if "k \<le> 4" for k
    using that unfolding unsigned_push_bit_eq d by (intro take_bit_nat_eq_self) simp
  then show ?thesis
    unfolding gf_reduce_step_eq clmul_29 unsigned_xor_eq d
    by (simp add: unsigned_and_eq take_bit_eq_mask mask_eq_exp_minus_1 d xor.assoc)
qed

lemma pmod_reduce_step: "pmod 8 285 (take_bit 8 x XOR clmul 29 (drop_bit 8 x)) = pmod 8 285 x"
proof -
  have "push_bit 8 (drop_bit 8 x) = clmul (285 XOR 29) (drop_bit 8 x)" using clmul_power [of 8 "drop_bit 8 x"] by simp
  also have "\<dots> = clmul 285 (drop_bit 8 x) XOR clmul 29 (drop_bit 8 x)" by (rule clmul_xor_left)
  finally have "x = (take_bit 8 x XOR clmul 29 (drop_bit 8 x)) XOR clmul 285 (drop_bit 8 x)"
    using take_drop_xor [of x 8] by (simp add: ac_simps)
  then show ?thesis using pmod_add_multiple [OF gf_modulus, of "take_bit 8 x XOR clmul 29 (drop_bit 8 x)" "drop_bit 8 x"] by simp
qed

lemma reduce_step_less: "x < 2 ^ (8 + n) \<Longrightarrow> take_bit 8 x XOR clmul 29 (drop_bit 8 x) < 2 ^ max 8 (4 + n)"
proof (rule xor_less)
  assume x: "x < 2 ^ (8 + n)"
  have "drop_bit 8 x < 2 ^ n" using x by (simp add: drop_bit_eq_div power_add less_mult_imp_div_less mult.commute)
  then have "clmul 29 (drop_bit 8 x) < 2 ^ (4 + n)" by (intro clmul_less_pred) simp_all
  then show "clmul 29 (drop_bit 8 x) < 2 ^ max 8 (4 + n)" by (rule less_le_trans) (simp add: power_increasing)
  show "take_bit 8 x < 2 ^ max 8 (4 + n)"
    by (rule less_le_trans [OF take_bit_nat_less_exp [of 8 x]]) (rule power_increasing, simp_all)
qed

lemma gf_reduce_correct:
  assumes "unat x < 2 ^ 15"
  shows "unat (gf_reduce x 14) = pmod 8 285 (unat x)"
proof -
  let ?r = "\<lambda>x. take_bit 8 x XOR clmul 29 (drop_bit 8 x)"
  have steps: "gf_reduce x 14 = ucast (gf_reduce_step 1 (gf_reduce_step 0 x))"
    by (simp add: gf_reduce_def CEIL_DIVIDE_def PARAM_GF_POLY_M2_def upt_rec)
  have s1: "unat (gf_reduce_step 0 x) = ?r (unat x)" using assms by (intro unat_reduce_step) simp
  have l1: "?r (unat x) < 2 ^ 11" using reduce_step_less [of "unat x" 7] assms by simp
  have s2: "unat (gf_reduce_step 1 (gf_reduce_step 0 x)) = ?r (?r (unat x))"
    using s1 l1 by (subst unat_reduce_step) (simp_all only: s1, simp)
  have l2: "?r (?r (unat x)) < 256" using reduce_step_less [of "?r (unat x)" 3] l1 by simp
  have "pmod 8 285 (?r (?r (unat x))) = pmod 8 285 (unat x)" unfolding pmod_reduce_step ..
  then have "?r (?r (unat x)) = pmod 8 285 (unat x)" using gf_pmod_small [OF l2] by simp
  moreover have "take_bit 16 (?r (?r (unat x))) = ?r (?r (unat x))" using l2 by (intro take_bit_nat_eq_self) simp
  ultimately show ?thesis unfolding steps unsigned_ucast_eq s2 by simp
qed

lemma gf_mul_unat: "unat (gf_mul a b) = pmod 8 285 (clmul (unat a mod 256) (unat b mod 256))"
proof -
  obtain c0 c1 where c: "gf_carryless_mul (ucast a) (ucast b) = (c0, c1)" by fastforce
  let ?X = "clmul (unat a mod 256) (unat b mod 256)"
  have u: "unat (ucast c0 XOR push_bit 8 (ucast c1) :: u16) = ?X"
    using gf_carryless_mul_correct [OF c] by (simp add: unsigned_ucast_eq take_bit_eq_mod)
  have X: "?X < 2 ^ 15" using clmul_less_pred [of "unat a mod 256" 7 "unat b mod 256" 8] by simp
  have w: "unat (ucast (ucast c0 XOR push_bit 8 (ucast c1) :: u16) :: u64) = ?X"
    unfolding unsigned_ucast_eq u using X by (simp add: take_bit_nat_eq_self)
  have "gf_mul a b = gf_reduce (ucast (ucast c0 XOR push_bit 8 (ucast c1) :: u16)) 14"
    by (simp add: gf_mul_def c)
  then show ?thesis using gf_reduce_correct [of "ucast (ucast c0 XOR push_bit 8 (ucast c1) :: u16)"] X unfolding w by simp
qed

lemma gf_mul_small [simp]: "unat (gf_mul a b) < 256"
  by (simp add: gf_mul_unat)

lemma gf_mul: "gf (gf_mul a b) = gf a * gf b"
  by (rule Rep_gf256_inject [THEN iffD1]) (simp add: times_gf256.rep_eq gf.rep_eq gf_mul_unat)

section \<open>Squaring and inversion\<close>

lemma clmul_square_xor: "clmul (a XOR b) (a XOR b) = clmul a a XOR clmul b b"
  by (simp add: clmul_xor_left clmul_xor_right clmul_commute [of b a] xor.assoc)

lemma clmul_square_step: "clmul a a = of_bool (odd a) XOR 4 * clmul (a div 2) (a div 2)"
proof -
  have "clmul a a = clmul (of_bool (odd a)) (of_bool (odd a)) XOR clmul (2 * (a div 2)) (2 * (a div 2))"
    using clmul_square_xor [of "of_bool (odd a)" "2 * (a div 2)"] nat_halves [of a] by simp
  then show ?thesis by (simp add: clmul_double_right)
qed

lemma bit_clmul_square: "bit (clmul a a) k \<longleftrightarrow> even k \<and> bit a (k div 2)"
proof (induction k arbitrary: a rule: less_induct)
  case (less k)
  have four: "4 * x = push_bit 2 x" for x :: nat by (simp add: push_bit_eq_mult)
  consider "k = 0" | "k = 1" | j where "k = Suc (Suc j)" by (cases k rule: nat.exhaust; metis One_nat_def nat.exhaust)
  then show ?case
  proof cases
    case 3
    then have "bit (clmul a a) k = bit (clmul (a div 2) (a div 2)) j"
      unfolding clmul_square_step [of a] four by (simp add: bit_xor_iff bit_push_bit_iff bit_of_bool_iff)
    then show ?thesis using less [of j "a div 2"] 3 by (simp add: bit_Suc)
  qed (simp_all add: clmul_square_step [of a] four bit_xor_iff bit_push_bit_iff bit_of_bool_iff bit_0 even_xor_iff)
qed

lemma square_loop:
  fixes a :: u32
  assumes "n \<le> 7"
  shows "\<exists>s. fold (\<lambda>i (b, s). let b = push_bit 1 b in (b, s XOR (b AND push_bit (2 * i) 1))) [1..<Suc n] (a, a AND 1) = (push_bit n a, s) \<and>
    (\<forall>k. bit s k \<longleftrightarrow> even k \<and> k div 2 \<le> n \<and> bit a (k div 2))"
  using assms
proof (induction n)
  case 0
  have "bit (a AND 1) k \<longleftrightarrow> even k \<and> k div 2 \<le> 0 \<and> bit a (k div 2)" for k
    by (cases "k = 0") (auto simp: bit_and_iff bit_1_iff elim: evenE)
  then show ?case by simp
next
  case (Suc n)
  then obtain s where f: "fold (\<lambda>i (b, s). let b = push_bit 1 b in (b, s XOR (b AND push_bit (2 * i) 1))) [1..<Suc n] (a, a AND 1) = (push_bit n a, s)"
    and s: "\<forall>k. bit s k \<longleftrightarrow> even k \<and> k div 2 \<le> n \<and> bit a (k div 2)" by auto
  let ?s = "s XOR (push_bit (Suc n) a AND push_bit (2 * Suc n) 1)"
  have "bit ?s k \<longleftrightarrow> even k \<and> k div 2 \<le> Suc n \<and> bit a (k div 2)" for k
  proof -
    have "bit (push_bit (Suc n) a AND push_bit (2 * Suc n) 1) k \<longleftrightarrow> k = 2 * Suc n \<and> bit a (Suc n)"
      using Suc.prems unfolding bit_and_iff bit_push_bit_iff bit_1_iff by auto
    moreover have "even k \<and> k div 2 \<le> Suc n \<longleftrightarrow> (even k \<and> k div 2 \<le> n) \<or> k = 2 * Suc n" by presburger
    moreover have "k = 2 * Suc n \<Longrightarrow> k div 2 = Suc n" by simp
    ultimately show ?thesis unfolding bit_xor_iff s [rule_format, of k] by (metis Suc_n_not_le_n)
  qed
  moreover have "fold (\<lambda>i (b, s). let b = push_bit 1 b in (b, s XOR (b AND push_bit (2 * i) 1))) [1..<Suc (Suc n)] (a, a AND 1) = (push_bit (Suc n) a, ?s)"
    using f by (simp add: Let_def push_bit_double)
  ultimately show ?case by blast
qed

lemma gf_square_unat: "unat (gf_square a) = pmod 8 285 (clmul (unat a mod 256) (unat a mod 256))"
proof -
  obtain s where f: "fold (\<lambda>i (b, s). let b = push_bit 1 b in (b, s XOR (b AND push_bit (2 * i) 1))) [1..<8] (ucast a :: u32, ucast a AND 1) = (push_bit 7 (ucast a), s)"
    and s: "\<And>k. bit s k \<longleftrightarrow> even k \<and> k div 2 \<le> 7 \<and> bit (ucast a :: u32) (k div 2)"
    using square_loop [of 7 "ucast a"] by auto
  let ?a = "unat a mod 256"
  have "bit (unat s) k = bit (clmul ?a ?a) k" for k
  proof -
    have a: "?a = take_bit 8 (unat a)" by (simp add: take_bit_eq_mod)
    show ?thesis unfolding bit_clmul_square a by (auto simp: bit_unsigned_iff s bit_take_bit_iff bit_ucast_iff less_Suc_eq_le)
  qed
  then have u: "unat s = clmul ?a ?a" by (intro bit_eqI)
  have X: "clmul ?a ?a < 2 ^ 15" using clmul_less_pred [of ?a 7 ?a 8] by simp
  then have w: "unat (ucast s :: u64) = clmul ?a ?a" unfolding unsigned_ucast_eq u by (simp add: take_bit_nat_eq_self)
  have "gf_square a = gf_reduce (ucast s) 14" using f by (simp add: gf_square_def Let_def)
  then show ?thesis using gf_reduce_correct [of "ucast s"] X unfolding w by simp
qed

lemma gf_square_small [simp]: "unat (gf_square a) < 256"
  by (simp add: gf_square_unat)

lemma gf_square: "gf (gf_square a) = gf a * gf a"
  by (rule Rep_gf256_inject [THEN iffD1]) (simp add: times_gf256.rep_eq gf.rep_eq gf_square_unat)

lemma gf_inverse_small [simp]: "unat (gf_inverse a) < 256"
  by (simp add: gf_inverse_def Let_def)

lemma gf_inverse: "gf (gf_inverse a) = inverse (gf a)"
  unfolding gf_inverse_def Let_def gf_mul gf_square inverse_gf256_def
  by (simp add: power_add [symmetric] flip: power_Suc power2_eq_square) (simp add: algebra_simps power_numeral_reduce)

section \<open>Tables\<close>

lemma gf_mod_eq:
  assumes "unat i < 510"
  shows "unat (gf_mod i) = unat i mod 255"
proof -
  let ?t = "i - 255"
  have d: "unat (drop_bit 15 ?t) = unat ?t div 32768" unfolding unat_drop_bit_eq by (simp add: drop_bit_eq_div)
  show ?thesis
  proof (cases "unat i < 255")
    case True
    then have "unat ?t = 65281 + unat i" by (subst unat_sub_if') simp
    then have "drop_bit 15 ?t = 1" using d True by (simp add: word_unat_eq_iff)
    then show ?thesis using True by (simp add: gf_mod_def Let_def)
  next
    case False
    then have u: "unat ?t = unat i - 255" by (subst unat_sub_if') simp
    then have "drop_bit 15 ?t = 0" using d assms by (simp add: word_unat_eq_iff)
    then show ?thesis using u False assms by (simp add: gf_mod_def Let_def mod_if)
  qed
qed

section \<open>The operations are those of the field\<close>

text \<open>
  C18. The arithmetic of \<open>gf.c\<close> is that of the field with 256 elements: addition is the exclusive or, \<open>gf_mul\<close> the product,
  \<open>gf_square\<close> the square and \<open>gf_inverse\<close> the inverse, with 0 for 0; the results are bytes.
\<close>

theorem gf_field_operations:
  "gf (a XOR b) = gf a + gf b \<and> gf (gf_mul a b) = gf a * gf b \<and> gf (gf_square a) = (gf a)\<^sup>2 \<and> gf (gf_inverse a) = inverse (gf a) \<and>
   unat (gf_mul a b) < 256 \<and> unat (gf_square a) < 256 \<and> unat (gf_inverse a) < 256"
  by (simp add: gf_xor gf_mul gf_square gf_inverse power2_eq_square)

end
