(* ===== verification/Fft.thy ===== *)
theory Fft
  imports Gf_Ops Complex_Main
begin

text \<open>
  The additive Fourier transform of \<open>src/fft.c\<close> of the HQC-128 implementation, which evaluates the error locator
  polynomial at all elements of the field, and the reading of its roots.  Arrays have the sizes of the code.  The
  code only enters \<open>radix\<close> and \<open>fft_rec\<close> with \<open>m_f\<close> at least 1; at 0 the model leaves the arrays alone.
\<close>

section \<open>The code\<close>

abbreviation (input) PARAM_FFT :: nat where "PARAM_FFT \<equiv> 4"

definition compute_fft_betas :: "u16 list \<Rightarrow> u16 list" where
  "compute_fft_betas betas = fold (\<lambda>i betas. betas[i := push_bit (PARAM_M - 1 - i) 1]) [0..<PARAM_M - 1] betas"

definition compute_subset_sums :: "u16 list \<Rightarrow> u16 list \<Rightarrow> nat \<Rightarrow> u16 list" where
  "compute_subset_sums subset_sums bset set_size =
     fold (\<lambda>i ss. fold (\<lambda>j ss. ss[2 ^ i + j := bset ! i XOR ss ! j]) [0..<2 ^ i] ss)
       [0..<set_size] (subset_sums[0 := 0])"

text \<open>The conversion of \<open>f(x)\<close> to \<open>f0(x\<^sup>2 + x) + x * f1(x\<^sup>2 + x)\<close>, unrolled for the sizes in use.\<close>

definition radix_4 :: "u16 list \<Rightarrow> u16 list \<Rightarrow> u16 list \<Rightarrow> u16 list \<times> u16 list" where
  "radix_4 f0 f1 f =
     (let f0 = f0[4 := f ! 8 XOR f ! 12];
          f0 = f0[6 := f ! 12 XOR f ! 14];
          f0 = f0[7 := f ! 14 XOR f ! 15];
          f1 = f1[5 := f ! 11 XOR f ! 13];
          f1 = f1[6 := f ! 13 XOR f ! 14];
          f1 = f1[7 := f ! 15];
          f0 = f0[5 := f ! 10 XOR f ! 12 XOR f1 ! 5];
          f1 = f1[4 := f ! 9 XOR f ! 13 XOR f0 ! 5];
          f0 = f0[0 := f ! 0];
          f1 = f1[3 := f ! 7 XOR f ! 11 XOR f ! 15];
          f0 = f0[3 := f ! 6 XOR f ! 10 XOR f ! 14 XOR f1 ! 3];
          f0 = f0[2 := f ! 4 XOR f0 ! 4 XOR f0 ! 3 XOR f1 ! 3];
          f1 = f1[1 := f ! 3 XOR f ! 5 XOR f ! 9 XOR f ! 13 XOR f1 ! 3];
          f1 = f1[2 := f ! 3 XOR f1 ! 1 XOR f0 ! 3];
          f0 = f0[1 := f ! 2 XOR f0 ! 2 XOR f1 ! 1];
          f1 = f1[0 := f ! 1 XOR f0 ! 1]
      in (f0, f1))"

definition radix_3 :: "u16 list \<Rightarrow> u16 list \<Rightarrow> u16 list \<Rightarrow> u16 list \<times> u16 list" where
  "radix_3 f0 f1 f =
     (let f0 = f0[0 := f ! 0];
          f0 = f0[2 := f ! 4 XOR f ! 6];
          f0 = f0[3 := f ! 6 XOR f ! 7];
          f1 = f1[1 := f ! 3 XOR f ! 5 XOR f ! 7];
          f1 = f1[2 := f ! 5 XOR f ! 6];
          f1 = f1[3 := f ! 7];
          f0 = f0[1 := f ! 2 XOR f0 ! 2 XOR f1 ! 1];
          f1 = f1[0 := f ! 1 XOR f0 ! 1]
      in (f0, f1))"

definition radix_2 :: "u16 list \<Rightarrow> u16 list \<Rightarrow> u16 list \<Rightarrow> u16 list \<times> u16 list" where
  "radix_2 f0 f1 f =
     (let f0 = f0[0 := f ! 0];
          f0 = f0[1 := f ! 2 XOR f ! 3];
          f1 = f1[0 := f ! 1 XOR f0 ! 1];
          f1 = f1[1 := f ! 3]
      in (f0, f1))"

fun radix :: "u16 list \<Rightarrow> u16 list \<Rightarrow> u16 list \<Rightarrow> nat \<Rightarrow> u16 list \<times> u16 list"
  and radix_big :: "u16 list \<Rightarrow> u16 list \<Rightarrow> u16 list \<Rightarrow> nat \<Rightarrow> u16 list \<times> u16 list" where
  "radix f0 f1 f m_f =
     (if m_f = 4 then radix_4 f0 f1 f
      else if m_f = 3 then radix_3 f0 f1 f
      else if m_f = 2 then radix_2 f0 f1 f
      else if m_f = 1 then (f0[0 := f ! 0], f1[0 := f ! 1])
      else if m_f = 0 then (f0, f1)
      else radix_big f0 f1 f m_f)"
| "radix_big f0 f1 f m_f =
     (if m_f = 0 then (f0, f1)
      else
        let n = 2 ^ (m_f - 2);
            Q = replicate (2 * 2 ^ (PARAM_FFT - 2)) 0;
            R = replicate (2 * 2 ^ (PARAM_FFT - 2)) 0;
            Q = memcpy_at Q 0 (take n (drop (3 * n) f));
            Q = memcpy_at Q n (take n (drop (3 * n) f));
            R = memcpy_at R 0 (take (2 * n) f);
            (Q, R) = fold (\<lambda>i (Q, R). let Q = Q[i := Q ! i XOR f ! (2 * n + i)] in (Q, R[n + i := R ! (n + i) XOR Q ! i])) [0..<n] (Q, R);
            (Q0, Q1) = radix (replicate (2 ^ (PARAM_FFT - 2)) 0) (replicate (2 ^ (PARAM_FFT - 2)) 0) Q (m_f - 1);
            (R0, R1) = radix (replicate (2 ^ (PARAM_FFT - 2)) 0) (replicate (2 ^ (PARAM_FFT - 2)) 0) R (m_f - 1);
            f0 = memcpy_at f0 0 (take n R0);
            f0 = memcpy_at f0 n (take n Q0);
            f1 = memcpy_at f1 0 (take n R1);
            f1 = memcpy_at f1 n (take n Q1)
        in (f0, f1))"

declare radix.simps [simp del] radix_big.simps [simp del]

text \<open>The parts of \<open>fft_rec\<close>: the base case, the twist, the next basis, and the two ways to combine the halves.\<close>

definition fft_base :: "u16 list \<Rightarrow> u16 list \<Rightarrow> nat \<Rightarrow> u16 list \<Rightarrow> u16 list" where
  "fft_base w f m betas =
     (let tmp = fold (\<lambda>i tmp. tmp[i := gf_mul (betas ! i) (f ! 1)]) [0..<m] (replicate (PARAM_M - (PARAM_FFT - 1)) 0);
          w = w[0 := f ! 0]
      in fst (fold (\<lambda>j (w, x). (fold (\<lambda>k w. w[x + k := w ! k XOR tmp ! j]) [0..<x] w, x * 2)) [0..<m] (w, 1)))"

definition fft_twist :: "u16 list \<Rightarrow> u16 \<Rightarrow> nat \<Rightarrow> u16 list" where
  "fft_twist f beta m_f =
     (if beta \<noteq> 1
      then fst (fold (\<lambda>i (f, beta_m_pow). let beta_m_pow = gf_mul beta_m_pow beta in (f[i := gf_mul beta_m_pow (f ! i)], beta_m_pow))
                  [1..<2 ^ m_f] (f, 1))
      else f)"

definition fft_gammas :: "u16 list \<Rightarrow> nat \<Rightarrow> u16 list \<times> u16 list" where
  "fft_gammas betas m =
     fold (\<lambda>i (gammas, deltas).
         let gammas = gammas[i := gf_mul (betas ! i) (gf_inverse (betas ! (m - 1)))]
         in (gammas, deltas[i := gf_square (gammas ! i) XOR gammas ! i]))
       [0..<m - 1] (replicate (PARAM_M - 2) 0, replicate (PARAM_M - 2) 0)"

definition fft_combine_3 :: "u16 list \<Rightarrow> nat \<Rightarrow> u16 list \<Rightarrow> u16 \<Rightarrow> u16 list \<Rightarrow> u16 list" where
  "fft_combine_3 w k u f1 gammas_sums =
     (let w = w[0 := u ! 0];
          w = w[k := u ! 0 XOR f1]
      in fold (\<lambda>i w. let w = w[i := u ! i XOR gf_mul (gammas_sums ! i) f1] in w[k + i := w ! i XOR f1]) [1..<k] w)"

definition fft_combine :: "u16 list \<Rightarrow> nat \<Rightarrow> u16 list \<Rightarrow> u16 list \<Rightarrow> u16 list \<Rightarrow> u16 list" where
  "fft_combine w k u v gammas_sums =
     (let w = memcpy_at w k (take k v);
          w = w[0 := u ! 0];
          w = w[k := w ! k XOR u ! 0]
      in fold (\<lambda>i w. let w = w[i := u ! i XOR gf_mul (gammas_sums ! i) (v ! i)] in w[k + i := w ! (k + i) XOR w ! i]) [1..<k] w)"

text \<open>The array \<open>f\<close> is altered by the call and not read by the caller afterwards, so only \<open>w\<close> is returned.\<close>

fun fft_rec :: "u16 list \<Rightarrow> u16 list \<Rightarrow> nat \<Rightarrow> nat \<Rightarrow> nat \<Rightarrow> u16 list \<Rightarrow> u16 list" where
  "fft_rec w f f_coeffs m m_f betas =
     (if m_f = 0 then w
      else if m_f = 1 then fft_base w f m betas
      else
        let f = fft_twist f (betas ! (m - 1)) m_f;
            (f0, f1) = radix (replicate (2 ^ (PARAM_FFT - 2)) 0) (replicate (2 ^ (PARAM_FFT - 2)) 0) f m_f;
            (gammas, deltas) = fft_gammas betas m;
            gammas_sums = compute_subset_sums (replicate (2 ^ (PARAM_M - 2)) 0) gammas (m - 1);
            u = fft_rec (replicate (2 ^ (PARAM_M - 2)) 0) f0 ((f_coeffs + 1) div 2) (m - 1) (m_f - 1) deltas;
            k = 2 ^ ((m - 1) AND 0xf)
        in if f_coeffs \<le> 3 then fft_combine_3 w k u (f1 ! 0) gammas_sums
           else fft_combine w k u (fft_rec (replicate (2 ^ (PARAM_M - 2)) 0) f1 (f_coeffs div 2) (m - 1) (m_f - 1) deltas) gammas_sums)"

declare fft_rec.simps [simp del]

definition fft :: "u16 list \<Rightarrow> u16 list \<Rightarrow> nat \<Rightarrow> u16 list" where
  "fft w f f_coeffs =
     (let betas = compute_fft_betas (replicate (PARAM_M - 1) 0);
          betas_sums = compute_subset_sums (replicate (2 ^ (PARAM_M - 1)) 0) betas (PARAM_M - 1);
          (f0, f1) = radix (replicate (2 ^ (PARAM_FFT - 1)) 0) (replicate (2 ^ (PARAM_FFT - 1)) 0) f PARAM_FFT;
          deltas = fold (\<lambda>i deltas. deltas[i := gf_square (betas ! i) XOR betas ! i]) [0..<PARAM_M - 1] (replicate (PARAM_M - 1) 0);
          u = fft_rec (replicate (2 ^ (PARAM_M - 1)) 0) f0 ((f_coeffs + 1) div 2) (PARAM_M - 1) (PARAM_FFT - 1) deltas;
          v = fft_rec (replicate (2 ^ (PARAM_M - 1)) 0) f1 (f_coeffs div 2) (PARAM_M - 1) (PARAM_FFT - 1) deltas
      in fft_combine w (2 ^ (PARAM_M - 1)) u v betas_sums)"

text \<open>The flag of a zero: \<open>1 ^ ((uint16_t) - w >> 15)\<close>.\<close>

definition zero_flag :: "u16 \<Rightarrow> u8" where
  "zero_flag w = ucast (1 XOR drop_bit 15 (- w))"

definition fft_retrieve_error_poly :: "u8 list \<Rightarrow> u16 list \<Rightarrow> u8 list" where
  "fft_retrieve_error_poly error w =
     (let gammas = compute_fft_betas (replicate (PARAM_M - 1) 0);
          gammas_sums = compute_subset_sums (replicate (2 ^ (PARAM_M - 1)) 0) gammas (PARAM_M - 1);
          k = 2 ^ (PARAM_M - 1);
          error = error[0 := error ! 0 XOR zero_flag (w ! 0)];
          error = error[0 := error ! 0 XOR zero_flag (w ! k)]
      in fold (\<lambda>i error.
             let index = PARAM_GF_MUL_ORDER - unat (gf_log ! unat (gammas_sums ! i));
                 error = error[index := error ! index XOR zero_flag (w ! i)];
                 index = PARAM_GF_MUL_ORDER - unat (gf_log ! unat (gammas_sums ! i XOR 1))
             in error[index := error ! index XOR zero_flag (w ! (k + i))]) [1..<k] error)"

end
