(* ===== verification/Gf2x.thy ===== *)
theory Gf2x
  imports Gf2_Poly
begin

text \<open>
  The product of two vectors modulo \<open>X^n - 1\<close>, \<open>src/gf2x.c\<close> of the HQC-128 implementation.  The recursion of
  Karatsuba works in place on one memory of 64-bit words: the operands, the result and the scratch area are
  addresses in it, as the pointers of the code are, so that the regions of the recursive calls and their
  overlaps are those of the code.
\<close>

section \<open>The code\<close>

abbreviation (input) PARAM_N :: nat where "PARAM_N \<equiv> 17669"
abbreviation (input) VEC_N_SIZE_64 :: nat where "VEC_N_SIZE_64 \<equiv> 277"

definition RED_MASK :: u64 where "RED_MASK = push_bit (PARAM_N mod 64) 1 - 1"

definition base_table :: "u64 \<Rightarrow> u64 list" where
  "base_table b =
     (let u1 = b AND (push_bit (64 - 4) 1 - 1);
          u2 = push_bit 1 u1; u3 = u2 XOR u1;
          u4 = push_bit 1 u2; u5 = u4 XOR u1;
          u6 = push_bit 1 u3; u7 = u6 XOR u1;
          u8 = push_bit 1 u4; u9 = u8 XOR u1;
          u10 = push_bit 1 u5; u11 = u10 XOR u1;
          u12 = push_bit 1 u6; u13 = u12 XOR u1;
          u14 = push_bit 1 u7; u15 = u14 XOR u1
      in [0, u1, u2, u3, u4, u5, u6, u7, u8, u9, u10, u11, u12, u13, u14, u15])"

definition base_select :: "u64 list \<Rightarrow> u64 \<Rightarrow> u64" where
  "base_select u tmp1 =
     fold (\<lambda>i g. let tmp2 = tmp1 - of_nat i
                 in g XOR (u ! i AND - (1 - drop_bit 63 (tmp2 OR - tmp2)))) [0..<16] 0"

definition base_mul :: "u64 \<Rightarrow> u64 \<Rightarrow> u64 \<times> u64" where
  "base_mul a b =
     (let u = base_table b;
          l = base_select u (a AND 15);
          (l, h) = fold (\<lambda>i (l, h).
                      let g = base_select u (drop_bit i a AND 15)
                      in (l XOR push_bit i g, h XOR drop_bit (64 - i) g)) (map (\<lambda>k. 4 * k) [1..<16]) (l, 0);
          mask = (\<lambda>j. - (drop_bit (60 + j) b AND 1));
          (l, h) = fold (\<lambda>j (l, h). (l XOR (push_bit (60 + j) a AND mask j), h XOR (drop_bit (4 - j) a AND mask j))) [0..<4] (l, h)
      in (l, h))"

text \<open>A memory of words, and the loops over it.\<close>

type_synonym mem64 = "nat \<Rightarrow> u64"

definition karatsuba_add1 :: "nat \<Rightarrow> nat \<Rightarrow> nat \<Rightarrow> nat \<Rightarrow> nat \<Rightarrow> nat \<Rightarrow> mem64 \<Rightarrow> mem64" where
  "karatsuba_add1 alh blh a b size_l size_h m =
     (let m = fold (\<lambda>i m. let m = m(alh + i := m (a + i) XOR m (a + i + size_l))
                          in m(blh + i := m (b + i) XOR m (b + i + size_l))) [0..<size_h] m
      in if size_h < size_l
         then let m = m(alh + size_h := m (a + size_h)) in m(blh + size_h := m (b + size_h))
         else m)"

definition karatsuba_add2 :: "nat \<Rightarrow> nat \<Rightarrow> nat \<Rightarrow> nat \<Rightarrow> nat \<Rightarrow> mem64 \<Rightarrow> mem64" where
  "karatsuba_add2 out tmp1 tmp2 size_l size_h m =
     (let m = fold (\<lambda>i m. m(tmp1 + i := m (tmp1 + i) XOR m (out + i))) [0..<2 * size_l] m;
          m = fold (\<lambda>i m. m(tmp1 + i := m (tmp1 + i) XOR m (tmp2 + i))) [0..<2 * size_h] m
      in fold (\<lambda>i m. m(out + i + size_l := m (out + i + size_l) XOR m (tmp1 + i))) [0..<2 * size_l] m)"

text \<open>
  The recursion; \<open>len\<close> is the number (\<open>size\<close> in the code) of words.  It is never called on length 0, where the code would not
  return.
\<close>

function karatsuba :: "nat \<Rightarrow> nat \<Rightarrow> nat \<Rightarrow> nat \<Rightarrow> nat \<Rightarrow> mem64 \<Rightarrow> mem64" where
  "karatsuba out a b len stack m =
     (if len = 0 then m
      else if len = 1 then (case base_mul (m a) (m b) of (l, h) \<Rightarrow> m(out := l, out + 1 := h))
      else
        let size_h = len div 2;
            size_l = (len + 1) div 2;
            alh = stack;
            blh = alh + size_l;
            tmp1 = blh + size_l;
            tmp2 = out + 2 * size_l;
            stack = stack + 4 * size_l;
            m = karatsuba out a b size_l stack m;
            m = karatsuba tmp2 (a + size_l) (b + size_l) size_h stack m;
            m = karatsuba_add1 alh blh a b size_l size_h m;
            m = karatsuba tmp1 alh blh size_l stack m
        in karatsuba_add2 out tmp1 tmp2 size_l size_h m)"
  by pat_completeness auto
termination
  by (relation "Wellfounded.measure (\<lambda>(out, a, b, len, stack, m). len)") auto

declare karatsuba.simps [simp del]

definition reduce :: "u64 list \<Rightarrow> u64 list" where
  "reduce a =
     (let word = (\<lambda>i. a ! i XOR drop_bit (PARAM_N mod 64) (a ! (i + VEC_N_SIZE_64 - 1)) XOR
                        push_bit (64 - PARAM_N mod 64) (a ! (i + VEC_N_SIZE_64)));
          out = map word [0..<VEC_N_SIZE_64]
      in out[VEC_N_SIZE_64 - 1 := out ! (VEC_N_SIZE_64 - 1) AND RED_MASK])"

text \<open>
  The frame of \<open>vect_mul\<close>: the operands, then \<open>o_karat\<close> and \<open>stack\<close>, both cleared.
\<close>

definition vect_mul :: "u64 list \<Rightarrow> u64 list \<Rightarrow> u64 list" where
  "vect_mul a1 a2 =
     (let a = 0; b = VEC_N_SIZE_64; o_karat = 2 * VEC_N_SIZE_64; stack = o_karat + 2 * VEC_N_SIZE_64 + 1;
          m = (\<lambda>x. if x < b then a1 ! x else if x < o_karat then a2 ! (x - b) else 0);
          m = karatsuba o_karat a b VEC_N_SIZE_64 stack m
      in reduce (map (\<lambda>i. m (o_karat + i)) [0..<2 * VEC_N_SIZE_64 + 1]))"

section \<open>Words as polynomials\<close>

text \<open>\<open>wval f n\<close> is the polynomial of the words \<open>f 0\<close>, ..., \<open>f (n - 1)\<close>, the lowest first.\<close>

primrec wval :: "(nat \<Rightarrow> u64) \<Rightarrow> nat \<Rightarrow> nat" where
  "wval f 0 = 0"
| "wval f (Suc n) = wval f n XOR push_bit (64 * n) (unat (f n))"

lemma wval_cong: "(\<And>i. i < n \<Longrightarrow> f i = g i) \<Longrightarrow> wval f n = wval g n"
  by (induction n) auto

lemma wval_less: "wval f n < 2 ^ (64 * n)"
proof (induction n)
  case (Suc n)
  have "wval f n < 2 ^ (64 * Suc n)" using Suc by (rule less_le_trans) (rule power_increasing, simp_all)
  moreover have "push_bit (64 * n) (unat (f n)) < 2 ^ (64 * n) * 2 ^ 64"
    using unsigned_less [of "f n", where 'a = nat] by (simp add: push_bit_eq_mult)
  then have "push_bit (64 * n) (unat (f n)) < 2 ^ (64 * Suc n)" by (simp only: power_add [symmetric] mult_Suc_right add.commute)
  ultimately show ?case unfolding wval.simps by (rule xor_less)
qed simp

lemma wval_xor: "wval (\<lambda>i. f i XOR g i) n = wval f n XOR wval g n"
  by (induction n) (simp_all add: unsigned_xor_eq ac_simps)

lemma wval_0 [simp]: "wval (\<lambda>i. 0) n = 0"
  by (induction n) simp_all

lemma wval_append: "wval f (n + k) = wval f n XOR push_bit (64 * n) (wval (\<lambda>i. f (n + i)) k)"
  by (induction k) (simp_all add: push_bit_push_bit distrib_left xor.assoc)

text \<open>Adding words at an offset.\<close>

lemma wval_add_at:
  assumes "k + n \<le> N" and "\<And>i. i < N \<Longrightarrow> f' i = (if k \<le> i \<and> i < k + n then f i XOR g (i - k) else f i)"
  shows "wval f' N = wval f N XOR push_bit (64 * k) (wval g n)"
proof -
  let ?h = "\<lambda>i. if k \<le> i \<and> i < k + n then g (i - k) else 0"
  have "wval f' N = wval (\<lambda>i. f i XOR ?h i) N" by (rule wval_cong) (simp add: assms(2))
  also have "\<dots> = wval f N XOR wval ?h N" by (rule wval_xor)
  also have "wval ?h N = wval ?h k XOR push_bit (64 * k) (wval (\<lambda>i. ?h (k + i)) (n + (N - (k + n))))"
    using wval_append [of ?h k "n + (N - (k + n))"] assms(1) by (simp add: add.assoc [symmetric])
  also have "wval ?h k = 0" by (subst wval_cong [of k ?h "\<lambda>i. 0"]) auto
  also have "wval (\<lambda>i. ?h (k + i)) (n + (N - (k + n))) = wval g n"
  proof -
    have "wval (\<lambda>i. ?h (k + i)) n = wval g n" by (rule wval_cong) simp
    moreover have "wval (\<lambda>i. ?h (k + (n + i))) (N - (k + n)) = 0" by (subst wval_cong [of _ _ "\<lambda>i. 0"]) auto
    ultimately show ?thesis unfolding wval_append by simp
  qed
  finally show ?thesis by simp
qed

section \<open>The product of two words\<close>

lemma base_select_nth:
  assumes "unat t < 16"
  shows "base_select u t = u ! unat t"
proof -
  have z: "t - of_nat i = 0 \<longleftrightarrow> i = unat t" if "i < 16" for i
  proof -
    have "unat (of_nat i :: u64) = i" using that by (intro unat_of_nat_lt) simp
    then show ?thesis using word_unat_eq_iff [of t "of_nat i"] by auto
  qed
  have m: "- (1 - drop_bit 63 (x OR - x)) = (if x = 0 then - 1 else 0)" for x :: u64 using zero_mask [of x] by simp
  have "base_select u t = fold (\<lambda>i g. g XOR (if i = unat t then u ! i else 0)) [0..<16] 0"
    unfolding base_select_def Let_def m by (rule fold_cong) (simp_all add: z fun_eq_iff del: right_minus_eq)
  also have "\<dots> = u ! unat t" unfolding fold_select using assms by simp
  finally show ?thesis .
qed

lemma base_table_step:
  assumes "unat (x :: u64) = clmul k B" "B < 2 ^ 60" "k < 8" "j = 2 * k"
  shows "unat (push_bit 1 x) = clmul j B"
proof -
  have "clmul k B < 2 ^ (2 + 60)" using assms by (intro clmul_less_pred) auto
  then show ?thesis unfolding unsigned_push_bit_eq assms(1,4) using clmul_double [of k B] by (simp add: take_bit_nat_eq_self)
qed

lemma base_table_odd:
  assumes "unat (x :: u64) = clmul i B" "unat u1 = B" "j = Suc i \<and> even i"
  shows "unat (x XOR u1) = clmul j B"
proof -
  obtain k where "i = 2 * k" using assms(3) by (auto elim: evenE)
  then show ?thesis using assms clmul_step [of "Suc (2 * k)" B] by (simp add: unsigned_xor_eq xor.commute)
qed

lemma base_table_nth:
  assumes "j < 16"
  shows "unat (base_table b ! j) = clmul j (take_bit 60 (unat b))"
proof -
  let ?B = "take_bit 60 (unat b)"
  define u1 where "u1 = b AND (push_bit (64 - 4) 1 - 1)"
  define x2 where "x2 = push_bit 1 u1"
  define x3 where "x3 = x2 XOR u1"
  define x4 where "x4 = push_bit 1 x2"
  define x5 where "x5 = x4 XOR u1"
  define x6 where "x6 = push_bit 1 x3"
  define x7 where "x7 = x6 XOR u1"
  define x8 where "x8 = push_bit 1 x4"
  define x9 where "x9 = x8 XOR u1"
  define x10 where "x10 = push_bit 1 x5"
  define x11 where "x11 = x10 XOR u1"
  define x12 where "x12 = push_bit 1 x6"
  define x13 where "x13 = x12 XOR u1"
  define x14 where "x14 = push_bit 1 x7"
  define x15 where "x15 = x14 XOR u1"
  have B: "?B < 2 ^ 60" by (rule take_bit_nat_less_exp)
  have u1': "unat u1 = ?B" by (simp add: u1_def unsigned_and_eq take_bit_eq_mask mask_eq_exp_minus_1)
  then have u1: "unat u1 = clmul 1 ?B" by simp
  have u2: "unat x2 = clmul 2 ?B" unfolding x2_def by (rule base_table_step [OF u1 B]) simp_all
  have u3: "unat x3 = clmul 3 ?B" unfolding x3_def by (rule base_table_odd [OF u2 u1']) simp
  have u4: "unat x4 = clmul 4 ?B" unfolding x4_def by (rule base_table_step [OF u2 B]) simp_all
  have u5: "unat x5 = clmul 5 ?B" unfolding x5_def by (rule base_table_odd [OF u4 u1']) simp
  have u6: "unat x6 = clmul 6 ?B" unfolding x6_def by (rule base_table_step [OF u3 B]) simp_all
  have u7: "unat x7 = clmul 7 ?B" unfolding x7_def by (rule base_table_odd [OF u6 u1']) simp
  have u8: "unat x8 = clmul 8 ?B" unfolding x8_def by (rule base_table_step [OF u4 B]) simp_all
  have u9: "unat x9 = clmul 9 ?B" unfolding x9_def by (rule base_table_odd [OF u8 u1']) simp
  have u10: "unat x10 = clmul 10 ?B" unfolding x10_def by (rule base_table_step [OF u5 B]) simp_all
  have u11: "unat x11 = clmul 11 ?B" unfolding x11_def by (rule base_table_odd [OF u10 u1']) simp
  have u12: "unat x12 = clmul 12 ?B" unfolding x12_def by (rule base_table_step [OF u6 B]) simp_all
  have u13: "unat x13 = clmul 13 ?B" unfolding x13_def by (rule base_table_odd [OF u12 u1']) simp
  have u14: "unat x14 = clmul 14 ?B" unfolding x14_def by (rule base_table_step [OF u7 B]) simp_all
  have u15: "unat x15 = clmul 15 ?B" unfolding x15_def by (rule base_table_odd [OF u14 u1']) simp
  have "map unat (base_table b) = map (\<lambda>j. clmul j ?B) [0, 1, 2, 3, 4, 5, 6, 7, 8, 9, 10, 11, 12, 13, 14, 15]"
    unfolding base_table_def Let_def u1_def [symmetric] x2_def [symmetric] x3_def [symmetric] x4_def [symmetric] x5_def [symmetric] x6_def [symmetric] x7_def [symmetric] x8_def [symmetric] x9_def [symmetric] x10_def [symmetric] x11_def [symmetric] x12_def [symmetric] x13_def [symmetric] x14_def [symmetric] x15_def [symmetric]
    by (simp add: u1' u2 u3 u4 u5 u6 u7 u8 u9 u10 u11 u12 u13 u14 u15)
  also have "[0, 1, 2, 3, 4, 5, 6, 7, 8, 9, 10, 11, 12, 13, 14, 15] = [0..<16 :: nat]" by (simp add: upt_rec)
  finally show ?thesis using assms arg_cong [of "map unat (base_table b)" _ "\<lambda>xs. xs ! j"]
    by (metis (no_types, lifting) diff_zero length_map length_upt nth_map nth_upt plus_nat.add_0)
qed

text \<open>A product held in two words, and the addition of a shifted word to it.\<close>

definition split64 :: "u64 \<times> u64 \<Rightarrow> nat \<Rightarrow> bool" where
  "split64 p X \<longleftrightarrow> unat (fst p) = take_bit 64 X \<and> unat (snd p) = drop_bit 64 X"

lemma split64_add:
  assumes "split64 (l, h) X" "i \<le> 64"
  shows "split64 (l XOR push_bit i g, h XOR drop_bit (64 - i) g) (X XOR push_bit i (unat g))"
  using assms by (simp add: split64_def unsigned_xor_eq unsigned_push_bit_eq unat_drop_bit_eq drop_bit_push_bit)

lemma split64_join: "split64 p X \<Longrightarrow> unat (fst p) XOR push_bit 64 (unat (snd p)) = X"
  using take_drop_xor [of X 64] by (simp add: split64_def)

lemma unat_window_15: "unat (drop_bit i (a :: u64) AND 15) = take_bit 4 (drop_bit i (unat a))"
  by (simp add: unsigned_and_eq unat_drop_bit_eq take_bit_eq_mask mask_eq_exp_minus_1)

lemma base_window:
  "unat (base_select (base_table b) (drop_bit i a AND 15)) = clmul (take_bit 4 (drop_bit i (unat a))) (take_bit 60 (unat b))"
proof -
  have "unat (drop_bit i a AND 15) < 16" unfolding unat_window_15 using take_bit_nat_less_exp [of 4] by simp
  then show ?thesis using base_table_nth [of "unat (drop_bit i a AND 15)" b] by (simp add: base_select_nth unat_window_15)
qed

lemma base_loop:
  assumes "0 < n" "n \<le> 16"
  shows "split64 (fold (\<lambda>i (l, h). let g = base_select (base_table b) (drop_bit i a AND 15)
      in (l XOR push_bit i g, h XOR drop_bit (64 - i) g)) (map (\<lambda>k. 4 * k) [1..<n]) (base_select (base_table b) (a AND 15), 0))
    (clmul (take_bit (4 * n) (unat a)) (take_bit 60 (unat b)))"
  using assms
proof (induction n rule: nat_induct_non_zero)
  case 1
  let ?X = "clmul (take_bit 4 (unat a)) (take_bit 60 (unat b))"
  have "unat (base_select (base_table b) (a AND 15)) = ?X" using base_window [of b 0 a] by simp
  moreover have "?X < 2 ^ 64"
    using clmul_less [OF take_bit_nat_less_exp [of 4 "unat a"] take_bit_nat_less_exp [of 60 "unat b"]] by simp
  ultimately show ?case by (simp add: split64_def take_bit_nat_eq_self drop_bit_eq_div)
next
  case (Suc n)
  let ?f = "\<lambda>i (l, h). let g = base_select (base_table b) (drop_bit i a AND 15) in (l XOR push_bit i g, h XOR drop_bit (64 - i) g)"
  obtain l h where lh: "fold ?f (map (\<lambda>k. 4 * k) [1..<n]) (base_select (base_table b) (a AND 15), 0) = (l, h)" by fastforce
  have "split64 (l, h) (clmul (take_bit (4 * n) (unat a)) (take_bit 60 (unat b)))" using Suc lh by simp
  from split64_add [OF this, of "4 * n" "base_select (base_table b) (drop_bit (4 * n) a AND 15)"]
  have "split64 (?f (4 * n) (l, h)) (clmul (take_bit (4 * n + 4) (unat a)) (take_bit 60 (unat b)))"
    using Suc.prems by (simp add: base_window take_bit_add_window [of "4 * n" 4] clmul_xor_left clmul_push_left Let_def)
  moreover have "fold ?f (map (\<lambda>k. 4 * k) [1..<Suc n]) (base_select (base_table b) (a AND 15), 0) = ?f (4 * n) (l, h)"
    using lh Suc.hyps by simp
  moreover have "4 * n + 4 = 4 * Suc n" by simp
  ultimately show ?case by metis
qed

lemma bit_mask: "x AND - (drop_bit k b AND 1) = (if bit b k then x else (0 :: u64))"
proof -
  have "drop_bit k b AND 1 = of_bool (bit b k)"
    by (rule bit_eqI) (auto simp: bit_and_iff bit_drop_bit_eq bit_1_iff intro: Nat.gr0I)
  then show ?thesis by simp
qed

lemma base_top_loop:
  assumes "split64 p (clmul (unat a) (take_bit 60 (unat b)))" "n \<le> 4"
  shows "split64 (fold (\<lambda>j (l, h). (l XOR (push_bit (60 + j) a AND - (drop_bit (60 + j) b AND 1)),
      h XOR (drop_bit (4 - j) a AND - (drop_bit (60 + j) b AND 1)))) [0..<n] p) (clmul (unat a) (take_bit (60 + n) (unat b)))"
  using assms(2)
proof (induction n)
  case 0
  then show ?case using assms(1) by simp
next
  case (Suc n)
  let ?f = "\<lambda>j (l, h). (l XOR (push_bit (60 + j) a AND - (drop_bit (60 + j) b AND 1)),
      h XOR (drop_bit (4 - j) a AND - (drop_bit (60 + j) b AND 1)))"
  obtain l h where lh: "fold ?f [0..<n] p = (l, h)" by fastforce
  then have s: "split64 (l, h) (clmul (unat a) (take_bit (60 + n) (unat b)))" using Suc by simp
  have "take_bit 1 (drop_bit (60 + n) (unat b)) = of_bool (bit b (60 + n))"
    using bit_unsigned_iff [of b "60 + n", where 'a = nat]
    by (simp add: take_bit_eq_mod mod_2_eq_odd bit_iff_odd [of "unat b"] drop_bit_eq_div bit_imp_le_length)
  then have "clmul (unat a) (take_bit (60 + Suc n) (unat b)) =
      clmul (unat a) (take_bit (60 + n) (unat b)) XOR (if bit b (60 + n) then push_bit (60 + n) (unat a) else 0)"
    using take_bit_add_window [of "60 + n" 1 "unat b"] by (simp add: clmul_xor_right clmul_push_right clmul_1_right)
  moreover have "split64 (?f n (l, h)) (clmul (unat a) (take_bit (60 + n) (unat b)) XOR (if bit b (60 + n) then push_bit (60 + n) (unat a) else 0))"
    using split64_add [OF s, of "60 + n" a] s Suc.prems by (simp add: bit_mask)
  ultimately show ?case using lh by simp
qed

lemma base_mul_correct:
  assumes "base_mul a b = (l, h)"
  shows "unat l XOR push_bit 64 (unat h) = clmul (unat a) (unat b)"
proof -
  have w: "take_bit 64 (unat x) = unat x" for x :: u64 using unsigned_less [of x, where 'a = nat] by (intro take_bit_nat_eq_self) simp
  let ?p = "fold (\<lambda>i (l, h). let g = base_select (base_table b) (drop_bit i a AND 15)
      in (l XOR push_bit i g, h XOR drop_bit (64 - i) g)) (map (\<lambda>k. 4 * k) [1..<16]) (base_select (base_table b) (a AND 15), 0)"
  have "split64 ?p (clmul (unat a) (take_bit 60 (unat b)))" using base_loop [of 16 b a] w [of a] by simp
  from base_top_loop [OF this, of 4] have "split64 (base_mul a b) (clmul (unat a) (unat b))"
    unfolding base_mul_def Let_def by (simp add: w case_prod_beta)
  then have "split64 (l, h) (clmul (unat a) (unat b))" by (simp add: assms)
  from split64_join [OF this] show ?thesis by simp
qed

end
