(* ===== verification/Gf2x_Mul.thy ===== *)
theory Gf2x_Mul
  imports Gf2x
begin

text \<open>
  Correctness of the multiplication of \<open>gf2x.c\<close>: the recursion computes the product of the two operands,
  writes only its result and its scratch area, and that area is large enough; the reduction is the remainder
  modulo \<open>X^n - 1\<close>.
\<close>

section \<open>Loops over the memory\<close>

definition apart :: "nat \<Rightarrow> nat \<Rightarrow> nat \<Rightarrow> nat \<Rightarrow> bool" where
  "apart p n q k \<longleftrightarrow> p + n \<le> q \<or> q + k \<le> p"

abbreviation (input) within :: "nat \<Rightarrow> nat \<Rightarrow> nat \<Rightarrow> bool" where
  "within x p n \<equiv> p \<le> x \<and> x < p + n"

lemma apart_sub:
  "apart p n q k \<Longrightarrow> p \<le> p' \<Longrightarrow> p' + n' \<le> p + n \<Longrightarrow> q \<le> q' \<Longrightarrow> q' + k' \<le> q + k \<Longrightarrow> apart p' n' q' k'"
  by (auto simp: apart_def)

lemma fold_write:
  assumes "\<And>i m'. i < n \<Longrightarrow> (\<And>x. \<not> within x p i \<Longrightarrow> m' x = m x) \<Longrightarrow> F i m' = F i m"
  shows "fold (\<lambda>i m. m(p + i := F i m)) [0..<n] m = (\<lambda>x. if within x p n then F (x - p) m else m x)"
  using assms
proof (induction n)
  case (Suc n)
  let ?m = "\<lambda>x. if within x p n then F (x - p) m else m x"
  have ih: "fold (\<lambda>i m. m(p + i := F i m)) [0..<n] m = ?m" by (rule Suc.IH) (rule Suc.prems, auto)
  have "F n ?m = F n m" by (rule Suc.prems) auto
  then have "fold (\<lambda>i m. m(p + i := F i m)) [0..<Suc n] m = ?m(p + n := F n m)" using ih by simp
  also have "\<dots> = (\<lambda>x. if within x p (Suc n) then F (x - p) m else m x)" by (rule ext) auto
  finally show ?case .
qed (auto simp: fun_eq_iff)

lemma fold_write2:
  assumes "\<And>i m'. i < n \<Longrightarrow> (\<And>x. \<not> within x p n \<Longrightarrow> \<not> within x q n \<Longrightarrow> m' x = m x) \<Longrightarrow> F i m' = F i m \<and> G i m' = G i m"
    and "apart p n q n"
  shows "fold (\<lambda>i m. let m = m(p + i := F i m) in m(q + i := G i m)) [0..<n] m =
    (\<lambda>x. if within x p n then F (x - p) m else if within x q n then G (x - q) m else m x)"
proof -
  have "fold (\<lambda>i m. let m = m(p + i := F i m) in m(q + i := G i m)) [0..<k] m =
    (\<lambda>x. if within x p k then F (x - p) m else if within x q k then G (x - q) m else m x)" if "k \<le> n" for k
    using that
  proof (induction k)
    case (Suc k)
    let ?m = "\<lambda>x. if within x p k then F (x - p) m else if within x q k then G (x - q) m else m x"
    have "F k ?m = F k m" using Suc.prems by (intro assms(1) [THEN conjunct1]) auto
    moreover have "G k (?m(p + k := F k m)) = G k m" using Suc.prems by (intro assms(1) [THEN conjunct2]) auto
    moreover have "fold (\<lambda>i m. let m = m(p + i := F i m) in m(q + i := G i m)) [0..<k] m = ?m" by (rule Suc.IH) (use Suc.prems in simp)
    ultimately have "fold (\<lambda>i m. let m = m(p + i := F i m) in m(q + i := G i m)) [0..<Suc k] m = ?m(p + k := F k m, q + k := G k m)"
      by (simp add: Let_def)
    also have "\<dots> = (\<lambda>x. if within x p (Suc k) then F (x - p) m else if within x q (Suc k) then G (x - q) m else m x)"
      using Suc.prems assms(2) by (intro ext) (auto simp: apart_def)
    finally show ?case .
  qed (auto simp: fun_eq_iff)
  then show ?thesis by simp
qed

lemma add1_eq:
  assumes "apart p (2 * sl) a (sl + sh)" "apart p (2 * sl) b (sl + sh)" "sh \<le> sl" "sl \<le> Suc sh"
  shows "karatsuba_add1 p (p + sl) a b sl sh m =
    (\<lambda>x. if within x p sl then m (a + (x - p)) XOR (if x - p < sh then m (a + (x - p) + sl) else 0)
         else if within x (p + sl) sl then m (b + (x - (p + sl))) XOR (if x - (p + sl) < sh then m (b + (x - (p + sl)) + sl) else 0)
         else m x)"
proof -
  let ?m = "\<lambda>x. if within x p sh then m (a + (x - p)) XOR m (a + (x - p) + sl)
      else if within x (p + sl) sh then m (b + (x - (p + sl))) XOR m (b + (x - (p + sl)) + sl) else m x"
  have f: "fold (\<lambda>i m. let m = m(p + i := m (a + i) XOR m (a + i + sl)) in m(p + sl + i := m (b + i) XOR m (b + i + sl))) [0..<sh] m = ?m"
    using assms by (subst fold_write2) (auto simp: apart_def)
  show ?thesis
  proof (cases "sh < sl")
    case True
    then have s: "sl = Suc sh" using assms(4) by simp
    have r: "?m (a + sh) = m (a + sh)" "(?m(p + sh := m (a + sh))) (b + sh) = m (b + sh)" using assms(1,2) s by (auto simp: apart_def)
    have "karatsuba_add1 p (p + sl) a b sl sh m = ?m(p + sh := m (a + sh), p + sl + sh := m (b + sh))"
      unfolding karatsuba_add1_def f unfolding Let_def using True r by simp
    then show ?thesis using s by (simp only:) (intro ext, auto)
  next
    case False
    then have s: "sl = sh" using assms(3) by simp
    have "karatsuba_add1 p (p + sl) a b sl sh m = ?m" unfolding karatsuba_add1_def f unfolding Let_def using False by simp
    then show ?thesis using s by (simp only:) (intro ext, auto)
  qed
qed

lemma add2_eq:
  assumes "apart t (2 * sl) out (2 * (sl + sh))" "sh \<le> sl" "sl \<le> 2 * sh"
  defines "r \<equiv> (\<lambda>m i. (m (t + i) XOR m (out + i)) XOR (if i < 2 * sh then m (out + 2 * sl + i) else 0) :: u64)"
  shows "karatsuba_add2 out t (out + 2 * sl) sl sh m =
    (\<lambda>x. if within x t (2 * sl) then r m (x - t)
         else if within x (out + sl) (2 * sl) then m x XOR r m (x - (out + sl)) else m x)"
proof -
  let ?m1 = "\<lambda>x. if within x t (2 * sl) then m (t + (x - t)) XOR m (out + (x - t)) else m x"
  let ?m2 = "\<lambda>x. if within x t (2 * sh) then ?m1 (t + (x - t)) XOR ?m1 (out + 2 * sl + (x - t)) else ?m1 x"
  have 1: "fold (\<lambda>i m. m(t + i := m (t + i) XOR m (out + i))) [0..<2 * sl] m = ?m1"
    using assms(1-3) by (subst fold_write) (auto simp: apart_def)
  have 2: "fold (\<lambda>i m. m(t + i := m (t + i) XOR m (out + 2 * sl + i))) [0..<2 * sh] ?m1 = ?m2"
    using assms(1-3) by (subst fold_write) (auto simp: apart_def)
  have 3: "?m2 = (\<lambda>x. if within x t (2 * sl) then r m (x - t) else m x)"
    using assms(1-3) by (intro ext) (auto simp: apart_def r_def)
  have c: "out + i + sl = out + sl + i" for i by simp
  let ?m3 = "\<lambda>x. if within x t (2 * sl) then r m (x - t) else m x"
  have 4: "fold (\<lambda>i m. m(out + sl + i := m (out + sl + i) XOR m (t + i))) [0..<2 * sl] ?m3 =
      (\<lambda>x. if within x (out + sl) (2 * sl) then ?m3 (out + sl + (x - (out + sl))) XOR ?m3 (t + (x - (out + sl))) else ?m3 x)"
    using assms(1-3) by (subst fold_write) (auto simp: apart_def)
  show ?thesis
    unfolding karatsuba_add2_def Let_def 1 2 unfolding 3 c 4
    using assms(1-3) by (intro ext) (auto simp: apart_def)
qed

section \<open>The recursion\<close>

text \<open>The words of scratch area that the recursion uses.\<close>

fun ksize :: "nat \<Rightarrow> nat" where
  "ksize len = (if len \<le> 1 then 0 else 4 * ((len + 1) div 2) + ksize ((len + 1) div 2))"

declare ksize.simps [simp del]

lemma ksize_mono: "a \<le> b \<Longrightarrow> ksize a \<le> ksize b"
proof (induction b arbitrary: a rule: less_induct)
  case (less b)
  show ?case
  proof (cases "a \<le> 1")
    case False
    then have "(b + 1) div 2 < b" "(a + 1) div 2 \<le> (b + 1) div 2" using less.prems by auto
    from less.IH [OF this] this(2) show ?thesis using False less.prems by (simp add: ksize.simps [of a] ksize.simps [of b])
  qed (simp add: ksize.simps)
qed

lemma karatsuba_identity:
  "clmul (al XOR push_bit s ah) (bl XOR push_bit s bh) =
     (clmul al bl XOR push_bit (2 * s) (clmul ah bh)) XOR
     push_bit s (clmul (al XOR ah) (bl XOR bh) XOR clmul al bl XOR clmul ah bh)"
proof -
  have "clmul (al XOR ah) (bl XOR bh) XOR clmul al bl XOR clmul ah bh = clmul al bh XOR clmul ah bl"
    by (simp add: clmul_xor_left clmul_xor_right ac_simps)
  then show ?thesis
    by (simp add: clmul_xor_left clmul_xor_right clmul_push_left clmul_push_right push_bit_push_bit mult_2_right ac_simps)
qed

text \<open>
  The operands, the result and the scratch area of a call do not overlap; and the memory after a call: the product
  in its place, and nothing changed outside of the result and the scratch area.
\<close>

definition placed :: "nat \<Rightarrow> nat \<Rightarrow> nat \<Rightarrow> nat \<Rightarrow> nat \<Rightarrow> bool" where
  "placed out a b len stack \<longleftrightarrow> 0 < len \<and> apart a len out (2 * len) \<and> apart b len out (2 * len) \<and>
     apart a len stack (ksize len) \<and> apart b len stack (ksize len) \<and> apart out (2 * len) stack (ksize len)"

definition product_in :: "nat \<Rightarrow> nat \<Rightarrow> nat \<Rightarrow> nat \<Rightarrow> nat \<Rightarrow> (nat \<Rightarrow> u64) \<Rightarrow> (nat \<Rightarrow> u64) \<Rightarrow> bool" where
  "product_in out a b len stack m m' \<longleftrightarrow>
     wval (\<lambda>i. m' (out + i)) (2 * len) = clmul (wval (\<lambda>i. m (a + i)) len) (wval (\<lambda>i. m (b + i)) len) \<and>
     (\<forall>x. \<not> within x out (2 * len) \<longrightarrow> \<not> within x stack (ksize len) \<longrightarrow> m' x = m x)"

lemma product_inD:
  "product_in out a b len stack m m' \<Longrightarrow> wval (\<lambda>i. m' (out + i)) (2 * len) = clmul (wval (\<lambda>i. m (a + i)) len) (wval (\<lambda>i. m (b + i)) len)"
  "product_in out a b len stack m m' \<Longrightarrow> \<not> within x out (2 * len) \<Longrightarrow> \<not> within x stack (ksize len) \<Longrightarrow> m' x = m x"
  unfolding product_in_def by blast+

text \<open>The two halves of the operands of a call that recurs.\<close>

definition halves :: "nat \<Rightarrow> nat \<Rightarrow> bool" where
  "halves sl sh \<longleftrightarrow> sh \<le> sl \<and> sl \<le> Suc sh \<and> 0 < sh \<and> ksize (sl + sh) = 4 * sl + ksize sl \<and> ksize sh \<le> ksize sl"

lemma halves_len:
  assumes "1 < len"
  shows "halves ((len + 1) div 2) (len div 2)" and "(len + 1) div 2 + len div 2 = len"
proof -
  show e: "(len + 1) div 2 + len div 2 = len" by simp
  have "ksize len = 4 * ((len + 1) div 2) + ksize ((len + 1) div 2)" using assms by (simp add: ksize.simps [of len])
  then show "halves ((len + 1) div 2) (len div 2)" using assms e unfolding halves_def by (auto intro: ksize_mono)
qed

lemma placed_halves:
  assumes "halves sl sh" "placed out a b (sl + sh) stack"
  shows "placed out a b sl (stack + 4 * sl)" "placed (out + 2 * sl) (a + sl) (b + sl) sh (stack + 4 * sl)"
    "placed (stack + 2 * sl) stack (stack + sl) sl (stack + 4 * sl)"
proof -
  have h: "sh \<le> sl" "0 < sh" "ksize (sl + sh) = 4 * sl + ksize sl" "ksize sh \<le> ksize sl" using assms(1) by (simp_all add: halves_def)
  have p: "apart a (sl + sh) out (2 * (sl + sh))" "apart b (sl + sh) out (2 * (sl + sh))" "apart a (sl + sh) stack (4 * sl + ksize sl)"
      "apart b (sl + sh) stack (4 * sl + ksize sl)" "apart out (2 * (sl + sh)) stack (4 * sl + ksize sl)"
    using assms(2) by (simp_all add: placed_def h(3))
  show "placed out a b sl (stack + 4 * sl)" unfolding placed_def using h
    by (intro conjI) (simp, (rule p [THEN apart_sub], simp_all)+)
  show "placed (out + 2 * sl) (a + sl) (b + sl) sh (stack + 4 * sl)" unfolding placed_def using h
    by (intro conjI) (simp, (rule p [THEN apart_sub], simp_all)+)
  show "placed (stack + 2 * sl) stack (stack + sl) sl (stack + 4 * sl)" unfolding placed_def apart_def using h by simp
qed

lemma halves_products:
  assumes h: "halves sl sh" and pl: "placed out a b (sl + sh) stack"
    and 1: "product_in out a b sl (stack + 4 * sl) m m1" and 2: "product_in (out + 2 * sl) (a + sl) (b + sl) sh (stack + 4 * sl) m1 m2"
  shows "i < sl + sh \<Longrightarrow> m2 (a + i) = m (a + i)" "i < sl + sh \<Longrightarrow> m2 (b + i) = m (b + i)"
    "wval (\<lambda>i. m2 (out + i)) (2 * sl) = clmul (wval (\<lambda>i. m (a + i)) sl) (wval (\<lambda>i. m (b + i)) sl)"
    "wval (\<lambda>i. m2 (out + 2 * sl + i)) (2 * sh) = clmul (wval (\<lambda>i. m (a + sl + i)) sh) (wval (\<lambda>i. m (b + sl + i)) sh)"
proof -
  have sz: "sh \<le> sl" "ksize (sl + sh) = 4 * sl + ksize sl" "ksize sh \<le> ksize sl" using h by (simp_all add: halves_def)
  have ao: "a + (sl + sh) \<le> out \<or> out + 2 * (sl + sh) \<le> a" and bo: "b + (sl + sh) \<le> out \<or> out + 2 * (sl + sh) \<le> b"
    and as: "a + (sl + sh) \<le> stack \<or> stack + (4 * sl + ksize sl) \<le> a" and bs: "b + (sl + sh) \<le> stack \<or> stack + (4 * sl + ksize sl) \<le> b"
    and os: "out + 2 * (sl + sh) \<le> stack \<or> stack + (4 * sl + ksize sl) \<le> out"
    using pl by (simp_all add: placed_def apart_def sz(2))
  have in1: "m1 (a + i) = m (a + i)" "m1 (b + i) = m (b + i)" if "i < sl + sh" for i
    by (rule product_inD(2) [OF 1]; use that ao as in auto) (rule product_inD(2) [OF 1]; use that bo bs in auto)
  show in2: "m2 (a + i) = m (a + i)" "m2 (b + i) = m (b + i)" if "i < sl + sh" for i
    by (rule trans [OF product_inD(2) [OF 2] in1(1) [OF that]]; use that ao as sz in auto)
      (rule trans [OF product_inD(2) [OF 2] in1(2) [OF that]]; use that bo bs sz in auto)
  have "wval (\<lambda>i. m2 (out + i)) (2 * sl) = wval (\<lambda>i. m1 (out + i)) (2 * sl)"
  proof (rule wval_cong)
    fix i assume "i < 2 * sl"
    then show "m2 (out + i) = m1 (out + i)" by (intro product_inD(2) [OF 2]) (use os sz in auto)
  qed
  then show "wval (\<lambda>i. m2 (out + i)) (2 * sl) = clmul (wval (\<lambda>i. m (a + i)) sl) (wval (\<lambda>i. m (b + i)) sl)"
    by (simp only: product_inD(1) [OF 1])
  show "wval (\<lambda>i. m2 (out + 2 * sl + i)) (2 * sh) = clmul (wval (\<lambda>i. m (a + sl + i)) sh) (wval (\<lambda>i. m (b + sl + i)) sh)"
    unfolding product_inD(1) [OF 2] using in1 by (intro arg_cong2 [of _ _ _ _ clmul] wval_cong) (simp_all add: add.assoc)
qed

text \<open>The sums of the halves, and their product.\<close>

lemma middle_product:
  assumes h: "halves sl sh" and pl: "placed out a b (sl + sh) stack"
    and ab: "\<And>i. i < sl + sh \<Longrightarrow> m2 (a + i) = m (a + i)" "\<And>i. i < sl + sh \<Longrightarrow> m2 (b + i) = m (b + i)"
    and 4: "product_in (stack + 2 * sl) stack (stack + sl) sl (stack + 4 * sl) (karatsuba_add1 stack (stack + sl) a b sl sh m2) m4"
  shows "wval (\<lambda>i. m4 (stack + 2 * sl + i)) (2 * sl) =
      clmul (wval (\<lambda>i. m (a + i)) sl XOR wval (\<lambda>i. m (a + sl + i)) sh) (wval (\<lambda>i. m (b + i)) sl XOR wval (\<lambda>i. m (b + sl + i)) sh)"
    and "\<not> within x stack (ksize (sl + sh)) \<Longrightarrow> m4 x = m2 x"
proof -
  note pl = pl [unfolded placed_def apart_def] and h = h [unfolded halves_def]
  define m3 where "m3 = karatsuba_add1 stack (stack + sl) a b sl sh m2"
  have 3: "m3 = (\<lambda>x. if within x stack sl then m2 (a + (x - stack)) XOR (if x - stack < sh then m2 (a + (x - stack) + sl) else 0)
       else if within x (stack + sl) sl then m2 (b + (x - (stack + sl))) XOR (if x - (stack + sl) < sh then m2 (b + (x - (stack + sl)) + sl) else 0)
       else m2 x)"
    unfolding m3_def using pl h by (intro add1_eq) (auto simp: apart_def)
  have hi: "m2 (a + i + sl) = m (a + sl + i)" "m2 (b + i + sl) = m (b + sl + i)" if "i < sh" for i
    using ab [of "sl + i"] that by (simp_all add: ac_simps)
  have "wval (\<lambda>i. m3 (stack + i)) sl = wval (\<lambda>i. m (a + i)) sl XOR push_bit (64 * 0) (wval (\<lambda>i. m (a + sl + i)) sh)"
    "wval (\<lambda>i. m3 (stack + sl + i)) sl = wval (\<lambda>i. m (b + i)) sl XOR push_bit (64 * 0) (wval (\<lambda>i. m (b + sl + i)) sh)"
    using h by (intro wval_add_at; auto simp: 3 ab hi)+
  then show "wval (\<lambda>i. m4 (stack + 2 * sl + i)) (2 * sl) =
      clmul (wval (\<lambda>i. m (a + i)) sl XOR wval (\<lambda>i. m (a + sl + i)) sh) (wval (\<lambda>i. m (b + i)) sl XOR wval (\<lambda>i. m (b + sl + i)) sh)"
    using product_inD(1) [OF 4 [folded m3_def]] by simp
  show "m4 x = m2 x" if "\<not> within x stack (ksize (sl + sh))"
  proof -
    have "m4 x = m3 x" by (rule product_inD(2) [OF 4 [folded m3_def]]) (use that h in auto)
    also have "m3 x = m2 x" unfolding 3 using that h by auto
    finally show ?thesis .
  qed
qed

lemma combine_products:
  assumes h: "halves sl sh" and pl: "placed out a b (sl + sh) stack"
    and L: "wval (\<lambda>i. m4 (out + i)) (2 * sl) = clmul AL BL" and H: "wval (\<lambda>i. m4 (out + 2 * sl + i)) (2 * sh) = clmul AH BH"
    and M: "wval (\<lambda>i. m4 (stack + 2 * sl + i)) (2 * sl) = clmul (AL XOR AH) (BL XOR BH)"
  defines "m' \<equiv> karatsuba_add2 out (stack + 2 * sl) (out + 2 * sl) sl sh m4"
  shows "wval (\<lambda>i. m' (out + i)) (2 * (sl + sh)) = clmul (AL XOR push_bit (64 * sl) AH) (BL XOR push_bit (64 * sl) BH)"
    and "\<not> within x out (2 * (sl + sh)) \<Longrightarrow> \<not> within x stack (ksize (sl + sh)) \<Longrightarrow> m' x = m4 x"
proof -
  have os: "out + 2 * (sl + sh) \<le> stack \<or> stack + (4 * sl + ksize sl) \<le> out" and k: "ksize (sl + sh) = 4 * sl + ksize sl"
    and sz: "sh \<le> sl" "sl \<le> 2 * sh" "0 < sl" using pl h by (auto simp: placed_def apart_def halves_def)
  define T where "T = stack + 2 * sl"
  let ?r = "\<lambda>i. (m4 (T + i) XOR m4 (out + i)) XOR (if i < 2 * sh then m4 (out + 2 * sl + i) else 0)"
  have 5: "m' = (\<lambda>x. if within x T (2 * sl) then ?r (x - T)
       else if within x (out + sl) (2 * sl) then m4 x XOR ?r (x - (out + sl)) else m4 x)"
    unfolding m'_def T_def [symmetric] using os sz by (intro add2_eq) (auto simp: apart_def T_def)
  have R: "wval ?r (2 * sl) = clmul (AL XOR AH) (BL XOR BH) XOR clmul AL BL XOR clmul AH BH"
  proof -
    have "wval (\<lambda>i. if i < 2 * sh then m4 (out + 2 * sl + i) else 0) (2 * sl) =
        wval (\<lambda>i. 0) (2 * sl) XOR push_bit (64 * 0) (wval (\<lambda>i. m4 (out + 2 * sl + i)) (2 * sh))"
      using sz by (intro wval_add_at) auto
    then show ?thesis unfolding wval_xor L by (simp add: M [folded T_def] H xor.assoc)
  qed
  have "wval (\<lambda>i. m' (out + i)) (2 * (sl + sh)) = wval (\<lambda>i. m4 (out + i)) (2 * (sl + sh)) XOR push_bit (64 * sl) (wval ?r (2 * sl))"
    unfolding 5 using os sz by (intro wval_add_at) (auto simp: T_def)
  also have "wval (\<lambda>i. m4 (out + i)) (2 * (sl + sh)) = clmul AL BL XOR push_bit (2 * (64 * sl)) (clmul AH BH)"
    using wval_append [of "\<lambda>i. m4 (out + i)" "2 * sl" "2 * sh"] L H by (simp add: algebra_simps)
  finally show "wval (\<lambda>i. m' (out + i)) (2 * (sl + sh)) = clmul (AL XOR push_bit (64 * sl) AH) (BL XOR push_bit (64 * sl) BH)"
    unfolding R karatsuba_identity by (simp add: xor.assoc)
  show "m' x = m4 x" if "\<not> within x out (2 * (sl + sh))" "\<not> within x stack (ksize (sl + sh))"
    unfolding 5 using that sz unfolding k by (auto simp: T_def)
qed

lemma karatsuba_product:
  assumes "placed out a b len stack"
  shows "product_in out a b len stack m (karatsuba out a b len stack m)"
  using assms
proof (induction len arbitrary: out a b stack m rule: less_induct)
  case (less len)
  show ?case
  proof (cases "len = 1")
    case True
    obtain l h where lh: "base_mul (m a) (m b) = (l, h)" by fastforce
    have k: "karatsuba out a b len stack m = m(out := l, out + 1 := h)" using True lh by (simp add: karatsuba.simps)
    show ?thesis unfolding k product_in_def unfolding True using base_mul_correct [OF lh] by (simp add: numeral_2_eq_2)
  next
    case False
    then have len: "1 < len" using less.prems by (simp add: placed_def)
    define sl sh where "sl = (len + 1) div 2" and "sh = len div 2"
    have h: "halves sl sh" and l: "len = sl + sh" using halves_len [OF len] by (simp_all add: sl_def sh_def)
    have lt: "sl < len" "sh < len" using len by (auto simp: sl_def sh_def)
    note pl = less.prems [unfolded l] and ph = placed_halves [OF h less.prems [unfolded l]]
    define m1 where "m1 = karatsuba out a b sl (stack + 4 * sl) m"
    define m2 where "m2 = karatsuba (out + 2 * sl) (a + sl) (b + sl) sh (stack + 4 * sl) m1"
    define m4 where "m4 = karatsuba (stack + 2 * sl) stack (stack + sl) sl (stack + 4 * sl) (karatsuba_add1 stack (stack + sl) a b sl sh m2)"
    have kar: "karatsuba out a b len stack m = karatsuba_add2 out (stack + 2 * sl) (out + 2 * sl) sl sh m4"
      using len by (simp add: karatsuba.simps [of out a b len] Let_def m1_def m2_def m4_def sl_def sh_def mult_2 add.assoc)
    have 1: "product_in out a b sl (stack + 4 * sl) m m1" unfolding m1_def by (rule less.IH [OF lt(1) ph(1)])
    have 2: "product_in (out + 2 * sl) (a + sl) (b + sl) sh (stack + 4 * sl) m1 m2" unfolding m2_def by (rule less.IH [OF lt(2) ph(2)])
    note hp = halves_products [OF h pl 1 2]
    have ab: "m2 (a + i) = m (a + i)" "m2 (b + i) = m (b + i)" if "i < sl + sh" for i using hp(1,2) [OF that] by simp_all
    have "product_in (stack + 2 * sl) stack (stack + sl) sl (stack + 4 * sl) (karatsuba_add1 stack (stack + sl) a b sl sh m2) m4"
      unfolding m4_def by (rule less.IH [OF lt(1) ph(3)])
    from middle_product [OF h pl _ _ this, of m] ab
    have mp: "wval (\<lambda>i. m4 (stack + 2 * sl + i)) (2 * sl) =
        clmul (wval (\<lambda>i. m (a + i)) sl XOR wval (\<lambda>i. m (a + sl + i)) sh) (wval (\<lambda>i. m (b + i)) sl XOR wval (\<lambda>i. m (b + sl + i)) sh)"
      "\<And>x. \<not> within x stack (ksize (sl + sh)) \<Longrightarrow> m4 x = m2 x" by blast+
    have out4: "m4 (out + i) = m2 (out + i)" if "i < 2 * (sl + sh)" for i
      by (rule mp(2)) (use that pl in \<open>auto simp: placed_def apart_def\<close>)
    have "wval (\<lambda>i. m4 (out + i)) (2 * sl) = wval (\<lambda>i. m2 (out + i)) (2 * sl)"
      "wval (\<lambda>i. m4 (out + 2 * sl + i)) (2 * sh) = wval (\<lambda>i. m2 (out + 2 * sl + i)) (2 * sh)"
      using out4 by (intro wval_cong; simp add: add.assoc)+
    note cp = combine_products [OF h pl this(1) [unfolded hp(3)] this(2) [unfolded hp(4)] mp(1), folded kar]
    have frame: "m4 x = m x" if "\<not> within x out (2 * (sl + sh))" "\<not> within x stack (ksize (sl + sh))" for x
    proof -
      have "m2 x = m1 x" by (rule product_inD(2) [OF 2]) (use that h in \<open>auto simp: halves_def\<close>)
      moreover have "m1 x = m x" by (rule product_inD(2) [OF 1]) (use that h in \<open>auto simp: halves_def\<close>)
      ultimately show ?thesis using mp(2) [OF that(2)] by simp
    qed
    have w: "wval (\<lambda>i. m (c + i)) sl XOR push_bit (64 * sl) (wval (\<lambda>i. m (c + sl + i)) sh) = wval (\<lambda>i. m (c + i)) len" for c
      using wval_append [of "\<lambda>i. m (c + i)" sl sh] l by (simp add: add.assoc)
    show ?thesis unfolding product_in_def using cp frame unfolding w l [symmetric] by simp
  qed
qed

lemma karatsuba_spec:
  assumes "0 < len" "apart a len out (2 * len)" "apart b len out (2 * len)"
    and "apart a len stack (ksize len)" "apart b len stack (ksize len)" "apart out (2 * len) stack (ksize len)"
  shows "wval (\<lambda>i. karatsuba out a b len stack m (out + i)) (2 * len) = clmul (wval (\<lambda>i. m (a + i)) len) (wval (\<lambda>i. m (b + i)) len) \<and>
    (\<forall>x. \<not> within x out (2 * len) \<longrightarrow> \<not> within x stack (ksize len) \<longrightarrow> karatsuba out a b len stack m x = m x)"
  using karatsuba_product [of out a b len stack m] assms unfolding placed_def product_in_def by blast

section \<open>The reduction\<close>

text \<open>The remainder modulo \<open>X^n - 1\<close>: the coefficients \<open>n\<close> apart are added.\<close>

definition ring_mod :: "nat \<Rightarrow> nat \<Rightarrow> nat" where
  "ring_mod n a = pmod n (2 ^ n XOR 1) a"

lemma ring_modulus: "0 < n \<Longrightarrow> modulus n (2 ^ n XOR 1)"
proof -
  assume "0 < n"
  then have "(2::nat) ^ n XOR 1 = 2 ^ n + 1" using nat_halves [of "2 ^ n + 1"] by (simp add: xor.commute)
  moreover have "(1::nat) < 2 ^ n" using \<open>0 < n\<close> by (intro one_less_power) simp_all
  ultimately show ?thesis using \<open>0 < n\<close> by (simp add: modulus_def)
qed

lemma ring_mod_fold:
  assumes "0 < n" "X < 2 ^ (2 * n)"
  shows "ring_mod n X = take_bit n X XOR drop_bit n X"
proof -
  have "push_bit n (drop_bit n X) = clmul ((2 ^ n XOR 1) XOR 1) (drop_bit n X)" by (simp add: clmul_power xor.assoc)
  also have "\<dots> = clmul (2 ^ n XOR 1) (drop_bit n X) XOR drop_bit n X" unfolding clmul_xor_left [of "2 ^ n XOR 1"] by simp
  finally have "X = (take_bit n X XOR drop_bit n X) XOR clmul (2 ^ n XOR 1) (drop_bit n X)"
    using take_drop_xor [of X n] by (simp add: ac_simps)
  then have "ring_mod n X = pmod n (2 ^ n XOR 1) (take_bit n X XOR drop_bit n X)"
    using pmod_add_multiple [OF ring_modulus [OF assms(1)], of "take_bit n X XOR drop_bit n X" "drop_bit n X"] by (simp add: ring_mod_def)
  moreover have "drop_bit n X < 2 ^ n" using assms(2) by (simp add: drop_bit_eq_div less_mult_imp_div_less mult_2 power_add)
  then have "take_bit n X XOR drop_bit n X < 2 ^ n" by (intro xor_less) simp_all
  ultimately show ?thesis by (simp add: pmod_small)
qed

lemma bit_wval: "bit (wval f n) k \<longleftrightarrow> k < 64 * n \<and> bit (f (k div 64)) (k mod 64)"
proof (induction n)
  case (Suc n)
  have "64 * n \<le> k \<and> bit (f n) (k - 64 * n) \<longleftrightarrow> 64 * n \<le> k \<and> k < 64 * Suc n \<and> bit (f (k div 64)) (k mod 64)"
  proof (cases "64 * n \<le> k \<and> k < 64 * Suc n")
    case True
    then obtain r where r: "k = 64 * n + r" "r < 64" by (metis add_less_cancel_left le_iff_add mult_Suc_right add.commute)
    then show ?thesis by simp
  next
    case False
    then show ?thesis using bit_imp_le_length [of "f n" "k - 64 * n"] by auto
  qed
  then show ?case using Suc by (auto simp: bit_xor_iff bit_push_bit_iff bit_unsigned_iff)
qed simp

lemma div_mod_64: "(64 * i + r) div 64 = (i :: nat)" "(64 * i + r) mod 64 = r" if "r < 64"
  using that by simp_all

lemma reduce_words:
  fixes a :: "nat \<Rightarrow> u64"
  assumes "\<And>i. i < q \<Longrightarrow> f i = a i XOR drop_bit 5 (a (i + q)) XOR push_bit 59 (a (i + Suc q))"
    and "f q = (a q XOR drop_bit 5 (a (q + q)) XOR push_bit 59 (a (q + Suc q))) AND mask 5"
    and X: "wval a (2 * Suc q) < 2 ^ (2 * (64 * q + 5))"
  shows "wval f (Suc q) = ring_mod (64 * q + 5) (wval a (2 * Suc q))"
proof -
  let ?n = "64 * q + 5"
  define X where "X = wval a (2 * Suc q)"
  have X: "X < 2 ^ (2 * ?n)" using X unfolding X_def .
  have bX: "bit X k \<longleftrightarrow> k < 64 * (2 * Suc q) \<and> bit (a (k div 64)) (k mod 64)" for k unfolding X_def by (rule bit_wval)
  have "bit (wval f (Suc q)) k = bit (take_bit ?n X XOR drop_bit ?n X) k" for k
  proof -
    define i r where "i = k div 64" and "r = k mod 64"
    have k: "k = 64 * i + r" "r < 64" by (simp_all add: i_def r_def)
    have hi: "\<not> bit X (k + ?n)" if "?n \<le> k"
      using X that bit_take_bit_iff [of "2 * ?n" X "k + ?n"] by (simp add: take_bit_nat_eq_self)
    have dX: "bit X (k + ?n) \<longleftrightarrow> (r + 5 < 64 \<and> bit (a (i + q)) (r + 5)) \<or> (59 \<le> r \<and> bit (a (i + Suc q)) (r - 59))" if "k < ?n"
    proof (cases "r + 5 < 64")
      case True
      have kn: "k + ?n = 64 * (i + q) + (r + 5)" using k by simp
      show ?thesis using True that k unfolding bX kn div_mod_64 [OF True] by auto
    next
      case False
      then have kn: "k + ?n = 64 * (i + Suc q) + (r - 59)" and r: "r - 59 < 64" using k by auto
      show ?thesis using False that k unfolding bX kn div_mod_64 [OF r] by auto
    qed
    have sh: "bit (drop_bit 5 w) r \<longleftrightarrow> r + 5 < 64 \<and> bit w (r + 5)" "bit (push_bit 59 w) r \<longleftrightarrow> 59 \<le> r \<and> bit w (r - 59)" for w :: u64
      using k(2) bit_imp_le_length [of w "r + 5"] by (auto simp: bit_drop_bit_eq bit_push_bit_iff add.commute)
    have lhs: "bit (wval f (Suc q)) k \<longleftrightarrow> i \<le> q \<and> bit (f i) r"
      unfolding bit_wval i_def [symmetric] r_def [symmetric] using k by auto
    have rhs: "bit (take_bit ?n X XOR drop_bit ?n X) k \<longleftrightarrow> (k < ?n \<and> bit X k) \<noteq> bit X (k + ?n)"
      by (simp add: bit_xor_iff bit_take_bit_iff bit_drop_bit_eq add.commute)
    have Xk: "bit X k \<longleftrightarrow> bit (a i) r" if "k < ?n" unfolding bX i_def [symmetric] r_def [symmetric] using that by auto
    consider "i < q" | "i = q" "r < 5" | "i = q" "5 \<le> r" | "q < i" by linarith
    then show ?thesis
    proof cases
      case 1
      then have n: "k < ?n" using k by auto
      show ?thesis unfolding lhs rhs unfolding Xk [OF n] dX [OF n] assms(1) [OF 1] bit_xor_iff sh using 1 n by auto
    next
      case 2
      then have n: "k < ?n" using k by auto
      show ?thesis unfolding lhs rhs unfolding Xk [OF n] dX [OF n] 2(1) assms(2) bit_and_iff bit_mask_iff bit_xor_iff sh using 2 n by auto
    next
      case 3
      then have n: "?n \<le> k" using k by auto
      show ?thesis unfolding lhs rhs unfolding 3(1) assms(2) bit_and_iff bit_mask_iff using 3 n hi by auto
    next
      case 4
      then have n: "?n \<le> k" using k by auto
      show ?thesis unfolding lhs rhs using 4 n hi by auto
    qed
  qed
  then have "wval f (Suc q) = take_bit ?n X XOR drop_bit ?n X" by (intro bit_eqI)
  then show ?thesis using ring_mod_fold [of ?n X] X by (simp add: X_def)
qed

section \<open>The product of two vectors\<close>

definition vval :: "u64 list \<Rightarrow> nat" where
  "vval v = wval (\<lambda>i. v ! i) (length v)"

text \<open>A vector of \<open>PARAM_N\<close> bits.\<close>

definition vec_ok :: "u64 list \<Rightarrow> bool" where
  "vec_ok v \<longleftrightarrow> length v = VEC_N_SIZE_64 \<and> vval v < 2 ^ PARAM_N"

lemma ksize_277: "ksize 277 = 1128"
  by (simp add: ksize.simps)

text \<open>The scratch area of \<open>vect_mul\<close> is \<open>VEC_N_SIZE_64 << 3\<close> words.\<close>

lemma karatsuba_stack_fits: "ksize VEC_N_SIZE_64 \<le> push_bit 3 VEC_N_SIZE_64"
  by (simp add: ksize_277 push_bit_eq_mult)

lemma reduce_correct:
  assumes len: "length a = 2 * Suc q + 1" and q: "q = 276" and X: "wval (\<lambda>i. a ! i) (2 * Suc q) < 2 ^ (2 * (64 * q + 5))"
  shows "length (reduce a) = Suc q" and "vval (reduce a) = ring_mod (64 * q + 5) (wval (\<lambda>i. a ! i) (2 * Suc q))"
proof -
  show l: "length (reduce a) = Suc q" by (simp add: reduce_def Let_def q)
  have m: "RED_MASK = mask 5" by (simp add: RED_MASK_def mask_eq_exp_minus_1)
  have s5: "Suc (Suc (Suc (Suc (Suc 0)))) = 5" by simp
  have f: "reduce a ! i = a ! i XOR drop_bit 5 (a ! (i + q)) XOR push_bit 59 (a ! (i + Suc q))" if "i < q" for i
    using that by (simp add: reduce_def Let_def q add.commute s5)
  have fq: "reduce a ! q = (a ! q XOR drop_bit 5 (a ! (q + q)) XOR push_bit 59 (a ! (q + Suc q))) AND mask 5"
    by (simp add: reduce_def Let_def q m s5)
  show "vval (reduce a) = ring_mod (64 * q + 5) (wval (\<lambda>i. a ! i) (2 * Suc q))"
    unfolding vval_def l using f fq X by (rule reduce_words)
qed

lemma vect_mul_correct:
  assumes "vec_ok a1" "vec_ok a2"
  shows "vec_ok (vect_mul a1 a2)" and "vval (vect_mul a1 a2) = ring_mod PARAM_N (clmul (vval a1) (vval a2))"
proof -
  define n where "n = VEC_N_SIZE_64"
  define m where "m = (\<lambda>x. if x < n then a1 ! x else if x < 2 * n then a2 ! (x - n) else 0)"
  define k where "k = karatsuba (2 * n) 0 n n (2 * n + 2 * n + 1) m"
  define a where "a = map (\<lambda>i. k (2 * n + i)) [0..<2 * n + 1]"
  obtain q :: nat where q: "q = 276" by simp
  have nq: "n = Suc q" "PARAM_N = 64 * q + 5" by (simp_all add: n_def q)
  have l: "length a1 = n" "length a2 = n" "vval a1 < 2 ^ (64 * q + 5)" "vval a2 < 2 ^ (64 * q + 5)"
    using assms unfolding vec_ok_def n_def nq(2) by blast+
  have v: "vect_mul a1 a2 = reduce a" unfolding vect_mul_def Let_def a_def k_def m_def n_def ..
  have "wval (\<lambda>i. k (2 * n + i)) (2 * n) = clmul (wval (\<lambda>i. m (0 + i)) n) (wval (\<lambda>i. m (n + i)) n)"
    using karatsuba_spec [of n 0 "2 * n" n "2 * n + 2 * n + 1" m] nq(1) unfolding k_def by (auto simp: apart_def)
  also have "wval (\<lambda>i. m (0 + i)) n = vval a1" unfolding vval_def l by (rule wval_cong) (simp add: m_def)
  also have "wval (\<lambda>i. m (n + i)) n = vval a2" unfolding vval_def l by (rule wval_cong) (simp add: m_def)
  also have "wval (\<lambda>i. k (2 * n + i)) (2 * n) = wval (\<lambda>i. a ! i) (2 * Suc q)"
    unfolding nq(1) [symmetric] by (rule wval_cong) (simp add: a_def nth_append)
  finally have X: "wval (\<lambda>i. a ! i) (2 * Suc q) = clmul (vval a1) (vval a2)" .
  have "clmul (vval a1) (vval a2) < 2 ^ (2 * (64 * q + 5))" unfolding mult_2 using l(3,4) by (rule clmul_less)
  with X have X': "wval (\<lambda>i. a ! i) (2 * Suc q) < 2 ^ (2 * (64 * q + 5))" by simp
  have la: "length a = 2 * Suc q + 1" by (simp add: a_def nq(1))
  note r = reduce_correct [OF la q X']
  show g: "vval (vect_mul a1 a2) = ring_mod PARAM_N (clmul (vval a1) (vval a2))" unfolding v r(2) X nq(2) ..
  have "vval (vect_mul a1 a2) < 2 ^ (64 * q + 5)"
    unfolding g nq(2) ring_mod_def by (rule pmod_less [OF ring_modulus]) simp
  moreover have "length (vect_mul a1 a2) = VEC_N_SIZE_64" using r(1) v nq(1) by (simp add: n_def)
  ultimately show "vec_ok (vect_mul a1 a2)" unfolding vec_ok_def nq(2) by blast
qed

end
