(* ===== verification/Hqc_Vector.thy ===== *)
theory Hqc_Vector
  imports Gf2x_Mul Fips202
begin

text \<open>
  The generators of \<open>src/shake_prng.c\<close>, the vectors of \<open>src/vector.c\<close> and the byte formats of \<open>src/parsing.c\<close> of
  the HQC-128 implementation.  A seed expander and the global generator are incremental SHAKE256 states.
  Arrays of 64-bit words that the code copies as bytes have the little-endian view \<open>word_bytes\<close>.  The
  rejection sampling of positions need not end for every generator, so it is a partial function.
\<close>

section \<open>Parameters\<close>

abbreviation (input) PARAM_N1 :: nat where "PARAM_N1 \<equiv> 46"
abbreviation (input) PARAM_N1N2 :: nat where "PARAM_N1N2 \<equiv> 17664"
abbreviation (input) PARAM_OMEGA :: nat where "PARAM_OMEGA \<equiv> 66"
abbreviation (input) PARAM_OMEGA_E :: nat where "PARAM_OMEGA_E \<equiv> 75"
abbreviation (input) PARAM_OMEGA_R :: nat where "PARAM_OMEGA_R \<equiv> 75"
abbreviation (input) SEED_BYTES :: nat where "SEED_BYTES \<equiv> 40"
abbreviation (input) SHAKE256_512_BYTES :: nat where "SHAKE256_512_BYTES \<equiv> 64"
abbreviation (input) PUBLIC_KEY_BYTES :: nat where "PUBLIC_KEY_BYTES \<equiv> 2249"
abbreviation (input) VEC_N_SIZE_BYTES :: nat where "VEC_N_SIZE_BYTES \<equiv> 2209"
abbreviation (input) VEC_K_SIZE_BYTES :: nat where "VEC_K_SIZE_BYTES \<equiv> 16"
abbreviation (input) VEC_N1N2_SIZE_BYTES :: nat where "VEC_N1N2_SIZE_BYTES \<equiv> 2208"
abbreviation (input) VEC_K_SIZE_64 :: nat where "VEC_K_SIZE_64 \<equiv> 2"
abbreviation (input) VEC_N1_SIZE_64 :: nat where "VEC_N1_SIZE_64 \<equiv> 6"
abbreviation (input) VEC_N1N2_SIZE_64 :: nat where "VEC_N1N2_SIZE_64 \<equiv> 276"

definition UTILS_REJECTION_THRESHOLD :: u32 where "UTILS_REJECTION_THRESHOLD = 16767881"

definition PRNG_DOMAIN :: u8 where "PRNG_DOMAIN = 1"
definition SEEDEXPANDER_DOMAIN :: u8 where "SEEDEXPANDER_DOMAIN = 2"

section \<open>Words as bytes\<close>

definition word_bytes :: "u64 list \<Rightarrow> u8 list" where
  "word_bytes ws = concat (map store64 ws)"

definition bytes_words :: "u8 list \<Rightarrow> u64 list" where
  "bytes_words bs = map (\<lambda>i. load64 (take 8 (drop (8 * i) bs))) [0..<length bs div 8]"

text \<open>\<open>memcpy(v, bs, n)\<close> into an array of words.\<close>

definition memcpy_words :: "u64 list \<Rightarrow> u8 list \<Rightarrow> u64 list" where
  "memcpy_words v bs = bytes_words (memcpy_at (word_bytes v) 0 bs)"

section \<open>Generators\<close>

definition shake_prng_init :: "u8 list \<Rightarrow> u8 list \<Rightarrow> u64 list" where
  "shake_prng_init entropy_input personalization_string =
     (let st = shake256_inc_init;
          st = shake256_inc_absorb st entropy_input;
          st = shake256_inc_absorb st personalization_string;
          st = shake256_inc_absorb st [PRNG_DOMAIN]
      in shake256_inc_finalize st)"

definition shake_prng :: "nat \<Rightarrow> u64 list \<Rightarrow> u8 list \<times> u64 list" where
  "shake_prng outlen st = shake256_inc_squeeze outlen st"

definition seedexpander_init :: "u8 list \<Rightarrow> u64 list" where
  "seedexpander_init seed =
     (let st = shake256_inc_init;
          st = shake256_inc_absorb st seed;
          st = shake256_inc_absorb st [SEEDEXPANDER_DOMAIN]
      in shake256_inc_finalize st)"

definition seedexpander :: "u64 list \<Rightarrow> nat \<Rightarrow> u8 list \<times> u64 list" where
  "seedexpander st outlen =
     (let bsize = 8;
          rmd = outlen mod bsize;
          (out, st) = shake256_inc_squeeze (outlen - rmd) st
      in if rmd \<noteq> 0
         then let (tmp, st) = shake256_inc_squeeze bsize st in (out @ take rmd tmp, st)
         else (out, st))"

section \<open>Vectors\<close>

text \<open>The inner loop: draw 24 bits until they are below the threshold.\<close>

partial_function (option) draw_position ::
  "nat \<Rightarrow> u8 list \<Rightarrow> nat \<Rightarrow> u64 list \<Rightarrow> (u32 \<times> u8 list \<times> nat \<times> u64 list) option" where
  "draw_position random_bytes_size rand_bytes j ctx =
     (let (rand_bytes, j, ctx) =
            (if j = random_bytes_size
             then let (bs, ctx) = seedexpander ctx random_bytes_size in (memcpy_at rand_bytes 0 bs, 0, ctx)
             else (rand_bytes, j, ctx));
          s = push_bit 16 (ucast (rand_bytes ! j)) OR push_bit 8 (ucast (rand_bytes ! (j + 1))) OR ucast (rand_bytes ! (j + 2));
          j = j + 3
      in if UTILS_REJECTION_THRESHOLD \<le> s then draw_position random_bytes_size rand_bytes j ctx
         else Some (s, rand_bytes, j, ctx))"

text \<open>The outer loop: positions that were drawn before are drawn again.\<close>

partial_function (option) draw_support ::
  "nat \<Rightarrow> nat \<Rightarrow> u32 list \<Rightarrow> u8 list \<Rightarrow> nat \<Rightarrow> u64 list \<Rightarrow> (u32 list \<times> u64 list) option" where
  "draw_support weight i support rand_bytes j ctx =
     (if i < weight
      then Option.bind (draw_position (3 * weight) rand_bytes j ctx)
             (\<lambda>(s, rand_bytes, j, ctx).
                let s = s mod of_nat PARAM_N;
                    support = support[i := s];
                    inc = (if list_ex (\<lambda>k. support ! k = support ! i) [0..<i] then 0 else 1)
                in draw_support weight (i + inc) support rand_bytes j ctx)
      else Some (support, ctx))"

text \<open>Setting the bits of the positions without a branch on them.\<close>

definition support_word :: "u32 list \<Rightarrow> nat \<Rightarrow> nat \<Rightarrow> u64" where
  "support_word support weight i =
     fold (\<lambda>j val. let index_tab = drop_bit 6 (support ! j);
                       pos = support ! j AND 0x3f;
                       bit_tab = push_bit (unat pos) 1;
                       tmp = of_nat i - index_tab;
                       val1 = 1 XOR drop_bit 31 (tmp OR - tmp);
                       mask = - ucast val1
                   in val OR (bit_tab AND mask)) [0..<weight] 0"

definition support_vector :: "u32 list \<Rightarrow> nat \<Rightarrow> u64 list \<Rightarrow> u64 list" where
  "support_vector support weight v = map (\<lambda>i. v ! i OR support_word support weight i) [0..<VEC_N_SIZE_64]"

definition vect_set_random_fixed_weight :: "u64 list \<Rightarrow> u64 list \<Rightarrow> nat \<Rightarrow> (u64 list \<times> u64 list) option" where
  "vect_set_random_fixed_weight ctx v weight =
     Option.bind (draw_support weight 0 (replicate PARAM_OMEGA_R 0) (replicate (3 * PARAM_OMEGA_R) 0) (3 * weight) ctx)
       (\<lambda>(support, ctx). Some (support_vector support weight v, ctx))"

definition vect_set_random :: "u64 list \<Rightarrow> u64 list \<Rightarrow> u64 list \<times> u64 list" where
  "vect_set_random ctx v =
     (let (rand_bytes, ctx) = seedexpander ctx VEC_N_SIZE_BYTES;
          v = memcpy_words v rand_bytes
      in (v[VEC_N_SIZE_64 - 1 := v ! (VEC_N_SIZE_64 - 1) AND (push_bit (PARAM_N mod 64) 1 - 1)], ctx))"

definition vect_set_random_from_prng :: "u64 list \<Rightarrow> u64 list \<Rightarrow> u64 list \<times> u64 list" where
  "vect_set_random_from_prng v prng =
     (let (rand_bytes, prng) = shake_prng VEC_K_SIZE_BYTES prng in (memcpy_words v rand_bytes, prng))"

definition vect_add :: "u64 list \<Rightarrow> u64 list \<Rightarrow> nat \<Rightarrow> u64 list" where
  "vect_add v1 v2 n = map (\<lambda>i. v1 ! i XOR v2 ! i) [0..<n]"

definition vect_compare :: "u8 list \<Rightarrow> u8 list \<Rightarrow> nat \<Rightarrow> u8" where
  "vect_compare v1 v2 n =
     (let r = fold (\<lambda>i r. r OR ucast (v1 ! i XOR v2 ! i)) [0..<n] 0;
          r = drop_bit 63 (NOT r + 1) :: u64
      in ucast r)"

definition vect_resize :: "u64 list \<Rightarrow> nat \<Rightarrow> u64 list \<Rightarrow> nat \<Rightarrow> u64 list" where
  "vect_resize out size_o v size_v =
     (if size_o < size_v
      then
        let val = (if size_o mod 64 \<noteq> 0 then 64 - size_o mod 64 else 0);
            out = memcpy_words out (take VEC_N1N2_SIZE_BYTES (word_bytes v))
        in fold (\<lambda>i out. out[VEC_N1N2_SIZE_64 - 1 := out ! (VEC_N1N2_SIZE_64 - 1) AND drop_bit i 0x7FFFFFFFFFFFFFFF]) [0..<val] out
      else memcpy_words out (take (size_v div 8 + (if size_v mod 8 = 0 then 0 else 1)) (word_bytes v)))"

section \<open>Byte formats\<close>

definition hqc_secret_key_to_string :: "u8 list \<Rightarrow> u8 list \<Rightarrow> u8 list \<Rightarrow> u8 list" where
  "hqc_secret_key_to_string sk sk_seed pk =
     memcpy_at (memcpy_at sk 0 (take SEED_BYTES sk_seed)) SEED_BYTES (take PUBLIC_KEY_BYTES pk)"

definition hqc_secret_key_from_string ::
  "u64 list \<Rightarrow> u64 list \<Rightarrow> u8 list \<Rightarrow> (u64 list \<times> u64 list \<times> u8 list) option" where
  "hqc_secret_key_from_string x y sk =
     (let sk_seedexpander = seedexpander_init (take SEED_BYTES sk)
      in Option.bind (vect_set_random_fixed_weight sk_seedexpander x PARAM_OMEGA)
           (\<lambda>(x, sk_seedexpander).
              Option.bind (vect_set_random_fixed_weight sk_seedexpander y PARAM_OMEGA)
                (\<lambda>(y, sk_seedexpander). Some (x, y, take PUBLIC_KEY_BYTES (drop SEED_BYTES sk)))))"

definition hqc_public_key_to_string :: "u8 list \<Rightarrow> u8 list \<Rightarrow> u64 list \<Rightarrow> u8 list" where
  "hqc_public_key_to_string pk pk_seed s =
     memcpy_at (memcpy_at pk 0 (take SEED_BYTES pk_seed)) SEED_BYTES (take VEC_N_SIZE_BYTES (word_bytes s))"

definition hqc_public_key_from_string :: "u64 list \<Rightarrow> u64 list \<Rightarrow> u8 list \<Rightarrow> u64 list \<times> u64 list" where
  "hqc_public_key_from_string h s pk =
     (let (h, pk_seedexpander) = vect_set_random (seedexpander_init (take SEED_BYTES pk)) h
      in (h, memcpy_words s (take VEC_N_SIZE_BYTES (drop SEED_BYTES pk))))"

definition hqc_ciphertext_to_string :: "u8 list \<Rightarrow> u64 list \<Rightarrow> u64 list \<Rightarrow> u8 list \<Rightarrow> u8 list" where
  "hqc_ciphertext_to_string ct u v d =
     (let ct = memcpy_at ct 0 (take VEC_N_SIZE_BYTES (word_bytes u));
          ct = memcpy_at ct VEC_N_SIZE_BYTES (take VEC_N1N2_SIZE_BYTES (word_bytes v))
      in memcpy_at ct (VEC_N_SIZE_BYTES + VEC_N1N2_SIZE_BYTES) (take SHAKE256_512_BYTES d))"

definition hqc_ciphertext_from_string :: "u64 list \<Rightarrow> u64 list \<Rightarrow> u8 list \<Rightarrow> u8 list \<Rightarrow> u64 list \<times> u64 list \<times> u8 list" where
  "hqc_ciphertext_from_string u v d ct =
     (memcpy_words u (take VEC_N_SIZE_BYTES ct),
      memcpy_words v (take VEC_N1N2_SIZE_BYTES (drop VEC_N_SIZE_BYTES ct)),
      memcpy_at d 0 (take SHAKE256_512_BYTES (drop (VEC_N_SIZE_BYTES + VEC_N1N2_SIZE_BYTES) ct)))"

end
