(* ===== verification/Reed_Solomon.thy ===== *)
theory Reed_Solomon
  imports Fft Hqc_Vector
begin

text \<open>
  The shortened Reed-Solomon code of \<open>src/reed_solomon.c\<close> of the HQC-128 implementation, with the tables of
  \<open>reed_solomon.h\<close> and \<open>parameters.h\<close>: 16 bytes of message, 46 bytes of code word, 15 errors.  The lines
  that print intermediate values are left out.
\<close>

section \<open>Tables\<close>

abbreviation (input) PARAM_K :: nat where "PARAM_K \<equiv> 16"
abbreviation (input) PARAM_G :: nat where "PARAM_G \<equiv> 31"
abbreviation (input) PARAM_DELTA :: nat where "PARAM_DELTA \<equiv> 15"

definition RS_POLY_COEFS :: "u16 list" where
  "RS_POLY_COEFS = [89, 69, 153, 116, 176, 117, 111, 75, 73, 233, 242, 233, 65, 210, 21, 139, 103, 173, 67, 118, 105,
     210, 174, 110, 74, 69, 228, 82, 255, 181, 1]"

definition alpha_ij_pow :: "u16 list list" where
  "alpha_ij_pow = [
     [2, 4, 8, 16, 32, 64, 128, 29, 58, 116, 232, 205, 135, 19, 38, 76, 152, 45, 90, 180, 117, 234, 201,
      143, 3, 6, 12, 24, 48, 96, 192, 157, 39, 78, 156, 37, 74, 148, 53, 106, 212, 181, 119, 238, 193],
     [4, 16, 64, 29, 116, 205, 19, 76, 45, 180, 234, 143, 6, 24, 96, 157, 78, 37, 148, 106, 181, 238, 159,
      70, 5, 20, 80, 93, 105, 185, 222, 95, 97, 153, 94, 101, 137, 30, 120, 253, 211, 107, 177, 254, 223],
     [8, 64, 58, 205, 38, 45, 117, 143, 12, 96, 39, 37, 53, 181, 193, 70, 10, 80, 186, 185, 161, 97, 47,
      101, 15, 120, 231, 107, 127, 223, 182, 217, 134, 68, 26, 208, 206, 62, 237, 59, 197, 102, 23, 184, 169],
     [16, 29, 205, 76, 180, 143, 24, 157, 37, 106, 238, 70, 20, 93, 185, 95, 153, 101, 30, 253, 107, 254, 91,
      217, 17, 13, 208, 129, 248, 59, 151, 133, 184, 79, 132, 168, 82, 73, 228, 230, 198, 252, 123, 227, 150],
     [32, 116, 38, 180, 3, 96, 156, 106, 193, 5, 160, 185, 190, 94, 15, 253, 214, 223, 226, 17, 26, 103, 124,
      59, 51, 46, 169, 132, 77, 85, 114, 230, 145, 215, 255, 150, 55, 174, 100, 28, 167, 89, 239, 172, 36],
     [64, 205, 45, 143, 96, 37, 181, 70, 80, 185, 97, 101, 120, 107, 223, 217, 68, 208, 62, 59, 102, 184, 33,
      168, 85, 228, 191, 252, 241, 150, 110, 130, 7, 221, 89, 195, 138, 61, 251, 44, 207, 173, 8, 58, 38],
     [128, 19, 117, 24, 156, 181, 140, 93, 161, 94, 60, 107, 163, 67, 26, 129, 147, 102, 109, 132, 41, 57, 209,
      252, 255, 98, 87, 200, 224, 89, 155, 18, 245, 11, 233, 173, 16, 232, 45, 3, 157, 53, 159, 40, 185],
     [29, 76, 143, 157, 106, 70, 93, 95, 101, 253, 254, 217, 13, 129, 59, 133, 79, 168, 73, 230, 252, 227, 149,
      130, 28, 81, 195, 18, 247, 44, 27, 2, 58, 152, 3, 39, 212, 140, 186, 190, 202, 231, 225, 175, 26],
     [58, 45, 12, 37, 193, 80, 161, 101, 231, 223, 134, 208, 237, 102, 169, 168, 146, 191, 179, 150, 87, 7, 166,
      195, 36, 251, 125, 173, 64, 38, 143, 39, 181, 10, 185, 47, 120, 127, 217, 26, 62, 197, 184, 21, 85],
     [116, 180, 96, 106, 5, 185, 94, 253, 223, 17, 103, 59, 46, 132, 85, 230, 215, 150, 174, 28, 89, 172, 244,
      44, 108, 32, 38, 3, 156, 193, 160, 190, 15, 214, 226, 26, 124, 51, 169, 77, 114, 145, 255, 55, 100],
     [232, 234, 39, 238, 160, 97, 60, 254, 134, 103, 118, 184, 84, 57, 145, 227, 220, 7, 162, 172, 245, 176, 71,
      58, 180, 192, 181, 40, 95, 15, 177, 175, 208, 147, 46, 21, 73, 99, 241, 55, 200, 166, 43, 122, 44],
     [205, 143, 37, 70, 185, 101, 107, 217, 208, 59, 184, 168, 228, 252, 150, 130, 221, 195, 61, 44, 173, 58, 117,
      39, 193, 186, 47, 231, 182, 26, 237, 23, 21, 146, 145, 219, 87, 56, 242, 36, 139, 54, 64, 45, 96],
     [135, 6, 53, 20, 190, 120, 163, 13, 237, 46, 84, 228, 229, 98, 100, 81, 69, 251, 131, 32, 45, 192, 238,
      186, 94, 187, 217, 189, 236, 169, 82, 209, 241, 220, 28, 242, 72, 22, 173, 116, 201, 37, 140, 222, 15],
     [19, 24, 181, 93, 94, 107, 67, 129, 102, 132, 57, 252, 98, 200, 89, 18, 11, 173, 232, 3, 53, 40, 194,
      231, 226, 189, 197, 158, 170, 145, 75, 25, 166, 69, 235, 54, 29, 234, 37, 5, 95, 120, 91, 52, 59],
     [38, 96, 193, 185, 15, 223, 26, 59, 169, 85, 145, 150, 100, 89, 36, 44, 1, 38, 96, 193, 185, 15, 223,
      26, 59, 169, 85, 145, 150, 100, 89, 36, 44, 1, 38, 96, 193, 185, 15, 223, 26, 59, 169, 85, 145],
     [76, 157, 70, 95, 253, 217, 129, 133, 168, 230, 227, 130, 81, 18, 44, 2, 152, 39, 140, 190, 231, 175, 31,
      23, 77, 209, 219, 25, 162, 36, 88, 4, 45, 78, 5, 97, 211, 67, 62, 46, 154, 191, 171, 50, 89],
     [152, 78, 10, 153, 214, 68, 147, 79, 146, 215, 220, 221, 69, 11, 1, 152, 78, 10, 153, 214, 68, 147, 79,
      146, 215, 220, 221, 69, 11, 1, 152, 78, 10, 153, 214, 68, 147, 79, 146, 215, 220, 221, 69, 11, 1],
     [45, 37, 80, 101, 223, 208, 102, 168, 191, 150, 7, 195, 251, 173, 38, 39, 10, 47, 127, 26, 197, 21, 115,
      219, 100, 242, 245, 54, 205, 96, 70, 97, 107, 68, 59, 33, 228, 241, 130, 89, 61, 207, 58, 12, 193],
     [90, 148, 186, 30, 226, 62, 109, 73, 179, 174, 162, 61, 131, 232, 96, 140, 153, 127, 52, 51, 168, 99, 98,
      56, 172, 22, 8, 234, 212, 185, 240, 67, 237, 79, 114, 241, 25, 121, 245, 108, 19, 39, 20, 188, 223],
     [180, 106, 185, 253, 17, 59, 132, 230, 150, 28, 172, 44, 32, 3, 193, 190, 214, 26, 51, 77, 145, 55, 167,
      36, 233, 116, 96, 5, 94, 223, 103, 46, 85, 215, 174, 89, 244, 108, 38, 156, 160, 15, 226, 124, 169],
     [117, 181, 161, 107, 26, 102, 41, 252, 87, 89, 245, 173, 45, 53, 185, 231, 68, 197, 168, 145, 110, 166, 61,
      54, 38, 37, 186, 120, 134, 59, 21, 191, 196, 221, 36, 207, 205, 39, 80, 15, 217, 237, 33, 115, 150],
     [234, 238, 97, 254, 103, 184, 57, 227, 7, 172, 176, 58, 192, 40, 15, 175, 147, 21, 99, 55, 166, 122, 216,
      45, 106, 222, 107, 52, 133, 85, 123, 50, 195, 11, 32, 12, 140, 188, 182, 124, 158, 115, 49, 224, 36],
     [201, 159, 47, 91, 124, 33, 209, 149, 166, 244, 71, 117, 238, 194, 223, 31, 79, 115, 98, 167, 61, 216, 90,
      181, 190, 254, 206, 218, 213, 150, 224, 72, 54, 152, 106, 161, 177, 189, 184, 114, 171, 56, 18, 131, 38],
     [143, 70, 101, 217, 59, 168, 252, 130, 195, 44, 58, 39, 186, 231, 26, 23, 146, 219, 56, 36, 54, 45, 181,
      97, 223, 62, 33, 191, 110, 89, 251, 8, 12, 10, 15, 134, 197, 41, 179, 100, 86, 125, 205, 37, 185],
     [3, 5, 15, 17, 51, 85, 255, 28, 36, 108, 180, 193, 94, 226, 59, 77, 215, 100, 172, 233, 38, 106, 190,
      223, 124, 132, 145, 174, 239, 44, 116, 156, 185, 214, 103, 169, 230, 55, 89, 235, 32, 96, 160, 253, 26],
     [6, 20, 120, 13, 46, 228, 98, 81, 251, 32, 192, 186, 187, 189, 169, 209, 220, 242, 22, 116, 37, 222, 254,
      62, 132, 63, 130, 43, 250, 38, 212, 194, 182, 147, 77, 179, 141, 9, 54, 180, 159, 101, 67, 151, 85],
     [12, 80, 231, 208, 169, 191, 87, 195, 125, 38, 181, 47, 217, 197, 85, 219, 221, 245, 8, 96, 186, 107, 206,
      33, 145, 130, 86, 207, 45, 193, 101, 134, 102, 146, 150, 166, 251, 64, 39, 185, 127, 62, 21, 252, 100],
     [24, 93, 107, 129, 132, 252, 200, 18, 173, 3, 40, 231, 189, 158, 145, 25, 69, 54, 234, 5, 120, 52, 218,
      191, 174, 43, 207, 90, 35, 15, 136, 92, 115, 220, 239, 125, 76, 238, 101, 17, 133, 228, 149, 121, 44],
     [48, 105, 127, 248, 77, 241, 224, 247, 64, 156, 95, 182, 236, 170, 150, 162, 11, 205, 212, 94, 134, 133, 213,
      110, 239, 250, 45, 35, 30, 26, 218, 99, 130, 69, 108, 143, 40, 211, 206, 132, 229, 7, 144, 2, 96],
     [96, 185, 223, 59, 85, 150, 89, 44, 38, 193, 15, 26, 169, 145, 100, 36, 1, 96, 185, 223, 59, 85, 150,
      89, 44, 38, 193, 15, 26, 169, 145, 100, 36, 1, 96, 185, 223, 59, 85, 150, 89, 44, 38, 193, 15]]"

section \<open>The encoder\<close>

definition rs_mod :: "u16 \<Rightarrow> u16 \<Rightarrow> u16" where
  "rs_mod i md =
     (let tmp = i - md;
          mask = - drop_bit 15 tmp
      in tmp + (mask AND md))"

definition compute_generator_poly :: "u16 list \<Rightarrow> u16 list" where
  "compute_generator_poly poly =
     fst (fold (\<lambda>i (poly, tmp_degree).
         let poly = fold (\<lambda>j poly. poly[j := gf_exp ! unat (rs_mod (gf_log ! unat (poly ! j) + of_nat i) (of_nat PARAM_GF_MUL_ORDER)) XOR poly ! (j - 1)])
                      (rev [1..<tmp_degree + 1]) poly;
             poly = poly[0 := gf_exp ! unat (rs_mod (gf_log ! unat (poly ! 0) + of_nat i) (of_nat PARAM_GF_MUL_ORDER))]
         in (poly[tmp_degree + 1 := 1], tmp_degree + 1))
       [1..<2 * PARAM_DELTA + 1] (poly[0 := 1], 0))"

text \<open>One stage of the shift register, for a byte of the message.\<close>

definition rs_shift :: "u8 \<Rightarrow> u8 list \<Rightarrow> u8 list" where
  "rs_shift msg_byte cdw_bytes =
     (let gate_value = msg_byte XOR cdw_bytes ! (PARAM_N1 - PARAM_K - 1);
          tmp = map (\<lambda>j. gf_mul (ucast gate_value) (RS_POLY_COEFS ! j)) [0..<PARAM_G];
          cdw_bytes = fold (\<lambda>k cdw_bytes. cdw_bytes[k := cdw_bytes ! (k - 1) XOR ucast (tmp ! k)]) (rev [1..<PARAM_N1 - PARAM_K]) cdw_bytes
      in cdw_bytes[0 := ucast (tmp ! 0)])"

definition reed_solomon_encode :: "u64 list \<Rightarrow> u64 list \<Rightarrow> u64 list" where
  "reed_solomon_encode cdw msg =
     (let msg_bytes = take PARAM_K (word_bytes msg);
          cdw_bytes = fold (\<lambda>i. rs_shift (msg_bytes ! (PARAM_K - 1 - i))) [0..<PARAM_K] (replicate PARAM_N1 0);
          cdw_bytes = memcpy_at cdw_bytes (PARAM_N1 - PARAM_K) msg_bytes
      in memcpy_words cdw cdw_bytes)"

section \<open>The decoder\<close>

definition compute_syndromes :: "u16 list \<Rightarrow> u8 list \<Rightarrow> u16 list" where
  "compute_syndromes syndromes cdw =
     fold (\<lambda>i syndromes.
         let syndromes = fold (\<lambda>j syndromes. syndromes[i := syndromes ! i XOR gf_mul (ucast (cdw ! j)) (alpha_ij_pow ! i ! (j - 1))])
                           [1..<PARAM_N1] syndromes
         in syndromes[i := syndromes ! i XOR ucast (cdw ! 0)])
       [0..<2 * PARAM_DELTA] syndromes"

text \<open>The variables of \<open>compute_elp\<close>.\<close>

record elp_state =
  sigma :: "u16 list"
  deg_sigma :: u16
  deg_sigma_p :: u16
  deg_sigma_copy :: u16
  sigma_copy :: "u16 list"
  X_sigma_p :: "u16 list"
  elp_pp :: u16
  d_p :: u16
  elp_d :: u16
  mask12 :: u16

definition elp_init :: "u16 list \<Rightarrow> u16 list \<Rightarrow> elp_state" where
  "elp_init sig syndromes =
     \<lparr>sigma = sig[0 := 1], deg_sigma = 0, deg_sigma_p = 0, deg_sigma_copy = 0,
      sigma_copy = replicate (PARAM_DELTA + 1) 0, X_sigma_p = (replicate (PARAM_DELTA + 1) 0)[1 := 1],
      elp_pp = - 1, d_p = 1, elp_d = syndromes ! 0, mask12 = 0\<rparr>"

text \<open>The part of the loop body before the \<open>break\<close>, and the part after it.\<close>

definition elp_update :: "nat \<Rightarrow> elp_state \<Rightarrow> elp_state" where
  "elp_update mu s =
     (let s = s\<lparr>sigma_copy := memcpy_at (sigma_copy s) 0 (take PARAM_DELTA (sigma s)), deg_sigma_copy := deg_sigma s\<rparr>;
          dd = gf_mul (elp_d s) (gf_inverse (d_p s));
          s = s\<lparr>sigma := fold (\<lambda>i sig. sig[i := sig ! i XOR gf_mul dd (X_sigma_p s ! i)]) [1..<Suc (min (mu + 1) PARAM_DELTA)] (sigma s)\<rparr>;
          deg_X = of_nat mu - elp_pp s;
          deg_X_sigma_p = deg_X + deg_sigma_p s;
          mask1 = - drop_bit 15 (- elp_d s);
          mask2 = - drop_bit 15 (deg_sigma s - deg_X_sigma_p);
          m12 = mask1 AND mask2
      in s\<lparr>mask12 := m12, deg_sigma := deg_sigma s XOR (m12 AND (deg_X_sigma_p XOR deg_sigma s))\<rparr>)"

definition elp_next :: "u16 list \<Rightarrow> nat \<Rightarrow> elp_state \<Rightarrow> elp_state" where
  "elp_next syndromes mu s =
     (let m12 = mask12 s;
          s = s\<lparr>elp_pp := elp_pp s XOR (m12 AND (of_nat mu XOR elp_pp s))\<rparr>;
          s = s\<lparr>d_p := d_p s XOR (m12 AND (elp_d s XOR d_p s))\<rparr>;
          s = s\<lparr>X_sigma_p := fold (\<lambda>i X. X[i := (m12 AND sigma_copy s ! (i - 1)) XOR (NOT m12 AND X ! (i - 1))])
                               (rev [1..<PARAM_DELTA + 1]) (X_sigma_p s)\<rparr>;
          s = s\<lparr>deg_sigma_p := deg_sigma_p s XOR (m12 AND (deg_sigma_copy s XOR deg_sigma_p s))\<rparr>;
          dsc = fold (\<lambda>i d. d XOR gf_mul (sigma s ! i) (syndromes ! (mu + 1 - i))) [1..<Suc (min (mu + 1) PARAM_DELTA)] (syndromes ! (mu + 1))
      in s\<lparr>elp_d := dsc\<rparr>)"

definition elp_step :: "u16 list \<Rightarrow> nat \<Rightarrow> elp_state \<Rightarrow> elp_state" where
  "elp_step syndromes mu s =
     (let s = elp_update mu s in if mu = 2 * PARAM_DELTA - 1 then s else elp_next syndromes mu s)"

definition compute_elp :: "u16 list \<Rightarrow> u16 list \<Rightarrow> u16 list \<times> u16" where
  "compute_elp sig syndromes =
     (let s = fold (elp_step syndromes) [0..<2 * PARAM_DELTA] (elp_init sig syndromes) in (sigma s, deg_sigma s))"

definition compute_roots :: "u8 list \<Rightarrow> u16 list \<Rightarrow> u8 list" where
  "compute_roots error sig =
     (let w = fft (replicate (2 ^ PARAM_M) 0) sig (PARAM_DELTA + 1) in fft_retrieve_error_poly error w)"

definition z_mask :: "nat \<Rightarrow> u16 \<Rightarrow> u16" where
  "z_mask i degree = - drop_bit 15 (of_nat i - degree - 1)"

definition compute_z_poly :: "u16 list \<Rightarrow> u16 list \<Rightarrow> u16 \<Rightarrow> u16 list \<Rightarrow> u16 list" where
  "compute_z_poly z sig degree syndromes =
     (let z = z[0 := 1];
          z = fold (\<lambda>i z. z[i := z_mask i degree AND sig ! i]) [1..<PARAM_DELTA + 1] z;
          z = z[1 := z ! 1 XOR syndromes ! 0]
      in fold (\<lambda>i z.
             let z = z[i := z ! i XOR (z_mask i degree AND syndromes ! (i - 1))]
             in fold (\<lambda>j z. z[i := z ! i XOR (z_mask i degree AND gf_mul (sig ! j) (syndromes ! (i - j - 1)))]) [1..<i] z)
           [2..<Suc PARAM_DELTA] z)"

text \<open>The masks of \<open>compute_error_values\<close>: an error at a position, and the place it has among the errors.\<close>

definition error_mask :: "u8 \<Rightarrow> u16" where
  "error_mask e = word_of_int (drop_bit 31 (- uint e))"

definition place_mask :: "nat \<Rightarrow> u16 \<Rightarrow> u16" where
  "place_mask j delta_counter = NOT (word_of_int (drop_bit 31 (- (int j XOR uint delta_counter))))"

text \<open>The three loops of \<open>compute_error_values\<close>: the locators of the errors, one error value, and the values at their positions.\<close>

definition find_betas :: "u8 list \<Rightarrow> u16 list \<Rightarrow> u16 list \<times> u16" where
  "find_betas error beta_j =
     fold (\<lambda>i (beta_j, delta_counter).
         let mask1 = error_mask (error ! i);
             (beta_j, found) = fold (\<lambda>j (beta_j, found).
                  let mask2 = place_mask j delta_counter
                  in (beta_j[j := beta_j ! j + (mask1 AND mask2 AND gf_exp ! i)], found + (mask1 AND mask2 AND 1)))
                [0..<PARAM_DELTA] (beta_j, 0)
         in (beta_j, delta_counter + found)) [0..<PARAM_N1] (beta_j, 0)"

definition error_value :: "u16 list \<Rightarrow> u16 list \<Rightarrow> u16 \<Rightarrow> nat \<Rightarrow> u16" where
  "error_value z beta_j delta_real_value i =
     (let inv = gf_inverse (beta_j ! i);
          (inverse_power_j, tmp1) = fold (\<lambda>j (inverse_power_j, tmp1).
                let inverse_power_j = gf_mul inverse_power_j inv in (inverse_power_j, tmp1 XOR gf_mul inverse_power_j (z ! j)))
              [1..<Suc PARAM_DELTA] (1, 1);
          tmp2 = fold (\<lambda>k tmp2. gf_mul tmp2 (1 XOR gf_mul inv (beta_j ! ((i + k) mod PARAM_DELTA)))) [1..<PARAM_DELTA] 1;
          mask1 = word_of_int (drop_bit 15 (int i - uint delta_real_value))
      in mask1 AND gf_mul tmp1 (gf_inverse tmp2))"

definition place_values :: "u16 list \<Rightarrow> u8 list \<Rightarrow> u16 list \<Rightarrow> u16 list" where
  "place_values error_values error e_j =
     fst (fold (\<lambda>i (error_values, delta_counter).
         let mask1 = error_mask (error ! i);
             (error_values, found) = fold (\<lambda>j (error_values, found).
                  let mask2 = place_mask j delta_counter
                  in (error_values[i := error_values ! i + (mask1 AND mask2 AND e_j ! j)], found + (mask1 AND mask2 AND 1)))
                [0..<PARAM_DELTA] (error_values, 0)
         in (error_values, delta_counter + found)) [0..<PARAM_N1] (error_values, 0))"

definition compute_error_values :: "u16 list \<Rightarrow> u16 list \<Rightarrow> u8 list \<Rightarrow> u16 list" where
  "compute_error_values error_values z error =
     (let (beta_j, delta_real_value) = find_betas error (replicate PARAM_DELTA 0);
          e_j = fold (\<lambda>i e_j. e_j[i := error_value z beta_j delta_real_value i]) [0..<PARAM_DELTA] (replicate PARAM_DELTA 0)
      in place_values error_values error e_j)"

definition correct_errors :: "u8 list \<Rightarrow> u16 list \<Rightarrow> u8 list" where
  "correct_errors cdw error_values = fold (\<lambda>i cdw. cdw[i := cdw ! i XOR ucast (error_values ! i)]) [0..<PARAM_N1] cdw"

definition reed_solomon_decode :: "u64 list \<Rightarrow> u64 list \<Rightarrow> u64 list" where
  "reed_solomon_decode msg cdw =
     (let cdw_bytes = take PARAM_N1 (word_bytes cdw);
          syndromes = compute_syndromes (replicate (2 * PARAM_DELTA) 0) cdw_bytes;
          (sig, deg) = compute_elp (replicate (2 ^ PARAM_FFT) 0) syndromes;
          error = compute_roots (replicate (2 ^ PARAM_M) 0) sig;
          z = compute_z_poly (replicate PARAM_N1 0) sig deg syndromes;
          error_values = compute_error_values (replicate PARAM_N1 0) z error;
          cdw_bytes = correct_errors cdw_bytes error_values
      in memcpy_words msg (take PARAM_K (drop (PARAM_G - 1) cdw_bytes)))"

end
