(* ===== verification/Reed_Muller.thy ===== *)
theory Reed_Muller
  imports Hqc_Vector
begin

text \<open>
  The duplicated Reed-Muller code of \<open>src/reed_muller.c\<close> of the HQC-128 implementation: a byte becomes three
  copies of a word of 128 bits, and the decoder finds the peak of a Hadamard transform.  The 16-bit integers
  of the transform are integers here; their range is shown to fit.
\<close>

section \<open>The code\<close>

abbreviation (input) MULTIPLICITY :: nat where "MULTIPLICITY \<equiv> 3"

definition BIT0MASK :: "u32 \<Rightarrow> u32" where
  "BIT0MASK x = - (x AND 1)"

text \<open>The four words of a code word.\<close>

definition rm_encode :: "u32 \<Rightarrow> u32 list" where
  "rm_encode message =
     (let first_word = BIT0MASK (drop_bit 7 message);
          first_word = first_word XOR (BIT0MASK (drop_bit 0 message) AND 0xaaaaaaaa);
          first_word = first_word XOR (BIT0MASK (drop_bit 1 message) AND 0xcccccccc);
          first_word = first_word XOR (BIT0MASK (drop_bit 2 message) AND 0xf0f0f0f0);
          first_word = first_word XOR (BIT0MASK (drop_bit 3 message) AND 0xff00ff00);
          first_word = first_word XOR (BIT0MASK (drop_bit 4 message) AND 0xffff0000);
          w0 = first_word;
          first_word = first_word XOR BIT0MASK (drop_bit 5 message);
          w1 = first_word;
          first_word = first_word XOR BIT0MASK (drop_bit 6 message);
          w3 = first_word;
          first_word = first_word XOR BIT0MASK (drop_bit 5 message);
          w2 = first_word
      in [w0, w1, w2, w3])"

text \<open>One pass of the transform, from one array into the other.\<close>

definition hadamard_pass :: "int list \<Rightarrow> int list" where
  "hadamard_pass p1 =
     map (\<lambda>i. if i < 64 then p1 ! (2 * i) + p1 ! (2 * i + 1) else p1 ! (2 * (i - 64)) - p1 ! (2 * (i - 64) + 1)) [0..<128]"

definition hadamard :: "int list \<Rightarrow> int list" where
  "hadamard src = (hadamard_pass ^^ 7) src"

definition expand_and_sum :: "u32 list \<Rightarrow> int list" where
  "expand_and_sum src =
     fold (\<lambda>copy dest. map (\<lambda>k. dest ! k + uint (drop_bit (k mod 32) (src ! (4 * copy + k div 32)) AND 1)) [0..<128])
       [1..<MULTIPLICITY] (map (\<lambda>k. uint (drop_bit (k mod 32) (src ! (k div 32)) AND 1)) [0..<128])"

text \<open>The peak of the absolute values; the state is \<open>(peak_abs_value, peak_value, peak_pos)\<close>.\<close>

definition peak_step :: "int list \<Rightarrow> nat \<Rightarrow> int \<times> int \<times> nat \<Rightarrow> int \<times> int \<times> nat" where
  "peak_step transform i = (\<lambda>(peak_abs_value, peak_value, peak_pos).
     let t = transform ! i;
         pos_mask = - of_bool (0 < t);
         absolute = (pos_mask AND t) OR (NOT pos_mask AND - t)
     in if peak_abs_value < absolute then (absolute, t, i) else (peak_abs_value, peak_value, peak_pos))"

definition find_peaks :: "int list \<Rightarrow> nat" where
  "find_peaks transform =
     (case fold (peak_step transform) [0..<128] (0, 0, 0) of
        (peak_abs_value, peak_value, peak_pos) \<Rightarrow> peak_pos OR 128 * of_bool (0 < peak_value))"

text \<open>An array of 64-bit words seen as 32-bit words, and back.\<close>

definition u32_view :: "u64 list \<Rightarrow> u32 list" where
  "u32_view ws = concat (map (\<lambda>w. [ucast w, ucast (drop_bit 32 w)]) ws)"

definition u64_view :: "u32 list \<Rightarrow> u64 list" where
  "u64_view xs = map (\<lambda>i. ucast (xs ! (2 * i)) OR push_bit 32 (ucast (xs ! (2 * i + 1)))) [0..<length xs div 2]"

definition reed_muller_encode :: "u64 list \<Rightarrow> u64 list \<Rightarrow> u64 list" where
  "reed_muller_encode cdw msg =
     (let message_array = word_bytes msg
      in u64_view (fold (\<lambda>i codeArray.
           let pos = i * MULTIPLICITY;
               codeArray = memcpy_at codeArray (4 * pos) (rm_encode (ucast (message_array ! i)))
           in fold (\<lambda>copy codeArray. memcpy_at codeArray (4 * (pos + copy)) (take 4 (drop (4 * pos) codeArray)))
                [1..<MULTIPLICITY] codeArray) [0..<PARAM_N1] (u32_view cdw)))"

text \<open>The decoding of one byte from its three code words, and the loop over the bytes.\<close>

definition rm_decode_block :: "u32 list \<Rightarrow> nat" where
  "rm_decode_block src =
     (let transform = hadamard (expand_and_sum src)
      in find_peaks (transform[0 := transform ! 0 - 64 * int MULTIPLICITY]))"

definition reed_muller_decode :: "u64 list \<Rightarrow> u64 list \<Rightarrow> u64 list" where
  "reed_muller_decode msg cdw =
     (let codeArray = u32_view cdw
      in bytes_words (fold (\<lambda>i message_array. message_array[i := of_nat (rm_decode_block (drop (4 * (i * MULTIPLICITY)) codeArray))])
           [0..<PARAM_N1] (word_bytes msg)))"

section \<open>Characters\<close>

text \<open>The sign of the scalar product of two bit vectors.\<close>

fun chi :: "nat \<Rightarrow> nat \<Rightarrow> int" where
  "chi q p = (if q = 0 then 1 else (if odd q \<and> odd p then - 1 else 1) * chi (q div 2) (p div 2))"

declare chi.simps [simp del]

lemma chi_0 [simp]: "chi 0 p = 1"
  by (simp add: chi.simps)

lemma chi_step: "chi q p = (if odd q \<and> odd p then - 1 else 1) * chi (q div 2) (p div 2)"
  by (cases "q = 0") (simp_all add: chi.simps [of q])

lemma chi_cases: "chi q p = 1 \<or> chi q p = - 1"
proof (induction q p rule: chi.induct)
  case (1 q p)
  then show ?case by (cases "q = 0") (auto simp: chi_step [of q])
qed

lemma chi_square [simp]: "chi q p * chi q p = 1"
  using chi_cases [of q p] by auto

lemma chi_mult: "chi q p * chi r p = chi (q XOR r) p"
proof (induction "q + r" arbitrary: q r p rule: less_induct)
  case less
  show ?case
  proof (cases "q + r = 0")
    case False
    then have "q div 2 + r div 2 < q + r" by linarith
    from less [OF this, of "p div 2"] show ?thesis
      unfolding chi_step [of q] chi_step [of r] chi_step [of "q XOR r"] by (auto simp: half_xor odd_xor even_xor_iff)
  qed simp
qed

lemma sum_pairs: "(\<Sum>p<2 * n. f p) = (\<Sum>p<n. f (2 * p) + f (2 * p + 1 :: nat) :: int)"
  by (induction n) (simp_all add: algebra_simps)

lemma sum_split: "(\<Sum>s<m + n. g s) = (\<Sum>s<m. g s) + (\<Sum>s<n. g (m + s :: nat) :: int)"
  by (induction n) (simp_all add: add.assoc)

lemma chi_orthogonal: "q < 2 ^ t \<Longrightarrow> (\<Sum>p<2 ^ t. chi q p) = (if q = 0 then 2 ^ t else 0)"
proof (induction t arbitrary: q)
  case (Suc t)
  have e: "chi q (2 * p) + chi q (2 * p + 1) = (if odd q then 0 else 2 * chi (q div 2) p)" for p
    by (simp add: chi_step [of q "2 * p"] chi_step [of q "Suc (2 * p)"])
  have "(\<Sum>p<2 ^ Suc t. chi q p) = (\<Sum>p<2 ^ t. chi q (2 * p) + chi q (2 * p + 1))" using sum_pairs [of "chi q" "2 ^ t"] by simp
  also have "\<dots> = (if odd q then 0 else 2 * (\<Sum>p<2 ^ t. chi (q div 2) p))" unfolding e by (simp add: sum_distrib_left)
  finally show ?case using Suc.IH [of "q div 2"] Suc.prems by (auto elim: oddE evenE)
qed simp

lemma chi_top:
  assumes "q < 2 ^ t" "s < 2 ^ t"
  shows "chi q (2 ^ t * b + s) = chi q s" and "b < 2 \<Longrightarrow> chi (2 ^ t + q) (2 ^ t * b + s) = (if b = 0 then 1 else - 1) * chi q s"
proof -
  show "chi q (2 ^ t * b + s) = chi q s"
    using assms
  proof (induction t arbitrary: q s)
    case (Suc t)
    have "(2 ^ Suc t * b + s) div 2 = 2 ^ t * b + s div 2" "odd (2 ^ Suc t * b + s) = odd s" by (simp_all add: mult.assoc)
    moreover have "chi (q div 2) (2 ^ t * b + s div 2) = chi (q div 2) (s div 2)" using Suc.prems by (intro Suc.IH) auto
    ultimately show ?case by (simp only: chi_step [of q])
  qed simp
  show "chi (2 ^ t + q) (2 ^ t * b + s) = (if b = 0 then 1 else - 1) * chi q s" if "b < 2"
    using assms
  proof (induction t arbitrary: q s)
    case 0
    then show ?case using that by (auto simp: chi.simps less_Suc_eq numeral_2_eq_2)
  next
    case (Suc t)
    have "(2 ^ Suc t * b + s) div 2 = 2 ^ t * b + s div 2" "odd (2 ^ Suc t * b + s) = odd s"
      "(2 ^ Suc t + q) div 2 = 2 ^ t + q div 2" "odd (2 ^ Suc t + q) = odd q" by (simp_all add: mult.assoc)
    moreover have "chi (2 ^ t + q div 2) (2 ^ t * b + s div 2) = (if b = 0 then 1 else - 1) * chi (q div 2) (s div 2)"
      using Suc.prems by (intro Suc.IH) auto
    ultimately show ?case by (simp only: chi_step [of "2 ^ Suc t + q"] chi_step [of q]) simp
  qed
qed

section \<open>The transform\<close>

lemma hadamard_pass_length [simp]: "length (hadamard_pass p) = 128"
  by (simp add: hadamard_pass_def)

lemma hadamard_passes:
  assumes "t \<le> 7" "q < 2 ^ t" "x < 2 ^ (7 - t)" "length f = 128"
  shows "(hadamard_pass ^^ t) f ! (2 ^ (7 - t) * q + x) = (\<Sum>s<2 ^ t. chi q s * f ! (2 ^ t * x + s))"
  using assms(1-3)
proof (induction t arbitrary: q x)
  case 0
  then show ?case by (simp add: lessThan_Suc)
next
  case (Suc t)
  define r where "r = q mod 2 ^ t"
  define b where "b = q div 2 ^ t"
  have q: "q = 2 ^ t * b + r" "r < 2 ^ t" by (simp_all add: r_def b_def)
  have b: "b < 2" using Suc.prems(2) by (simp add: b_def less_mult_imp_div_less)
  then have "b = 0 \<or> b = 1" by linarith
  have e: "(2::nat) ^ (7 - t) = 2 * 2 ^ (6 - t)" using Suc.prems(1) by (simp flip: power_Suc add: Suc_diff_le)
  have e6: "(2::nat) ^ (6 - t) * 2 ^ t = 64" using Suc.prems(1) by (simp flip: power_add)
  define i where "i = 2 ^ (6 - t) * r + x"
  have i: "i < 64"
  proof -
    have "i < 2 ^ (6 - t) * Suc r" using Suc.prems(3) by (simp add: i_def)
    also have "\<dots> \<le> 2 ^ (6 - t) * 2 ^ t" using q(2) by (intro mult_le_mono2) simp
    finally show ?thesis using e6 by simp
  qed
  have idx: "2 ^ (7 - Suc t) * q + x = 64 * b + i" using q e6 by (simp add: i_def algebra_simps)
  have lo: "(hadamard_pass ^^ t) f ! (2 * i) = (\<Sum>s<2 ^ t. chi r s * f ! (2 ^ t * (2 * x) + s))"
    and hi: "(hadamard_pass ^^ t) f ! (2 * i + 1) = (\<Sum>s<2 ^ t. chi r s * f ! (2 ^ t * (2 * x + 1) + s))"
    using Suc.IH [of r "2 * x"] Suc.IH [of r "2 * x + 1"] Suc.prems q(2) e by (simp_all add: i_def algebra_simps)
  have "(\<Sum>s<2 ^ Suc t. chi q s * f ! (2 ^ Suc t * x + s)) =
      (\<Sum>s<2 ^ t. chi q s * f ! (2 ^ t * (2 * x) + s)) + (\<Sum>s<2 ^ t. chi q (2 ^ t + s) * f ! (2 ^ t * (2 * x + 1) + s))"
    using sum_split [of "\<lambda>s. chi q s * f ! (2 ^ Suc t * x + s)" "2 ^ t" "2 ^ t"] by (simp add: mult_2 algebra_simps)
  also have "(\<Sum>s<2 ^ t. chi q s * f ! (2 ^ t * (2 * x) + s)) = (\<Sum>s<2 ^ t. chi r s * f ! (2 ^ t * (2 * x) + s))"
  proof (rule sum.cong)
    fix s :: nat assume "s \<in> {..<2 ^ t}"
    then have s: "s < 2 ^ t" by simp
    from b consider "b = 0" | "b = 1" by linarith
    then have "chi q s = chi r s" using chi_top(2) [OF q(2) s, of 0] q(1) by cases simp_all
    then show "chi q s * f ! (2 ^ t * (2 * x) + s) = chi r s * f ! (2 ^ t * (2 * x) + s)" by simp
  qed simp
  also have "(\<Sum>s<2 ^ t. chi q (2 ^ t + s) * f ! (2 ^ t * (2 * x + 1) + s)) =
      (\<Sum>s<2 ^ t. (if b = 0 then 1 else - 1) * (chi r s * f ! (2 ^ t * (2 * x + 1) + s)))"
  proof (rule sum.cong)
    fix s :: nat assume "s \<in> {..<2 ^ t}"
    then have s: "s < 2 ^ t" by simp
    from b consider "b = 0" | "b = 1" by linarith
    then have "chi q (2 ^ t + s) = (if b = 0 then 1 else - 1) * chi r s"
      using chi_top(1) [OF q(2) s, of 1] chi_top(2) [OF q(2) s, of 1] q(1) by cases simp_all
    then show "chi q (2 ^ t + s) * f ! (2 ^ t * (2 * x + 1) + s) = (if b = 0 then 1 else - 1) * (chi r s * f ! (2 ^ t * (2 * x + 1) + s))" by simp
  qed simp
  finally have S: "(\<Sum>s<2 ^ Suc t. chi q s * f ! (2 ^ Suc t * x + s)) =
      (hadamard_pass ^^ t) f ! (2 * i) + (if b = 0 then 1 else - 1) * (hadamard_pass ^^ t) f ! (2 * i + 1)"
    unfolding lo hi sum_distrib_left [symmetric] .
  have "(hadamard_pass ^^ Suc t) f ! (64 * b + i) =
      (hadamard_pass ^^ t) f ! (2 * i) + (if b = 0 then 1 else - 1) * (hadamard_pass ^^ t) f ! (2 * i + 1)"
    using i \<open>b = 0 \<or> b = 1\<close> by (auto simp: hadamard_pass_def)
  then show ?case unfolding idx S .
qed

lemma hadamard_nth: "length f = 128 \<Longrightarrow> q < 128 \<Longrightarrow> hadamard f ! q = (\<Sum>p<128. chi q p * f ! p)"
  using hadamard_passes [of 7 q 0 f] by (simp add: hadamard_def)

lemma hadamard_length [simp]: "length (hadamard f) = 128"
  by (simp add: hadamard_def numeral_eq_Suc)

section \<open>The code words\<close>

lemma BIT0MASK_bit: "r < 32 \<Longrightarrow> bit (BIT0MASK (drop_bit k m)) r \<longleftrightarrow> bit m k"
proof -
  have "drop_bit k m AND 1 = of_bool (bit m k)"
    by (rule bit_eqI) (auto simp: bit_and_iff bit_drop_bit_eq bit_1_iff intro: Nat.gr0I)
  then show "r < 32 \<Longrightarrow> bit (BIT0MASK (drop_bit k m)) r \<longleftrightarrow> bit m k" by (simp add: BIT0MASK_def bit_minus_1_iff)
qed

lemma mask_bits:
  assumes "r < 32"
  shows "bit (0xaaaaaaaa :: u32) r \<longleftrightarrow> bit r 0" "bit (0xcccccccc :: u32) r \<longleftrightarrow> bit r 1" "bit (0xf0f0f0f0 :: u32) r \<longleftrightarrow> bit r 2"
    "bit (0xff00ff00 :: u32) r \<longleftrightarrow> bit r 3" "bit (0xffff0000 :: u32) r \<longleftrightarrow> bit r 4"
proof -
  have "list_all (\<lambda>r. (bit (0xaaaaaaaa :: u32) r \<longleftrightarrow> bit r 0) \<and> (bit (0xcccccccc :: u32) r \<longleftrightarrow> bit r 1) \<and> (bit (0xf0f0f0f0 :: u32) r \<longleftrightarrow> bit r 2) \<and>
      (bit (0xff00ff00 :: u32) r \<longleftrightarrow> bit r 3) \<and> (bit (0xffff0000 :: u32) r \<longleftrightarrow> bit r 4)) [0..<32]"
    by code_simp
  then show "bit (0xaaaaaaaa :: u32) r \<longleftrightarrow> bit r 0" "bit (0xcccccccc :: u32) r \<longleftrightarrow> bit r 1" "bit (0xf0f0f0f0 :: u32) r \<longleftrightarrow> bit r 2"
    "bit (0xff00ff00 :: u32) r \<longleftrightarrow> bit r 3" "bit (0xffff0000 :: u32) r \<longleftrightarrow> bit r 4"
    using assms by (simp_all add: list_all_iff)
qed

text \<open>Bit \<open>p\<close> of the code word of a byte, over the four words.\<close>

definition rm_bit :: "nat \<Rightarrow> nat \<Rightarrow> bool" where
  "rm_bit m p \<longleftrightarrow> bit m 7 \<noteq> (chi (take_bit 7 m) p = - 1)"

lemma chi_take_bit:
  "chi (take_bit (Suc n) (drop_bit k m)) (drop_bit k p) = - 1 \<longleftrightarrow>
     (bit m k \<and> bit p k) \<noteq> (chi (take_bit n (drop_bit (Suc k) m)) (drop_bit (Suc k) p) = - 1)"
proof -
  have half: "drop_bit k r div 2 = drop_bit (Suc k) r" for r :: nat by (simp add: drop_bit_Suc drop_bit_half)
  have low: "odd (drop_bit k r) \<longleftrightarrow> bit r k" for r :: nat by (simp add: bit_iff_odd_drop_bit)
  have "chi (take_bit (Suc n) (drop_bit k m)) (drop_bit k p) =
      (if bit m k \<and> bit p k then - 1 else 1) * chi (take_bit n (drop_bit (Suc k) m)) (drop_bit (Suc k) p)"
    by (subst chi_step) (simp add: take_bit_Suc half low)
  then show ?thesis using chi_cases [of "take_bit n (drop_bit (Suc k) m)" "drop_bit (Suc k) p"] by auto
qed

lemma chi_bits:
  "chi (take_bit 7 m) p = - 1 \<longleftrightarrow> (bit m 0 \<and> bit p 0) \<noteq> ((bit m 1 \<and> bit p 1) \<noteq> ((bit m 2 \<and> bit p 2) \<noteq> ((bit m 3 \<and> bit p 3) \<noteq>
     ((bit m 4 \<and> bit p 4) \<noteq> ((bit m 5 \<and> bit p 5) \<noteq> (bit m 6 \<and> bit p 6))))))"
  using chi_take_bit [of 6 0 m p] chi_take_bit [of 5 1 m p] chi_take_bit [of 4 2 m p] chi_take_bit [of 3 3 m p]
    chi_take_bit [of 2 4 m p] chi_take_bit [of 1 5 m p] chi_take_bit [of 0 6 m p]
  by (simp add: drop_bit_0 numeral_2_eq_2 [symmetric] del: take_bit_Suc_from_most)

end
