(* ===== verification/Hqc_Kem.thy ===== *)
theory Hqc_Kem
  imports Reed_Solomon Reed_Muller
begin

text \<open>
  The concatenated code of \<open>src/code.c\<close>, the public key encryption of \<open>src/hqc.c\<close> and the key encapsulation of \<open>src/kem.c\<close> of the HQC-128 implementation.  A call whose rejection sampling
  does not end has the value \<^const>\<open>None\<close>.  The lines under \<open>VERBOSE\<close> are left out.
\<close>

section \<open>The concatenated code\<close>

definition code_encode :: "u64 list \<Rightarrow> u64 list \<Rightarrow> u64 list" where
  "code_encode em m = (let tmp = reed_solomon_encode (replicate VEC_N1_SIZE_64 0) m in reed_muller_encode em tmp)"

definition code_decode :: "u64 list \<Rightarrow> u64 list \<Rightarrow> u64 list" where
  "code_decode m em = (let tmp = reed_muller_decode (replicate VEC_N1_SIZE_64 0) em in reed_solomon_decode m tmp)"

section \<open>Public key encryption\<close>

abbreviation (input) zero_n :: "u64 list" where "zero_n \<equiv> replicate VEC_N_SIZE_64 0"

text \<open>The arithmetic of the three operations on vectors that have been drawn.\<close>

definition pke_public :: "u64 list \<Rightarrow> u64 list \<Rightarrow> u64 list \<Rightarrow> u64 list" where
  "pke_public x y h = (let s = vect_mul y h in vect_add x s VEC_N_SIZE_64)"

definition pke_encrypt :: "u64 list \<Rightarrow> u64 list \<Rightarrow> u64 list \<Rightarrow> u64 list \<Rightarrow> u64 list \<Rightarrow> u64 list \<Rightarrow> u64 list \<Rightarrow> u64 list \<times> u64 list" where
  "pke_encrypt v m h s r1 r2 e =
     (let u = vect_mul r2 h;
          u = vect_add r1 u VEC_N_SIZE_64;
          v = code_encode v m;
          tmp1 = vect_resize zero_n PARAM_N v PARAM_N1N2;
          tmp2 = vect_mul r2 s;
          tmp2 = vect_add e tmp2 VEC_N_SIZE_64;
          tmp2 = vect_add tmp1 tmp2 VEC_N_SIZE_64;
          v = vect_resize v PARAM_N1N2 tmp2 PARAM_N
      in (u, v))"

definition pke_decrypt :: "u64 list \<Rightarrow> u64 list \<Rightarrow> u64 list \<Rightarrow> u64 list \<Rightarrow> u64 list" where
  "pke_decrypt m u v y =
     (let tmp1 = vect_resize zero_n PARAM_N v PARAM_N1N2;
          tmp2 = vect_mul y u;
          tmp2 = vect_add tmp1 tmp2 VEC_N_SIZE_64
      in code_decode m tmp2)"

definition hqc_pke_keygen :: "u8 list \<Rightarrow> u8 list \<Rightarrow> u64 list \<Rightarrow> ((u8 list \<times> u8 list) \<times> u64 list) option" where
  "hqc_pke_keygen pk sk prng =
     (let (sk_seed, prng) = shake_prng SEED_BYTES prng;
          sk_seedexpander = seedexpander_init sk_seed;
          (pk_seed, prng) = shake_prng SEED_BYTES prng;
          pk_seedexpander = seedexpander_init pk_seed
      in Option.bind (vect_set_random_fixed_weight sk_seedexpander zero_n PARAM_OMEGA) (\<lambda>(x, sk_seedexpander).
         Option.bind (vect_set_random_fixed_weight sk_seedexpander zero_n PARAM_OMEGA) (\<lambda>(y, sk_seedexpander).
         let (h, pk_seedexpander) = vect_set_random pk_seedexpander zero_n;
             s = pke_public x y h;
             pk = hqc_public_key_to_string pk pk_seed s;
             sk = hqc_secret_key_to_string sk sk_seed pk
         in Some ((pk, sk), prng))))"

definition hqc_pke_encrypt :: "u64 list \<Rightarrow> u64 list \<Rightarrow> u8 list \<Rightarrow> u8 list \<Rightarrow> (u64 list \<times> u64 list) option" where
  "hqc_pke_encrypt v m theta pk =
     (let ctx = seedexpander_init (take SEED_BYTES theta);
          (h, s) = hqc_public_key_from_string zero_n zero_n pk
      in Option.bind (vect_set_random_fixed_weight ctx zero_n PARAM_OMEGA_R) (\<lambda>(r1, ctx).
         Option.bind (vect_set_random_fixed_weight ctx zero_n PARAM_OMEGA_R) (\<lambda>(r2, ctx).
         Option.bind (vect_set_random_fixed_weight ctx zero_n PARAM_OMEGA_E) (\<lambda>(e, ctx).
         Some (pke_encrypt v m h s r1 r2 e)))))"

definition hqc_pke_decrypt :: "u64 list \<Rightarrow> u64 list \<Rightarrow> u64 list \<Rightarrow> u8 list \<Rightarrow> u64 list option" where
  "hqc_pke_decrypt m u v sk =
     Option.bind (hqc_secret_key_from_string zero_n zero_n sk) (\<lambda>(x, y, pk). Some (pke_decrypt m u v y))"

section \<open>Key encapsulation\<close>

definition G_FCT_DOMAIN :: u8 where "G_FCT_DOMAIN = 3"
definition H_FCT_DOMAIN :: u8 where "H_FCT_DOMAIN = 4"
definition K_FCT_DOMAIN :: u8 where "K_FCT_DOMAIN = 5"

text \<open>The hash of a message, and the bytes of the message with the cipher text.\<close>

definition kem_hash :: "u8 list \<Rightarrow> u8 \<Rightarrow> u8 list" where
  "kem_hash input domain = fst (shake256_512_ds input domain)"

definition kem_mc :: "u64 list \<Rightarrow> u64 list \<Rightarrow> u64 list \<Rightarrow> u8 list" where
  "kem_mc m u v =
     (let mc = replicate (VEC_K_SIZE_BYTES + VEC_N_SIZE_BYTES + VEC_N1N2_SIZE_BYTES) 0;
          mc = memcpy_at mc 0 (take VEC_K_SIZE_BYTES (word_bytes m));
          mc = memcpy_at mc VEC_K_SIZE_BYTES (take VEC_N_SIZE_BYTES (word_bytes u))
      in memcpy_at mc (VEC_K_SIZE_BYTES + VEC_N_SIZE_BYTES) (take VEC_N1N2_SIZE_BYTES (word_bytes v)))"

definition hqc_kem_keypair :: "u8 list \<Rightarrow> u8 list \<Rightarrow> u64 list \<Rightarrow> ((int \<times> u8 list \<times> u8 list) \<times> u64 list) option" where
  "hqc_kem_keypair pk sk prng =
     Option.bind (hqc_pke_keygen pk sk prng) (\<lambda>((pk, sk), prng). Some ((0, pk, sk), prng))"

definition hqc_kem_enc :: "u8 list \<Rightarrow> u8 list \<Rightarrow> u64 list \<Rightarrow> ((int \<times> u8 list \<times> u8 list) \<times> u64 list) option" where
  "hqc_kem_enc ct pk prng =
     (let (m, prng) = vect_set_random_from_prng (replicate VEC_K_SIZE_64 0) prng;
          theta = kem_hash (take VEC_K_SIZE_BYTES (word_bytes m)) G_FCT_DOMAIN
      in Option.bind (hqc_pke_encrypt (replicate VEC_N1N2_SIZE_64 0) m theta pk) (\<lambda>(u, v).
         let d = kem_hash (take VEC_K_SIZE_BYTES (word_bytes m)) H_FCT_DOMAIN;
             ss = kem_hash (kem_mc m u v) K_FCT_DOMAIN;
             ct = hqc_ciphertext_to_string ct u v d
         in Some ((0, ct, ss), prng)))"

text \<open>The comparison of the cipher text with the one made again: the mask is 0xff when they differ.\<close>

definition kem_mask :: "u64 list \<Rightarrow> u64 list \<Rightarrow> u8 list \<Rightarrow> u64 list \<Rightarrow> u64 list \<Rightarrow> u8 list \<Rightarrow> u8" where
  "kem_mask u v d u2 v2 d2 =
     (let result = vect_compare (word_bytes u) (word_bytes u2) VEC_N_SIZE_BYTES;
          result = result OR vect_compare (word_bytes v) (word_bytes v2) VEC_N1N2_SIZE_BYTES;
          result = result OR vect_compare d d2 SHAKE256_512_BYTES
      in word_of_int (drop_bit 15 (- uint result)))"

definition hqc_kem_dec :: "u8 list \<Rightarrow> u8 list \<Rightarrow> (int \<times> u8 list) option" where
  "hqc_kem_dec ct sk =
     (let (u, v, d) = hqc_ciphertext_from_string zero_n (replicate VEC_N1N2_SIZE_64 0) (replicate SHAKE256_512_BYTES 0) ct;
          pk = take PUBLIC_KEY_BYTES (drop SEED_BYTES sk)
      in Option.bind (hqc_pke_decrypt (replicate VEC_K_SIZE_64 0) u v sk) (\<lambda>m.
         let theta = kem_hash (take VEC_K_SIZE_BYTES (word_bytes m)) G_FCT_DOMAIN
         in Option.bind (hqc_pke_encrypt (replicate VEC_N1N2_SIZE_64 0) m theta pk) (\<lambda>(u2, v2).
         let d2 = kem_hash (take VEC_K_SIZE_BYTES (word_bytes m)) H_FCT_DOMAIN;
             ss = kem_hash (kem_mc m u v) K_FCT_DOMAIN;
             result = kem_mask u v d u2 v2 d2
         in Some (- uint (result AND 1), map (\<lambda>b. b AND NOT result) ss))))"

end
