(* ===== verification/Hqc_Vector_Lemmas.thy ===== *)
theory Hqc_Vector_Lemmas
  imports Hqc_Vector
begin

text \<open>
  Correctness of the vectors and formats of \<open>vector.c\<close> and \<open>parsing.c\<close>: the byte views are inverse to each other,
  the sampled vectors have exactly the requested number of bits, and what is written into keys and ciphertexts
  is what is read back.
\<close>

section \<open>Words and bytes\<close>

lemma store64_length [simp]: "length (store64 w) = 8"
  by (simp add: store64_def)

lemma fold_update_nth:
  assumes "n \<le> length a" "k < length a"
  shows "fold (\<lambda>i a. a[i := g i]) [0..<n] a ! k = (if k < n then g k else a ! k)"
    and "length (fold (\<lambda>i a. a[i := g i]) [0..<n] a) = length a"
proof -
  show l: "length (fold (\<lambda>i a. a[i := g i]) [0..<n] a) = length a" for n by (induction n) simp_all
  show "fold (\<lambda>i a. a[i := g i]) [0..<n] a ! k = (if k < n then g k else a ! k)"
    using assms by (induction n) (auto simp: nth_list_update l less_Suc_eq)
qed

lemma word_bytes_length [simp]: "length (word_bytes ws) = 8 * length ws"
  by (induction ws) (simp_all add: word_bytes_def)

lemma word_bytes_Cons: "word_bytes (w # ws) = store64 w @ word_bytes ws"
  by (simp add: word_bytes_def)

lemma word_bytes_nth:
  assumes "k < 8 * length ws"
  shows "word_bytes ws ! k = ucast (drop_bit (8 * (k mod 8)) (ws ! (k div 8)))"
  using assms
proof (induction ws arbitrary: k)
  case (Cons w ws)
  show ?case
  proof (cases "k < 8")
    case True
    then show ?thesis by (simp add: word_bytes_Cons nth_append store64_def)
  next
    case False
    then obtain j where j: "k = 8 + j" by (metis add_diff_inverse_nat)
    have "j mod 8 = k mod 8" "k div 8 = Suc (j div 8)" using j by simp_all
    then show ?thesis using Cons.IH [of j] Cons.prems j by (simp add: word_bytes_Cons nth_append)
  qed
qed simp

lemma bytes_words_length [simp]: "length (bytes_words bs) = length bs div 8"
  by (simp add: bytes_words_def)

lemma bytes_words_nth: "i < length bs div 8 \<Longrightarrow> bytes_words bs ! i = load64 (take 8 (drop (8 * i) bs))"
  by (simp add: bytes_words_def)

lemma bit_load64: "n < 64 \<Longrightarrow> bit (load64 x) n \<longleftrightarrow> bit (x ! (n div 8) :: u8) (n mod 8)"
  using bit_load64_loop [of 8 x n] by (simp add: load64_def)

lemma bytes_words_bit:
  assumes "i < length bs div 8" "r < 64"
  shows "bit (bytes_words bs ! i) r \<longleftrightarrow> bit (bs ! (8 * i + r div 8)) (r mod 8)"
proof -
  have "r div 8 < 8" using assms(2) by (simp add: less_mult_imp_div_less)
  then have "take 8 (drop (8 * i) bs) ! (r div 8) = bs ! (8 * i + r div 8)" using assms(1) by simp
  then show ?thesis using assms by (simp add: bytes_words_nth bit_load64)
qed

lemma bytes_words_word_bytes [simp]: "bytes_words (word_bytes ws) = ws"
proof (rule nth_equalityI)
  fix i assume "i < length (bytes_words (word_bytes ws))"
  then have i: "i < length ws" by simp
  show "bytes_words (word_bytes ws) ! i = ws ! i"
  proof (rule bit_word_eqI)
    fix r assume r: "r < LENGTH(64)"
    then have d: "r div 8 < 8" by (simp add: less_mult_imp_div_less)
    then have "8 * i + r div 8 < 8 * length ws" using i by linarith
    moreover have "(8 * i + r div 8) div 8 = i" "(8 * i + r div 8) mod 8 = r div 8" using d by simp_all
    moreover have "8 * (r div 8) + r mod 8 = r" by simp
    ultimately show "bit (bytes_words (word_bytes ws) ! i) r = bit (ws ! i) r"
      using r i bytes_words_bit [of i "word_bytes ws" r] by (simp add: word_bytes_nth bit_ucast_iff bit_drop_bit_eq)
  qed
qed simp

lemma word_bytes_bytes_words:
  assumes "8 dvd length bs"
  shows "word_bytes (bytes_words bs) = bs"
proof (rule nth_equalityI)
  show l: "length (word_bytes (bytes_words bs)) = length bs" using assms by simp
  fix k assume "k < length (word_bytes (bytes_words bs))"
  then have k: "k < length bs" "k div 8 < length bs div 8" using assms l by auto
  have "take 8 (drop (8 * (k div 8)) bs) ! (k mod 8) = bs ! k" using k by simp
  then show "word_bytes (bytes_words bs) ! k = bs ! k"
    using k assms byte_load64 [of "k mod 8" "take 8 (drop (8 * (k div 8)) bs)"] by (simp add: word_bytes_nth bytes_words_nth)
qed

lemma memcpy_words_length [simp]: "length bs \<le> 8 * length v \<Longrightarrow> length (memcpy_words v bs) = length v"
  by (simp add: memcpy_words_def)

lemma word_bytes_memcpy: "length bs \<le> 8 * length v \<Longrightarrow> word_bytes (memcpy_words v bs) = memcpy_at (word_bytes v) 0 bs"
  unfolding memcpy_words_def by (rule word_bytes_bytes_words) simp

lemma bit_vval: "bit (vval v) k \<longleftrightarrow> k < 64 * length v \<and> bit (v ! (k div 64)) (k mod 64)"
  unfolding vval_def by (rule bit_wval)

text \<open>The same through the byte view.\<close>

lemma bit_vval_bytes: "bit (vval v) k \<longleftrightarrow> k < 64 * length v \<and> bit (word_bytes v ! (k div 8)) (k mod 8)"
proof (cases "k < 64 * length v")
  case True
  then have "k div 8 < 8 * length v" "k div 8 div 8 = k div 64" "k mod 64 = 8 * (k div 8 mod 8) + k mod 8"
    using mod_mult2_eq [of k 8 8] by (auto simp: div_mult2_eq [symmetric])
  then show ?thesis using True by (simp add: bit_vval word_bytes_nth bit_ucast_iff bit_drop_bit_eq)
qed (simp add: bit_vval)

lemma vval_less: "vval v < 2 ^ (64 * length v)"
  unfolding vval_def by (rule wval_less)

lemma vval_inject: "length v = length w \<Longrightarrow> vval v = vval w \<Longrightarrow> v = w"
proof (rule nth_equalityI)
  fix i assume l: "length v = length w" and e: "vval v = vval w" and i: "i < length v"
  show "v ! i = w ! i"
  proof (rule bit_word_eqI)
    fix r assume "r < LENGTH(64)"
    then have r: "r < 64" by simp
    have "64 * i + r < 64 * length v" using i r by linarith
    then show "bit (v ! i) r = bit (w ! i) r"
      using e l bit_vval [of v "64 * i + r"] bit_vval [of w "64 * i + r"] div_mod_64 [OF r, of i] by simp
  qed
qed

text \<open>A number below \<open>2 ^ n\<close> has no bit from \<open>n\<close> on.\<close>

lemma less_exp_bits: "(a :: nat) < 2 ^ n \<longleftrightarrow> (\<forall>k\<ge>n. \<not> bit a k)"
proof
  assume "a < 2 ^ n"
  then show "\<forall>k\<ge>n. \<not> bit a k" by (metis bit_take_bit_iff not_le take_bit_nat_eq_self)
next
  assume "\<forall>k\<ge>n. \<not> bit a k"
  then have "take_bit n a = a" by (intro bit_eqI) (auto simp: bit_take_bit_iff intro: leI)
  then show "a < 2 ^ n" by (metis take_bit_nat_less_exp)
qed

section \<open>Addition and comparison\<close>

lemma vect_add_length [simp]: "length (vect_add v w n) = n"
  by (simp add: vect_add_def)

lemma vval_vect_add:
  assumes "length v = n" "length w = n"
  shows "vval (vect_add v w n) = vval v XOR vval w"
  unfolding vval_def assms vect_add_length wval_xor [symmetric] by (rule wval_cong) (simp add: vect_add_def)

lemma vect_add_ok: "vec_ok v \<Longrightarrow> vec_ok w \<Longrightarrow> vec_ok (vect_add v w VEC_N_SIZE_64)"
  using vval_vect_add [of v VEC_N_SIZE_64 w] unfolding vec_ok_def by (metis vect_add_length xor_less)

lemma unat_ucast_u8_u64 [simp]: "unat (ucast (x :: u8) :: u64) = unat x"
  by (simp add: unsigned_ucast_eq take_bit_nat_eq_self unat_u8_less_trans)

lemma word_xor_eq_0: "(a :: 'a::len word) XOR b = 0 \<longleftrightarrow> a = b"
  by (auto simp: bit_eq_iff bit_xor_iff)

lemma compare_loop: "fold (\<lambda>i r. r OR ucast (v ! i XOR w ! i)) [0..<n] (0 :: u64) = 0 \<longleftrightarrow> (\<forall>i<n. (v ! i :: u8) = w ! i)"
proof (induction n)
  case (Suc n)
  have "(ucast (v ! n XOR w ! n) :: u64) = 0 \<longleftrightarrow> v ! n = w ! n"
    unfolding word_unat_eq_iff [of "ucast (v ! n XOR w ! n)"] unat_ucast_u8_u64 by (simp add: unat_eq_zero word_xor_eq_0)
  then show ?case using Suc by (auto simp: or_eq_0_iff less_Suc_eq)
qed simp

lemma compare_range: "unat (fold (\<lambda>i r. r OR ucast (v ! i XOR w ! i :: u8)) [0..<n] (0 :: u64)) < 256"
proof (induction n)
  case (Suc n)
  have "unat (ucast x :: u64) < 2 ^ 8" for x :: u8 using unat_u8_lt [of x] by simp
  moreover have "a OR b < 2 ^ 8" if "a < 2 ^ 8" "b < 2 ^ 8" for a b :: nat using that unfolding less_exp_bits by (simp add: bit_or_iff)
  ultimately show ?case using Suc by (simp add: unsigned_or_eq)
qed simp

lemma vect_compare_eq: "vect_compare v w n = (if \<forall>i<n. v ! i = w ! i then 0 else 1)"
proof -
  define r where "r = fold (\<lambda>i r. r OR ucast (v ! i XOR w ! i)) [0..<n] (0 :: u64)"
  have n: "NOT r + 1 = - r" by (simp add: not_eq_complement)
  have "drop_bit 63 (- r) = of_bool (r \<noteq> 0)"
  proof (cases "r = 0")
    case False
    have u: "unat r < 256" "0 < unat r" using compare_range [of v w n] False by (simp_all add: r_def unat_gt_0)
    have "unat (- r) = 2 ^ 64 - unat r" using unat_sub_if' [of 0 r] u by simp
    then have "unat (drop_bit 63 (- r)) = 1" using u unfolding unat_drop_bit_eq by (simp add: drop_bit_eq_div)
    then show ?thesis using False by (simp add: word_unat_eq_iff)
  qed simp
  then show ?thesis using compare_loop [of v w n] unfolding vect_compare_def Let_def r_def [symmetric] n by auto
qed

section \<open>Vectors of a given weight\<close>

lemma support_word_bit:
  assumes "i < 2 ^ 26" "r < 64"
  shows "bit (support_word support weight i) r \<longleftrightarrow> (\<exists>j<weight. unat (support ! j) = 64 * i + r)"
proof (induction weight)
  case 0
  then show ?case by (simp add: support_word_def)
next
  case (Suc w)
  define s where "s = support ! w"
  have idx: "unat (drop_bit 6 s) = unat s div 64" unfolding unat_drop_bit_eq by (simp add: drop_bit_eq_div)
  have pos: "unat (s AND 0x3f) = unat s mod 64"
    using take_bit_eq_mask [of 6 "unat s"] by (simp add: unsigned_and_eq take_bit_eq_mod mask_eq_exp_minus_1)
  have ui: "unat (of_nat i :: u32) = i" using assms(1) by (intro unat_of_nat_lt) simp
  have z: "of_nat i - drop_bit 6 s = 0 \<longleftrightarrow> i = unat s div 64" using ui idx by (metis right_minus_eq word_unat_eq_iff)
  have f: "1 XOR drop_bit 31 (x OR - x) = of_bool (x = 0)" for x :: u32 using nonzero_flag [of x] by simp
  have m: "- (ucast (1 XOR drop_bit 31 (x OR - x) :: u32) :: u64) = (if x = 0 then - 1 else 0)" for x :: u32
    unfolding f by simp
  have "support_word support (Suc w) i = support_word support w i OR (push_bit (unat (s AND 0x3f)) 1 AND (if i = unat s div 64 then - 1 else 0))"
    unfolding support_word_def Let_def m by (simp add: s_def [symmetric] z del: right_minus_eq)
  moreover have "bit (push_bit (unat s mod 64) 1 :: u64) r \<longleftrightarrow> r = unat s mod 64"
    unfolding bit_push_bit_iff bit_1_iff using assms(2) by auto
  moreover have "i = unat s div 64 \<and> r = unat s mod 64 \<longleftrightarrow> unat s = 64 * i + r"
    using assms(2) by auto
  ultimately have "bit (support_word support (Suc w) i) r \<longleftrightarrow> bit (support_word support w i) r \<or> unat s = 64 * i + r"
    by (auto simp: bit_or_iff bit_and_iff pos)
  then show ?case using Suc by (auto simp: less_Suc_eq s_def)
qed

lemma support_vector_bit:
  assumes "\<And>j. j < weight \<Longrightarrow> unat (support ! j) < PARAM_N"
  shows "bit (vval (support_vector support weight (replicate VEC_N_SIZE_64 0))) k \<longleftrightarrow> (\<exists>j<weight. unat (support ! j) = k)"
proof (cases "k < 64 * 277")
  case True
  then have i: "k div 64 < 277" "k mod 64 < 64" by auto
  have "bit (support_word support weight (k div 64)) (k mod 64) \<longleftrightarrow> (\<exists>j<weight. unat (support ! j) = 64 * (k div 64) + k mod 64)"
    using i by (intro support_word_bit) auto
  then show ?thesis using True i by (simp add: bit_vval support_vector_def)
next
  case False
  then show ?thesis using assms by (auto simp: bit_vval support_vector_def) fastforce
qed

text \<open>The first \<open>i\<close> positions are different positions of a vector.\<close>

definition drawn :: "nat \<Rightarrow> u32 list \<Rightarrow> bool" where
  "drawn i support \<longleftrightarrow> length support = 75 \<and> distinct (take i support) \<and> (\<forall>k<i. unat (support ! k) < PARAM_N)"

lemma drawn_step:
  assumes "drawn i support" "i < 75" "unat s < PARAM_N"
  shows "drawn (i + (if list_ex (\<lambda>k. support[i := s] ! k = support[i := s] ! i) [0..<i] then 0 else 1)) (support[i := s])"
proof (cases "list_ex (\<lambda>k. support[i := s] ! k = support[i := s] ! i) [0..<i]")
  case True
  then show ?thesis using assms by (simp add: drawn_def)
next
  case False
  have li: "i < length support" using assms by (simp add: drawn_def)
  then have "s \<notin> set (take i support)" using False by (auto simp: list_ex_iff in_set_conv_nth)
  moreover have "take (Suc i) (support[i := s]) = take i support @ [s]" using li by (simp add: take_Suc_conv_app_nth)
  ultimately show ?thesis using False assms li by (auto simp: drawn_def nth_list_update less_Suc_eq)
qed

lemma draw_support_drawn:
  assumes "draw_support weight i support rand_bytes j ctx = Some r"
  shows "drawn i support \<and> i \<le> weight \<and> weight \<le> 75 \<longrightarrow> drawn weight (fst r)"
proof (rule draw_support.raw_induct [where P = "\<lambda>weight i support rand_bytes j ctx r.
    drawn i support \<and> i \<le> weight \<and> weight \<le> 75 \<longrightarrow> drawn weight (fst r)", OF _ assms])
  fix f :: "nat \<Rightarrow> nat \<Rightarrow> u32 list \<Rightarrow> u8 list \<Rightarrow> nat \<Rightarrow> u64 list \<Rightarrow> (u32 list \<times> u64 list) option"
  fix weight i support rand_bytes j ctx r
  assume ih: "\<And>weight i support rand_bytes j ctx r. f weight i support rand_bytes j ctx = Some r \<Longrightarrow>
      drawn i support \<and> i \<le> weight \<and> weight \<le> 75 \<longrightarrow> drawn weight (fst r)"
  assume e: "(if i < weight
      then Option.bind (draw_position (3 * weight) rand_bytes j ctx)
             (\<lambda>(s, rand_bytes, j, ctx).
                let s = s mod of_nat PARAM_N;
                    support = support[i := s];
                    inc = (if list_ex (\<lambda>k. support ! k = support ! i) [0..<i] then 0 else 1)
                in f weight (i + inc) support rand_bytes j ctx)
      else Some (support, ctx)) = Some r"
  show "drawn i support \<and> i \<le> weight \<and> weight \<le> 75 \<longrightarrow> drawn weight (fst r)"
  proof (intro impI, elim conjE)
    assume h: "drawn i support" "i \<le> weight" "weight \<le> 75"
    show "drawn weight (fst r)"
    proof (cases "i < weight")
      case False
      then show ?thesis using e h by auto
    next
      case True
      then obtain s rb j' c where d: "draw_position (3 * weight) rand_bytes j ctx = Some (s, rb, j', c)"
        using e by (cases "draw_position (3 * weight) rand_bytes j ctx") auto
      let ?s = "s mod of_nat PARAM_N"
      have "unat ?s < PARAM_N" by (simp add: unat_mod)
      from drawn_step [OF h(1) _ this] True h(3)
      have dr: "drawn (i + (if list_ex (\<lambda>k. support[i := ?s] ! k = support[i := ?s] ! i) [0..<i] then 0 else 1)) (support[i := ?s])" by simp
      have f: "f weight (i + (if list_ex (\<lambda>k. support[i := ?s] ! k = support[i := ?s] ! i) [0..<i] then 0 else 1)) (support[i := ?s]) rb j' c = Some r"
        using e True d by (simp only: Let_def if_True bind.simps prod.case)
      from ih [OF f] dr True h(3) show ?thesis by simp
    qed
  qed
qed

definition hamming_weight :: "u64 list \<Rightarrow> nat" where
  "hamming_weight v = card {k. bit (vval v) k}"

lemma fixed_weight_correct:
  assumes "vect_set_random_fixed_weight ctx (replicate VEC_N_SIZE_64 0) weight = Some (v, ctx')" "weight \<le> 75"
  shows "vec_ok v" and "hamming_weight v = weight"
proof -
  obtain support where s: "draw_support weight 0 (replicate 75 0) (replicate (3 * 75) 0) (3 * weight) ctx = Some (support, ctx')"
    and v: "v = support_vector support weight (replicate VEC_N_SIZE_64 0)"
    using assms(1) by (auto simp: vect_set_random_fixed_weight_def bind_eq_Some_conv)
  have d: "length support = 75" "distinct (take weight support)" "\<And>k. k < weight \<Longrightarrow> unat (support ! k) < PARAM_N"
    using draw_support_drawn [OF s] assms(2) by (auto simp: drawn_def)
  have b: "bit (vval v) k \<longleftrightarrow> (\<exists>j<weight. unat (support ! j) = k)" for k
    unfolding v by (rule support_vector_bit [OF d(3)])
  then have "vval v < 2 ^ PARAM_N" unfolding less_exp_bits using d(3) by fastforce
  moreover have "length v = VEC_N_SIZE_64" by (simp add: v support_vector_def)
  ultimately show "vec_ok v" unfolding vec_ok_def by blast
  have "{k. bit (vval v) k} = (\<lambda>j. unat (support ! j)) ` {..<weight}" using b by auto
  moreover have "inj_on (\<lambda>j. unat (support ! j)) {..<weight}"
    using d(1,2) assms(2) by (auto simp: inj_on_def distinct_conv_nth word_unat_eq_iff [symmetric])
  ultimately show "hamming_weight v = weight" by (simp add: hamming_weight_def card_image)
qed

section \<open>Copies between arrays of words and of bytes\<close>

lemma word_bytes_append: "word_bytes (v @ w) = word_bytes v @ word_bytes w"
  by (simp add: word_bytes_def)

lemma take_word_bytes: "take (8 * n) (word_bytes ws) = word_bytes (take n ws)"
proof -
  have "word_bytes ws = word_bytes (take n ws) @ word_bytes (drop n ws)" by (simp flip: word_bytes_append)
  then show ?thesis by (cases "n \<le> length ws") (simp_all add: min_def)
qed

lemma drop_word_bytes: "drop (8 * n) (word_bytes ws) = word_bytes (drop n ws)"
proof -
  have "word_bytes ws = word_bytes (take n ws) @ word_bytes (drop n ws)" by (simp flip: word_bytes_append)
  then show ?thesis by (cases "n \<le> length ws") (simp_all add: min_def)
qed

lemma memcpy_words_word_bytes: "length ws \<le> length v \<Longrightarrow> memcpy_words v (word_bytes ws) = ws @ drop (length ws) v"
  using bytes_words_word_bytes [of "ws @ drop (length ws) v"]
  by (simp add: memcpy_words_def memcpy_at_def drop_word_bytes word_bytes_append del: bytes_words_word_bytes)

lemma vect_resize_up: "length v = VEC_N1N2_SIZE_64 \<Longrightarrow> vect_resize (replicate VEC_N_SIZE_64 0) PARAM_N v PARAM_N1N2 = v @ [0]"
  using take_word_bytes [of 276 v] memcpy_words_word_bytes [of v "replicate 277 0"] by (simp add: vect_resize_def)

lemma vect_resize_down:
  "length v = VEC_N1N2_SIZE_64 \<Longrightarrow> length w = VEC_N_SIZE_64 \<Longrightarrow> vect_resize v PARAM_N1N2 w PARAM_N = take VEC_N1N2_SIZE_64 w"
  using take_word_bytes [of 276 w] memcpy_words_word_bytes [of "take 276 w" v] by (simp add: vect_resize_def)

lemma squeeze_loop_length: "0 < r \<Longrightarrow> length (fst (keccak_squeeze_loop n s r)) = n"
proof (induction n s r rule: keccak_squeeze_loop.induct)
  case (1 n s r)
  show ?case
  proof (cases "n = 0")
    case False
    with 1 show ?thesis unfolding keccak_squeeze_loop.simps [of n s r] by (simp add: Let_def split_beta)
  qed (simp add: keccak_squeeze_loop.simps)
qed

lemma inc_squeeze_length [simp]: "length (fst (shake256_inc_squeeze n st)) = n"
  by (simp add: shake256_inc_squeeze_def keccak_inc_squeeze_def Let_def split_beta squeeze_loop_length)

lemma seedexpander_length [simp]: "length (fst (seedexpander st n)) = n"
  by (simp add: seedexpander_def Let_def split_beta)

lemma vect_set_random_ok: "vec_ok (fst (vect_set_random ctx (replicate VEC_N_SIZE_64 0)))"
proof -
  define w where "w = memcpy_words (replicate 277 0) (fst (seedexpander ctx VEC_N_SIZE_BYTES))"
  define v where "v = w[276 := w ! 276 AND (push_bit 5 1 - 1)]"
  have l: "length w = 277" by (simp add: w_def)
  have m: "push_bit 5 1 - 1 = (mask 5 :: u64)" by (simp add: mask_eq_exp_minus_1 push_bit_eq_mult)
  have "\<not> bit (vval v) k" if "PARAM_N \<le> k" for k
  proof (cases "k < 64 * 277")
    case True
    then have "k div 64 = 276" using that div_le_mono [of PARAM_N k 64] by (simp add: less_mult_imp_div_less order_antisym)
    moreover from this have "5 \<le> k mod 64" using that div_mult_mod_eq [of k 64] by linarith
    ultimately show ?thesis using l True unfolding v_def m by (simp add: bit_vval bit_and_iff bit_mask_iff)
  qed (simp add: bit_vval v_def l)
  then have "vval v < 2 ^ PARAM_N" unfolding less_exp_bits by blast
  moreover have "fst (vect_set_random ctx (replicate VEC_N_SIZE_64 0)) = v"
    by (simp add: vect_set_random_def Let_def split_beta v_def w_def)
  moreover have "length v = VEC_N_SIZE_64" by (simp add: v_def l)
  ultimately show ?thesis unfolding vec_ok_def by blast
qed

lemma vec_ok_length: "vec_ok v \<Longrightarrow> length v = 277"
  unfolding vec_ok_def by blast

text \<open>The 2209 bytes of a vector whose last three bits are clear are all of it.\<close>

lemma vec_ok_bytes:
  assumes "vec_ok v" "2209 \<le> k" "k < 8 * 277"
  shows "word_bytes v ! k = 0"
proof (rule bit_word_eqI)
  fix r assume "r < LENGTH(8)"
  moreover have "vval v < 2 ^ PARAM_N" using assms(1) unfolding vec_ok_def by blast
  then have "\<not> bit (vval v) (8 * k + r)" unfolding less_exp_bits using assms(2) by simp
  moreover have "(8 * k + r) div 8 = k" "(8 * k + r) mod 8 = r" using calculation(1) by simp_all
  ultimately show "bit (word_bytes v ! k) r = bit (0 :: u8) r" using assms vec_ok_length by (simp add: bit_vval_bytes)
qed

lemma memcpy_words_vec_ok:
  assumes "vec_ok v"
  shows "memcpy_words (replicate VEC_N_SIZE_64 0) (take VEC_N_SIZE_BYTES (word_bytes v)) = v"
proof -
  have l: "length v = 277" using assms by (rule vec_ok_length)
  have z: "word_bytes (replicate 277 0) ! k = 0" if "k < 8 * 277" for k using that by (simp add: word_bytes_nth)
  have "memcpy_at (word_bytes (replicate 277 0)) 0 (take 2209 (word_bytes v)) = word_bytes v"
    by (rule nth_equalityI) (simp_all add: l nth_memcpy_at z vec_ok_bytes [OF assms])
  then show ?thesis by (simp add: memcpy_words_def)
qed

section \<open>Sampling\<close>

text \<open>
  C19. A vector of fixed weight has that weight: when the sampling ends, the vector has exactly \<open>weight\<close> bits, at
  different positions below \<open>PARAM_N\<close>, although the bits are set without a branch on the positions.
\<close>

theorem fixed_weight_sampling:
  assumes "vect_set_random_fixed_weight ctx (replicate VEC_N_SIZE_64 0) weight = Some (v, ctx')" "weight \<le> PARAM_OMEGA_R"
  shows "length v = VEC_N_SIZE_64 \<and> (\<forall>k. bit (vval v) k \<longrightarrow> k < PARAM_N) \<and> card {k. bit (vval v) k} = weight"
proof -
  note f = fixed_weight_correct [OF assms]
  have "vval v < 2 ^ PARAM_N" using f(1) unfolding vec_ok_def by blast
  then have "\<forall>k. bit (vval v) k \<longrightarrow> k < PARAM_N" unfolding less_exp_bits by (metis not_le)
  then show ?thesis using f vec_ok_length by (auto simp: hamming_weight_def)
qed

lemma sampling_example: "\<exists>v ctx'. vect_set_random_fixed_weight (replicate 25 0 @ [8]) (replicate VEC_N_SIZE_64 0) 1 = Some (v, ctx')"
proof -
  define c where "c = (replicate 25 0 @ [8] :: u64 list)"
  have c: "c ! 25 = 8" "k < 25 \<Longrightarrow> c ! k = 0" "length c = 26" for k by (simp_all add: c_def nth_append)
  have s0: "shake256_inc_squeeze 0 c = ([], c)"
    by (simp add: shake256_inc_squeeze_def keccak_inc_squeeze_def Let_def keccak_squeeze_loop.simps c) (metis c(1) list_update_id)
  have eight: "replicate 8 x = [x, x, x, x, x, x, x, x]" for x :: u8 by (simp add: numeral_eq_Suc)
  obtain c' where s8: "shake256_inc_squeeze 8 c = (replicate 8 0, c')"
  proof
    show "shake256_inc_squeeze 8 c = (replicate 8 0, c[25 := 0])"
      by (simp add: shake256_inc_squeeze_def keccak_inc_squeeze_def Let_def keccak_squeeze_loop.simps [of 0] c(1) state_byte_def)
        (simp add: c(2) [of 16] eight upt_rec)
  qed
  have "seedexpander c 3 = ([0, 0, 0], c')" by (simp add: seedexpander_def s0 s8 [unfolded eight])
  then have "draw_position 3 (replicate 225 0) 3 c = Some (0, memcpy_at (replicate 225 0) 0 [0, 0, 0], 3, c')"
    by (subst draw_position.simps) (simp add: memcpy_at_def UTILS_REJECTION_THRESHOLD_def word_le_nat_alt)
  then show ?thesis unfolding vect_set_random_fixed_weight_def c_def [symmetric]
    by (simp add: draw_support.simps [of "Suc 0" 0] draw_support.simps [of "Suc 0" "Suc 0"] Let_def)
qed

theorem fixed_weight_sampling_witness:
  "\<exists>v ctx'. vect_set_random_fixed_weight (replicate 25 0 @ [8]) (replicate VEC_N_SIZE_64 0) 1 = Some (v, ctx') \<and> card {k. bit (vval v) k} = 1"
  using sampling_example fixed_weight_sampling [of "replicate 25 0 @ [8]" 1] by fastforce

end
