(* ===== verification/Reed_Muller_Decode.thy ===== *)
theory Reed_Muller_Decode
  imports Reed_Muller Hqc_Vector_Lemmas
begin

text \<open>
  The error correction of the duplicated Reed-Muller code: a block of three copies with fewer than 96 wrong bits
  decodes to the byte that was encoded, and the arrays of the decoder stay within 16 bits.
\<close>

section \<open>The bits of a code word\<close>

lemma block_index:
  fixes p :: nat
  shows "bit p 0 \<longleftrightarrow> bit (p mod 32) 0" "bit p 1 \<longleftrightarrow> bit (p mod 32) 1" "bit p 2 \<longleftrightarrow> bit (p mod 32) 2"
    "bit p 3 \<longleftrightarrow> bit (p mod 32) 3" "bit p 4 \<longleftrightarrow> bit (p mod 32) 4" "bit p 5 \<longleftrightarrow> bit (p div 32) 0" "bit p 6 \<longleftrightarrow> bit (p div 32) 1"
proof -
  have low: "bit p k \<longleftrightarrow> bit (p mod 32) k" if "k < 5" for k
    using that bit_take_bit_iff [of 5 p k] by (simp add: take_bit_eq_mod)
  have high: "bit p (5 + k) \<longleftrightarrow> bit (p div 32) k" for k
    using bit_drop_bit_eq [of 5 p] by (simp add: drop_bit_eq_div)
  show "bit p 0 \<longleftrightarrow> bit (p mod 32) 0" "bit p 1 \<longleftrightarrow> bit (p mod 32) 1" "bit p 2 \<longleftrightarrow> bit (p mod 32) 2"
    "bit p 3 \<longleftrightarrow> bit (p mod 32) 3" "bit p 4 \<longleftrightarrow> bit (p mod 32) 4" by (simp_all only: low)
  show "bit p 5 \<longleftrightarrow> bit (p div 32) 0" "bit p 6 \<longleftrightarrow> bit (p div 32) 1" using high [of 0] high [of 1] by simp_all
qed

lemma neq_assoc: "(a \<noteq> (b \<noteq> c)) = ((a \<noteq> b) \<noteq> c)"
  by blast

lemma neq_chain: "(((x \<noteq> a) \<noteq> b) \<noteq> a) = (x \<noteq> b)"
  by blast

lemma rm_encode_word_bit:
  assumes r: "r < 32" and "h < 4"
  shows "bit (rm_encode message ! h) r \<longleftrightarrow>
    (((((((bit message 7 \<noteq> (bit message 0 \<and> bit r 0)) \<noteq> (bit message 1 \<and> bit r 1)) \<noteq> (bit message 2 \<and> bit r 2)) \<noteq>
      (bit message 3 \<and> bit r 3)) \<noteq> (bit message 4 \<and> bit r 4)) \<noteq> (bit message 5 \<and> bit h 0)) \<noteq> (bit message 6 \<and> bit h 1))"
proof -
  define x where "x = (((((bit message 7 \<noteq> (bit message 0 \<and> bit r 0)) \<noteq> (bit message 1 \<and> bit r 1)) \<noteq> (bit message 2 \<and> bit r 2)) \<noteq>
      (bit message 3 \<and> bit r 3)) \<noteq> (bit message 4 \<and> bit r 4))"
  have nth4: "[a, b, c, d] ! 0 = a" "[a, b, c, d] ! 1 = b" "[a, b, c, d] ! 2 = c" "[a, b, c, d] ! 3 = d" for a b c d :: u32
    by simp_all
  have hs: "bit (rm_encode message ! 0) r = x" "bit (rm_encode message ! 1) r = (x \<noteq> bit message 5)"
    "bit (rm_encode message ! 3) r = ((x \<noteq> bit message 5) \<noteq> bit message 6)"
    "bit (rm_encode message ! 2) r = (((x \<noteq> bit message 5) \<noteq> bit message 6) \<noteq> bit message 5)"
    unfolding rm_encode_def Let_def x_def nth4 bit_xor_iff bit_and_iff BIT0MASK_bit [OF r] mask_bits [OF r] by (rule refl)+
  from assms(2) consider "h = 0" | "h = 1" | "h = 2" | "h = 3" by linarith
  moreover have "bit (3 :: nat) 1" "bit (2 :: nat) 1" "bit (3 :: nat) 0" "\<not> bit (2 :: nat) 0" by code_simp+
  ultimately show ?thesis unfolding x_def [symmetric] using hs neq_chain [of x "bit message 5" "bit message 6"]
    by cases (simp_all add: bit_0)
qed

lemma rm_encode_bit:
  assumes "p < 128"
  shows "bit (rm_encode message ! (p div 32)) (p mod 32) \<longleftrightarrow> rm_bit (unat message) p"
proof -
  have u: "bit (unat message) k \<longleftrightarrow> bit message k" for k by (simp add: bit_unsigned_iff)
  show ?thesis
    unfolding rm_bit_def chi_bits block_index [of p] u neq_assoc
    using assms by (intro rm_encode_word_bit) simp_all
qed

section \<open>The sums\<close>

text \<open>Bit \<open>p\<close> of copy \<open>c\<close> of a block, and how many bits of the three copies differ from the code word of \<open>m\<close>.\<close>

definition block_bit :: "u32 list \<Rightarrow> nat \<Rightarrow> nat \<Rightarrow> bool" where
  "block_bit src c p \<longleftrightarrow> bit (src ! (4 * c + p div 32)) (p mod 32)"

definition wrong_bits :: "nat \<Rightarrow> u32 list \<Rightarrow> nat \<Rightarrow> int" where
  "wrong_bits m src p = (\<Sum>c<MULTIPLICITY. of_bool (block_bit src c p \<noteq> rm_bit m p))"

definition rm_errors :: "nat \<Rightarrow> u32 list \<Rightarrow> int" where
  "rm_errors m src = (\<Sum>p<128. wrong_bits m src p)"

lemma sum_copies: "(\<Sum>c<MULTIPLICITY. f c) = f 0 + f 1 + (f 2 :: int)"
  by (simp add: numeral_eq_Suc)

lemma upt_copies: "[1..<MULTIPLICITY] = [1, 2]"
  by (simp add: upt_rec)

lemma expand_and_sum_length [simp]: "length (expand_and_sum src) = 128"
  unfolding expand_and_sum_def upt_copies by simp

lemma uint_low_bit: "uint (drop_bit k (w :: u32) AND 1) = of_bool (bit w k)"
proof -
  have "drop_bit k w AND 1 = of_bool (bit w k)"
    by (rule bit_eqI) (auto simp: bit_and_iff bit_drop_bit_eq bit_1_iff intro: Nat.gr0I)
  then show ?thesis by simp
qed

lemma expand_and_sum_nth: "p < 128 \<Longrightarrow> expand_and_sum src ! p = (\<Sum>c<MULTIPLICITY. of_bool (block_bit src c p))"
  unfolding expand_and_sum_def upt_copies sum_copies block_bit_def uint_low_bit by simp

lemma wrong_bits_range: "0 \<le> wrong_bits m src p" "wrong_bits m src p \<le> 3"
  unfolding wrong_bits_def sum_copies of_bool_def by simp_all

definition rm_sign :: "nat \<Rightarrow> int" where
  "rm_sign m = (if bit m 7 then - 1 else 1)"

lemma copies_sum:
  "2 * (\<Sum>c<MULTIPLICITY. of_bool (block_bit src c p)) =
     3 - rm_sign m * chi (take_bit 7 m) p * (3 - 2 * wrong_bits m src p)"
proof -
  have "2 * of_bool (block_bit src c p) = 1 - rm_sign m * chi (take_bit 7 m) p * (1 - 2 * of_bool (block_bit src c p \<noteq> rm_bit m p))" for c
    using chi_cases [of "take_bit 7 m" p] by (auto simp: rm_sign_def rm_bit_def)
  from this [of 0] this [of 1] this [of 2] show ?thesis unfolding wrong_bits_def sum_copies by (simp add: algebra_simps del: of_bool_eq_iff)
qed

definition half_transform :: "u32 list \<Rightarrow> int list" where
  "half_transform src = (hadamard (expand_and_sum src))[0 := hadamard (expand_and_sum src) ! 0 - 64 * int MULTIPLICITY]"

lemma half_transform_nth:
  assumes "q < 128"
  shows "half_transform src ! q =
    - rm_sign m * ((if q = take_bit 7 m then 192 else 0) - (\<Sum>p<128. chi (q XOR take_bit 7 m) p * wrong_bits m src p))"
proof -
  define h where "h = take_bit 7 m"
  define T where "T = hadamard (expand_and_sum src)"
  have h: "h < 2 ^ 7" unfolding h_def by (rule take_bit_nat_less_exp)
  then have qh: "q XOR h < 2 ^ 7" using assms by (intro xor_less) simp_all
  have "q XOR h = 0 \<longleftrightarrow> q = h" by (auto simp: bit_eq_iff bit_xor_iff)
  then have orth: "(\<Sum>p<128. chi (q XOR h) p) = (if q = h then 128 else 0)" "(\<Sum>p<128. chi q p) = (if q = 0 then 128 else 0)"
    using chi_orthogonal [OF qh] chi_orthogonal [of q 7] assms by simp_all
  have "2 * T ! q = (\<Sum>p<128. chi q p * (2 * (\<Sum>c<MULTIPLICITY. of_bool (block_bit src c p))))"
    unfolding T_def hadamard_nth [OF expand_and_sum_length assms] sum_distrib_left [of 2]
    by (rule sum.cong) (simp_all only: expand_and_sum_nth lessThan_iff mult.left_commute sum_distrib_left [of 2, symmetric])
  also have "\<dots> = (\<Sum>p<128. 3 * chi q p - rm_sign m * (3 * chi (q XOR h) p - 2 * (chi (q XOR h) p * wrong_bits m src p)))"
    unfolding copies_sum [of src _ m] h_def [symmetric] chi_mult [symmetric] by (rule sum.cong) (simp_all add: algebra_simps)
  also have "\<dots> = 3 * (\<Sum>p<128. chi q p) - rm_sign m * (3 * (\<Sum>p<128. chi (q XOR h) p) - 2 * (\<Sum>p<128. chi (q XOR h) p * wrong_bits m src p))"
    unfolding sum_subtractf sum_distrib_left [symmetric] ..
  finally have "2 * T ! q = (if q = 0 then 384 else 0) - rm_sign m * ((if q = h then 384 else 0) - 2 * (\<Sum>p<128. chi (q XOR h) p * wrong_bits m src p))"
    unfolding orth by simp
  then have "T ! q - (if q = 0 then 192 else 0) = - rm_sign m * ((if q = h then 192 else 0) - (\<Sum>p<128. chi (q XOR h) p * wrong_bits m src p))"
    by (auto simp: rm_sign_def split: if_splits)
  moreover have "half_transform src ! q = T ! q - (if q = 0 then 192 else 0)"
    using assms by (simp add: half_transform_def T_def nth_list_update)
  ultimately show ?thesis unfolding h_def by simp
qed

lemma chi_abs [simp]: "\<bar>chi q p\<bar> = 1"
  using chi_cases [of q p] by auto

lemma errors_bound: "\<bar>\<Sum>p<128. chi r p * wrong_bits m src p\<bar> \<le> rm_errors m src"
proof -
  have "\<bar>\<Sum>p<128. chi r p * wrong_bits m src p\<bar> \<le> (\<Sum>p<128. \<bar>chi r p * wrong_bits m src p\<bar>)" by (rule sum_abs)
  also have "\<dots> = rm_errors m src" unfolding rm_errors_def abs_mult by (simp add: wrong_bits_range)
  finally show ?thesis .
qed

lemma find_peaks_unique:
  assumes "a < 128" and "\<And>i. i < 128 \<Longrightarrow> i \<noteq> a \<Longrightarrow> \<bar>t ! i\<bar> < \<bar>t ! a\<bar>"
  shows "find_peaks t = a OR 128 * of_bool (0 < t ! a)"
proof -
  have step: "peak_step t i (u, v, k) = (if u < \<bar>t ! i\<bar> then (\<bar>t ! i\<bar>, t ! i, i) else (u, v, k))" for i u v k
    by (auto simp: peak_step_def Let_def)
  have "t ! a \<noteq> 0" using assms(2) [of 0] assms(2) [of 1] by (cases "a = 0") auto
  have inv: "n \<le> 128 \<Longrightarrow> (if a < n then fold (peak_step t) [0..<n] (0, 0, 0) = (\<bar>t ! a\<bar>, t ! a, a)
      else fst (fold (peak_step t) [0..<n] (0, 0, 0)) < \<bar>t ! a\<bar>)" for n
  proof (induction n)
    case 0
    then show ?case using \<open>t ! a \<noteq> 0\<close> by simp
  next
    case (Suc n)
    obtain u v k where s: "fold (peak_step t) [0..<n] (0, 0, 0) = (u, v, k)" by (rule prod_cases3)
    have "n \<noteq> a \<Longrightarrow> \<bar>t ! n\<bar> < \<bar>t ! a\<bar>" using Suc.prems assms(2) [of n] by simp
    moreover have "if a < n then (u, v, k) = (\<bar>t ! a\<bar>, t ! a, a) else u < \<bar>t ! a\<bar>" using Suc s by (auto split: if_splits)
    ultimately show ?case using s by (cases a n rule: linorder_cases) (auto simp: step)
  qed
  from inv [of 128] assms(1) show ?thesis by (simp add: find_peaks_def)
qed

lemma rm_decode_block_correct:
  assumes "rm_errors m src < 96" "m < 256"
  shows "rm_decode_block src = m"
proof -
  define h where "h = take_bit 7 m"
  define E where "E q = (\<Sum>p<128. chi (q XOR h) p * wrong_bits m src p)" for q
  have h: "h < 128" using take_bit_nat_less_exp [of 7 m] by (simp add: h_def)
  have T: "half_transform src ! q = - rm_sign m * ((if q = h then 192 else 0) - E q)" if "q < 128" for q
    using half_transform_nth [OF that] unfolding h_def E_def .
  have E: "\<bar>E q\<bar> < 96" for q using errors_bound [of "q XOR h" m src] assms(1) unfolding E_def by linarith
  have "\<bar>half_transform src ! i\<bar> < \<bar>half_transform src ! h\<bar>" if "i < 128" "i \<noteq> h" for i
    using T [OF that(1)] T [OF h] that(2) E [of i] E [of h] by (auto simp: rm_sign_def abs_if split: if_splits)
  then have "rm_decode_block src = h OR 128 * of_bool (0 < half_transform src ! h)"
    using find_peaks_unique [OF h] by (simp add: rm_decode_block_def half_transform_def Let_def)
  moreover have "0 < half_transform src ! h \<longleftrightarrow> bit m 7" using T [OF h] E [of h] by (auto simp: rm_sign_def abs_if split: if_splits)
  moreover have "h OR 128 * of_bool (bit m 7) = m"
  proof (rule bit_eqI)
    fix n
    have "7 < n \<Longrightarrow> \<not> bit m n" using assms(2) less_exp_bits [of m 8] by simp
    moreover have "bit (128 :: nat) n \<longleftrightarrow> n = 7" using bit_exp_iff [of 7 n, where 'a = nat] by simp
    ultimately show "bit (h OR 128 * of_bool (bit m 7)) n \<longleftrightarrow> bit m n"
      by (cases "n < 7"; cases "n = 7") (auto simp: h_def bit_or_iff bit_take_bit_iff not_less le_eq_less_or_eq)
  qed
  ultimately show ?thesis by simp
qed

text \<open>The passes of the transform at most double the entries; the code has 16 bits for each.\<close>

lemma hadamard_passes_bound:
  assumes "\<And>p. p < 128 \<Longrightarrow> \<bar>f ! p\<bar> \<le> B" "q < 128"
  shows "\<bar>(hadamard_pass ^^ t) f ! q\<bar> \<le> 2 ^ t * B"
  using assms(2)
proof (induction t arbitrary: q)
  case 0
  then show ?case using assms(1) by simp
next
  case (Suc t)
  define g where "g = (hadamard_pass ^^ t) f"
  define i where "i = (if q < 64 then q else q - 64)"
  have "\<bar>g ! (2 * i)\<bar> \<le> 2 ^ t * B" "\<bar>g ! (2 * i + 1)\<bar> \<le> 2 ^ t * B"
    unfolding g_def using Suc.prems by (intro Suc.IH; auto simp: i_def)+
  moreover have "hadamard_pass g ! q = g ! (2 * i) + (if q < 64 then 1 else - 1) * g ! (2 * i + 1)"
    using Suc.prems by (simp add: hadamard_pass_def i_def)
  ultimately show ?case by (simp add: g_def abs_if split: if_splits)
qed

lemma hadamard_16_bits:
  assumes "t \<le> 7" "q < 128"
  shows "\<bar>(hadamard_pass ^^ t) (expand_and_sum src) ! q\<bar> \<le> 384"
proof -
  have "\<bar>(hadamard_pass ^^ t) (expand_and_sum src) ! q\<bar> \<le> 2 ^ t * 3"
    using assms(2) by (rule hadamard_passes_bound [rotated]) (simp add: expand_and_sum_nth sum_copies of_bool_def)
  also have "\<dots> \<le> 2 ^ 7 * 3" using assms(1) by (intro mult_right_mono power_increasing) simp_all
  finally show ?thesis by simp
qed

section \<open>Encoding and decoding whole vectors\<close>

lemma concat_map_nth:
  assumes "\<And>i. length (f i) = k" "i < n" "j < k"
  shows "concat (map f [0..<n]) ! (k * i + j) = f i ! j"
  using assms(2)
proof (induction n)
  case (Suc n)
  have l: "length (concat (map f [0..<n])) = k * n" by (induction n) (simp_all add: assms(1))
  show ?case
  proof (cases "i = n")
    case True
    then show ?thesis by (simp add: nth_append l)
  next
    case False
    then have "k * i + j < k * n" using Suc.prems assms(3)
      by (metis add_less_cancel_left less_antisym less_le_trans mult.commute mult_Suc_right mult_le_mono2 not_less_eq Suc_leI add.commute)
    then show ?thesis using False Suc by (simp add: nth_append l)
  qed
qed simp

lemma u32_view_length [simp]: "length (u32_view ws) = 2 * length ws"
  by (induction ws) (simp_all add: u32_view_def)

lemma u64_view_length [simp]: "length (u64_view xs) = length xs div 2"
  by (simp add: u64_view_def)

lemma u32_halves: "ucast (ucast (a :: u32) OR push_bit 32 (ucast b) :: u64) = a"
  "ucast (drop_bit 32 (ucast a OR push_bit 32 (ucast (b :: u32)) :: u64)) = b"
  by (rule bit_word_eqI, use bit_imp_le_length [of a] in \<open>force simp: bit_ucast_iff bit_or_iff bit_push_bit_iff bit_drop_bit_eq\<close>)+

lemma u32_view_u64_view:
  assumes "length xs = 2 * n"
  shows "u32_view (u64_view xs) = xs"
proof (rule nth_equalityI)
  show l: "length (u32_view (u64_view xs)) = length xs" using assms by simp
  fix k assume "k < length (u32_view (u64_view xs))"
  then have k: "k div 2 < n" "k mod 2 < 2" using assms by auto
  define f where "f i = [xs ! (2 * i), xs ! (2 * i + 1)]" for i
  have "u32_view (u64_view xs) = concat (map f [0..<n])"
    unfolding u32_view_def u64_view_def f_def using assms by (simp add: u32_halves comp_def del: drop_bit_or)
  also have "\<dots> ! k = f (k div 2) ! (k mod 2)" using concat_map_nth [of f 2 "k div 2" n "k mod 2"] k by (simp add: f_def)
  also have "\<dots> = xs ! k" by (cases "even k") (auto simp: f_def odd_two_times_div_two_succ mod_2_eq_odd)
  finally show "u32_view (u64_view xs) ! k = xs ! k" .
qed

definition triple :: "'a list \<Rightarrow> 'a list" where
  "triple w = w @ w @ w"

lemma rm_encode_length [simp]: "length (rm_encode x) = 4"
  by (simp add: rm_encode_def Let_def)

lemma encode_block:
  assumes "12 * i + 12 \<le> length a" "length w = 4"
  shows "fold (\<lambda>copy a. memcpy_at a (4 * (i * MULTIPLICITY + copy)) (take 4 (drop (4 * (i * MULTIPLICITY)) a))) [1..<MULTIPLICITY]
      (memcpy_at a (4 * (i * MULTIPLICITY)) w) = take (12 * i) a @ triple w @ drop (12 * i + 12) a"
  unfolding upt_copies using assms by (simp add: memcpy_at_def triple_def algebra_simps)

lemma encode_loop:
  assumes "length a = 12 * 46" "\<And>i. length (w i) = 4" "n \<le> 46"
  shows "fold (\<lambda>i a. fold (\<lambda>copy a. memcpy_at a (4 * (i * MULTIPLICITY + copy)) (take 4 (drop (4 * (i * MULTIPLICITY)) a))) [1..<MULTIPLICITY]
      (memcpy_at a (4 * (i * MULTIPLICITY)) (w i))) [0..<n] a = concat (map (\<lambda>i. triple (w i)) [0..<n]) @ drop (12 * n) a"
  using assms(3)
proof (induction n)
  case (Suc n)
  have "length (concat (map (\<lambda>i. triple (w i)) [0..<n])) = 12 * n" by (induction n) (simp_all add: triple_def assms(2))
  then show ?case using Suc encode_block [of n "concat (map (\<lambda>i. triple (w i)) [0..<n]) @ drop (12 * n) a" "w n"] assms(1,2) by simp
qed simp

lemma reed_muller_encode_view:
  assumes "length cdw = VEC_N1N2_SIZE_64"
  shows "u32_view (reed_muller_encode cdw msg) = concat (map (\<lambda>i. triple (rm_encode (ucast (word_bytes msg ! i)))) [0..<PARAM_N1])"
    and "length (reed_muller_encode cdw msg) = VEC_N1N2_SIZE_64"
proof -
  let ?c = "concat (map (\<lambda>i. triple (rm_encode (ucast (word_bytes msg ! i)))) [0..<46])"
  have l: "length ?c = 12 * 46" unfolding length_concat map_map by (simp add: comp_def triple_def sum_list_triv)
  have e: "reed_muller_encode cdw msg = u64_view ?c"
    unfolding reed_muller_encode_def Let_def using encode_loop [of "u32_view cdw" "\<lambda>i. rm_encode (ucast (word_bytes msg ! i))" 46] assms by simp
  show "u32_view (reed_muller_encode cdw msg) = ?c" unfolding e by (rule u32_view_u64_view [of _ 276]) (simp add: l)
  show "length (reed_muller_encode cdw msg) = VEC_N1N2_SIZE_64" unfolding e by (simp add: l)
qed

text \<open>The three copies of byte \<open>i\<close> of a received vector.\<close>

definition rm_block :: "u64 list \<Rightarrow> nat \<Rightarrow> u32 list" where
  "rm_block cdw i = drop (12 * i) (u32_view cdw)"

lemma reed_muller_encode_block:
  assumes "length cdw = VEC_N1N2_SIZE_64" "i < PARAM_N1" "c < MULTIPLICITY" "p < 128"
  shows "block_bit (rm_block (reed_muller_encode cdw msg) i) c p \<longleftrightarrow> rm_bit (unat (word_bytes msg ! i)) p"
proof -
  define w where "w i = rm_encode (ucast (word_bytes msg ! i))" for i
  have p: "p div 32 < 4" "4 * c + p div 32 < 12" using assms(3,4) by auto
  have l: "12 * i + (4 * c + p div 32) \<le> 2 * 276" using assms(2) p by linarith
  have "rm_block (reed_muller_encode cdw msg) i ! (4 * c + p div 32) = concat (map (\<lambda>i. triple (w i)) [0..<46]) ! (12 * i + (4 * c + p div 32))"
    unfolding rm_block_def using l assms(1) reed_muller_encode_view(2) [OF assms(1), of msg]
    by (subst nth_drop) (simp_all add: reed_muller_encode_view(1) [OF assms(1), symmetric] w_def)
  also have "\<dots> = triple (w i) ! (4 * c + p div 32)"
    using assms(2) p(2) by (intro concat_map_nth) (simp_all add: triple_def w_def)
  also have "\<dots> = w i ! (p div 32)"
  proof -
    from assms(3) consider "c = 0" | "c = 1" | "c = 2" by linarith
    then show ?thesis using p(1) by cases (simp_all add: triple_def nth_append w_def)
  qed
  finally show ?thesis using rm_encode_bit [OF assms(4)] by (simp add: block_bit_def w_def)
qed

lemma reed_muller_encode_errors:
  "length cdw = VEC_N1N2_SIZE_64 \<Longrightarrow> i < PARAM_N1 \<Longrightarrow> rm_errors (unat (word_bytes msg ! i)) (rm_block (reed_muller_encode cdw msg) i) = 0"
  unfolding rm_errors_def wrong_bits_def by (intro sum.neutral ballI) (simp add: reed_muller_encode_block)

lemma reed_muller_decode_bytes:
  assumes "length msg = VEC_N1_SIZE_64" "k < 48"
  shows "word_bytes (reed_muller_decode msg cdw) ! k =
      (if k < PARAM_N1 then of_nat (rm_decode_block (rm_block cdw k)) else word_bytes msg ! k)"
    and "length (reed_muller_decode msg cdw) = VEC_N1_SIZE_64"
proof -
  let ?f = "fold (\<lambda>i a. a[i := of_nat (rm_decode_block (rm_block cdw i))]) [0..<46] (word_bytes msg)"
  have twelve: "4 * (i * MULTIPLICITY) = 12 * i" for i :: nat by simp
  have e: "reed_muller_decode msg cdw = bytes_words ?f"
    unfolding reed_muller_decode_def Let_def rm_block_def twelve ..
  have l: "length ?f = 48" using assms by (subst fold_update_nth(2)) simp_all
  then show "length (reed_muller_decode msg cdw) = VEC_N1_SIZE_64" by (simp add: e)
  have "word_bytes (reed_muller_decode msg cdw) = ?f" unfolding e by (rule word_bytes_bytes_words) (simp add: l)
  then show "word_bytes (reed_muller_decode msg cdw) ! k =
      (if k < PARAM_N1 then of_nat (rm_decode_block (rm_block cdw k)) else word_bytes msg ! k)"
    using assms by (simp add: fold_update_nth)
qed

lemma reed_muller_decode_length [simp]: "length msg = VEC_N1_SIZE_64 \<Longrightarrow> length (reed_muller_decode msg cdw) = VEC_N1_SIZE_64"
  by (rule reed_muller_decode_bytes(2) [of msg 0]) simp_all

section \<open>Error correction\<close>

text \<open>
  C13. The decoder of the duplicated Reed-Muller code corrects errors.  When in every block of 384 bits of the received
  vector fewer than 96 bits differ from the code word of byte \<open>i\<close> of \<open>m\<close>, the decoder returns the 46 bytes of
  \<open>m\<close>, and leaves the two bytes of padding of the last word as they were; and every entry of its 16-bit
  arrays stays between -384 and 384 in each of the seven passes of the transform.
\<close>

theorem reed_muller_corrects_errors:
  assumes "length msg = VEC_N1_SIZE_64"
    and "\<And>i. i < PARAM_N1 \<Longrightarrow> rm_errors (unat (word_bytes m ! i)) (rm_block cdw i) < 96"
  shows "take PARAM_N1 (word_bytes (reed_muller_decode msg cdw)) = map (\<lambda>i. word_bytes m ! i) [0..<PARAM_N1] \<and>
    drop PARAM_N1 (word_bytes (reed_muller_decode msg cdw)) = drop PARAM_N1 (word_bytes msg) \<and>
    (\<forall>i t q. t \<le> 7 \<longrightarrow> q < 128 \<longrightarrow> \<bar>(hadamard_pass ^^ t) (expand_and_sum (rm_block cdw i)) ! q\<bar> \<le> 384)"
proof (intro conjI allI impI)
  have "of_nat (rm_decode_block (rm_block cdw i)) = word_bytes m ! i" if "i < PARAM_N1" for i
    using rm_decode_block_correct [OF assms(2) [OF that]] by simp
  then show "take PARAM_N1 (word_bytes (reed_muller_decode msg cdw)) = map (\<lambda>i. word_bytes m ! i) [0..<PARAM_N1]"
    using assms(1) by (intro nth_equalityI) (simp_all add: reed_muller_decode_bytes)
  show "drop PARAM_N1 (word_bytes (reed_muller_decode msg cdw)) = drop PARAM_N1 (word_bytes msg)"
    using assms(1) by (intro nth_equalityI) (simp_all add: reed_muller_decode_bytes)
qed (rule hadamard_16_bits)

theorem reed_muller_corrects_errors_witness:
  "take PARAM_N1 (word_bytes (reed_muller_decode (replicate 6 0) (reed_muller_encode (replicate 276 0) [1, 2, 3, 4, 5, 6]))) =
     map (\<lambda>i. word_bytes [1, 2, 3, 4, 5, 6] ! i) [0..<PARAM_N1]"
  using reed_muller_corrects_errors [of "replicate 6 0" "[1, 2, 3, 4, 5, 6]" "reed_muller_encode (replicate 276 0) [1, 2, 3, 4, 5, 6]"]
  by (simp add: reed_muller_encode_errors)

end
