(* ===== verification/Hqc_Format.thy ===== *)
theory Hqc_Format
  imports Hqc_Vector_Lemmas
begin

text \<open>The byte formats of keys and cipher texts are read back as they were written.\<close>

lemma memcpy_at_prefix: "length a = n \<Longrightarrow> length b = length buf - n \<Longrightarrow> n \<le> length buf \<Longrightarrow> memcpy_at (memcpy_at buf 0 a) n b = a @ b"
  by (simp add: memcpy_at_def)

lemma public_key_string:
  assumes "length pk = PUBLIC_KEY_BYTES" "length pk_seed = SEED_BYTES" "length s = VEC_N_SIZE_64"
  shows "hqc_public_key_to_string pk pk_seed s = pk_seed @ take VEC_N_SIZE_BYTES (word_bytes s)"
  unfolding hqc_public_key_to_string_def using assms by (subst memcpy_at_prefix) simp_all

lemma secret_key_string:
  assumes "length sk = SEED_BYTES + PUBLIC_KEY_BYTES" "length sk_seed = SEED_BYTES" "length pk = PUBLIC_KEY_BYTES"
  shows "hqc_secret_key_to_string sk sk_seed pk = sk_seed @ pk"
  unfolding hqc_secret_key_to_string_def using assms by (subst memcpy_at_prefix) simp_all

lemma ciphertext_string:
  assumes "length ct = 4481" "length u = VEC_N_SIZE_64" "length v = VEC_N1N2_SIZE_64" "length d = SHAKE256_512_BYTES"
  shows "hqc_ciphertext_to_string ct u v d = take VEC_N_SIZE_BYTES (word_bytes u) @ word_bytes v @ d"
  unfolding hqc_ciphertext_to_string_def Let_def using assms by (simp add: memcpy_at_def)

lemma memcpy_words_all:
  "length v = VEC_N1N2_SIZE_64 \<Longrightarrow> memcpy_words (replicate VEC_N1N2_SIZE_64 0) (word_bytes v) = v"
  using memcpy_words_word_bytes [of v "replicate 276 0"] by simp

lemma public_key_read:
  assumes "length pk = PUBLIC_KEY_BYTES" "length pk_seed = SEED_BYTES" "vec_ok s"
  shows "hqc_public_key_from_string (replicate VEC_N_SIZE_64 0) (replicate VEC_N_SIZE_64 0) (hqc_public_key_to_string pk pk_seed s) =
    (fst (vect_set_random (seedexpander_init pk_seed) (replicate VEC_N_SIZE_64 0)), s)"
  using assms vec_ok_length [OF assms(3)] memcpy_words_vec_ok [OF assms(3)]
  by (simp add: hqc_public_key_from_string_def public_key_string Let_def split_beta)

lemma ciphertext_read:
  assumes "length ct = 4481" "vec_ok u" "length v = VEC_N1N2_SIZE_64" "length d = SHAKE256_512_BYTES"
  shows "hqc_ciphertext_from_string (replicate VEC_N_SIZE_64 0) (replicate VEC_N1N2_SIZE_64 0) (replicate SHAKE256_512_BYTES 0)
      (hqc_ciphertext_to_string ct u v d) = (u, v, d)"
  using assms vec_ok_length [OF assms(2)] memcpy_words_vec_ok [OF assms(2)] memcpy_words_all [OF assms(3)]
  by (simp add: hqc_ciphertext_from_string_def ciphertext_string) (simp add: memcpy_at_def)

lemma secret_key_read:
  assumes "length sk = SEED_BYTES + PUBLIC_KEY_BYTES" "length sk_seed = SEED_BYTES" "length pk = PUBLIC_KEY_BYTES"
  shows "hqc_secret_key_from_string x y (hqc_secret_key_to_string sk sk_seed pk) =
    Option.bind (vect_set_random_fixed_weight (seedexpander_init sk_seed) x PARAM_OMEGA) (\<lambda>(x, ctx).
    Option.bind (vect_set_random_fixed_weight ctx y PARAM_OMEGA) (\<lambda>(y, ctx). Some (x, y, pk)))"
  using assms by (simp add: hqc_secret_key_from_string_def secret_key_string)

section \<open>Round trips\<close>

text \<open>
  A public key and a cipher text are read back as they were written: the seed, from which the reader expands the
  vector \<open>h\<close>, the vectors \<open>s\<close>, \<open>u\<close> and \<open>v\<close>, of which the 2209 and 2208 bytes in the format hold every bit, and
  the hash \<open>d\<close>.
\<close>

lemma hqc_formats_roundtrip:
  assumes "length pk = PUBLIC_KEY_BYTES" "length pk_seed = SEED_BYTES" "vec_ok s"
    and "length ct = 4481" "vec_ok u" "length v = VEC_N1N2_SIZE_64" "length d = SHAKE256_512_BYTES"
  shows "take SEED_BYTES (hqc_public_key_to_string pk pk_seed s) = pk_seed \<and>
    hqc_public_key_from_string (replicate VEC_N_SIZE_64 0) (replicate VEC_N_SIZE_64 0) (hqc_public_key_to_string pk pk_seed s) =
      (fst (vect_set_random (seedexpander_init pk_seed) (replicate VEC_N_SIZE_64 0)), s) \<and>
    hqc_ciphertext_from_string (replicate VEC_N_SIZE_64 0) (replicate VEC_N1N2_SIZE_64 0) (replicate SHAKE256_512_BYTES 0)
      (hqc_ciphertext_to_string ct u v d) = (u, v, d)"
  using assms vec_ok_length [OF assms(3)] public_key_read [OF assms(1-3)] ciphertext_read [OF assms(4-7)]
  by (simp add: public_key_string)

lemma vec_ok_pad:
  assumes "length v = VEC_N1N2_SIZE_64"
  shows "vec_ok (v @ [0])"
proof -
  have "\<not> bit (vval (v @ [0])) k" if "PARAM_N \<le> k" for k
  proof (cases "k < 64 * 277")
    case True
    then have "k div 64 = 276" using that div_le_mono [of PARAM_N k 64] by (simp add: less_mult_imp_div_less order_antisym)
    then show ?thesis using assms by (simp add: bit_vval nth_append)
  qed (simp add: bit_vval assms)
  then have "vval (v @ [0]) < 2 ^ PARAM_N" unfolding less_exp_bits by blast
  moreover have "length (v @ [0]) = VEC_N_SIZE_64" using assms by simp
  ultimately show ?thesis unfolding vec_ok_def by blast
qed

lemma hqc_formats_roundtrip_witness:
  "hqc_ciphertext_from_string (replicate VEC_N_SIZE_64 0) (replicate VEC_N1N2_SIZE_64 0) (replicate SHAKE256_512_BYTES 0)
      (hqc_ciphertext_to_string (replicate 4481 0) (replicate 276 5 @ [0]) (replicate 276 7) (replicate 64 9)) =
    (replicate 276 5 @ [0], replicate 276 7, replicate 64 9)"
  using hqc_formats_roundtrip [of "replicate 2249 0" "replicate 40 1" "replicate 276 3 @ [0]" "replicate 4481 0"
      "replicate 276 5 @ [0]" "replicate 276 7" "replicate 64 9"] vec_ok_pad [of "replicate 276 3"] vec_ok_pad [of "replicate 276 5"]
  by simp

section \<open>The product of vectors\<close>

text \<open>
  C17. \<open>vect_mul\<close> is the product of two polynomials over GF(2) modulo \<open>X^PARAM_N - 1\<close>: its recursive multiplication in
  the scratch area and the masked table look-ups compute the carry-less product, and the reduction the remainder,
  which again is a vector of \<open>PARAM_N\<close> bits.
\<close>

theorem vect_mul_is_ring_product:
  assumes "vec_ok a1" "vec_ok a2"
  shows "vec_ok (vect_mul a1 a2) \<and> vval (vect_mul a1 a2) = ring_mod PARAM_N (clmul (vval a1) (vval a2))"
  using vect_mul_correct [OF assms] by blast

theorem vect_mul_is_ring_product_witness:
  "vec_ok (vect_mul (replicate 276 3 @ [0]) (replicate 276 5 @ [0])) \<and>
   vval (vect_mul (replicate 276 3 @ [0]) (replicate 276 5 @ [0])) = ring_mod PARAM_N (clmul (vval (replicate 276 3 @ [0])) (vval (replicate 276 5 @ [0])))"
  by (rule vect_mul_is_ring_product) (rule vec_ok_pad, simp)+

end
