(* ===== verification/Hqc_Noise.thy ===== *)
theory Hqc_Noise
  imports Hqc_Kem Reed_Muller_Decode Hqc_Format
begin

text \<open>
  What the decoder of a decryption sees: the vectors of \<open>PARAM_N\<close> bits form a commutative ring, in which the
  difference of the two parts of a cipher text is the code word of the message plus a noise vector.
\<close>

section \<open>Interface: a ring of vectors\<close>

text \<open>
  The laws of addition and multiplication that the encryption needs: on well-formed vectors, a commutative and
  associative product that distributes over an addition of which every vector is its own inverse.
\<close>

locale vector_ring =
  fixes ok :: "'v \<Rightarrow> bool" and mul :: "'v \<Rightarrow> 'v \<Rightarrow> 'v" and add :: "'v \<Rightarrow> 'v \<Rightarrow> 'v"
  assumes mul_ok: "ok a \<Longrightarrow> ok b \<Longrightarrow> ok (mul a b)"
    and add_ok: "ok a \<Longrightarrow> ok b \<Longrightarrow> ok (add a b)"
    and mul_commute: "ok a \<Longrightarrow> ok b \<Longrightarrow> mul a b = mul b a"
    and mul_assoc: "ok a \<Longrightarrow> ok b \<Longrightarrow> ok c \<Longrightarrow> mul (mul a b) c = mul a (mul b c)"
    and mul_add: "ok a \<Longrightarrow> ok b \<Longrightarrow> ok c \<Longrightarrow> mul a (add b c) = add (mul a b) (mul a c)"
    and add_commute: "ok a \<Longrightarrow> ok b \<Longrightarrow> add a b = add b a"
    and add_assoc: "ok a \<Longrightarrow> ok b \<Longrightarrow> ok c \<Longrightarrow> add (add a b) c = add a (add b c)"
    and add_cancel: "ok a \<Longrightarrow> ok b \<Longrightarrow> add a (add a b) = b"
begin

lemma mul_left_commute: "ok a \<Longrightarrow> ok b \<Longrightarrow> ok c \<Longrightarrow> mul a (mul b c) = mul b (mul a c)"
  using mul_assoc mul_commute by metis

lemma add_left_commute: "ok a \<Longrightarrow> ok b \<Longrightarrow> ok c \<Longrightarrow> add a (add b c) = add b (add a c)"
  using add_assoc add_commute by metis

text \<open>The noise of a decryption: with \<open>u = r1 + r2 h\<close> and \<open>s = x + y h\<close>, the products with \<open>h\<close> cancel.\<close>

lemma noise:
  assumes "ok x" "ok y" "ok h" "ok r1" "ok r2" "ok e" "ok c"
  shows "add (add c (add e (mul r2 (add x (mul y h))))) (mul y (add r1 (mul r2 h))) = add c (add e (add (mul x r2) (mul r1 y)))"
proof -
  let ?t = "mul r2 (mul y h)"
  have ok: "ok ?t" "ok (mul r2 x)" "ok (mul y r1)" "ok (add (mul r2 x) ?t)" "ok (add (mul y r1) ?t)" "ok (add e (add (mul r2 x) ?t))"
    using assms by (simp_all add: mul_ok add_ok)
  have "mul y (add r1 (mul r2 h)) = add (mul y r1) ?t" "mul r2 (add x (mul y h)) = add (mul r2 x) ?t"
    using assms by (simp_all add: mul_add mul_ok mul_left_commute [of y r2 h])
  then have "add (add c (add e (mul r2 (add x (mul y h))))) (mul y (add r1 (mul r2 h))) =
      add c (add e (add (add (mul r2 x) ?t) (add (mul y r1) ?t)))"
    using assms ok by (simp add: add_assoc add_ok)
  also have "add (add (mul r2 x) ?t) (add (mul y r1) ?t) = add (mul r2 x) (add ?t (add ?t (mul y r1)))"
    using assms ok by (simp add: add_assoc add_ok add_commute [of "mul y r1" ?t])
  also have "\<dots> = add (mul x r2) (mul r1 y)" using assms ok by (simp add: add_cancel mul_commute)
  finally show ?thesis .
qed

end

section \<open>The vectors of the code\<close>

abbreviation vadd :: "u64 list \<Rightarrow> u64 list \<Rightarrow> u64 list" where
  "vadd v w \<equiv> vect_add v w VEC_N_SIZE_64"

lemma vec_ok_eqI: "vec_ok v \<Longrightarrow> vec_ok w \<Longrightarrow> vval v = vval w \<Longrightarrow> v = w"
  using vval_inject [of v w] vec_ok_length by metis

lemma vval_vadd: "vec_ok v \<Longrightarrow> vec_ok w \<Longrightarrow> vval (vadd v w) = vval v XOR vval w"
  using vval_vect_add [of v 277 w] vec_ok_length by metis

lemmas vval_simps = vval_vadd vect_add_ok vect_mul_correct

lemma ring_mod_laws:
  "ring_mod PARAM_N (a XOR b) = ring_mod PARAM_N a XOR ring_mod PARAM_N b"
  "ring_mod PARAM_N (clmul a (ring_mod PARAM_N b)) = ring_mod PARAM_N (clmul a b)"
  "ring_mod PARAM_N (clmul (ring_mod PARAM_N a) b) = ring_mod PARAM_N (clmul a b)"
proof -
  obtain n :: nat where n: "n = PARAM_N" by simp
  have m: "modulus n (2 ^ n XOR 1)" by (rule ring_modulus) (simp add: n)
  show "ring_mod PARAM_N (a XOR b) = ring_mod PARAM_N a XOR ring_mod PARAM_N b"
    "ring_mod PARAM_N (clmul a (ring_mod PARAM_N b)) = ring_mod PARAM_N (clmul a b)"
    "ring_mod PARAM_N (clmul (ring_mod PARAM_N a) b) = ring_mod PARAM_N (clmul a b)"
    unfolding n [symmetric] ring_mod_def by (simp_all only: pmod_xor pmod_clmul_right [OF m] pmod_clmul_left [OF m])
qed

interpretation hqc_ring: vector_ring vec_ok vect_mul vadd
proof
  fix a b c
  assume a: "vec_ok a" and b: "vec_ok b"
  show "vec_ok (vect_mul a b)" using a b by (rule vect_mul_correct)
  show "vec_ok (vadd a b)" using a b by (rule vect_add_ok)
  show "vect_mul a b = vect_mul b a"
    using a b by (intro vec_ok_eqI) (simp_all only: vval_simps clmul_commute)
  show "vadd a b = vadd b a"
    using a b by (intro vec_ok_eqI) (simp_all only: vval_simps xor.commute)
  show "vadd a (vadd a b) = b"
    using a b by (intro vec_ok_eqI) (simp_all only: vval_simps xor.assoc [symmetric] xor_self_eq xor.left_neutral)
  assume c: "vec_ok c"
  show "vect_mul (vect_mul a b) c = vect_mul a (vect_mul b c)"
    using a b c by (intro vec_ok_eqI) (simp_all only: vval_simps ring_mod_laws clmul_assoc)
  show "vect_mul a (vadd b c) = vadd (vect_mul a b) (vect_mul a c)"
    using a b c by (intro vec_ok_eqI) (simp_all only: vval_simps ring_mod_laws clmul_xor_right)
  show "vadd (vadd a b) c = vadd a (vadd b c)"
    using a b c by (intro vec_ok_eqI) (simp_all only: vval_simps xor.assoc)
qed

section \<open>Decryption\<close>

lemma rm_decode_block_cong:
  assumes "\<And>k. k < 12 \<Longrightarrow> a ! k = b ! k"
  shows "rm_decode_block a = rm_decode_block b"
proof -
  have "block_bit a c p = block_bit b c p" if "c < MULTIPLICITY" "p < 128" for c p
    unfolding block_bit_def using that assms [of "4 * c + p div 32"] by (simp add: less_mult_imp_div_less)
  then have "expand_and_sum a = expand_and_sum b"
    by (intro nth_equalityI) (simp_all add: expand_and_sum_nth)
  then show ?thesis by (simp add: rm_decode_block_def)
qed

lemma u32_view_append: "u32_view (v @ w) = u32_view v @ u32_view w"
  by (simp add: u32_view_def)

lemma code_decode_take:
  assumes "VEC_N1N2_SIZE_64 \<le> length em"
  shows "code_decode m em = code_decode m (take VEC_N1N2_SIZE_64 em)"
proof -
  have "rm_decode_block (rm_block em i) = rm_decode_block (rm_block (take 276 em) i)" if "i < 46" for i
  proof (rule rm_decode_block_cong)
    fix k :: nat assume k: "k < 12"
    define a where "a = take 276 em"
    have "u32_view em = u32_view a @ u32_view (drop 276 em)" unfolding a_def by (simp flip: u32_view_append)
    moreover have "length a = 276" "k < 552 - 12 * i" using assms that k by (simp_all add: a_def)
    ultimately show "rm_block em i ! k = rm_block (take 276 em) i ! k"
      using that k unfolding a_def [symmetric] by (simp add: rm_block_def nth_append)
  qed
  then have "word_bytes (reed_muller_decode (replicate 6 0) em) = word_bytes (reed_muller_decode (replicate 6 0) (take 276 em))"
    by (intro nth_equalityI) (simp_all add: reed_muller_decode_bytes)
  then show ?thesis unfolding code_decode_def using bytes_words_word_bytes by metis
qed

text \<open>The noise: the error vector and the two products of the small vectors.\<close>

definition pke_noise :: "u64 list \<Rightarrow> u64 list \<Rightarrow> u64 list \<Rightarrow> u64 list \<Rightarrow> u64 list \<Rightarrow> u64 list" where
  "pke_noise x y r1 r2 e = vadd e (vadd (vect_mul x r2) (vect_mul r1 y))"

lemma take_vect_add: "k \<le> n \<Longrightarrow> take k (vect_add v w n) = vect_add v w k"
  by (simp add: vect_add_def take_map)

lemma vect_add_take: "k \<le> length v \<Longrightarrow> k \<le> length w \<Longrightarrow> vect_add (take k v @ z) w k = vect_add v w k"
  by (simp add: vect_add_def nth_append)

lemma code_encode_length [simp]: "length v = VEC_N1N2_SIZE_64 \<Longrightarrow> length (code_encode v m) = VEC_N1N2_SIZE_64"
  by (simp add: code_encode_def reed_muller_encode_view)

lemma decrypt_encrypt:
  assumes ok: "vec_ok x" "vec_ok y" "vec_ok h" "vec_ok r1" "vec_ok r2" "vec_ok e" and v0: "length v0 = VEC_N1N2_SIZE_64"
    and uv: "pke_encrypt v0 m h (pke_public x y h) r1 r2 e = (u, v)"
  shows "pke_decrypt m' u v y = code_decode m' (vect_add (code_encode v0 m) (pke_noise x y r1 r2 e) VEC_N1N2_SIZE_64)"
proof -
  define c where "c = code_encode v0 m"
  define T where "T = vadd (c @ [0]) (vadd e (vect_mul r2 (vadd x (vect_mul y h))))"
  have c: "length c = 276" "vec_ok (c @ [0])" using v0 by (simp_all add: c_def vec_ok_pad)
  have u: "u = vadd r1 (vect_mul r2 h)" and v: "v = take 276 T"
    using uv c(1) unfolding pke_encrypt_def pke_public_def Let_def c_def [symmetric]
    by (simp_all add: vect_resize_up vect_resize_down T_def)
  have T: "length T = 277" by (simp add: T_def)
  have "pke_decrypt m' u v y = code_decode m' (vadd (take 276 T @ [0]) (vect_mul y u))"
    unfolding pke_decrypt_def Let_def v using T by (simp add: vect_resize_up)
  also have "\<dots> = code_decode m' (vect_add (take 276 T @ [0]) (vect_mul y u) 276)"
    by (subst code_decode_take) (simp_all add: take_vect_add)
  also have "vect_add (take 276 T @ [0]) (vect_mul y u) 276 = take 276 (vadd T (vect_mul y u))"
    using T vec_ok_length [OF vect_mul_correct(1) [OF ok(2), of u]] ok
    by (simp add: take_vect_add vect_add_take u hqc_ring.add_ok hqc_ring.mul_ok)
  also have "vadd T (vect_mul y u) = vadd (c @ [0]) (pke_noise x y r1 r2 e)"
    unfolding T_def u pke_noise_def using ok c(2) by (intro hqc_ring.noise)
  also have "take 276 \<dots> = vect_add c (pke_noise x y r1 r2 e) 276"
    using c(1) by (simp add: take_vect_add) (simp add: vect_add_def nth_append)
  finally show ?thesis unfolding c_def .
qed

end
