(* ===== verification/Hqc_Decaps.thy ===== *)
theory Hqc_Decaps
  imports Hqc_Noise
begin

text \<open>The result of decapsulation: the secret when the cipher text is one of the message it decrypts to, zeros otherwise.\<close>

section \<open>Lengths\<close>

lemma kem_hash_length [simp]: "length (kem_hash x d) = 64"
  by (simp add: kem_hash_def shake256_512_ds_def Let_def)

lemma ciphertext_read_lengths:
  assumes "hqc_ciphertext_from_string zero_n (replicate VEC_N1N2_SIZE_64 0) (replicate SHAKE256_512_BYTES 0) ct = (u, v, d)"
  shows "length u = VEC_N_SIZE_64" "length v = VEC_N1N2_SIZE_64" "length d = SHAKE256_512_BYTES"
  using assms by (auto simp: hqc_ciphertext_from_string_def memcpy_words_length memcpy_at_def)

lemma encrypt_lengths:
  assumes "hqc_pke_encrypt v0 m theta pk = Some (u, v)" "length v0 = VEC_N1N2_SIZE_64"
  shows "length u = VEC_N_SIZE_64" "length v = VEC_N1N2_SIZE_64"
proof -
  obtain h s r1 r2 e where "pke_encrypt v0 m h s r1 r2 e = (u, v)"
    using assms(1) by (auto simp: hqc_pke_encrypt_def Let_def bind_eq_Some_conv split: prod.splits)
  then show "length u = VEC_N_SIZE_64" "length v = VEC_N1N2_SIZE_64"
    using assms(2) by (auto simp: pke_encrypt_def Let_def vect_resize_down)
qed

section \<open>Comparison\<close>

lemma nth_eq_take: "n \<le> length a \<Longrightarrow> n \<le> length b \<Longrightarrow> (\<forall>i<n. a ! i = b ! i) \<longleftrightarrow> take n a = take n b"
  by (auto simp: list_eq_iff_nth_eq)

lemma kem_mask_eq:
  assumes "length u = 277" "length u2 = 277" "length v = 276" "length v2 = 276" "length d = 64" "length d2 = 64"
  shows "kem_mask u v d u2 v2 d2 =
    (if take VEC_N_SIZE_BYTES (word_bytes u) = take VEC_N_SIZE_BYTES (word_bytes u2) \<and> v = v2 \<and> d = d2 then 0 else 0xff)"
proof -
  have v: "(\<forall>i<2208. word_bytes v ! i = word_bytes v2 ! i) \<longleftrightarrow> v = v2"
    using nth_eq_take [of 2208 "word_bytes v" "word_bytes v2"] assms by (simp, metis bytes_words_word_bytes)
  have d: "(\<forall>i<64. d ! i = d2 ! i) \<longleftrightarrow> d = d2" using nth_eq_take [of 64 d d2] assms by simp
  have u: "(\<forall>i<2209. word_bytes u ! i = word_bytes u2 ! i) \<longleftrightarrow> take 2209 (word_bytes u) = take 2209 (word_bytes u2)"
    using assms by (intro nth_eq_take) simp_all
  show ?thesis unfolding kem_mask_def Let_def vect_compare_eq u v d by simp
qed

lemma decapsulation_cases:
  "hqc_kem_dec ct sk =
     (let (u, v, d) = hqc_ciphertext_from_string zero_n (replicate VEC_N1N2_SIZE_64 0) (replicate SHAKE256_512_BYTES 0) ct
      in Option.bind (hqc_pke_decrypt (replicate VEC_K_SIZE_64 0) u v sk) (\<lambda>m.
         Option.bind (hqc_pke_encrypt (replicate VEC_N1N2_SIZE_64 0) m (kem_hash (take VEC_K_SIZE_BYTES (word_bytes m)) G_FCT_DOMAIN)
             (take PUBLIC_KEY_BYTES (drop SEED_BYTES sk))) (\<lambda>(u2, v2).
         Some (if take VEC_N_SIZE_BYTES (word_bytes u) = take VEC_N_SIZE_BYTES (word_bytes u2) \<and> v = v2 \<and>
                  d = kem_hash (take VEC_K_SIZE_BYTES (word_bytes m)) H_FCT_DOMAIN
               then (0, kem_hash (kem_mc m u v) K_FCT_DOMAIN) else (- 1, replicate 64 0)))))"
proof -
  obtain u v d where uvd: "hqc_ciphertext_from_string zero_n (replicate VEC_N1N2_SIZE_64 0) (replicate SHAKE256_512_BYTES 0) ct = (u, v, d)"
    by (rule prod_cases3)
  note l = ciphertext_read_lengths [OF uvd]
  show ?thesis
  proof (cases "hqc_pke_decrypt (replicate VEC_K_SIZE_64 0) u v sk")
    case None
    then show ?thesis by (simp add: hqc_kem_dec_def uvd)
  next
    case (Some m)
    let ?e = "hqc_pke_encrypt (replicate VEC_N1N2_SIZE_64 0) m (kem_hash (take VEC_K_SIZE_BYTES (word_bytes m)) G_FCT_DOMAIN) (take PUBLIC_KEY_BYTES (drop SEED_BYTES sk))"
    show ?thesis
    proof (cases ?e)
      case None
      then show ?thesis using Some by (simp add: hqc_kem_dec_def uvd)
    next
      case e: (Some uv)
      obtain u2 v2 where uv: "uv = (u2, v2)" by fastforce
      have l2: "length u2 = 277" "length v2 = 276" using encrypt_lengths [OF e [unfolded uv]] by simp_all
      have z0: "(- 256 :: u8) = 0" by (simp add: word_eq_iff_unsigned)
      have z: "map (\<lambda>b. b AND - 256) xs = replicate (length xs) 0" for xs :: "u8 list" unfolding z0 by (simp add: map_replicate_const)
      show ?thesis using Some e l l2 unfolding uv by (simp add: hqc_kem_dec_def uvd Let_def kem_mask_eq z)
    qed
  qed
qed

text \<open>
  C14. What decapsulation returns for every cipher text and secret key for which the sampling ends: the message is
  decrypted and encrypted again; when this gives the same vectors and the same hash the result is 0 with the secret
  derived from the message and the cipher text, and otherwise -1 with 64 bytes of zeros.
\<close>

theorem decapsulation_result:
  "hqc_kem_dec ct sk =
     (let (u, v, d) = hqc_ciphertext_from_string zero_n (replicate VEC_N1N2_SIZE_64 0) (replicate SHAKE256_512_BYTES 0) ct
      in Option.bind (hqc_pke_decrypt (replicate VEC_K_SIZE_64 0) u v sk) (\<lambda>m.
         Option.bind (hqc_pke_encrypt (replicate VEC_N1N2_SIZE_64 0) m (kem_hash (take VEC_K_SIZE_BYTES (word_bytes m)) G_FCT_DOMAIN)
             (take PUBLIC_KEY_BYTES (drop SEED_BYTES sk))) (\<lambda>(u2, v2).
         Some (if take VEC_N_SIZE_BYTES (word_bytes u) = take VEC_N_SIZE_BYTES (word_bytes u2) \<and> v = v2 \<and>
                  d = kem_hash (take VEC_K_SIZE_BYTES (word_bytes m)) H_FCT_DOMAIN
               then (0, kem_hash (kem_mc m u v) K_FCT_DOMAIN) else (- 1, replicate 64 0)))))"
  by (rule decapsulation_cases)

end
