(* ===== verification/Fft_Lemmas.thy ===== *)
theory Fft_Lemmas
  imports Fft
begin

text \<open>
  The additive Fourier transform evaluates a polynomial with 16 coefficients at every element of the field, and the
  error array has a one at the position of every root.
\<close>

section \<open>Bytes in arrays of 16-bit words\<close>

definition small :: "u16 list \<Rightarrow> bool" where
  "small xs \<longleftrightarrow> (\<forall>x\<in>set xs. unat x < 256)"

lemma small_nth: "small xs \<Longrightarrow> i < length xs \<Longrightarrow> unat (xs ! i) < 256"
  by (simp add: small_def)

lemma small_replicate [simp]: "small (replicate n 0)"
  by (simp add: small_def)

lemma small_update [simp]: "small xs \<Longrightarrow> unat v < 256 \<Longrightarrow> small (xs[i := v])"
  using set_update_subset_insert [of xs i v] by (auto simp: small_def)

lemma unat_xor_small [simp]: "unat (a :: u16) < 256 \<Longrightarrow> unat b < 256 \<Longrightarrow> unat (a XOR b) < 256"
  using xor_less_256 [of "unat a" "unat b"] by (simp add: unsigned_xor_eq)

lemma small_fold_update:
  assumes "small w" "\<And>i w. i \<in> set is \<Longrightarrow> length w = n \<Longrightarrow> small w \<Longrightarrow> unat (v i w) < 256" "length w = n"
  shows "small (fold (\<lambda>i w. w[k i := v i w]) is w)"
  using assms by (induction "is" arbitrary: w) simp_all

lemma length_fold_update [simp]: "length (fold (\<lambda>i w. w[k i := v i w]) is w) = length w"
  by (induction "is" arbitrary: w) simp_all

section \<open>Subset sums\<close>

definition ssum :: "(nat \<Rightarrow> gf256) \<Rightarrow> nat \<Rightarrow> nat \<Rightarrow> gf256" where
  "ssum b m i = (\<Sum>j<m. if bit i j then b j else 0)"

lemma ssum_0 [simp]: "ssum b m 0 = 0" "ssum b 0 i = 0"
  by (simp_all add: ssum_def)

lemma bit_exp_add: "i < 2 ^ m \<Longrightarrow> j \<le> m \<Longrightarrow> bit (2 ^ m + i) j \<longleftrightarrow> j = m \<or> bit i j" for i :: nat
proof -
  assume i: "i < 2 ^ m" and j: "j \<le> m"
  have nb: "\<not> bit i m" using i by (metis bit_take_bit_iff less_irrefl take_bit_nat_eq_self_iff)
  have "2 ^ m AND i = 0" by (rule bit_eqI) (auto simp: bit_and_iff bit_exp_iff nb)
  then have "2 ^ m + i = 2 ^ m OR i" by (rule disjunctive_add_eq_or)
  then show ?thesis by (auto simp: bit_or_iff bit_exp_iff)
qed

lemma ssum_low: "i < 2 ^ m \<Longrightarrow> ssum b (Suc m) i = ssum b m i"
  using bit_take_bit_iff [of m i m] by (simp add: ssum_def take_bit_nat_eq_self)

lemma ssum_high: "i < 2 ^ m \<Longrightarrow> ssum b (Suc m) (2 ^ m + i) = ssum b m i + b m"
  unfolding ssum_def lessThan_Suc by (simp add: bit_exp_add cong: if_cong)

lemma ssum_scale: "ssum (\<lambda>j. b j * c) m i = ssum b m i * c"
  unfolding ssum_def sum_distrib_right by (rule sum.cong) auto

lemma gf256_square_add: "(a + b :: gf256)\<^sup>2 = a\<^sup>2 + b\<^sup>2"
  by (simp add: power2_eq_square algebra_simps)

lemma ssum_frobenius: "ssum (\<lambda>j. (b j)\<^sup>2 + b j) m i = (ssum b m i)\<^sup>2 + ssum b m i"
proof (induction m)
  case (Suc m)
  have "ssum b (Suc m) i = ssum b m i + (if bit i m then b m else 0)" for b by (simp add: ssum_def)
  then show ?case using Suc by (simp add: gf256_square_add algebra_simps)
qed simp

text \<open>The loop that doubles the filled part of an array.\<close>

lemma doubling_loop:
  assumes "2 * x \<le> length w" "n \<le> x"
  shows "i < length w \<Longrightarrow> fold (\<lambda>k w. w[x + k := g (w ! k)]) [0..<n] w ! i = (if x \<le> i \<and> i < x + n then g (w ! (i - x)) else w ! i)"
  using assms(2)
proof (induction n arbitrary: i)
  case (Suc n)
  define f where "f = fold (\<lambda>k w. w[x + k := g (w ! k)]) [0..<n] w"
  have "f ! n = w ! n" unfolding f_def using Suc assms(1) by simp
  moreover have "f ! i = (if x \<le> i \<and> i < x + n then g (w ! (i - x)) else w ! i)" unfolding f_def using Suc by simp
  moreover have "length f = length w" by (simp add: f_def)
  ultimately have "f[x + n := g (f ! n)] ! i = (if x \<le> i \<and> i < x + Suc n then g (w ! (i - x)) else w ! i)"
    using Suc.prems assms(1) by (cases "i = x + n") (auto simp: nth_list_update)
  then show ?case by (simp add: f_def)
qed auto

definition fill :: "(nat \<Rightarrow> u16) \<Rightarrow> nat \<Rightarrow> u16 list \<Rightarrow> u16 list" where
  "fill t n w = fold (\<lambda>i w. fold (\<lambda>k w. w[2 ^ i + k := w ! k XOR t i]) [0..<2 ^ i] w) [0..<n] w"

lemma fill_Suc: "fill t (Suc n) w = fold (\<lambda>k w. w[2 ^ n + k := w ! k XOR t n]) [0..<2 ^ n] (fill t n w)"
  by (simp add: fill_def)

lemma fill_0 [simp]: "fill t 0 w = w"
  by (simp add: fill_def)

lemma fill_length [simp]: "length (fill t n w) = length w"
  by (induction n) (simp_all add: fill_Suc)

lemma fill_nth:
  assumes "2 ^ n \<le> length w" "i < 2 ^ n"
  shows "gf (fill t n w ! i) = gf (w ! 0) + ssum (\<lambda>j. gf (t j)) n i"
  using assms
proof (induction n arbitrary: i)
  case (Suc n)
  let ?w = "fill t n w"
  have i: "i < length ?w" and l: "2 * 2 ^ n \<le> length ?w" using Suc.prems by simp_all
  have f: "fill t (Suc n) w ! i = (if 2 ^ n \<le> i \<and> i < 2 ^ n + 2 ^ n then ?w ! (i - 2 ^ n) XOR t n else ?w ! i)"
    unfolding fill_Suc by (rule doubling_loop [OF l order_refl i])
  show ?case
  proof (cases "i < 2 ^ n")
    case True
    then show ?thesis using f Suc by (simp add: ssum_low)
  next
    case False
    define k where "k = i - 2 ^ n"
    have k: "i = 2 ^ n + k" "k < 2 ^ n" using False Suc.prems(2) by (simp_all add: k_def)
    then show ?thesis using f Suc.IH [of k] Suc.prems(1) by (simp add: ssum_high gf_xor add.assoc)
  qed
qed simp

lemma fill_small: "small w \<Longrightarrow> 2 ^ n \<le> length w \<Longrightarrow> (\<And>j. j < n \<Longrightarrow> unat (t j) < 256) \<Longrightarrow> small (fill t n w)"
proof (induction n)
  case (Suc n)
  then have "2 ^ n \<le> length w" by simp
  then show ?case unfolding fill_Suc using Suc
    by (intro small_fold_update [where n = "length w"]) (auto intro!: unat_xor_small small_nth)
qed simp

lemma subset_sums_fill: "compute_subset_sums w bset n = fill (\<lambda>i. bset ! i) n (w[0 := 0])"
  unfolding compute_subset_sums_def fill_def by (simp only: xor.commute)

lemma subset_sums_nth:
  "2 ^ n \<le> length w \<Longrightarrow> i < 2 ^ n \<Longrightarrow> gf (compute_subset_sums w bset n ! i) = ssum (\<lambda>j. gf (bset ! j)) n i"
  unfolding subset_sums_fill by (cases "length w = 0") (simp_all add: fill_nth)

section \<open>Polynomials\<close>

text \<open>The value of the polynomial whose \<open>n\<close> coefficients are in an array.\<close>

definition ev :: "u16 list \<Rightarrow> nat \<Rightarrow> gf256 \<Rightarrow> gf256" where
  "ev f n x = (\<Sum>j<n. gf (f ! j) * x ^ j)"

lemma fft_base_fill:
  assumes "m \<le> 5"
  shows "fft_base w f m betas = fill (\<lambda>j. gf_mul (betas ! j) (f ! 1)) m (w[0 := f ! 0])"
proof -
  define tmp where "tmp = fold (\<lambda>i tmp. tmp[i := gf_mul (betas ! i) (f ! 1)]) [0..<m] (replicate 5 (0 :: u16))"
  have tmp: "tmp ! j = gf_mul (betas ! j) (f ! 1)" if "j < m" for j
  proof -
    have "n \<le> m \<Longrightarrow> fold (\<lambda>i tmp. tmp[i := gf_mul (betas ! i) (f ! 1)]) [0..<n] (replicate 5 (0 :: u16)) ! j =
        (if j < n then gf_mul (betas ! j) (f ! 1) else 0)" for n
      using that assms by (induction n) (auto simp: nth_list_update less_Suc_eq)
    then show ?thesis using that by (simp add: tmp_def)
  qed
  have "n \<le> m \<Longrightarrow> fold (\<lambda>j (w, x). (fold (\<lambda>k w. w[x + k := w ! k XOR tmp ! j]) [0..<x] w, x * 2)) [0..<n] (w, 1) =
      (fill (\<lambda>j. gf_mul (betas ! j) (f ! 1)) n w, 2 ^ n)" for n w
    by (induction n) (simp_all add: fill_Suc tmp)
  then show ?thesis unfolding fft_base_def Let_def by (simp add: tmp_def)
qed

lemma fft_base_nth:
  assumes "m \<le> 5" "2 ^ m \<le> length w" "i < 2 ^ m"
  shows "gf (fft_base w f m betas ! i) = ev f 2 (ssum (\<lambda>j. gf (betas ! j)) m i)"
proof -
  have "0 < length w" using assms(2) by (cases w) simp_all
  then show ?thesis using assms
    by (simp add: fft_base_fill fill_nth gf_mul ssum_scale ev_def numeral_2_eq_2 algebra_simps)
qed

section \<open>The radix conversion\<close>

lemma gf256_double: "2 = (0 :: gf256)"
  by (metis gf256_add_self(1) one_add_one)

lemma radix_powers:
  fixes x :: gf256
  defines "y \<equiv> x\<^sup>2 + x"
  shows "y ^ 2 = x ^ 4 + x ^ 2" "y ^ 3 = x ^ 6 + x ^ 5 + x ^ 4 + x ^ 3" "y ^ 4 = x ^ 8 + x ^ 4"
    "y ^ 5 = x ^ 10 + x ^ 9 + x ^ 6 + x ^ 5" "y ^ 6 = x ^ 12 + x ^ 10 + x ^ 8 + x ^ 6"
    "y ^ 7 = x ^ 14 + x ^ 13 + x ^ 12 + x ^ 11 + x ^ 10 + x ^ 9 + x ^ 8 + x ^ 7"
proof -
  have 1: "y = x ^ 2 + x" by (simp add: y_def)
  show 2: "y ^ 2 = x ^ 4 + x ^ 2" unfolding 1 gf256_square_add by (simp flip: power_mult)
  have "y ^ 4 = (y ^ 2) ^ 2" by (simp flip: power_mult)
  then show 4: "y ^ 4 = x ^ 8 + x ^ 4" unfolding 2 gf256_square_add by (simp flip: power_mult)
  have "y ^ 3 = y ^ 2 * y" by (simp add: power2_eq_square power3_eq_cube)
  also have "\<dots> = x ^ 6 + x ^ 5 + x ^ 4 + x ^ 3" unfolding 2 unfolding 1 by (simp add: algebra_simps flip: power_Suc power_Suc2 power_add)
  finally show 3: "y ^ 3 = x ^ 6 + x ^ 5 + x ^ 4 + x ^ 3" .
  have "y ^ 5 = y ^ 4 * y" by (simp flip: power_Suc2)
  also have "\<dots> = x ^ 10 + x ^ 9 + x ^ 6 + x ^ 5" unfolding 4 unfolding 1 by (simp add: algebra_simps flip: power_Suc power_Suc2 power_add)
  finally show "y ^ 5 = x ^ 10 + x ^ 9 + x ^ 6 + x ^ 5" .
  have "y ^ 6 = (y ^ 3) ^ 2" by (simp flip: power_mult)
  then show "y ^ 6 = x ^ 12 + x ^ 10 + x ^ 8 + x ^ 6" unfolding 3 gf256_square_add by (simp flip: power_mult)
  have "y ^ 7 = y ^ 4 * y ^ 3" by (simp flip: power_add)
  also have "\<dots> = x ^ 14 + x ^ 13 + x ^ 12 + x ^ 11 + x ^ 10 + x ^ 9 + x ^ 8 + x ^ 7"
    unfolding 4 3 by (simp add: algebra_simps flip: power_Suc power_Suc2 power_add)
  finally show "y ^ 7 = x ^ 14 + x ^ 13 + x ^ 12 + x ^ 11 + x ^ 10 + x ^ 9 + x ^ 8 + x ^ 7" .
qed

lemma ev_expand:
  "ev f 2 x = gf (f ! 0) + gf (f ! 1) * x"
  "ev f 4 x = gf (f ! 0) + gf (f ! 1) * x + gf (f ! 2) * x ^ 2 + gf (f ! 3) * x ^ 3"
  "ev f 8 x = ev f 4 x + gf (f ! 4) * x ^ 4 + gf (f ! 5) * x ^ 5 + gf (f ! 6) * x ^ 6 + gf (f ! 7) * x ^ 7"
  "ev f 16 x = ev f 8 x + gf (f ! 8) * x ^ 8 + gf (f ! 9) * x ^ 9 + gf (f ! 10) * x ^ 10 + gf (f ! 11) * x ^ 11 +
     gf (f ! 12) * x ^ 12 + gf (f ! 13) * x ^ 13 + gf (f ! 14) * x ^ 14 + gf (f ! 15) * x ^ 15"
  unfolding ev_def by (simp_all add: lessThan_nat_numeral lessThan_Suc algebra_simps eval_nat_numeral)

lemma x_powers: "(x :: gf256) * x ^ 2 = x ^ 3" "x * x ^ 3 = x ^ 4" "x * x ^ 4 = x ^ 5" "x * x ^ 5 = x ^ 6" "x * x ^ 6 = x ^ 7" "x * x ^ 7 = x ^ 8"
  "x * x ^ 8 = x ^ 9" "x * x ^ 9 = x ^ 10" "x * x ^ 10 = x ^ 11" "x * x ^ 11 = x ^ 12" "x * x ^ 12 = x ^ 13" "x * x ^ 13 = x ^ 14"
  "x * x ^ 14 = x ^ 15" "x * x = x ^ 2"
  by (simp_all only: power2_eq_square flip: power_Suc) (simp_all add: power3_eq_cube)

lemmas radix_simps = distrib_left distrib_right add_ac mult.left_commute [of x "gf a" for x a] x_powers gf256_double

lemma radix_2_ev:
  assumes "length f0 = 4" "length f1 = 4" "radix_2 f0 f1 f = (g0, g1)"
  shows "ev f 4 x = ev g0 2 (x\<^sup>2 + x) + x * ev g1 2 (x\<^sup>2 + x)"
proof -
  have g: "g0 ! 0 = f ! 0" "g0 ! 1 = f ! 2 XOR f ! 3" "g1 ! 0 = f ! 1 XOR (f ! 2 XOR f ! 3)" "g1 ! 1 = f ! 3"
    using assms by (auto simp: radix_2_def Let_def)
  show ?thesis unfolding ev_expand g gf_xor by (simp add: radix_simps)
qed

lemma radix_3_ev:
  assumes "length f0 = 4" "length f1 = 4" "radix_3 f0 f1 f = (g0, g1)"
  shows "ev f 8 x = ev g0 4 (x\<^sup>2 + x) + x * ev g1 4 (x\<^sup>2 + x)"
proof -
  have g: "g0 ! 0 = f ! 0" "g0 ! 1 = f ! 2 XOR (f ! 4 XOR f ! 6) XOR (f ! 3 XOR f ! 5 XOR f ! 7)" "g0 ! 2 = f ! 4 XOR f ! 6" "g0 ! 3 = f ! 6 XOR f ! 7"
    "g1 ! 0 = f ! 1 XOR f ! 2 XOR (f ! 4 XOR f ! 6) XOR (f ! 3 XOR f ! 5 XOR f ! 7)" "g1 ! 1 = f ! 3 XOR f ! 5 XOR f ! 7" "g1 ! 2 = f ! 5 XOR f ! 6" "g1 ! 3 = f ! 7"
    using assms by (auto simp: radix_3_def Let_def)
  show ?thesis unfolding ev_expand g gf_xor radix_powers by (simp add: radix_simps)
qed

lemma radix_4_ev:
  assumes "length f0 = 8" "length f1 = 8" "radix_4 f0 f1 f = (g0, g1)"
  shows "ev f 16 x = ev g0 8 (x\<^sup>2 + x) + x * ev g1 8 (x\<^sup>2 + x)"
proof -
  have g: "g0 ! 7 = f ! 14 XOR f ! 15" "g0 ! 6 = f ! 12 XOR f ! 14" "g1 ! 7 = f ! 15" "g1 ! 6 = f ! 13 XOR f ! 14"
    "g1 ! 5 = f ! 11 XOR f ! 13" "g0 ! 4 = f ! 8 XOR f ! 12" "g0 ! 5 = f ! 10 XOR f ! 12 XOR g1 ! 5" "g1 ! 4 = f ! 9 XOR f ! 13 XOR g0 ! 5"
    "g0 ! 0 = f ! 0" "g1 ! 3 = f ! 7 XOR f ! 11 XOR f ! 15" "g0 ! 3 = f ! 6 XOR f ! 10 XOR f ! 14 XOR g1 ! 3" "g0 ! 2 = f ! 4 XOR g0 ! 4 XOR g0 ! 3 XOR g1 ! 3"
    "g1 ! 1 = f ! 3 XOR f ! 5 XOR f ! 9 XOR f ! 13 XOR g1 ! 3" "g1 ! 2 = f ! 3 XOR g1 ! 1 XOR g0 ! 3" "g0 ! 1 = f ! 2 XOR g0 ! 2 XOR g1 ! 1" "g1 ! 0 = f ! 1 XOR g0 ! 1"
    using assms by (auto simp: radix_4_def Let_def)
  show ?thesis unfolding ev_expand unfolding g unfolding gf_xor radix_powers by (simp add: radix_simps)
qed

section \<open>The recursion\<close>

definition twist_step :: "u16 \<Rightarrow> nat \<Rightarrow> u16 list \<times> u16 \<Rightarrow> u16 list \<times> u16" where
  "twist_step beta i = (\<lambda>(f, p). let p = gf_mul p beta in (f[i := gf_mul p (f ! i)], p))"

lemma twist_loop:
  assumes "Suc n \<le> length f"
    and "fold (twist_step beta) [1..<Suc n] (f, 1) = (g, q)"
  shows "length g = length f \<and> gf q = gf beta ^ n \<and> (small f \<longrightarrow> small g) \<and>
    (\<forall>j<length f. gf (g ! j) = (if j \<le> n then gf beta ^ j else 1) * gf (f ! j))"
  using assms
proof (induction n arbitrary: g q)
  case (Suc n)
  obtain g' q' where s: "fold (twist_step beta) [1..<Suc n] (f, 1) = (g', q')"
    by fastforce
  then have "(g, q) = twist_step beta (Suc n) (g', q')"
    using Suc.prems(2) upt_Suc_append [of 1 "Suc n"] by (simp del: upt_Suc)
  then have gq: "g = g'[Suc n := gf_mul (gf_mul q' beta) (g' ! Suc n)]" "q = gf_mul q' beta"
    by (simp_all add: twist_step_def Let_def)
  have ih: "length g' = length f" "gf q' = gf beta ^ n" "small f \<longrightarrow> small g'"
    "\<And>j. j < length f \<Longrightarrow> gf (g' ! j) = (if j \<le> n then gf beta ^ j else 1) * gf (f ! j)"
    using Suc.IH [OF _ s] Suc.prems(1) by simp_all
  then have v: "gf (gf_mul (gf_mul q' beta) (g' ! Suc n)) = gf beta ^ Suc n * gf (f ! Suc n)"
    using Suc.prems(1) by (simp add: gf_mul mult_ac)
  show ?case using ih Suc.prems(1) v by (auto simp: gq gf_mul nth_list_update le_Suc_eq)
qed auto

lemma twist_ev:
  assumes "2 ^ m_f \<le> length f"
  shows "ev (fft_twist f beta m_f) (2 ^ m_f) x = ev f (2 ^ m_f) (gf beta * x)"
    and "length (fft_twist f beta m_f) = length f" and "small f \<Longrightarrow> small (fft_twist f beta m_f)"
proof -
  obtain n where n: "2 ^ m_f = Suc n" by (metis not0_implies_Suc power_not_zero zero_neq_numeral)
  obtain g q where s: "fold (twist_step beta) [1..<Suc n] (f, 1) = (g, q)"
    by fastforce
  have t: "fft_twist f beta m_f = (if beta = 1 then f else g)" using s by (simp add: fft_twist_def n twist_step_def [abs_def] del: upt_Suc)
  note l = twist_loop [OF _ s] assms [unfolded n]
  show "ev (fft_twist f beta m_f) (2 ^ m_f) x = ev f (2 ^ m_f) (gf beta * x)"
    unfolding t n ev_def using l by (cases "beta = 1") (auto simp: power_mult_distrib mult_ac intro: sum.cong)
  show "length (fft_twist f beta m_f) = length f" "small f \<Longrightarrow> small (fft_twist f beta m_f)"
    unfolding t using l by auto
qed

definition combine_step :: "nat \<Rightarrow> (nat \<Rightarrow> u16) \<Rightarrow> nat \<Rightarrow> u16 list \<Rightarrow> u16 list" where
  "combine_step k a i w = (let w = w[i := a i] in w[k + i := w ! (k + i) XOR w ! i])"

lemma combine_loop:
  assumes "2 * k \<le> length w" "n \<le> k" "1 \<le> n"
  shows "length (fold (combine_step k a) [1..<n] w) = length w"
    and "i < length w \<Longrightarrow> fold (combine_step k a) [1..<n] w ! i =
      (if 1 \<le> i \<and> i < n then a i else if k + 1 \<le> i \<and> i < k + n then w ! i XOR a (i - k) else w ! i)"
proof -
  show l: "length (fold (combine_step k a) is w) = length w" for "is"
    by (induction "is" arbitrary: w) (simp_all add: combine_step_def Let_def)
  show "i < length w \<Longrightarrow> fold (combine_step k a) [1..<n] w ! i =
      (if 1 \<le> i \<and> i < n then a i else if k + 1 \<le> i \<and> i < k + n then w ! i XOR a (i - k) else w ! i)"
    using assms(2,3)
  proof (induction n arbitrary: i)
    case (Suc n)
    show ?case
    proof (cases "n = 0")
      case False
      define g where "g = fold (combine_step k a) [1..<n] w"
      have lg: "length g = length w" unfolding g_def by (rule l)
      have g: "j < length w \<Longrightarrow> g ! j = (if 1 \<le> j \<and> j < n then a j else if k + 1 \<le> j \<and> j < k + n then w ! j XOR a (j - k) else w ! j)" for j
        unfolding g_def using Suc False by simp
      have "fold (combine_step k a) [1..<Suc n] w = g[n := a n, k + n := g ! (k + n) XOR a n]"
        using False lg Suc.prems assms(1) upt_Suc_append [of 1 n] unfolding g_def by (simp add: combine_step_def Let_def del: upt_Suc)
      then show ?thesis using Suc.prems assms(1) False lg by (auto simp: nth_list_update g)
    qed auto
  qed simp
qed

lemma fft_combine_nth:
  assumes "length w = 2 * k" "0 < k" "k \<le> length u" "k \<le> length v" "i < k" "gf (gs ! 0) = 0"
  shows "gf (fft_combine w k u v gs ! i) = gf (u ! i) + gf (gs ! i) * gf (v ! i)"
    and "gf (fft_combine w k u v gs ! (k + i)) = gf (u ! i) + (gf (gs ! i) + 1) * gf (v ! i)"
    and "length (fft_combine w k u v gs) = 2 * k"
    and "small u \<Longrightarrow> small v \<Longrightarrow> unat (fft_combine w k u v gs ! i) < 256 \<and> unat (fft_combine w k u v gs ! (k + i)) < 256"
proof -
  define w' where "w' = (memcpy_at w k (take k v))[0 := u ! 0, k := memcpy_at w k (take k v) ! k XOR u ! 0]"
  have m: "length (memcpy_at w k (take k v)) = 2 * k" using assms by simp
  have l: "length w' = 2 * k" using assms m by (simp add: w'_def)
  have w': "w' ! 0 = u ! 0" "w' ! k = v ! 0 XOR u ! 0" "\<And>j. 0 < j \<Longrightarrow> j < k \<Longrightarrow> w' ! (k + j) = v ! j"
    using assms m by (simp_all add: w'_def nth_memcpy_at nth_list_update)
  let ?a = "\<lambda>i. u ! i XOR gf_mul (gs ! i) (v ! i)"
  have c: "fft_combine w k u v gs = fold (combine_step k ?a) [1..<k] w'"
    using assms m unfolding fft_combine_def w'_def combine_step_def [abs_def] by (simp add: Let_def nth_list_update)
  note cl = combine_loop [of k w' k, where a = ?a, folded c]
  show "length (fft_combine w k u v gs) = 2 * k" using cl(1) l assms(2) by simp
  show "gf (fft_combine w k u v gs ! i) = gf (u ! i) + gf (gs ! i) * gf (v ! i)"
    using cl(2) [of i] l w' assms by (cases "i = 0") (simp_all add: gf_xor gf_mul)
  show "gf (fft_combine w k u v gs ! (k + i)) = gf (u ! i) + (gf (gs ! i) + 1) * gf (v ! i)"
    using cl(2) [of "k + i"] l w' assms by (cases "i = 0") (simp_all add: gf_xor gf_mul algebra_simps)
  show "unat (fft_combine w k u v gs ! i) < 256 \<and> unat (fft_combine w k u v gs ! (k + i)) < 256" if "small u" "small v"
  proof -
    have "unat (u ! i) < 256" "unat (v ! i) < 256" using that assms by (simp_all add: small_nth)
    then show ?thesis using cl(2) [of i] cl(2) [of "k + i"] l w' assms by (cases "i = 0") simp_all
  qed
qed

lemma fft_gammas_nth:
  assumes "fft_gammas betas m = (gammas, deltas)" "i < m - 1" "m \<le> 7"
  shows "gf (gammas ! i) = gf (betas ! i) * inverse (gf (betas ! (m - 1)))" and "gf (deltas ! i) = (gf (gammas ! i))\<^sup>2 + gf (gammas ! i)"
proof -
  let ?g = "\<lambda>i. gf_mul (betas ! i) (gf_inverse (betas ! (m - 1)))"
  let ?F = "\<lambda>i (gammas, deltas). let gammas = gammas[i := ?g i] in (gammas, deltas[i := gf_square (gammas ! i) XOR gammas ! i])"
  have "n \<le> 6 \<Longrightarrow> fold ?F [0..<n] (replicate 6 0, replicate 6 0) = (g, d) \<Longrightarrow>
      length g = 6 \<and> length d = 6 \<and> (\<forall>i<n. g ! i = ?g i \<and> d ! i = gf_square (?g i) XOR ?g i)" for n g d
  proof (induction n arbitrary: g d)
    case (Suc n)
    obtain g' d' where s: "fold ?F [0..<n] (replicate 6 0, replicate 6 0) = (g', d')" by fastforce
    then show ?case using Suc.IH [OF _ s] Suc.prems by (auto simp: nth_list_update less_Suc_eq Let_def)
  qed auto
  from this [of "m - 1" gammas deltas] assms have e: "gammas ! i = ?g i" "deltas ! i = gf_square (?g i) XOR ?g i"
    unfolding fft_gammas_def by simp_all
  then show "gf (gammas ! i) = gf (betas ! i) * inverse (gf (betas ! (m - 1)))" by (simp add: gf_mul gf_inverse)
  show "gf (deltas ! i) = (gf (gammas ! i))\<^sup>2 + gf (gammas ! i)" unfolding e gf_xor gf_square power2_eq_square ..
qed

text \<open>What a transform of \<open>f\<close> with the basis \<open>b\<close> has to return.\<close>

definition evaluates :: "u16 list \<Rightarrow> u16 list \<Rightarrow> nat \<Rightarrow> nat \<Rightarrow> (nat \<Rightarrow> gf256) \<Rightarrow> bool" where
  "evaluates r f n m b \<longleftrightarrow> 2 ^ m \<le> length r \<and> (\<forall>i<2 ^ m. gf (r ! i) = ev f n (ssum b m i)) \<and> small r"

lemma evaluates_base:
  assumes "m \<le> 5" "small f" "length f = 4"
  shows "evaluates (fft_rec (replicate 64 0) f c m 1 betas) f 2 m (\<lambda>j. gf (betas ! j))"
proof -
  have m: "2 ^ m \<le> (64 :: nat)" using power_increasing [of m 6 "2 :: nat"] assms(1) by simp
  have "fft_rec (replicate 64 0) f c m 1 betas = fft_base (replicate 64 0) f m betas" by (simp add: fft_rec.simps)
  moreover have "small (fft_base (replicate 64 0) f m betas)"
    unfolding fft_base_fill [OF assms(1)] using m assms small_nth [OF assms(2), of 0] by (intro fill_small) simp_all
  moreover have "length (fft_base (replicate 64 0) f m betas) = 64" by (simp add: fft_base_fill [OF assms(1)])
  ultimately show ?thesis using m assms(1) fft_base_nth [of m "replicate 64 0"] by (simp add: evaluates_def)
qed

lemma combine_evaluates:
  assumes w: "length w = 2 * 2 ^ m" and u: "evaluates u f0 n m d" and v: "evaluates v f1 n m d"
    and gs: "\<And>i. i < 2 ^ m \<Longrightarrow> gf (gs ! i) = x i" and d: "\<And>i. i < 2 ^ m \<Longrightarrow> ssum d m i = (x i)\<^sup>2 + x i" and "x 0 = 0"
    and b: "\<And>i. i < 2 ^ m \<Longrightarrow> ssum b m i = beta * x i" "b m = beta"
    and f: "\<And>y. ev f N (beta * y) = ev f0 n (y\<^sup>2 + y) + y * ev f1 n (y\<^sup>2 + y)"
  shows "evaluates (fft_combine w (2 ^ m) u v gs) f N (Suc m) b"
proof -
  let ?r = "fft_combine w (2 ^ m) u v gs"
  have uv: "2 ^ m \<le> length u" "2 ^ m \<le> length v" "small u" "small v"
    and ui: "i < 2 ^ m \<Longrightarrow> gf (u ! i) = ev f0 n ((x i)\<^sup>2 + x i)" and vi: "i < 2 ^ m \<Longrightarrow> gf (v ! i) = ev f1 n ((x i)\<^sup>2 + x i)" for i
    using u v d by (simp_all add: evaluates_def)
  have g0: "gf (gs ! 0) = 0" using gs [of 0] assms(6) by simp
  note c = fft_combine_nth [OF w _ uv(1,2) _ g0, simplified]
  have sq: "(y + 1)\<^sup>2 + (y + 1) = y\<^sup>2 + y" for y :: gf256 by (simp add: gf256_square_add add_ac)
  have "gf (?r ! i) = ev f N (ssum b (Suc m) i) \<and> unat (?r ! i) < 256" if "i < 2 ^ Suc m" for i
  proof (cases "i < 2 ^ m")
    case True
    then show ?thesis using c(1) [of i] c(4) [of i] uv by (simp add: gs ui vi ssum_low b f)
  next
    case False
    define k where "k = i - 2 ^ m"
    have k: "i = 2 ^ m + k" "k < 2 ^ m" using False that by (simp_all add: k_def)
    have "gf (?r ! i) = ev f0 n ((x k)\<^sup>2 + x k) + (x k + 1) * ev f1 n ((x k)\<^sup>2 + x k)"
      unfolding k(1) using c(2) [OF k(2)] by (simp only: gs [OF k(2)] ui [OF k(2)] vi [OF k(2)])
    also have "\<dots> = ev f N (beta * (x k + 1))" unfolding f sq ..
    also have "beta * (x k + 1) = ssum b (Suc m) i" unfolding k(1) ssum_high [OF k(2)] b(1) [OF k(2)] b(2) by (simp add: algebra_simps)
    finally show ?thesis using c(4) [OF k(2) uv(3,4)] k(1) by simp
  qed
  moreover have "length ?r = 2 * 2 ^ m" using c(3) [of 0] by simp
  ultimately show ?thesis by (auto simp: evaluates_def small_def in_set_conv_nth)
qed

lemma radix_halves:
  assumes "m_f = 2 \<or> m_f = 3" "small f" "length f = 2 ^ m_f" "radix (replicate 4 0) (replicate 4 0) f m_f = (f0, f1)"
  shows "small f0" "small f1" "length f0 = 4" "length f1 = 4"
    and "ev f (2 ^ m_f) x = ev f0 (2 ^ (m_f - 1)) (x\<^sup>2 + x) + x * ev f1 (2 ^ (m_f - 1)) (x\<^sup>2 + x)"
proof -
  note fn = small_nth [OF assms(2)]
  from assms(1) consider "m_f = 2" | "m_f = 3" by blast
  then have "small f0 \<and> small f1 \<and> length f0 = 4 \<and> length f1 = 4 \<and>
      ev f (2 ^ m_f) x = ev f0 (2 ^ (m_f - 1)) (x\<^sup>2 + x) + x * ev f1 (2 ^ (m_f - 1)) (x\<^sup>2 + x)"
  proof cases
    case 1
    with assms(4) have r: "radix_2 (replicate 4 0) (replicate 4 0) f = (f0, f1)" by (simp add: radix.simps)
    have "length f = 4" using assms(3) 1 by simp
    then show ?thesis using radix_2_ev [OF _ _ r] r 1 fn by (auto simp: radix_2_def Let_def)
  next
    case 2
    with assms(4) have r: "radix_3 (replicate 4 0) (replicate 4 0) f = (f0, f1)" by (simp add: radix.simps)
    have "length f = 8" using assms(3) 2 by simp
    then show ?thesis using radix_3_ev [OF _ _ r] r 2 fn by (auto simp: radix_3_def Let_def)
  qed
  then show "small f0" "small f1" "length f0 = 4" "length f1 = 4"
    and "ev f (2 ^ m_f) x = ev f0 (2 ^ (m_f - 1)) (x\<^sup>2 + x) + x * ev f1 (2 ^ (m_f - 1)) (x\<^sup>2 + x)" by auto
qed

lemma fft_rec_step:
  assumes m_f: "m_f = 2 \<or> m_f = 3" and M: "M \<le> 6" and f: "small f" "length f = 2 ^ m_f" and w: "length w = 2 * 2 ^ M"
    and beta: "gf (betas ! M) \<noteq> 0" and gd: "fft_gammas betas (Suc M) = (gammas, deltas)"
    and rec: "\<And>g. small g \<Longrightarrow> length g = 4 \<Longrightarrow>
      evaluates (fft_rec (replicate 64 0) g (2 ^ (m_f - 1)) M (m_f - 1) deltas) g (2 ^ (m_f - 1)) M (\<lambda>j. gf (deltas ! j))"
  shows "evaluates (fft_rec w f (2 ^ m_f) (Suc M) m_f betas) f (2 ^ m_f) (Suc M) (\<lambda>j. gf (betas ! j))"
proof -
  define F where "F = fft_twist f (betas ! M) m_f"
  define B where "B = gf (betas ! M)"
  obtain f0 f1 where r: "radix (replicate 4 0) (replicate 4 0) F m_f = (f0, f1)" by fastforce
  have F: "small F" "length F = 2 ^ m_f" "ev F (2 ^ m_f) y = ev f (2 ^ m_f) (B * y)" for y
    using twist_ev [of m_f f "betas ! M"] f by (simp_all add: F_def B_def)
  note rh = radix_halves [OF m_f F(1,2) r]
  let ?gs = "compute_subset_sums (replicate 64 0) gammas M"
  let ?x = "\<lambda>i. ssum (\<lambda>j. gf (gammas ! j)) M i"
  have "M AND mask 4 = take_bit 4 M" by (rule take_bit_eq_mask [symmetric])
  then have MM: "M AND 15 = M" using M by (simp add: mask_eq_exp_minus_1 take_bit_nat_eq_self)
  have "2 ^ m_f \<noteq> (0 :: nat)" "\<not> 2 ^ m_f \<le> (3 :: nat)" "(2 ^ m_f + 1) div 2 = (2 ^ (m_f - 1) :: nat)" "2 ^ m_f div 2 = (2 ^ (m_f - 1) :: nat)"
    using m_f by auto
  then have step: "fft_rec w f (2 ^ m_f) (Suc M) m_f betas = fft_combine w (2 ^ M)
      (fft_rec (replicate 64 0) f0 (2 ^ (m_f - 1)) M (m_f - 1) deltas) (fft_rec (replicate 64 0) f1 (2 ^ (m_f - 1)) M (m_f - 1) deltas) ?gs"
    using m_f gd r unfolding fft_rec.simps [of w f] F_def by (auto simp: MM Let_def)
  have l: "2 ^ M \<le> (64 :: nat)" using power_increasing [of M 6 "2 :: nat"] M by simp
  have g: "ssum (\<lambda>j. gf (betas ! j)) M i = B * ?x i" for i
  proof -
    have "?x i = ssum (\<lambda>j. gf (betas ! j) * inverse B) M i"
      unfolding ssum_def using fft_gammas_nth(1) [OF gd] M by (intro sum.cong) (auto simp: B_def)
    then show ?thesis using beta by (simp add: ssum_scale B_def)
  qed
  have d: "ssum (\<lambda>j. gf (deltas ! j)) M i = (?x i)\<^sup>2 + ?x i" for i
  proof -
    have "ssum (\<lambda>j. gf (deltas ! j)) M i = ssum (\<lambda>j. (gf (gammas ! j))\<^sup>2 + gf (gammas ! j)) M i"
      unfolding ssum_def using fft_gammas_nth(2) [OF gd] M by (intro sum.cong) auto
    then show ?thesis by (simp only: ssum_frobenius)
  qed
  show ?thesis unfolding step
  proof (rule combine_evaluates [where x = ?x and beta = B, OF w rec [OF rh(1,3)] rec [OF rh(2,4)]])
    show "gf (?gs ! i) = ?x i" if "i < 2 ^ M" for i using that l by (simp add: subset_sums_nth)
    show "ev f (2 ^ m_f) (B * y) = ev f0 (2 ^ (m_f - 1)) (y\<^sup>2 + y) + y * ev f1 (2 ^ (m_f - 1)) (y\<^sup>2 + y)" for y
      using rh(5) [of y] F(3) by simp
  qed (simp_all add: d g B_def)
qed

section \<open>The whole transform\<close>

lemma betas_nth: "j < 7 \<Longrightarrow> compute_fft_betas (replicate 7 0) ! j = 2 ^ (7 - j)"
  and betas_length [simp]: "length (compute_fft_betas w) = length w"
proof -
  have "n \<le> 7 \<Longrightarrow> fold (\<lambda>i betas. betas[i := push_bit (8 - 1 - i) 1]) [0..<n] (replicate 7 0) ! j = (if j < n then push_bit (7 - j) 1 else 0 :: u16)" if "j < 7" for n
    using that by (induction n) (auto simp: nth_list_update less_Suc_eq)
  then show "j < 7 \<Longrightarrow> compute_fft_betas (replicate 7 0) ! j = 2 ^ (7 - j)" by (simp add: compute_fft_betas_def push_bit_eq_mult)
qed (simp add: compute_fft_betas_def)

text \<open>The elements at which the transform evaluates: the subset sums of 128, 64, ..., 2, and the same plus 1.\<close>

definition fft_point :: "nat \<Rightarrow> gf256" where
  "fft_point i = (if i < 128 then ssum (\<lambda>j. gf (2 ^ (7 - j))) 7 i else ssum (\<lambda>j. gf (2 ^ (7 - j))) 7 (i - 128) + 1)"

lemma gf_power_2: "k < 8 \<Longrightarrow> gf (2 ^ k) = alpha ^ k"
proof -
  assume k: "k < 8"
  have "gf_exp ! k = 2 ^ k" using k by (auto simp: gf_exp_def less_Suc_eq numeral_eq_Suc)
  then show ?thesis using gf_exp_alpha [of k] k by simp
qed

lemma alpha_powers_independent: "alpha\<^sup>2 + alpha \<noteq> 0" "(alpha ^ 2)\<^sup>2 + alpha ^ 2 \<noteq> 0" "(alpha ^ 2)\<^sup>2 + alpha ^ 2 \<noteq> alpha\<^sup>2 + alpha"
proof -
  have a: "alpha = gf 2" "alpha ^ 2 = gf 4" "(alpha ^ 2)\<^sup>2 = gf 16"
    using gf_power_2 [of 1] gf_power_2 [of 2] gf_power_2 [of 4] by (simp_all flip: power_mult)
  show "alpha\<^sup>2 + alpha \<noteq> 0" "(alpha ^ 2)\<^sup>2 + alpha ^ 2 \<noteq> 0" "(alpha ^ 2)\<^sup>2 + alpha ^ 2 \<noteq> alpha\<^sup>2 + alpha"
    unfolding a(3) unfolding a(2) unfolding a(1) gf_xor [symmetric] by (simp_all add: gf_eq_0 gf_inject)
qed

lemma fft_rec_7:
  assumes d: "\<And>j. j < 7 \<Longrightarrow> gf (deltas ! j) = (gf (2 ^ (7 - j)))\<^sup>2 + gf (2 ^ (7 - j))" and f: "small f" "length f = 8"
  shows "evaluates (fft_rec (replicate 128 0) f 8 7 3 deltas) f 8 7 (\<lambda>j. gf (deltas ! j))"
proof -
  obtain g6 d6 where gd: "fft_gammas deltas (Suc 6) = (g6, d6)" by fastforce
  obtain g5 d5 where gd5: "fft_gammas d6 (Suc 5) = (g5, d5)" by fastforce
  have d56: "gf (deltas ! 6) = alpha\<^sup>2 + alpha" "gf (deltas ! 5) = (alpha ^ 2)\<^sup>2 + alpha ^ 2"
    using d [of 6] d [of 5] gf_power_2 [of 1] gf_power_2 [of 2] by simp_all
  have b6: "gf (deltas ! 6) \<noteq> 0" using alpha_powers_independent d56 by simp
  have "gf (g6 ! 5) \<noteq> 0" "gf (g6 ! 5) \<noteq> 1"
    using fft_gammas_nth(1) [OF gd, of 5] d56 alpha_powers_independent by (simp_all add: divide_inverse [symmetric])
  then have b5: "gf (d6 ! 5) \<noteq> 0"
    using fft_gammas_nth(2) [OF gd, of 5] by (simp add: power2_eq_square flip: gf256_minus(1))
  have rec5: "evaluates (fft_rec (replicate 64 0) g 2 5 1 d5) g 2 5 (\<lambda>j. gf (d5 ! j))" if "small g" "length g = 4" for g
    using that by (intro evaluates_base) simp_all
  have rec6: "evaluates (fft_rec (replicate 64 0) g (2 ^ 2) (Suc 5) 2 d6) g (2 ^ 2) (Suc 5) (\<lambda>j. gf (d6 ! j))" if "small g" "length g = 4" for g
    using that b5 gd5 rec5 by (intro fft_rec_step) simp_all
  have "evaluates (fft_rec (replicate 128 0) f (2 ^ 3) (Suc 6) 3 deltas) f (2 ^ 3) (Suc 6) (\<lambda>j. gf (deltas ! j))"
    using f b6 gd rec6 by (intro fft_rec_step) simp_all
  then show ?thesis by simp
qed

text \<open>The argument of entry \<open>i\<close> of the transform, as the code has it.\<close>

definition fft_arg :: "nat \<Rightarrow> u16" where
  "fft_arg i = (let s = compute_subset_sums (replicate 128 0) (compute_fft_betas (replicate 7 0)) 7
                in if i < 128 then s ! i else s ! (i - 128) XOR 1)"

lemma gf_fft_arg: "i < 256 \<Longrightarrow> gf (fft_arg i) = fft_point i"
proof -
  have "gf (compute_subset_sums (replicate 128 0) (compute_fft_betas (replicate 7 0)) 7 ! k) = ssum (\<lambda>j. gf (2 ^ (7 - j))) 7 k" if "k < 128" for k
    using that by (subst subset_sums_nth) (auto simp: ssum_def betas_nth intro!: sum.cong)
  then show "i < 256 \<Longrightarrow> gf (fft_arg i) = fft_point i" by (simp add: fft_arg_def fft_point_def gf_xor)
qed

lemma fft_evaluates:
  assumes f: "small f" "length f = 16" and "i < 256"
  shows "gf (fft (replicate 256 0) f 16 ! i) = ev f 16 (gf (fft_arg i))" and "unat (fft (replicate 256 0) f 16 ! i) < 256"
proof -
  let ?b = "\<lambda>j. if j < 7 then gf (2 ^ (7 - j)) else 1"
  let ?x = "\<lambda>i. ssum (\<lambda>j. gf (2 ^ (7 - j))) 7 i"
  define betas where "betas = compute_fft_betas (replicate 7 0)"
  define deltas where "deltas = fold (\<lambda>i deltas. deltas[i := gf_square (betas ! i) XOR betas ! i]) [0..<7] (replicate 7 0)"
  have b: "gf (betas ! j) = gf (2 ^ (7 - j))" if "j < 7" for j using that by (simp add: betas_def betas_nth)
  have "n \<le> 7 \<Longrightarrow> fold (\<lambda>i deltas. deltas[i := gf_square (betas ! i) XOR betas ! i]) [0..<n] (replicate 7 0) ! j =
      (if j < n then gf_square (betas ! j) XOR betas ! j else 0)" if "j < 7" for n j
    using that by (induction n) (auto simp: nth_list_update less_Suc_eq)
  then have d: "gf (deltas ! j) = (gf (2 ^ (7 - j)))\<^sup>2 + gf (2 ^ (7 - j))" if "j < 7" for j
    using that by (simp add: deltas_def gf_xor gf_square b power2_eq_square)
  obtain f0 f1 where r: "radix (replicate 8 0) (replicate 8 0) f 4 = (f0, f1)" by fastforce
  then have r4: "radix_4 (replicate 8 0) (replicate 8 0) f = (f0, f1)" by (simp add: radix.simps)
  have h: "small f0" "small f1" "length f0 = 8" "length f1 = 8"
    using r4 small_nth [OF f(1)] f(2) by (auto simp: radix_4_def Let_def)
  have gs: "compute_subset_sums (replicate 128 0) betas 7 ! i = fft_arg i" if "i < 128" for i
    using that by (simp add: fft_arg_def betas_def)
  have step: "fft (replicate 256 0) f 16 = fft_combine (replicate 256 0) (2 ^ 7)
      (fft_rec (replicate 128 0) f0 8 7 3 deltas) (fft_rec (replicate 128 0) f1 8 7 3 deltas) (compute_subset_sums (replicate 128 0) betas 7)"
    using r by (simp add: fft_def betas_def [symmetric] deltas_def [symmetric] Let_def)
  have "evaluates (fft (replicate 256 0) f 16) f 16 (Suc 7) ?b" unfolding step
  proof (rule combine_evaluates [where x = ?x and beta = 1, OF _ fft_rec_7 [OF d h(1,3)] fft_rec_7 [OF d h(2,4)]])
    show "gf (compute_subset_sums (replicate 128 0) betas 7 ! i) = ?x i" if "i < 2 ^ 7" for i
      using that gf_fft_arg [of i] by (simp add: gs fft_point_def)
    show "ssum (\<lambda>j. gf (deltas ! j)) 7 i = (?x i)\<^sup>2 + ?x i" for i
    proof -
      have "ssum (\<lambda>j. gf (deltas ! j)) 7 i = ssum (\<lambda>j. (gf (2 ^ (7 - j)))\<^sup>2 + gf (2 ^ (7 - j))) 7 i"
        unfolding ssum_def using d by (intro sum.cong) auto
      then show ?thesis by (simp only: ssum_frobenius)
    qed
    show "ssum ?b 7 i = 1 * ?x i" for i unfolding ssum_def by (auto intro!: sum.cong)
    show "ev f 16 (1 * y) = ev f0 8 (y\<^sup>2 + y) + y * ev f1 8 (y\<^sup>2 + y)" for y using radix_4_ev [OF _ _ r4] by simp
  qed simp_all
  moreover have "ssum ?b (Suc 7) i = gf (fft_arg i)"
  proof (cases "i < 128")
    case True
    then show ?thesis unfolding gf_fft_arg [OF assms(3)] fft_point_def using ssum_low [of i 7 ?b] by (auto simp: ssum_def intro!: sum.cong)
  next
    case False
    then have "i - 128 < 2 ^ 7" "i = 2 ^ 7 + (i - 128)" using assms(3) by simp_all
    then have "ssum ?b (Suc 7) i = ssum ?b 7 (i - 128) + 1" using ssum_high [of "i - 128" 7 ?b] by simp
    then show ?thesis unfolding gf_fft_arg [OF assms(3)] fft_point_def using False by (auto simp: ssum_def intro!: sum.cong)
  qed
  ultimately show "gf (fft (replicate 256 0) f 16 ! i) = ev f 16 (gf (fft_arg i))" and "unat (fft (replicate 256 0) f 16 ! i) < 256"
    using assms(3) by (simp_all add: evaluates_def small_nth)
qed

end
