(* ===== verification/Fft_Roots.thy ===== *)
theory Fft_Roots
  imports Fft_Lemmas
begin

text \<open>
  The transform visits every element of the field once, and the error array marks the inverse powers of the
  generator at which the polynomial is zero.
\<close>

section \<open>The arguments of the transform\<close>

lemma fill_bit:
  assumes "2 ^ n \<le> length w" "w ! 0 = 0" "n \<le> 7" "i < 2 ^ n"
  shows "bit (fill (\<lambda>j. 2 ^ (7 - j)) n w ! i) k \<longleftrightarrow> (\<exists>j<n. bit i j \<and> k = 7 - j)"
  using assms
proof (induction n arbitrary: i)
  case (Suc n)
  let ?w = "fill (\<lambda>j. 2 ^ (7 - j)) n w"
  have i: "i < length ?w" and l: "2 * 2 ^ n \<le> length ?w" using Suc.prems by simp_all
  have f: "fill (\<lambda>j. 2 ^ (7 - j)) (Suc n) w ! i = (if 2 ^ n \<le> i \<and> i < 2 ^ n + 2 ^ n then ?w ! (i - 2 ^ n) XOR 2 ^ (7 - n) else ?w ! i)"
    unfolding fill_Suc by (rule doubling_loop [OF l order_refl i])
  have b: "bit (2 ^ (7 - n) :: u16) k \<longleftrightarrow> k = 7 - n" by (auto simp: bit_exp_iff)
  show ?case
  proof (cases "i < 2 ^ n")
    case True
    then have "\<not> bit i n" using bit_take_bit_iff [of n i n] by (simp add: take_bit_nat_eq_self)
    then show ?thesis using f True Suc by (auto simp: less_Suc_eq)
  next
    case False
    define m where "m = i - 2 ^ n"
    have m: "i = 2 ^ n + m" "m < 2 ^ n" using False Suc.prems(4) by (simp_all add: m_def)
    have "fill (\<lambda>j. 2 ^ (7 - j)) (Suc n) w ! i = ?w ! m XOR 2 ^ (7 - n)" using f m by simp
    moreover have "bit (?w ! m) k \<longleftrightarrow> (\<exists>j<n. bit m j \<and> k = 7 - j)" using Suc m by simp
    moreover have "bit i j \<longleftrightarrow> j = n \<or> bit m j" if "j \<le> n" for j unfolding m(1) by (rule bit_exp_add [OF m(2) that])
    ultimately show ?thesis using Suc.prems(3) by (auto simp: bit_xor_iff b less_Suc_eq)
  qed
qed simp

lemma fft_arg_bit:
  assumes "i < 256"
  shows "bit (fft_arg i) k \<longleftrightarrow> (if k = 0 then 128 \<le> i else k < 8 \<and> bit i (7 - k))"
proof -
  define s where "s = compute_subset_sums (replicate 128 0) (compute_fft_betas (replicate 7 0)) 7"
  have "fill (\<lambda>i. compute_fft_betas (replicate 7 0) ! i) n w = fill (\<lambda>j. 2 ^ (7 - j)) n w" if "n \<le> 7" for n w
    using that by (induction n) (simp_all add: fill_Suc betas_nth)
  then have s: "bit (s ! m) k \<longleftrightarrow> 0 < k \<and> k < 8 \<and> bit m (7 - k)" if "m < 128" for m
    using fill_bit [of 7 "(replicate 128 0)[0 := 0]" m k] that
    by (auto simp: s_def subset_sums_fill intro: exI [of _ "7 - k"])
  have b: "bit (i - 128) j \<longleftrightarrow> bit i j" if "128 \<le> i" "j < 7" for j
    using bit_exp_add [of "i - 128" 7 j] that assms by simp
  show ?thesis
  proof (cases "i < 128")
    case True
    then show ?thesis unfolding fft_arg_def Let_def s_def [symmetric] by (auto simp: s)
  next
    case False
    then have "i - 128 < 128" "128 \<le> i" using assms by simp_all
    then show ?thesis using b [of "7 - k"] unfolding fft_arg_def Let_def s_def [symmetric]
      by (auto simp: s bit_xor_iff bit_1_iff)
  qed
qed

lemma fft_arg_less: "i < 256 \<Longrightarrow> unat (fft_arg i) < 256"
proof -
  assume i: "i < 256"
  have "take_bit 8 (fft_arg i) = fft_arg i" by (rule bit_eqI) (auto simp: bit_take_bit_iff fft_arg_bit [OF i])
  then have "unat (fft_arg i) = take_bit 8 (unat (fft_arg i))" by (metis unsigned_take_bit_eq)
  then show ?thesis using take_bit_nat_less_exp [of 8 "unat (fft_arg i)"] by simp
qed

lemma fft_arg_inj: "inj_on fft_arg {..<256}"
proof (rule inj_onI)
  fix i j :: nat assume ij: "i \<in> {..<256}" "j \<in> {..<256}" "fft_arg i = fft_arg j"
  show "i = j"
  proof (rule bit_eqI)
    fix k
    have high: "\<not> bit m k" if "m < 256" "8 \<le> k" for m :: nat
      using that bit_take_bit_iff [of 8 m k] by (simp add: take_bit_nat_eq_self)
    have top: "bit m 7 \<longleftrightarrow> 128 \<le> m" if "m < 256" for m :: nat
      using that bit_exp_add [of "m - 128" 7 7] bit_take_bit_iff [of 7 m 7] by (cases "128 \<le> m") (simp_all add: take_bit_nat_eq_self)
    consider "k < 7" | "k = 7" | "8 \<le> k" by linarith
    then show "bit i k = bit j k"
    proof cases
      case 1
      then have "7 - (7 - k) = k" "7 - k \<noteq> 0" "7 - k < 8" by simp_all
      then show ?thesis using fft_arg_bit [of i "7 - k"] fft_arg_bit [of j "7 - k"] ij by simp
    next
      case 2
      then show ?thesis using fft_arg_bit [of i 0] fft_arg_bit [of j 0] ij top by simp
    next
      case 3
      then show ?thesis using high ij by simp
    qed
  qed
qed

lemma fft_arg_surj: "x < 256 \<Longrightarrow> \<exists>i<256. unat (fft_arg i) = x"
proof -
  assume x: "x < 256"
  have "inj_on (\<lambda>i. unat (fft_arg i)) {..<256}" using fft_arg_inj by (auto simp: inj_on_def word_unat_eq_iff)
  then have "(\<lambda>i. unat (fft_arg i)) ` {..<256} = {..<256}" using fft_arg_less by (intro endo_inj_surj) auto
  then show ?thesis using x by (metis (no_types, lifting) imageE lessThan_iff)
qed

section \<open>Powers of the generator\<close>

lemma card_gf256: "card (UNIV :: gf256 set) = 256"
  using type_definition.card [OF type_definition_gf256] by (simp add: lessThan_def [symmetric])

lemma finite_gf256 [simp]: "finite (A :: gf256 set)"
  using card_gf256 card.infinite [of "UNIV :: gf256 set"] by (metis finite_subset subset_UNIV zero_neq_numeral)

lemma alpha_nonzero [simp]: "alpha \<noteq> 0"
  using alpha_255 by (metis power_0_left zero_neq_numeral zero_neq_one)

lemma alpha_inj: "inj_on (\<lambda>k. alpha ^ k) {..<255}"
proof (rule eq_card_imp_inj_on)
  have "(\<lambda>k. alpha ^ k) ` {..<255} = UNIV - {0}" using gf256_nonzero_power by (fastforce simp: image_iff)
  then show "card ((\<lambda>k. alpha ^ k) ` {..<255}) = card {..<255 :: nat}" by (simp add: card_gf256)
qed simp

lemma gf_log_alpha:
  assumes "gf (of_nat a) = alpha ^ k" "0 < a" "a < 256" "k < 255"
  shows "unat (gf_log ! a) = k"
proof -
  note l = gf_log_exp [OF assms(2,3)]
  have "alpha ^ unat (gf_log ! a) = alpha ^ k" using gf_exp_alpha [of "unat (gf_log ! a)"] l assms(1) by simp
  then show ?thesis using inj_onD [OF alpha_inj] l(1) assms(4) by simp
qed

section \<open>The error array\<close>

lemma fold_flip_other:
  "(\<And>i. i \<in> set is \<Longrightarrow> ix i = j \<Longrightarrow> fl i = 0) \<Longrightarrow> fold (\<lambda>i e. e[ix i := e ! ix i XOR fl i]) is e ! j = (e ! j :: u8)"
proof (induction "is" arbitrary: e)
  case (Cons i "is")
  have "e[ix i := e ! ix i XOR fl i] ! j = e ! j"
    using Cons.prems [of i] by (cases "ix i = j"; cases "j < length e") simp_all
  then show ?case using Cons by simp
qed simp

lemma fold_flip:
  assumes "distinct is" "i0 \<in> set is" "ix i0 = j" "j < length e"
    and "\<And>i. i \<in> set is \<Longrightarrow> ix i = j \<Longrightarrow> i \<noteq> i0 \<Longrightarrow> fl i = 0"
  shows "fold (\<lambda>i e. e[ix i := e ! ix i XOR fl i]) is e ! j = (e ! j XOR fl i0 :: u8)"
  using assms
proof (induction "is" arbitrary: e)
  case (Cons i "is")
  show ?case
  proof (cases "i = i0")
    case True
    then have "fold (\<lambda>i e. e[ix i := e ! ix i XOR fl i]) is (e[ix i := e ! ix i XOR fl i]) ! j = e[ix i := e ! ix i XOR fl i] ! j"
      using Cons.prems by (intro fold_flip_other) auto
    then show ?thesis using True Cons.prems by simp
  next
    case False
    then have "e[ix i := e ! ix i XOR fl i] ! j = e ! j" using Cons.prems(5) [of i] Cons.prems(4) by (cases "ix i = j") auto
    then show ?thesis using False Cons.prems Cons.IH [of "e[ix i := e ! ix i XOR fl i]"] by simp
  qed
qed simp

lemma fold_pairs: "fold (\<lambda>i e. g (k + i) (g i e)) xs e = fold g (concat (map (\<lambda>i. [i, k + i]) xs)) e"
  by (induction xs arbitrary: e) simp_all

definition fft_index :: "nat \<Rightarrow> nat" where
  "fft_index i = (if i = 0 \<or> i = 128 then 0 else 255 - unat (gf_log ! unat (fft_arg i)))"

definition fft_visit :: "nat list" where
  "fft_visit = 0 # 128 # concat (map (\<lambda>i. [i, 128 + i]) [1..<128])"

lemma retrieve_fold:
  "fft_retrieve_error_poly error w = fold (\<lambda>i e. e[fft_index i := e ! fft_index i XOR zero_flag (w ! i)]) fft_visit error"
proof -
  define s where "s = compute_subset_sums (replicate 128 0) (compute_fft_betas (replicate 7 0)) 7"
  let ?g = "\<lambda>i e. e[fft_index i := e ! fft_index i XOR zero_flag (w ! i)]"
  have a: "s ! i = fft_arg i" "s ! i XOR 1 = fft_arg (128 + i)" if "i < 128" for i
    using that by (simp_all add: fft_arg_def s_def)
  let ?h = "\<lambda>i error. let index = PARAM_GF_MUL_ORDER - unat (gf_log ! unat (s ! i));
                 error = error[index := error ! index XOR zero_flag (w ! i)];
                 index = PARAM_GF_MUL_ORDER - unat (gf_log ! unat (s ! i XOR 1))
             in error[index := error ! index XOR zero_flag (w ! (128 + i))]"
  have "fold ?h [1..<128] e = fold (\<lambda>i e. ?g (128 + i) (?g i e)) [1..<128] e" for e
    by (rule fold_cong) (simp_all only: Let_def a(2) atLeastLessThan_iff set_upt, simp_all add: a(1) fft_index_def)
  then have "fold ?h [1..<128] e = fold ?g (concat (map (\<lambda>i. [i, 128 + i]) [1..<128])) e" for e
    using fold_pairs [of ?g 128 "[1..<128]"] by (simp only:)
  then show ?thesis unfolding fft_retrieve_error_poly_def fft_visit_def
    by (simp add: s_def [symmetric] fft_index_def [of 0] fft_index_def [of 128] Let_def)
qed

lemma fft_visit: "set fft_visit = {..<256}" "distinct fft_visit"
proof -
  have s: "set (concat (map (\<lambda>i. [i, 128 + i]) [1..<128])) = {1..<128} \<union> {129..<256 :: nat}"
  proof -
    have "\<exists>i\<in>{Suc 0..<128}. x = 128 + i" if "129 \<le> x" "x < 256" for x :: nat
      using that by (intro bexI [of _ "x - 128"]) auto
    then show ?thesis by auto
  qed
  show "set fft_visit = {..<256}" unfolding fft_visit_def using s by auto
  have "distinct (concat (map (\<lambda>i. [i, 128 + i]) [a..<b]))" if "b \<le> 128" for a b :: nat
    using that by (induction b) auto
  then show "distinct fft_visit" unfolding fft_visit_def using s by (simp del: upt_Suc set_concat)
qed

lemma zero_flag_small: "unat w < 256 \<Longrightarrow> zero_flag w = of_bool (w = 0)"
proof (cases "w = 0")
  case False
  assume w: "unat w < 256"
  have "unat (- w) = 2 ^ 16 - unat w" using False unat_sub_if_size [of 0 w] by (simp add: word_size unat_eq_0)
  then have "unat (- w) div 2 ^ 15 = 1" using w False by (intro div_nat_eqI) (simp_all add: unat_gt_0 Suc_leI)
  then have "unat (drop_bit 15 (- w)) = 1" unfolding drop_bit_eq_div unat_div by simp
  then have "drop_bit 15 (- w) = 1" by (simp only: word_unat_eq_iff unat_1)
  then show ?thesis using False by (simp add: zero_flag_def)
qed (simp add: zero_flag_def)

text \<open>The position that a root other than 0 marks.\<close>

lemma fft_index_alpha:
  assumes "i < 256" "k < 255" "gf (fft_arg i) = inverse (alpha ^ k)"
  shows "fft_index i = k"
proof -
  have a: "fft_arg i \<noteq> 0" using assms(3) by auto
  have inv: "inverse (alpha ^ k) = alpha ^ (255 - k)"
    using alpha_255 assms(2) by (intro inverse_unique) (simp flip: power_add)
  have b: "bit (128 :: nat) m \<longleftrightarrow> m = 7" for m using bit_exp_iff [of 7 m, where 'a = nat] by simp
  have e: "fft_arg 0 = 0" "fft_arg 128 = 1" by (rule bit_eqI, use b in \<open>auto simp: fft_arg_bit bit_1_iff\<close>)+
  show ?thesis
  proof (cases "k = 0")
    case True
    then have "fft_arg i = fft_arg 128" using assms gf_inject [of "fft_arg i" 1] fft_arg_less e by simp
    then have "i = 128" using inj_onD [OF fft_arg_inj] assms(1) by simp
    then show ?thesis using True by (simp add: fft_index_def)
  next
    case False
    have "i \<noteq> 128" using assms inj_onD [OF alpha_inj, of 0 "255 - k"] False inv e by auto
    moreover have "i \<noteq> 0" using a e by metis
    moreover have "unat (gf_log ! unat (fft_arg i)) = 255 - k"
      using assms inv False a fft_arg_less [OF assms(1)] by (intro gf_log_alpha) (simp_all add: unat_gt_0)
    ultimately show ?thesis using assms(2) by (simp add: fft_index_def)
  qed
qed

lemma fft_arg_alpha: "k < 255 \<Longrightarrow> \<exists>i<256. gf (fft_arg i) = inverse (alpha ^ k)"
proof -
  assume "k < 255"
  have "Rep_gf256 (inverse (alpha ^ k)) < 256" using Rep_gf256 by simp
  then obtain i where i: "i < 256" "unat (fft_arg i) = Rep_gf256 (inverse (alpha ^ k))" using fft_arg_surj by blast
  then have "gf (fft_arg i) = inverse (alpha ^ k)" using Rep_gf_small [of "fft_arg i"] fft_arg_less [of i] Rep_gf256_inject by simp
  then show ?thesis using i(1) by blast
qed

lemma gf256_alpha_inverse: "x \<noteq> 0 \<Longrightarrow> \<exists>k<255. x = inverse (alpha ^ k)"
  using gf256_nonzero_power [of "inverse x"] by (metis inverse_inverse_eq inverse_nonzero_iff_nonzero)

lemma roots_marked:
  assumes f: "small f" "length f = 16" "gf (f ! 0) \<noteq> 0" and k: "k < 255"
  shows "fft_retrieve_error_poly (replicate 256 0) (fft (replicate 256 0) f 16) ! k = of_bool (ev f 16 (inverse (alpha ^ k)) = 0)"
proof -
  define w where "w = fft (replicate 256 0) f 16"
  obtain i0 where i0: "i0 < 256" "gf (fft_arg i0) = inverse (alpha ^ k)" using fft_arg_alpha [OF k] by blast
  have flag: "zero_flag (w ! i) = of_bool (ev f 16 (gf (fft_arg i)) = 0)" if "i < 256" for i
    using fft_evaluates [OF f(1,2) that] gf_eq_0 [of "w ! i"] by (simp add: w_def zero_flag_small)
  have "fold (\<lambda>i e. e[fft_index i := e ! fft_index i XOR zero_flag (w ! i)]) fft_visit (replicate 256 0) ! k = replicate 256 0 ! k XOR zero_flag (w ! i0)"
  proof (rule fold_flip)
    show "fft_index i0 = k" using i0 k by (intro fft_index_alpha)
    show "zero_flag (w ! i) = 0" if "i \<in> set fft_visit" "fft_index i = k" "i \<noteq> i0" for i
    proof -
      have i: "i < 256" using that(1) fft_visit by simp
      have "gf (fft_arg i) = 0"
      proof (rule ccontr)
        assume "gf (fft_arg i) \<noteq> 0"
        then obtain l where l: "l < 255" "gf (fft_arg i) = inverse (alpha ^ l)" using gf256_alpha_inverse by blast
        then have "l = k" using fft_index_alpha [OF i] that(2) by simp
        then have "fft_arg i = fft_arg i0" using l(2) i0 gf_inject fft_arg_less i by metis
        then show False using inj_onD [OF fft_arg_inj] i i0(1) that(3) by simp
      qed
      then show ?thesis using f(3) flag [OF i] by (simp add: ev_def power_0_left sum.delta if_distrib cong: if_cong)
    qed
  qed (use fft_visit i0 k in simp_all)
  then show ?thesis using k flag [OF i0(1)] i0(2) by (simp add: retrieve_fold w_def)
qed

section \<open>The transform and the roots\<close>

text \<open>
  C16. The additive Fourier transform is the evaluation of the polynomial at every element of the field, each of them
  once, and the error array derived from it marks the roots: for a polynomial of 16 coefficients with a non-zero
  constant one, entry \<open>k\<close> is 1 exactly if the inverse of the \<open>k\<close>-th power of the generator is a root.
\<close>

theorem fft_finds_roots:
  assumes "small f" "length f = 16" "gf (f ! 0) \<noteq> 0"
  shows "bij_betw (\<lambda>i. gf (fft_arg i)) {..<256} UNIV \<and>
    (\<forall>i<256. gf (fft (replicate 256 0) f 16 ! i) = ev f 16 (gf (fft_arg i))) \<and>
    (\<forall>k<255. fft_retrieve_error_poly (replicate 256 0) (fft (replicate 256 0) f 16) ! k = of_bool (ev f 16 (inverse (alpha ^ k)) = 0))"
proof (intro conjI allI impI)
  have inj: "inj_on (\<lambda>i. gf (fft_arg i)) {..<256}"
    using fft_arg_inj fft_arg_less by (auto simp: inj_on_def gf_inject)
  then have "card ((\<lambda>i. gf (fft_arg i)) ` {..<256}) = card (UNIV :: gf256 set)" by (simp add: card_image card_gf256)
  then have "(\<lambda>i. gf (fft_arg i)) ` {..<256} = UNIV" by (intro card_subset_eq) simp_all
  with inj show "bij_betw (\<lambda>i. gf (fft_arg i)) {..<256} UNIV" by (simp add: bij_betw_def)
qed (use assms in \<open>simp_all add: fft_evaluates roots_marked\<close>)

theorem fft_finds_roots_witness:
  "fft_retrieve_error_poly (replicate 256 0) (fft (replicate 256 0) (1 # 1 # replicate 14 0) 16) ! 0 = 1"
proof -
  have f: "small (1 # 1 # replicate 14 0)" by (simp add: small_def)
  have "ev (1 # 1 # replicate 14 0) 16 1 = 0" by (simp add: ev_expand)
  then show ?thesis using fft_finds_roots [OF f] by (auto dest!: spec [of _ 0])
qed

end
