(* ===== verification/Berlekamp.thy ===== *)
theory Berlekamp
  imports Complex_Main
begin

text \<open>
  Linear recurrences over a field, for the decoder of the Reed-Solomon code: the steps of the Berlekamp algorithm keep
  an invariant, and a recurrence that is shorter than the errors allow annihilates the error locators.
  Polynomials and sequences are functions on the natural numbers.
\<close>

section \<open>Convolution\<close>

definition conv :: "(nat \<Rightarrow> 'a::comm_ring_1) \<Rightarrow> (nat \<Rightarrow> 'a) \<Rightarrow> nat \<Rightarrow> 'a" where
  "conv p S n = (\<Sum>k\<le>n. p k * S (n - k))"

lemma conv_restrict:
  assumes "\<And>k. L < k \<Longrightarrow> p k = 0" "L \<le> n"
  shows "conv p S n = (\<Sum>k\<le>L. p k * S (n - k))"
  unfolding conv_def using assms by (intro sum.mono_neutral_right) auto

lemma conv_diff: "conv (\<lambda>k. p k - a * q k) S n = conv p S n - a * conv q S n"
  by (simp add: conv_def sum_distrib_left left_diff_distrib sum_subtractf mult.assoc)

text \<open>Multiplication by the indeterminate.\<close>

definition shift :: "(nat \<Rightarrow> 'a::comm_ring_1) \<Rightarrow> nat \<Rightarrow> 'a" where
  "shift p k = (if k = 0 then 0 else p (k - 1))"

lemma shift_simps [simp]: "shift p 0 = 0" "shift p (Suc k) = p k"
  by (simp_all add: shift_def)

lemma conv_shift: "conv (shift p) S (Suc n) = conv p S n"
  unfolding conv_def by (subst sum.atMost_Suc_shift) simp

section \<open>Recurrences\<close>

text \<open>A sequence that satisfies a recurrence of length \<open>nu\<close> from its term \<open>nu + 1\<close> to its term \<open>N\<close>.\<close>

definition recurrence :: "(nat \<Rightarrow> 'a::comm_ring_1) \<Rightarrow> nat \<Rightarrow> nat \<Rightarrow> (nat \<Rightarrow> 'a) \<Rightarrow> bool" where
  "recurrence S N L p \<longleftrightarrow> p 0 = 1 \<and> (\<forall>k>L. p k = 0) \<and> (\<forall>n. L < n \<and> n \<le> N \<longrightarrow> conv p S n = 0)"

lemma recurrenceD:
  "recurrence S N L p \<Longrightarrow> p 0 = 1" "recurrence S N L p \<Longrightarrow> L < k \<Longrightarrow> p k = 0"
  "recurrence S N L p \<Longrightarrow> L < n \<Longrightarrow> n \<le> N \<Longrightarrow> conv p S n = 0"
  by (simp_all add: recurrence_def)

text \<open>A recurrence that fails at a term where a longer one holds: the two lengths together exceed the term before.\<close>

lemma recurrence_length:
  assumes c: "recurrence S N nu c" and p: "recurrence S m L p" and m: "Suc m \<le> N" and d: "conv p S (Suc m) \<noteq> 0"
  shows "m < nu + L"
proof (rule ccontr)
  assume "\<not> m < nu + L"
  then have le: "nu + L \<le> m" by simp
  have inner: "(\<Sum>k\<le>L. p k * S (Suc m - i - k)) = (if i = 0 then conv p S (Suc m) else 0)" if "i \<le> nu" for i
  proof -
    have "(\<Sum>k\<le>L. p k * S (Suc m - i - k)) = conv p S (Suc m - i)"
      using le that recurrenceD(2) [OF p] by (intro conv_restrict [symmetric]) auto
    then show ?thesis using recurrenceD(3) [OF p, of "Suc m - i"] le that by auto
  qed
  have outer: "(\<Sum>i\<le>nu. c i * S (Suc m - i - k)) = 0" if "k \<le> L" for k
  proof -
    have "(\<Sum>i\<le>nu. c i * S (Suc m - k - i)) = conv c S (Suc m - k)"
      using le that recurrenceD(2) [OF c] by (intro conv_restrict [symmetric]) auto
    moreover have "conv c S (Suc m - k) = 0" using le that m by (intro recurrenceD(3) [OF c]) auto
    ultimately show ?thesis by (simp add: add.commute)
  qed
  have "conv p S (Suc m) = (\<Sum>i\<le>nu. if i = 0 then conv p S (Suc m) else 0)" by simp
  also have "\<dots> = (\<Sum>i\<le>nu. c i * (\<Sum>k\<le>L. p k * S (Suc m - i - k)))"
    using recurrenceD(1) [OF c] by (intro sum.cong) (simp_all only: inner atMost_iff, simp)
  also have "\<dots> = (\<Sum>k\<le>L. p k * (\<Sum>i\<le>nu. c i * S (Suc m - i - k)))"
    unfolding sum_distrib_left by (subst sum.swap) (simp add: mult.left_commute)
  also have "\<dots> = 0" using outer by (intro sum.neutral ballI) (simp only: atMost_iff mult_zero_right)
  finally show False using d by simp
qed

section \<open>The Berlekamp algorithm\<close>

text \<open>
  After \<open>m\<close> steps: \<open>p\<close> is a recurrence of length \<open>L\<close> for the first \<open>m\<close> terms, and \<open>B\<close> is an earlier one,
  shifted, that fails at the next term by \<open>b\<close>.
\<close>

definition berlekamp_inv :: "(nat \<Rightarrow> 'a::field) \<Rightarrow> nat \<Rightarrow> (nat \<Rightarrow> 'a) \<Rightarrow> nat \<Rightarrow> (nat \<Rightarrow> 'a) \<Rightarrow> 'a \<Rightarrow> bool" where
  "berlekamp_inv S m p L B b \<longleftrightarrow> L \<le> m \<and> recurrence S m L p \<and> b \<noteq> 0 \<and> B 0 = 0 \<and> (\<forall>k>Suc m - L. B k = 0) \<and>
     (\<forall>n. Suc m - L < n \<and> n \<le> m \<longrightarrow> conv B S n = 0) \<and> conv B S (Suc m) = b"

lemma berlekamp_init: "S 0 = 1 \<Longrightarrow> berlekamp_inv S 0 (\<lambda>k. of_bool (k = 0)) 0 (\<lambda>k. of_bool (k = 1)) 1"
  by (auto simp: berlekamp_inv_def recurrence_def conv_def)

lemma berlekamp_step:
  fixes S :: "nat \<Rightarrow> 'a::field"
  assumes inv: "berlekamp_inv S m p L B b"
  defines "d \<equiv> conv p S (Suc m)"
  defines "q \<equiv> \<lambda>k. p k - d / b * B k"
  shows "d \<noteq> 0 \<Longrightarrow> L < Suc m - L \<Longrightarrow> berlekamp_inv S (Suc m) q (Suc m - L) (shift p) d"
    and "d = 0 \<or> Suc m - L \<le> L \<Longrightarrow> berlekamp_inv S (Suc m) q L (shift B) b"
proof -
  have L: "L \<le> m" and p: "recurrence S m L p" and b: "b \<noteq> 0" and B0: "B 0 = 0" and Bz: "\<And>k. Suc m - L < k \<Longrightarrow> B k = 0"
    and Bc: "\<And>n. Suc m - L < n \<Longrightarrow> n \<le> m \<Longrightarrow> conv B S n = 0" and Bd: "conv B S (Suc m) = b"
    using inv by (auto simp: berlekamp_inv_def)
  have q: "conv q S n = conv p S n - d / b * conv B S n" for n unfolding q_def by (rule conv_diff)
  have qd: "conv q S (Suc m) = 0" using b by (simp add: q Bd d_def)
  have q0: "q 0 = 1" using recurrenceD(1) [OF p] by (simp add: q_def B0)
  show "berlekamp_inv S (Suc m) q (Suc m - L) (shift p) d" if "d \<noteq> 0" "L < Suc m - L"
  proof -
    have "q k = 0" if "Suc m - L < k" for k using that recurrenceD(2) [OF p] \<open>L < Suc m - L\<close> by (simp add: q_def Bz)
    moreover have "conv q S n = 0" if "Suc m - L < n" "n \<le> m" for n
      using that recurrenceD(3) [OF p] \<open>L < Suc m - L\<close> by (simp add: q Bc)
    ultimately have "recurrence S (Suc m) (Suc m - L) q" using q0 qd by (auto simp: recurrence_def le_Suc_eq)
    moreover have "Suc (Suc m) - (Suc m - L) = Suc L" using L by simp
    moreover have "conv (shift p) S n = 0" if "Suc L < n" "n \<le> Suc m" for n
      using that recurrenceD(3) [OF p, of "n - 1"] conv_shift [of p S "n - 1"] by auto
    moreover have "shift p k = 0" if "Suc L < k" for k using that recurrenceD(2) [OF p, of "k - 1"] by (auto simp: shift_def)
    ultimately show ?thesis using that L by (auto simp: berlekamp_inv_def conv_shift d_def)
  qed
  show "berlekamp_inv S (Suc m) q L (shift B) b" if "d = 0 \<or> Suc m - L \<le> L"
  proof -
    have "q k = 0" if "L < k" for k using that recurrenceD(2) [OF p] Bz \<open>d = 0 \<or> Suc m - L \<le> L\<close> by (auto simp: q_def)
    moreover have "conv q S n = 0" if "L < n" "n \<le> m" for n
      using that recurrenceD(3) [OF p] Bc \<open>d = 0 \<or> Suc m - L \<le> L\<close> by (auto simp: q)
    ultimately have "recurrence S (Suc m) L q" using q0 qd by (auto simp: recurrence_def le_Suc_eq)
    moreover have "shift B k = 0" if "Suc (Suc m) - L < k" for k using that Bz [of "k - 1"] L by (auto simp: shift_def)
    moreover have "conv (shift B) S n = 0" if "Suc (Suc m) - L < n" "n \<le> Suc m" for n
      using that Bc [of "n - 1"] conv_shift [of B S "n - 1"] L by auto
    ultimately show ?thesis using L b by (auto simp: berlekamp_inv_def conv_shift Bd)
  qed
qed

text \<open>The length never exceeds that of a recurrence of the whole sequence.\<close>

lemma berlekamp_length:
  assumes "recurrence S N nu c" "berlekamp_inv S m p L B b" "Suc m \<le> N" "conv p S (Suc m) \<noteq> 0"
  shows "Suc m - L \<le> nu"
  using recurrence_length [OF assms(1) _ assms(3,4)] assms(2) by (fastforce simp: berlekamp_inv_def)

section \<open>Polynomials as functions\<close>

definition pval :: "(nat \<Rightarrow> 'a::comm_ring_1) \<Rightarrow> nat \<Rightarrow> 'a \<Rightarrow> 'a" where
  "pval p n x = (\<Sum>k\<le>n. p k * x ^ k)"

lemma pval_extend: "(\<And>k. L < k \<Longrightarrow> p k = 0) \<Longrightarrow> L \<le> n \<Longrightarrow> pval p n x = pval p L x"
  unfolding pval_def by (intro sum.mono_neutral_right) auto

lemma pval_diff: "pval (\<lambda>k. p k - q k) n x = pval p n x - pval q n x"
  by (simp add: pval_def left_diff_distrib sum_subtractf)

text \<open>A polynomial with more roots than its degree is zero everywhere.\<close>

lemma pval_many_roots:
  fixes p :: "nat \<Rightarrow> 'a::idom"
  assumes "finite A" "n < card A" "\<And>a. a \<in> A \<Longrightarrow> pval p n a = 0"
  shows "pval p n x = 0"
  using assms
proof (induction n arbitrary: p A x)
  case 0
  then obtain a where "a \<in> A" by fastforce
  then show ?case using 0 by (fastforce simp: pval_def)
next
  case (Suc n)
  then obtain a where a: "a \<in> A" by fastforce
  have "(\<Sum>k\<le>Suc n. p k * a ^ k) = 0" using Suc.prems(3) [OF a] by (simp add: pval_def)
  then obtain q where q: "\<And>z. (\<Sum>k\<le>Suc n. p k * z ^ k) = (z - a) * (\<Sum>k<Suc n. q k * z ^ k)"
    by (rule polyfun_linear_factor_root) blast
  then have pq: "pval p (Suc n) z = (z - a) * pval q n z" for z by (simp add: pval_def lessThan_Suc_atMost)
  have "pval q n b = 0" if "b \<in> A - {a}" for b using Suc.prems(3) [of b] that pq [of b] by auto
  moreover have "n < card (A - {a})" using Suc.prems(1,2) a by simp
  ultimately have "pval q n x = 0" using Suc.IH [of "A - {a}" q x] Suc.prems(1) by simp
  then show ?case by (simp add: pq)
qed

lemma pval_agree:
  fixes p :: "nat \<Rightarrow> 'a::idom"
  assumes "finite A" "n < card A" "\<And>a. a \<in> A \<Longrightarrow> pval p n a = pval q n a"
  shows "pval p n x = pval q n x"
  using pval_many_roots [OF assms(1,2), of "\<lambda>k. p k - q k" x] assms(3) by (simp add: pval_diff)

lemma prod_pval:
  assumes "finite P"
  shows "\<exists>c. c 0 = (\<Prod>j\<in>P. a j) \<and> (\<forall>k>card P. c k = 0) \<and> (\<forall>x :: 'a::comm_ring_1. pval c (card P) x = (\<Prod>j\<in>P. a j - b j * x))"
  using assms
proof (induction P)
  case empty
  then show ?case by (intro exI [of _ "\<lambda>k. of_bool (k = 0)"]) (auto simp: pval_def)
next
  case (insert j P)
  then obtain c where c: "c 0 = (\<Prod>j\<in>P. a j)" "\<forall>k>card P. c k = 0" "\<forall>x. pval c (card P) x = (\<Prod>j\<in>P. a j - b j * x)" by auto
  let ?c = "\<lambda>k. a j * c k - b j * shift c k"
  have "pval ?c (Suc (card P)) x = (a j - b j * x) * pval c (card P) x" for x
  proof -
    have "pval (shift c) (Suc (card P)) x = x * pval c (card P) x"
      unfolding pval_def by (subst sum.atMost_Suc_shift) (simp add: sum_distrib_left mult_ac)
    moreover have "pval c (Suc (card P)) x = pval c (card P) x" using c(2) by (intro pval_extend) auto
    moreover have "pval ?c (Suc (card P)) x = a j * pval c (Suc (card P)) x - b j * pval (shift c) (Suc (card P)) x"
      by (simp only: pval_def left_diff_distrib sum_subtractf sum_distrib_left mult.assoc)
    ultimately show ?thesis by (simp add: algebra_simps)
  qed
  moreover have "?c k = 0" if "Suc (card P) < k" for k using that c(2) by (cases k) auto
  ultimately show ?case using insert c by (intro exI [of _ ?c]) auto
qed

section \<open>Sums of powers\<close>

text \<open>The syndromes of errors \<open>e j\<close> at the locators \<open>X j\<close>, for \<open>j\<close> in \<open>P\<close>; the term 0 is not one of them.\<close>

definition syndromes_of :: "(nat \<Rightarrow> 'a::field) \<Rightarrow> nat \<Rightarrow> 'b set \<Rightarrow> ('b \<Rightarrow> 'a) \<Rightarrow> ('b \<Rightarrow> 'a) \<Rightarrow> bool" where
  "syndromes_of S N P X e \<longleftrightarrow> finite P \<and> inj_on X P \<and> (\<forall>j\<in>P. X j \<noteq> 0 \<and> e j \<noteq> 0) \<and> (\<forall>n. 1 \<le> n \<and> n \<le> N \<longrightarrow> S n = (\<Sum>j\<in>P. e j * X j ^ n))"

lemma syndromes_ofD:
  assumes "syndromes_of S N P X e"
  shows "finite P" "inj_on X P" "\<And>j. j \<in> P \<Longrightarrow> X j \<noteq> 0" "\<And>j. j \<in> P \<Longrightarrow> e j \<noteq> 0"
    "\<And>n. 1 \<le> n \<Longrightarrow> n \<le> N \<Longrightarrow> S n = (\<Sum>j\<in>P. e j * X j ^ n)"
  using assms unfolding syndromes_of_def by blast+

lemma conv_syndromes:
  assumes "syndromes_of S N P X e" "\<And>k. L < k \<Longrightarrow> p k = 0" "L < n" "n \<le> N"
  shows "conv p S n = (\<Sum>j\<in>P. e j * pval p L (inverse (X j)) * X j ^ n)"
proof -
  have tm: "p k * S (n - k) = (\<Sum>j\<in>P. e j * (p k * inverse (X j) ^ k) * X j ^ n)" if "k \<le> L" for k
  proof -
    have "S (n - k) = (\<Sum>j\<in>P. e j * X j ^ (n - k))" using assms(3,4) that by (intro syndromes_ofD(5) [OF assms(1)]) auto
    moreover have "X j ^ (n - k) = inverse (X j) ^ k * X j ^ n" if "j \<in> P" for j
      using syndromes_ofD(3) [OF assms(1) that] assms(3) \<open>k \<le> L\<close> by (simp add: power_diff power_inverse divide_inverse mult.commute)
    ultimately show ?thesis by (simp add: sum_distrib_left mult_ac)
  qed
  have "conv p S n = (\<Sum>k\<le>L. p k * S (n - k))" using assms by (intro conv_restrict) auto
  also have "\<dots> = (\<Sum>j\<in>P. \<Sum>k\<le>L. e j * (p k * inverse (X j) ^ k) * X j ^ n)" by (subst sum.swap) (simp add: tm)
  finally show ?thesis by (simp add: pval_def sum_distrib_left sum_distrib_right)
qed

lemma vandermonde:
  fixes X :: "'b \<Rightarrow> 'a::field"
  assumes P: "finite P" "inj_on X P" "\<And>j. j \<in> P \<Longrightarrow> X j \<noteq> 0"
    and zero: "\<And>n. n0 \<le> n \<Longrightarrow> n < n0 + card P \<Longrightarrow> (\<Sum>j\<in>P. a j * X j ^ n) = 0" and i: "i \<in> P"
  shows "a i = 0"
proof -
  define D where "D = card (P - {i})"
  have c: "D < card P" unfolding D_def using P(1) i by (rule card_Diff1_less)
  obtain q where q: "\<And>x. pval q D x = (\<Prod>j\<in>P - {i}. X j - 1 * x)"
    using prod_pval [of "P - {i}" X "\<lambda>j. 1"] P(1) by (auto simp: D_def)
  have "(\<Sum>j\<in>P. a j * X j ^ n0 * pval q D (X j)) = (\<Sum>k\<le>D. q k * (\<Sum>j\<in>P. a j * X j ^ (n0 + k)))"
    unfolding pval_def sum_distrib_left by (subst sum.swap) (simp add: power_add mult_ac)
  also have "\<dots> = 0" using c by (intro sum.neutral ballI) (simp add: zero)
  also have "(\<Sum>j\<in>P. a j * X j ^ n0 * pval q D (X j)) = a i * X i ^ n0 * pval q D (X i) + (\<Sum>j\<in>P - {i}. a j * X j ^ n0 * pval q D (X j))"
    using P(1) i by (rule sum.remove)
  also have "(\<Sum>j\<in>P - {i}. a j * X j ^ n0 * pval q D (X j)) = 0"
  proof (rule sum.neutral, rule ballI)
    fix j assume "j \<in> P - {i}"
    then have "pval q D (X j) = 0" unfolding q using P(1) by (intro prod_zero) auto
    then show "a j * X j ^ n0 * pval q D (X j) = 0" by simp
  qed
  finally have "a i * X i ^ n0 * pval q D (X i) = 0" by simp
  moreover have "pval q D (X i) \<noteq> 0" using P(1,2) i by (auto simp: q inj_on_def)
  ultimately show ?thesis using P(3) [OF i] by simp
qed

text \<open>A recurrence for enough syndromes has every inverse locator as a root.\<close>

lemma recurrence_roots:
  assumes S: "syndromes_of S N P X e" and p: "recurrence S N L p" and "L + card P \<le> N" and i: "i \<in> P"
  shows "pval p L (inverse (X i)) = 0"
proof -
  have "(\<Sum>j\<in>P. (e j * pval p L (inverse (X j))) * X j ^ n) = 0" if "Suc L \<le> n" "n < Suc L + card P" for n
    using conv_syndromes [OF S, of L p n] recurrenceD(2) [OF p] recurrenceD(3) [OF p, of n] that assms(3) by simp
  then have "e i * pval p L (inverse (X i)) = 0" using syndromes_ofD(1-3) [OF S] i by (intro vandermonde [of P X "Suc L" "\<lambda>j. e j * pval p L (inverse (X j))" i])
  then show ?thesis using syndromes_ofD(4) [OF S i] by simp
qed

text \<open>The polynomial with exactly these roots is such a recurrence.\<close>

lemma locator_recurrence:
  assumes S: "syndromes_of S N P X e"
  shows "\<exists>c. recurrence S N (card P) c"
proof -
  obtain c where c: "c 0 = 1" "\<forall>k>card P. c k = 0" "\<And>x. pval c (card P) x = (\<Prod>j\<in>P. 1 - X j * x)"
    using prod_pval [OF syndromes_ofD(1) [OF S], of "\<lambda>j. 1" X] by auto
  have "pval c (card P) (inverse (X j)) = 0" if "j \<in> P" for j
    unfolding c(3) using that syndromes_ofD(1,3) [OF S] by (intro prod_zero bexI [of _ j]) auto
  then have "conv c S n = 0" if "card P < n" "n \<le> N" for n using conv_syndromes [OF S, of "card P" c n] c(2) that by simp
  then have "recurrence S N (card P) c" using c by (simp add: recurrence_def)
  then show ?thesis by blast
qed

lemma recurrence_unique:
  assumes S: "syndromes_of S N P X e" and p: "recurrence S N L p" and L: "L \<le> card P" "2 * card P \<le> N"
  shows "L = card P" and "pval p L x = (\<Prod>j\<in>P. 1 - X j * x)"
proof -
  note P = syndromes_ofD(1-3) [OF S]
  define R where "R = (\<lambda>j. inverse (X j)) ` P"
  have "inj_on (\<lambda>j. inverse (X j)) P" using P(2) by (simp add: inj_on_def)
  then have R: "finite R" "card R = card P" "0 \<notin> R" using P(1,3) by (auto simp: R_def card_image)
  have root: "pval p L a = 0" if "a \<in> R" for a
  proof -
    from that obtain j where "j \<in> P" "a = inverse (X j)" by (auto simp: R_def)
    then show ?thesis using recurrence_roots [OF S p _ \<open>j \<in> P\<close>] L by simp
  qed
  have at0: "pval q n 0 = q 0" for q :: "nat \<Rightarrow> 'a" and n
    by (simp add: pval_def power_0_left if_distrib sum.delta cong: if_cong)
  show LP: "L = card P"
  proof (rule ccontr)
    assume "L \<noteq> card P"
    then have "L < card R" using R(2) L(1) by simp
    then have "pval p L 0 = 0" using root by (rule pval_many_roots [OF R(1)])
    then show False using recurrenceD(1) [OF p] by (simp add: at0)
  qed
  obtain c where c: "c 0 = 1" "\<And>x. pval c L x = (\<Prod>j\<in>P. 1 - X j * x)"
    using prod_pval [OF P(1), of "\<lambda>j. 1" X] unfolding LP [symmetric] by auto
  have "pval c L a = 0" if "a \<in> R" for a
  proof -
    from that obtain j where "j \<in> P" "a = inverse (X j)" by (auto simp: R_def)
    then show ?thesis unfolding c(2) using P(1,3) by (intro prod_zero bexI [of _ j]) auto
  qed
  then have "pval p L a = pval c L a" if "a \<in> insert 0 R" for a
    using that root recurrenceD(1) [OF p] c(1) by (auto simp: at0)
  then have "pval p L x = pval c L x" using R LP by (intro pval_agree [of "insert 0 R" L p c x]) simp_all
  then show "pval p L x = (\<Prod>j\<in>P. 1 - X j * x)" unfolding c(2) .
qed

section \<open>Error values\<close>

text \<open>Division of \<open>p\<close> by \<open>1 - a x\<close>: the quotient has the coefficients \<open>quot p a\<close>.\<close>

definition quot :: "(nat \<Rightarrow> 'a::comm_ring_1) \<Rightarrow> 'a \<Rightarrow> nat \<Rightarrow> 'a" where
  "quot p a i = (\<Sum>k\<le>i. p k * a ^ (i - k))"

lemma quot_Suc: "quot p a (Suc i) = p (Suc i) + a * quot p a i"
  by (simp add: quot_def sum_distrib_left Suc_diff_le mult_ac)

lemma quot_division: "(1 - a * x) * (\<Sum>i<n. quot p a i * x ^ i) = pval p n x - quot p a n * x ^ n"
proof (induction n)
  case (Suc n)
  have "(1 - a * x) * (\<Sum>i<Suc n. quot p a i * x ^ i) = (1 - a * x) * (\<Sum>i<n. quot p a i * x ^ i) + (1 - a * x) * (quot p a n * x ^ n)"
    by (simp add: distrib_left)
  also have "\<dots> = pval p n x - a * quot p a n * x ^ Suc n" unfolding Suc by (simp add: algebra_simps)
  also have "\<dots> = pval p (Suc n) x - quot p a (Suc n) * x ^ Suc n" by (simp add: pval_def quot_Suc algebra_simps)
  finally show ?case .
qed (simp add: pval_def quot_def)

lemma quot_root: "(a :: 'a::field) \<noteq> 0 \<Longrightarrow> pval p n (inverse a) = 0 \<Longrightarrow> quot p a n = 0"
proof -
  assume a: "a \<noteq> 0" and r: "pval p n (inverse a) = 0"
  have "quot p a n = a ^ n * pval p n (inverse a)"
    unfolding quot_def pval_def sum_distrib_left using a by (intro sum.cong) (auto simp: power_diff power_inverse divide_inverse mult_ac)
  then show ?thesis using r by simp
qed

text \<open>The polynomial \<open>z\<close> of the decoder: the recurrence and the first terms of its product with the syndromes.\<close>

definition zpoly :: "(nat \<Rightarrow> 'a::comm_ring_1) \<Rightarrow> (nat \<Rightarrow> 'a) \<Rightarrow> nat \<Rightarrow> 'a" where
  "zpoly p S i = p i + (\<Sum>k<i. p k * S (i - k))"

lemma forney:
  fixes S :: "nat \<Rightarrow> 'a::field"
  assumes S: "syndromes_of S N P X e" and L: "L = card P" "L \<le> N" and p: "\<And>x. pval p L x = (\<Prod>j\<in>P. 1 - X j * x)"
    and m: "m \<in> P" and A: "finite A" "card P \<le> card A" "inverse (X m) \<notin> A"
  shows "pval (zpoly p S) L (inverse (X m)) = e m * (\<Prod>j\<in>P - {m}. 1 - X j * inverse (X m))"
proof -
  define x where "x = inverse (X m)"
  define Q where "Q j y = (\<Sum>i<L. quot p (X j) i * y ^ i)" for j y
  note P = syndromes_ofD [OF S]
  have root: "pval p L (inverse (X j)) = 0" if "j \<in> P" for j
    unfolding p using that P(1,3) by (intro prod_zero bexI [of _ j]) auto
  have Qp: "(1 - X j * y) * Q j y = pval p L y" if "j \<in> P" for j y
    unfolding Q_def quot_division using quot_root [OF P(3) [OF that] root [OF that]] by simp
  have other: "Q j x = 0" if "j \<in> P - {m}" for j
  proof -
    have "(1 - X j * x) * Q j x = 0" using Qp [of j x] root [OF m] that by (simp add: x_def)
    moreover have "X j * x \<noteq> 1" using that P(2,3) m by (auto simp: x_def field_simps inj_on_def)
    ultimately show ?thesis by simp
  qed
  have same: "Q m x = (\<Prod>j\<in>P - {m}. 1 - X j * x)"
  proof -
    have D: "L = Suc (card (P - {m}))" using L(1) P(1) m by (metis card.remove)
    obtain c where c: "\<And>y. pval c (card (P - {m})) y = (\<Prod>j\<in>P - {m}. 1 - X j * y)"
      using prod_pval [of "P - {m}" "\<lambda>j. 1" X] P(1) by auto
    have Qv: "Q m y = pval (quot p (X m)) (card (P - {m})) y" for y unfolding Q_def D pval_def lessThan_Suc_atMost ..
    have "pval (quot p (X m)) (card (P - {m})) a = pval c (card (P - {m})) a" if "a \<in> A" for a
    proof -
      have "(1 - X m * a) * Q m a = (1 - X m * a) * (\<Prod>j\<in>P - {m}. 1 - X j * a)"
        unfolding Qp [OF m] p using P(1) m by (rule prod.remove)
      moreover have "X m * a \<noteq> 1" using that A(3) inverse_unique [of "X m" a] by auto
      ultimately show ?thesis unfolding c Qv by simp
    qed
    moreover have "card (P - {m}) < card A" using A(2) L(1) D by linarith
    ultimately show ?thesis unfolding Qv c [symmetric] using pval_agree [OF A(1), of "card (P - {m})"] by blast
  qed
  have w: "(\<Sum>k<i. p k * S (i - k)) = (\<Sum>j\<in>P. e j * X j * quot p (X j) (i - 1))" if "1 \<le> i" "i \<le> L" for i
  proof -
    have "p k * S (i - k) = (\<Sum>j\<in>P. e j * X j * (p k * X j ^ (i - 1 - k)))" if "k < i" for k
    proof -
      have "S (i - k) = (\<Sum>j\<in>P. e j * X j ^ (i - k))" using that \<open>i \<le> L\<close> L(2) by (intro P(5)) auto
      moreover have "X j ^ (i - k) = X j * X j ^ (i - 1 - k)" for j using that by (metis Suc_diff_Suc diff_commute diff_diff_left plus_1_eq_Suc power_Suc)
      ultimately show ?thesis by (simp add: sum_distrib_left mult_ac)
    qed
    then have "(\<Sum>k<i. p k * S (i - k)) = (\<Sum>j\<in>P. \<Sum>k<i. e j * X j * (p k * X j ^ (i - 1 - k)))" by (subst sum.swap) simp
    moreover have "{..<i} = {..i - 1}" using that by auto
    ultimately show ?thesis by (simp add: quot_def sum_distrib_left)
  qed
  have "pval (zpoly p S) L x = pval p L x + (\<Sum>i\<le>L. (\<Sum>k<i. p k * S (i - k)) * x ^ i)"
    by (simp add: pval_def zpoly_def distrib_right sum.distrib)
  also have "(\<Sum>i\<le>L. (\<Sum>k<i. p k * S (i - k)) * x ^ i) = (\<Sum>i<L. (\<Sum>j\<in>P. e j * X j * quot p (X j) i) * x ^ Suc i)"
  proof -
    have "(\<Sum>i<L. (\<Sum>k<Suc i. p k * S (Suc i - k)) * x ^ Suc i) = (\<Sum>i<L. (\<Sum>j\<in>P. e j * X j * quot p (X j) i) * x ^ Suc i)"
      using w [of "Suc i" for i] by (intro sum.cong) simp_all
    then show ?thesis by (subst sum.atMost_shift) simp
  qed
  also have "\<dots> = (\<Sum>j\<in>P. e j * X j * x * Q j x)"
    unfolding Q_def sum_distrib_left sum_distrib_right by (subst sum.swap) (simp add: mult_ac)
  also have "\<dots> = e m * X m * x * Q m x" using P(1) m other by (subst sum.remove [OF P(1) m]) simp
  also have "\<dots> = e m * (\<Prod>j\<in>P - {m}. 1 - X j * x)" 
    unfolding same using P(3) [OF m] by (simp add: x_def mult.assoc [of "e m"])
  finally show ?thesis using root [OF m] unfolding x_def by simp
qed

end
