(* ===== verification/Reed_Solomon_Code.thy ===== *)
theory Reed_Solomon_Code
  imports Reed_Solomon Fft_Roots Berlekamp Hqc_Vector_Lemmas
begin

text \<open>
  The code words of the Reed-Solomon code: the tables of powers and the generator polynomial, the encoder, and the
  syndromes, which are zero exactly at the powers 1 to 30 of the generator.
\<close>

section \<open>The tables\<close>

text \<open>Walking through a table of powers with a stride; the strides are counted by lists.\<close>

fun skip :: "'a list \<Rightarrow> 'b list \<Rightarrow> 'b list" where
  "skip [] ys = ys"
| "skip (x # xs) [] = []"
| "skip (x # xs) (y # ys) = skip xs ys"

fun strided :: "'a list \<Rightarrow> 'b list \<Rightarrow> 'c list \<Rightarrow> 'c list" where
  "strided st [] ys = []"
| "strided st (c # cs) ys = hd ys # strided st cs (skip st ys)"

fun rows_match :: "int list \<Rightarrow> int list \<Rightarrow> int list list \<Rightarrow> bool" where
  "rows_match st ys [] = True"
| "rows_match st ys (r # rs) = (strided st r (skip st ys) = r \<and> rows_match (0 # st) ys rs)"

definition cycle :: "'a list \<Rightarrow> 'a list" where
  "cycle xs = concat [xs, xs, xs, xs, xs, xs]"

lemma skip_drop: "skip xs ys = drop (length xs) ys"
  by (induction xs ys rule: skip.induct) simp_all

lemma strided_length [simp]: "length (strided st cs ys) = length cs"
  by (induction st cs ys rule: strided.induct) simp_all

lemma strided_nth: "m < length cs \<Longrightarrow> m * length st < length ys \<Longrightarrow> strided st cs ys ! m = ys ! (m * length st)"
proof (induction cs arbitrary: m ys)
  case (Cons c cs)
  then show ?case by (cases m) (auto simp: skip_drop hd_conv_nth add.commute intro!: arg_cong [where f = "(!) ys"])
qed simp

lemma rows_match_nth:
  "rows_match st ys rs \<Longrightarrow> i < length rs \<Longrightarrow> j < length (rs ! i) \<Longrightarrow> (length st + i) * Suc j < length ys \<Longrightarrow>
   rs ! i ! j = ys ! ((length st + i) * Suc j)"
proof (induction rs arbitrary: i st)
  case (Cons r rs)
  show ?case
  proof (cases i)
    case 0
    then have "r ! j = strided st r (skip st ys) ! j" using Cons.prems by simp
    also have "\<dots> = skip st ys ! (j * length st)" using Cons.prems 0 by (intro strided_nth) (auto simp: skip_drop mult.commute)
    finally show ?thesis using 0 Cons.prems by (simp add: skip_drop mult.commute)
  next
    case (Suc i')
    then show ?thesis using Cons.IH [of "0 # st" i'] Cons.prems by simp
  qed
qed simp

lemma cycle_length [simp]: "length (cycle xs) = 6 * length xs"
  by (simp add: cycle_def)

lemma cycle_nth: "k < 6 * length xs \<Longrightarrow> cycle xs ! k = xs ! (k mod length xs)"
  unfolding cycle_def by (auto simp: nth_append not_less le_mod_geq)

lemma alpha_power_mod: "alpha ^ (k mod 255) = alpha ^ k"
  by (metis alpha_255 mod_div_mult_eq mult.commute mult_1_right power_add power_mult power_one)

definition powers :: "int list" where "powers = cycle (map uint (take 255 gf_exp))"

lemma powers_length [simp]: "length powers = 1530"
  by (simp add: powers_def)

lemma powers_nth: "k < 1530 \<Longrightarrow> powers ! k = uint (gf_exp ! (k mod 255))"
  by (simp add: powers_def cycle_nth)

lemma gf_powers: "k < 1530 \<Longrightarrow> gf (word_of_int (powers ! k)) = alpha ^ k"
  using gf_exp_alpha [of "k mod 255"] by (simp add: powers_nth alpha_power_mod)

lemma alpha_ij_pow_table: "rows_match [0] powers (map (map uint) alpha_ij_pow)"
  unfolding powers_def gf_exp_def alpha_ij_pow_def by code_simp

lemma alpha_ij_pow_shape: "length alpha_ij_pow = 30" "list_all (\<lambda>r. length r = 45) alpha_ij_pow"
  by (simp_all add: alpha_ij_pow_def)

lemma alpha_ij_pow_nth:
  assumes "i < 30" "j < 45"
  shows "gf (alpha_ij_pow ! i ! j) = alpha ^ (Suc i * Suc j)" and "unat (alpha_ij_pow ! i ! j) < 256"
proof -
  have l: "i < length alpha_ij_pow" "j < length (alpha_ij_pow ! i)"
    using assms alpha_ij_pow_shape by (simp_all add: list_all_length)
  have "Suc i * Suc j \<le> 30 * 45" using assms by (intro mult_le_mono) auto
  then have k: "Suc i * Suc j < 1530" by simp
  have "uint (alpha_ij_pow ! i ! j) = powers ! (Suc i * Suc j)"
    using rows_match_nth [OF alpha_ij_pow_table, of i j] l k by simp
  then have e: "alpha_ij_pow ! i ! j = gf_exp ! (Suc i * Suc j mod 255)" unfolding powers_nth [OF k] by (simp only: word_uint_eq_iff)
  have m: "Suc i * Suc j mod 255 < 258" using mod_less_divisor [of 255 "Suc i * Suc j"] by linarith
  show "gf (alpha_ij_pow ! i ! j) = alpha ^ (Suc i * Suc j)" unfolding e gf_exp_alpha [OF m] by (rule alpha_power_mod)
  show "unat (alpha_ij_pow ! i ! j) < 256" unfolding e by (rule gf_exp_small [OF m])
qed

text \<open>The values of the generator polynomial at the powers of the generator, summed over the coefficients.\<close>

fun seek :: "int \<Rightarrow> int list \<Rightarrow> int list" and seek_case :: "bool \<Rightarrow> int \<Rightarrow> int \<Rightarrow> int list \<Rightarrow> int list" where
  "seek c [] = []"
| "seek c (x # xs) = seek_case (x = c) c x xs"
| "seek_case True c x xs = x # xs"
| "seek_case False c x xs = seek c xs"

fun poly_sums :: "int list \<Rightarrow> int list \<Rightarrow> int list \<Rightarrow> int list \<Rightarrow> int list \<Rightarrow> int list" where
  "poly_sums st ixs ys [] acc = acc"
| "poly_sums st ixs ys (c # cs) acc = poly_sums (0 # st) ixs ys cs (map2 (\<lambda>a b. a XOR b) acc (strided st ixs (seek c ys)))"

lemma generator_table:
  "tl (poly_sums [] [0..30] powers (map uint RS_POLY_COEFS) (map (\<lambda>_. 0) [0..30])) = map (\<lambda>_. 0) [1..30]"
  unfolding powers_def gf_exp_def RS_POLY_COEFS_def by code_simp

lemma seek_drop: "k < length ys \<Longrightarrow> ys ! k = c \<Longrightarrow> \<exists>l\<le>k. ys ! l = c \<and> seek c ys = drop l ys"
proof (induction ys arbitrary: k)
  case (Cons y ys)
  show ?case
  proof (cases "y = c")
    case False
    then obtain k' where "k = Suc k'" using Cons.prems by (cases k) auto
    then obtain l where "l \<le> k'" "ys ! l = c" "seek c ys = drop l ys" using Cons by auto
    then show ?thesis using False \<open>k = Suc k'\<close> by (intro exI [of _ "Suc l"]) simp
  qed auto
qed simp

text \<open>A non-zero byte is found in the table, and the entries that follow it are its products with the powers.\<close>

lemma seek_powers:
  assumes "0 < unat c" "unat c < 256" "m < 1000"
  shows "gf (word_of_int (seek (uint c) powers ! m)) = gf c * alpha ^ m" and "m < length (seek (uint c) powers)"
proof -
  note e = gf_log_exp [OF assms(1,2)]
  have "powers ! unat (gf_log ! unat c) = uint c" using e by (simp add: powers_nth)
  then obtain l where "l \<le> unat (gf_log ! unat c)" and l: "powers ! l = uint c" "seek (uint c) powers = drop l powers"
    using seek_drop [of "unat (gf_log ! unat c)" powers "uint c"] e(1) by auto
  then have "l < 255" using e(1) by linarith
  note l = this l
  then show "m < length (seek (uint c) powers)" using assms(3) by simp
  have "gf c = alpha ^ l" using gf_powers [of l] l(1,2) by simp
  then show "gf (word_of_int (seek (uint c) powers ! m)) = gf c * alpha ^ m"
    using gf_powers [of "l + m"] l assms(3) by (simp add: power_add)
qed

lemma poly_sums_nth:
  assumes "\<forall>c\<in>set cs. 0 < unat c \<and> unat c < 256" "length acc = length ixs" "i < length ixs" "i * (length st + length cs) < 1000"
  shows "gf (word_of_int (poly_sums st ixs powers (map uint cs) acc ! i)) =
    gf (word_of_int (acc ! i)) + (\<Sum>j<length cs. gf (cs ! j) * (alpha ^ i) ^ (length st + j))"
  using assms
proof (induction cs arbitrary: st acc)
  case (Cons c cs)
  let ?s = "strided st ixs (seek (uint c) powers)"
  have "i * length st \<le> i * (length st + length (c # cs))" by (intro mult_le_mono) auto
  then have m: "i * length st < 1000" using Cons.prems(4) by linarith
  have "gf (word_of_int (?s ! i)) = gf c * (alpha ^ i) ^ length st"
    using seek_powers [OF _ _ m, of c] Cons.prems(1,3) by (simp add: strided_nth power_mult)
  moreover have "word_of_int (a XOR b) = (word_of_int a XOR word_of_int b :: u16)" for a b by (rule bit_eqI) (simp add: bit_xor_iff bit_word_of_int_iff)
  ultimately have "gf (word_of_int (map2 (\<lambda>a b. a XOR b) acc ?s ! i)) = gf (word_of_int (acc ! i)) + gf c * (alpha ^ i) ^ length st"
    using Cons.prems(2,3) by (simp add: gf_xor)
  then show ?case using Cons.IH [of "map2 (\<lambda>a b. a XOR b) acc ?s" "0 # st"] Cons.prems
    by (simp add: sum.lessThan_Suc_shift add.assoc del: sum.lessThan_Suc)
qed simp

text \<open>The coefficients of a polynomial given as an array.\<close>

definition co :: "u16 list \<Rightarrow> nat \<Rightarrow> gf256" where
  "co xs k = (if k < length xs then gf (xs ! k) else 0)"

lemma RS_POLY_shape: "length RS_POLY_COEFS = 31" "RS_POLY_COEFS ! 30 = 1" "\<forall>c\<in>set RS_POLY_COEFS. 0 < unat c \<and> unat c < 256"
  by (simp_all add: RS_POLY_COEFS_def)

lemma generator_roots:
  assumes "1 \<le> i" "i \<le> 30"
  shows "pval (co RS_POLY_COEFS) 30 (alpha ^ i) = 0"
proof -
  let ?p = "poly_sums [] [0..30] powers (map uint RS_POLY_COEFS) (map (\<lambda>_. 0) [0..30])"
  have l: "length (poly_sums st ixs ys cs acc) = length ixs" if "length acc = length ixs" for st ixs ys cs acc
    using that by (induction cs arbitrary: st acc) simp_all
  obtain k where k: "i = Suc k" using assms by (cases i) auto
  have "?p ! i = tl ?p ! k" unfolding k using l [of _ "[0..30]"] assms k by (intro nth_tl [symmetric]) simp
  then have "?p ! i = 0" unfolding generator_table using assms k by simp
  moreover have "i * 31 < 1000" using assms by simp
  ultimately have "(\<Sum>j<31. gf (RS_POLY_COEFS ! j) * (alpha ^ i) ^ j) = 0"
    using poly_sums_nth [of RS_POLY_COEFS "map (\<lambda>_. 0) [0..30]" "[0..30]" i "[]"] RS_POLY_shape assms by simp
  moreover have "{..30} = {..<31 :: nat}" by auto
  ultimately show ?thesis by (simp add: pval_def co_def RS_POLY_shape)
qed

section \<open>The encoder\<close>

text \<open>The element a byte stands for, and the value of the polynomial of the first bytes of an array.\<close>

abbreviation gfb :: "u8 \<Rightarrow> gf256" where "gfb b \<equiv> gf (ucast b)"

definition bval :: "u8 list \<Rightarrow> nat \<Rightarrow> gf256 \<Rightarrow> gf256" where
  "bval bs n x = (\<Sum>k<n. gfb (bs ! k) * x ^ k)"

lemma gf_ucast_byte [simp]: "gfb (ucast w) = gf w"
  by transfer (simp add: unsigned_ucast_eq take_bit_eq_mod unat_mod)

lemma gfb_xor: "gfb (a XOR b) = gfb a + gfb b"
proof -
  have "(ucast (a XOR b) :: u16) = ucast a XOR ucast b" by (rule bit_eqI) (simp add: bit_xor_iff bit_ucast_iff)
  then show ?thesis by (simp add: gf_xor)
qed

lemma gfb_inject [simp]: "gfb a = gfb b \<longleftrightarrow> a = b"
proof -
  have s: "unat (ucast c :: u16) < 256" for c :: u8 using unsigned_less [of c, where 'a = nat] by simp
  show ?thesis unfolding gf_inject [OF s s] by (simp add: word_unat_eq_iff)
qed

lemma gfb_0 [simp]: "gfb 0 = 0"
  by simp

lemma shift_down_loop:
  assumes "n \<le> length c" "j < length c"
  shows "fold (\<lambda>k c. c[k := c ! (k - 1) XOR t k]) (rev [1..<n]) c ! j = (if 1 \<le> j \<and> j < n then c ! (j - 1) XOR t j else c ! j :: u8)"
  using assms
proof (induction n arbitrary: c)
  case (Suc n)
  then show ?case by (cases "n = 0") (auto simp: nth_list_update)
qed simp

lemma rs_shift_nth:
  assumes "length c = 46" "j < 46"
  shows "gfb (rs_shift m c ! j) = (if j < 30 then shift (\<lambda>k. gfb (c ! k)) j + gfb (m XOR c ! 29) * co RS_POLY_COEFS j else gfb (c ! j))"
proof -
  define t where "t = map (\<lambda>j. gf_mul (ucast (m XOR c ! 29)) (RS_POLY_COEFS ! j)) [0..<31]"
  have s: "rs_shift m c = (fold (\<lambda>k c. c[k := c ! (k - 1) XOR ucast (t ! k)]) (rev [1..<30]) c)[0 := ucast (t ! 0)]"
    by (simp add: rs_shift_def Let_def t_def)
  have t: "gf (t ! k) = gfb (m XOR c ! 29) * co RS_POLY_COEFS k" if "k < 31" for k
    using that unfolding t_def by (simp add: gf_mul co_def RS_POLY_shape del: upt_Suc)
  show ?thesis
  proof (cases j)
    case 0
    then show ?thesis using assms t [of 0] by (simp add: s)
  next
    case (Suc k)
    then show ?thesis using assms t [of j] unfolding s by (simp add: shift_down_loop [simplified] gfb_xor del: upt_Suc)
  qed
qed

lemma rs_shift_length [simp]: "length (rs_shift m c) = length c"
proof -
  have "length (fold (\<lambda>k c. c[k := c ! (k - 1) XOR t k]) is c) = length c" for t "is" by (induction "is" arbitrary: c) simp_all
  then show ?thesis by (simp add: rs_shift_def Let_def)
qed

text \<open>At a root of the generator polynomial the register is multiplied by \<open>x\<close>, and the byte enters at the top.\<close>

lemma rs_shift_value:
  assumes "length c = 46" "pval (co RS_POLY_COEFS) 30 x = 0"
  shows "bval (rs_shift m c) 30 x = x * bval c 30 x + gfb m * x ^ 30"
proof -
  let ?g = "gfb (m XOR c ! 29)"
  have "bval (rs_shift m c) 30 x = (\<Sum>k<30. shift (\<lambda>k. gfb (c ! k)) k * x ^ k) + ?g * (\<Sum>k<30. co RS_POLY_COEFS k * x ^ k)"
    using assms(1) by (simp add: bval_def rs_shift_nth distrib_right sum.distrib sum_distrib_left mult.assoc)
  also have "(\<Sum>k<30. co RS_POLY_COEFS k * x ^ k) = x ^ 30"
  proof -
    have "(\<Sum>k<30. co RS_POLY_COEFS k * x ^ k) + x ^ 30 = pval (co RS_POLY_COEFS) 30 x"
      using sum.lessThan_Suc [of "\<lambda>k. co RS_POLY_COEFS k * x ^ k" 30]
      unfolding pval_def lessThan_Suc_atMost [symmetric] by (simp add: co_def RS_POLY_shape)
    then show ?thesis using assms(2) by (metis add.commute add.right_neutral gf256_add_self(2))
  qed
  also have "(\<Sum>k<30. shift (\<lambda>k. gfb (c ! k)) k * x ^ k) = (\<Sum>k<29. gfb (c ! k) * x ^ Suc k)"
    using sum.lessThan_Suc_shift [of "\<lambda>k. shift (\<lambda>k. gfb (c ! k)) k * x ^ k" 29] by simp
  also have "\<dots> = x * bval c 30 x + gfb (c ! 29) * x ^ 30"
  proof -
    have "bval c 30 x = (\<Sum>k<29. gfb (c ! k) * x ^ k) + gfb (c ! 29) * x ^ 29"
      using sum.lessThan_Suc [of "\<lambda>k. gfb (c ! k) * x ^ k" 29] by (simp add: bval_def)
    moreover have "x * x ^ 29 = x ^ 30" using power_Suc [of x 29] by simp
    ultimately show ?thesis by (simp add: distrib_left sum_distrib_left mult.left_commute [of x] add.assoc)
  qed
  finally show ?thesis by (simp add: gfb_xor distrib_right add_ac)
qed

definition rs_register :: "u8 list \<Rightarrow> nat \<Rightarrow> u8 list" where
  "rs_register msg n = fold (\<lambda>i. rs_shift (msg ! (PARAM_K - 1 - i))) [0..<n] (replicate PARAM_N1 0)"

lemma rs_register_length [simp]: "length (rs_register msg n) = 46"
  by (induction n) (simp_all add: rs_register_def)

lemma rs_register_value:
  assumes "pval (co RS_POLY_COEFS) 30 x = 0" "n \<le> 16"
  shows "x ^ (16 - n) * bval (rs_register msg n) 30 x = (\<Sum>i<n. gfb (msg ! (15 - i)) * x ^ (45 - i))"
  using assms(2)
proof (induction n)
  case 0
  then show ?case by (simp add: rs_register_def bval_def)
next
  case (Suc n)
  have r: "rs_register msg (Suc n) = rs_shift (msg ! (15 - n)) (rs_register msg n)" by (simp add: rs_register_def)
  have "x ^ (16 - Suc n) * bval (rs_register msg (Suc n)) 30 x =
      x ^ Suc (16 - Suc n) * bval (rs_register msg n) 30 x + gfb (msg ! (15 - n)) * (x ^ (16 - Suc n) * x ^ 30)"
    unfolding r using assms(1) by (subst rs_shift_value) (simp_all add: distrib_left mult_ac)
  moreover have "Suc (16 - Suc n) = 16 - n" "x ^ (16 - Suc n) * x ^ 30 = x ^ (45 - n)" using Suc.prems by (simp_all flip: power_add)
  ultimately show ?case using Suc by (simp only: sum.lessThan_Suc Suc_leD)
qed

lemma encode_bytes:
  assumes "length cdw = 6" "length msg = 2"
  shows "take 46 (word_bytes (reed_solomon_encode cdw msg)) = take 30 (rs_register (word_bytes msg) 16) @ word_bytes msg"
    and "drop 46 (word_bytes (reed_solomon_encode cdw msg)) = drop 46 (word_bytes cdw)"
    and "length (reed_solomon_encode cdw msg) = 6"
proof -
  define b where "b = memcpy_at (rs_register (word_bytes msg) 16) 30 (word_bytes msg)"
  have e: "reed_solomon_encode cdw msg = memcpy_words cdw b"
    using assms(2) by (simp add: reed_solomon_encode_def Let_def rs_register_def b_def del: upt_Suc)
  have b: "length b = 46" "b = take 30 (rs_register (word_bytes msg) 16) @ word_bytes msg"
    using assms(2) by (simp_all add: b_def memcpy_at_def)
  show "length (reed_solomon_encode cdw msg) = 6" using assms(1) b(1) by (simp add: e)
  have "word_bytes (reed_solomon_encode cdw msg) = memcpy_at (word_bytes cdw) 0 b" using assms(1) b(1) by (simp add: e word_bytes_memcpy)
  then have w: "word_bytes (reed_solomon_encode cdw msg) = b @ drop 46 (word_bytes cdw)" using b(1) by (simp add: memcpy_at_def)
  show "take 46 (word_bytes (reed_solomon_encode cdw msg)) = take 30 (rs_register (word_bytes msg) 16) @ word_bytes msg"
    unfolding w using b by simp
  show "drop 46 (word_bytes (reed_solomon_encode cdw msg)) = drop 46 (word_bytes cdw)" unfolding w using b(1) by simp
qed

text \<open>A code word is zero at the powers 1 to 30 of the generator.\<close>

lemma encode_value:
  assumes "length cdw = 6" "length msg = 2" "1 \<le> i" "i \<le> 30"
  shows "bval (word_bytes (reed_solomon_encode cdw msg)) 46 (alpha ^ i) = 0"
proof -
  let ?x = "alpha ^ i" and ?c = "word_bytes (reed_solomon_encode cdw msg)" and ?r = "rs_register (word_bytes msg) 16"
  have c: "?c ! k = (if k < 30 then ?r ! k else word_bytes msg ! (k - 30))" if "k < 46" for k
  proof -
    have "?c ! k = take 46 ?c ! k" using that by simp
    then show ?thesis unfolding encode_bytes(1) [OF assms(1,2)] using that by (simp add: nth_append)
  qed
  have "bval ?c 46 ?x = (\<Sum>k<30. gfb (?c ! k) * ?x ^ k) + (\<Sum>k=30..<46. gfb (?c ! k) * ?x ^ k)"
    unfolding bval_def using sum.atLeastLessThan_concat [of 0 30 46 "\<lambda>k. gfb (?c ! k) * ?x ^ k"] by (simp add: lessThan_atLeast0)
  also have "(\<Sum>k<30. gfb (?c ! k) * ?x ^ k) = bval ?r 30 ?x" by (simp add: bval_def c)
  also have "(\<Sum>k=30..<46. gfb (?c ! k) * ?x ^ k) = (\<Sum>i<16. gfb (word_bytes msg ! (15 - i)) * ?x ^ (45 - i))"
    by (rule sum.reindex_bij_witness [of _ "\<lambda>i. 45 - i" "\<lambda>k. 45 - k"]) (auto simp: c)
  also have "\<dots> = bval ?r 30 ?x" using rs_register_value [OF generator_roots [OF assms(3,4)], of 16] by simp
  finally show ?thesis by simp
qed

section \<open>Syndromes\<close>

lemma sum_loop:
  assumes "i < length s"
  shows "gf (fold (\<lambda>j s. s[i := s ! i XOR g j]) js s ! i) = gf (s ! i) + (\<Sum>j\<leftarrow>js. gf (g j))"
    and "k \<noteq> i \<Longrightarrow> fold (\<lambda>j s. s[i := s ! i XOR g j]) js s ! k = s ! k"
  using assms by (induction js arbitrary: s) (simp_all add: gf_xor add_ac)

lemma sum_upt: "(\<Sum>j\<leftarrow>[m..<n]. f j) = (\<Sum>j=m..<n. f j :: gf256)"
  by (metis atLeastLessThan_upt distinct_upt sum_list_distinct_conv_sum_set)

definition syndrome_step :: "u8 list \<Rightarrow> nat \<Rightarrow> u16 list \<Rightarrow> u16 list" where
  "syndrome_step cdw i s =
     (let s = fold (\<lambda>j s. s[i := s ! i XOR gf_mul (ucast (cdw ! j)) (alpha_ij_pow ! i ! (j - 1))]) [1..<PARAM_N1] s
      in s[i := s ! i XOR ucast (cdw ! 0)])"

lemma syndrome_step:
  assumes "length s = 30" "i < 30"
  shows "gf (syndrome_step cdw i s ! i) = gf (s ! i) + bval cdw 46 (alpha ^ Suc i)"
    and "k \<noteq> i \<Longrightarrow> syndrome_step cdw i s ! k = s ! k" and "length (syndrome_step cdw i s) = 30"
    and "small s \<Longrightarrow> small (syndrome_step cdw i s)"
proof -
  let ?g = "\<lambda>j. gf_mul (ucast (cdw ! j)) (alpha_ij_pow ! i ! (j - 1))"
  let ?f = "fold (\<lambda>j s. s[i := s ! i XOR ?g j]) [1..<46] s"
  have i: "i < length s" and l: "length ?f = 30" using assms by simp_all
  show "length (syndrome_step cdw i s) = 30" using l by (simp add: syndrome_step_def Let_def del: upt_Suc)
  show "syndrome_step cdw i s ! k = s ! k" if "k \<noteq> i"
    using sum_loop(2) [OF i that, of ?g "[1..<46]"] that by (simp add: syndrome_step_def Let_def)
  have "(\<Sum>j\<leftarrow>[1..<46]. gf (?g j)) = (\<Sum>j=1..<46. gfb (cdw ! j) * (alpha ^ Suc i) ^ j)"
    unfolding sum_upt using assms(2) by (intro sum.cong) (auto simp: gf_mul alpha_ij_pow_nth power_mult Suc_diff_le simp del: power_Suc mult_Suc mult_Suc_right)
  then show "gf (syndrome_step cdw i s ! i) = gf (s ! i) + bval cdw 46 (alpha ^ Suc i)"
    using sum_loop(1) [OF i, of ?g "[1..<46]"] i
    by (simp add: syndrome_step_def Let_def gf_xor bval_def lessThan_atLeast0 sum.atLeast_Suc_lessThan [of 0] add_ac del: power_Suc upt_Suc)
  show "small (syndrome_step cdw i s)" if "small s"
  proof -
    have s: "small ?f" using that i by (intro small_fold_update [where n = 30]) (use assms in \<open>auto intro!: unat_xor_small small_nth\<close>)
    have "unat (ucast (cdw ! 0) :: u16) < 256" using unsigned_less [of "cdw ! 0", where 'a = nat] by simp
    then show ?thesis using s small_nth [OF s, of i] l assms(2) by (simp add: syndrome_step_def Let_def del: upt_Suc)
  qed
qed

lemma compute_syndromes_correct:
  shows "i < 30 \<Longrightarrow> gf (compute_syndromes (replicate 30 0) cdw ! i) = bval cdw 46 (alpha ^ Suc i)"
    and "length (compute_syndromes (replicate 30 0) cdw) = 30" and "small (compute_syndromes (replicate 30 0) cdw)"
proof -
  have e: "compute_syndromes (replicate 30 0) cdw = fold (syndrome_step cdw) [0..<30] (replicate 30 0)"
    unfolding compute_syndromes_def by (rule fold_cong) (simp_all add: syndrome_step_def fun_eq_iff)
  have "length (fold (syndrome_step cdw) [0..<n] (replicate 30 0)) = 30 \<and> small (fold (syndrome_step cdw) [0..<n] (replicate 30 0)) \<and>
      (\<forall>i<30. gf (fold (syndrome_step cdw) [0..<n] (replicate 30 0) ! i) = (if i < n then bval cdw 46 (alpha ^ Suc i) else 0))"
    if "n \<le> 30" for n using that
  proof (induction n)
    case (Suc n)
    let ?s = "fold (syndrome_step cdw) [0..<n] (replicate 30 0)"
    have s: "length ?s = 30" "small ?s" "n < 30" and v: "\<And>i. i < 30 \<Longrightarrow> gf (?s ! i) = (if i < n then bval cdw 46 (alpha ^ Suc i) else 0)"
      using Suc by auto
    show ?case using syndrome_step [OF s(1,3), where cdw = cdw] s(2) v by (auto simp: less_Suc_eq simp del: power_Suc)
  qed simp
  from this [of 30] show "i < 30 \<Longrightarrow> gf (compute_syndromes (replicate 30 0) cdw ! i) = bval cdw 46 (alpha ^ Suc i)"
    "length (compute_syndromes (replicate 30 0) cdw) = 30" "small (compute_syndromes (replicate 30 0) cdw)"
    unfolding e by simp_all
qed

text \<open>The syndromes of a received word are those of its difference to a code word.\<close>

lemma bval_errors:
  assumes "bval c 46 x = 0"
  shows "bval r 46 x = (\<Sum>j\<in>{j. j < 46 \<and> r ! j \<noteq> c ! j}. gfb (r ! j XOR c ! j) * x ^ j)"
proof -
  have "bval r 46 x = bval r 46 x + bval c 46 x" using assms by simp
  also have "\<dots> = (\<Sum>j<46. gfb (r ! j XOR c ! j) * x ^ j)" by (simp add: bval_def gfb_xor distrib_right sum.distrib)
  also have "\<dots> = (\<Sum>j\<in>{j. j < 46 \<and> r ! j \<noteq> c ! j}. gfb (r ! j XOR c ! j) * x ^ j)" by (rule sum.mono_neutral_right) auto
  finally show ?thesis .
qed

end
