(* ===== verification/Reed_Solomon_Locator.thy ===== *)
theory Reed_Solomon_Locator
  imports Reed_Solomon_Code
begin

text \<open>
  The error locator polynomial: \<open>compute_elp\<close> carries out the steps of the Berlekamp algorithm on the syndromes, with
  polynomials cut to 16 coefficients and branches replaced by masks.
\<close>

section \<open>Masks\<close>

lemma sign_bit_diff:
  assumes "a < 2 ^ 14" "b < 2 ^ 14"
  shows "drop_bit 15 (of_nat a - of_nat b :: u16) = of_bool (a < b)"
proof -
  have ab: "unat (of_nat a :: u16) = a" "unat (of_nat b :: u16) = b" using assms by (simp_all add: unat_of_nat_u16)
  have "unat (of_nat a - of_nat b :: u16) = (if b \<le> a then a - b else a + 2 ^ 16 - b)"
    using ab unat_sub_if_size [of "of_nat a :: u16" "of_nat b"] by (simp add: word_size)
  then have "unat (drop_bit 15 (of_nat a - of_nat b :: u16)) = of_bool (a < b)"
    unfolding unat_drop_u16 using assms by (auto simp: drop_bit_eq_div intro!: div_nat_eqI)
  then show ?thesis by (simp add: word_unat_eq_iff split: if_splits)
qed

lemma sign_mask_nonzero: "unat (d :: u16) < 256 \<Longrightarrow> - drop_bit 15 (- d) = (if d = 0 then 0 else - 1)"
  using sign_bit_diff [of 0 "unat d"] by (simp add: unat_gt_0)

lemma masked_choice: "x XOR ((if b then - 1 else 0) AND (y XOR x)) = (if b then y else (x :: 'a::len word))"
  by (simp add: xor.commute [of y] xor.assoc [symmetric])

section \<open>Loops\<close>

lemma xor_loop:
  assumes "n \<le> length a" "k < length a"
  shows "fold (\<lambda>i a. a[i := a ! i XOR g i]) [m..<n] a ! k = (if m \<le> k \<and> k < n then a ! k XOR g k else a ! k :: 'a::len word)"
  using assms by (induction n) (auto simp: nth_list_update less_Suc_eq le_Suc_eq)

lemma xor_fold: "gf (fold (\<lambda>i d. d XOR g i) is d) = gf d + (\<Sum>i\<leftarrow>is. gf (g i))"
  by (induction "is" arbitrary: d) (simp_all add: gf_xor add_ac)

lemma xor_fold_small: "unat d < 256 \<Longrightarrow> (\<And>i. i \<in> set is \<Longrightarrow> unat (g i) < 256) \<Longrightarrow> unat (fold (\<lambda>i d. d XOR g i) is (d :: u16)) < 256"
  by (induction "is" arbitrary: d) simp_all

lemma shift_loop:
  assumes "n \<le> length a" "k < length a"
  shows "fold (\<lambda>i a. a[i := h i (a ! (i - 1))]) (rev [1..<n]) a ! k = (if 1 \<le> k \<and> k < n then h k (a ! (k - 1)) else a ! k)"
  using assms
proof (induction n arbitrary: a)
  case (Suc n)
  then show ?case by (cases "n = 0") (auto simp: nth_list_update)
qed simp

section \<open>One iteration\<close>

text \<open>The sequence of the algorithm: the syndromes from term 1 on.\<close>

definition synd_seq :: "u16 list \<Rightarrow> nat \<Rightarrow> gf256" where
  "synd_seq sy n = (if n = 0 then 1 else gf (sy ! (n - 1)))"

definition elp_shape :: "elp_state \<Rightarrow> bool" where
  "elp_shape s \<longleftrightarrow> length (sigma s) = 16 \<and> small (sigma s) \<and> length (sigma_copy s) = 16 \<and> small (sigma_copy s) \<and>
     length (X_sigma_p s) = 16 \<and> small (X_sigma_p s) \<and> unat (elp_d s) < 256"

text \<open>
  Before iteration \<open>mu\<close> the variables hold a state of the algorithm: \<open>sigma\<close> the polynomial, \<open>deg_sigma\<close> its length, \<open>X_sigma_p\<close>
  the first coefficients of the shifted earlier polynomial, \<open>d_p\<close> and \<open>elp_d\<close> the two discrepancies.
\<close>

definition elp_inv :: "u16 list \<Rightarrow> nat \<Rightarrow> nat \<Rightarrow> elp_state \<Rightarrow> nat \<Rightarrow> (nat \<Rightarrow> gf256) \<Rightarrow> bool" where
  "elp_inv sy nu mu s L B \<longleftrightarrow> elp_shape s \<and> L \<le> nu \<and> (\<forall>k<16. B k = gf (X_sigma_p s ! k)) \<and>
     deg_sigma s = of_nat L \<and> of_nat mu - elp_pp s + deg_sigma_p s = of_nat (Suc mu - L) \<and>
     gf (elp_d s) = conv (co (sigma s)) (synd_seq sy) (Suc mu) \<and>
     berlekamp_inv (synd_seq sy) mu (co (sigma s)) L B (gf (d_p s))"

text \<open>The part before the \<open>break\<close>: the new polynomial and its length.\<close>

definition elp_mid :: "u16 list \<Rightarrow> nat \<Rightarrow> nat \<Rightarrow> elp_state \<Rightarrow> elp_state \<Rightarrow> nat \<Rightarrow> (nat \<Rightarrow> gf256) \<Rightarrow> bool" where
  "elp_mid sy nu mu s s' L B \<longleftrightarrow>
     (let c = (elp_d s \<noteq> 0 \<and> L < Suc mu - L); L' = (if c then Suc mu - L else L)
      in elp_shape s' \<and> L' \<le> nu \<and> mask12 s' = (if c then - 1 else 0) \<and> deg_sigma s' = of_nat L' \<and>
         berlekamp_inv (synd_seq sy) (Suc mu) (co (sigma s')) L'
           (if c then shift (co (sigma s)) else shift B) (if c then gf (elp_d s) else gf (d_p s)) \<and>
         sigma_copy s' = take 15 (sigma s) @ drop 15 (sigma_copy s) \<and> deg_sigma_copy s' = deg_sigma s \<and>
         X_sigma_p s' = X_sigma_p s \<and> elp_pp s' = elp_pp s \<and> d_p s' = d_p s \<and> elp_d s' = elp_d s \<and> deg_sigma_p s' = deg_sigma_p s)"

lemma elp_update_sigma:
  assumes inv: "elp_inv sy nu mu s L B" and N: "recurrence (synd_seq sy) 30 nu c" "nu \<le> 15" "mu < 30"
  shows "co (sigma (elp_update mu s)) = (\<lambda>k. co (sigma s) k - gf (elp_d s) / gf (d_p s) * B k)"
    and "length (sigma (elp_update mu s)) = 16" "small (sigma (elp_update mu s))"
proof -
  have sh: "elp_shape s" and Bk: "\<And>k. k < 16 \<Longrightarrow> B k = gf (X_sigma_p s ! k)" and d: "gf (elp_d s) = conv (co (sigma s)) (synd_seq sy) (Suc mu)"
    and b: "berlekamp_inv (synd_seq sy) mu (co (sigma s)) L B (gf (d_p s))" using inv by (simp_all add: elp_inv_def)
  have l: "length (sigma s) = 16" "small (sigma s)" using sh by (simp_all add: elp_shape_def)
  have Bz: "B k = 0" if "Suc mu - L < k \<or> k = 0" for k using b that by (auto simp: berlekamp_inv_def)
  have long: "Suc mu - L \<le> 15" if "gf (elp_d s) \<noteq> 0" using berlekamp_length [OF N(1) b] N(2,3) that d by simp
  let ?g = "\<lambda>i. gf_mul (gf_mul (elp_d s) (gf_inverse (d_p s))) (X_sigma_p s ! i)"
  let ?n = "Suc (min (mu + 1) 15)"
  have e: "sigma (elp_update mu s) = fold (\<lambda>i a. a[i := a ! i XOR ?g i]) [1..<?n] (sigma s)"
    by (simp add: elp_update_def Let_def del: upt_Suc)
  show len: "length (sigma (elp_update mu s)) = 16" unfolding e using l by simp
  show "small (sigma (elp_update mu s))" unfolding e using l
    by (intro small_fold_update [where n = 16]) (auto intro!: unat_xor_small small_nth)
  have g: "gf (?g k) = gf (elp_d s) / gf (d_p s) * B k" if "k < 16" for k by (simp add: gf_mul gf_inverse Bk that divide_inverse)
  have "co (sigma (elp_update mu s)) k = co (sigma s) k - gf (elp_d s) / gf (d_p s) * B k" for k
  proof (cases "k < 16")
    case True
    have "gf (sigma (elp_update mu s) ! k) = (if 1 \<le> k \<and> k < ?n then gf (sigma s ! k) + gf (?g k) else gf (sigma s ! k))"
      unfolding e using True l by (subst xor_loop) (simp_all add: gf_xor)
    moreover have "B k = 0" if "\<not> (1 \<le> k \<and> k < ?n)" using that True Bz [of k] by auto
    ultimately show ?thesis using True l len g by (auto simp: co_def gf256_minus)
  next
    case False
    then have "gf (elp_d s) = 0 \<or> B k = 0" using long Bz [of k] by fastforce
    then show ?thesis using False l len by (auto simp: co_def)
  qed
  then show "co (sigma (elp_update mu s)) = (\<lambda>k. co (sigma s) k - gf (elp_d s) / gf (d_p s) * B k)" by blast
qed

lemma elp_update_mid:
  assumes inv: "elp_inv sy nu mu s L B" and N: "recurrence (synd_seq sy) 30 nu c" "nu \<le> 15" "mu < 30"
  shows "elp_mid sy nu mu s (elp_update mu s) L B"
proof -
  have sh: "elp_shape s" and L: "L \<le> nu" "deg_sigma s = of_nat L" and pp: "of_nat mu - elp_pp s + deg_sigma_p s = of_nat (Suc mu - L)"
    and d: "gf (elp_d s) = conv (co (sigma s)) (synd_seq sy) (Suc mu)"
    and b: "berlekamp_inv (synd_seq sy) mu (co (sigma s)) L B (gf (d_p s))" using inv by (simp_all add: elp_inv_def)
  define cc where "cc \<longleftrightarrow> elp_d s \<noteq> 0 \<and> L < Suc mu - L"
  have d0: "gf (elp_d s) = 0 \<longleftrightarrow> elp_d s = 0" using sh by (simp add: elp_shape_def gf_eq_0)
  have Lm: "L \<le> mu" using b by (simp add: berlekamp_inv_def)
  have m: "- drop_bit 15 (- elp_d s) AND - drop_bit 15 (deg_sigma s - (of_nat mu - elp_pp s + deg_sigma_p s)) = (if cc then - 1 else 0)"
    unfolding pp L(2) using sh L N(2,3) by (subst sign_mask_nonzero, simp add: elp_shape_def, subst sign_bit_diff) (auto simp: cc_def)
  have "mask12 (elp_update mu s) = (if cc then - 1 else 0)" by (simp add: elp_update_def Let_def m)
  moreover have "deg_sigma (elp_update mu s) = of_nat (if cc then Suc mu - L else L)"
  proof -
    have "deg_sigma (elp_update mu s) = deg_sigma s XOR ((if cc then - 1 else 0) AND ((of_nat mu - elp_pp s + deg_sigma_p s) XOR deg_sigma s))"
      by (simp add: elp_update_def Let_def m)
    then show ?thesis unfolding masked_choice pp L(2) by (simp only: if_distrib)
  qed
  moreover have "(if cc then Suc mu - L else L) \<le> nu" using berlekamp_length [OF N(1) b] N(3) L(1) d d0 by (simp add: cc_def)
  moreover have "berlekamp_inv (synd_seq sy) (Suc mu) (co (sigma (elp_update mu s))) (if cc then Suc mu - L else L)
      (if cc then shift (co (sigma s)) else shift B) (if cc then gf (elp_d s) else gf (d_p s))"
    using berlekamp_step [OF b, folded d] d0 unfolding elp_update_sigma(1) [OF assms] cc_def by auto
  moreover have "elp_shape (elp_update mu s)"
    using elp_update_sigma(2,3) [OF assms] sh unfolding elp_shape_def
    by (simp add: elp_update_def Let_def memcpy_at_def) (auto simp: small_def dest: in_set_takeD in_set_dropD)
  moreover have "sigma_copy (elp_update mu s) = take 15 (sigma s) @ drop 15 (sigma_copy s)" "deg_sigma_copy (elp_update mu s) = deg_sigma s"
      "X_sigma_p (elp_update mu s) = X_sigma_p s" "elp_pp (elp_update mu s) = elp_pp s" "d_p (elp_update mu s) = d_p s"
      "elp_d (elp_update mu s) = elp_d s" "deg_sigma_p (elp_update mu s) = deg_sigma_p s"
    using sh by (simp_all add: elp_update_def Let_def memcpy_at_def elp_shape_def)
  ultimately show ?thesis unfolding elp_mid_def Let_def cc_def [symmetric] by simp
qed

text \<open>The part after it: the earlier polynomial is kept or replaced, and the next discrepancy.\<close>

lemma next_discrepancy:
  assumes p: "\<And>k. L < k \<Longrightarrow> co sig k = 0" "co sig 0 = 1" "L \<le> Suc mu" "length sig = 16"
  shows "gf (fold (\<lambda>i d. d XOR gf_mul (sig ! i) (sy ! (mu + 1 - i))) [1..<Suc (min (mu + 1) 15)] (sy ! (mu + 1))) =
    conv (co sig) (synd_seq sy) (Suc (Suc mu))"
proof -
  let ?n = "Suc (min (mu + 1) 15)"
  have "conv (co sig) (synd_seq sy) (Suc (Suc mu)) = (\<Sum>k\<in>{0..<?n}. co sig k * synd_seq sy (Suc (Suc mu) - k))"
    unfolding conv_def
  proof (rule sum.mono_neutral_right)
    have "co sig k = 0" if "?n \<le> k" for k using that p(1) [of k] p(3,4) by (cases "k < 16") (auto simp: co_def)
    then show "\<forall>k\<in>{..Suc (Suc mu)} - {0..<?n}. co sig k * synd_seq sy (Suc (Suc mu) - k) = 0" by auto
  qed auto
  also have "\<dots> = gf (sy ! (mu + 1)) + (\<Sum>k=1..<?n. co sig k * synd_seq sy (Suc (Suc mu) - k))"
    using p(2) by (subst sum.atLeast_Suc_lessThan) (simp_all add: synd_seq_def)
  also have "(\<Sum>k=1..<?n. co sig k * synd_seq sy (Suc (Suc mu) - k)) = (\<Sum>k=1..<?n. gf (gf_mul (sig ! k) (sy ! (mu + 1 - k))))"
    using p(4) by (intro sum.cong) (auto simp: synd_seq_def co_def gf_mul Suc_diff_le)
  finally show ?thesis unfolding xor_fold sum_upt by simp
qed

lemma elp_next_inv:
  assumes inv: "elp_inv sy nu mu s L B" and mid: "elp_mid sy nu mu s s' L B" and sy: "length sy = 30" "small sy" "mu < 29"
  shows "\<exists>L' B'. elp_inv sy nu (Suc mu) (elp_next sy mu s') L' B'"
proof -
  define c where "c \<longleftrightarrow> elp_d s \<noteq> 0 \<and> L < Suc mu - L"
  define L' where "L' = (if c then Suc mu - L else L)"
  define B' where "B' = (if c then shift (co (sigma s)) else shift B)"
  note [simp] = masked_choice
  have sh: "elp_shape s" and Bk: "\<And>k. k < 16 \<Longrightarrow> B k = gf (X_sigma_p s ! k)" and ds: "deg_sigma s = of_nat L"
    and pp: "of_nat mu - elp_pp s + deg_sigma_p s = of_nat (Suc mu - L)" and Lm: "L \<le> mu"
    using inv by (simp_all add: elp_inv_def berlekamp_inv_def)
  have m: "elp_shape s'" "L' \<le> nu" "mask12 s' = (if c then - 1 else 0)" "deg_sigma s' = of_nat L'"
      "sigma_copy s' = take 15 (sigma s) @ drop 15 (sigma_copy s)" "deg_sigma_copy s' = deg_sigma s"
      "X_sigma_p s' = X_sigma_p s" "elp_pp s' = elp_pp s" "d_p s' = d_p s" "elp_d s' = elp_d s" "deg_sigma_p s' = deg_sigma_p s"
    and b: "berlekamp_inv (synd_seq sy) (Suc mu) (co (sigma s')) L' B' (if c then gf (elp_d s) else gf (d_p s))"
    using mid unfolding elp_mid_def Let_def c_def [symmetric] L'_def B'_def by simp_all
  let ?X = "fold (\<lambda>i X. X[i := (mask12 s' AND sigma_copy s' ! (i - 1)) XOR (NOT (mask12 s') AND X ! (i - 1))]) (rev [1..<16]) (X_sigma_p s)"
  let ?t = "elp_next sy mu s'"
  have f: "X_sigma_p ?t = ?X" "sigma ?t = sigma s'" "sigma_copy ?t = sigma_copy s'" "deg_sigma ?t = deg_sigma s'"
      "elp_pp ?t = (if c then of_nat mu else elp_pp s)" "d_p ?t = (if c then elp_d s else d_p s)"
      "deg_sigma_p ?t = (if c then of_nat L else deg_sigma_p s)"
      "elp_d ?t = fold (\<lambda>i d. d XOR gf_mul (sigma s' ! i) (sy ! (mu + 1 - i))) [1..<Suc (min (mu + 1) 15)] (sy ! (mu + 1))"
    using m ds by (simp_all add: elp_next_def Let_def del: upt_Suc)
  have X: "?X ! k = (if k = 0 then X_sigma_p s ! 0 else if c then sigma s ! (k - 1) else X_sigma_p s ! (k - 1))" if "k < 16" for k
    using that sh m(3,5) by (subst shift_loop) (auto simp: elp_shape_def nth_append)
  have "\<forall>x\<in>set ?X. unat x < 256"
    using sh X unfolding all_set_conv_all_nth by (auto simp: elp_shape_def small_nth)
  then have shape: "elp_shape ?t"
    using m(1) sh sy unfolding elp_shape_def f small_def [of ?X] by (auto intro!: xor_fold_small small_nth simp del: upt_Suc)
  have d: "gf (elp_d ?t) = conv (co (sigma ?t)) (synd_seq sy) (Suc (Suc mu))"
    unfolding f using b m(1) by (intro next_discrepancy [of L']) (auto simp: berlekamp_inv_def recurrence_def elp_shape_def)
  have Bk': "B' k = gf (X_sigma_p ?t ! k)" if "k < 16" for k
  proof (cases k)
    case 0
    then have "B' k = 0" "B 0 = 0" using inv b by (auto simp: elp_inv_def berlekamp_inv_def)
    then show ?thesis unfolding f X [OF that] using 0 Bk [of 0] by simp
  next
    case (Suc j)
    then show ?thesis unfolding f X [OF that] using that Bk [of j] sh by (simp add: B'_def co_def elp_shape_def)
  qed
  have "of_nat (Suc mu) - elp_pp ?t + deg_sigma_p ?t = of_nat (Suc (Suc mu) - L')"
  proof (cases c)
    case True
    then show ?thesis unfolding f L'_def using Lm by (simp add: Suc_diff_le)
  next
    case False
    have "of_nat (Suc mu) - elp_pp s + deg_sigma_p s = 1 + (of_nat mu - elp_pp s + deg_sigma_p s)" by (simp add: algebra_simps)
    also have "\<dots> = of_nat (Suc (Suc mu - L))" unfolding pp by simp
    finally show ?thesis unfolding f L'_def using False Lm by (simp add: Suc_diff_le del: of_nat_Suc)
  qed
  then have "elp_inv sy nu (Suc mu) ?t L' B'"
    unfolding elp_inv_def using shape m(2,4) d Bk' b by (auto simp: f(2,4,6) if_distrib [of gf] cong: if_cong)
  then show ?thesis by blast
qed

section \<open>The loop\<close>

lemma elp_init_inv:
  assumes "length sy = 30" "small sy"
  shows "elp_inv sy nu 0 (elp_init (replicate 16 0) sy) 0 (\<lambda>k. of_bool (k = 1))"
proof -
  have co: "co (sigma (elp_init (replicate 16 0) sy)) = (\<lambda>k. of_bool (k = 0))"
    by (rule ext) (simp add: elp_init_def co_def nth_list_update)
  have "conv (\<lambda>k. of_bool (k = 0)) (synd_seq sy) (Suc 0) = gf (sy ! 0)" by (simp add: conv_def synd_seq_def)
  then show ?thesis using assms berlekamp_init [of "synd_seq sy"] small_nth [of sy 0]
    unfolding elp_inv_def co elp_shape_def by (auto simp: elp_init_def synd_seq_def nth_list_update)
qed

lemma elp_loop:
  assumes sy: "length sy = 30" "small sy" and N: "recurrence (synd_seq sy) 30 nu c" "nu \<le> 15" and "mu \<le> 29"
  shows "\<exists>L B. elp_inv sy nu mu (fold (elp_step sy) [0..<mu] (elp_init (replicate 16 0) sy)) L B"
  using assms(5)
proof (induction mu)
  case 0
  then show ?case using elp_init_inv [OF sy] by auto
next
  case (Suc mu)
  then obtain L B where inv: "elp_inv sy nu mu (fold (elp_step sy) [0..<mu] (elp_init (replicate 16 0) sy)) L B" by auto
  have "elp_step sy mu s = elp_next sy mu (elp_update mu s)" for s using Suc.prems by (simp add: elp_step_def Let_def)
  then show ?case using elp_next_inv [OF inv elp_update_mid [OF inv N] sy] Suc.prems by simp
qed

text \<open>The polynomial found has exactly the inverse locators as its roots, and its length is the number of errors.\<close>

lemma compute_elp_correct:
  assumes sy: "length sy = 30" "small sy" and S: "syndromes_of (synd_seq sy) 30 P X e" and P: "card P \<le> 15"
    and elp: "compute_elp (replicate 16 0) sy = (sig, deg)"
  shows "length sig = 16" "small sig" "deg = of_nat (card P)" "co sig 0 = 1" "\<And>k. card P < k \<Longrightarrow> co sig k = 0"
    "\<And>x. pval (co sig) (card P) x = (\<Prod>j\<in>P. 1 - X j * x)"
proof -
  obtain c where N: "recurrence (synd_seq sy) 30 (card P) c" using locator_recurrence [OF S] by blast
  define s where "s = fold (elp_step sy) [0..<29] (elp_init (replicate 16 0) sy)"
  obtain L B where inv: "elp_inv sy (card P) 29 s L B" using elp_loop [OF sy N P, of 29] by (auto simp: s_def)
  have mid: "elp_mid sy (card P) 29 s (elp_update 29 s) L B" by (rule elp_update_mid [OF inv N P]) simp
  have "[0..<30] = [0..<29] @ [29 :: nat]" using upt_Suc_append [of 0 29] by simp
  then have "fold (elp_step sy) [0..<30] (elp_init (replicate 16 0) sy) = elp_update 29 s" by (simp add: s_def elp_step_def)
  then have e: "sig = sigma (elp_update 29 s)" "deg = deg_sigma (elp_update 29 s)" using elp by (simp_all add: compute_elp_def Let_def)
  obtain L' B' b where L': "L' \<le> card P" "deg = of_nat L'" "elp_shape (elp_update 29 s)" and b: "berlekamp_inv (synd_seq sy) 30 (co sig) L' B' b"
    using mid unfolding elp_mid_def Let_def e by fastforce
  then show "length sig = 16" "small sig" by (simp_all add: elp_shape_def e)
  have r: "recurrence (synd_seq sy) 30 L' (co sig)" using b by (simp add: berlekamp_inv_def)
  have eq: "L' = card P" using recurrence_unique(1) [OF S r L'(1)] P by simp
  then show "deg = of_nat (card P)" using L'(2) by simp
  show "co sig 0 = 1" using recurrenceD(1) [OF r] .
  show "co sig k = 0" if "card P < k" for k using recurrenceD(2) [OF r] that eq by simp
  show "pval (co sig) (card P) x = (\<Prod>j\<in>P. 1 - X j * x)" for x using recurrence_unique(2) [OF S r L'(1), of x] P eq by simp
qed

end
