(* ===== verification/Reed_Solomon_Decode.thy ===== *)
theory Reed_Solomon_Decode
  imports Reed_Solomon_Locator
begin

text \<open>
  The rest of the decoder: the positions of the errors are the roots of the locator polynomial, their values are those
  of Forney's formula, and the corrected word is the code word.
\<close>

section \<open>Positions\<close>

lemma ev_pval: "length f = 16 \<Longrightarrow> (\<And>k. n < k \<Longrightarrow> co f k = 0) \<Longrightarrow> n \<le> 15 \<Longrightarrow> ev f 16 x = pval (co f) n x"
proof -
  assume f: "length f = 16" "\<And>k. n < k \<Longrightarrow> co f k = 0" "n \<le> 15"
  have "ev f 16 x = pval (co f) 15 x"
    unfolding ev_def pval_def lessThan_Suc_atMost [symmetric] using f(1) by (intro sum.cong) (auto simp: co_def)
  then show ?thesis using pval_extend [of n "co f" 15 x] f by simp
qed

lemma compute_roots_nth:
  assumes sig: "length sig = 16" "small sig" "co sig 0 = 1" "\<And>k. card P < k \<Longrightarrow> co sig k = 0"
      "\<And>x. pval (co sig) (card P) x = (\<Prod>j\<in>P. 1 - alpha ^ j * x)"
    and P: "P \<subseteq> {..<46}" "card P \<le> 15" and k: "k < 46"
  shows "compute_roots (replicate 256 0) sig ! k = of_bool (k \<in> P)"
proof -
  have fin: "finite P" using P(1) by (rule finite_subset) simp
  have "ev sig 16 (inverse (alpha ^ k)) = 0 \<longleftrightarrow> (\<exists>j\<in>P. 1 - alpha ^ j * inverse (alpha ^ k) = 0)"
    using ev_pval [OF sig(1,4) P(2)] fin by (simp add: sig(5))
  also have "\<dots> \<longleftrightarrow> (\<exists>j\<in>P. alpha ^ k = alpha ^ j)" by (simp add: field_simps)
  also have "\<dots> \<longleftrightarrow> k \<in> P" using inj_onD [OF alpha_inj, of k] P(1) k by fastforce
  finally show ?thesis using roots_marked [OF sig(2,1), of k] sig(1,3) k by (simp add: compute_roots_def Let_def co_def)
qed

section \<open>The polynomial z\<close>

lemma z_mask_eq: "i \<le> 15 \<Longrightarrow> n \<le> 15 \<Longrightarrow> z_mask i (of_nat n) = (if i \<le> n then - 1 else 0)"
  using sign_bit_diff [of i "Suc n"] by (simp add: z_mask_def algebra_simps)

definition z_step :: "u16 list \<Rightarrow> nat \<Rightarrow> u16 list \<Rightarrow> nat \<Rightarrow> u16 list \<Rightarrow> u16 list" where
  "z_step sig n sy i z = fold (\<lambda>j z. z[i := z ! i XOR (z_mask i (of_nat n) AND gf_mul (sig ! j) (sy ! (i - j - 1)))]) [1..<i]
     (z[i := z ! i XOR (z_mask i (of_nat n) AND sy ! (i - 1))])"

lemma z_step:
  assumes "2 \<le> i" "i \<le> 15" "n \<le> 15" "length z = 46" "length sig = 16" "co sig 0 = 1"
  shows "gf (z_step sig n sy i z ! i) = gf (z ! i) + (if i \<le> n then (\<Sum>k<i. co sig k * synd_seq sy (i - k)) else 0)"
    and "k \<noteq> i \<Longrightarrow> z_step sig n sy i z ! k = z ! k" and "length (z_step sig n sy i z) = 46"
proof -
  show "length (z_step sig n sy i z) = 46" using assms(4) by (simp add: z_step_def)
  let ?z = "z[i := z ! i XOR (z_mask i (of_nat n) AND sy ! (i - 1))]"
  let ?g = "\<lambda>j. z_mask i (of_nat n) AND gf_mul (sig ! j) (sy ! (i - j - 1))"
  have i: "i < length ?z" using assms(2,4) by simp
  show "z_step sig n sy i z ! k = z ! k" if "k \<noteq> i" using sum_loop(2) [OF i that, of ?g] that by (simp add: z_step_def)
  note m = z_mask_eq [OF assms(2,3)]
  have v: "gf (z_step sig n sy i z ! i) = gf (?z ! i) + (\<Sum>k=1..<i. gf (?g k))"
    unfolding z_step_def using sum_loop(1) [OF i, of ?g "[1..<i]"] by (simp only: sum_upt)
  have "(\<Sum>k=1..<i. gf (gf_mul (sig ! k) (sy ! (i - k - 1)))) = (\<Sum>k=1..<i. co sig k * synd_seq sy (i - k))"
    using assms(2,5) by (intro sum.cong) (auto simp: gf_mul co_def synd_seq_def)
  moreover have "(\<Sum>k<i. co sig k * synd_seq sy (i - k)) = synd_seq sy i + (\<Sum>k=1..<i. co sig k * synd_seq sy (i - k))"
    using assms(1,6) by (simp add: lessThan_atLeast0 sum.atLeast_Suc_lessThan [of 0])
  ultimately show "gf (z_step sig n sy i z ! i) = gf (z ! i) + (if i \<le> n then (\<Sum>k<i. co sig k * synd_seq sy (i - k)) else 0)"
    using v assms(1,2,4) by (cases "i \<le> n") (simp_all add: m gf_xor synd_seq_def add_ac)
qed

lemma compute_z_poly_nth:
  assumes sig: "length sig = 16" "co sig 0 = 1" and n: "1 \<le> n" "n \<le> 15" and i: "i \<le> 15"
  shows "gf (compute_z_poly (replicate 46 0) sig (of_nat n) sy ! i) = (if i \<le> n then zpoly (co sig) (synd_seq sy) i else 0)"
proof -
  define z0 where "z0 = fold (\<lambda>i z. z[i := z_mask i (of_nat n) AND sig ! i]) [1..<15 + 1] ((replicate 46 0)[0 := 1])"
  define z1 where "z1 = z0[1 := z0 ! 1 XOR sy ! 0]"
  have e: "compute_z_poly (replicate 46 0) sig (of_nat n) sy = fold (z_step sig n sy) [2..<16] z1"
  proof -
    have "compute_z_poly (replicate 46 0) sig (of_nat n) sy = fold (z_step sig n sy) [2..<Suc 15] z1"
      unfolding compute_z_poly_def Let_def z1_def [symmetric] z0_def [symmetric] by (rule fold_cong) (simp_all add: z_step_def fun_eq_iff)
    moreover have "Suc 15 = 16" by simp
    ultimately show ?thesis by (simp only:)
  qed
  have z0: "z0 ! k = (if k = 0 then 1 else z_mask k (of_nat n) AND sig ! k)" "length z0 = 46" if "k \<le> 15" for k
  proof -
    have "fold (\<lambda>i z. z[i := g i]) [1..<m] z ! k = (if 1 \<le> k \<and> k < m then g k else z ! k :: u16)" if "m \<le> 46" "k < 46" "length z = 46" for m g k z
      using that by (induction m) (auto simp: nth_list_update less_Suc_eq le_Suc_eq)
    then show "z0 ! k = (if k = 0 then 1 else z_mask k (of_nat n) AND sig ! k)" using that unfolding z0_def by simp
    show "length z0 = 46" by (simp add: z0_def)
  qed
  have z1: "gf (z1 ! k) = (if k = 0 then 1 else if k = 1 then zpoly (co sig) (synd_seq sy) 1 else if k \<le> n then co sig k else 0)" "length z1 = 46"
    if "k \<le> 15" for k
    using z0 [OF that] z0 [of 1] that n sig
    by (auto simp: z1_def nth_list_update z_mask_eq gf_xor zpoly_def co_def synd_seq_def)
  have loop: "length (fold (z_step sig n sy) [2..<m] z1) = 46 \<and> (\<forall>k\<le>15. gf (fold (z_step sig n sy) [2..<m] z1 ! k) =
      gf (z1 ! k) + (if 2 \<le> k \<and> k < m \<and> k \<le> n then (\<Sum>j<k. co sig j * synd_seq sy (k - j)) else 0))" if "m \<le> 16" for m
    using that
  proof (induction m)
    case (Suc m)
    show ?case
    proof (cases "2 \<le> m")
      case True
      let ?z = "fold (z_step sig n sy) [2..<m] z1"
      have z: "length ?z = 46" "\<And>k. k \<le> 15 \<Longrightarrow> gf (?z ! k) = gf (z1 ! k) + (if 2 \<le> k \<and> k < m \<and> k \<le> n then (\<Sum>j<k. co sig j * synd_seq sy (k - j)) else 0)"
        using Suc by auto
      have "m \<le> 15" using Suc.prems by simp
      note s = z_step [OF True this n(2) z(1) sig, where sy = sy]
      have "gf (z_step sig n sy m ?z ! k) = gf (z1 ! k) + (if 2 \<le> k \<and> k < Suc m \<and> k \<le> n then (\<Sum>j<k. co sig j * synd_seq sy (k - j)) else 0)"
        if "k \<le> 15" for k using True s z(2) [OF that] by (cases "k = m") (auto simp: less_Suc_eq)
      then show ?thesis using True s(3) by simp
    qed (use z1(2) [of 0] in auto)
  qed (use z1(2) [of 0] in simp)
  have z2: "gf (fold (z_step sig n sy) [2..<16] z1 ! i) = gf (z1 ! i) + (if 2 \<le> i \<and> i < 16 \<and> i \<le> n then (\<Sum>j<i. co sig j * synd_seq sy (i - j)) else 0)"
    by (rule loop [OF order_refl, THEN conjunct2, rule_format, OF i])
  consider "i = 0" | "i = 1" | "2 \<le> i" by linarith
  then show ?thesis unfolding e z2 z1(1) [OF i] using i n sig(2) by cases (simp_all add: zpoly_def)
qed

section \<open>Placing values\<close>

lemma error_mask_eq: "error_mask e = (if e = 0 then 0 else - 1)"
proof -
  have "drop_bit 31 (- uint e) = - 1" if "e \<noteq> 0"
  proof -
    have "0 < uint e" "uint e < 256" using that uint_lt2p [of e] uint_0_iff [of e] uint_ge_0 [of e] by (simp_all add: less_le)
    then show ?thesis by (simp add: drop_bit_eq_div)
  qed
  then show ?thesis by (simp add: error_mask_def)
qed

lemma place_mask_eq: "j < 2 ^ 15 \<Longrightarrow> t < 2 ^ 15 \<Longrightarrow> place_mask j (of_nat t) = (if j = t then - 1 else 0)"
proof -
  assume jt: "j < 2 ^ 15" "t < 2 ^ 15"
  have u: "uint (of_nat t :: u16) = int t" using jt(2) by (simp add: uint_nat unat_of_nat_u16)
  have "drop_bit 31 (- (int j XOR int t)) = - 1" if "j \<noteq> t"
  proof -
    have x: "int j XOR int t = int (j XOR t)" by (simp add: of_nat_xor_eq)
    have "j XOR t \<noteq> 0" using that by (metis xor.assoc xor.left_neutral xor.right_neutral xor_self_eq)
    moreover have "j XOR t < 2 ^ 15" using jt by (rule xor_less)
    ultimately show ?thesis unfolding x by (simp add: drop_bit_eq_div)
  qed
  then show ?thesis by (simp add: place_mask_def u)
qed

lemma place_inner:
  "fold (\<lambda>j (b, f). (b[ix j := b ! ix j + (if c \<and> j = t then v j else 0)], f + (if c \<and> j = t then 1 else 0))) [0..<n] (b, f) =
   (if c \<and> t < n then b[ix t := b ! ix t + v t] else b, f + (if c \<and> t < n then 1 else 0 :: u16))"
  for b :: "u16 list"
  by (induction n) (auto simp: less_Suc_eq)

text \<open>The positions of the errors in order, and the loop that visits them.\<close>

definition errs :: "u8 list \<Rightarrow> nat \<Rightarrow> nat list" where
  "errs error n = filter (\<lambda>i. error ! i \<noteq> 0) [0..<n]"

lemma errs_Suc: "errs error (Suc n) = (if error ! n = 0 then errs error n else errs error n @ [n])"
  by (simp add: errs_def)

lemma errs_mono: "m \<le> n \<Longrightarrow> length (errs error m) \<le> length (errs error n)"
  by (induction n) (auto simp: le_Suc_eq errs_Suc)

lemma place_outer:
  assumes "length (errs error n) \<le> 15"
  shows "fold (\<lambda>i (b, dc).
         let mask1 = error_mask (error ! i);
             (b, found) = fold (\<lambda>j (b, found). let mask2 = place_mask j dc
                  in (b[ix i j := b ! ix i j + (mask1 AND mask2 AND v i j)], found + (mask1 AND mask2 AND 1))) [0..<15] (b, 0)
         in (b, dc + found)) [0..<n] (b :: u16 list, 0) =
     (fold (\<lambda>i b. if error ! i = 0 then b
        else b[ix i (length (errs error i)) := b ! ix i (length (errs error i)) + v i (length (errs error i))]) [0..<n] b,
      of_nat (length (errs error n)))"
  using assms
proof (induction n)
  case (Suc n)
  define t where "t = length (errs error n)"
  have t: "t \<le> 15" "error ! n \<noteq> 0 \<Longrightarrow> t < 15" using Suc.prems by (auto simp: t_def errs_Suc split: if_splits)
  have "fold (\<lambda>j (b, found). let mask2 = place_mask j (of_nat t)
          in (b[ix n j := b ! ix n j + (error_mask (error ! n) AND mask2 AND v n j)], found + (error_mask (error ! n) AND mask2 AND 1))) [0..<15] (b, 0) =
      fold (\<lambda>j (b, f). (b[ix n j := b ! ix n j + (if error ! n \<noteq> 0 \<and> j = t then v n j else 0)], f + (if error ! n \<noteq> 0 \<and> j = t then 1 else 0))) [0..<15] (b, 0)"
    for b :: "u16 list"
    using t(1) by (intro fold_cong) (auto simp: error_mask_eq place_mask_eq fun_eq_iff Let_def)
  note inner = this [unfolded place_inner]
  show ?case using Suc.IH Suc.prems t inner unfolding t_def [symmetric]
    by (cases "error ! n = 0") (simp_all add: errs_Suc t_def [symmetric] Let_def split: prod.splits)
qed (simp add: errs_def)

lemma errs_nth: "k < n \<Longrightarrow> error ! k \<noteq> 0 \<Longrightarrow> length (errs error k) < length (errs error n) \<and> errs error n ! length (errs error k) = k"
  by (induction n) (auto simp: errs_Suc nth_append less_Suc_eq)

lemma errs_set [simp]: "set (errs error n) = {i. i < n \<and> error ! i \<noteq> 0}" "distinct (errs error n)"
  by (auto simp: errs_def)

lemma find_betas_eq:
  assumes "length (errs error 46) \<le> 15"
  shows "find_betas error (replicate 15 0) =
    (map (\<lambda>i. gf_exp ! i) (errs error 46) @ replicate (15 - length (errs error 46)) 0, of_nat (length (errs error 46)))"
proof -
  have "fold (\<lambda>i b. if error ! i = 0 then b else b[length (errs error i) := b ! length (errs error i) + gf_exp ! i]) [0..<n] (replicate 15 0) =
      map (\<lambda>i. gf_exp ! i) (errs error n) @ replicate (15 - length (errs error n)) 0" if "length (errs error n) \<le> 15" for n
    using that
  proof (induction n)
    case (Suc n)
    have "replicate (15 - length (errs error n)) 0 = (0 :: u16) # replicate (14 - length (errs error n)) 0" if "error ! n \<noteq> 0"
      using Suc.prems that by (simp add: errs_Suc Suc_diff_le flip: replicate_Suc)
    then show ?case using Suc by (auto simp: errs_Suc list_update_append nth_append)
  qed (simp add: errs_def)
  then show ?thesis
    using assms place_outer [OF assms, of "\<lambda>i j. j" "\<lambda>i j. gf_exp ! i" "replicate 15 0"] unfolding find_betas_def by simp
qed

lemma place_values_nth:
  assumes "length (errs error 46) \<le> 15" "k < 46"
  shows "place_values (replicate 46 0) error e_j ! k = (if error ! k = 0 then 0 else e_j ! length (errs error k))"
proof -
  have "fold (\<lambda>i b. if error ! i = 0 then b else b[i := b ! i + w i]) [0..<n] b ! k =
      (if k < n \<and> error ! k \<noteq> 0 then b ! k + w k else b ! k) \<and>
      length (fold (\<lambda>i b. if error ! i = 0 then b else b[i := b ! i + w i]) [0..<n] b) = length b"
    if "k < length b" for n w and b :: "u16 list"
    using that by (induction n) (auto simp: less_Suc_eq nth_list_update)
  then show ?thesis using assms(2) place_outer [OF assms(1), of "\<lambda>i j. i" "\<lambda>i j. e_j ! j" "replicate 46 0"]
    unfolding place_values_def by simp
qed

section \<open>Error values\<close>

lemma power_loop:
  "\<exists>a s. fold (\<lambda>j (a, s). let a = gf_mul a iv in (a, s XOR gf_mul a (z ! j))) [1..<Suc m] (1, 1) = (a, s) \<and>
     gf a = gf iv ^ m \<and> gf s = 1 + (\<Sum>j=1..<Suc m. gf (z ! j) * gf iv ^ j)"
proof (induction m)
  case (Suc m)
  then obtain a s where "fold (\<lambda>j (a, s). let a = gf_mul a iv in (a, s XOR gf_mul a (z ! j))) [1..<Suc m] (1, 1) = (a, s)"
    "gf a = gf iv ^ m" "gf s = 1 + (\<Sum>j=1..<Suc m. gf (z ! j) * gf iv ^ j)" by blast
  then show ?case by (simp add: gf_mul gf_xor Let_def mult_ac add.assoc)
qed simp

lemma product_loop: "gf (fold (\<lambda>k t. gf_mul t (g k)) ks t) = gf t * (\<Prod>k\<leftarrow>ks. gf (g k))"
  by (induction ks arbitrary: t) (simp_all add: gf_mul mult_ac)

lemma prod_rotate:
  assumes "i < 15"
  shows "(\<Prod>k\<leftarrow>[1..<15]. f ((i + k) mod 15)) = (\<Prod>m\<in>{..<15} - {i}. f m :: gf256)"
proof -
  have "(\<Prod>k\<leftarrow>[1..<15]. f ((i + k) mod 15)) = (\<Prod>k\<in>{1..<15}. f ((i + k) mod 15))"
    using prod.distinct_set_conv_list [OF distinct_upt, of "\<lambda>k. f ((i + k) mod 15)" 1 15] by (simp only: set_upt)
  also have "\<dots> = (\<Prod>m\<in>{..<15} - {i}. f m)"
  proof (rule prod.reindex_bij_witness [of _ "\<lambda>m. if i < m then m - i else m + 15 - i" "\<lambda>k. (i + k) mod 15"])
    fix k :: nat assume k: "k \<in> {1..<15}"
    have "(i + k) mod 15 = (if i + k < 15 then i + k else i + k - 15)" using assms k by (auto simp: le_mod_geq)
    then show "(if i < (i + k) mod 15 then (i + k) mod 15 - i else (i + k) mod 15 + 15 - i) = k" "(i + k) mod 15 \<in> {..<15} - {i}"
      using assms k by (simp_all only:) (auto split: if_splits)
  next
    fix m assume "m \<in> {..<15} - {i}"
    then show "(i + (if i < m then m - i else m + 15 - i)) mod 15 = m" "(if i < m then m - i else m + 15 - i) \<in> {1..<15}"
      using assms by auto
  qed simp
  finally show ?thesis .
qed

lemma below_mask: "i < n \<Longrightarrow> n \<le> 15 \<Longrightarrow> word_of_int (drop_bit 15 (int i - uint (of_nat n :: u16))) = (- 1 :: u16)"
proof -
  assume n: "i < n" "n \<le> 15"
  have "uint (of_nat n :: u16) = int n" using n by (simp add: uint_nat unat_of_nat_u16)
  moreover have "drop_bit 15 (int i - int n) = - 1" using n by (simp add: drop_bit_eq_div)
  ultimately show ?thesis by simp
qed

text \<open>The value that the code computes for the error at place \<open>i\<close>, as a quotient.\<close>

lemma error_value_quotient:
  assumes qs: "distinct qs" "set qs \<subseteq> {..<46}" "length qs \<le> 15" and i: "i < length qs" and z0: "gf (z ! 0) = 1"
  defines "x \<equiv> inverse (alpha ^ (qs ! i))"
  shows "gf (error_value z (map (\<lambda>i. gf_exp ! i) qs @ replicate (15 - length qs) 0) (of_nat (length qs)) i) =
    pval (\<lambda>j. gf (z ! j)) 15 x / (\<Prod>j\<in>set qs - {qs ! i}. 1 - alpha ^ j * x)"
proof -
  let ?b = "map (\<lambda>i. gf_exp ! i) qs @ replicate (15 - length qs) 0"
  have q: "qs ! m < 258" if "m < length qs" for m using qs(2) nth_mem [OF that] by (auto dest!: subsetD)
  have b: "gf (?b ! m) = (if m < length qs then alpha ^ (qs ! m) else 0)" if "m < 15" for m
    using that q [of m] gf_exp_alpha [of "qs ! m"] by (simp add: nth_append)
  have inv: "gf (gf_inverse (?b ! i)) = x" using b [of i] i qs(3) by (simp add: gf_inverse x_def)
  obtain a s where f: "fold (\<lambda>j (a, s). let a = gf_mul a (gf_inverse (?b ! i)) in (a, s XOR gf_mul a (z ! j))) [1..<Suc 15] (1, 1) = (a, s)"
    and s: "gf s = 1 + (\<Sum>j=1..<Suc 15. gf (z ! j) * x ^ j)"
    using power_loop [of "gf_inverse (?b ! i)" z 15] unfolding inv by blast
  have s: "gf s = pval (\<lambda>j. gf (z ! j)) 15 x"
    unfolding s pval_def using z0 by (simp add: sum.atLeast_Suc_lessThan [of 0] lessThan_Suc_atMost [symmetric] lessThan_atLeast0 del: sum.op_ivl_Suc sum.lessThan_Suc)
  let ?t = "fold (\<lambda>k t. gf_mul t (1 XOR gf_mul (gf_inverse (?b ! i)) (?b ! ((i + k) mod 15)))) [1..<15] 1"
  have "gf ?t = (\<Prod>k\<leftarrow>[1..<15]. 1 + x * gf (?b ! ((i + k) mod 15)))"
    unfolding product_loop by (simp only: gf_xor gf_mul inv gf_simps mult_1_left)
  also have "\<dots> = (\<Prod>m\<in>{..<15} - {i}. 1 + x * gf (?b ! m))" using i qs(3) by (intro prod_rotate) simp
  also have "\<dots> = (\<Prod>m\<in>{..<length qs} - {i}. 1 + x * gf (?b ! m))"
    using b qs(3) by (intro prod.mono_neutral_right) auto
  also have "\<dots> = (\<Prod>j\<in>set qs - {qs ! i}. 1 - alpha ^ j * x)"
  proof (rule prod.reindex_bij_betw [of "\<lambda>m. qs ! m" "{..<length qs} - {i}" "set qs - {qs ! i}", THEN trans [rotated]])
    show "bij_betw ((!) qs) ({..<length qs} - {i}) (set qs - {qs ! i})"
      using bij_betw_nth [OF qs(1), of "{..<length qs}" "set qs"] i by (intro bij_betw_DiffI) auto
  qed (use b qs(3) in \<open>auto simp: gf256_minus mult.commute intro!: prod.cong\<close>)
  finally have t: "gf ?t = (\<Prod>j\<in>set qs - {qs ! i}. 1 - alpha ^ j * x)" .
  have "error_value z ?b (of_nat (length qs)) i = gf_mul s (gf_inverse ?t)"
    unfolding error_value_def Let_def f [unfolded Let_def] below_mask [OF i qs(3)] by simp
  then show ?thesis by (simp only: gf_mul gf_inverse s t divide_inverse)
qed

lemma error_value_correct:
  assumes qs: "distinct qs" "set qs \<subseteq> {..<46}" "length qs \<le> 15" and i: "i < length qs"
    and S: "syndromes_of (synd_seq sy) 30 (set qs) (\<lambda>j. alpha ^ j) e"
    and p: "\<And>x. pval p (length qs) x = (\<Prod>j\<in>set qs. 1 - alpha ^ j * x)" "p 0 = 1"
    and z: "\<And>j. j \<le> 15 \<Longrightarrow> gf (z ! j) = (if j \<le> length qs then zpoly p (synd_seq sy) j else 0)"
  shows "gf (error_value z (map (\<lambda>i. gf_exp ! i) qs @ replicate (15 - length qs) 0) (of_nat (length qs)) i) = e (qs ! i)"
proof -
  let ?x = "inverse (alpha ^ (qs ! i))" and ?D = "\<Prod>j\<in>set qs - {qs ! i}. 1 - alpha ^ j * inverse (alpha ^ (qs ! i))"
  have n: "length qs = card (set qs)" using qs(1) by (simp add: distinct_card)
  have m: "qs ! i \<in> set qs" using i by simp
  have "pval (\<lambda>j. gf (z ! j)) 15 ?x = pval (\<lambda>j. if j \<le> length qs then zpoly p (synd_seq sy) j else 0) 15 ?x"
    unfolding pval_def by (intro sum.cong) (simp_all add: z)
  also have "\<dots> = pval (zpoly p (synd_seq sy)) (length qs) ?x"
    using qs(3) pval_extend [of "length qs" "\<lambda>j. if j \<le> length qs then zpoly p (synd_seq sy) j else 0" 15 ?x] by (simp add: pval_def)
  also have "\<dots> = e (qs ! i) * ?D"
    using qs(3) p(1) m card_gf256 n by (intro forney [OF S, of "length qs" p "qs ! i" "UNIV - {?x}"]) auto
  finally have "pval (\<lambda>j. gf (z ! j)) 15 ?x = e (qs ! i) * ?D" .
  moreover have "1 - alpha ^ j * ?x \<noteq> 0" if "j \<in> set qs - {qs ! i}" for j
  proof -
    have "j < 255" "qs ! i < 255" using that qs(2) m by fastforce+
    then show ?thesis using that inj_onD [OF alpha_inj, of j "qs ! i"] by (auto simp: field_simps)
  qed
  then have "?D \<noteq> 0" by simp
  moreover have "gf (z ! 0) = 1" using z [of 0] p(2) by (simp add: zpoly_def)
  ultimately show ?thesis using error_value_quotient [OF qs i, of z] by simp
qed

section \<open>The decoder\<close>

text \<open>The syndromes of a word that differs from a code word at the positions \<open>P\<close>.\<close>

lemma syndromes_of_errors:
  assumes c: "\<And>i. 1 \<le> i \<Longrightarrow> i \<le> 30 \<Longrightarrow> bval c 46 (alpha ^ i) = 0"
  shows "syndromes_of (synd_seq (compute_syndromes (replicate 30 0) r)) 30 {j. j < 46 \<and> r ! j \<noteq> c ! j} (\<lambda>j. alpha ^ j) (\<lambda>j. gfb (r ! j XOR c ! j))"
proof -
  have "synd_seq (compute_syndromes (replicate 30 0) r) n = (\<Sum>j\<in>{j. j < 46 \<and> r ! j \<noteq> c ! j}. gfb (r ! j XOR c ! j) * (alpha ^ j) ^ n)"
    if n: "1 \<le> n" "n \<le> 30" for n
  proof -
    have "synd_seq (compute_syndromes (replicate 30 0) r) n = bval r 46 (alpha ^ n)"
      using compute_syndromes_correct(1) [of "n - 1" r] n by (simp add: synd_seq_def)
    also have "\<dots> = (\<Sum>j\<in>{j. j < 46 \<and> r ! j \<noteq> c ! j}. gfb (r ! j XOR c ! j) * (alpha ^ n) ^ j)" by (rule bval_errors [OF c [OF n]])
    finally show ?thesis by (simp add: power_mult [symmetric] mult.commute)
  qed
  moreover have "gfb (r ! j XOR c ! j) \<noteq> 0" if "r ! j \<noteq> c ! j" for j using that gfb_xor [of "r ! j" "c ! j"] gfb_inject [of "r ! j XOR c ! j" 0] by (simp add: word_xor_eq_0)
  moreover have "inj_on (\<lambda>j. alpha ^ j) {j. j < 46 \<and> r ! j \<noteq> c ! j}" by (rule inj_on_subset [OF alpha_inj]) auto
  ultimately show ?thesis unfolding syndromes_of_def by auto
qed

lemma correct_errors_nth:
  "length cdw = 46 \<Longrightarrow> k < 46 \<Longrightarrow> correct_errors cdw vs ! k = cdw ! k XOR ucast (vs ! k)"
  unfolding correct_errors_def by (subst xor_loop) simp_all

lemma correct_errors_length [simp]: "length (correct_errors cdw vs) = length cdw"
proof -
  have "length (fold (\<lambda>i c. c[i := c ! i XOR g i]) is c) = length c" for g "is" and c :: "u8 list" by (induction "is" arbitrary: c) simp_all
  then show ?thesis by (simp add: correct_errors_def)
qed

lemma decode_corrects:
  assumes r: "length r = 46" "length c = 46" and c: "\<And>i. 1 \<le> i \<Longrightarrow> i \<le> 30 \<Longrightarrow> bval c 46 (alpha ^ i) = 0"
    and P: "card {j. j < 46 \<and> r ! j \<noteq> c ! j} \<le> 15"
    and elp: "compute_elp (replicate 16 0) (compute_syndromes (replicate 30 0) r) = (sig, deg)"
  defines "z \<equiv> compute_z_poly (replicate 46 0) sig deg (compute_syndromes (replicate 30 0) r)"
  shows "correct_errors r (compute_error_values (replicate 46 0) z (compute_roots (replicate 256 0) sig)) = c"
proof -
  define sy where "sy = compute_syndromes (replicate 30 0) r"
  define P where "P = {j. j < 46 \<and> r ! j \<noteq> c ! j}"
  define error where "error = compute_roots (replicate 256 0) sig"
  define qs where "qs = errs error 46"
  have S: "syndromes_of (synd_seq sy) 30 P (\<lambda>j. alpha ^ j) (\<lambda>j. gfb (r ! j XOR c ! j))"
    unfolding sy_def P_def using c by (rule syndromes_of_errors)
  note P = P [folded P_def]
  have sy: "length sy = 30" "small sy" unfolding sy_def by (rule compute_syndromes_correct)+
  note e = compute_elp_correct [OF sy S P elp [folded sy_def]]
  have error: "error ! k = of_bool (k \<in> P)" if "k < 46" for k
    unfolding error_def using that P by (intro compute_roots_nth e) (auto simp: P_def)
  have qs: "distinct qs" "set qs = P" "length qs = card P" 
  proof -
    show d: "distinct qs" "set qs = P" using error by (auto simp: qs_def P_def)
    show "length qs = card P" using distinct_card [OF d(1)] d(2) by simp
  qed
  have le: "length (errs error 46) \<le> 15" using qs(3) P by (simp add: qs_def)
  let ?b = "map (\<lambda>i. gf_exp ! i) qs @ replicate (15 - length qs) 0"
  define e_j where "e_j = fold (\<lambda>i e_j. e_j[i := error_value z ?b (of_nat (length qs)) i]) [0..<15] (replicate 15 0)"
  have ev: "compute_error_values (replicate 46 0) z error = place_values (replicate 46 0) error e_j"
    unfolding compute_error_values_def find_betas_eq [OF le] e_j_def qs_def by simp
  show ?thesis unfolding error_def [symmetric] ev
  proof (rule nth_equalityI)
    fix k assume "k < length (correct_errors r (place_values (replicate 46 0) error e_j))"
    then have k: "k < 46" using r by simp
    have "gf (place_values (replicate 46 0) error e_j ! k) = gfb (r ! k XOR c ! k)"
    proof (cases "k \<in> P")
      case True
      define i where "i = length (errs error k)"
      have i: "i < length qs" "qs ! i = k" using errs_nth [OF k, of error] error [OF k] True by (auto simp: i_def qs_def)
      have "place_values (replicate 46 0) error e_j ! k = e_j ! i" using place_values_nth [OF le k] error [OF k] True by (simp add: i_def)
      also have "\<dots> = error_value z ?b (of_nat (length qs)) i" unfolding e_j_def using i(1) qs(3) P by (subst fold_update_nth) simp_all
      also have "gf \<dots> = gfb (r ! (qs ! i) XOR c ! (qs ! i))"
      proof (rule error_value_correct [where sy = sy and p = "co sig"])
        show "gf (z ! j) = (if j \<le> length qs then zpoly (co sig) (synd_seq sy) j else 0)" if "j \<le> 15" for j
          unfolding z_def sy_def [symmetric] e(3) qs(3) using i(1) qs(3) P that by (intro compute_z_poly_nth e) simp_all
      qed (use qs i P S e(4,6) in \<open>auto simp: P_def\<close>)
      finally show ?thesis using i(2) by simp
    next
      case False
      then show ?thesis using place_values_nth [OF le k, of e_j] error [OF k] k by (simp add: P_def)
    qed
    then have "ucast (place_values (replicate 46 0) error e_j ! k) = r ! k XOR c ! k" using gfb_inject gf_ucast_byte by metis
    then show "correct_errors r (place_values (replicate 46 0) error e_j) ! k = c ! k"
      using correct_errors_nth [OF r(1) k] by (simp add: xor.assoc [symmetric])
  qed (use r in simp)
qed

lemma decode_message:
  assumes "length cdw = VEC_N1_SIZE_64" "length msg = VEC_K_SIZE_64" "length msg' = VEC_K_SIZE_64" "length r = VEC_N1_SIZE_64"
    and "card {j. j < PARAM_N1 \<and> word_bytes r ! j \<noteq> word_bytes (reed_solomon_encode cdw msg) ! j} \<le> PARAM_DELTA"
  shows "reed_solomon_decode msg' r = msg"
    and "take PARAM_K (drop (PARAM_G - 1) (word_bytes (reed_solomon_encode cdw msg))) = word_bytes msg"
proof -
  let ?c = "take 46 (word_bytes (reed_solomon_encode cdw msg))" and ?r = "take 46 (word_bytes r)"
  note b = encode_bytes [OF assms(1,2)]
  have l: "length ?r = 46" "length ?c = 46" using assms(4) b(3) by simp_all
  have v: "bval ?c 46 (alpha ^ i) = 0" if "1 \<le> i" "i \<le> 30" for i
    using encode_value [OF assms(1,2) that] by (simp add: bval_def)
  have "{j. j < 46 \<and> ?r ! j \<noteq> ?c ! j} = {j. j < 46 \<and> word_bytes r ! j \<noteq> word_bytes (reed_solomon_encode cdw msg) ! j}" by auto
  then have P: "card {j. j < 46 \<and> ?r ! j \<noteq> ?c ! j} \<le> 15" using assms(5) by simp
  obtain sig deg where elp: "compute_elp (replicate 16 0) (compute_syndromes (replicate 30 0) ?r) = (sig, deg)" by fastforce
  have m: "drop 30 ?c = word_bytes msg" unfolding b(1) by simp
  have "reed_solomon_decode msg' r = memcpy_words msg' (take 16 (drop 30 ?c))"
    unfolding reed_solomon_decode_def Let_def using elp decode_corrects [OF l v P elp] by simp
  also have "\<dots> = msg" unfolding m using assms(2,3) memcpy_words_word_bytes [of msg msg'] by simp
  finally show "reed_solomon_decode msg' r = msg" .
  show "take PARAM_K (drop (PARAM_G - 1) (word_bytes (reed_solomon_encode cdw msg))) = word_bytes msg"
    unfolding m [symmetric] by (simp add: take_drop)
qed

text \<open>
  C12. The Reed-Solomon decoder corrects errors.  A code word of the encoder carries the message in its last 16 bytes;
  when at most 15 of the 46 bytes of a received word differ from the code word, decoding returns the message.
\<close>

theorem reed_solomon_corrects_errors:
  assumes "length cdw = VEC_N1_SIZE_64" "length msg = VEC_K_SIZE_64" "length msg' = VEC_K_SIZE_64" "length r = VEC_N1_SIZE_64"
    and "card {j. j < PARAM_N1 \<and> word_bytes r ! j \<noteq> word_bytes (reed_solomon_encode cdw msg) ! j} \<le> PARAM_DELTA"
  shows "reed_solomon_decode msg' r = msg \<and>
    take PARAM_K (drop (PARAM_G - 1) (word_bytes (reed_solomon_encode cdw msg))) = word_bytes msg"
  using decode_message [OF assms] by blast

theorem reed_solomon_corrects_errors_witness:
  "reed_solomon_decode [0, 0] ((reed_solomon_encode (replicate 6 0) [0x0123456789ABCDEF, 7])[1 := 0]) = [0x0123456789ABCDEF, 7]"
proof -
  let ?c = "reed_solomon_encode (replicate 6 0) [0x0123456789ABCDEF, 7]"
  have l: "length ?c = 6" by (rule encode_bytes) simp_all
  have "{j. j < 46 \<and> word_bytes (?c[1 := 0]) ! j \<noteq> word_bytes ?c ! j} \<subseteq> {8..<16}"
  proof
    fix j assume "j \<in> {j. j < 46 \<and> word_bytes (?c[1 := 0]) ! j \<noteq> word_bytes ?c ! j}"
    then have "j div 8 = 1" using l by (auto simp: word_bytes_nth nth_list_update split: if_splits)
    then show "j \<in> {8..<16}" by (simp add: div_nat_eqI) linarith
  qed
  from card_mono [OF _ this] show ?thesis
    using reed_solomon_corrects_errors [of "replicate 6 0" "[0x0123456789ABCDEF, 7]" "[0, 0]" "?c[1 := 0]"] l by simp
qed

end
