(* ===== verification/Hqc_Correct.thy ===== *)
theory Hqc_Correct
  imports Hqc_Decaps Reed_Solomon_Decode
begin

text \<open>
  The concatenated code corrects the noise of a decryption, decryption inverts encryption, and a key that is
  encapsulated is the key that is decapsulated, as long as the noise is small enough.
\<close>

section \<open>The concatenated code\<close>

text \<open>The number of bits of a vector that are set in the block of 384 bits of byte \<open>i\<close>.\<close>

definition block_weight :: "u64 list \<Rightarrow> nat \<Rightarrow> nat" where
  "block_weight w i = length (filter (\<lambda>k. bit (w ! (k div 64)) (k mod 64)) [384 * i..<384 * i + 384])"

text \<open>A noise vector that the code corrects: in at most 15 of the 46 blocks 96 bits or more are set.\<close>

definition correctable :: "u64 list \<Rightarrow> bool" where
  "correctable w \<longleftrightarrow> length (filter (\<lambda>i. 96 \<le> block_weight w i) [0..<PARAM_N1]) \<le> PARAM_DELTA"

lemma u32_view_nth:
  "k < 2 * length ws \<Longrightarrow> u32_view ws ! k = ucast (drop_bit (32 * (k mod 2)) (ws ! (k div 2)))"
proof (induction ws arbitrary: k)
  case (Cons w ws)
  consider "k = 0" | "k = 1" | j where "k = Suc (Suc j)" by (cases k rule: nat.exhaust; metis One_nat_def nat.exhaust)
  then show ?case using Cons by cases (simp_all add: u32_view_def)
qed simp

lemma block_bit_vector:
  assumes "384 * i + 384 \<le> 64 * length w" "c < 3" "p < 128"
  shows "block_bit (rm_block w i) c p \<longleftrightarrow> bit (w ! ((384 * i + 128 * c + p) div 64)) ((384 * i + 128 * c + p) mod 64)"
proof -
  define k where "k = 12 * i + (4 * c + p div 32)"
  have p: "p div 32 < 4" using assms(3) by simp
  have k: "k < 2 * length w" using assms p unfolding k_def by linarith
  have e: "384 * i + 128 * c + p = 32 * k + p mod 32" unfolding k_def by simp
  have "(32 * k + p mod 32) div 64 = k div 2" "(32 * k + p mod 32) mod 64 = 32 * (k mod 2) + p mod 32"
  proof -
    have "k = 2 * (k div 2) + k mod 2" by simp
    then have "32 * k + p mod 32 = 64 * (k div 2) + (32 * (k mod 2) + p mod 32)" by linarith
    moreover have "32 * (k mod 2) + p mod 32 < 64" using mod_less_divisor [of 2 k] mod_less_divisor [of 32 p] by linarith
    ultimately show "(32 * k + p mod 32) div 64 = k div 2" "(32 * k + p mod 32) mod 64 = 32 * (k mod 2) + p mod 32"
      by (simp_all add: div_nat_eqI mod_nat_eqI)
  qed
  moreover have "rm_block w i ! (4 * c + p div 32) = u32_view w ! k"
    unfolding rm_block_def k_def using k by (subst nth_drop) (simp_all add: k_def u32_view_def length_concat comp_def sum_list_triv)
  ultimately show ?thesis unfolding e block_bit_def using u32_view_nth [OF k] by (simp add: bit_ucast_iff bit_drop_bit_eq)
qed

lemma noisy_block:
  assumes "length cdw = 276" "length w \<ge> 276" "i < 46"
  shows "rm_errors (unat (word_bytes msg ! i)) (rm_block (vect_add (reed_muller_encode cdw msg) w 276) i) = int (block_weight w i)"
proof -
  define B where "B k \<longleftrightarrow> bit (w ! (k div 64)) (k mod 64)" for k
  let ?a = "reed_muller_encode cdw msg"
  have wrong: "(block_bit (rm_block (vect_add ?a w 276) i) c p \<noteq> rm_bit (unat (word_bytes msg ! i)) p) = B (384 * i + (128 * c + p))"
    if cp: "c < 3" "p < 128" for c p
  proof -
    define k where "k = 384 * i + 128 * c + p"
    have "k < 64 * 276" using cp assms(3) unfolding k_def by linarith
    then have k: "k div 64 < 276" by (simp add: less_mult_imp_div_less)
    have "384 * i + 384 \<le> 64 * 276" using assms(3) by simp
    then have "block_bit (rm_block (vect_add ?a w 276) i) c p \<longleftrightarrow> bit (?a ! (k div 64)) (k mod 64) \<noteq> B k"
      "block_bit (rm_block ?a i) c p \<longleftrightarrow> bit (?a ! (k div 64)) (k mod 64)"
      using cp k reed_muller_encode_view(2) [OF assms(1)] block_bit_vector [of i "vect_add ?a w 276" c p] block_bit_vector [of i ?a c p]
      unfolding k_def [symmetric] B_def by (simp_all add: vect_add_def bit_xor_iff)
    then show ?thesis using reed_muller_encode_block [OF assms(1,3) cp, of msg] by (auto simp: k_def add.assoc)
  qed
  have "rm_errors (unat (word_bytes msg ! i)) (rm_block (vect_add ?a w 276) i) = (\<Sum>c<3. \<Sum>p<128. of_bool (B (384 * i + (128 * c + p))))"
    unfolding rm_errors_def wrong_bits_def by (subst sum.swap) (intro sum.cong refl, simp only: wrong lessThan_iff)
  also have "\<dots> = (\<Sum>c<3. \<Sum>k=c * 128..<c * 128 + 128. of_bool (B (384 * i + k)))"
    using sum.shift_bounds_nat_ivl [of "\<lambda>k. of_bool (B (384 * i + k)) :: int" 0 "c * 128" 128 for c]
    by (simp add: lessThan_atLeast0 mult.commute add.commute)
  also have "\<dots> = (\<Sum>k=0..<384. of_bool (B (384 * i + k)))" unfolding sum.nat_group by (simp add: lessThan_atLeast0)
  also have "\<dots> = (\<Sum>k=384 * i..<384 * i + 384. of_bool (B k))"
    using sum.shift_bounds_nat_ivl [of "\<lambda>k. of_bool (B k) :: int" 0 "384 * i" 384] by (simp add: add.commute)
  also have "\<dots> = int (block_weight w i)"
    unfolding block_weight_def B_def [symmetric] by (simp add: distinct_length_filter Int_commute)
  finally show ?thesis .
qed

lemma code_corrects:
  assumes "length v0 = VEC_N1N2_SIZE_64" "length m = VEC_K_SIZE_64" "length m' = VEC_K_SIZE_64" "VEC_N1N2_SIZE_64 \<le> length w" "correctable w"
  shows "code_decode m' (vect_add (code_encode v0 m) w VEC_N1N2_SIZE_64) = m"
proof -
  let ?t = "reed_solomon_encode (replicate 6 0) m" and ?c = "vect_add (code_encode v0 m) w 276"
  let ?r = "reed_muller_decode (replicate 6 0) ?c"
  have "word_bytes ?r ! j = word_bytes ?t ! j" if "j < 46" "block_weight w j < 96" for j
  proof -
    have "rm_errors (unat (word_bytes ?t ! j)) (rm_block ?c j) < 96"
      unfolding code_encode_def Let_def using noisy_block [OF assms(1,4) that(1)] that(2) by simp
    then show ?thesis using rm_decode_block_correct that(1) by (simp add: reed_muller_decode_bytes)
  qed
  then have "{j. j < 46 \<and> word_bytes ?r ! j \<noteq> word_bytes ?t ! j} \<subseteq> {j. j < 46 \<and> 96 \<le> block_weight w j}" by (auto simp: not_less [symmetric])
  moreover have "{j. j < 46 \<and> 96 \<le> block_weight w j} = set (filter (\<lambda>i. 96 \<le> block_weight w i) [0..<46])"
    by (simp only: set_filter set_upt atLeastLessThan_iff) blast
  ultimately have "card {j. j < 46 \<and> word_bytes ?r ! j \<noteq> word_bytes ?t ! j} \<le> card (set (filter (\<lambda>i. 96 \<le> block_weight w i) [0..<46]))"
    by (intro card_mono) (simp_all only: List.finite_set)
  also have "\<dots> \<le> length (filter (\<lambda>i. 96 \<le> block_weight w i) [0..<46])" by (rule card_length)
  also have "\<dots> \<le> 15" using assms(5) by (simp only: correctable_def)
  finally show ?thesis
    using decode_message [of "replicate 6 0" m m' ?r] assms by (simp add: code_decode_def)
qed

section \<open>Encryption\<close>

lemma pke_noise_length: "vec_ok x \<Longrightarrow> vec_ok y \<Longrightarrow> vec_ok r1 \<Longrightarrow> vec_ok r2 \<Longrightarrow> vec_ok e \<Longrightarrow> length (pke_noise x y r1 r2 e) = VEC_N_SIZE_64"
  by (simp add: pke_noise_def)

lemma decrypt_message:
  assumes ok: "vec_ok x" "vec_ok y" "vec_ok h" "vec_ok r1" "vec_ok r2" "vec_ok e"
    and l: "length v0 = VEC_N1N2_SIZE_64" "length m = VEC_K_SIZE_64" "length m' = VEC_K_SIZE_64"
    and noise: "correctable (pke_noise x y r1 r2 e)"
    and uv: "pke_encrypt v0 m h (pke_public x y h) r1 r2 e = (u, v)"
  shows "pke_decrypt m' u v y = m"
  unfolding decrypt_encrypt [OF ok l(1) uv] using l noise ok by (intro code_corrects) (simp_all add: pke_noise_length)

section \<open>Encapsulation\<close>

text \<open>The noise of an exchange: the vectors of the secret key and those drawn from the hash of the message.\<close>

definition kem_noise :: "u8 list \<Rightarrow> u64 list \<Rightarrow> u64 list option" where
  "kem_noise sk m =
     Option.bind (hqc_secret_key_from_string zero_n zero_n sk) (\<lambda>(x, y, pk).
       let ctx = seedexpander_init (take SEED_BYTES (kem_hash (take VEC_K_SIZE_BYTES (word_bytes m)) G_FCT_DOMAIN))
       in Option.bind (vect_set_random_fixed_weight ctx zero_n PARAM_OMEGA_R) (\<lambda>(r1, ctx).
          Option.bind (vect_set_random_fixed_weight ctx zero_n PARAM_OMEGA_R) (\<lambda>(r2, ctx).
          Option.bind (vect_set_random_fixed_weight ctx zero_n PARAM_OMEGA_E) (\<lambda>(e, ctx).
          Some (pke_noise x y r1 r2 e)))))"

lemma shake_prng_length: "length (fst (shake_prng n st)) = n"
  by (simp add: shake_prng_def)

text \<open>What key generation makes: the two keys hold the seeds, and the public vector is that of the secret ones.\<close>

lemma keygen_parts:
  assumes "hqc_kem_keypair pk0 sk0 g = Some ((res, pk, sk), g')" "length pk0 = PUBLIC_KEY_BYTES" "length sk0 = SEED_BYTES + PUBLIC_KEY_BYTES"
  obtains x y h where "vec_ok x" "vec_ok y" "vec_ok h" "res = 0" "length pk = PUBLIC_KEY_BYTES" "length sk = SEED_BYTES + PUBLIC_KEY_BYTES"
    "hqc_secret_key_from_string zero_n zero_n sk = Some (x, y, pk)" "take PUBLIC_KEY_BYTES (drop SEED_BYTES sk) = pk"
    "hqc_public_key_from_string zero_n zero_n pk = (h, pke_public x y h)"
proof -
  obtain sk_seed g1 where a: "shake_prng SEED_BYTES g = (sk_seed, g1)" by fastforce
  obtain pk_seed g2 where b: "shake_prng SEED_BYTES g1 = (pk_seed, g2)" by fastforce
  obtain h c0 where h: "vect_set_random (seedexpander_init pk_seed) zero_n = (h, c0)" by fastforce
  obtain x c1 y c2 where x: "vect_set_random_fixed_weight (seedexpander_init sk_seed) zero_n PARAM_OMEGA = Some (x, c1)"
    and y: "vect_set_random_fixed_weight c1 zero_n PARAM_OMEGA = Some (y, c2)"
    and k: "res = 0" "pk = hqc_public_key_to_string pk0 pk_seed (pke_public x y h)" "sk = hqc_secret_key_to_string sk0 sk_seed pk"
    using assms(1) by (auto simp: hqc_kem_keypair_def hqc_pke_keygen_def a b h Let_def bind_eq_Some_conv)
  have ok: "vec_ok x" "vec_ok y" "vec_ok h"
    using fixed_weight_correct(1) [OF x] fixed_weight_correct(1) [OF y] vect_set_random_ok [of "seedexpander_init pk_seed"] h by simp_all
  have s: "vec_ok (pke_public x y h)" unfolding pke_public_def Let_def using ok by (intro vect_add_ok vect_mul_correct)
  have l: "length sk_seed = 40" "length pk_seed = 40" using shake_prng_length [of 40 g] shake_prng_length [of 40 g1] a b by simp_all
  have pk: "length pk = 2249" unfolding k using assms(2) l vec_ok_length [OF s] by (simp add: public_key_string)
  show thesis
  proof (rule that [OF ok k(1) pk])
    show "length sk = SEED_BYTES + PUBLIC_KEY_BYTES" unfolding k(3) using assms(3) l pk by (simp add: secret_key_string)
    show "hqc_secret_key_from_string zero_n zero_n sk = Some (x, y, pk)"
      unfolding k(3) using assms(3) l pk x y by (simp add: secret_key_read)
    show "take PUBLIC_KEY_BYTES (drop SEED_BYTES sk) = pk" unfolding k(3) using assms(3) l pk by (simp add: secret_key_string)
    show "hqc_public_key_from_string zero_n zero_n pk = (h, pke_public x y h)"
      unfolding k(2) using public_key_read [OF assms(2) _ s, of pk_seed] l h by simp
  qed
qed

lemma enc_parts:
  assumes "hqc_kem_enc ct0 pk g = Some ((res, ct, ss), g')" "length ct0 = 4481"
  obtains m u v where "fst (vect_set_random_from_prng (replicate VEC_K_SIZE_64 0) g) = m" "length m = VEC_K_SIZE_64" "res = 0"
    "hqc_pke_encrypt (replicate VEC_N1N2_SIZE_64 0) m (kem_hash (take VEC_K_SIZE_BYTES (word_bytes m)) G_FCT_DOMAIN) pk = Some (u, v)"
    "ct = hqc_ciphertext_to_string ct0 u v (kem_hash (take VEC_K_SIZE_BYTES (word_bytes m)) H_FCT_DOMAIN)"
    "ss = kem_hash (kem_mc m u v) K_FCT_DOMAIN" "length ct = 4481" "length ss = SHAKE256_512_BYTES"
proof -
  obtain m g1 where m: "vect_set_random_from_prng (replicate VEC_K_SIZE_64 0) g = (m, g1)" by fastforce
  have lm: "length m = 2"
    using m shake_prng_length [of 16 g] by (auto simp: vect_set_random_from_prng_def Let_def split: prod.splits)
  obtain u v where uv: "hqc_pke_encrypt (replicate VEC_N1N2_SIZE_64 0) m (kem_hash (take VEC_K_SIZE_BYTES (word_bytes m)) G_FCT_DOMAIN) pk = Some (u, v)"
    and k: "res = 0" "ct = hqc_ciphertext_to_string ct0 u v (kem_hash (take VEC_K_SIZE_BYTES (word_bytes m)) H_FCT_DOMAIN)" "ss = kem_hash (kem_mc m u v) K_FCT_DOMAIN"
    using assms(1) by (auto simp: hqc_kem_enc_def m Let_def bind_eq_Some_conv)
  have l: "length u = 277" "length v = 276" using encrypt_lengths [OF uv] by simp_all
  show thesis
  proof (rule that [OF _ lm k(1) uv k(2,3)])
    show "length ct = 4481" unfolding k using assms(2) l by (simp add: ciphertext_string)
  qed (simp_all add: m k)
qed

text \<open>
  Correctness of the key encapsulation: when the keys are generated, a secret is encapsulated under the public
  key, and the noise of this exchange can be corrected, then decapsulation returns 0 and the same secret.
\<close>

lemma kem_agreement:
  assumes keys: "hqc_kem_keypair pk0 sk0 g = Some ((r1, pk, sk), g')" "length pk0 = PUBLIC_KEY_BYTES" "length sk0 = SEED_BYTES + PUBLIC_KEY_BYTES"
    and enc: "hqc_kem_enc ct0 pk gn = Some ((r2, ct, ss), gn')" "length ct0 = 4481"
    and noise: "kem_noise sk (fst (vect_set_random_from_prng (replicate VEC_K_SIZE_64 0) gn)) = Some n" "correctable n"
  shows "hqc_kem_dec ct sk = Some (0, ss)"
proof -
  obtain x y h where ok: "vec_ok x" "vec_ok y" "vec_ok h" and sk: "hqc_secret_key_from_string zero_n zero_n sk = Some (x, y, pk)"
      "take PUBLIC_KEY_BYTES (drop SEED_BYTES sk) = pk" and pk: "hqc_public_key_from_string zero_n zero_n pk = (h, pke_public x y h)"
    by (rule keygen_parts [OF keys])
  obtain m u v where m: "fst (vect_set_random_from_prng (replicate VEC_K_SIZE_64 0) gn) = m" "length m = 2"
    and uv: "hqc_pke_encrypt (replicate VEC_N1N2_SIZE_64 0) m (kem_hash (take VEC_K_SIZE_BYTES (word_bytes m)) G_FCT_DOMAIN) pk = Some (u, v)"
    and ct: "ct = hqc_ciphertext_to_string ct0 u v (kem_hash (take VEC_K_SIZE_BYTES (word_bytes m)) H_FCT_DOMAIN)"
    and ss: "ss = kem_hash (kem_mc m u v) K_FCT_DOMAIN"
    by (rule enc_parts [OF enc])
  let ?c = "seedexpander_init (take SEED_BYTES (kem_hash (take VEC_K_SIZE_BYTES (word_bytes m)) G_FCT_DOMAIN))"
  obtain r1 c1 r2 c2 e c3 where r1: "vect_set_random_fixed_weight ?c zero_n PARAM_OMEGA_R = Some (r1, c1)"
      and r2: "vect_set_random_fixed_weight c1 zero_n PARAM_OMEGA_R = Some (r2, c2)"
      and e: "vect_set_random_fixed_weight c2 zero_n PARAM_OMEGA_E = Some (e, c3)"
      and en: "pke_encrypt (replicate VEC_N1N2_SIZE_64 0) m h (pke_public x y h) r1 r2 e = (u, v)"
    using uv by (auto simp: hqc_pke_encrypt_def pk Let_def bind_eq_Some_conv)
  have r: "vec_ok r1" "vec_ok r2" "vec_ok e"
    using fixed_weight_correct(1) [OF r1] fixed_weight_correct(1) [OF r2] fixed_weight_correct(1) [OF e] by simp_all
  have n: "n = pke_noise x y r1 r2 e" using noise(1) unfolding m kem_noise_def sk by (simp add: Let_def r1 r2 e)
  have u: "vec_ok u" using en r ok unfolding pke_encrypt_def Let_def by (auto intro!: vect_add_ok vect_mul_correct)
  have v: "length v = 276" using encrypt_lengths [OF uv] by simp
  have d: "hqc_pke_decrypt (replicate VEC_K_SIZE_64 0) u v sk = Some m"
    unfolding hqc_pke_decrypt_def sk using decrypt_message [OF ok r _ m(2) _ noise(2) [unfolded n] en] by simp
  have ct: "hqc_ciphertext_from_string zero_n (replicate VEC_N1N2_SIZE_64 0) (replicate SHAKE256_512_BYTES 0) ct =
      (u, v, kem_hash (take VEC_K_SIZE_BYTES (word_bytes m)) H_FCT_DOMAIN)"
    unfolding ct by (rule ciphertext_read [OF enc(2) u v]) simp
  show ?thesis unfolding decapsulation_cases ct using d uv by (simp add: sk(2) ss)
qed

section \<open>Decryption inverts encryption\<close>

text \<open>
  C11. Decryption inverts encryption.  For all well-formed vectors of a key and of an encryption whose noise has 96
  bits or more in at most 15 of its 46 blocks of 384 bits, decrypting the cipher text with the secret vector
  gives back the message: the products cancel, the duplicated Reed-Muller code corrects the bytes whose blocks
  have little noise, and the Reed-Solomon code the others.
\<close>

theorem decryption_inverts_encryption:
  assumes "vec_ok x" "vec_ok y" "vec_ok h" "vec_ok r1" "vec_ok r2" "vec_ok e"
    and "length v0 = VEC_N1N2_SIZE_64" "length m = VEC_K_SIZE_64" "length m' = VEC_K_SIZE_64"
    and "correctable (pke_noise x y r1 r2 e)"
    and "pke_encrypt v0 m h (pke_public x y h) r1 r2 e = (u, v)"
  shows "pke_decrypt m' u v y = m"
  using assms by (rule decrypt_message)

text \<open>A noise vector with one block full of errors, and no products.\<close>

lemma vect_mul_zero:
  assumes "vec_ok a" "vec_ok z" "vval z = 0"
  shows "vval (vect_mul a z) = 0"
proof -
  have "z = vadd z z" using assms by (intro vec_ok_eqI vect_add_ok) (simp_all only: vval_vadd xor_self_eq)
  then have "vect_mul a z = vadd (vect_mul a z) (vect_mul a z)" using hqc_ring.mul_add [OF assms(1,2,2)] by simp
  then show ?thesis using vval_vadd [of "vect_mul a z" "vect_mul a z"] hqc_ring.mul_ok [OF assms(1,2)] by simp
qed

lemma pke_noise_zero:
  assumes "vec_ok x" "vec_ok y" "vec_ok e" "vec_ok z" "vval z = 0"
  shows "pke_noise x y z z e = e"
proof (rule vec_ok_eqI)
  have z: "vec_ok (vect_mul x z)" "vec_ok (vect_mul z y)" "vval (vect_mul x z) = 0" "vval (vect_mul z y) = 0"
    using assms vect_mul_zero hqc_ring.mul_commute [of z y] by (simp_all add: hqc_ring.mul_ok)
  then show "vec_ok (pke_noise x y z z e)" "vval (pke_noise x y z z e) = vval e"
    using assms(3) by (simp_all add: pke_noise_def vect_add_ok vval_vadd)
qed (rule assms(3))

definition one_bad_block :: "u64 list" where
  "one_bad_block = replicate 6 (- 1) @ replicate 270 0"

lemma one_bad_block: "correctable (one_bad_block @ [0])"
proof -
  have "block_weight (one_bad_block @ [0]) i = 0" if "1 \<le> i" "i < 46" for i
  proof -
    have "\<not> bit ((one_bad_block @ [0]) ! (k div 64)) (k mod 64)" if "k \<in> set [384 * i..<384 * i + 384]" for k
    proof -
      have "6 \<le> k div 64" "k div 64 < 276" using that \<open>1 \<le> i\<close> \<open>i < 46\<close> by (simp_all add: less_eq_div_iff_mult_less_eq less_mult_imp_div_less)
      then show ?thesis by (simp add: one_bad_block_def nth_append)
    qed
    then show ?thesis unfolding block_weight_def length_0_conv by (intro filter_False ballI)
  qed
  then have "\<not> 96 \<le> block_weight (one_bad_block @ [0]) i" if "i \<in> set [1..<46]" for i using that by simp
  then have "filter (\<lambda>i. 96 \<le> block_weight (one_bad_block @ [0]) i) [1..<46] = []" by (intro filter_False ballI)
  moreover have "[0..<46] = [0] @ [1..<46 :: nat]" using upt_conv_Cons [of 0 46] by simp
  moreover have "length (filter P [a]) \<le> 1" for P and a :: nat by simp
  ultimately show ?thesis unfolding correctable_def by (simp only: filter_append append_Nil2) (rule order_trans, assumption, simp)
qed

theorem decryption_inverts_encryption_witness:
  "(let x = replicate 276 3 @ [0]; y = replicate 276 5 @ [0]; h = replicate 276 9 @ [0]; z = replicate 276 0 @ [0];
        (u, v) = pke_encrypt (replicate 276 0) [11, 13] h (pke_public x y h) z z (one_bad_block @ [0])
    in pke_decrypt [0, 0] u v y) = [11, 13]"
proof -
  have ok: "vec_ok (replicate 276 c @ [0])" "vec_ok (one_bad_block @ [0])" for c by (rule vec_ok_pad, simp add: one_bad_block_def)+
  have z: "vval (replicate 276 0 @ [0]) = 0" by (rule bit_eqI) (simp add: bit_vval nth_append)
  obtain u v where uv: "pke_encrypt (replicate 276 0) [11, 13] (replicate 276 9 @ [0])
      (pke_public (replicate 276 3 @ [0]) (replicate 276 5 @ [0]) (replicate 276 9 @ [0])) (replicate 276 0 @ [0]) (replicate 276 0 @ [0]) (one_bad_block @ [0]) = (u, v)"
    by fastforce
  have "correctable (pke_noise (replicate 276 3 @ [0]) (replicate 276 5 @ [0]) (replicate 276 0 @ [0]) (replicate 276 0 @ [0]) (one_bad_block @ [0]))"
    unfolding pke_noise_zero [OF ok(1,1,2,1) z] by (rule one_bad_block)
  from decryption_inverts_encryption [OF ok(1) ok(1) ok(1) ok(1) ok(1) ok(2) _ _ _ this uv, of "[0, 0]"]
  show ?thesis unfolding Let_def uv by simp
qed

end
