(* ===== verification/Hqc_Api.thy ===== *)
theory Hqc_Api
  imports Hqc_Correct Handshake_Inv
begin

text \<open>
  The key encapsulation of HQC as the argument that the protocol takes: the buffers have the sizes of \<open>api.h\<close>, and their
  former contents do not matter because every call that returns overwrites them.  A call whose sampling does not
  end never returns in the program; here it has the code -1 and buffers of zeros, so that nothing that follows a
  code of 0 depends on it.
\<close>

abbreviation (input) CIPHERTEXT_BYTES :: nat where "CIPHERTEXT_BYTES \<equiv> 4481"
abbreviation (input) SECRET_KEY_BYTES :: nat where "SECRET_KEY_BYTES \<equiv> 2289"
abbreviation (input) SHARED_SECRET_BYTES :: nat where "SHARED_SECRET_BYTES \<equiv> 64"

definition hqc_api :: "u64 list kem_api" where
  "hqc_api =
     \<lparr>crypto_kem_keypair = (\<lambda>g. case hqc_kem_keypair (replicate PUBLIC_KEY_BYTES 0) (replicate SECRET_KEY_BYTES 0) g of
        None \<Rightarrow> ((- 1, replicate PUBLIC_KEY_BYTES 0, replicate SECRET_KEY_BYTES 0), g) | Some r \<Rightarrow> r),
      crypto_kem_enc = (\<lambda>pk g. case hqc_kem_enc (replicate CIPHERTEXT_BYTES 0) pk g of
        None \<Rightarrow> ((- 1, replicate CIPHERTEXT_BYTES 0, replicate SHARED_SECRET_BYTES 0), g) | Some r \<Rightarrow> r),
      crypto_kem_dec = (\<lambda>ct sk. case hqc_kem_dec ct sk of None \<Rightarrow> (- 1, replicate SHARED_SECRET_BYTES 0) | Some r \<Rightarrow> r)\<rparr>"

lemma hqc_keypair_ok:
  "crypto_kem_keypair hqc_api g = ((0, pk, sk), g') \<Longrightarrow>
   hqc_kem_keypair (replicate PUBLIC_KEY_BYTES 0) (replicate SECRET_KEY_BYTES 0) g = Some ((0, pk, sk), g')"
  by (simp add: hqc_api_def split: option.splits)

lemma hqc_enc_ok:
  "crypto_kem_enc hqc_api pk g = ((0, ct, ss), g') \<Longrightarrow> hqc_kem_enc (replicate CIPHERTEXT_BYTES 0) pk g = Some ((0, ct, ss), g')"
  by (simp add: hqc_api_def split: option.splits)

lemma hqc_dec_length: "hqc_kem_dec ct sk = Some (rc, ss) \<Longrightarrow> length ss = 64"
  by (auto simp: hqc_kem_dec_def Let_def bind_eq_Some_conv split: prod.splits)

text \<open>The exchange of a handshake over HQC: the last hypothesis of the agreement of the two ends on the key.\<close>

lemma hqc_exchange:
  assumes "crypto_kem_keypair hqc_api g = ((0, pk, sk), g')" "crypto_kem_enc hqc_api pk gn = ((0, ct, ss), gn')"
    and "kem_noise sk (fst (vect_set_random_from_prng (replicate VEC_K_SIZE_64 0) gn)) = Some n" "correctable n"
  shows "crypto_kem_dec hqc_api ct sk = (0, ss)"
  using kem_agreement [OF hqc_keypair_ok [OF assms(1)] _ _ hqc_enc_ok [OF assms(2)] _ assms(3,4)] by (simp add: hqc_api_def)

section \<open>The interface of the protocol\<close>

text \<open>
  C15. The key encapsulation meets what the protocol's invariants rely on: for every state of the generator and every
  content of the arguments, also public keys, cipher texts and secret keys that no call has made, the results
  have the sizes of the buffers that the sessions and the fragments are built for.
\<close>

theorem hqc_meets_interface: "kem_sized hqc_api"
proof -
  have "length pk = 2249 \<and> length sk = 2289" if e: "crypto_kem_keypair hqc_api g = ((rc, pk, sk), g')" for g rc pk sk g'
  proof (cases "hqc_kem_keypair (replicate PUBLIC_KEY_BYTES 0) (replicate SECRET_KEY_BYTES 0) g")
    case (Some r)
    then have "hqc_kem_keypair (replicate PUBLIC_KEY_BYTES 0) (replicate SECRET_KEY_BYTES 0) g = Some ((rc, pk, sk), g')"
      using e by (simp add: hqc_api_def)
    then show ?thesis by (rule keygen_parts) simp_all
  qed (use e in \<open>auto simp: hqc_api_def\<close>)
  moreover have "length ct = 4481 \<and> length ss = 64" if e: "crypto_kem_enc hqc_api pk g = ((rc, ct, ss), g')" for pk g rc ct ss g'
  proof (cases "hqc_kem_enc (replicate CIPHERTEXT_BYTES 0) pk g")
    case (Some r)
    then have "hqc_kem_enc (replicate CIPHERTEXT_BYTES 0) pk g = Some ((rc, ct, ss), g')" using e by (simp add: hqc_api_def)
    then show ?thesis by (rule enc_parts) simp_all
  qed (use e in \<open>auto simp: hqc_api_def\<close>)
  moreover have "length ss = 64" if "crypto_kem_dec hqc_api ct sk = (rc, ss)" for ct sk rc ss
    using that hqc_dec_length [of ct sk rc ss] by (auto simp: hqc_api_def split: option.splits)
  ultimately show ?thesis unfolding kem_sized_def by blast
qed

end
