(* ===== verification/Spec2Isabelle.thy ===== *)
theory Spec2Isabelle
  imports Handshake_Recovery Server_Establish Node_Run Radio_Ring Hqc_Api
begin

text \<open>
  \<^bold>\<open>A post-quantum handshake for constrained nodes: verification of the C program\<close>

  \<^bold>\<open>The program.\<close>  Nodes and a root run Contiki-NG on EFR32 boards.  A node asks the root for its HQC public key
  (GETPK); the root answers with the key (PK); the node encapsulates a secret and sends the ciphertext (CT); the
  root decapsulates it and acknowledges it (ACK).  Both ends derive an AES-256 key from the secret, and from then
  on the node sends encrypted temperature readings (TEMP) and reports of its counters (METRICS).  PK and CT do not
  fit into a packet: they are cut into fragments of 64 bytes, reassembled in one of two slots, and repaired by
  negative acknowledgements (NACK) or by whole repetitions after a timeout.  Everything that is sent goes
  through a queue of 96 packets that a process empties one packet at a time.

  \<^bold>\<open>The theories\<close>, in the order of the layers, with the sources they translate:

  \<^item> \<open>Prelude\<close>: words, byte lists, \<open>memcpy\<close>, first-index search, counting, and the interfaces \<open>wire_format\<close>,
    \<open>canonical_format\<close> (codecs), \<open>slot_table\<close> (tables searched from the front) and \<open>bounded_fifo\<close> (rings).
  \<^item> \<open>Protocol\<close>: \<open>src/src/common/protocol.h\<close>, the packet header and the payload of a measurement.
  \<^item> \<open>Fragmentation\<close>: \<open>src/src/PQC/fragmentation.c\<close>, cutting and reassembly; the interface \<open>packet_sender\<close> is what
    cutting needs of a transmit function.
  \<^item> \<open>Nack\<close>: \<open>src/src/common/nack.c\<close>.  \<open>Metrics\<close>: \<open>src/src/metrics/metrics.c\<close>, counters and reports.
  \<^item> \<open>Tiny_AES\<close>: \<open>src/extern/tiny_aes/aes.c\<close> in its AES-256 configuration.
  \<^item> \<open>Fips202\<close>: \<open>lib/fips202/fips202.c\<close> and \<open>src/shake_ds.c\<close> of the HQC-128 implementation: Keccak, SHA-3, SHAKE.
  \<^item> \<open>Crypto_Worker\<close>: \<open>src/src/PQC/crypto_worker.c\<close>, key derivation and encryption; the interface \<open>stream_cipher\<close>.
  \<^item> \<open>Session_Manager\<close>: \<open>src/src/PQC/session_manager.c\<close>, a session and the table of ten.
  \<^item> \<open>Tx_Queue\<close> and \<open>PQC\<close>: \<open>src/src/PQC/PQC.c\<close>, the transmit queue, and the application messages.
  \<^item> \<open>Handshake\<close>: \<open>src/src/PQC/handshake_fsm.c\<close>.  Its lemmas are in \<open>Handshake_Slots\<close> (reassembly slots, queueing),
    \<open>Handshake_Inv\<close> (the invariant), \<open>Handshake_Steps\<close> (one fragment, then a run of fragments), \<open>Handshake_Agreement\<close>
    (a complete message at either end), \<open>Handshake_Safety\<close> (what establishes a session) and \<open>Handshake_Recovery\<close>
    (negative acknowledgements and repetitions).
  \<^item> \<open>Console\<close>: \<open>src/src/Temp/temp_measurement.c\<close> and the number printing of \<open>src/server_main.c\<close>.
  \<^item> \<open>Server_Main\<close>: \<open>src/server_main.c\<close>, the root program; \<open>Server_Inv\<close> (one packet touches one session),
    \<open>Server_Run\<close> (the step relation and its invariants) and \<open>Server_Establish\<close> (a handshake through the callback).
  \<^item> \<open>Node_Main\<close>: \<open>src/node_main.c\<close>, the node program; \<open>Node_Run\<close> (its step relation, its invariant, the request and the report).
  \<^item> \<open>Radio_Driver\<close> and \<open>Radio_Ring\<close>: \<open>src/radio_diver/efr32-radio_V2_corregido.c\<close>, its receive ring and its
    transmission with bounded waits.

  and for the key encapsulation, the sources of \<open>src/extern/HQC-Round4/Additional_Implementation/hqc-128/src\<close>:

  \<^item> \<open>Gf2_Poly\<close>: polynomials over GF(2) as numbers, their product without carries and their remainders.
  \<^item> \<open>Gf\<close> and \<open>Gf_Ops\<close>: \<open>gf.c\<close>, against the type \<open>gf256\<close>, an instance of the library's class of fields.
  \<^item> \<open>Gf2x\<close> and \<open>Gf2x_Mul\<close>: \<open>gf2x.c\<close>, the product of long polynomials in a scratch memory.
  \<^item> \<open>Hqc_Vector\<close>, \<open>Hqc_Vector_Lemmas\<close> and \<open>Hqc_Format\<close>: \<open>shake_prng.c\<close>, \<open>vector.c\<close> and \<open>parsing.c\<close>.
  \<^item> \<open>Reed_Muller\<close> and \<open>Reed_Muller_Decode\<close>: \<open>reed_muller.c\<close>.
  \<^item> \<open>Fft\<close>, \<open>Fft_Lemmas\<close> and \<open>Fft_Roots\<close>: \<open>fft.c\<close>, the additive Fourier transform.
  \<^item> \<open>Reed_Solomon\<close>: \<open>reed_solomon.c\<close>.  Its lemmas are in \<open>Berlekamp\<close> (recurrences over any field), \<open>Reed_Solomon_Code\<close> (tables,
    encoder, syndromes), \<open>Reed_Solomon_Locator\<close> (the locator polynomial) and \<open>Reed_Solomon_Decode\<close> (positions and values).
  \<^item> \<open>Hqc_Kem\<close>: \<open>code.c\<close>, \<open>hqc.c\<close> and \<open>kem.c\<close>; \<open>Hqc_Noise\<close> (the interface \<open>vector_ring\<close> and what a decryption sees), \<open>Hqc_Decaps\<close>
    (the result of a decapsulation), \<open>Hqc_Correct\<close> (decryption inverts encryption) and \<open>Hqc_Api\<close> (\<open>api.h\<close>, the three functions
    as the argument of the protocol).

  \<^bold>\<open>How the model corresponds to the code.\<close>  Structures are records, enumerations datatypes, integers words of their
  width with wrap-around arithmetic, arrays lists of their size.  A function that changes a structure takes it and
  returns it; static variables are the fields of \<open>hs_env\<close>, \<open>tx_state\<close>, \<open>session_manager\<close>, \<open>root_state\<close>, \<open>node_state\<close> and
  \<open>radio_state\<close>.  A stored session pointer is a \<open>session_ref\<close>.  Flags are booleans and null pointers \<^const>\<open>None\<close>, where the
  program can produce them.  Each reading of the clock is an argument: \<open>clk k\<close> is the reading at the \<open>k\<close>-th program
  point of a function, and every theorem holds for all readings unless it says otherwise.  Sending a packet appends
  it to \<open>tx_out\<close>; printing is modelled for the lines of the CSV log.

  \<^bold>\<open>Parameters.\<close>  The protocol is verified for any key encapsulation: its three functions are the record \<open>kem_api\<close> with
  the state of their generator.  Invariants need that their results have the documented sizes (\<open>kem_sized\<close>), agreement
  that the one exchange it is about decapsulates to what was encapsulated.  \<open>hqc_api\<close> is the record of the HQC
  functions; \<open>hqc_meets_interface\<close> shows the first, and \<open>hqc_exchange\<close> the second for every exchange whose noise the code
  corrects.  RAIL, the routing layer and the sensor appear as the values they return.

  \<^bold>\<open>What is shown.\<close>  The two ends agree on the key over an unreliable network, and a session is established in no
  other way; both programs keep their invariants in every reachable state, the root's established sessions hold decapsulated
  keys, and a packet touches one session only; losses are repaired exactly and repetition ends; the queue serves by priority and
  takes turns between nodes, drains and keeps count; the codecs are canonical; measurements arrive once and in order; the ciphers invert and
  equal their specifications.  Of HQC: the arithmetic is that of the field and of the ring, the transform is the
  evaluation of a polynomial, sampled vectors have their weight, both codes correct the errors they are made for,
  decryption inverts encryption up to the noise that the codes correct, and decapsulation accepts exactly the
  cipher texts that encrypting again gives.  The properties are stated at the end of the theory of their component,
  and here when they span several.

  \<^bold>\<open>Bounds.\<close>  The loops of the code are bounded and modelled by structural recursion over their index ranges, by
  recursion with a termination proof (absorbing, squeezing, CBC, the product of polynomials, the transform), or, for the
  two busy waits of the radio, over a list of what happens at each iteration, the interrupts that run and the readings
  of the clock, where running out of iterations is \<^const>\<open>None\<close>; the interrupts between the other statements of a
  transmission are arguments too.  The rejection sampling of HQC ends only with probability one: it is a partial function,
  and the functions that call it have the value \<^const>\<open>None\<close> when it does not end.

  \<^bold>\<open>Not modelled.\<close>  That the sampling ends for the output of SHAKE256, and the probability that the noise of an exchange
  can be corrected.  The free-text log lines and the lines under \<open>VERBOSE\<close>, the sensor and clock drivers, the initialisation
  of RAIL and the register accesses, the reset diagnostics, the build files, the reference implementation and the
  test drivers have no state of the protocol.
\<close>

section \<open>The handshake\<close>



definition in_order :: "nat \<Rightarrow> frag_event list" where
  "in_order n = map (Arrive (\<lambda>k. 0) 0) [0..<n]"

lemma arrived_in_order: "arrived (in_order n) = {..<n}"
proof -
  have "arrived (map (Arrive (\<lambda>k. 0) 0) is) = set is" for "is" by (induction "is") auto
  then show ?thesis by (auto simp: in_order_def)
qed

lemma in_order_delivers:
  assumes "frag_count data = n" "0 < n"
  shows "delivers cs data (in_order n)" and "frag_count data - 1 \<notin> arrived (butlast (in_order n))"
proof -
  obtain m where m: "n = Suc m" using assms(2) by (cases n) auto
  have sn: "in_order n = in_order m @ [Arrive (\<lambda>k. 0) 0 m]" by (simp add: in_order_def m)
  have bl: "butlast (in_order n) = in_order m" by (simp add: sn)
  then show "frag_count data - 1 \<notin> arrived (butlast (in_order n))" using assms(1) m by (simp add: arrived_in_order)
  have t: "all_in_time cs 0 (map (Arrive (\<lambda>k. 0) 0) is)" "arrival_start (map (Arrive (\<lambda>k. 0) 0) is) = 0" for "is"
    by (induction "is") (simp_all add: in_time_def)
  have "all_in_time cs (arrival_start (in_order n)) (in_order n)" unfolding in_order_def t(2) by (rule t(1))
  moreover have "m \<notin> arrived (in_order m)" "m \<in> {..<frag_count data}" by (simp_all add: arrived_in_order assms(1) m)
  moreover have "in_order n \<noteq> []" "last (in_order n) \<noteq> Send_Tick" by (simp_all add: sn)
  ultimately show "delivers cs data (in_order n)"
    unfolding delivers_def bl using assms(1) arrived_in_order [of n] by blast
qed

lemma toy_env: "hs_inv (hs_env_boot ())" "tx_free (he_tx (hs_env_boot ())) = 96"
  "slot_available r (he_rx_slots (hs_env_boot ()))" "\<not> he_root_has_keypair (hs_env_boot ())"
  by (rule hs_inv_boot)
    (auto simp: hs_env_boot_def tx_free_def slot_available_def rx_slot_find_def first_index_None rx_slot_zero_def less_Suc_eq numeral_2_eq_2)






text \<open>
  C4.  A session becomes established in two ways only.  A node's session does when an acknowledgement of
  one byte, the identifier of the ciphertext it is waiting for, has been reassembled, and its keys do not
  change; the root's does when a complete ciphertext has been reassembled while it waits for one and
  decapsulation under the root's secret key succeeded, and then its shared secret is the result and its
  encryption key the one derived from it.
\<close>

theorem established_only_by_handshake:
  assumes h: "hs_fsm_handle_fragment kem cs clk send self data len s env = (ok, s', env')"
    and e: "\<not> session_is_established s" "session_is_established s'"
  shows "\<exists>hdr rx. parse_fragment_header data len = Some hdr \<and>
      hs_rx_after cs (\<lambda>k. clk (1 + k)) self data hdr (rx_slots_gc cs (clk 0) (he_rx_slots env)) = Some rx \<and>
      fragment_rx_complete rx \<and>
      ((session_is_node s \<and> s_state s = SESSION_STATE_WAIT_ACK \<and> s_pending_msg_type s = PQC_MSG_CT \<and>
        fh_msg_type hdr = PQC_MSG_ACK \<and> unat (fragment_rx_len rx) = 1 \<and> rx_buffer rx ! 0 = s_pending_msg_id s \<and>
        s_ss s' = s_ss s \<and> s_aes_key s' = s_aes_key s) \<or>
       (session_is_root s \<and> s_state s = SESSION_STATE_WAIT_CT \<and> he_root_has_keypair env \<and>
        fh_msg_type hdr = PQC_MSG_CT \<and> unat (fragment_rx_len rx) = 4481 \<and>
        crypto_kem_dec kem (memcpy_at (he_root_ct env) 0 (take 4481 (rx_buffer rx))) (he_root_sk env) = (0, s_ss s') \<and>
        s_aes_key s' = crypto_worker_derive_aes_key (s_ss s')))"
proof -
  obtain hdr s0 rx s1 slots where m: "parse_fragment_header data len = Some hdr" "hs_gate_session hdr s = Some s0"
    "hs_gate_message hdr s0 = Gate_Pass" "fh_msg_type hdr \<noteq> PQC_MSG_NACK"
    "hs_rx_after cs (\<lambda>k. clk (1 + k)) self data hdr (rx_slots_gc cs (clk 0) (he_rx_slots env)) = Some rx"
    "fragment_rx_complete rx" "same_core s0 s1"
    "hs_complete_message kem cs (\<lambda>k. clk (1 + (6 + k))) send self rx hdr s1 (env\<lparr>he_rx_slots := slots\<rparr>) = (ok, s', env')"
    by (rule hs_establishing_message [OF h e])
  note f = hs_gate_session_fields [OF m(2)] same_core_fields [OF m(7)]
  have "\<not> session_is_established s1" using e(1) f by (simp add: session_is_established_def)
  from hs_complete_message_establishes [OF m(8) this e(2)] f m(3)
  have "(session_is_node s \<and> s_state s = SESSION_STATE_WAIT_ACK \<and> s_pending_msg_type s = PQC_MSG_CT \<and>
        fh_msg_type hdr = PQC_MSG_ACK \<and> unat (fragment_rx_len rx) = 1 \<and> rx_buffer rx ! 0 = s_pending_msg_id s \<and>
        s_ss s' = s_ss s \<and> s_aes_key s' = s_aes_key s) \<or>
       (session_is_root s \<and> s_state s = SESSION_STATE_WAIT_CT \<and> he_root_has_keypair env \<and>
        fh_msg_type hdr = PQC_MSG_CT \<and> unat (fragment_rx_len rx) = 4481 \<and>
        crypto_kem_dec kem (memcpy_at (he_root_ct env) 0 (take 4481 (rx_buffer rx))) (he_root_sk env) = (0, s_ss s') \<and>
        s_aes_key s' = crypto_worker_derive_aes_key (s_ss s'))"
    by (auto simp: session_is_node_def session_is_root_def hs_gate_message_def split: if_splits)
  with m(1,5,6) show ?thesis by blast
qed

text \<open>A node that holds keys and waits for the acknowledgement of ciphertext 3.\<close>

definition keyed_node :: session_t where
  "keyed_node = waiting_node\<lparr>s_aes_key := crypto_worker_derive_aes_key (s_ss waiting_node)\<rparr>"

theorem established_only_by_handshake_witness:
  "\<exists>ok s' env'. hs_fsm_handle_fragment constant_kem 128 (\<lambda>k. 0) (queue_send 0 5) Local_Session
      (wire_fragment [3] PQC_MSG_ACK 7 0 0 0) 11 keyed_node (hs_env_boot ()) = (ok, s', env') \<and>
    session_is_established s' \<and> s_ss s' = s_ss keyed_node \<and> s_aes_key s' = s_aes_key keyed_node"
proof -
  let ?w = "wire_fragment [3] PQC_MSG_ACK 7 0 0 0" and ?e = "hs_env_boot ()"
  have l: "length ?w = 11" by (simp add: wire_fragment_length chunk_def)
  have fc: "frag_count [3 :: u8] = 1" by (simp add: frag_count_eq)
  have f: "s_pending_msg_id keyed_node = 3" "s_node_id keyed_node = 7" "session_is_node keyed_node" "\<not> session_is_established keyed_node"
    by (simp_all add: keyed_node_def waiting_node_def session_ops session_zero_def)
  have k: "node_awaits_ack (keyed_node\<lparr>s_next_msg_id := 3\<rparr>) (s_ss keyed_node) keyed_node"
    by (simp add: node_awaits_ack_def keyed_node_def waiting_node_def session_ops session_zero_def)
  obtain ok s' env' where h: "hs_fsm_handle_fragment constant_kem 128 (\<lambda>k. 0) (queue_send 0 5) Local_Session ?w 11 keyed_node ?e = (ok, s', env')"
    by (metis prod_cases3)
  have "frag_run constant_kem 128 (queue_send 0 5) Local_Session [3] PQC_MSG_ACK 7 0 (in_order 1) (keyed_node, ?e) = (s', env')"
    using h l by (simp add: frag_run_def in_order_def Let_def)
  moreover have "delivers 128 [s_pending_msg_id keyed_node] (in_order 1)"
    using in_order_delivers(1) [OF fc] f(1) by simp
  ultimately have e: "session_is_established s'"
    using node_receives_ack [OF toy_env(1) k f(3) toy_env(3), of 128 "in_order 1" constant_kem 0 5 Local_Session 0] f by auto
  from established_only_by_handshake [OF h f(4) e] f(3) have "s_ss s' = s_ss keyed_node \<and> s_aes_key s' = s_aes_key keyed_node"
    by (auto simp: session_is_node_def session_is_root_def)
  with h e show ?thesis by blast
qed

end
